(* ===== verification/Dyco_Prelude.thy ===== *)
theory Dyco_Prelude
  imports Main "HOL-Library.Word"
begin

text \<open>
  Shared vocabulary of the development: the machine types of the C code, its pointers and
  allocation, the bit macros of \<^verbatim>\<open>include/dyco/dyco_coroutine.h\<close>, and the resumption
  monad in which every function that can fault or switch context is written.

  Pointers are natural numbers with \<open>NULL = 0\<close>. \<open>malloc\<close> hands out a new
  address each time (addresses are never reused, so an access to freed memory is always seen)
  and fails exactly when the oracle \<open>oom\<close> says so for that call.

  A computation ends in one of three ways: it returns a value (\<open>Done\<close>), it stops the
  process or reaches undefined behaviour (\<open>Fault\<close>), or it calls
  \<^verbatim>\<open>swapcontext(save, load)\<close> (\<open>Swap\<close>), which carries the state at the switch
  and the continuation that runs when somebody loads the saved context again.
\<close>

unbundle bit_operations_syntax

named_theorems dyco_monad \<open>evaluation of the resumption monad\<close>
named_theorems dyco_bits \<open>the status word and its macros\<close>

section \<open>Machine types, pointers and allocation\<close>

type_synonym addr = nat
type_synonym i32 = "32 word"
type_synonym u32 = "32 word"
type_synonym u64 = "64 word"
type_synonym fd = int

abbreviation (input) NULL :: addr where "NULL \<equiv> 0"

record mem =
  nalloc :: nat
  oom :: "nat \<Rightarrow> bool"

definition malloc :: "mem \<Rightarrow> addr \<times> mem" where
  "malloc m = (if oom m (nalloc m) then NULL else Suc (nalloc m), m\<lparr>nalloc := Suc (nalloc m)\<rparr>)"

lemma malloc_oom [simp]: "malloc m = (p, m') \<Longrightarrow> oom m' = oom m"
  by (auto simp: malloc_def)

lemma malloc_fresh: "malloc m = (p, m') \<Longrightarrow> p \<le> nalloc m' \<and> (p = NULL \<or> nalloc m < p)"
  by (auto simp: malloc_def split: if_splits)

text \<open>An allocator that never fails.\<close>

definition plenty :: "mem \<Rightarrow> bool" where
  "plenty m = (\<forall>i. \<not> oom m i)"

lemma plentyE:
  assumes "plenty m"
  obtains p m' where "malloc m = (p, m')" "p \<noteq> NULL" "plenty m'"
  using assms by (auto simp: malloc_def plenty_def)

section \<open>The bit macros\<close>

definition BIT :: "nat \<Rightarrow> u32" where
  "BIT x = push_bit x 1"

definition SETBIT :: "nat \<Rightarrow> u32 \<Rightarrow> u32" where
  "SETBIT x d = d OR BIT x"

definition CLRBIT :: "nat \<Rightarrow> u32 \<Rightarrow> u32" where
  "CLRBIT x d = d AND NOT (BIT x)"

definition TESTBIT :: "u32 \<Rightarrow> nat \<Rightarrow> bool" where
  "TESTBIT d x = (d AND BIT x \<noteq> 0)"

lemma TESTBIT_bit: "TESTBIT d x = bit d x"
  by (simp add: TESTBIT_def BIT_def and_exp_eq_0_iff_not_bit flip: push_bit_eq_mult)

lemma TESTBIT_SETBIT [simp, dyco_bits]:
  "x < 32 \<Longrightarrow> TESTBIT (SETBIT x d) y = (x = y \<or> TESTBIT d y)"
  by (auto simp: TESTBIT_bit SETBIT_def BIT_def bit_simps)

lemma TESTBIT_CLRBIT [simp, dyco_bits]:
  "x < 32 \<Longrightarrow> TESTBIT (CLRBIT x d) y = (x \<noteq> y \<and> TESTBIT d y)"
  by (auto simp: TESTBIT_bit CLRBIT_def BIT_def bit_simps dest: bit_imp_le_length)

section \<open>The resumption monad\<close>

datatype fault =
    Exit         \<comment> \<open>DYCO_MUST, DYCO_MUSTNOT or DYCO_ABORT ended the process\<close>
  | BadAccess    \<comment> \<open>undefined behaviour: a NULL or freed object is accessed\<close>
  | DoubleFree   \<comment> \<open>undefined behaviour: an object is freed twice\<close>
  | BadContext   \<comment> \<open>swapcontext to a context nobody saved, or a context function returned\<close>
  | NoFuel       \<comment> \<open>not a behaviour of the program: the bound given to a loop of the model ran out\<close>

datatype slot = SchedCtx | CoCtx addr | CoRet addr

datatype (dead 's, 'a) outcome =
    Done 'a 's
  | Fault fault
  | Swap slot slot 's "'s \<Rightarrow> ('s, 'a) outcome"

type_synonym ('s, 'a) comp = "'s \<Rightarrow> ('s, 'a) outcome"

definition ret :: "'a \<Rightarrow> ('s, 'a) comp" where
  "ret a s = Done a s"

definition fail :: "fault \<Rightarrow> ('s, 'a) comp" where
  "fail e s = Fault e"

definition asks :: "('s \<Rightarrow> 'a) \<Rightarrow> ('s, 'a) comp" where
  "asks f s = Done (f s) s"

definition modify :: "('s \<Rightarrow> 's) \<Rightarrow> ('s, unit) comp" where
  "modify f s = Done () (f s)"

primrec bind_out :: "('s, 'a) outcome \<Rightarrow> ('a \<Rightarrow> ('s, 'b) comp) \<Rightarrow> ('s, 'b) outcome" where
  "bind_out (Done a s) k = k a s"
| "bind_out (Fault e) k = Fault e"
| "bind_out (Swap f t s c) k = Swap f t s (\<lambda>s'. bind_out (c s') k)"

definition bind :: "('s, 'a) comp \<Rightarrow> ('a \<Rightarrow> ('s, 'b) comp) \<Rightarrow> ('s, 'b) comp" where
  "bind m k s = bind_out (m s) k"

definition seq :: "('s, 'a) comp \<Rightarrow> ('s, 'b) comp \<Rightarrow> ('s, 'b) comp" where
  "seq m k = bind m (\<lambda>_. k)"

text \<open>A statement under a condition; nothing happens when the condition fails.\<close>

definition whenM :: "bool \<Rightarrow> ('s, unit) comp \<Rightarrow> ('s, unit) comp" where
  "whenM b m = (if b then m else ret ())"

text \<open>\<^verbatim>\<open>DYCO_MUST(b)\<close> and \<^verbatim>\<open>DYCO_MUSTNOT(b)\<close>: they print and call \<^verbatim>\<open>exit(1)\<close>.\<close>

definition DYCO_MUST :: "bool \<Rightarrow> ('s, unit) comp" where
  "DYCO_MUST b = (if b then ret () else fail Exit)"

definition DYCO_MUSTNOT :: "bool \<Rightarrow> ('s, unit) comp" where
  "DYCO_MUSTNOT b = (if b then fail Exit else ret ())"

definition swapcontext :: "slot \<Rightarrow> slot \<Rightarrow> ('s, unit) comp" where
  "swapcontext save load s = Swap save load s (\<lambda>s'. Done () s')"

lemma bind_ret [simp, dyco_monad]: "bind (ret a) k s = k a s"
  by (simp add: bind_def ret_def)

lemma bind_fail [simp, dyco_monad]: "bind (fail e) k s = Fault e"
  by (simp add: bind_def fail_def)

lemma bind_asks [simp, dyco_monad]: "bind (asks f) k s = k (f s) s"
  by (simp add: bind_def asks_def)

lemma bind_modify [simp, dyco_monad]: "bind (modify g) k s = k () (g s)"
  by (simp add: bind_def modify_def)

lemma seq_ret [simp, dyco_monad]: "seq (ret a) m s = m s"
  by (simp add: seq_def)

lemma seq_fail [simp, dyco_monad]: "seq (fail e) m s = Fault e"
  by (simp add: seq_def)

lemma seq_modify [simp, dyco_monad]: "seq (modify g) m s = m (g s)"
  by (simp add: seq_def)

lemma ret_app [simp, dyco_monad]: "ret a s = Done a s"
  by (simp add: ret_def)

lemma fail_app [simp, dyco_monad]: "fail e s = Fault e"
  by (simp add: fail_def)

lemma modify_app [simp, dyco_monad]: "modify g s = Done () (g s)"
  by (simp add: modify_def)

lemma asks_app [simp, dyco_monad]: "asks f s = Done (f s) s"
  by (simp add: asks_def)

lemma bind_if [simp, dyco_monad]:
  "bind (if b then m1 else m2) k s = (if b then bind m1 k s else bind m2 k s)"
  by simp

lemma seq_if [simp, dyco_monad]:
  "seq (if b then m1 else m2) k s = (if b then seq m1 k s else seq m2 k s)"
  by simp

lemma seq_whenM [simp, dyco_monad]:
  "seq (whenM b m) k s = (if b then seq m k s else k s)"
  by (simp add: whenM_def)

lemma seq_MUST [simp, dyco_monad]:
  "seq (DYCO_MUST b) k s = (if b then k s else Fault Exit)"
  "seq (DYCO_MUSTNOT b) k s = (if b then Fault Exit else k s)"
  by (simp_all add: DYCO_MUST_def DYCO_MUSTNOT_def)

lemma seq_swapcontext [simp, dyco_monad]:
  "seq (swapcontext a b) k s = Swap a b s k"
  by (simp add: seq_def bind_def swapcontext_def)

lemma bind_out_assoc:
  "bind_out (bind_out m k) l = bind_out m (\<lambda>a s. bind_out (k a s) l)"
  by (induction m) auto

lemma bind_assoc [simp, dyco_monad]:
  "bind (bind m k) l = bind m (\<lambda>a. bind (k a) l)"
proof (rule ext)
  fix s
  have "(\<lambda>a. bind (k a) l) = (\<lambda>a s. bind_out (k a s) l)"
    by (intro ext) (simp add: bind_def)
  then show "bind (bind m k) l s = bind m (\<lambda>a. bind (k a) l) s"
    by (simp add: bind_def bind_out_assoc)
qed

lemma seq_seq [simp, dyco_monad]: "seq (seq m k) l = seq m (seq k l)"
  by (simp add: seq_def)

lemma seq_bind [simp, dyco_monad]: "seq (bind m f) l = bind m (\<lambda>a. seq (f a) l)"
  by (simp add: seq_def)

lemma bind_seq [simp, dyco_monad]: "bind (seq m k) f = seq m (bind k f)"
  by (simp add: seq_def)

lemma bind_Done: "m s = Done a s' \<Longrightarrow> bind m k s = k a s'"
  by (simp add: bind_def)

lemma seq_Done: "m s = Done a s' \<Longrightarrow> seq m k s = k s'"
  by (simp add: seq_def bind_def)

lemma bind_Fault: "m s = Fault e \<Longrightarrow> bind m k s = Fault e"
  by (simp add: bind_def)

lemma bind_Swap: "m w = Swap f t w' k \<Longrightarrow> bind m g w = Swap f t w' (bind k g)"
  by (simp add: bind_def fun_eq_iff)

lemma seq_Fault: "m s = Fault e \<Longrightarrow> seq m k s = Fault e"
  by (simp add: seq_def bind_def)

section \<open>Generic lemmas\<close>

lemma nth_list_update_if: "i < length xs \<Longrightarrow> xs[i := x] ! j = (if i = j then x else xs ! j)"
  by (simp add: nth_list_update)

lemma unat_and_mask: "unat (x AND mask w :: i32) = unat x mod 2 ^ w"
  by (simp flip: take_bit_eq_mask take_bit_eq_mod add: unsigned_take_bit_eq)

lemma unat_and_mask_less [simp]: "unat (x AND mask w :: i32) < 2 ^ w"
  by (simp add: unat_and_mask)

lemma push_bit_minus_one_mask: "push_bit w 1 - 1 = (mask w :: i32)"
  by (simp add: mask_eq_exp_minus_1 push_bit_eq_mult)

end
