(* ===== verification/Sys_Queue.thy ===== *)
theory Sys_Queue
  imports Dyco_Prelude
begin

text \<open>
  The tail queues and singly-linked lists of \<^verbatim>\<open>include/dyco/sys_queue.h\<close>, as far as
  the program uses them: the scheduler's two ready queues are \<^verbatim>\<open>TAILQ\<close>s linked through the
  field \<^verbatim>\<open>ready_next\<close> of the coroutines, a pool's free list is an \<^verbatim>\<open>SLIST\<close>
  linked through \<^verbatim>\<open>cpool_next\<close>.

  The macros are modelled on the pointers themselves: one map per field, and a \<open>tqref\<close> for
  the address of a link (\<^verbatim>\<open>&head->tqh_first\<close> or \<^verbatim>\<open>&elm->field.tqe_next\<close>), since the
  macros write through such addresses. That the pointers represent a list is a theorem about a
  well-formed queue (\<open>tq_rep\<close>), not an assumption, so the model also says what happens when
  an element is inserted twice.
\<close>

section \<open>Tail queues\<close>

datatype qid = QReady | QUrgent

datatype tqref = FirstOf qid | NextOf addr

record tq_store =
  tqh_first :: "qid \<Rightarrow> addr"
  tqh_last :: "qid \<Rightarrow> tqref"
  tqe_next :: "addr \<Rightarrow> addr"
  tqe_prev :: "addr \<Rightarrow> tqref"

text \<open>Reading and writing through the address of a link.\<close>

fun tq_load :: "tqref \<Rightarrow> tq_store \<Rightarrow> addr" where
  "tq_load (FirstOf q) s = tqh_first s q"
| "tq_load (NextOf e) s = tqe_next s e"

fun tq_assign :: "tqref \<Rightarrow> addr \<Rightarrow> tq_store \<Rightarrow> tq_store" where
  "tq_assign (FirstOf q) v s = s\<lparr>tqh_first := (tqh_first s)(q := v)\<rparr>"
| "tq_assign (NextOf e) v s = s\<lparr>tqe_next := (tqe_next s)(e := v)\<rparr>"

definition TAILQ_INIT :: "qid \<Rightarrow> tq_store \<Rightarrow> tq_store" where
  "TAILQ_INIT q s = s\<lparr>tqh_first := (tqh_first s)(q := NULL), tqh_last := (tqh_last s)(q := FirstOf q)\<rparr>"

definition TAILQ_INSERT_TAIL :: "qid \<Rightarrow> addr \<Rightarrow> tq_store \<Rightarrow> tq_store" where
  "TAILQ_INSERT_TAIL q e s =
    (let s1 = s\<lparr>tqe_next := (tqe_next s)(e := NULL)\<rparr>;
         s2 = s1\<lparr>tqe_prev := (tqe_prev s1)(e := tqh_last s1 q)\<rparr>;
         s3 = tq_assign (tqh_last s2 q) e s2
     in s3\<lparr>tqh_last := (tqh_last s3)(q := NextOf e)\<rparr>)"

definition TAILQ_REMOVE :: "qid \<Rightarrow> addr \<Rightarrow> tq_store \<Rightarrow> tq_store" where
  "TAILQ_REMOVE q e s =
    (let s1 = (if tqe_next s e \<noteq> NULL
               then s\<lparr>tqe_prev := (tqe_prev s)(tqe_next s e := tqe_prev s e)\<rparr>
               else s\<lparr>tqh_last := (tqh_last s)(q := tqe_prev s e)\<rparr>)
     in tq_assign (tqe_prev s1 e) (tqe_next s1 e) s1)"

definition TAILQ_EMPTY :: "qid \<Rightarrow> tq_store \<Rightarrow> bool" where
  "TAILQ_EMPTY q s = (tqh_first s q = NULL)"

definition TAILQ_FIRST :: "qid \<Rightarrow> tq_store \<Rightarrow> addr" where
  "TAILQ_FIRST q s = tqh_first s q"

definition TAILQ_NEXT :: "addr \<Rightarrow> tq_store \<Rightarrow> addr" where
  "TAILQ_NEXT e s = tqe_next s e"

text \<open>
  \<^verbatim>\<open>TAILQ_LAST\<close> casts the address of the last link to a queue head and reads its second
  word, which is \<^verbatim>\<open>tqh_last\<close> of a head and \<^verbatim>\<open>tqe_prev\<close> of an entry.
\<close>

fun tq_second :: "tqref \<Rightarrow> tq_store \<Rightarrow> tqref" where
  "tq_second (FirstOf q) s = tqh_last s q"
| "tq_second (NextOf e) s = tqe_prev s e"

definition TAILQ_LAST :: "qid \<Rightarrow> tq_store \<Rightarrow> addr" where
  "TAILQ_LAST q s = tq_load (tq_second (tqh_last s q) s) s"

section \<open>Singly-linked lists\<close>

record sl_store =
  slh_first :: addr
  sle_next :: "addr \<Rightarrow> addr"

definition SLIST_INIT :: "sl_store \<Rightarrow> sl_store" where
  "SLIST_INIT s = s\<lparr>slh_first := NULL\<rparr>"

definition SLIST_INSERT_HEAD :: "addr \<Rightarrow> sl_store \<Rightarrow> sl_store" where
  "SLIST_INSERT_HEAD e s = s\<lparr>sle_next := (sle_next s)(e := slh_first s), slh_first := e\<rparr>"

definition SLIST_REMOVE_HEAD :: "sl_store \<Rightarrow> sl_store" where
  "SLIST_REMOVE_HEAD s = s\<lparr>slh_first := sle_next s (slh_first s)\<rparr>"

definition SLIST_FIRST :: "sl_store \<Rightarrow> addr" where
  "SLIST_FIRST s = slh_first s"

section \<open>The list a queue represents\<close>

fun tq_links :: "tq_store \<Rightarrow> tqref \<Rightarrow> addr list \<Rightarrow> bool" where
  "tq_links s r [] = (tq_load r s = NULL)"
| "tq_links s r (x # xs) = (tq_load r s = x \<and> tqe_prev s x = r \<and> tq_links s (NextOf x) xs)"

definition tq_end :: "tqref \<Rightarrow> addr list \<Rightarrow> tqref" where
  "tq_end r xs = (if xs = [] then r else NextOf (last xs))"

definition tq_rep :: "tq_store \<Rightarrow> qid \<Rightarrow> addr list \<Rightarrow> bool" where
  "tq_rep s q xs =
    (tq_links s (FirstOf q) xs \<and> tqh_last s q = tq_end (FirstOf q) xs \<and> distinct xs \<and> NULL \<notin> set xs)"

fun sl_rep :: "(addr \<Rightarrow> addr) \<Rightarrow> addr \<Rightarrow> addr list \<Rightarrow> bool" where
  "sl_rep nx p [] = (p = NULL)"
| "sl_rep nx p (x # xs) = (p = x \<and> x \<noteq> NULL \<and> x \<notin> set xs \<and> sl_rep nx (nx x) xs)"

text \<open>What the two queues of a scheduler look like: disjoint lists.\<close>

definition tq_both :: "tq_store \<Rightarrow> (qid \<Rightarrow> addr list) \<Rightarrow> bool" where
  "tq_both s f = ((\<forall>q. tq_rep s q (f q)) \<and> set (f QReady) \<inter> set (f QUrgent) = {})"

subsection \<open>Frame and shape lemmas\<close>

lemma tq_links_frame:
  assumes "tq_links s r xs" "tq_load r s' = tq_load r s"
    "\<And>x. x \<in> set xs \<Longrightarrow> tqe_next s' x = tqe_next s x \<and> tqe_prev s' x = tqe_prev s x"
  shows "tq_links s' r xs"
  using assms by (induction xs arbitrary: r) auto

lemma tq_end_Cons [simp]: "tq_end r (x # xs) = tq_end (NextOf x) xs"
  by (simp add: tq_end_def)

lemma tq_end_Nil [simp]: "tq_end r [] = r"
  by (simp add: tq_end_def)

lemma tq_end_snoc [simp]: "tq_end r (xs @ [x]) = NextOf x"
  by (simp add: tq_end_def)

lemma tq_links_last: "tq_links s r xs \<Longrightarrow> tq_load (tq_end r xs) s = NULL"
  by (induction xs arbitrary: r) auto

lemma tq_links_snoc:
  assumes "tq_links s r xs" "distinct xs" "e \<notin> set xs" "r \<noteq> NextOf e" "\<And>x. x \<in> set xs \<Longrightarrow> r \<noteq> NextOf x"
    and "s' = tq_assign (tq_end r xs) e (s\<lparr>tqe_next := (tqe_next s)(e := NULL),
            tqe_prev := (tqe_prev s)(e := tq_end r xs)\<rparr>)"
  shows "tq_links s' r (xs @ [e])"
  using assms
proof (induction xs arbitrary: r)
  case Nil
  then show ?case by (cases r) auto
next
  case (Cons x xs)
  have "tq_links s' (NextOf x) (xs @ [e])"
    by (rule Cons.IH) (use Cons.prems in auto)
  moreover have "tq_load r s' = tq_load r s \<and> tqe_prev s' x = tqe_prev s x"
  proof (cases "xs = []")
    case True
    with Cons.prems show ?thesis by (cases r) auto
  next
    case False
    then have "last xs \<in> set xs" by simp
    with False Cons.prems have *: "r \<noteq> NextOf (last xs)" "x \<noteq> e" by auto
    from False Cons.prems(6) have "s' = tq_assign (NextOf (last xs)) e (s\<lparr>tqe_next := (tqe_next s)(e := NULL),
            tqe_prev := (tqe_prev s)(e := NextOf (last xs))\<rparr>)"
      by (simp add: tq_end_def del: fun_upd_apply)
    with * Cons.prems(4) show ?thesis by (cases r) simp_all
  qed
  ultimately show ?case using Cons.prems by simp
qed

lemma TAILQ_INIT_rep: "tq_rep (TAILQ_INIT q s) q []"
  by (simp add: tq_rep_def TAILQ_INIT_def)

lemma TAILQ_INSERT_TAIL_rep:
  assumes "tq_rep s q xs" "e \<noteq> NULL" "e \<notin> set xs"
  shows "tq_rep (TAILQ_INSERT_TAIL q e s) q (xs @ [e])"
proof -
  let ?s = "tq_assign (tq_end (FirstOf q) xs) e (s\<lparr>tqe_next := (tqe_next s)(e := NULL),
      tqe_prev := (tqe_prev s)(e := tq_end (FirstOf q) xs)\<rparr>)"
  have l: "tq_links ?s (FirstOf q) (xs @ [e])"
    by (rule tq_links_snoc [OF _ _ assms(3) _ _ refl]) (use assms in \<open>auto simp: tq_rep_def\<close>)
  have "TAILQ_INSERT_TAIL q e s = ?s\<lparr>tqh_last := (tqh_last ?s)(q := NextOf e)\<rparr>"
    using assms(1) by (simp add: TAILQ_INSERT_TAIL_def Let_def tq_rep_def)
  moreover have "tq_links (?s\<lparr>tqh_last := (tqh_last ?s)(q := NextOf e)\<rparr>) (FirstOf q) (xs @ [e])"
    by (rule tq_links_frame [OF l]) simp_all
  ultimately show ?thesis using assms by (simp add: tq_rep_def)
qed

lemma TAILQ_INSERT_TAIL_other:
  assumes "tq_rep s q xs" "tq_rep s q' ys" "q' \<noteq> q" "e \<notin> set ys" "set xs \<inter> set ys = {}"
  shows "tq_rep (TAILQ_INSERT_TAIL q e s) q' ys"
proof -
  have last: "xs \<noteq> [] \<Longrightarrow> last xs \<notin> set ys" using assms(5) last_in_set by blast
  have "tq_links (TAILQ_INSERT_TAIL q e s) (FirstOf q') ys"
  proof (rule tq_links_frame [of s])
    show "tq_links s (FirstOf q') ys" using assms by (simp add: tq_rep_def)
    show "tq_load (FirstOf q') (TAILQ_INSERT_TAIL q e s) = tq_load (FirstOf q') s"
      using assms by (simp add: tq_rep_def TAILQ_INSERT_TAIL_def Let_def tq_end_def)
    fix y assume "y \<in> set ys"
    then have "y \<noteq> e" "xs \<noteq> [] \<Longrightarrow> y \<noteq> last xs" using assms(4) last by auto
    then show "tqe_next (TAILQ_INSERT_TAIL q e s) y = tqe_next s y \<and> tqe_prev (TAILQ_INSERT_TAIL q e s) y = tqe_prev s y"
      using assms(1) by (simp add: tq_rep_def TAILQ_INSERT_TAIL_def Let_def tq_end_def)
  qed
  with assms show ?thesis
    by (auto simp: tq_rep_def TAILQ_INSERT_TAIL_def Let_def tq_end_def split: if_splits)
qed

lemma TAILQ_REMOVE_FIRST_rep:
  assumes "tq_rep s q (x # xs)"
  shows "tq_rep (TAILQ_REMOVE q x s) q xs"
proof (cases xs)
  case Nil
  with assms show ?thesis by (auto simp: tq_rep_def TAILQ_REMOVE_def)
next
  case (Cons y ys)
  have "tq_links (TAILQ_REMOVE q x s) (NextOf y) ys"
    by (rule tq_links_frame [of s]) (use assms Cons in \<open>auto simp: tq_rep_def TAILQ_REMOVE_def Let_def\<close>)
  with assms Cons show ?thesis by (auto simp: tq_rep_def TAILQ_REMOVE_def Let_def)
qed

lemma TAILQ_REMOVE_FIRST_other:
  assumes "tq_rep s q (x # xs)" "tq_rep s q' ys" "q' \<noteq> q" "set (x # xs) \<inter> set ys = {}"
  shows "tq_rep (TAILQ_REMOVE q x s) q' ys"
proof -
  have x: "tqe_prev s x = FirstOf q" "tqe_next s x \<notin> set ys \<or> tqe_next s x = NULL"
    using assms by (cases xs; auto simp: tq_rep_def)+
  have "tq_links (TAILQ_REMOVE q x s) (FirstOf q') ys"
    by (rule tq_links_frame [of s]) (use assms x in \<open>auto simp: tq_rep_def TAILQ_REMOVE_def Let_def\<close>)
  with assms x show ?thesis by (auto simp: tq_rep_def TAILQ_REMOVE_def Let_def)
qed

lemma TAILQ_FIRST_rep: "tq_rep s q xs \<Longrightarrow> TAILQ_FIRST q s = (if xs = [] then NULL else hd xs)"
  by (cases xs) (auto simp: tq_rep_def TAILQ_FIRST_def)

lemma TAILQ_EMPTY_rep: "tq_rep s q xs \<Longrightarrow> TAILQ_EMPTY q s = (xs = [])"
  by (cases xs) (auto simp: tq_rep_def TAILQ_EMPTY_def)

lemma tq_links_prev_last:
  "tq_links s r xs \<Longrightarrow> xs \<noteq> [] \<Longrightarrow> tq_load (tqe_prev s (last xs)) s = last xs"
  by (induction xs arbitrary: r) auto

lemma TAILQ_LAST_rep: "tq_rep s q xs \<Longrightarrow> TAILQ_LAST q s = (if xs = [] then NULL else last xs)"
  by (auto simp: tq_rep_def TAILQ_LAST_def tq_end_def tq_links_prev_last)

lemma tq_rep_unique: "tq_rep s q xs \<Longrightarrow> tq_rep s q ys \<Longrightarrow> xs = ys"
proof -
  have "tq_links s r xs \<Longrightarrow> tq_links s r ys \<Longrightarrow> NULL \<notin> set xs \<Longrightarrow> NULL \<notin> set ys \<Longrightarrow> xs = ys" for r
  proof (induction xs arbitrary: r ys)
    case Nil
    then show ?case by (cases ys) auto
  next
    case (Cons x xs)
    then show ?case by (cases ys) auto
  qed
  then show "tq_rep s q xs \<Longrightarrow> tq_rep s q ys \<Longrightarrow> xs = ys"
    by (auto simp: tq_rep_def)
qed

section \<open>The queue interface\<close>

text \<open>
  What the scheduler relies on: several queues over one set of elements, an element being on at
  most one of them. \<open>holds s f\<close>: in state \<open>s\<close> the queue \<open>q\<close> holds the list \<open>f q\<close>.
\<close>

fun take_n :: "('s \<Rightarrow> bool) \<Rightarrow> ('s \<Rightarrow> 'e) \<Rightarrow> ('e \<Rightarrow> 's \<Rightarrow> 's) \<Rightarrow> nat \<Rightarrow> 's \<Rightarrow> 'e list \<times> 's" where
  "take_n emp fst_of del 0 s = ([], s)"
| "take_n emp fst_of del (Suc n) s =
    (if emp s then ([], s)
     else let (es, s') = take_n emp fst_of del n (del (fst_of s) s) in (fst_of s # es, s'))"

locale ready_queues =
  fixes holds :: "'s \<Rightarrow> ('q \<Rightarrow> 'e list) \<Rightarrow> bool"
    and push :: "'q \<Rightarrow> 'e \<Rightarrow> 's \<Rightarrow> 's"
    and pop :: "'q \<Rightarrow> 'e \<Rightarrow> 's \<Rightarrow> 's"
    and front :: "'q \<Rightarrow> 's \<Rightarrow> 'e"
    and rear :: "'q \<Rightarrow> 's \<Rightarrow> 'e"
    and isempty :: "'q \<Rightarrow> 's \<Rightarrow> bool"
    and valid :: "'e \<Rightarrow> bool"
  assumes push_law: "holds s f \<Longrightarrow> valid e \<Longrightarrow> (\<And>q'. e \<notin> set (f q')) \<Longrightarrow> holds (push q e s) (f(q := f q @ [e]))"
    and pop_law: "holds s f \<Longrightarrow> f q = e # es \<Longrightarrow> holds (pop q e s) (f(q := es))"
    and front_law: "holds s f \<Longrightarrow> f q \<noteq> [] \<Longrightarrow> front q s = hd (f q)"
    and rear_law: "holds s f \<Longrightarrow> f q \<noteq> [] \<Longrightarrow> rear q s = last (f q)"
    and isempty_law: "holds s f \<Longrightarrow> isempty q s = (f q = [])"
begin

lemma push_all:
  "holds s f \<Longrightarrow> list_all valid es \<Longrightarrow> distinct es \<Longrightarrow> (\<And>q'. set es \<inter> set (f q') = {}) \<Longrightarrow>
    holds (fold (push q) es s) (f(q := f q @ es))"
proof (induction es arbitrary: s f)
  case Nil
  then show ?case by simp
next
  case (Cons e es)
  have 1: "holds (push q e s) (f(q := f q @ [e]))"
    by (rule push_law) (use Cons.prems in auto)
  have "holds (fold (push q) es (push q e s)) ((f(q := f q @ [e]))(q := (f(q := f q @ [e])) q @ es))"
  proof (rule Cons.IH [OF 1])
    show "set es \<inter> set ((f(q := f q @ [e])) q') = {}" for q'
      using Cons.prems(3) Cons.prems(4) [of q'] Cons.prems(4) [of q] by auto
  qed (use Cons.prems in auto)
  then show ?case by (simp add: fun_upd_same del: fun_upd_apply)
qed

text \<open>First in, first out: what is taken out comes in the order of the list.\<close>

lemma take_n_fifo:
  "holds s f \<Longrightarrow> fst (take_n (isempty q) (front q) (pop q) n s) = take n (f q) \<and>
    holds (snd (take_n (isempty q) (front q) (pop q) n s)) (f(q := drop n (f q)))"
proof (induction n arbitrary: s f)
  case 0
  then show ?case by (simp add: fun_upd_triv)
next
  case (Suc n)
  show ?case
  proof (cases "f q")
    case Nil
    with Suc.prems isempty_law [OF Suc.prems, of q] show ?thesis by (simp add: fun_upd_idem)
  next
    case (Cons e es)
    from Suc.IH [OF pop_law [OF Suc.prems Cons]]
    have "fst (take_n (isempty q) (front q) (pop q) n (pop q e s)) = take n es \<and>
        holds (snd (take_n (isempty q) (front q) (pop q) n (pop q e s))) (f(q := drop n es))"
      by (simp add: fun_upd_same del: fun_upd_apply)
    with Cons front_law [OF Suc.prems, of q] isempty_law [OF Suc.prems, of q] show ?thesis
      by (auto simp: Let_def simp del: fun_upd_apply split: prod.splits)
  qed
qed

end

lemma qid_all: "(\<forall>q. P q) = (P QReady \<and> P QUrgent)"
  by (metis qid.exhaust)

interpretation tailq: ready_queues tq_both TAILQ_INSERT_TAIL TAILQ_REMOVE TAILQ_FIRST TAILQ_LAST TAILQ_EMPTY "\<lambda>e. e \<noteq> NULL"
proof unfold_locales
  fix s f e q assume *: "tq_both s f" "e \<noteq> NULL" "\<And>q'. e \<notin> set (f q')"
  show "tq_both (TAILQ_INSERT_TAIL q e s) (f(q := f q @ [e]))"
    using * TAILQ_INSERT_TAIL_rep [of s q "f q" e]
      TAILQ_INSERT_TAIL_other [of s q "f q" "if q = QReady then QUrgent else QReady" "f (if q = QReady then QUrgent else QReady)" e]
    by (cases q) (auto simp: tq_both_def qid_all)
next
  fix s f q e es assume *: "tq_both s f" "f q = e # es"
  show "tq_both (TAILQ_REMOVE q e s) (f(q := es))"
    using * TAILQ_REMOVE_FIRST_rep [of s q e es]
      TAILQ_REMOVE_FIRST_other [of s q e es "if q = QReady then QUrgent else QReady" "f (if q = QReady then QUrgent else QReady)"]
    by (cases q) (auto simp: tq_both_def qid_all)
next
  fix s f q assume *: "tq_both s f" "f q \<noteq> []"
  then show "TAILQ_FIRST q s = hd (f q)" by (cases q) (auto simp: tq_both_def qid_all dest: TAILQ_FIRST_rep)
next
  fix s f q assume *: "tq_both s f" "f q \<noteq> []"
  then show "TAILQ_LAST q s = last (f q)" by (cases q) (auto simp: tq_both_def qid_all dest: TAILQ_LAST_rep)
next
  fix s f q assume "tq_both s f"
  then show "TAILQ_EMPTY q s = (f q = [])" by (cases q) (auto simp: tq_both_def qid_all dest: TAILQ_EMPTY_rep)
qed

section \<open>Properties of the queues\<close>

text \<open>
  FIFO. On well-formed queues (\<open>tq_both\<close>: the pointers of the ready and the urgent queue
  represent two disjoint lists), inserting new elements one after the other at the tail of a queue
  and then taking out as many as there are, head first, gives the old elements in their order
  followed by the new ones in theirs, leaves that queue empty and the other one as it was.
\<close>

theorem tailq_fifo:
  assumes "tq_both s f" "distinct es" "NULL \<notin> set es" "\<And>q'. set es \<inter> set (f q') = {}"
  shows "let r = take_n (TAILQ_EMPTY q) (TAILQ_FIRST q) (TAILQ_REMOVE q) (length (f q) + length es)
      (fold (TAILQ_INSERT_TAIL q) es s)
    in fst r = f q @ es \<and> TAILQ_EMPTY q (snd r) \<and> tq_both (snd r) (f(q := []))"
proof -
  let ?r = "take_n (TAILQ_EMPTY q) (TAILQ_FIRST q) (TAILQ_REMOVE q) (length (f q) + length es)
      (fold (TAILQ_INSERT_TAIL q) es s)"
  have "tq_both (fold (TAILQ_INSERT_TAIL q) es s) (f(q := f q @ es))"
    by (rule tailq.push_all) (use assms(1-4) in \<open>auto simp: list_all_iff intro!: gr0I\<close>)
  from tailq.take_n_fifo [OF this, of q "length (f q) + length es"]
  have r: "fst ?r = f q @ es" "tq_both (snd ?r) (f(q := []))"
    by simp_all
  then show ?thesis using tailq.isempty_law [OF r(2), of q] by (simp add: Let_def fun_upd_same del: fun_upd_apply)
qed

theorem tailq_fifo_witness:
  "let s = TAILQ_INIT QReady (TAILQ_INIT QUrgent
             \<lparr>tqh_first = \<lambda>_. 7, tqh_last = \<lambda>_. NextOf 7, tqe_next = \<lambda>_. 7, tqe_prev = \<lambda>_. NextOf 7\<rparr>);
       r = take_n (TAILQ_EMPTY QReady) (TAILQ_FIRST QReady) (TAILQ_REMOVE QReady) 3
             (fold (TAILQ_INSERT_TAIL QReady) [5, 3, 4] s)
   in fst r = [5, 3, 4] \<and> TAILQ_EMPTY QReady (snd r)"
proof -
  let ?s = "TAILQ_INIT QReady (TAILQ_INIT QUrgent
             \<lparr>tqh_first = \<lambda>_. 7, tqh_last = \<lambda>_. NextOf 7, tqe_next = \<lambda>_. 7, tqe_prev = \<lambda>_. NextOf 7\<rparr>)"
  have "tq_both ?s (\<lambda>_. [])" by (simp add: tq_both_def qid_all tq_rep_def TAILQ_INIT_def)
  from tailq_fifo [OF this, of "[5, 3, 4]" QReady] show ?thesis
    by (simp add: Let_def numeral_3_eq_3)
qed

subsection \<open>Inserting an element twice\<close>

text \<open>
  An element must not be inserted while it is on the queue: if the head of a well-formed queue is
  inserted at the tail again, removing it never gets rid of it, and what was behind it is never reached.
\<close>

lemma TAILQ_INSERT_twice_stuck:
  assumes "tq_rep s q (e # es)"
  shows "TAILQ_FIRST q ((TAILQ_REMOVE q e ^^ n) (TAILQ_INSERT_TAIL q e s)) = e"
proof -
  let ?I = "\<lambda>s. tqh_first s q = e \<and> (\<exists>p. tqe_prev s e = NextOf p)"
  have 0: "?I (TAILQ_INSERT_TAIL q e s)"
    using assms by (auto simp: tq_rep_def TAILQ_INSERT_TAIL_def Let_def tq_end_def)
  have step: "?I s' \<Longrightarrow> ?I (TAILQ_REMOVE q e s')" for s'
    by (auto simp: TAILQ_REMOVE_def Let_def)
  have "?I ((TAILQ_REMOVE q e ^^ n) (TAILQ_INSERT_TAIL q e s))"
    by (induction n) (use 0 step in auto)
  then show ?thesis by (simp add: TAILQ_FIRST_def)
qed

subsection \<open>Free lists\<close>

lemma sl_rep_frame:
  "sl_rep nx p xs \<Longrightarrow> (\<And>x. x \<in> set xs \<Longrightarrow> nx' x = nx x) \<Longrightarrow> sl_rep nx' p xs"
  by (induction xs arbitrary: p) auto

lemma SLIST_INSERT_HEAD_rep:
  assumes "sl_rep (sle_next s) (slh_first s) xs" "e \<noteq> NULL" "e \<notin> set xs"
  shows "sl_rep (sle_next (SLIST_INSERT_HEAD e s)) (slh_first (SLIST_INSERT_HEAD e s)) (e # xs)"
proof -
  have "sl_rep ((sle_next s)(e := slh_first s)) (slh_first s) xs"
    by (rule sl_rep_frame [OF assms(1)]) (use assms(3) in auto)
  with assms show ?thesis by (simp add: SLIST_INSERT_HEAD_def)
qed

lemma SLIST_REMOVE_HEAD_rep:
  "sl_rep (sle_next s) (slh_first s) (x # xs) \<Longrightarrow>
    sl_rep (sle_next (SLIST_REMOVE_HEAD s)) (slh_first (SLIST_REMOVE_HEAD s)) xs"
  by (auto simp: SLIST_REMOVE_HEAD_def)

end
