(* ===== verification/Sys_Lists.thy ===== *)
theory Sys_Lists
  imports Sys_Queue
begin

text \<open>
  The rest of \<^verbatim>\<open>include/dyco/sys_queue.h\<close>, first part: the tail queue macros the scheduler does not use, and
  lists. All structures of the header share one contract, the locale \<open>linked\<close> and its extension \<open>two_way\<close>: every macro
  does to the represented list what its name says. The loops are \<^verbatim>\<open>partial_function\<close>s, so a loop that would not
  end, or would follow a NULL pointer, has no result.
\<close>

section \<open>Edits\<close>

text \<open>An edit of a list; \<open>x\<close> is the element it is relative to, \<open>e\<close> the new one.\<close>

datatype edit = InsHead addr | InsTail addr | InsAfter addr addr | InsBefore addr addr | Remove addr

fun put_after :: "addr \<Rightarrow> addr \<Rightarrow> addr list \<Rightarrow> addr list" where
  "put_after x e [] = []"
| "put_after x e (y # ys) = (if y = x then y # e # ys else y # put_after x e ys)"

fun put_before :: "addr \<Rightarrow> addr \<Rightarrow> addr list \<Rightarrow> addr list" where
  "put_before x e [] = []"
| "put_before x e (y # ys) = (if y = x then e # y # ys else y # put_before x e ys)"

fun edited :: "edit \<Rightarrow> addr list \<Rightarrow> addr list" where
  "edited (InsHead e) xs = e # xs"
| "edited (InsTail e) xs = xs @ [e]"
| "edited (InsAfter x e) xs = put_after x e xs"
| "edited (InsBefore x e) xs = put_before x e xs"
| "edited (Remove x) xs = remove1 x xs"

text \<open>What the macros require: new elements are not on the list, the others are.\<close>

fun edit_ok :: "(addr \<Rightarrow> bool) \<Rightarrow> edit \<Rightarrow> addr list \<Rightarrow> bool" where
  "edit_ok valid (InsHead e) xs = (valid e \<and> e \<notin> set xs)"
| "edit_ok valid (InsTail e) xs = (valid e \<and> e \<notin> set xs)"
| "edit_ok valid (InsAfter x e) xs = (valid e \<and> e \<notin> set xs \<and> x \<in> set xs)"
| "edit_ok valid (InsBefore x e) xs = (valid e \<and> e \<notin> set xs \<and> x \<in> set xs)"
| "edit_ok valid (Remove x) xs = (x \<in> set xs)"

fun edits_ok :: "(addr \<Rightarrow> bool) \<Rightarrow> edit list \<Rightarrow> addr list \<Rightarrow> bool" where
  "edits_ok valid [] xs = True"
| "edits_ok valid (d # ds) xs = (edit_ok valid d xs \<and> edits_ok valid ds (edited d xs))"

fun run_edits :: "(edit \<Rightarrow> 's \<Rightarrow> 's option) \<Rightarrow> edit list \<Rightarrow> 's \<Rightarrow> 's option" where
  "run_edits step [] s = Some s"
| "run_edits step (d # ds) s = (case step d s of None \<Rightarrow> None | Some s' \<Rightarrow> run_edits step ds s')"

lemma put_after_split: "x \<notin> set xs \<Longrightarrow> put_after x e (xs @ x # ys) = xs @ x # e # ys"
  by (induction xs) auto

lemma put_before_split: "x \<notin> set xs \<Longrightarrow> put_before x e (xs @ x # ys) = xs @ e # x # ys"
  by (induction xs) auto

text \<open>
  The contract of a structure: \<open>step\<close> carries out an edit, \<open>able\<close> tells which edits the structure has, \<open>walk\<close> is
  its loop over the elements.
\<close>

locale linked =
  fixes rep :: "'s \<Rightarrow> addr list \<Rightarrow> bool"
    and step :: "edit \<Rightarrow> 's \<Rightarrow> 's option"
    and able :: "edit \<Rightarrow> bool"
    and valid :: "addr \<Rightarrow> bool"
    and walk :: "'s \<Rightarrow> addr list option"
  assumes step_law: "rep s xs \<Longrightarrow> able d \<Longrightarrow> edit_ok valid d xs \<Longrightarrow> \<exists>s'. step d s = Some s' \<and> rep s' (edited d xs)"
    and walk_law: "rep s xs \<Longrightarrow> walk s = Some xs"
begin

lemma run_law:
  "rep s xs \<Longrightarrow> list_all able ds \<Longrightarrow> edits_ok valid ds xs \<Longrightarrow>
    \<exists>s'. run_edits step ds s = Some s' \<and> rep s' (fold edited ds xs) \<and> walk s' = Some (fold edited ds xs)"
proof (induction ds arbitrary: s xs)
  case Nil
  then show ?case using walk_law by simp
next
  case (Cons d ds)
  then obtain s1 where "step d s = Some s1" "rep s1 (edited d xs)" using step_law [of s xs d] by auto
  with Cons show ?case by simp
qed

lemma rep_unique: "rep s xs \<Longrightarrow> rep s ys \<Longrightarrow> xs = ys"
  by (metis walk_law option.inject)

end

text \<open>With a second loop that visits the elements in the opposite order.\<close>

locale two_way = linked +
  fixes walk_back :: "'a \<Rightarrow> addr list option"
  assumes walk_back_law: "rep s xs \<Longrightarrow> walk_back s = Some (rev xs)"
begin

lemma run_back:
  "rep s xs \<Longrightarrow> list_all able ds \<Longrightarrow> edits_ok valid ds xs \<Longrightarrow>
    \<exists>s'. run_edits step ds s = Some s' \<and> walk s' = Some (fold edited ds xs) \<and> walk_back s' = Some (rev (fold edited ds xs))"
  using run_law walk_back_law by blast

end

section \<open>Loops\<close>

text \<open>\<^verbatim>\<open>for (var = first; var != stop; var = next(var))\<close>, with the elements it visits.\<close>

partial_function (option) foreach :: "(addr \<Rightarrow> addr) \<Rightarrow> addr \<Rightarrow> addr \<Rightarrow> addr list option" where
  "foreach nx stop p = (if p = stop then Some [] else Option.bind (foreach nx stop (nx p)) (\<lambda>xs. Some (p # xs)))"

declare foreach.simps [simp del]

fun path :: "(addr \<Rightarrow> addr) \<Rightarrow> addr \<Rightarrow> addr list \<Rightarrow> addr \<Rightarrow> bool" where
  "path nx p [] q = (p = q)"
| "path nx p (x # xs) q = (p = x \<and> x \<noteq> q \<and> path nx (nx x) xs q)"

lemma foreach_path: "path nx p xs stop \<Longrightarrow> foreach nx stop p = Some xs"
  by (induction xs arbitrary: p) (simp_all add: foreach.simps)

text \<open>\<^verbatim>\<open>while (curelm->next != elm) curelm = curelm->next;\<close> NULL must not be followed.\<close>

partial_function (option) pred_of :: "(addr \<Rightarrow> addr) \<Rightarrow> addr \<Rightarrow> addr \<Rightarrow> addr option" where
  "pred_of nx e p = (if p = NULL then None else if nx p = e then Some p else pred_of nx e (nx p))"

lemma pred_of_path:
  "path nx p (xs @ y # e # ys) NULL \<Longrightarrow> distinct (xs @ y # e # ys) \<Longrightarrow> pred_of nx e p = Some y"
proof (induction xs arbitrary: p)
  case Nil
  then show ?case by (simp add: pred_of.simps)
next
  case (Cons x xs)
  have "nx x \<noteq> e" using Cons.prems by (cases xs) auto
  with Cons show ?case by (simp add: pred_of.simps)
qed

section \<open>Tail queues\<close>

definition TAILQ_INSERT_HEAD :: "qid \<Rightarrow> addr \<Rightarrow> tq_store \<Rightarrow> tq_store" where
  "TAILQ_INSERT_HEAD q e s =
    (let s1 = s\<lparr>tqe_next := (tqe_next s)(e := tqh_first s q)\<rparr>;
         s2 = (if tqe_next s1 e \<noteq> NULL
               then s1\<lparr>tqe_prev := (tqe_prev s1)(tqh_first s1 q := NextOf e)\<rparr>
               else s1\<lparr>tqh_last := (tqh_last s1)(q := NextOf e)\<rparr>);
         s3 = s2\<lparr>tqh_first := (tqh_first s2)(q := e)\<rparr>
     in s3\<lparr>tqe_prev := (tqe_prev s3)(e := FirstOf q)\<rparr>)"

definition TAILQ_INSERT_AFTER :: "qid \<Rightarrow> addr \<Rightarrow> addr \<Rightarrow> tq_store \<Rightarrow> tq_store" where
  "TAILQ_INSERT_AFTER q x e s =
    (let s1 = s\<lparr>tqe_next := (tqe_next s)(e := tqe_next s x)\<rparr>;
         s2 = (if tqe_next s1 e \<noteq> NULL
               then s1\<lparr>tqe_prev := (tqe_prev s1)(tqe_next s1 e := NextOf e)\<rparr>
               else s1\<lparr>tqh_last := (tqh_last s1)(q := NextOf e)\<rparr>);
         s3 = s2\<lparr>tqe_next := (tqe_next s2)(x := e)\<rparr>
     in s3\<lparr>tqe_prev := (tqe_prev s3)(e := NextOf x)\<rparr>)"

definition TAILQ_INSERT_BEFORE :: "addr \<Rightarrow> addr \<Rightarrow> tq_store \<Rightarrow> tq_store" where
  "TAILQ_INSERT_BEFORE x e s =
    (let s1 = s\<lparr>tqe_prev := (tqe_prev s)(e := tqe_prev s x)\<rparr>;
         s2 = s1\<lparr>tqe_next := (tqe_next s1)(e := x)\<rparr>;
         s3 = tq_assign (tqe_prev s2 x) e s2
     in s3\<lparr>tqe_prev := (tqe_prev s3)(x := NextOf e)\<rparr>)"

definition TAILQ_CONCAT :: "qid \<Rightarrow> qid \<Rightarrow> tq_store \<Rightarrow> tq_store" where
  "TAILQ_CONCAT q1 q2 s =
    (if \<not> TAILQ_EMPTY q2 s
     then let s1 = tq_assign (tqh_last s q1) (tqh_first s q2) s;
              s2 = s1\<lparr>tqe_prev := (tqe_prev s1)(tqh_first s1 q2 := tqh_last s1 q1)\<rparr>;
              s3 = s2\<lparr>tqh_last := (tqh_last s2)(q1 := tqh_last s2 q2)\<rparr>
          in TAILQ_INIT q2 s3
     else s)"

definition TAILQ_PREV :: "addr \<Rightarrow> tq_store \<Rightarrow> addr" where
  "TAILQ_PREV e s = tq_load (tq_second (tqe_prev s e) s) s"

definition TAILQ_FOREACH :: "qid \<Rightarrow> tq_store \<Rightarrow> addr list option" where
  "TAILQ_FOREACH q s = foreach (tqe_next s) NULL (tqh_first s q)"

definition TAILQ_FOREACH_REVERSE :: "qid \<Rightarrow> tq_store \<Rightarrow> addr list option" where
  "TAILQ_FOREACH_REVERSE q s = foreach (\<lambda>e. TAILQ_PREV e s) NULL (TAILQ_LAST q s)"

subsection \<open>Segments\<close>

fun tq_seg :: "tq_store \<Rightarrow> tqref \<Rightarrow> addr list \<Rightarrow> bool" where
  "tq_seg s r [] = True"
| "tq_seg s r (x # xs) = (tq_load r s = x \<and> tqe_prev s x = r \<and> tq_seg s (NextOf x) xs)"

lemma tq_end_append: "tq_end r (xs @ ys) = tq_end (tq_end r xs) ys"
  by (simp add: tq_end_def)

lemma tq_seg_append: "tq_seg s r (xs @ ys) = (tq_seg s r xs \<and> tq_seg s (tq_end r xs) ys)"
  by (induction xs arbitrary: r) auto

lemma tq_links_seg: "tq_links s r xs = (tq_seg s r xs \<and> tq_load (tq_end r xs) s = NULL)"
  by (induction xs arbitrary: r) auto

lemma tq_seg_frame:
  assumes "tq_seg s r xs" "xs \<noteq> [] \<Longrightarrow> tq_load r s' = tq_load r s" "\<forall>x \<in> set xs. tqe_prev s' x = tqe_prev s x"
    "\<forall>x \<in> set (butlast xs). tqe_next s' x = tqe_next s x"
  shows "tq_seg s' r xs"
  using assms
proof (induction xs arbitrary: r)
  case (Cons x xs)
  then show ?case by (cases xs) auto
qed simp

text \<open>
  Everything a macro has to do: it keeps the links inside what stays in front and inside what stays behind, and
  sets the links of the new middle and of the seams.
\<close>

lemma tq_splice:
  assumes front: "tq_seg s (FirstOf q) xs" "xs \<noteq> [] \<Longrightarrow> tqh_first s' q = tqh_first s q"
      "\<forall>x \<in> set xs. tqe_prev s' x = tqe_prev s x" "\<forall>x \<in> set (butlast xs). tqe_next s' x = tqe_next s x"
    and rear: "tq_links s r zs" "\<forall>z \<in> set zs. tqe_next s' z = tqe_next s z" "\<forall>z \<in> set (tl zs). tqe_prev s' z = tqe_prev s z"
    and mid: "tq_seg s' (tq_end (FirstOf q) xs) ms"
    and seam: "tq_load (tq_end (FirstOf q) (xs @ ms)) s' = (if zs = [] then NULL else hd zs)"
      "zs \<noteq> [] \<Longrightarrow> tqe_prev s' (hd zs) = tq_end (FirstOf q) (xs @ ms)"
    and last: "tqh_last s' q = tq_end (FirstOf q) (xs @ ms @ zs)"
    and elems: "distinct (xs @ ms @ zs)" "NULL \<notin> set (xs @ ms @ zs)"
  shows "tq_rep s' q (xs @ ms @ zs)"
proof -
  have 1: "tq_seg s' (FirstOf q) xs" by (rule tq_seg_frame [OF front(1)]) (use front in auto)
  have 2: "tq_links s' (tq_end (FirstOf q) (xs @ ms)) zs"
  proof (cases zs)
    case Nil
    with seam(1) show ?thesis by simp
  next
    case (Cons z zs')
    have "tq_links s' (NextOf z) zs'" by (rule tq_links_frame [of s]) (use rear Cons in auto)
    with Cons seam show ?thesis by simp
  qed
  have "tq_links s' (FirstOf q) (xs @ ms @ zs)"
    using 1 2 mid by (simp add: tq_links_seg tq_seg_append tq_end_append)
  with last elems show ?thesis by (simp add: tq_rep_def)
qed

lemma tq_rep_split:
  assumes "tq_rep s q (xs @ zs)"
  shows "tq_seg s (FirstOf q) xs" "tq_links s (tq_end (FirstOf q) xs) zs" "tqh_last s q = tq_end (FirstOf q) (xs @ zs)"
    "distinct (xs @ zs)" "NULL \<notin> set (xs @ zs)"
  using assms by (simp_all add: tq_rep_def tq_links_seg tq_seg_append tq_end_append)

lemma TAILQ_INSERT_HEAD_rep:
  assumes "tq_rep s q xs" "e \<noteq> NULL" "e \<notin> set xs"
  shows "tq_rep (TAILQ_INSERT_HEAD q e s) q (e # xs)"
proof -
  have r: "tq_links s (FirstOf q) xs" "tqh_last s q = tq_end (FirstOf q) xs" "distinct xs" "NULL \<notin> set xs"
    using assms(1) by (simp_all add: tq_rep_def)
  have f: "tqh_first s q = (if xs = [] then NULL else hd xs)" using r(1) by (cases xs) auto
  have "tq_rep (TAILQ_INSERT_HEAD q e s) q ([] @ [e] @ xs)"
    by (rule tq_splice [of s _ _ _ "FirstOf q"])
      (use r assms f in \<open>auto simp: TAILQ_INSERT_HEAD_def Let_def neq_Nil_conv tq_end_def\<close>)
  then show ?thesis by simp
qed

lemma tq_links_first: "tq_links s r zs \<Longrightarrow> tq_load r s = (if zs = [] then NULL else hd zs)"
  by (cases zs) auto

lemma TAILQ_INSERT_AFTER_rep:
  assumes "tq_rep s q (xs @ x # ys)" "e \<noteq> NULL" "e \<notin> set (xs @ x # ys)"
  shows "tq_rep (TAILQ_INSERT_AFTER q x e s) q (xs @ x # e # ys)"
proof -
  have "tq_rep s q ((xs @ [x]) @ ys)" using assms(1) by simp
  note r = tq_rep_split [OF this]
  have f: "tqe_next s x = (if ys = [] then NULL else hd ys)" using tq_links_first [OF r(2)] by simp
  have "tq_rep (TAILQ_INSERT_AFTER q x e s) q ((xs @ [x]) @ [e] @ ys)"
    by (rule tq_splice [of s _ _ _ "NextOf x"])
      (use r assms f in \<open>auto simp: TAILQ_INSERT_AFTER_def Let_def neq_Nil_conv tq_end_def butlast_append\<close>)
  then show ?thesis by simp
qed

lemma TAILQ_INSERT_BEFORE_rep:
  assumes "tq_rep s q (xs @ x # ys)" "e \<noteq> NULL" "e \<notin> set (xs @ x # ys)"
  shows "tq_rep (TAILQ_INSERT_BEFORE x e s) q (xs @ e # x # ys)"
proof -
  note r = tq_rep_split [OF assms(1)]
  have p: "tqe_prev s x = tq_end (FirstOf q) xs" using r(2) by simp
  have "tq_rep (TAILQ_INSERT_BEFORE x e s) q (xs @ [e] @ x # ys)"
  proof (cases xs rule: rev_cases)
    case Nil
    then show ?thesis
      by (intro tq_splice [of s _ _ _ "FirstOf q"]) (use r assms p in \<open>auto simp: TAILQ_INSERT_BEFORE_def Let_def tq_end_def\<close>)
  next
    case (snoc zs z)
    then show ?thesis
      by (intro tq_splice [of s _ _ _ "NextOf z"])
        (use r assms p in \<open>auto simp: TAILQ_INSERT_BEFORE_def Let_def tq_end_def butlast_append\<close>)
  qed
  then show ?thesis by simp
qed

lemma TAILQ_REMOVE_rep:
  assumes "tq_rep s q (xs @ x # ys)"
  shows "tq_rep (TAILQ_REMOVE q x s) q (xs @ ys)"
proof -
  note r = tq_rep_split [OF assms(1)]
  have p: "tqe_prev s x = tq_end (FirstOf q) xs" "tq_links s (NextOf x) ys" using r(2) by simp_all
  have f: "tqe_next s x = (if ys = [] then NULL else hd ys)" using tq_links_first [OF p(2)] by simp
  have "tq_rep (TAILQ_REMOVE q x s) q (xs @ [] @ ys)"
  proof (cases xs rule: rev_cases)
    case Nil
    then show ?thesis
      by (intro tq_splice [of s _ _ _ "NextOf x"]) (use r p f in \<open>auto simp: TAILQ_REMOVE_def Let_def neq_Nil_conv tq_end_def\<close>)
  next
    case (snoc zs z)
    then show ?thesis
      by (intro tq_splice [of s _ _ _ "NextOf x"])
        (use r p f in \<open>auto simp: TAILQ_REMOVE_def Let_def neq_Nil_conv tq_end_def butlast_append\<close>)
  qed
  then show ?thesis by simp
qed

lemma TAILQ_CONCAT_rep:
  assumes "tq_rep s q1 xs" "tq_rep s q2 ys" "q1 \<noteq> q2" "set xs \<inter> set ys = {}"
  shows "tq_rep (TAILQ_CONCAT q1 q2 s) q1 (xs @ ys)" "tq_rep (TAILQ_CONCAT q1 q2 s) q2 []"
proof -
  note e = TAILQ_EMPTY_rep [OF assms(2)]
  note x = tq_rep_split [of s q1 xs "[]", unfolded append_Nil2, OF assms(1)]
  have y: "tq_links s (FirstOf q2) ys" "tqh_last s q2 = tq_end (FirstOf q2) ys" "distinct ys" "NULL \<notin> set ys"
    using assms(2) by (simp_all add: tq_rep_def)
  show "tq_rep (TAILQ_CONCAT q1 q2 s) q2 []"
    using assms(2) e by (cases "ys = []") (simp_all add: TAILQ_CONCAT_def Let_def TAILQ_INIT_rep)
  show "tq_rep (TAILQ_CONCAT q1 q2 s) q1 (xs @ ys)"
  proof (cases ys)
    case Nil
    then show ?thesis using assms(1) e by (simp add: TAILQ_CONCAT_def)
  next
    case (Cons y' ys')
    have "tq_rep (TAILQ_CONCAT q1 q2 s) q1 (xs @ [] @ ys)"
    proof (cases xs rule: rev_cases)
      case Nil
      then show ?thesis
        by (intro tq_splice [of s _ _ _ "FirstOf q2"])
          (use x y assms(3) e Cons in \<open>auto simp: TAILQ_CONCAT_def TAILQ_INIT_def Let_def tq_end_def\<close>)
    next
      case (snoc zs z)
      then show ?thesis
        by (intro tq_splice [of s _ _ _ "FirstOf q2"])
          (use x y assms(3,4) e Cons in \<open>auto simp: TAILQ_CONCAT_def TAILQ_INIT_def Let_def tq_end_def butlast_append\<close>)
    qed
    then show ?thesis by simp
  qed
qed

subsection \<open>Traversal\<close>

lemma tq_links_path: "tq_links s r xs \<Longrightarrow> NULL \<notin> set xs \<Longrightarrow> path (tqe_next s) (tq_load r s) xs NULL"
proof (induction xs arbitrary: r)
  case (Cons x xs)
  from Cons.IH [of "NextOf x"] Cons.prems show ?case by auto
qed simp

lemma TAILQ_FOREACH_rep: "tq_rep s q xs \<Longrightarrow> TAILQ_FOREACH q s = Some xs"
  using foreach_path [OF tq_links_path [of s "FirstOf q" xs]] by (simp add: tq_rep_def TAILQ_FOREACH_def)

lemma TAILQ_PREV_rep:
  assumes "tq_rep s q (xs @ x # ys)"
  shows "TAILQ_PREV x s = (if xs = [] then NULL else last xs)"
proof (cases xs rule: rev_cases)
  case Nil
  with tq_rep_split [OF assms] tq_links_last [of s "FirstOf q" "x # ys"] show ?thesis by (simp add: TAILQ_PREV_def)
next
  case (snoc zs z)
  with tq_rep_split [OF assms] show ?thesis by (simp add: TAILQ_PREV_def tq_seg_append)
qed

lemma prev_path:
  "tq_rep s q (xs @ ys) \<Longrightarrow> path (\<lambda>e. TAILQ_PREV e s) (if xs = [] then NULL else last xs) (rev xs) NULL"
proof (induction xs arbitrary: ys rule: rev_induct)
  case (snoc x xs)
  then have "tq_rep s q (xs @ x # ys)" by simp
  with snoc.IH [OF this] TAILQ_PREV_rep [OF this] show ?case by (auto simp: tq_rep_def)
qed simp

lemma TAILQ_FOREACH_REVERSE_rep: "tq_rep s q xs \<Longrightarrow> TAILQ_FOREACH_REVERSE q s = Some (rev xs)"
  using foreach_path [OF prev_path [of s q xs "[]"]] TAILQ_LAST_rep [of s q xs] by (simp add: TAILQ_FOREACH_REVERSE_def)

fun tq_step :: "qid \<Rightarrow> edit \<Rightarrow> tq_store \<Rightarrow> tq_store option" where
  "tq_step q (InsHead e) s = Some (TAILQ_INSERT_HEAD q e s)"
| "tq_step q (InsTail e) s = Some (TAILQ_INSERT_TAIL q e s)"
| "tq_step q (InsAfter x e) s = Some (TAILQ_INSERT_AFTER q x e s)"
| "tq_step q (InsBefore x e) s = Some (TAILQ_INSERT_BEFORE x e s)"
| "tq_step q (Remove x) s = Some (TAILQ_REMOVE q x s)"

lemma edit_cases:
  assumes "edit_ok valid d xs" "distinct xs"
  obtains e where "d = InsHead e" "valid e" "e \<notin> set xs" "edited d xs = e # xs"
  | e where "d = InsTail e" "valid e" "e \<notin> set xs" "edited d xs = xs @ [e]"
  | ys x zs e where "d = InsAfter x e" "valid e" "xs = ys @ x # zs" "e \<notin> set xs" "edited d xs = ys @ x # e # zs"
  | ys x zs e where "d = InsBefore x e" "valid e" "xs = ys @ x # zs" "e \<notin> set xs" "edited d xs = ys @ e # x # zs"
  | ys x zs where "d = Remove x" "xs = ys @ x # zs" "x \<notin> set ys" "edited d xs = ys @ zs"
proof -
  have split: "\<exists>ys zs. xs = ys @ x # zs \<and> x \<notin> set ys" if "x \<in> set xs" for x using split_list_first [OF that] by blast
  show thesis
  proof (cases d)
    case (InsAfter x e)
    with assms(1) have "x \<in> set xs" by simp
    from split [OF this] obtain ys zs where "xs = ys @ x # zs" "x \<notin> set ys" by blast
    with assms(1) InsAfter show ?thesis by (intro that(3) [of x e ys zs]) (simp_all add: put_after_split)
  next
    case (InsBefore x e)
    with assms(1) have "x \<in> set xs" by simp
    from split [OF this] obtain ys zs where "xs = ys @ x # zs" "x \<notin> set ys" by blast
    with assms(1) InsBefore show ?thesis by (intro that(4) [of x e ys zs]) (simp_all add: put_before_split)
  next
    case (Remove x)
    with assms(1) have "x \<in> set xs" by simp
    from split [OF this] obtain ys zs where "xs = ys @ x # zs" "x \<notin> set ys" by blast
    with Remove show ?thesis by (intro that(5) [of x ys zs]) (simp_all add: remove1_append)
  qed (use assms(1) that(1,2) in auto)
qed

interpretation tailq_edit: two_way "\<lambda>s. tq_rep s q" "tq_step q" "\<lambda>_. True" "\<lambda>e. e \<noteq> NULL" "TAILQ_FOREACH q" "TAILQ_FOREACH_REVERSE q" for q
proof unfold_locales
  fix s xs d
  assume r: "tq_rep s q xs" and d: "edit_ok (\<lambda>e. e \<noteq> NULL) d xs"
  have "distinct xs" using r by (simp add: tq_rep_def)
  with d show "\<exists>s'. tq_step q d s = Some s' \<and> tq_rep s' q (edited d xs)"
    by (cases rule: edit_cases)
      (use r in \<open>simp_all add: TAILQ_INSERT_HEAD_rep TAILQ_INSERT_TAIL_rep TAILQ_INSERT_AFTER_rep TAILQ_INSERT_BEFORE_rep TAILQ_REMOVE_rep\<close>)
qed (fact TAILQ_FOREACH_rep TAILQ_FOREACH_REVERSE_rep)+

section \<open>Lists\<close>

text \<open>
  A list has the links of a tail queue and no pointer to its tail; the address of a link is a
  \<open>tqref\<close> again. Heads are named as those of the tail queues.
\<close>

record l_store =
  lh_first :: "qid \<Rightarrow> addr"
  le_next :: "addr \<Rightarrow> addr"
  le_prev :: "addr \<Rightarrow> tqref"

fun l_assign :: "tqref \<Rightarrow> addr \<Rightarrow> l_store \<Rightarrow> l_store" where
  "l_assign (FirstOf q) v s = s\<lparr>lh_first := (lh_first s)(q := v)\<rparr>"
| "l_assign (NextOf e) v s = s\<lparr>le_next := (le_next s)(e := v)\<rparr>"

definition LIST_INIT :: "qid \<Rightarrow> l_store \<Rightarrow> l_store" where
  "LIST_INIT q s = s\<lparr>lh_first := (lh_first s)(q := NULL)\<rparr>"

definition LIST_INSERT_AFTER :: "addr \<Rightarrow> addr \<Rightarrow> l_store \<Rightarrow> l_store" where
  "LIST_INSERT_AFTER x e s =
    (let s1 = s\<lparr>le_next := (le_next s)(e := le_next s x)\<rparr>;
         s2 = (if le_next s1 e \<noteq> NULL then s1\<lparr>le_prev := (le_prev s1)(le_next s1 x := NextOf e)\<rparr> else s1);
         s3 = s2\<lparr>le_next := (le_next s2)(x := e)\<rparr>
     in s3\<lparr>le_prev := (le_prev s3)(e := NextOf x)\<rparr>)"

definition LIST_INSERT_BEFORE :: "addr \<Rightarrow> addr \<Rightarrow> l_store \<Rightarrow> l_store" where
  "LIST_INSERT_BEFORE x e s =
    (let s1 = s\<lparr>le_prev := (le_prev s)(e := le_prev s x)\<rparr>;
         s2 = s1\<lparr>le_next := (le_next s1)(e := x)\<rparr>;
         s3 = l_assign (le_prev s2 x) e s2
     in s3\<lparr>le_prev := (le_prev s3)(x := NextOf e)\<rparr>)"

definition LIST_INSERT_HEAD :: "qid \<Rightarrow> addr \<Rightarrow> l_store \<Rightarrow> l_store" where
  "LIST_INSERT_HEAD q e s =
    (let s1 = s\<lparr>le_next := (le_next s)(e := lh_first s q)\<rparr>;
         s2 = (if le_next s1 e \<noteq> NULL then s1\<lparr>le_prev := (le_prev s1)(lh_first s1 q := NextOf e)\<rparr> else s1);
         s3 = s2\<lparr>lh_first := (lh_first s2)(q := e)\<rparr>
     in s3\<lparr>le_prev := (le_prev s3)(e := FirstOf q)\<rparr>)"

definition LIST_REMOVE :: "addr \<Rightarrow> l_store \<Rightarrow> l_store" where
  "LIST_REMOVE e s =
    (let s1 = (if le_next s e \<noteq> NULL then s\<lparr>le_prev := (le_prev s)(le_next s e := le_prev s e)\<rparr> else s)
     in l_assign (le_prev s1 e) (le_next s1 e) s1)"

definition LIST_FOREACH :: "qid \<Rightarrow> l_store \<Rightarrow> addr list option" where
  "LIST_FOREACH q s = foreach (le_next s) NULL (lh_first s q)"

definition LIST_EMPTY :: "qid \<Rightarrow> l_store \<Rightarrow> bool" where
  "LIST_EMPTY q s = (lh_first s q = NULL)"

definition LIST_FIRST :: "qid \<Rightarrow> l_store \<Rightarrow> addr" where
  "LIST_FIRST q s = lh_first s q"

definition LIST_NEXT :: "addr \<Rightarrow> l_store \<Rightarrow> addr" where
  "LIST_NEXT e s = le_next s e"

text \<open>A tail queue without its tail pointers.\<close>

definition list_of :: "tq_store \<Rightarrow> l_store" where
  "list_of s = \<lparr>lh_first = tqh_first s, le_next = tqe_next s, le_prev = tqe_prev s\<rparr>"

definition list_rep :: "l_store \<Rightarrow> qid \<Rightarrow> addr list \<Rightarrow> bool" where
  "list_rep l q xs = (\<exists>s. list_of s = l \<and> tq_rep s q xs)"

lemma list_assign: "l_assign r v (list_of s) = list_of (tq_assign r v s)"
  by (cases r) (simp_all add: list_of_def)

text \<open>Each list macro is the tail queue macro of its name, the tail pointer forgotten.\<close>

lemma list_simulates_tailq:
  "LIST_INIT q (list_of s) = list_of (TAILQ_INIT q s)"
  "LIST_INSERT_HEAD q e (list_of s) = list_of (TAILQ_INSERT_HEAD q e s)"
  "x \<noteq> e \<Longrightarrow> LIST_INSERT_AFTER x e (list_of s) = list_of (TAILQ_INSERT_AFTER q x e s)"
  "LIST_INSERT_BEFORE x e (list_of s) = list_of (TAILQ_INSERT_BEFORE x e s)"
  "LIST_REMOVE e (list_of s) = list_of (TAILQ_REMOVE q e s)"
  "LIST_FOREACH q (list_of s) = TAILQ_FOREACH q s"
  subgoal by (simp add: LIST_INIT_def TAILQ_INIT_def list_of_def)
  subgoal by (simp add: LIST_INSERT_HEAD_def TAILQ_INSERT_HEAD_def Let_def list_of_def)
  subgoal by (simp add: LIST_INSERT_AFTER_def TAILQ_INSERT_AFTER_def Let_def list_of_def)
  subgoal by (cases "tqe_prev s x") (simp_all add: LIST_INSERT_BEFORE_def TAILQ_INSERT_BEFORE_def Let_def list_of_def)
  subgoal by (cases "tqe_prev s e") (simp_all add: LIST_REMOVE_def TAILQ_REMOVE_def Let_def list_of_def)
  subgoal by (simp add: LIST_FOREACH_def TAILQ_FOREACH_def list_of_def)
  done

fun l_step :: "qid \<Rightarrow> edit \<Rightarrow> l_store \<Rightarrow> l_store option" where
  "l_step q (InsHead e) s = Some (LIST_INSERT_HEAD q e s)"
| "l_step q (InsAfter x e) s = Some (LIST_INSERT_AFTER x e s)"
| "l_step q (InsBefore x e) s = Some (LIST_INSERT_BEFORE x e s)"
| "l_step q (Remove x) s = Some (LIST_REMOVE x s)"
| "l_step q (InsTail e) s = None"

text \<open>Which edits a structure without a tail pointer has, and one without back links.\<close>

definition no_tail :: "edit \<Rightarrow> bool" where
  "no_tail d = (\<nexists>e. d = InsTail e)"

definition no_before :: "edit \<Rightarrow> bool" where
  "no_before d = (\<nexists>x e. d = InsBefore x e)"

interpretation list_edit: linked "\<lambda>s. list_rep s q" "l_step q" no_tail "\<lambda>e. e \<noteq> NULL" "LIST_FOREACH q" for q
proof unfold_locales
  fix l xs d
  assume r: "list_rep l q xs" and d: "edit_ok (\<lambda>e. e \<noteq> NULL) d xs" "no_tail d"
  from r obtain s where s: "l = list_of s" "tq_rep s q xs" by (auto simp: list_rep_def)
  from tailq_edit.step_law [OF s(2) TrueI d(1)] obtain s' where "tq_step q d s = Some s'" "tq_rep s' q (edited d xs)" by blast
  moreover from this have "l_step q d l = Some (list_of s')"
    using d s(1) by (cases d) (auto simp: no_tail_def list_simulates_tailq(1,2,4,6) list_simulates_tailq(3,5) [where q = q] intro!: list_simulates_tailq(3))
  ultimately show "\<exists>l'. l_step q d l = Some l' \<and> list_rep l' q (edited d xs)" by (auto simp: list_rep_def)
next
  show "list_rep l q xs \<Longrightarrow> LIST_FOREACH q l = Some xs" for l xs
    by (auto simp: list_rep_def list_simulates_tailq TAILQ_FOREACH_rep)
qed

end
