(* ===== verification/Sys_Stailq.thy ===== *)
theory Sys_Stailq
  imports Sys_Lists
begin

text \<open>
  The singly-linked structures of \<^verbatim>\<open>include/dyco/sys_queue.h\<close>: tail queues without back links, simple queues,
  which have the same macros under other names, and the macros on free lists that the pools do not use.
\<close>

section \<open>Singly-linked tail queues\<close>

text \<open>These have the forward links and the tail pointer of a tail queue, and no back links.\<close>

record st_store =
  stqh_first :: "qid \<Rightarrow> addr"
  stqh_last :: "qid \<Rightarrow> tqref"
  stqe_next :: "addr \<Rightarrow> addr"

fun st_assign :: "tqref \<Rightarrow> addr \<Rightarrow> st_store \<Rightarrow> st_store" where
  "st_assign (FirstOf q) v s = s\<lparr>stqh_first := (stqh_first s)(q := v)\<rparr>"
| "st_assign (NextOf e) v s = s\<lparr>stqe_next := (stqe_next s)(e := v)\<rparr>"

definition STAILQ_INIT :: "qid \<Rightarrow> st_store \<Rightarrow> st_store" where
  "STAILQ_INIT q s = s\<lparr>stqh_first := (stqh_first s)(q := NULL), stqh_last := (stqh_last s)(q := FirstOf q)\<rparr>"

definition STAILQ_INSERT_HEAD :: "qid \<Rightarrow> addr \<Rightarrow> st_store \<Rightarrow> st_store" where
  "STAILQ_INSERT_HEAD q e s =
    (let s1 = s\<lparr>stqe_next := (stqe_next s)(e := stqh_first s q)\<rparr>;
         s2 = (if stqe_next s1 e = NULL then s1\<lparr>stqh_last := (stqh_last s1)(q := NextOf e)\<rparr> else s1)
     in s2\<lparr>stqh_first := (stqh_first s2)(q := e)\<rparr>)"

definition STAILQ_INSERT_TAIL :: "qid \<Rightarrow> addr \<Rightarrow> st_store \<Rightarrow> st_store" where
  "STAILQ_INSERT_TAIL q e s =
    (let s1 = s\<lparr>stqe_next := (stqe_next s)(e := NULL)\<rparr>;
         s2 = st_assign (stqh_last s1 q) e s1
     in s2\<lparr>stqh_last := (stqh_last s2)(q := NextOf e)\<rparr>)"

definition STAILQ_INSERT_AFTER :: "qid \<Rightarrow> addr \<Rightarrow> addr \<Rightarrow> st_store \<Rightarrow> st_store" where
  "STAILQ_INSERT_AFTER q x e s =
    (let s1 = s\<lparr>stqe_next := (stqe_next s)(e := stqe_next s x)\<rparr>;
         s2 = (if stqe_next s1 e = NULL then s1\<lparr>stqh_last := (stqh_last s1)(q := NextOf e)\<rparr> else s1)
     in s2\<lparr>stqe_next := (stqe_next s2)(x := e)\<rparr>)"

definition STAILQ_EMPTY :: "qid \<Rightarrow> st_store \<Rightarrow> bool" where
  "STAILQ_EMPTY q s = (stqh_first s q = NULL)"

definition STAILQ_FIRST :: "qid \<Rightarrow> st_store \<Rightarrow> addr" where
  "STAILQ_FIRST q s = stqh_first s q"

definition STAILQ_NEXT :: "addr \<Rightarrow> st_store \<Rightarrow> addr" where
  "STAILQ_NEXT e s = stqe_next s e"

text \<open>The removals follow pointers; \<open>None\<close> is a NULL pointer followed, or a search that never ends.\<close>

definition STAILQ_REMOVE_HEAD :: "qid \<Rightarrow> st_store \<Rightarrow> st_store option" where
  "STAILQ_REMOVE_HEAD q s =
    (if stqh_first s q = NULL then None
     else let s1 = s\<lparr>stqh_first := (stqh_first s)(q := stqe_next s (stqh_first s q))\<rparr>
          in Some (if stqh_first s1 q = NULL then s1\<lparr>stqh_last := (stqh_last s1)(q := FirstOf q)\<rparr> else s1))"

definition STAILQ_REMOVE :: "qid \<Rightarrow> addr \<Rightarrow> st_store \<Rightarrow> st_store option" where
  "STAILQ_REMOVE q e s =
    (if stqh_first s q = e then STAILQ_REMOVE_HEAD q s
     else case pred_of (stqe_next s) e (stqh_first s q) of
            None \<Rightarrow> None
          | Some cur \<Rightarrow>
              if stqe_next s cur = NULL then None
              else let s1 = s\<lparr>stqe_next := (stqe_next s)(cur := stqe_next s (stqe_next s cur))\<rparr>
                   in Some (if stqe_next s1 cur = NULL then s1\<lparr>stqh_last := (stqh_last s1)(q := NextOf cur)\<rparr> else s1))"

definition STAILQ_FOREACH :: "qid \<Rightarrow> st_store \<Rightarrow> addr list option" where
  "STAILQ_FOREACH q s = foreach (stqe_next s) NULL (stqh_first s q)"

definition STAILQ_CONCAT :: "qid \<Rightarrow> qid \<Rightarrow> st_store \<Rightarrow> st_store" where
  "STAILQ_CONCAT q1 q2 s =
    (if \<not> STAILQ_EMPTY q2 s
     then let s1 = st_assign (stqh_last s q1) (stqh_first s q2) s;
              s2 = s1\<lparr>stqh_last := (stqh_last s1)(q1 := stqh_last s1 q2)\<rparr>
          in STAILQ_INIT q2 s2
     else s)"

definition stailq_of :: "tq_store \<Rightarrow> st_store" where
  "stailq_of s = \<lparr>stqh_first = tqh_first s, stqh_last = tqh_last s, stqe_next = tqe_next s\<rparr>"

definition st_rep :: "st_store \<Rightarrow> qid \<Rightarrow> addr list \<Rightarrow> bool" where
  "st_rep t q xs = (\<exists>s. stailq_of s = t \<and> tq_rep s q xs)"

lemma stailq_assign: "st_assign r v (stailq_of s) = stailq_of (tq_assign r v s)"
  by (cases r) (simp_all add: stailq_of_def)

lemma stailq_simulates_tailq:
  "STAILQ_INIT q (stailq_of s) = stailq_of (TAILQ_INIT q s)"
  "STAILQ_INSERT_HEAD q e (stailq_of s) = stailq_of (TAILQ_INSERT_HEAD q e s)"
  "STAILQ_INSERT_TAIL q e (stailq_of s) = stailq_of (TAILQ_INSERT_TAIL q e s)"
  "STAILQ_INSERT_AFTER q x e (stailq_of s) = stailq_of (TAILQ_INSERT_AFTER q x e s)"
  "STAILQ_CONCAT q q' (stailq_of s) = stailq_of (TAILQ_CONCAT q q' s)"
  "STAILQ_FOREACH q (stailq_of s) = TAILQ_FOREACH q s"
  subgoal by (simp add: STAILQ_INIT_def TAILQ_INIT_def stailq_of_def)
  subgoal by (simp add: STAILQ_INSERT_HEAD_def TAILQ_INSERT_HEAD_def Let_def stailq_of_def)
  subgoal by (cases "tqh_last s q") (simp_all add: STAILQ_INSERT_TAIL_def TAILQ_INSERT_TAIL_def Let_def stailq_of_def)
  subgoal by (simp add: STAILQ_INSERT_AFTER_def TAILQ_INSERT_AFTER_def Let_def stailq_of_def)
  subgoal
    by (cases "tqh_last s q")
      (simp_all add: STAILQ_CONCAT_def TAILQ_CONCAT_def STAILQ_EMPTY_def TAILQ_EMPTY_def STAILQ_INIT_def TAILQ_INIT_def Let_def stailq_of_def)
  subgoal by (simp add: STAILQ_FOREACH_def TAILQ_FOREACH_def stailq_of_def)
  done

lemma stailq_remove:
  assumes "tq_rep s q (xs @ x # ys)"
  shows "STAILQ_REMOVE q x (stailq_of s) = Some (stailq_of (TAILQ_REMOVE q x s))"
proof -
  note r = tq_rep_split [OF assms]
  have f: "tqe_next s x = (if ys = [] then NULL else hd ys)" using r(2) tq_links_first [of s "NextOf x" ys] by simp
  have p: "path (tqe_next s) (tqh_first s q) (xs @ x # ys) NULL"
    using tq_links_path [of s "FirstOf q"] assms by (simp add: tq_rep_def)
  show ?thesis
  proof (cases xs rule: rev_cases)
    case Nil
    with r p show ?thesis by (simp add: STAILQ_REMOVE_def STAILQ_REMOVE_HEAD_def TAILQ_REMOVE_def Let_def stailq_of_def)
  next
    case (snoc zs z)
    then have "pred_of (tqe_next s) x (tqh_first s q) = Some z" "tqh_first s q \<noteq> x" "tqe_next s z = x" "tqe_prev s x = NextOf z" "x \<noteq> z" "x \<noteq> NULL"
      using pred_of_path [of "tqe_next s" _ zs z x ys] p r by (cases zs; simp)+
    with f show ?thesis by (simp add: STAILQ_REMOVE_def TAILQ_REMOVE_def Let_def stailq_of_def)
  qed
qed

fun st_step :: "qid \<Rightarrow> edit \<Rightarrow> st_store \<Rightarrow> st_store option" where
  "st_step q (InsHead e) s = Some (STAILQ_INSERT_HEAD q e s)"
| "st_step q (InsTail e) s = Some (STAILQ_INSERT_TAIL q e s)"
| "st_step q (InsAfter x e) s = Some (STAILQ_INSERT_AFTER q x e s)"
| "st_step q (Remove x) s = STAILQ_REMOVE q x s"
| "st_step q (InsBefore x e) s = None"

interpretation stailq_edit: linked "\<lambda>s. st_rep s q" "st_step q" no_before "\<lambda>e. e \<noteq> NULL" "STAILQ_FOREACH q" for q
proof unfold_locales
  fix t xs d
  assume r: "st_rep t q xs" and d: "edit_ok (\<lambda>e. e \<noteq> NULL) d xs" "no_before d"
  from r obtain s where s: "t = stailq_of s" "tq_rep s q xs" by (auto simp: st_rep_def)
  from tailq_edit.step_law [OF s(2) TrueI d(1)] obtain s' where s': "tq_step q d s = Some s'" "tq_rep s' q (edited d xs)" by blast
  have "st_step q d t = Some (stailq_of s')"
  proof (cases d)
    case (Remove x)
    with d(1) obtain ys zs where "xs = ys @ x # zs" by (auto dest: split_list)
    with stailq_remove s s'(1) Remove show ?thesis by auto
  qed (use d(2) s(1) s'(1) in \<open>auto simp: stailq_simulates_tailq no_before_def\<close>)
  with s'(2) show "\<exists>t'. st_step q d t = Some t' \<and> st_rep t' q (edited d xs)" by (auto simp: st_rep_def)
next
  show "st_rep t q xs \<Longrightarrow> STAILQ_FOREACH q t = Some xs" for t xs
    by (auto simp: st_rep_def stailq_simulates_tailq TAILQ_FOREACH_rep)
qed

lemma STAILQ_CONCAT_rep:
  assumes "tq_rep s q1 xs" "tq_rep s q2 ys" "q1 \<noteq> q2" "set xs \<inter> set ys = {}" "t = STAILQ_CONCAT q1 q2 (stailq_of s)"
  shows "st_rep t q1 (xs @ ys) \<and> st_rep t q2 []"
  using TAILQ_CONCAT_rep [OF assms(1-4)] by (auto simp: assms(5) stailq_simulates_tailq st_rep_def)

section \<open>Simple queues\<close>

record sq_store =
  sqh_first :: "qid \<Rightarrow> addr"
  sqh_last :: "qid \<Rightarrow> tqref"
  sqe_next :: "addr \<Rightarrow> addr"

fun sq_assign :: "tqref \<Rightarrow> addr \<Rightarrow> sq_store \<Rightarrow> sq_store" where
  "sq_assign (FirstOf q) v s = s\<lparr>sqh_first := (sqh_first s)(q := v)\<rparr>"
| "sq_assign (NextOf e) v s = s\<lparr>sqe_next := (sqe_next s)(e := v)\<rparr>"

definition SIMPLEQ_INIT :: "qid \<Rightarrow> sq_store \<Rightarrow> sq_store" where
  "SIMPLEQ_INIT q s = s\<lparr>sqh_first := (sqh_first s)(q := NULL), sqh_last := (sqh_last s)(q := FirstOf q)\<rparr>"

definition SIMPLEQ_INSERT_HEAD :: "qid \<Rightarrow> addr \<Rightarrow> sq_store \<Rightarrow> sq_store" where
  "SIMPLEQ_INSERT_HEAD q e s =
    (let s1 = s\<lparr>sqe_next := (sqe_next s)(e := sqh_first s q)\<rparr>;
         s2 = (if sqe_next s1 e = NULL then s1\<lparr>sqh_last := (sqh_last s1)(q := NextOf e)\<rparr> else s1)
     in s2\<lparr>sqh_first := (sqh_first s2)(q := e)\<rparr>)"

definition SIMPLEQ_INSERT_TAIL :: "qid \<Rightarrow> addr \<Rightarrow> sq_store \<Rightarrow> sq_store" where
  "SIMPLEQ_INSERT_TAIL q e s =
    (let s1 = s\<lparr>sqe_next := (sqe_next s)(e := NULL)\<rparr>;
         s2 = sq_assign (sqh_last s1 q) e s1
     in s2\<lparr>sqh_last := (sqh_last s2)(q := NextOf e)\<rparr>)"

definition SIMPLEQ_INSERT_AFTER :: "qid \<Rightarrow> addr \<Rightarrow> addr \<Rightarrow> sq_store \<Rightarrow> sq_store" where
  "SIMPLEQ_INSERT_AFTER q x e s =
    (let s1 = s\<lparr>sqe_next := (sqe_next s)(e := sqe_next s x)\<rparr>;
         s2 = (if sqe_next s1 e = NULL then s1\<lparr>sqh_last := (sqh_last s1)(q := NextOf e)\<rparr> else s1)
     in s2\<lparr>sqe_next := (sqe_next s2)(x := e)\<rparr>)"

definition SIMPLEQ_EMPTY :: "qid \<Rightarrow> sq_store \<Rightarrow> bool" where
  "SIMPLEQ_EMPTY q s = (sqh_first s q = NULL)"

definition SIMPLEQ_FIRST :: "qid \<Rightarrow> sq_store \<Rightarrow> addr" where
  "SIMPLEQ_FIRST q s = sqh_first s q"

definition SIMPLEQ_NEXT :: "addr \<Rightarrow> sq_store \<Rightarrow> addr" where
  "SIMPLEQ_NEXT e s = sqe_next s e"

definition SIMPLEQ_REMOVE_HEAD :: "qid \<Rightarrow> sq_store \<Rightarrow> sq_store option" where
  "SIMPLEQ_REMOVE_HEAD q s =
    (if sqh_first s q = NULL then None
     else let s1 = s\<lparr>sqh_first := (sqh_first s)(q := sqe_next s (sqh_first s q))\<rparr>
          in Some (if sqh_first s1 q = NULL then s1\<lparr>sqh_last := (sqh_last s1)(q := FirstOf q)\<rparr> else s1))"

definition SIMPLEQ_REMOVE :: "qid \<Rightarrow> addr \<Rightarrow> sq_store \<Rightarrow> sq_store option" where
  "SIMPLEQ_REMOVE q e s =
    (if sqh_first s q = e then SIMPLEQ_REMOVE_HEAD q s
     else case pred_of (sqe_next s) e (sqh_first s q) of
            None \<Rightarrow> None
          | Some cur \<Rightarrow>
              if sqe_next s cur = NULL then None
              else let s1 = s\<lparr>sqe_next := (sqe_next s)(cur := sqe_next s (sqe_next s cur))\<rparr>
                   in Some (if sqe_next s1 cur = NULL then s1\<lparr>sqh_last := (sqh_last s1)(q := NextOf cur)\<rparr> else s1))"

definition SIMPLEQ_FOREACH :: "qid \<Rightarrow> sq_store \<Rightarrow> addr list option" where
  "SIMPLEQ_FOREACH q s = foreach (sqe_next s) NULL (sqh_first s q)"

text \<open>The same structure under other names.\<close>

definition simpleq_of :: "st_store \<Rightarrow> sq_store" where
  "simpleq_of s = \<lparr>sqh_first = stqh_first s, sqh_last = stqh_last s, sqe_next = stqe_next s\<rparr>"

definition sq_rep :: "sq_store \<Rightarrow> qid \<Rightarrow> addr list \<Rightarrow> bool" where
  "sq_rep t q xs = (\<exists>s. simpleq_of s = t \<and> st_rep s q xs)"

lemma simpleq_is_stailq:
  "SIMPLEQ_INIT q (simpleq_of s) = simpleq_of (STAILQ_INIT q s)"
  "SIMPLEQ_INSERT_HEAD q e (simpleq_of s) = simpleq_of (STAILQ_INSERT_HEAD q e s)"
  "SIMPLEQ_INSERT_TAIL q e (simpleq_of s) = simpleq_of (STAILQ_INSERT_TAIL q e s)"
  "SIMPLEQ_INSERT_AFTER q x e (simpleq_of s) = simpleq_of (STAILQ_INSERT_AFTER q x e s)"
  "SIMPLEQ_REMOVE_HEAD q (simpleq_of s) = map_option simpleq_of (STAILQ_REMOVE_HEAD q s)"
  "SIMPLEQ_REMOVE q e (simpleq_of s) = map_option simpleq_of (STAILQ_REMOVE q e s)"
  "SIMPLEQ_FOREACH q (simpleq_of s) = STAILQ_FOREACH q s"
  subgoal by (simp add: SIMPLEQ_INIT_def STAILQ_INIT_def simpleq_of_def)
  subgoal by (simp add: SIMPLEQ_INSERT_HEAD_def STAILQ_INSERT_HEAD_def Let_def simpleq_of_def)
  subgoal by (cases "stqh_last s q") (simp_all add: SIMPLEQ_INSERT_TAIL_def STAILQ_INSERT_TAIL_def Let_def simpleq_of_def)
  subgoal by (simp add: SIMPLEQ_INSERT_AFTER_def STAILQ_INSERT_AFTER_def Let_def simpleq_of_def)
  subgoal by (simp add: SIMPLEQ_REMOVE_HEAD_def STAILQ_REMOVE_HEAD_def Let_def simpleq_of_def)
  subgoal
    by (simp add: SIMPLEQ_REMOVE_def STAILQ_REMOVE_def SIMPLEQ_REMOVE_HEAD_def STAILQ_REMOVE_HEAD_def Let_def simpleq_of_def split: option.splits)
  subgoal by (simp add: SIMPLEQ_FOREACH_def STAILQ_FOREACH_def simpleq_of_def)
  done

fun sq_step :: "qid \<Rightarrow> edit \<Rightarrow> sq_store \<Rightarrow> sq_store option" where
  "sq_step q (InsHead e) s = Some (SIMPLEQ_INSERT_HEAD q e s)"
| "sq_step q (InsTail e) s = Some (SIMPLEQ_INSERT_TAIL q e s)"
| "sq_step q (InsAfter x e) s = Some (SIMPLEQ_INSERT_AFTER q x e s)"
| "sq_step q (Remove x) s = SIMPLEQ_REMOVE q x s"
| "sq_step q (InsBefore x e) s = None"

interpretation simpleq_edit: linked "\<lambda>s. sq_rep s q" "sq_step q" no_before "\<lambda>e. e \<noteq> NULL" "SIMPLEQ_FOREACH q" for q
proof unfold_locales
  fix t xs d
  assume r: "sq_rep t q xs" and d: "edit_ok (\<lambda>e. e \<noteq> NULL) d xs" "no_before d"
  from r obtain s where s: "t = simpleq_of s" "st_rep s q xs" by (auto simp: sq_rep_def)
  from stailq_edit.step_law [OF s(2) d(2,1)] obtain s' where s': "st_step q d s = Some s'" "st_rep s' q (edited d xs)" by blast
  then have "sq_step q d t = Some (simpleq_of s')" using s(1) by (cases d) (auto simp: simpleq_is_stailq)
  with s'(2) show "\<exists>t'. sq_step q d t = Some t' \<and> sq_rep t' q (edited d xs)" by (auto simp: sq_rep_def)
next
  show "sq_rep t q xs \<Longrightarrow> SIMPLEQ_FOREACH q t = Some xs" for t xs
    by (auto simp: sq_rep_def simpleq_is_stailq stailq_edit.walk_law)
qed

section \<open>Free lists\<close>

definition SLIST_INSERT_AFTER :: "addr \<Rightarrow> addr \<Rightarrow> sl_store \<Rightarrow> sl_store" where
  "SLIST_INSERT_AFTER x e s =
    (let s1 = s\<lparr>sle_next := (sle_next s)(e := sle_next s x)\<rparr>
     in s1\<lparr>sle_next := (sle_next s1)(x := e)\<rparr>)"

definition SLIST_REMOVE :: "addr \<Rightarrow> sl_store \<Rightarrow> sl_store option" where
  "SLIST_REMOVE e s =
    (if slh_first s = e then (if e = NULL then None else Some (SLIST_REMOVE_HEAD s))
     else case pred_of (sle_next s) e (slh_first s) of
            None \<Rightarrow> None
          | Some cur \<Rightarrow>
              if sle_next s cur = NULL then None
              else Some (s\<lparr>sle_next := (sle_next s)(cur := sle_next s (sle_next s cur))\<rparr>))"

definition SLIST_FOREACH :: "sl_store \<Rightarrow> addr list option" where
  "SLIST_FOREACH s = foreach (sle_next s) NULL (slh_first s)"

definition SLIST_EMPTY :: "sl_store \<Rightarrow> bool" where
  "SLIST_EMPTY s = (slh_first s = NULL)"

definition SLIST_NEXT :: "addr \<Rightarrow> sl_store \<Rightarrow> addr" where
  "SLIST_NEXT e s = sle_next s e"

definition slist_rep :: "sl_store \<Rightarrow> addr list \<Rightarrow> bool" where
  "slist_rep s xs = sl_rep (sle_next s) (slh_first s) xs"

lemma sl_rep_path: "sl_rep nx p xs = (path nx p xs NULL \<and> distinct xs)"
  by (induction xs arbitrary: p) auto

lemma sl_rep_after:
  "sl_rep nx p (xs @ x # ys) \<Longrightarrow> e \<noteq> NULL \<Longrightarrow> e \<notin> set (xs @ x # ys) \<Longrightarrow> sl_rep (nx(e := nx x, x := e)) p (xs @ x # e # ys)"
proof (induction xs arbitrary: p)
  case Nil
  have "sl_rep (nx(e := nx x, x := e)) (nx x) ys" by (rule sl_rep_frame [of nx]) (use Nil in auto)
  with Nil show ?case by (simp add: fun_upd_def)
qed auto

lemma sl_rep_remove: "sl_rep nx p (xs @ y # x # ys) \<Longrightarrow> sl_rep (nx(y := nx x)) p (xs @ y # ys)"
proof (induction xs arbitrary: p)
  case Nil
  have "sl_rep (nx(y := nx x)) (nx x) ys" by (rule sl_rep_frame [of nx]) (use Nil in auto)
  with Nil show ?case by (simp add: fun_upd_def)
qed auto

lemma SLIST_REMOVE_rep:
  assumes "slist_rep s (xs @ x # ys)"
  shows "\<exists>s'. SLIST_REMOVE x s = Some s' \<and> slist_rep s' (xs @ ys)"
proof (cases xs rule: rev_cases)
  case Nil
  with assms show ?thesis by (auto simp: slist_rep_def SLIST_REMOVE_def SLIST_REMOVE_HEAD_def)
next
  case (snoc zs z)
  have r: "sl_rep (sle_next s) (slh_first s) (zs @ z # x # ys)" using assms snoc by (simp add: slist_rep_def)
  have "pred_of (sle_next s) x (slh_first s) = Some z" "slh_first s \<noteq> x" "sle_next s z = x" "x \<noteq> NULL"
  proof -
    show "pred_of (sle_next s) x (slh_first s) = Some z" using r pred_of_path by (auto simp: sl_rep_path)
    show "slh_first s \<noteq> x" using r by (cases zs) auto
    have "sl_rep nx p (zs @ z # x # ys) \<Longrightarrow> nx z = x \<and> x \<noteq> NULL" for nx p by (induction zs arbitrary: p) auto
    from this [OF r] show "sle_next s z = x" "x \<noteq> NULL" by simp_all
  qed
  then show ?thesis using sl_rep_remove [OF r] snoc by (simp add: SLIST_REMOVE_def slist_rep_def)
qed

fun sl_step :: "edit \<Rightarrow> sl_store \<Rightarrow> sl_store option" where
  "sl_step (InsHead e) s = Some (SLIST_INSERT_HEAD e s)"
| "sl_step (InsAfter x e) s = Some (SLIST_INSERT_AFTER x e s)"
| "sl_step (Remove x) s = SLIST_REMOVE x s"
| "sl_step (InsTail e) s = None"
| "sl_step (InsBefore x e) s = None"

text \<open>The edits every structure has.\<close>

definition common :: "edit \<Rightarrow> bool" where
  "common d = (no_tail d \<and> no_before d)"

interpretation slist_edit: linked slist_rep sl_step common "\<lambda>e. e \<noteq> NULL" SLIST_FOREACH
proof unfold_locales
  fix s xs d
  assume r: "slist_rep s xs" and d: "edit_ok (\<lambda>e. e \<noteq> NULL) d xs" "common d"
  have "distinct xs" using r by (simp add: slist_rep_def sl_rep_path)
  with d(1) show "\<exists>s'. sl_step d s = Some s' \<and> slist_rep s' (edited d xs)"
  proof (cases rule: edit_cases)
    case (1 e)
    then show ?thesis using SLIST_INSERT_HEAD_rep [of s xs e] r by (simp add: slist_rep_def)
  next
    case (3 ys x zs e)
    then show ?thesis using sl_rep_after [of "sle_next s" "slh_first s" ys x zs e] r
      by (auto simp: slist_rep_def SLIST_INSERT_AFTER_def Let_def)
  next
    case (5 ys x zs)
    then show ?thesis using SLIST_REMOVE_rep r by auto
  qed (use d(2) in \<open>auto simp: common_def no_tail_def no_before_def\<close>)
next
  show "slist_rep s xs \<Longrightarrow> SLIST_FOREACH s = Some xs" for s xs
    by (simp add: slist_rep_def sl_rep_path SLIST_FOREACH_def foreach_path)
qed

end
