(* ===== verification/Sys_Circleq.thy ===== *)
theory Sys_Circleq
  imports Sys_Stailq
begin

text \<open>
  The circular queues of \<^verbatim>\<open>include/dyco/sys_queue.h\<close>, and the properties of the structures of that header: every
  sequence of edits leaves each of them with the list the edits describe, and the loops visit it in either direction.
\<close>

section \<open>Circular queues\<close>

text \<open>
  One queue, with its head at address \<open>h\<close>. The outermost links of the elements point to the head, cast to
  the element type, instead of being NULL.
\<close>

record cq_store =
  cqh_first :: addr
  cqh_last :: addr
  cqe_next :: "addr \<Rightarrow> addr"
  cqe_prev :: "addr \<Rightarrow> addr"

definition CIRCLEQ_INIT :: "addr \<Rightarrow> cq_store \<Rightarrow> cq_store" where
  "CIRCLEQ_INIT h s = s\<lparr>cqh_first := h, cqh_last := h\<rparr>"

definition CIRCLEQ_INSERT_AFTER :: "addr \<Rightarrow> addr \<Rightarrow> addr \<Rightarrow> cq_store \<Rightarrow> cq_store" where
  "CIRCLEQ_INSERT_AFTER h x e s =
    (let s1 = s\<lparr>cqe_next := (cqe_next s)(e := cqe_next s x)\<rparr>;
         s2 = s1\<lparr>cqe_prev := (cqe_prev s1)(e := x)\<rparr>;
         s3 = (if cqe_next s2 x = h then s2\<lparr>cqh_last := e\<rparr>
               else s2\<lparr>cqe_prev := (cqe_prev s2)(cqe_next s2 x := e)\<rparr>)
     in s3\<lparr>cqe_next := (cqe_next s3)(x := e)\<rparr>)"

definition CIRCLEQ_INSERT_BEFORE :: "addr \<Rightarrow> addr \<Rightarrow> addr \<Rightarrow> cq_store \<Rightarrow> cq_store" where
  "CIRCLEQ_INSERT_BEFORE h x e s =
    (let s1 = s\<lparr>cqe_next := (cqe_next s)(e := x)\<rparr>;
         s2 = s1\<lparr>cqe_prev := (cqe_prev s1)(e := cqe_prev s1 x)\<rparr>;
         s3 = (if cqe_prev s2 x = h then s2\<lparr>cqh_first := e\<rparr>
               else s2\<lparr>cqe_next := (cqe_next s2)(cqe_prev s2 x := e)\<rparr>)
     in s3\<lparr>cqe_prev := (cqe_prev s3)(x := e)\<rparr>)"

definition CIRCLEQ_INSERT_HEAD :: "addr \<Rightarrow> addr \<Rightarrow> cq_store \<Rightarrow> cq_store" where
  "CIRCLEQ_INSERT_HEAD h e s =
    (let s1 = s\<lparr>cqe_next := (cqe_next s)(e := cqh_first s)\<rparr>;
         s2 = s1\<lparr>cqe_prev := (cqe_prev s1)(e := h)\<rparr>;
         s3 = (if cqh_last s2 = h then s2\<lparr>cqh_last := e\<rparr>
               else s2\<lparr>cqe_prev := (cqe_prev s2)(cqh_first s2 := e)\<rparr>)
     in s3\<lparr>cqh_first := e\<rparr>)"

definition CIRCLEQ_INSERT_TAIL :: "addr \<Rightarrow> addr \<Rightarrow> cq_store \<Rightarrow> cq_store" where
  "CIRCLEQ_INSERT_TAIL h e s =
    (let s1 = s\<lparr>cqe_next := (cqe_next s)(e := h)\<rparr>;
         s2 = s1\<lparr>cqe_prev := (cqe_prev s1)(e := cqh_last s1)\<rparr>;
         s3 = (if cqh_first s2 = h then s2\<lparr>cqh_first := e\<rparr>
               else s2\<lparr>cqe_next := (cqe_next s2)(cqh_last s2 := e)\<rparr>)
     in s3\<lparr>cqh_last := e\<rparr>)"

definition CIRCLEQ_REMOVE :: "addr \<Rightarrow> addr \<Rightarrow> cq_store \<Rightarrow> cq_store" where
  "CIRCLEQ_REMOVE h e s =
    (let s1 = (if cqe_next s e = h then s\<lparr>cqh_last := cqe_prev s e\<rparr>
               else s\<lparr>cqe_prev := (cqe_prev s)(cqe_next s e := cqe_prev s e)\<rparr>)
     in if cqe_prev s1 e = h then s1\<lparr>cqh_first := cqe_next s1 e\<rparr>
        else s1\<lparr>cqe_next := (cqe_next s1)(cqe_prev s1 e := cqe_next s1 e)\<rparr>)"

definition CIRCLEQ_FOREACH :: "addr \<Rightarrow> cq_store \<Rightarrow> addr list option" where
  "CIRCLEQ_FOREACH h s = foreach (cqe_next s) h (cqh_first s)"

definition CIRCLEQ_FOREACH_REVERSE :: "addr \<Rightarrow> cq_store \<Rightarrow> addr list option" where
  "CIRCLEQ_FOREACH_REVERSE h s = foreach (cqe_prev s) h (cqh_last s)"

definition CIRCLEQ_EMPTY :: "addr \<Rightarrow> cq_store \<Rightarrow> bool" where
  "CIRCLEQ_EMPTY h s = (cqh_first s = h)"

definition CIRCLEQ_FIRST :: "cq_store \<Rightarrow> addr" where
  "CIRCLEQ_FIRST s = cqh_first s"

definition CIRCLEQ_LAST :: "cq_store \<Rightarrow> addr" where
  "CIRCLEQ_LAST s = cqh_last s"

definition CIRCLEQ_NEXT :: "addr \<Rightarrow> cq_store \<Rightarrow> addr" where
  "CIRCLEQ_NEXT e s = cqe_next s e"

definition CIRCLEQ_PREV :: "addr \<Rightarrow> cq_store \<Rightarrow> addr" where
  "CIRCLEQ_PREV e s = cqe_prev s e"

definition CIRCLEQ_LOOP_NEXT :: "addr \<Rightarrow> addr \<Rightarrow> cq_store \<Rightarrow> addr" where
  "CIRCLEQ_LOOP_NEXT h e s = (if cqe_next s e = h then cqh_first s else cqe_next s e)"

definition CIRCLEQ_LOOP_PREV :: "addr \<Rightarrow> addr \<Rightarrow> cq_store \<Rightarrow> addr" where
  "CIRCLEQ_LOOP_PREV h e s = (if cqe_prev s e = h then cqh_last s else cqe_prev s e)"

subsection \<open>The list a circular queue represents\<close>

text \<open>\<open>cq_seg s p xs n\<close>: the elements \<open>xs\<close> are linked in both directions, between \<open>p\<close> and \<open>n\<close>.\<close>

fun cq_seg :: "cq_store \<Rightarrow> addr \<Rightarrow> addr list \<Rightarrow> addr \<Rightarrow> bool" where
  "cq_seg s p [] n = True"
| "cq_seg s p (x # xs) n = (cqe_prev s x = p \<and> cqe_next s x = hd (xs @ [n]) \<and> cq_seg s x xs n)"

definition cq_rep :: "addr \<Rightarrow> cq_store \<Rightarrow> addr list \<Rightarrow> bool" where
  "cq_rep h s xs = (cqh_first s = hd (xs @ [h]) \<and> cqh_last s = last (h # xs) \<and> cq_seg s h xs h \<and> distinct (h # xs))"

lemma cq_seg_append: "cq_seg s p (xs @ ys) n = (cq_seg s p xs (hd (ys @ [n])) \<and> cq_seg s (last (p # xs)) ys n)"
proof (induction xs arbitrary: p)
  case (Cons x xs)
  then show ?case by (cases xs) (auto simp: hd_append)
qed simp

text \<open>A segment between new neighbours: only its outermost links may change.\<close>

lemma cq_seg_move:
  assumes "cq_seg s p xs n" "\<forall>x \<in> set (butlast xs). cqe_next s' x = cqe_next s x" "\<forall>x \<in> set (tl xs). cqe_prev s' x = cqe_prev s x"
    "xs \<noteq> [] \<Longrightarrow> cqe_prev s' (hd xs) = p'" "xs \<noteq> [] \<Longrightarrow> cqe_next s' (last xs) = n'"
  shows "cq_seg s' p' xs n'"
  using assms
proof (induction xs arbitrary: p p')
  case (Cons x xs)
  then show ?case
  proof (cases xs)
    case (Cons y ys)
    have "cq_seg s' x xs n'" by (rule Cons.IH [of x]) (use Cons.prems Cons in auto)
    with Cons.prems Cons show ?thesis by simp
  qed simp
qed simp

lemma cq_splice:
  assumes front: "cq_seg s p xs n" "\<forall>x \<in> set (butlast xs). cqe_next s' x = cqe_next s x" "\<forall>x \<in> set xs. cqe_prev s' x = cqe_prev s x"
      "xs \<noteq> [] \<Longrightarrow> p = h"
    and rear: "cq_seg s p2 zs n2" "\<forall>z \<in> set zs. cqe_next s' z = cqe_next s z" "\<forall>z \<in> set (tl zs). cqe_prev s' z = cqe_prev s z"
      "zs \<noteq> [] \<Longrightarrow> n2 = h"
    and mid: "cq_seg s' (last (h # xs)) ms (hd (zs @ [h]))"
    and seam: "xs \<noteq> [] \<Longrightarrow> cqe_next s' (last xs) = hd (ms @ zs @ [h])" "zs \<noteq> [] \<Longrightarrow> cqe_prev s' (hd zs) = last (h # xs @ ms)"
    and ends: "cqh_first s' = hd (xs @ ms @ zs @ [h])" "cqh_last s' = last (h # xs @ ms @ zs)"
    and elems: "distinct (h # xs @ ms @ zs)"
  shows "cq_rep h s' (xs @ ms @ zs)"
proof -
  have "cq_seg s' h xs (hd (ms @ zs @ [h]))"
    by (rule cq_seg_move [OF front(1)]) (use front seam in \<open>cases xs; auto\<close>)+
  moreover have "cq_seg s' (last (h # xs @ ms)) zs h"
  proof (rule cq_seg_move [OF rear(1)])
    show "zs \<noteq> [] \<Longrightarrow> cqe_next s' (last zs) = h"
      using rear by (cases zs rule: rev_cases) (auto simp: cq_seg_append)
  qed (use rear seam in \<open>auto dest: in_set_butlastD\<close>)
  ultimately have "cq_seg s' h (xs @ ms @ zs) h" using mid by (auto simp: cq_seg_append)
  with ends elems show ?thesis by (simp add: cq_rep_def)
qed

lemma cq_rep_split:
  assumes "cq_rep h s (xs @ zs)"
  shows "cq_seg s h xs (hd (zs @ [h]))" "cq_seg s (last (h # xs)) zs h" "cqh_first s = hd (xs @ zs @ [h])" "cqh_last s = last (h # xs @ zs)"
    "distinct (h # xs @ zs)"
  using assms by (simp_all add: cq_rep_def cq_seg_append)

lemma CIRCLEQ_INIT_rep: "cq_rep h (CIRCLEQ_INIT h s) []"
  by (simp add: cq_rep_def CIRCLEQ_INIT_def)

lemma CIRCLEQ_INSERT_HEAD_rep:
  assumes "cq_rep h s xs" "e \<noteq> h" "e \<notin> set xs"
  shows "cq_rep h (CIRCLEQ_INSERT_HEAD h e s) (e # xs)"
proof -
  have "cq_rep h s ([] @ xs)" using assms(1) by simp
  note r = cq_rep_split [OF this]
  have "cq_rep h (CIRCLEQ_INSERT_HEAD h e s) ([] @ [e] @ xs)"
  proof (cases xs)
    case Nil
    with r assms(2) show ?thesis by (simp add: cq_rep_def CIRCLEQ_INSERT_HEAD_def)
  next
    case (Cons y ys)
    with r(3-5) have f: "cqh_last s \<noteq> h" "cqh_last s = last xs" "cqh_first s = y" by auto
    then show ?thesis
      by (intro cq_splice [OF r(1) _ _ _ r(2)])
        (use r(5) f Cons assms(2,3) in \<open>auto simp: CIRCLEQ_INSERT_HEAD_def Let_def\<close>)
  qed
  then show ?thesis by simp
qed

lemma CIRCLEQ_INSERT_TAIL_rep:
  assumes "cq_rep h s xs" "e \<noteq> h" "e \<notin> set xs"
  shows "cq_rep h (CIRCLEQ_INSERT_TAIL h e s) (xs @ [e])"
proof -
  have "cq_rep h s (xs @ [])" using assms(1) by simp
  note r = cq_rep_split [OF this]
  have "cq_rep h (CIRCLEQ_INSERT_TAIL h e s) (xs @ [e] @ [])"
  proof (cases xs rule: rev_cases)
    case Nil
    with r assms(2) show ?thesis by (simp add: cq_rep_def CIRCLEQ_INSERT_TAIL_def)
  next
    case (snoc ys y)
    with r have f: "cqh_first s \<noteq> h" "cqh_last s = y" "cqh_first s = hd (ys @ [y])" by (cases ys; auto)+
    have "cqh_first (CIRCLEQ_INSERT_TAIL h e s) = hd (xs @ [e] @ [] @ [h])" using f snoc by (simp add: CIRCLEQ_INSERT_TAIL_def Let_def hd_append)
    then show ?thesis
      by (intro cq_splice [OF r(1) _ _ _ r(2)])
        (use r(5) f snoc assms in \<open>auto simp: CIRCLEQ_INSERT_TAIL_def Let_def\<close>)
  qed
  then show ?thesis by simp
qed

lemma CIRCLEQ_INSERT_AFTER_rep:
  assumes "cq_rep h s (xs @ x # ys)" "e \<noteq> h" "e \<notin> set (xs @ x # ys)"
  shows "cq_rep h (CIRCLEQ_INSERT_AFTER h x e s) (xs @ x # e # ys)"
proof -
  have "cq_rep h s ((xs @ [x]) @ ys)" using assms(1) by simp
  note r = cq_rep_split [OF this]
  have n: "cqe_next s x = hd (ys @ [h])" using r(1) by (simp add: cq_seg_append)
  have "cq_rep h (CIRCLEQ_INSERT_AFTER h x e s) ((xs @ [x]) @ [e] @ ys)"
  proof (cases ys)
    case Nil
    then show ?thesis
      by (intro cq_splice [OF r(1) _ _ _ r(2)]) (use r(3-5) n assms(2,3) in \<open>auto simp: CIRCLEQ_INSERT_AFTER_def Let_def butlast_append hd_append\<close>)
  next
    case (Cons y zs)
    then show ?thesis
      by (intro cq_splice [OF r(1) _ _ _ r(2)]) (use r(3-5) n assms(2,3) in \<open>auto simp: CIRCLEQ_INSERT_AFTER_def Let_def butlast_append hd_append\<close>)
  qed
  then show ?thesis by simp
qed

lemma CIRCLEQ_INSERT_BEFORE_rep:
  assumes "cq_rep h s (xs @ x # ys)" "e \<noteq> h" "e \<notin> set (xs @ x # ys)"
  shows "cq_rep h (CIRCLEQ_INSERT_BEFORE h x e s) (xs @ e # x # ys)"
proof -
  note r = cq_rep_split [OF assms(1)]
  have p: "cqe_prev s x = last (h # xs)" using r(2) by simp
  have "cq_rep h (CIRCLEQ_INSERT_BEFORE h x e s) (xs @ [e] @ x # ys)"
  proof (cases xs rule: rev_cases)
    case Nil
    then show ?thesis
      by (intro cq_splice [OF r(1) _ _ _ r(2)]) (use r(3-5) p assms(2,3) in \<open>auto simp: CIRCLEQ_INSERT_BEFORE_def Let_def\<close>)
  next
    case (snoc zs z)
    then show ?thesis
      by (intro cq_splice [OF r(1) _ _ _ r(2)])
        (use r(3-5) p assms(2,3) in \<open>auto simp: CIRCLEQ_INSERT_BEFORE_def Let_def butlast_append hd_append\<close>)
  qed
  then show ?thesis by simp
qed

lemma CIRCLEQ_REMOVE_rep:
  assumes "cq_rep h s (xs @ x # ys)"
  shows "cq_rep h (CIRCLEQ_REMOVE h x s) (xs @ ys)"
proof -
  note r = cq_rep_split [OF assms(1)]
  have p: "cqe_prev s x = last (h # xs)" "cqe_next s x = hd (ys @ [h])" "cq_seg s x ys h" using r(2) by simp_all
  have "cq_rep h (CIRCLEQ_REMOVE h x s) (xs @ [] @ ys)"
  proof (cases xs rule: rev_cases)
    case Nil
    then show ?thesis
      by (intro cq_splice [OF r(1) _ _ _ p(3)])
        (use r(3-5) p(1,2) in \<open>auto simp: CIRCLEQ_REMOVE_def Let_def hd_append neq_Nil_conv split: if_splits\<close>)
  next
    case (snoc zs z)
    then show ?thesis
      by (intro cq_splice [OF r(1) _ _ _ p(3)])
        (use r(3-5) p(1,2) in \<open>auto simp: CIRCLEQ_REMOVE_def Let_def butlast_append hd_append neq_Nil_conv split: if_splits\<close>)
  qed
  then show ?thesis by simp
qed

subsection \<open>Traversal\<close>

lemma cq_seg_path: "cq_seg s p xs h \<Longrightarrow> h \<notin> set xs \<Longrightarrow> path (cqe_next s) (hd (xs @ [h])) xs h"
  by (induction xs arbitrary: p) auto

lemma cq_seg_path_back: "cq_seg s h xs n \<Longrightarrow> h \<notin> set xs \<Longrightarrow> path (cqe_prev s) (last (h # xs)) (rev xs) h"
  by (induction xs arbitrary: n rule: rev_induct) (auto simp: cq_seg_append)

fun cq_step :: "addr \<Rightarrow> edit \<Rightarrow> cq_store \<Rightarrow> cq_store option" where
  "cq_step h (InsHead e) s = Some (CIRCLEQ_INSERT_HEAD h e s)"
| "cq_step h (InsTail e) s = Some (CIRCLEQ_INSERT_TAIL h e s)"
| "cq_step h (InsAfter x e) s = Some (CIRCLEQ_INSERT_AFTER h x e s)"
| "cq_step h (InsBefore x e) s = Some (CIRCLEQ_INSERT_BEFORE h x e s)"
| "cq_step h (Remove x) s = Some (CIRCLEQ_REMOVE h x s)"

interpretation circleq_edit: two_way "cq_rep h" "cq_step h" "\<lambda>_. True" "\<lambda>e. e \<noteq> h" "CIRCLEQ_FOREACH h" "CIRCLEQ_FOREACH_REVERSE h" for h
proof unfold_locales
  fix s xs d
  assume r: "cq_rep h s xs" and d: "edit_ok (\<lambda>e. e \<noteq> h) d xs"
  have "distinct xs" using r by (simp add: cq_rep_def)
  with d show "\<exists>s'. cq_step h d s = Some s' \<and> cq_rep h s' (edited d xs)"
    by (cases rule: edit_cases)
      (use r in \<open>simp_all add: CIRCLEQ_INSERT_HEAD_rep CIRCLEQ_INSERT_TAIL_rep CIRCLEQ_INSERT_AFTER_rep CIRCLEQ_INSERT_BEFORE_rep CIRCLEQ_REMOVE_rep\<close>)
next
  fix s xs
  assume r: "cq_rep h s xs"
  show "CIRCLEQ_FOREACH h s = Some xs"
    using r foreach_path [OF cq_seg_path [of s h xs h]] by (simp add: cq_rep_def CIRCLEQ_FOREACH_def)
  show "CIRCLEQ_FOREACH_REVERSE h s = Some (rev xs)"
    using r foreach_path [OF cq_seg_path_back [of s h xs h]] by (simp add: cq_rep_def CIRCLEQ_FOREACH_REVERSE_def)
qed

text \<open>Going round: after the last element comes the first one, and the other way round.\<close>

lemma CIRCLEQ_LOOP_rep:
  assumes "cq_rep h s (xs @ x # ys)"
  shows "CIRCLEQ_LOOP_NEXT h x s = hd (ys @ xs @ [x])" "CIRCLEQ_LOOP_PREV h x s = last (x # ys @ xs)"
proof -
  note r = cq_rep_split [OF assms]
  show "CIRCLEQ_LOOP_NEXT h x s = hd (ys @ xs @ [x])"
    using r(2,3,5) by (cases ys) (auto simp: CIRCLEQ_LOOP_NEXT_def hd_append)
  show "CIRCLEQ_LOOP_PREV h x s = last (x # ys @ xs)"
    using r(2,4,5) by (cases xs rule: rev_cases) (auto simp: CIRCLEQ_LOOP_PREV_def)
qed

section \<open>Properties\<close>

text \<open>
  C30: tail queues are lists. Start with an empty tail queue and carry out any sequence of insertions (at the head, at
  the tail, after or before an element) and removals whose new elements are not NULL and not on the queue and whose
  other elements are. The pointers then represent the list the edits describe: the forward loop
  ends and visits exactly that list, the backward loop its reverse, and nobody followed a NULL pointer.
\<close>

theorem tailq_edits:
  assumes "edits_ok (\<lambda>e. e \<noteq> NULL) ds []"
  shows "\<exists>s'. run_edits (tq_step q) ds (TAILQ_INIT q s) = Some s' \<and> TAILQ_FOREACH q s' = Some (fold edited ds []) \<and>
    TAILQ_FOREACH_REVERSE q s' = Some (rev (fold edited ds []))"
  by (rule tailq_edit.run_back [OF TAILQ_INIT_rep _ assms]) (simp add: list_all_iff)

text \<open>An edit of each kind, for the witnesses.\<close>

definition edits5 :: "edit list" where
  "edits5 = [InsHead 5, InsTail 7, InsAfter 5 6, InsBefore 5 4, Remove 7]"

definition edits3 :: "edit list" where
  "edits3 = [InsHead 5, InsAfter 5 6, InsHead 4, Remove 5]"

definition tq_zero :: tq_store where
  "tq_zero = \<lparr>tqh_first = \<lambda>_. 0, tqh_last = FirstOf, tqe_next = \<lambda>_. 0, tqe_prev = \<lambda>_. FirstOf QReady\<rparr>"

theorem tailq_edits_witness:
  "\<exists>s'. run_edits (tq_step QReady) edits5 (TAILQ_INIT QReady tq_zero) = Some s' \<and> TAILQ_FOREACH QReady s' = Some [4, 5, 6]"
proof -
  have "edits_ok (\<lambda>e. e \<noteq> NULL) edits5 []" "fold edited edits5 [] = [4, 5, 6]" by (simp_all add: edits5_def)
  with tailq_edits [of edits5 QReady tq_zero] show ?thesis by auto
qed

text \<open>
  Circular queues are lists. The same for circular queues, whose outermost links point to the head: any
  sequence of edits whose new elements are neither on the queue nor the head itself; afterwards the
  successor of an element in the unending traversal is the next element of the list, the first one after the last,
  and its predecessor accordingly.
\<close>

theorem circleq_edits:
  assumes "edits_ok (\<lambda>e. e \<noteq> h) ds []"
  shows "\<exists>s'. run_edits (cq_step h) ds (CIRCLEQ_INIT h s) = Some s' \<and> CIRCLEQ_FOREACH h s' = Some (fold edited ds []) \<and>
    CIRCLEQ_FOREACH_REVERSE h s' = Some (rev (fold edited ds [])) \<and>
    (\<forall>xs x ys. fold edited ds [] = xs @ x # ys \<longrightarrow>
       CIRCLEQ_LOOP_NEXT h x s' = hd (ys @ xs @ [x]) \<and> CIRCLEQ_LOOP_PREV h x s' = last (x # ys @ xs))"
proof -
  from circleq_edit.run_law [OF CIRCLEQ_INIT_rep _ assms, of s] obtain s' where
    r: "run_edits (cq_step h) ds (CIRCLEQ_INIT h s) = Some s'" "cq_rep h s' (fold edited ds [])" by (auto simp: list_all_iff)
  show ?thesis
  proof (intro exI [of _ s'] conjI allI impI)
    fix xs x ys
    assume "fold edited ds [] = xs @ x # ys"
    with r(2) show "CIRCLEQ_LOOP_NEXT h x s' = hd (ys @ xs @ [x])" "CIRCLEQ_LOOP_PREV h x s' = last (x # ys @ xs)"
      using CIRCLEQ_LOOP_rep [of h s' xs x ys] by simp_all
  qed (use r circleq_edit.walk_law [OF r(2)] circleq_edit.walk_back_law [OF r(2)] in simp_all)
qed

theorem circleq_edits_witness:
  "\<exists>s'. run_edits (cq_step 9) edits5 (CIRCLEQ_INIT 9 \<lparr>cqh_first = 0, cqh_last = 0, cqe_next = \<lambda>_. 0, cqe_prev = \<lambda>_. 0\<rparr>) = Some s' \<and>
    CIRCLEQ_FOREACH_REVERSE 9 s' = Some [6, 5, 4] \<and> CIRCLEQ_LOOP_NEXT 9 6 s' = 4"
proof -
  have "edits_ok (\<lambda>e. e \<noteq> 9) edits5 []" and l: "fold edited edits5 [] = [4, 5] @ 6 # []" by (simp_all add: edits5_def)
  from circleq_edits [OF this(1), of "\<lparr>cqh_first = 0, cqh_last = 0, cqe_next = \<lambda>_. 0, cqe_prev = \<lambda>_. 0\<rparr>"] obtain s' where
    "run_edits (cq_step 9) edits5 (CIRCLEQ_INIT 9 \<lparr>cqh_first = 0, cqh_last = 0, cqe_next = \<lambda>_. 0, cqe_prev = \<lambda>_. 0\<rparr>) = Some s'"
    "CIRCLEQ_FOREACH_REVERSE 9 s' = Some (rev (fold edited edits5 []))"
    "\<forall>xs x ys. fold edited edits5 [] = xs @ x # ys \<longrightarrow> CIRCLEQ_LOOP_NEXT 9 x s' = hd (ys @ xs @ [x])" by blast
  moreover from this(3) l have "CIRCLEQ_LOOP_NEXT 9 6 s' = hd ([] @ [4, 5] @ [6])" by blast
  ultimately show ?thesis using l by auto
qed

text \<open>
  C31: the structures are interchangeable. For every sequence of the edits they all have (insertion at the head and
  after an element, removal of any element), carried out on an initialised list, singly-linked list, singly-linked
  tail queue, simple queue and tail queue, none of them faults and the loops over all five visit
  the same elements in the same order.
\<close>

theorem list_families_agree:
  assumes "edits_ok (\<lambda>e. e \<noteq> NULL) ds []" and "list_all common ds"
  shows "\<exists>l sl st sq tq. run_edits (l_step q) ds (LIST_INIT q (list_of s)) = Some l \<and> run_edits sl_step ds (SLIST_INIT z) = Some sl \<and>
    run_edits (st_step q) ds (STAILQ_INIT q (stailq_of s)) = Some st \<and>
    run_edits (sq_step q) ds (SIMPLEQ_INIT q (simpleq_of (stailq_of s))) = Some sq \<and>
    run_edits (tq_step q) ds (TAILQ_INIT q s) = Some tq \<and>
    LIST_FOREACH q l = TAILQ_FOREACH q tq \<and> SLIST_FOREACH sl = TAILQ_FOREACH q tq \<and>
    STAILQ_FOREACH q st = TAILQ_FOREACH q tq \<and> SIMPLEQ_FOREACH q sq = TAILQ_FOREACH q tq"
proof -
  note t = TAILQ_INIT_rep [of q s]
  have r: "list_rep (LIST_INIT q (list_of s)) q []" "st_rep (STAILQ_INIT q (stailq_of s)) q []" "slist_rep (SLIST_INIT z) []"
    using t by (auto simp: list_rep_def st_rep_def list_simulates_tailq stailq_simulates_tailq slist_rep_def SLIST_INIT_def)
  then have "sq_rep (SIMPLEQ_INIT q (simpleq_of (stailq_of s))) q []" by (auto simp: sq_rep_def simpleq_is_stailq)
  moreover have "list_all no_tail ds" "list_all no_before ds" "list_all (\<lambda>_. True) ds"
    using assms(2) by (auto simp: list_all_iff common_def)
  ultimately show ?thesis
    using list_edit.run_law [OF r(1) _ assms(1)] stailq_edit.run_law [OF r(2) _ assms(1)] slist_edit.run_law [OF r(3) assms(2,1)]
      simpleq_edit.run_law [OF _ _ assms(1)] tailq_edit.run_law [OF t _ assms(1)] by metis
qed

theorem list_families_agree_witness:
  "\<exists>l sl. run_edits (l_step QUrgent) edits3 (LIST_INIT QUrgent (list_of tq_zero)) = Some l \<and>
     run_edits sl_step edits3 (SLIST_INIT \<lparr>slh_first = 7, sle_next = \<lambda>_. 7\<rparr>) = Some sl \<and> LIST_FOREACH QUrgent l = SLIST_FOREACH sl"
proof -
  have "edits_ok (\<lambda>e. e \<noteq> NULL) edits3 []" "list_all common edits3" by (simp_all add: edits3_def common_def no_tail_def no_before_def)
  from list_families_agree [OF this, of QUrgent tq_zero "\<lparr>slh_first = 7, sle_next = \<lambda>_. 7\<rparr>"] show ?thesis by metis
qed

end
