(* ===== verification/Sys_Tree.thy ===== *)
theory Sys_Tree
  imports Dyco_Prelude
begin

text \<open>
  The red-black tree of \<^verbatim>\<open>include/dyco/sys_tree.h\<close> in which a scheduler keeps its sleeping
  coroutines, ordered by \<^verbatim>\<open>sleep_usecs\<close> (\<^verbatim>\<open>coroutine_sleep_cmp\<close>).

  The nodes are the coroutines themselves, so the tree holds their addresses and the operations
  get a function \<open>key\<close> that reads the field a comparison reads. The left, right and colour
  fields of the nodes are a tree; a node together with its chain of parent pointers is a subtree
  and a \<open>path\<close> of \<open>frame\<close>s, innermost first. Where the code would follow a NULL
  pointer the result is \<open>None\<close>; the theorems show that this does not happen in a
  well-formed tree.
\<close>

section \<open>Nodes, frames and rotations\<close>

datatype rb_color = RB_BLACK | RB_RED

datatype rb_tree = Lf | Nd rb_color rb_tree addr rb_tree

text \<open>A step towards the root: the hole is the left (right) child of this parent.\<close>

datatype frame = InL rb_color addr rb_tree | InR rb_color rb_tree addr

type_synonym path = "frame list"

fun plug1 :: "rb_tree \<Rightarrow> frame \<Rightarrow> rb_tree" where
  "plug1 t (InL c a r) = Nd c t a r"
| "plug1 t (InR c l a) = Nd c l a t"

fun plug :: "rb_tree \<Rightarrow> path \<Rightarrow> rb_tree" where
  "plug t [] = t"
| "plug t (f # p) = plug (plug1 t f) p"

fun frame_color :: "frame \<Rightarrow> rb_color" where
  "frame_color (InL c a r) = c"
| "frame_color (InR c l a) = c"

text \<open>\<^verbatim>\<open>tmp && RB_COLOR(tmp, field) == RB_RED\<close>\<close>

fun is_red :: "rb_tree \<Rightarrow> bool" where
  "is_red (Nd RB_RED l a r) = True"
| "is_red _ = False"

fun paint :: "rb_color \<Rightarrow> rb_tree \<Rightarrow> rb_tree" where
  "paint c Lf = Lf"
| "paint c (Nd _ l a r) = Nd c l a r"

fun RB_ROTATE_LEFT :: "rb_tree \<Rightarrow> rb_tree option" where
  "RB_ROTATE_LEFT (Nd c l x (Nd c' rl y rr)) = Some (Nd c' (Nd c l x rl) y rr)"
| "RB_ROTATE_LEFT _ = None"

fun RB_ROTATE_RIGHT :: "rb_tree \<Rightarrow> rb_tree option" where
  "RB_ROTATE_RIGHT (Nd c (Nd c' ll y lr) x r) = Some (Nd c' ll y (Nd c lr x r))"
| "RB_ROTATE_RIGHT _ = None"

section \<open>Insertion\<close>

text \<open>
  One turn of the loop of \<^verbatim>\<open>RB_INSERT_COLOR\<close> at the node \<open>t\<close> with a red parent: \<open>Inr\<close>
  continues at the grandparent, \<open>Inl\<close> is the whole tree after the final rotation, whose
  \<open>parent\<close> is black, so that the loop stops.
\<close>

fun insert_color_step :: "rb_tree \<Rightarrow> path \<Rightarrow> (rb_tree + rb_tree \<times> path) option" where
  "insert_color_step t (f # InL gc g uncle # p) =
    (if is_red uncle
     then Some (Inr (Nd RB_RED (paint RB_BLACK (plug1 t f)) g (paint RB_BLACK uncle), p))
     else (case (case f of InR _ _ _ \<Rightarrow> RB_ROTATE_LEFT (plug1 t f) | InL _ _ _ \<Rightarrow> Some (plug1 t f)) of
             None \<Rightarrow> None
           | Some par \<Rightarrow>
               (case RB_ROTATE_RIGHT (Nd RB_RED (paint RB_BLACK par) g uncle) of
                  None \<Rightarrow> None
                | Some t' \<Rightarrow> Some (Inl (plug t' p)))))"
| "insert_color_step t (f # InR gc uncle g # p) =
    (if is_red uncle
     then Some (Inr (Nd RB_RED (paint RB_BLACK uncle) g (paint RB_BLACK (plug1 t f)), p))
     else (case (case f of InL _ _ _ \<Rightarrow> RB_ROTATE_RIGHT (plug1 t f) | InR _ _ _ \<Rightarrow> Some (plug1 t f)) of
             None \<Rightarrow> None
           | Some par \<Rightarrow>
               (case RB_ROTATE_LEFT (Nd RB_RED uncle g (paint RB_BLACK par)) of
                  None \<Rightarrow> None
                | Some t' \<Rightarrow> Some (Inl (plug t' p)))))"
| "insert_color_step t _ = None"

lemma insert_color_step_shorter:
  "insert_color_step t p = Some (Inr (t', p')) \<Longrightarrow> length p' < length p"
  by (induction t p rule: insert_color_step.induct) (auto split: if_splits option.splits)

function RB_INSERT_COLOR :: "rb_tree \<Rightarrow> path \<Rightarrow> rb_tree option" where
  "RB_INSERT_COLOR t p =
    (if p \<noteq> [] \<and> frame_color (hd p) = RB_RED
     then (case insert_color_step t p of
             None \<Rightarrow> None
           | Some (Inl t') \<Rightarrow> Some (paint RB_BLACK t')
           | Some (Inr (t', p')) \<Rightarrow> RB_INSERT_COLOR t' p')
     else Some (paint RB_BLACK (plug t p)))"
  by pat_completeness auto

termination
  by (relation "measure (\<lambda>(t, p). length p)") (auto dest: insert_color_step_shorter)

declare RB_INSERT_COLOR.simps [simp del]

definition coroutine_sleep_cmp :: "(addr \<Rightarrow> u64) \<Rightarrow> addr \<Rightarrow> addr \<Rightarrow> int" where
  "coroutine_sleep_cmp key co1 co2 =
    (if key co1 < key co2 then - 1 else if key co1 = key co2 then 0 else 1)"

text \<open>The descent of \<^verbatim>\<open>RB_INSERT\<close>: an equal key (\<open>Inl\<close>) or the place of the new leaf.\<close>

fun rb_descend :: "(addr \<Rightarrow> u64) \<Rightarrow> addr \<Rightarrow> rb_tree \<Rightarrow> path \<Rightarrow> addr + path" where
  "rb_descend key e Lf p = Inr p"
| "rb_descend key e (Nd c l a r) p =
    (if coroutine_sleep_cmp key e a < 0 then rb_descend key e l (InL c a r # p)
     else if coroutine_sleep_cmp key e a > 0 then rb_descend key e r (InR c l a # p)
     else Inl a)"

text \<open>The returned pointer (NULL: inserted) and the tree.\<close>

definition RB_INSERT :: "(addr \<Rightarrow> u64) \<Rightarrow> addr \<Rightarrow> rb_tree \<Rightarrow> (addr \<times> rb_tree) option" where
  "RB_INSERT key e t =
    (case rb_descend key e t [] of
       Inl a \<Rightarrow> Some (a, t)
     | Inr p \<Rightarrow> map_option (\<lambda>t'. (NULL, t')) (RB_INSERT_COLOR (Nd RB_RED Lf e Lf) p))"

section \<open>Removal\<close>

text \<open>
  One turn of the loop of \<^verbatim>\<open>RB_REMOVE_COLOR\<close> at the doubly black subtree \<open>t\<close>. The
  first case distinction is the red sibling (\<^verbatim>\<open>tmp\<close>), after which the turn goes on with the
  new sibling one level further down.
\<close>

definition remove_fix_left :: "rb_tree \<Rightarrow> rb_color \<Rightarrow> addr \<Rightarrow> rb_tree \<Rightarrow> path \<Rightarrow> (rb_tree + rb_tree \<times> path) option" where
  "remove_fix_left t pc pa tmp p =
    (case tmp of
       Lf \<Rightarrow> None
     | Nd c l a r \<Rightarrow>
         if \<not> is_red l \<and> \<not> is_red r then Some (Inr (Nd pc t pa (Nd RB_RED l a r), p))
         else (case (if \<not> is_red r then RB_ROTATE_RIGHT (Nd RB_RED (paint RB_BLACK l) a r) else Some tmp) of
                 Some (Nd c' l' a' r') \<Rightarrow>
                   (case RB_ROTATE_LEFT (Nd RB_BLACK t pa (Nd pc l' a' (paint RB_BLACK r'))) of
                      None \<Rightarrow> None
                    | Some t' \<Rightarrow> Some (Inl (plug t' p)))
               | _ \<Rightarrow> None))"

definition remove_fix_right :: "rb_tree \<Rightarrow> rb_color \<Rightarrow> addr \<Rightarrow> rb_tree \<Rightarrow> path \<Rightarrow> (rb_tree + rb_tree \<times> path) option" where
  "remove_fix_right t pc pa tmp p =
    (case tmp of
       Lf \<Rightarrow> None
     | Nd c l a r \<Rightarrow>
         if \<not> is_red l \<and> \<not> is_red r then Some (Inr (Nd pc (Nd RB_RED l a r) pa t, p))
         else (case (if \<not> is_red l then RB_ROTATE_LEFT (Nd RB_RED l a (paint RB_BLACK r)) else Some tmp) of
                 Some (Nd c' l' a' r') \<Rightarrow>
                   (case RB_ROTATE_RIGHT (Nd RB_BLACK (Nd pc (paint RB_BLACK l') a' r') pa t) of
                      None \<Rightarrow> None
                    | Some t' \<Rightarrow> Some (Inl (plug t' p)))
               | _ \<Rightarrow> None))"

fun remove_color_step :: "rb_tree \<Rightarrow> path \<Rightarrow> (rb_tree + rb_tree \<times> path) option" where
  "remove_color_step t (InL pc pa (Nd RB_RED l a r) # p) = remove_fix_left t RB_RED pa l (InL RB_BLACK a r # p)"
| "remove_color_step t (InL pc pa tmp # p) = remove_fix_left t pc pa tmp p"
| "remove_color_step t (InR pc (Nd RB_RED l a r) pa # p) = remove_fix_right t RB_RED pa r (InR RB_BLACK l a # p)"
| "remove_color_step t (InR pc tmp pa # p) = remove_fix_right t pc pa tmp p"
| "remove_color_step t [] = None"

lemma remove_fix_next:
  "remove_fix_left t pc pa s p = Some (Inr (t', p')) \<Longrightarrow> p' = p \<and> is_red t' = (pc = RB_RED)"
  "remove_fix_right t pc pa s p = Some (Inr (t', p')) \<Longrightarrow> p' = p \<and> is_red t' = (pc = RB_RED)"
  by (cases pc; auto simp: remove_fix_left_def remove_fix_right_def split: rb_tree.splits if_splits option.splits)+

lemma remove_color_step_shorter:
  assumes "remove_color_step t p = Some (Inr (t', p'))"
  shows "length p' < length p \<or> length p' = length p \<and> is_red t'"
  using assms by (induction t p rule: remove_color_step.induct) (auto dest!: remove_fix_next)

function RB_REMOVE_COLOR :: "rb_tree \<Rightarrow> path \<Rightarrow> rb_tree option" where
  "RB_REMOVE_COLOR t p =
    (if \<not> is_red t \<and> p \<noteq> []
     then (case remove_color_step t p of
             None \<Rightarrow> None
           | Some (Inl t') \<Rightarrow> Some (paint RB_BLACK t')
           | Some (Inr (t', p')) \<Rightarrow> RB_REMOVE_COLOR t' p')
     else Some (plug (paint RB_BLACK t) p))"
  by pat_completeness auto

termination
  by (relation "measure (\<lambda>(t, p). 2 * length p + (if is_red t then 0 else 1))")
    (auto dest!: remove_color_step_shorter)

declare RB_REMOVE_COLOR.simps [simp del]

text \<open>The node a pointer points to, with its chain of parents.\<close>

fun rb_locate :: "addr \<Rightarrow> rb_tree \<Rightarrow> path \<Rightarrow> (rb_tree \<times> path) option" where
  "rb_locate e Lf p = None"
| "rb_locate e (Nd c l a r) p =
    (if a = e then Some (Nd c l a r, p)
     else case rb_locate e l (InL c a r # p) of
            Some q \<Rightarrow> Some q
          | None \<Rightarrow> rb_locate e r (InR c l a # p))"

text \<open>The loop that runs to the leftmost node of the right subtree: that node, its colour, its right child
  and its parents.\<close>

fun rb_leftmost :: "rb_color \<Rightarrow> rb_tree \<Rightarrow> addr \<Rightarrow> rb_tree \<Rightarrow> path \<Rightarrow> addr \<times> rb_color \<times> rb_tree \<times> path" where
  "rb_leftmost c Lf a r p = (a, c, r, p)"
| "rb_leftmost c (Nd c' l' a' r') a r p = rb_leftmost c' l' a' r' (InL c a r # p)"

text \<open>Put \<open>child\<close> in the place of the unlinked node of colour \<open>c\<close> (label \<^verbatim>\<open>color\<close>).\<close>

definition remove_finish :: "rb_color \<Rightarrow> rb_tree \<Rightarrow> path \<Rightarrow> rb_tree option" where
  "remove_finish c child p = (if c = RB_BLACK then RB_REMOVE_COLOR child p else Some (plug child p))"

definition RB_REMOVE :: "addr \<Rightarrow> rb_tree \<Rightarrow> rb_tree option" where
  "RB_REMOVE e t =
    (case rb_locate e t [] of
       Some (Nd c l a r, p) \<Rightarrow>
         (case (l, r) of
            (Lf, _) \<Rightarrow> remove_finish c r p
          | (_, Lf) \<Rightarrow> remove_finish c l p
          | (_, Nd rc rl ra rr) \<Rightarrow>
              (let (s, sc, child, q) = rb_leftmost rc rl ra rr []
               in remove_finish sc child (q @ InR c l s # p)))
     | _ \<Rightarrow> None)"

section \<open>Lookup\<close>

fun RB_FIND :: "(addr \<Rightarrow> u64) \<Rightarrow> addr \<Rightarrow> rb_tree \<Rightarrow> addr" where
  "RB_FIND key e Lf = NULL"
| "RB_FIND key e (Nd c l a r) =
    (if coroutine_sleep_cmp key e a < 0 then RB_FIND key e l
     else if coroutine_sleep_cmp key e a > 0 then RB_FIND key e r
     else a)"

text \<open>The loop of \<^verbatim>\<open>RB_MINMAX\<close>; the last argument is its variable \<^verbatim>\<open>parent\<close>.\<close>

fun RB_MINMAX :: "int \<Rightarrow> rb_tree \<Rightarrow> addr \<Rightarrow> addr" where
  "RB_MINMAX val Lf parent = parent"
| "RB_MINMAX val (Nd c l a r) parent = (if val < 0 then RB_MINMAX val l a else RB_MINMAX val r a)"

definition RB_MIN :: "rb_tree \<Rightarrow> addr" where
  "RB_MIN t = RB_MINMAX (- 1) t NULL"

definition RB_MAX :: "rb_tree \<Rightarrow> addr" where
  "RB_MAX t = RB_MINMAX 1 t NULL"

definition RB_EMPTY :: "rb_tree \<Rightarrow> bool" where
  "RB_EMPTY t = (t = Lf)"

end
