(* ===== verification/Tree_Correct.thy ===== *)
theory Tree_Correct
  imports Sys_Tree
begin

text \<open>
  Correctness of the red-black tree: the order of the nodes (\<open>inorder\<close>), the colour and black
  height invariants along a path, and the contracts of insertion, removal and lookup. The set of
  sleeping coroutines is used by the scheduler through the locale \<open>sleep_queue\<close>.
\<close>

section \<open>Order\<close>

fun inorder :: "rb_tree \<Rightarrow> addr list" where
  "inorder Lf = []"
| "inorder (Nd c l a r) = inorder l @ a # inorder r"

fun pleft :: "path \<Rightarrow> addr list" where
  "pleft [] = []"
| "pleft (InL c a r # p) = pleft p"
| "pleft (InR c l a # p) = pleft p @ inorder l @ [a]"

fun pright :: "path \<Rightarrow> addr list" where
  "pright [] = []"
| "pright (InL c a r # p) = a # inorder r @ pright p"
| "pright (InR c l a # p) = pright p"

lemma inorder_plug [simp]: "inorder (plug t p) = pleft p @ inorder t @ pright p"
proof (induction t p rule: plug.induct)
  case (2 t f p)
  then show ?case by (cases f) simp_all
qed simp

lemma inorder_paint [simp]: "inorder (paint c t) = inorder t"
  by (cases t) auto

lemma plug_append [simp]: "plug t (p @ q) = plug (plug t p) q"
  by (induction t p rule: plug.induct) auto

lemma pleft_append [simp]: "pleft (p @ q) = pleft q @ pleft p"
  by (induction p rule: pleft.induct) auto

lemma pright_append [simp]: "pright (p @ q) = pright p @ pright q"
  by (induction p rule: pright.induct) auto

lemma rotate_inorder [simp]:
  "RB_ROTATE_LEFT t = Some t' \<Longrightarrow> inorder t' = inorder t"
  "RB_ROTATE_RIGHT t = Some t' \<Longrightarrow> inorder t' = inorder t"
  by (auto elim!: RB_ROTATE_LEFT.elims RB_ROTATE_RIGHT.elims)

text \<open>What a loop turn leaves to do, as one tree.\<close>

fun todo :: "rb_tree + rb_tree \<times> path \<Rightarrow> rb_tree" where
  "todo (Inl t) = t"
| "todo (Inr (t, p)) = plug t p"

lemma insert_color_step_inorder:
  "insert_color_step t p = Some x \<Longrightarrow> inorder (todo x) = pleft p @ inorder t @ pright p"
proof (induction t p rule: insert_color_step.induct)
  case (1 t f gc g uncle p)
  then show ?case
    by (cases f; auto split: if_splits option.splits dest!: rotate_inorder)
next
  case (2 t f gc uncle g p)
  then show ?case
    by (cases f; auto split: if_splits option.splits dest!: rotate_inorder)
qed auto

lemma RB_INSERT_COLOR_inorder:
  "RB_INSERT_COLOR t p = Some t' \<Longrightarrow> inorder t' = pleft p @ inorder t @ pright p"
proof (induction t p rule: RB_INSERT_COLOR.induct)
  case (1 t p)
  show ?case
  proof (cases "insert_color_step t p")
    case None
    with "1.prems" show ?thesis by (subst (asm) RB_INSERT_COLOR.simps) (auto split: if_splits)
  next
    case (Some x)
    with "1.prems" "1.IH" [OF _ Some] insert_color_step_inorder [OF Some] RB_INSERT_COLOR.simps [of t p] show ?thesis
      by (auto split: if_splits sum.splits)
  qed
qed

lemma remove_fix_inorder:
  "remove_fix_left t pc pa s p = Some x \<Longrightarrow> inorder (todo x) = pleft p @ inorder t @ pa # inorder s @ pright p"
  "remove_fix_right t pc pa s p = Some x \<Longrightarrow> inorder (todo x) = pleft p @ inorder s @ pa # inorder t @ pright p"
  by (auto simp: remove_fix_left_def remove_fix_right_def split: rb_tree.splits if_splits option.splits
      dest!: rotate_inorder)

lemma remove_color_step_inorder:
  "remove_color_step t p = Some x \<Longrightarrow> inorder (todo x) = pleft p @ inorder t @ pright p"
  by (induction t p rule: remove_color_step.induct) (auto dest!: remove_fix_inorder)

lemma RB_REMOVE_COLOR_inorder:
  "RB_REMOVE_COLOR t p = Some t' \<Longrightarrow> inorder t' = pleft p @ inorder t @ pright p"
proof (induction t p rule: RB_REMOVE_COLOR.induct)
  case (1 t p)
  show ?case
  proof (cases "remove_color_step t p")
    case None
    with "1.prems" show ?thesis by (subst (asm) RB_REMOVE_COLOR.simps) (auto split: if_splits)
  next
    case (Some x)
    with "1.prems" "1.IH" [OF _ Some] remove_color_step_inorder [OF Some] RB_REMOVE_COLOR.simps [of t p] show ?thesis
      by (auto split: if_splits sum.splits)
  qed
qed

section \<open>Colours and black heights\<close>

fun bheight :: "rb_tree \<Rightarrow> nat \<Rightarrow> bool" where
  "bheight Lf n = (n = 0)"
| "bheight (Nd RB_RED l a r) n = (bheight l n \<and> bheight r n)"
| "bheight (Nd RB_BLACK l a r) n = (n \<noteq> 0 \<and> bheight l (n - 1) \<and> bheight r (n - 1))"

fun colored :: "rb_tree \<Rightarrow> bool" where
  "colored Lf = True"
| "colored (Nd c l a r) = (colored l \<and> colored r \<and> (c = RB_RED \<longrightarrow> \<not> is_red l \<and> \<not> is_red r))"

text \<open>A hole of black height \<open>n\<close>; the colours above it, the node at the root being black.\<close>

fun pheight :: "path \<Rightarrow> nat \<Rightarrow> bool" where
  "pheight [] n = True"
| "pheight (InL c a r # p) n = (bheight r n \<and> pheight p (if c = RB_BLACK then Suc n else n))"
| "pheight (InR c l a # p) n = (bheight l n \<and> pheight p (if c = RB_BLACK then Suc n else n))"

definition red_above :: "path \<Rightarrow> bool" where
  "red_above p = (p \<noteq> [] \<and> frame_color (hd p) = RB_RED)"

fun pcolored :: "path \<Rightarrow> bool" where
  "pcolored [] = True"
| "pcolored (InL c a r # p) = (colored r \<and> pcolored p \<and> (c = RB_RED \<longrightarrow> \<not> is_red r \<and> p \<noteq> [] \<and> \<not> red_above p))"
| "pcolored (InR c l a # p) = (colored l \<and> pcolored p \<and> (c = RB_RED \<longrightarrow> \<not> is_red l \<and> p \<noteq> [] \<and> \<not> red_above p))"

lemma bheight_plug: "bheight t n \<Longrightarrow> pheight p n \<Longrightarrow> \<exists>m. bheight (plug t p) m"
proof (induction p arbitrary: t n)
  case (Cons f p)
  from Cons.prems show ?case
  proof (cases f)
    case (InL c a r)
    with Cons.prems show ?thesis by (cases c) (auto intro!: Cons.IH [of _ "if c = RB_BLACK then Suc n else n"])
  next
    case (InR c l a)
    with Cons.prems show ?thesis by (cases c) (auto intro!: Cons.IH [of _ "if c = RB_BLACK then Suc n else n"])
  qed
qed auto

lemma red_above_Cons [simp]: "red_above (f # p) = (frame_color f = RB_RED)"
  by (simp add: red_above_def)

lemma red_above_Nil [simp]: "\<not> red_above []"
  by (simp add: red_above_def)

lemma is_red_color [simp]: "is_red (Nd c l a r) = (c = RB_RED)"
  by (cases c) auto

lemma not_red_black [simp]: "(c \<noteq> RB_RED) = (c = RB_BLACK)" "(c \<noteq> RB_BLACK) = (c = RB_RED)"
  by (cases c; simp)+

lemma colored_plug:
  "colored t \<Longrightarrow> pcolored p \<Longrightarrow> \<not> (is_red t \<and> red_above p) \<Longrightarrow> colored (plug t p)"
proof (induction p arbitrary: t)
  case (Cons f p)
  from Cons.prems show ?case
    by (cases f) (auto intro!: Cons.IH)
qed auto

lemma paint_simps [simp]:
  "colored t \<Longrightarrow> colored (paint RB_BLACK t)"
  "\<not> is_red (paint RB_BLACK t)"
  "is_red t \<Longrightarrow> bheight t n \<Longrightarrow> bheight (paint RB_BLACK t) (Suc n)"
  by (cases t; simp; cases "\<exists>l a r. t = Nd RB_RED l a r"; auto)+

lemma not_red_paint [simp]: "\<not> is_red t \<Longrightarrow> paint RB_BLACK t = t"
  by (cases t rule: is_red.cases) auto

definition rb_ok :: "rb_tree \<Rightarrow> bool" where
  "rb_ok t = (colored t \<and> (\<exists>n. bheight t n) \<and> \<not> is_red t)"

lemma bheight_paint: "bheight t n \<Longrightarrow> \<exists>m. bheight (paint RB_BLACK t) m"
  by (cases "is_red t") (auto intro: paint_simps(3))

section \<open>Insertion keeps the tree balanced\<close>

definition ins_inv :: "rb_tree \<Rightarrow> path \<Rightarrow> bool" where
  "ins_inv t p = (is_red t \<and> colored t \<and> pcolored p \<and> (\<exists>n. bheight t n \<and> pheight p n))"

definition balanced_sum :: "(rb_tree \<Rightarrow> path \<Rightarrow> bool) \<Rightarrow> rb_tree + rb_tree \<times> path \<Rightarrow> bool" where
  "balanced_sum I x = (case x of Inl t \<Rightarrow> colored t \<and> (\<exists>m. bheight t m) | Inr (t, p) \<Rightarrow> I t p)"

lemma is_redE:
  assumes "is_red t" obtains l a r where "t = Nd RB_RED l a r"
  using assms by (cases t rule: is_red.cases) auto

lemma black_plug:
  "colored t \<Longrightarrow> \<not> is_red t \<Longrightarrow> bheight t n \<Longrightarrow> pheight p n \<Longrightarrow> pcolored p \<Longrightarrow>
    colored (plug t p) \<and> (\<exists>m. bheight (plug t p) m)"
  by (simp add: colored_plug bheight_plug)

lemma insert_color_step_ok:
  assumes "ins_inv t p" "red_above p"
  shows "\<exists>x. insert_color_step t p = Some x \<and> balanced_sum ins_inv x"
proof -
  from assms(1) obtain l a r n where t: "t = Nd RB_RED l a r" and n: "bheight t n" "pheight p n"
    and c: "colored t" "pcolored p" by (auto simp: ins_inv_def elim: is_redE)
  from assms(2) c(2) obtain f g q where p: "p = f # g # q" and f: "frame_color f = RB_RED" and g: "frame_color g = RB_BLACK"
    by (cases p rule: pcolored.cases; simp; cases "tl p") auto
  show ?thesis
  proof (cases g)
    case (InL gc ga u)
    show ?thesis
    proof (cases "is_red u")
      case True
      with t n c p f g InL show ?thesis
        by (cases f) (auto simp: balanced_sum_def ins_inv_def elim!: is_redE intro!: exI [of _ "Suc n"])
    next
      case False
      with t n c p f g InL show ?thesis
        by (cases f) (auto simp: balanced_sum_def intro!: colored_plug bheight_plug [where n = "Suc n"])
    qed
  next
    case (InR gc u ga)
    show ?thesis
    proof (cases "is_red u")
      case True
      with t n c p f g InR show ?thesis
        by (cases f) (auto simp: balanced_sum_def ins_inv_def elim!: is_redE intro!: exI [of _ "Suc n"])
    next
      case False
      with t n c p f g InR show ?thesis
        by (cases f) (auto simp: balanced_sum_def intro!: colored_plug bheight_plug [where n = "Suc n"])
    qed
  qed
qed

lemma RB_INSERT_COLOR_ok:
  "ins_inv t p \<Longrightarrow> \<exists>t'. RB_INSERT_COLOR t p = Some t' \<and> rb_ok t'"
proof (induction t p rule: RB_INSERT_COLOR.induct)
  case (1 t p)
  show ?case
  proof (cases "red_above p")
    case True
    from insert_color_step_ok [OF "1.prems" True] obtain x
      where x: "insert_color_step t p = Some x" "balanced_sum ins_inv x" by blast
    with True "1.IH" [OF _ x(1)] RB_INSERT_COLOR.simps [of t p] show ?thesis
      by (auto simp: balanced_sum_def red_above_def rb_ok_def bheight_paint split: sum.splits)
  next
    case False
    from "1.prems" have "colored (plug t p)" "\<exists>m. bheight (plug t p) m"
      using False by (auto simp: ins_inv_def intro: colored_plug bheight_plug)
    with False RB_INSERT_COLOR.simps [of t p] show ?thesis
      by (auto simp: rb_ok_def red_above_def bheight_paint)
  qed
qed

section \<open>Removal keeps the tree balanced\<close>

text \<open>The subtree is one black node short; it may be red over a red child, since it is then painted black.\<close>

definition del_inv :: "rb_tree \<Rightarrow> path \<Rightarrow> bool" where
  "del_inv t p = (colored (paint RB_BLACK t) \<and> pcolored p \<and> (\<exists>n. bheight t n \<and> pheight p (Suc n)))"

definition fix_pre :: "rb_tree \<Rightarrow> rb_color \<Rightarrow> rb_tree \<Rightarrow> path \<Rightarrow> nat \<Rightarrow> bool" where
  "fix_pre t pc s p n = (colored t \<and> \<not> is_red t \<and> bheight t n \<and> colored s \<and> \<not> is_red s \<and> bheight s (Suc n) \<and>
     pcolored p \<and> pheight p (if pc = RB_BLACK then Suc (Suc n) else Suc n) \<and> (pc = RB_RED \<longrightarrow> \<not> red_above p))"

lemma fix_preE:
  assumes "fix_pre t pc s p n"
  obtains l a r where "s = Nd RB_BLACK l a r" "colored l" "colored r" "bheight l n" "bheight r n"
    "colored t" "\<not> is_red t" "bheight t n" "pcolored p"
    "pheight p (if pc = RB_BLACK then Suc (Suc n) else Suc n)" "pc = RB_RED \<longrightarrow> \<not> red_above p"
  using assms unfolding fix_pre_def by (cases s rule: is_red.cases) auto

lemma recolored_plug:
  assumes "bheight t n" "pheight p n" "colored t" "pcolored p" "is_red t \<longrightarrow> \<not> red_above p"
  shows "colored (plug t p) \<and> (\<exists>m. bheight (plug t p) m)"
  using assms by (auto intro: colored_plug bheight_plug)

lemma remove_fix_left_ok:
  assumes "fix_pre t pc s p n"
  shows "\<exists>x. remove_fix_left t pc pa s p = Some x \<and> balanced_sum del_inv x"
proof -
  from assms obtain l a r where s: "s = Nd RB_BLACK l a r" "colored l" "colored r" "bheight l n" "bheight r n"
    and t: "colored t" "\<not> is_red t" "bheight t n" and p: "pcolored p"
      "pheight p (if pc = RB_BLACK then Suc (Suc n) else Suc n)" "pc = RB_RED \<longrightarrow> \<not> red_above p"
    by (rule fix_preE)
  let ?N = "if pc = RB_BLACK then Suc (Suc n) else Suc n"
  have fin: "balanced_sum del_inv (Inl (plug (Nd pc t1 x1 t2) p))"
    if "colored t1" "colored t2" "\<not> is_red t1" "\<not> is_red t2" "bheight t1 (Suc n)" "bheight t2 (Suc n)" for t1 x1 t2
    using recolored_plug [of "Nd pc t1 x1 t2" ?N p] that p by (cases pc) (auto simp: balanced_sum_def)
  consider (blk) "\<not> is_red l" "\<not> is_red r" | (far) "is_red r" | (near) "is_red l" "\<not> is_red r" by blast
  then show ?thesis
  proof cases
    case blk
    with s t p show ?thesis
      by (cases pc) (auto simp: remove_fix_left_def balanced_sum_def del_inv_def)
  next
    case far
    then obtain rl ra rr where r: "r = Nd RB_RED rl ra rr" by (rule is_redE)
    with s t show ?thesis by (auto simp: remove_fix_left_def intro!: fin)
  next
    case near
    then obtain ll la lr where l: "l = Nd RB_RED ll la lr" by (auto elim: is_redE)
    with near s t show ?thesis by (auto simp: remove_fix_left_def intro!: fin)
  qed
qed

lemma remove_fix_right_ok:
  assumes "fix_pre t pc s p n"
  shows "\<exists>x. remove_fix_right t pc pa s p = Some x \<and> balanced_sum del_inv x"
proof -
  from assms obtain l a r where s: "s = Nd RB_BLACK l a r" "colored l" "colored r" "bheight l n" "bheight r n"
    and t: "colored t" "\<not> is_red t" "bheight t n" and p: "pcolored p"
      "pheight p (if pc = RB_BLACK then Suc (Suc n) else Suc n)" "pc = RB_RED \<longrightarrow> \<not> red_above p"
    by (rule fix_preE)
  let ?N = "if pc = RB_BLACK then Suc (Suc n) else Suc n"
  have fin: "balanced_sum del_inv (Inl (plug (Nd pc t1 x1 t2) p))"
    if "colored t1" "colored t2" "\<not> is_red t1" "\<not> is_red t2" "bheight t1 (Suc n)" "bheight t2 (Suc n)" for t1 x1 t2
    using recolored_plug [of "Nd pc t1 x1 t2" ?N p] that p by (cases pc) (auto simp: balanced_sum_def)
  consider (blk) "\<not> is_red l" "\<not> is_red r" | (far) "is_red l" | (near) "is_red r" "\<not> is_red l" by blast
  then show ?thesis
  proof cases
    case blk
    with s t p show ?thesis
      by (cases pc) (auto simp: remove_fix_right_def balanced_sum_def del_inv_def)
  next
    case far
    then obtain ll la lr where l: "l = Nd RB_RED ll la lr" by (rule is_redE)
    with s t show ?thesis by (auto simp: remove_fix_right_def intro!: fin)
  next
    case near
    then obtain rl ra rr where r: "r = Nd RB_RED rl ra rr" by (auto elim: is_redE)
    with near s t show ?thesis by (auto simp: remove_fix_right_def intro!: fin)
  qed
qed

lemma remove_color_step_ok:
  assumes "del_inv t p" "\<not> is_red t" "p \<noteq> []"
  shows "\<exists>x. remove_color_step t p = Some x \<and> balanced_sum del_inv x"
proof -
  from assms obtain n where t: "colored t" "bheight t n" and p: "pcolored p" "pheight p (Suc n)"
    by (auto simp: del_inv_def)
  show ?thesis
    using t p assms(2,3)
  proof (induction t p rule: remove_color_step.induct)
    case (1 t pc pa l a r p)
    then show ?case by (simp del: pheight.simps, intro remove_fix_left_ok [of _ _ _ _ n])
        (auto simp: fix_pre_def)
  next
    case (3 t pc l a r pa p)
    then show ?case by (simp del: pheight.simps, intro remove_fix_right_ok [of _ _ _ _ n])
        (auto simp: fix_pre_def)
  qed (auto simp: fix_pre_def intro!: remove_fix_left_ok [of _ _ _ _ n] remove_fix_right_ok [of _ _ _ _ n])
qed

lemma is_red_plug: "is_red (plug t p) = (if p = [] then is_red t else frame_color (last p) = RB_RED)"
proof (induction p arbitrary: t)
  case (Cons f p)
  then show ?case by (cases f) auto
qed simp

lemma pcolored_last: "pcolored p \<Longrightarrow> p \<noteq> [] \<Longrightarrow> frame_color (last p) = RB_BLACK"
proof (induction p rule: pcolored.induct)
  case (2 c a r p)
  then show ?case by (cases c) auto
next
  case (3 c l a p)
  then show ?case by (cases c) auto
qed simp

lemma plug_black_root: "\<not> is_red t \<Longrightarrow> pcolored p \<Longrightarrow> \<not> is_red (plug t p)"
  by (simp add: is_red_plug pcolored_last)

lemma RB_REMOVE_COLOR_ok:
  "del_inv t p \<Longrightarrow> \<exists>t'. RB_REMOVE_COLOR t p = Some t' \<and> rb_ok t'"
proof (induction t p rule: RB_REMOVE_COLOR.induct)
  case (1 t p)
  show ?case
  proof (cases "\<not> is_red t \<and> p \<noteq> []")
    case True
    with remove_color_step_ok [OF "1.prems"] obtain x
      where x: "remove_color_step t p = Some x" "balanced_sum del_inv x" by blast
    with True "1.IH" [OF _ x(1)] RB_REMOVE_COLOR.simps [of t p] show ?thesis
      by (auto simp: balanced_sum_def rb_ok_def bheight_paint split: sum.splits)
  next
    case False
    from "1.prems" obtain n where n: "colored (paint RB_BLACK t)" "pcolored p" "bheight t n" "pheight p (Suc n)"
      by (auto simp: del_inv_def)
    have "\<exists>m. bheight (plug (paint RB_BLACK t) p) m"
    proof (cases "p = []")
      case True
      with n show ?thesis by (simp add: bheight_paint)
    next
      case p: False
      with False n show ?thesis by (auto intro!: bheight_plug [where n = "Suc n"] paint_simps(3))
    qed
    moreover have "RB_REMOVE_COLOR t p = Some (plug (paint RB_BLACK t) p)"
      using False RB_REMOVE_COLOR.simps [of t p] by auto
    ultimately show ?thesis using n by (simp add: rb_ok_def plug_black_root colored_plug)
  qed
qed

section \<open>Positions in a balanced tree\<close>

definition zip_ok :: "rb_tree \<Rightarrow> path \<Rightarrow> nat \<Rightarrow> bool" where
  "zip_ok t p n = (colored t \<and> bheight t n \<and> pcolored p \<and> pheight p n \<and>
     (is_red t \<longrightarrow> p \<noteq> [] \<and> \<not> red_above p))"

lemma zip_ok_root: "rb_ok t \<Longrightarrow> \<exists>n. zip_ok t [] n"
  by (auto simp: rb_ok_def zip_ok_def)

lemma zip_ok_left: "zip_ok (Nd c l a r) p n \<Longrightarrow> zip_ok l (InL c a r # p) (if c = RB_BLACK then n - 1 else n)"
  by (cases c) (auto simp: zip_ok_def)

lemma zip_ok_right: "zip_ok (Nd c l a r) p n \<Longrightarrow> zip_ok r (InR c l a # p) (if c = RB_BLACK then n - 1 else n)"
  by (cases c) (auto simp: zip_ok_def)

lemma sleep_cmp [simp]:
  "(coroutine_sleep_cmp key e a < 0) = (key e < key a)"
  "(0 < coroutine_sleep_cmp key e a) = (key a < key e)"
  by (auto simp: coroutine_sleep_cmp_def)

lemma rb_descend_zip:
  "rb_descend key e t p = Inr q \<Longrightarrow> zip_ok t p n \<Longrightarrow> zip_ok Lf q 0"
proof (induction key e t p arbitrary: n rule: rb_descend.induct)
  case (1 key e p)
  then show ?case by (auto simp: zip_ok_def)
next
  case (2 key e c l a r p)
  then show ?case by (auto split: if_splits dest: zip_ok_left zip_ok_right)
qed

lemma rb_descend_found:
  "rb_descend key e t p = Inl a \<Longrightarrow> a \<in> set (inorder t) \<and> key a = key e"
proof (induction key e t p rule: rb_descend.induct)
  case (2 key e c l a r p)
  consider (lt) "key e < key a" | (gt) "key a < key e" "\<not> key e < key a" | (eq) "key e = key a"
    by (metis not_less_iff_gr_or_eq)
  then show ?case
  proof cases
    case lt
    with 2 show ?thesis by (metis Un_iff inorder.simps(2) rb_descend.simps(2) set_append sleep_cmp(1))
  next
    case gt
    with 2 show ?thesis
      by (metis Un_iff inorder.simps(2) list.set_intros(2) rb_descend.simps(2) set_append sleep_cmp)
  next
    case eq
    with "2.prems" show ?thesis by (simp add: coroutine_sleep_cmp_def)
  qed
qed simp

abbreviation by_key :: "(addr \<Rightarrow> u64) \<Rightarrow> addr list \<Rightarrow> bool" where
  "by_key key \<equiv> sorted_wrt (\<lambda>a b. key a < key b)"

lemma rb_descend_place:
  "rb_descend key e t p = Inr q \<Longrightarrow> by_key key (inorder t) \<Longrightarrow>
    \<exists>xs ys. inorder t = xs @ ys \<and> pleft q = pleft p @ xs \<and> pright q = ys @ pright p \<and>
      (\<forall>x \<in> set xs. key x < key e) \<and> (\<forall>y \<in> set ys. key e < key y)"
proof (induction key e t p rule: rb_descend.induct)
  case (1 key e p)
  then show ?case by simp
next
  case (2 key e c l a r p)
  consider (lt) "key e < key a" | (gt) "key a < key e" "\<not> key e < key a" | (eq) "key e = key a"
    by (metis not_less_iff_gr_or_eq)
  then show ?case
  proof cases
    case lt
    with "2.prems" "2.IH"(1) obtain xs ys where "inorder l = xs @ ys" "pleft q = pleft p @ xs"
      "pright q = ys @ a # inorder r @ pright p" "\<forall>x \<in> set xs. key x < key e" "\<forall>y \<in> set ys. key e < key y"
      by (auto simp: sorted_wrt_append)
    with lt "2.prems" show ?thesis
      by (intro exI [of _ xs] exI [of _ "ys @ a # inorder r"]) (auto simp: sorted_wrt_append)
  next
    case gt
    with "2.prems" "2.IH"(2) obtain xs ys where "inorder r = xs @ ys" "pleft q = pleft p @ inorder l @ a # xs"
      "pright q = ys @ pright p" "\<forall>x \<in> set xs. key x < key e" "\<forall>y \<in> set ys. key e < key y"
      by (auto simp: sorted_wrt_append)
    with gt "2.prems" show ?thesis
      by (intro exI [of _ "inorder l @ a # xs"] exI [of _ ys]) (auto simp: sorted_wrt_append)
  next
    case eq
    with "2.prems" show ?thesis by simp
  qed
qed

lemma rb_locate_ok:
  "rb_locate e t p = Some (s, q) \<Longrightarrow> zip_ok t p n \<Longrightarrow>
    (\<exists>c l r. s = Nd c l e r) \<and> plug s q = plug t p \<and> (\<exists>m. zip_ok s q m)"
proof (induction e t p arbitrary: n rule: rb_locate.induct)
  case (2 e c l a r p)
  then show ?case
    by (auto split: if_splits option.splits dest: zip_ok_left zip_ok_right)
qed simp

lemma rb_locate_finds: "e \<in> set (inorder t) \<Longrightarrow> rb_locate e t p \<noteq> None"
proof (induction e t p rule: rb_locate.induct)
  case (2 e c l a r p)
  then show ?case by (auto split: option.splits)
qed simp

lemma rb_leftmost_ok:
  "rb_leftmost c l a r p = (s, sc, ch, q) \<Longrightarrow> zip_ok (Nd c l a r) p n \<Longrightarrow>
    plug (Nd sc Lf s ch) q = plug (Nd c l a r) p \<and> (\<exists>m. zip_ok (Nd sc Lf s ch) q m)"
proof (induction c l a r p arbitrary: n rule: rb_leftmost.induct)
  case (2 c c' l' a' r' a r p)
  then show ?case using zip_ok_left [OF "2.prems"(2)] by auto
qed auto

lemma rb_leftmost_path:
  "rb_leftmost c l a r (p @ p') = (case rb_leftmost c l a r p of (s, sc, ch, q) \<Rightarrow> (s, sc, ch, q @ p'))"
  by (induction c l a r p rule: rb_leftmost.induct) auto

lemma rb_leftmost_pleft: "rb_leftmost c l a r p = (s, sc, ch, q) \<Longrightarrow> pleft q = pleft p"
  by (induction c l a r p rule: rb_leftmost.induct) auto

lemma zip_ok_addr: "zip_ok t (q @ InR c l x # p) n = zip_ok t (q @ InR c l y # p) n"
proof -
  have r: "red_above (q @ InR c l x # p) = red_above (q @ InR c l y # p)" for q
    by (cases q) auto
  then have "pcolored (q @ InR c l x # p) = pcolored (q @ InR c l y # p)"
    by (induction q rule: pcolored.induct) auto
  moreover have "pheight (q @ InR c l x # p) n = pheight (q @ InR c l y # p) n"
    by (induction q n rule: pheight.induct) auto
  ultimately show ?thesis using r by (simp add: zip_ok_def)
qed

lemma remove_finish_ok:
  assumes "zip_ok (Nd c l a r) p n" "l = Lf \<and> ch = r \<or> r = Lf \<and> ch = l"
  shows "\<exists>t'. remove_finish c ch p = Some t' \<and> rb_ok t' \<and> inorder t' = pleft p @ inorder ch @ pright p"
proof (cases c)
  case RB_BLACK
  with assms have "del_inv ch p" by (cases n) (auto simp: zip_ok_def del_inv_def)
  with RB_BLACK RB_REMOVE_COLOR_ok RB_REMOVE_COLOR_inorder show ?thesis
    by (fastforce simp: remove_finish_def)
next
  case RB_RED
  with assms have "colored ch" "\<not> is_red ch" "bheight ch n" "pcolored p" "pheight p n"
    by (auto simp: zip_ok_def)
  with RB_RED show ?thesis
    by (auto simp: remove_finish_def rb_ok_def plug_black_root intro: colored_plug bheight_plug)
qed

section \<open>The contracts\<close>

definition rb_wf :: "(addr \<Rightarrow> u64) \<Rightarrow> rb_tree \<Rightarrow> bool" where
  "rb_wf key t = (rb_ok t \<and> by_key key (inorder t) \<and> NULL \<notin> set (inorder t))"

lemma insort_key_middle:
  "(\<forall>x \<in> set xs. key x < key e) \<Longrightarrow> (\<forall>y \<in> set ys. key e < key y) \<Longrightarrow>
    insort_key key e (xs @ ys) = xs @ e # ys" for key :: "addr \<Rightarrow> u64"
  by (induction xs) (cases ys; auto)+

lemma RB_INSERT_new:
  assumes "rb_wf key t" "e \<noteq> NULL" "\<forall>a \<in> set (inorder t). key a \<noteq> key e"
  shows "\<exists>t'. RB_INSERT key e t = Some (NULL, t') \<and> rb_wf key t' \<and> inorder t' = insort_key key e (inorder t)"
proof -
  obtain n where n: "zip_ok t [] n" using assms(1) zip_ok_root by (auto simp: rb_wf_def)
  obtain q where q: "rb_descend key e t [] = Inr q"
    using assms(3) rb_descend_found [of key e t "[]"] by (cases "rb_descend key e t []") auto
  have s: "by_key key (inorder t)" using assms(1) by (simp add: rb_wf_def)
  from rb_descend_place [OF q s] obtain xs ys where xy: "inorder t = xs @ ys" "pleft q = xs" "pright q = ys"
    "\<forall>x \<in> set xs. key x < key e" "\<forall>y \<in> set ys. key e < key y" by auto
  have "ins_inv (Nd RB_RED Lf e Lf) q"
    using rb_descend_zip [OF q n] by (auto simp: ins_inv_def zip_ok_def)
  from RB_INSERT_COLOR_ok [OF this] obtain t' where t': "RB_INSERT_COLOR (Nd RB_RED Lf e Lf) q = Some t'" "rb_ok t'"
    by blast
  from RB_INSERT_COLOR_inorder [OF t'(1)] xy have i: "inorder t' = xs @ e # ys" by simp
  with xy s assms(1,2) t' have "rb_wf key t'" by (auto simp: rb_wf_def sorted_wrt_append)
  with i t' xy q show ?thesis by (simp add: RB_INSERT_def insort_key_middle)
qed

lemma by_key_inj: "by_key key xs \<Longrightarrow> a \<in> set xs \<Longrightarrow> b \<in> set xs \<Longrightarrow> key a = key b \<Longrightarrow> a = b"
proof (induction xs)
  case (Cons x xs)
  then show ?case by (metis order_less_irrefl set_ConsD sorted_wrt.simps(2))
qed simp

lemma by_key_distinct: "by_key key xs \<Longrightarrow> distinct xs"
  by (induction xs) auto

lemma RB_INSERT_equal:
  assumes "rb_wf key t" "a \<in> set (inorder t)" "key a = key e"
  shows "RB_INSERT key e t = Some (a, t)"
proof (cases "rb_descend key e t []")
  case (Inl b)
  from rb_descend_found [OF Inl] assms have "b = a"
    by (intro by_key_inj [of key "inorder t"]) (auto simp: rb_wf_def)
  with Inl show ?thesis by (simp add: RB_INSERT_def)
next
  case (Inr q)
  from assms(1) have "by_key key (inorder t)" by (simp add: rb_wf_def)
  from rb_descend_place [OF Inr this] obtain xs ys where "inorder t = xs @ ys"
    "\<forall>x \<in> set xs. key x < key e" "\<forall>y \<in> set ys. key e < key y" by blast
  with assms(2,3) show ?thesis by (metis Un_iff order_less_irrefl set_append)
qed

lemma RB_REMOVE_ok:
  assumes "rb_wf key t" "e \<in> set (inorder t)"
  shows "\<exists>t'. RB_REMOVE e t = Some t' \<and> rb_wf key t' \<and> inorder t' = remove1 e (inorder t)"
proof -
  obtain n where n: "zip_ok t [] n" using assms(1) zip_ok_root by (auto simp: rb_wf_def)
  from rb_locate_finds [OF assms(2), of "[]"] obtain s p where loc: "rb_locate e t [] = Some (s, p)" by auto
  from rb_locate_ok [OF loc n] obtain c l r m where s: "s = Nd c l e r" and pl: "plug s p = t" and m: "zip_ok s p m"
    by auto
  have io: "inorder t = pleft p @ inorder l @ e # inorder r @ pright p"
    using arg_cong [OF pl, of inorder] s by simp
  have d: "by_key key (inorder t)" "NULL \<notin> set (inorder t)" using assms(1) by (auto simp: rb_wf_def)
  with io have e: "e \<notin> set (pleft p @ inorder l)" by (auto simp: sorted_wrt_append)
  have fin: "\<exists>t'. RB_REMOVE e t = Some t' \<and> rb_ok t' \<and> inorder t' = pleft p @ inorder l @ inorder r @ pright p"
  proof (cases l)
    case Lf
    with loc s remove_finish_ok [OF m [unfolded s], of r] show ?thesis by (auto simp: RB_REMOVE_def)
  next
    case l: (Nd lc ll la lr)
    show ?thesis
    proof (cases r)
      case Lf
      with l loc s remove_finish_ok [OF m [unfolded s], of l] show ?thesis by (auto simp: RB_REMOVE_def)
    next
      case r: (Nd rc rl ra rr)
      obtain x sc ch q where lm: "rb_leftmost rc rl ra rr [] = (x, sc, ch, q)" by (metis prod_cases4)
      then have lm2: "rb_leftmost rc rl ra rr ([] @ InR c l e # p) = (x, sc, ch, q @ InR c l e # p)"
        by (simp only: rb_leftmost_path) simp
      from zip_ok_right [OF m [unfolded s]] r have "zip_ok (Nd rc rl ra rr) ([] @ InR c l e # p) (if c = RB_BLACK then m - 1 else m)"
        by simp
      from rb_leftmost_ok [OF lm2 this] obtain k where k: "zip_ok (Nd sc Lf x ch) (q @ InR c l e # p) k"
        and pq: "plug (Nd sc Lf x ch) (q @ InR c l e # p) = plug (Nd rc rl ra rr) (InR c l e # p)" by auto
      from k have "zip_ok (Nd sc Lf x ch) (q @ InR c l x # p) k" by (rule iffD1 [OF zip_ok_addr])
      from remove_finish_ok [OF this, of ch] obtain t' where t': "remove_finish sc ch (q @ InR c l x # p) = Some t'"
        "rb_ok t'" "inorder t' = pleft p @ inorder l @ x # pleft q @ inorder ch @ pright q @ pright p" by auto
      have "pleft q = []" using rb_leftmost_pleft [OF lm] by simp
      with arg_cong [OF pq, of inorder] r have "x # inorder ch @ pright q = inorder r" by auto
      with t' \<open>pleft q = []\<close> have "inorder t' = pleft p @ inorder l @ inorder r @ pright p"
        by (metis append_Cons append_Nil append_assoc)
      moreover have "RB_REMOVE e t = Some t'" using loc s l r lm t' by (simp add: RB_REMOVE_def)
      ultimately show ?thesis using t' by blast
    qed
  qed
  with io d e show ?thesis
    by (auto simp: rb_wf_def sorted_wrt_append remove1_append)
qed

lemma RB_FIND_ok:
  assumes "by_key key (inorder t)"
  shows "(a \<in> set (inorder t) \<longrightarrow> key a = key e \<longrightarrow> RB_FIND key e t = a) \<and>
    (RB_FIND key e t \<noteq> NULL \<longrightarrow> RB_FIND key e t \<in> set (inorder t) \<and> key (RB_FIND key e t) = key e)"
  using assms
proof (induction t)
  case (Nd c l b r)
  consider (lt) "key e < key b" | (gt) "key b < key e" "\<not> key e < key b" | (eq) "key e = key b"
    by (metis not_less_iff_gr_or_eq)
  then show ?case
  proof cases
    case lt
    from Nd.prems have "\<forall>x \<in> set (b # inorder r). key b \<le> key x" by (auto simp: sorted_wrt_append less_imp_le)
    with lt have "a \<in> set (inorder (Nd c l b r)) \<and> key a = key e \<longrightarrow> a \<in> set (inorder l)"
      by (metis Un_iff inorder.simps(2) leD set_append)
    moreover have "RB_FIND key e (Nd c l b r) = RB_FIND key e l" using lt by simp
    moreover have "by_key key (inorder l)" using Nd.prems by (simp add: sorted_wrt_append)
    ultimately show ?thesis using Nd.IH(1) by (metis Un_iff inorder.simps(2) set_append)
  next
    case gt
    from Nd.prems have "\<forall>x \<in> set (inorder l @ [b]). key x \<le> key b" by (auto simp: sorted_wrt_append less_imp_le)
    with gt have "a \<in> set (inorder (Nd c l b r)) \<and> key a = key e \<longrightarrow> a \<in> set (inorder r)"
      by (metis Un_iff append.assoc append_Cons append_Nil inorder.simps(2) leD set_append)
    moreover have "RB_FIND key e (Nd c l b r) = RB_FIND key e r" using gt by simp
    moreover have "by_key key (inorder r)" using Nd.prems by (simp add: sorted_wrt_append)
    ultimately show ?thesis using Nd.IH(2) by (metis Un_iff inorder.simps(2) list.set_intros(2) set_append)
  next
    case eq
    then have "RB_FIND key e (Nd c l b r) = b" by simp
    with eq by_key_inj [OF Nd.prems, of a b] show ?thesis by (metis in_set_conv_decomp inorder.simps(2))
  qed
qed simp

lemma RB_MINMAX_min: "RB_MINMAX (- 1) t x = (if t = Lf then x else hd (inorder t))"
proof (induction t arbitrary: x)
  case (Nd c l a r)
  then show ?case by (cases l) (auto simp: hd_append)
qed simp

lemma RB_MINMAX_max: "RB_MINMAX 1 t x = (if t = Lf then x else last (inorder t))"
proof (induction t arbitrary: x)
  case (Nd c l a r)
  then show ?case by (cases r) auto
qed simp

lemma inorder_empty [simp]: "(inorder t = []) = (t = Lf)"
  by (cases t) auto

lemma RB_MIN_ok: "RB_MIN t = (if inorder t = [] then NULL else hd (inorder t))"
  by (simp add: RB_MIN_def RB_MINMAX_min)

lemma rb_wf_key: "(\<And>a. a \<in> set (inorder t) \<Longrightarrow> key' a = key a) \<Longrightarrow> rb_wf key t \<Longrightarrow> rb_wf key' t"
  unfolding rb_wf_def by (metis (mono_tags, lifting) sorted_wrt_mono_rel)

lemma rb_wf_empty [simp]: "rb_wf key Lf"
  by (simp add: rb_wf_def rb_ok_def)

subsection \<open>Depth\<close>

fun depth :: "rb_tree \<Rightarrow> nat" where
  "depth Lf = 0"
| "depth (Nd c l a r) = Suc (max (depth l) (depth r))"

lemma bheight_size: "bheight t n \<Longrightarrow> 2 ^ n \<le> length (inorder t) + 1"
proof (induction t n rule: bheight.induct)
  case (2 l a r n)
  then show ?case by auto
next
  case (3 l a r n)
  then show ?case by (cases n) auto
qed simp

lemma depth_bheight: "colored t \<Longrightarrow> bheight t n \<Longrightarrow> depth t \<le> 2 * n + (if is_red t then 1 else 0)"
proof (induction t n rule: bheight.induct)
  case (2 l a r n)
  then show ?case by auto
next
  case (3 l a r n)
  then show ?case by (cases n; cases "is_red l"; cases "is_red r") auto
qed simp

lemma rb_ok_depth: "rb_ok t \<Longrightarrow> 2 ^ (depth t div 2) \<le> length (inorder t) + 1"
proof -
  assume "rb_ok t"
  then obtain n where n: "colored t" "bheight t n" "\<not> is_red t" by (auto simp: rb_ok_def)
  then have "depth t div 2 \<le> n" using depth_bheight [of t n] by auto
  then have "(2::nat) ^ (depth t div 2) \<le> 2 ^ n" by simp
  with bheight_size [OF n(2)] show ?thesis by linarith
qed

section \<open>The interface of the sleep queue\<close>

text \<open>Take elements out, least first, until none is left; \<open>n\<close> bounds the number of rounds.\<close>

fun take_least :: "('t \<Rightarrow> 'e option) \<Rightarrow> ('e \<Rightarrow> 't \<Rightarrow> 't option) \<Rightarrow> nat \<Rightarrow> 't \<Rightarrow> ('e list \<times> 't) option" where
  "take_least least del 0 t = Some ([], t)"
| "take_least least del (Suc n) t =
    (case least t of
       None \<Rightarrow> Some ([], t)
     | Some e \<Rightarrow>
         (case del e t of
            None \<Rightarrow> None
          | Some t' \<Rightarrow> map_option (\<lambda>(es, t''). (e # es, t'')) (take_least least del n t')))"

text \<open>
  What the scheduler relies on: a collection of elements listed in increasing order of distinct
  keys, insertion that refuses a key already there, removal of a member, and the least member.
\<close>

locale sleep_queue =
  fixes wf :: "('e \<Rightarrow> 'k :: linorder) \<Rightarrow> 't \<Rightarrow> bool"
    and els :: "'t \<Rightarrow> 'e list"
    and ins :: "('e \<Rightarrow> 'k) \<Rightarrow> 'e \<Rightarrow> 't \<Rightarrow> ('e option \<times> 't) option"
    and del :: "'e \<Rightarrow> 't \<Rightarrow> 't option"
    and least :: "'t \<Rightarrow> 'e option"
    and valid :: "'e \<Rightarrow> bool"
  assumes sorted_law: "wf key t \<Longrightarrow> sorted_wrt (\<lambda>a b. key a < key b) (els t)"
    and ins_new_law: "wf key t \<Longrightarrow> valid e \<Longrightarrow> (\<forall>a \<in> set (els t). key a \<noteq> key e) \<Longrightarrow>
      \<exists>t'. ins key e t = Some (None, t') \<and> wf key t' \<and> els t' = insort_key key e (els t)"
    and ins_equal_law: "wf key t \<Longrightarrow> a \<in> set (els t) \<Longrightarrow> key a = key e \<Longrightarrow> ins key e t = Some (Some a, t)"
    and del_law: "wf key t \<Longrightarrow> e \<in> set (els t) \<Longrightarrow>
      \<exists>t'. del e t = Some t' \<and> wf key t' \<and> els t' = remove1 e (els t)"
    and least_law: "wf key t \<Longrightarrow> least t = (if els t = [] then None else Some (hd (els t)))"
begin

lemma least_is_min: "wf key t \<Longrightarrow> least t = Some e \<Longrightarrow> a \<in> set (els t) \<Longrightarrow> key e \<le> key a"
  using sorted_law [of key t] least_law [of key t] by (cases "els t") (auto simp: less_imp_le)

lemma take_least_all:
  "wf key t \<Longrightarrow> length (els t) \<le> n \<Longrightarrow> \<exists>t'. take_least least del n t = Some (els t, t') \<and> wf key t' \<and> els t' = []"
proof (induction n arbitrary: t)
  case 0
  then show ?case by auto
next
  case (Suc n)
  show ?case
  proof (cases "els t")
    case Nil
    with Suc.prems least_law [OF Suc.prems(1)] show ?thesis by auto
  next
    case (Cons e es)
    with del_law [OF Suc.prems(1), of e] obtain t' where "del e t = Some t'" "wf key t'" "els t' = es" by auto
    with Suc.IH [of t'] Suc.prems Cons least_law [OF Suc.prems(1)] show ?thesis by auto
  qed
qed

lemma ins_del:
  assumes "wf key t" "valid e" "\<forall>a \<in> set (els t). key a \<noteq> key e"
  shows "\<exists>t' t''. ins key e t = Some (None, t') \<and> del e t' = Some t'' \<and> wf key t'' \<and> els t'' = els t"
proof -
  from ins_new_law [OF assms] obtain t' where t': "ins key e t = Some (None, t')" "wf key t'"
    "els t' = insort_key key e (els t)" by blast
  then have "e \<in> set (els t')" by (simp add: set_insort_key)
  from del_law [OF t'(2) this] obtain t'' where t'': "del e t' = Some t''" "wf key t''" "els t'' = remove1 e (els t')"
    by blast
  moreover have "remove1 e (insort_key key e (els t)) = els t"
    using assms(3) by (intro remove1_insort_key) 
  ultimately show ?thesis using t' by auto
qed

end

definition null_opt :: "addr \<Rightarrow> addr option" where
  "null_opt a = (if a = NULL then None else Some a)"

interpretation sleepers: sleep_queue rb_wf inorder "\<lambda>key e t. map_option (apfst null_opt) (RB_INSERT key e t)"
  RB_REMOVE "\<lambda>t. null_opt (RB_MIN t)" "\<lambda>e. e \<noteq> NULL"
proof unfold_locales
  fix key t e a
  assume wf: "rb_wf key t"
  then show "by_key key (inorder t)" by (simp add: rb_wf_def)
  show "null_opt (RB_MIN t) = (if inorder t = [] then None else Some (hd (inorder t)))"
    using wf by (cases "inorder t") (auto simp: RB_MIN_ok null_opt_def rb_wf_def)
  show "e \<in> set (inorder t) \<Longrightarrow> \<exists>t'. RB_REMOVE e t = Some t' \<and> rb_wf key t' \<and> inorder t' = remove1 e (inorder t)"
    by (rule RB_REMOVE_ok [OF wf])
  show "e \<noteq> NULL \<Longrightarrow> \<forall>a\<in>set (inorder t). key a \<noteq> key e \<Longrightarrow> \<exists>t'. map_option (apfst null_opt) (RB_INSERT key e t) = Some (None, t') \<and>
      rb_wf key t' \<and> inorder t' = insort_key key e (inorder t)"
    using RB_INSERT_new [OF wf, of e] by (auto simp: null_opt_def)
  show "a \<in> set (inorder t) \<Longrightarrow> key a = key e \<Longrightarrow> map_option (apfst null_opt) (RB_INSERT key e t) = Some (Some a, t)"
    using RB_INSERT_equal [OF wf, of a e] wf by (cases "a = NULL") (auto simp: null_opt_def rb_wf_def)
qed

section \<open>Properties of the tree\<close>

text \<open>
  C13: insertion. In a well-formed tree (\<open>rb_wf\<close>: nodes in increasing order of their keys, no
  red node with a red child, the same number of black nodes on every path, a black root) inserting a
  node either finds a node with the same key, returns it and changes nothing, or puts the new node
  at the place its key gives it in the order, and the tree is well-formed again. No NULL pointer is
  followed while the colours are repaired.
\<close>

theorem rb_insert_correct:
  assumes "rb_wf key t" "e \<noteq> NULL"
  shows "(\<exists>a \<in> set (inorder t). key a = key e \<and> RB_INSERT key e t = Some (a, t)) \<or>
    (\<exists>t'. RB_INSERT key e t = Some (NULL, t') \<and> rb_wf key t' \<and> inorder t' = insort_key key e (inorder t))"
  using RB_INSERT_new [OF assms] RB_INSERT_equal [OF assms(1)] by blast

theorem rb_insert_correct_witness:
  "\<exists>t'. RB_INSERT (\<lambda>a. of_nat (10 * a)) 2 (Nd RB_BLACK (Nd RB_RED Lf 1 Lf) 3 Lf) = Some (NULL, t') \<and>
     inorder t' = [1, 2, 3]"
proof -
  let ?t = "Nd RB_BLACK (Nd RB_RED Lf 1 Lf) 3 Lf" and ?k = "\<lambda>a. of_nat (10 * a) :: u64"
  have "rb_wf ?k ?t" by (auto simp: rb_wf_def rb_ok_def intro!: exI [of _ 1])
  from rb_insert_correct [OF this, of 2] show ?thesis by auto
qed

text \<open>
  C12: removal. Removing a node of a well-formed tree takes exactly that node out of the order, leaves
  a well-formed tree and follows no NULL pointer on the way, whichever of the rebalancing cases of
  \<^verbatim>\<open>RB_REMOVE_COLOR\<close> it goes through.
\<close>

theorem rb_remove_correct:
  assumes "rb_wf key t" "e \<in> set (inorder t)"
  shows "\<exists>t'. RB_REMOVE e t = Some t' \<and> rb_wf key t' \<and> inorder t' = remove1 e (inorder t) \<and> e \<notin> set (inorder t')"
proof -
  have "distinct (inorder t)" using assms(1) by (auto simp: rb_wf_def intro: by_key_distinct)
  with RB_REMOVE_ok [OF assms] show ?thesis by auto
qed

theorem rb_remove_correct_witness:
  "\<exists>t'. RB_REMOVE 3 (Nd RB_BLACK (Nd RB_BLACK Lf 1 Lf) 3 (Nd RB_BLACK Lf 5 Lf)) = Some t' \<and> inorder t' = [1, 5]"
proof -
  let ?t = "Nd RB_BLACK (Nd RB_BLACK Lf 1 Lf) 3 (Nd RB_BLACK Lf 5 Lf)" and ?k = "\<lambda>a. of_nat (10 * a) :: u64"
  have "rb_wf ?k ?t" by (auto simp: rb_wf_def rb_ok_def intro!: exI [of _ 2])
  from rb_remove_correct [OF this, of 3] show ?thesis by auto
qed

text \<open>
  Searching. On a well-formed tree the descent of \<^verbatim>\<open>RB_FIND\<close> gives what a scan of all nodes for one with the same key
  would give, and \<^verbatim>\<open>RB_MIN\<close> and \<^verbatim>\<open>RB_MAX\<close> give the first and the last node of the order; NULL if there is none.
\<close>

theorem rb_find_scan:
  assumes "rb_wf key t"
  shows "RB_FIND key e t = (case find (\<lambda>a. key a = key e) (inorder t) of None \<Rightarrow> NULL | Some a \<Rightarrow> a) \<and>
    RB_MIN t = (case inorder t of [] \<Rightarrow> NULL | a # _ \<Rightarrow> a) \<and> RB_MAX t = (case rev (inorder t) of [] \<Rightarrow> NULL | a # _ \<Rightarrow> a)"
proof -
  have s: "by_key key (inorder t)" using assms by (simp add: rb_wf_def)
  have "RB_FIND key e t = (case find (\<lambda>a. key a = key e) (inorder t) of None \<Rightarrow> NULL | Some a \<Rightarrow> a)"
  proof (cases "find (\<lambda>a. key a = key e) (inorder t)")
    case None
    then have "\<forall>a \<in> set (inorder t). key a \<noteq> key e" by (simp add: find_None_iff)
    with RB_FIND_ok [OF s] None show ?thesis by (metis option.simps(4))
  next
    case (Some a)
    then have "a \<in> set (inorder t)" "key a = key e" by (auto simp: find_Some_iff)
    with RB_FIND_ok [OF s] Some show ?thesis by simp
  qed
  moreover have "RB_MAX t = (case rev (inorder t) of [] \<Rightarrow> NULL | a # _ \<Rightarrow> a)"
  proof -
    have "t = Lf \<longleftrightarrow> inorder t = []" by (cases t) simp_all
    then show ?thesis by (cases "inorder t" rule: rev_cases) (simp_all add: RB_MAX_def RB_MINMAX_max)
  qed
  ultimately show ?thesis by (auto simp: RB_MIN_ok split: list.split)
qed

theorem rb_find_scan_witness:
  "RB_FIND (\<lambda>a. of_nat (a mod 10)) 12 (Nd RB_BLACK (Nd RB_RED Lf 1 Lf) 2 Lf) = 2 \<and> RB_MIN (Nd RB_BLACK (Nd RB_RED Lf 1 Lf) 2 Lf) = 1"
proof -
  let ?t = "Nd RB_BLACK (Nd RB_RED Lf 1 Lf) 2 Lf" and ?k = "\<lambda>a. of_nat (a mod 10) :: u64"
  have "rb_wf ?k ?t" by (auto simp: rb_wf_def rb_ok_def intro!: exI [of _ 1])
  from rb_find_scan [OF this, of 12] show ?thesis by simp
qed

text \<open>
  Timers expire in order. Taking the least node out of a well-formed tree again and again (what the
  scheduler does with \<^verbatim>\<open>RB_MIN\<close> and \<^verbatim>\<open>RB_REMOVE\<close>) yields every node exactly once, in increasing
  order of the keys, and ends with an empty tree.
\<close>

theorem rb_drain_sorted:
  assumes "rb_wf key t"
  shows "\<exists>es. take_least (\<lambda>t. null_opt (RB_MIN t)) RB_REMOVE (length (inorder t)) t = Some (es, Lf) \<and>
    sorted_wrt (\<lambda>a b. key a < key b) es \<and> set es = set (inorder t)"
  using sleepers.take_least_all [OF assms order_refl] sleepers.sorted_law [OF assms] by auto

theorem rb_drain_sorted_witness:
  "\<exists>es. take_least (\<lambda>t. null_opt (RB_MIN t)) RB_REMOVE 3 (Nd RB_BLACK (Nd RB_RED Lf 7 Lf) 3 (Nd RB_RED Lf 5 Lf)) = Some (es, Lf) \<and>
     set es = {7, 3, 5}"
proof -
  let ?t = "Nd RB_BLACK (Nd RB_RED Lf 7 Lf) 3 (Nd RB_RED Lf 5 Lf)"
  let ?k = "\<lambda>a :: addr. if a = 7 then 1 else if a = 3 then 2 else 3 :: u64"
  have "rb_wf ?k ?t" by (auto simp: rb_wf_def rb_ok_def intro!: exI [of _ 1])
  from rb_drain_sorted [OF this] show ?thesis by (auto simp: numeral_3_eq_3)
qed

text \<open>
  Depth. A well-formed tree of \<open>n\<close> nodes is at most \<open>2 log2 (n + 1) + 1\<close> deep, which
  bounds every descent of insertion and lookup.
\<close>

theorem rb_depth_bound:
  assumes "rb_wf key t"
  shows "2 ^ (depth t div 2) \<le> length (inorder t) + 1"
  using assms rb_ok_depth by (simp add: rb_wf_def)

theorem rb_depth_bound_witness:
  "(2::nat) ^ (depth (Nd RB_BLACK (Nd RB_RED Lf 7 Lf) 3 (Nd RB_RED Lf 5 Lf)) div 2) \<le> 4"
proof -
  let ?t = "Nd RB_BLACK (Nd RB_RED Lf 7 Lf) 3 (Nd RB_RED Lf 5 Lf)"
  let ?k = "\<lambda>a :: addr. if a = 7 then 1 else if a = 3 then 2 else 3 :: u64"
  have "rb_wf ?k ?t" by (auto simp: rb_wf_def rb_ok_def intro!: exI [of _ 1])
  from rb_depth_bound [OF this] show ?thesis by simp
qed

end
