(* ===== verification/Tree_Walk.thy ===== *)
theory Tree_Walk
  imports Tree_Correct
begin

text \<open>
  The macros of the red-black tree the scheduler does not use: the successor and predecessor of a node, the search for the
  next greater key, and the loops over all nodes, also the ones whose body may remove the current node.
\<close>

section \<open>Neighbours\<close>

text \<open>\<^verbatim>\<open>while (RB_LEFT(elm)) elm = RB_LEFT(elm);\<close> and its mirror image, from the root of a subtree.\<close>

fun leftmost_from :: "rb_tree \<Rightarrow> addr \<Rightarrow> addr" where
  "leftmost_from Lf a = a"
| "leftmost_from (Nd c l b r) a = leftmost_from l b"

fun rightmost_from :: "rb_tree \<Rightarrow> addr \<Rightarrow> addr" where
  "rightmost_from Lf a = a"
| "rightmost_from (Nd c l b r) a = rightmost_from r b"

text \<open>\<^verbatim>\<open>while (RB_PARENT(elm) && elm == RB_RIGHT(RB_PARENT(elm))) elm = RB_PARENT(elm);\<close>\<close>

fun climb_right :: "path \<Rightarrow> path" where
  "climb_right (InR c l a # p) = climb_right p"
| "climb_right p = p"

fun climb_left :: "path \<Rightarrow> path" where
  "climb_left (InL c a r # p) = climb_left p"
| "climb_left p = p"

fun RB_PARENT :: "path \<Rightarrow> addr" where
  "RB_PARENT [] = NULL"
| "RB_PARENT (InL c a r # p) = a"
| "RB_PARENT (InR c l a # p) = a"

definition RB_NEXT :: "addr \<Rightarrow> rb_tree \<Rightarrow> addr option" where
  "RB_NEXT e t =
    (case rb_locate e t [] of
       Some (Nd c l a r, p) \<Rightarrow>
         Some (if r \<noteq> Lf then leftmost_from r a
               else case p of InL _ pa _ # _ \<Rightarrow> pa | _ \<Rightarrow> RB_PARENT (climb_right p))
     | _ \<Rightarrow> None)"

definition RB_PREV :: "addr \<Rightarrow> rb_tree \<Rightarrow> addr option" where
  "RB_PREV e t =
    (case rb_locate e t [] of
       Some (Nd c l a r, p) \<Rightarrow>
         Some (if l \<noteq> Lf then rightmost_from l a
               else case p of InR _ _ pa # _ \<Rightarrow> pa | _ \<Rightarrow> RB_PARENT (climb_left p))
     | _ \<Rightarrow> None)"

text \<open>The loop of \<^verbatim>\<open>RB_NFIND\<close>; the last argument is its variable \<^verbatim>\<open>res\<close>.\<close>

fun nfind_loop :: "(addr \<Rightarrow> u64) \<Rightarrow> addr \<Rightarrow> rb_tree \<Rightarrow> addr \<Rightarrow> addr" where
  "nfind_loop key e Lf res = res"
| "nfind_loop key e (Nd c l a r) res =
    (if coroutine_sleep_cmp key e a < 0 then nfind_loop key e l a
     else if coroutine_sleep_cmp key e a > 0 then nfind_loop key e r res
     else a)"

definition RB_NFIND :: "(addr \<Rightarrow> u64) \<Rightarrow> addr \<Rightarrow> rb_tree \<Rightarrow> addr" where
  "RB_NFIND key e t = nfind_loop key e t NULL"

section \<open>Loops\<close>

text \<open>
  \<^verbatim>\<open>for (x = first; x != NULL; x = next(x))\<close> on a tree that does not change, with the nodes visited; and the safe
  loop, which computes the next node before the body runs, with a body that changes the tree.
\<close>

partial_function (option) rb_walk :: "(addr \<Rightarrow> addr option) \<Rightarrow> addr \<Rightarrow> addr list option" where
  "rb_walk nx x =
    (if x = NULL then Some []
     else Option.bind (nx x) (\<lambda>y. Option.bind (rb_walk nx y) (\<lambda>xs. Some (x # xs))))"

partial_function (option) rb_walk_safe ::
  "(addr \<Rightarrow> rb_tree \<Rightarrow> addr option) \<Rightarrow> (addr \<Rightarrow> rb_tree \<Rightarrow> rb_tree option) \<Rightarrow> addr \<Rightarrow> rb_tree \<Rightarrow> (addr list \<times> rb_tree) option" where
  "rb_walk_safe nx body x t =
    (if x = NULL then Some ([], t)
     else Option.bind (nx x t) (\<lambda>y. Option.bind (body x t) (\<lambda>t'.
          Option.bind (rb_walk_safe nx body y t') (\<lambda>(xs, t''). Some (x # xs, t'')))))"

definition RB_FOREACH :: "rb_tree \<Rightarrow> addr list option" where
  "RB_FOREACH t = rb_walk (\<lambda>x. RB_NEXT x t) (RB_MIN t)"

definition RB_FOREACH_REVERSE :: "rb_tree \<Rightarrow> addr list option" where
  "RB_FOREACH_REVERSE t = rb_walk (\<lambda>x. RB_PREV x t) (RB_MAX t)"

definition RB_FOREACH_SAFE :: "(addr \<Rightarrow> rb_tree \<Rightarrow> rb_tree option) \<Rightarrow> rb_tree \<Rightarrow> (addr list \<times> rb_tree) option" where
  "RB_FOREACH_SAFE body t = rb_walk_safe RB_NEXT body (RB_MIN t) t"

definition RB_FOREACH_REVERSE_SAFE :: "(addr \<Rightarrow> rb_tree \<Rightarrow> rb_tree option) \<Rightarrow> rb_tree \<Rightarrow> (addr list \<times> rb_tree) option" where
  "RB_FOREACH_REVERSE_SAFE body t = rb_walk_safe RB_PREV body (RB_MAX t) t"

section \<open>Correctness\<close>

definition hd0 :: "addr list \<Rightarrow> addr" where
  "hd0 xs = (case xs of [] \<Rightarrow> NULL | x # _ \<Rightarrow> x)"

lemma hd0_simps [simp]: "hd0 [] = NULL" "hd0 (x # xs) = x"
  by (simp_all add: hd0_def)

lemma leftmost_hd: "leftmost_from t a = (if t = Lf then a else hd (inorder t))"
proof (induction t arbitrary: a)
  case (Nd c l b r)
  then show ?case by (cases l) (auto simp: hd_append)
qed simp

lemma rightmost_last: "rightmost_from t a = (if t = Lf then a else last (inorder t))"
proof (induction t arbitrary: a)
  case (Nd c l b r)
  then show ?case by (cases r) auto
qed simp

lemma climb_right_next: "RB_PARENT (climb_right p) = hd0 (pright p)"
  by (induction p rule: climb_right.induct) auto

lemma climb_left_prev: "RB_PARENT (climb_left p) = hd0 (rev (pleft p))"
  by (induction p rule: climb_left.induct) auto

lemma hd0_append: "xs \<noteq> [] \<Longrightarrow> hd0 (xs @ ys) = hd xs"
  by (cases xs) auto

lemma hd0_rev: "hd0 (rev xs) = (if xs = [] then NULL else last xs)"
  by (cases xs rule: rev_cases) auto

lemma rb_locate_zip:
  assumes "rb_locate e t p = Some (s, q)"
  shows "\<exists>c l r. s = Nd c l e r \<and> pleft q @ inorder s @ pright q = pleft p @ inorder t @ pright p"
  using assms
proof (induction e t p rule: rb_locate.induct)
  case (2 e c l a r p)
  then show ?case by (auto split: if_splits option.splits)
qed simp

lemma split_unique: "xs @ e # ys = us @ e # vs \<Longrightarrow> distinct (xs @ e # ys) \<Longrightarrow> xs = us \<and> ys = vs"
  by (metis append_Cons_eq_iff distinct_append distinct.simps(2) disjoint_iff list.set_intros(1) not_distinct_conv_prefix)

lemma neighbours:
  assumes "inorder t = xs @ e # ys" "distinct (inorder t)"
  shows "RB_NEXT e t = Some (hd0 ys)" "RB_PREV e t = Some (hd0 (rev xs))"
proof -
  have "e \<in> set (inorder t)" using assms(1) by simp
  from rb_locate_finds [OF this, of "[]"] obtain s p where loc: "rb_locate e t [] = Some (s, p)" by auto
  from rb_locate_zip [OF loc] obtain c l r where s: "s = Nd c l e r"
    and io: "inorder t = (pleft p @ inorder l) @ e # (inorder r @ pright p)" by auto
  have "xs @ e # ys = (pleft p @ inorder l) @ e # (inorder r @ pright p)" "distinct (xs @ e # ys)" using assms io by simp_all
  from split_unique [OF this] have xy: "xs = pleft p @ inorder l" "ys = inorder r @ pright p" by simp_all
  show "RB_NEXT e t = Some (hd0 ys)"
    using loc s xy(2) climb_right_next [of p]
    by (auto simp: RB_NEXT_def leftmost_hd hd0_append split: list.split frame.split)
  show "RB_PREV e t = Some (hd0 (rev xs))"
    using loc s xy(1) climb_left_prev [of p]
    by (auto simp: RB_PREV_def rightmost_last hd0_append hd_rev split: list.split frame.split)
qed

lemma walk_next:
  assumes "distinct (inorder t)" "NULL \<notin> set (inorder t)" "inorder t = xs @ ys"
  shows "rb_walk (\<lambda>x. RB_NEXT x t) (hd0 ys) = Some ys"
  using assms(3)
proof (induction ys arbitrary: xs)
  case (Cons y ys)
  from Cons.IH [of "xs @ [y]"] Cons.prems neighbours(1) [OF Cons.prems assms(1)] assms(2) show ?case
    by (simp add: rb_walk.simps)
qed (simp add: rb_walk.simps)

lemma walk_prev:
  assumes "distinct (inorder t)" "NULL \<notin> set (inorder t)" "inorder t = xs @ ys"
  shows "rb_walk (\<lambda>x. RB_PREV x t) (hd0 (rev xs)) = Some (rev xs)"
  using assms(3)
proof (induction xs arbitrary: ys rule: rev_induct)
  case (snoc x xs)
  have "inorder t = xs @ x # ys" using snoc.prems by simp
  from snoc.IH [OF this] this neighbours(2) [OF this assms(1)] assms(2) show ?case by (simp add: rb_walk.simps)
qed (simp add: rb_walk.simps)

lemma RB_MAX_ok: "RB_MAX t = hd0 (rev (inorder t))"
  by (simp add: RB_MAX_def RB_MINMAX_max hd0_rev)

lemma RB_MIN_hd0: "RB_MIN t = hd0 (inorder t)"
  by (simp add: RB_MIN_ok hd0_def split: list.split)

lemma nfind_scan:
  "by_key key (inorder t) \<Longrightarrow>
    nfind_loop key e t res = (case find (\<lambda>a. key e \<le> key a) (inorder t) of None \<Rightarrow> res | Some a \<Rightarrow> a)"
proof (induction key e t res rule: nfind_loop.induct)
  case (2 key e c l a r res)
  have l: "by_key key (inorder l)" "by_key key (inorder r)" "\<forall>x \<in> set (inorder l). key x < key a" "\<forall>x \<in> set (inorder r). key a < key x"
    using "2.prems" by (auto simp: sorted_wrt_append)
  have app: "find P (xs @ ys) = (case find P xs of None \<Rightarrow> find P ys | Some x \<Rightarrow> Some x)" for P and xs ys :: "addr list"
    by (induction xs) auto
  have none: "key a \<le> key e \<Longrightarrow> find (\<lambda>a. key e \<le> key a) (inorder l) = None"
    using l(3) by (simp add: find_None_iff not_le) (meson order_less_le_trans)
  consider "key e < key a" | "key a < key e" | "key e = key a" by (metis not_less_iff_gr_or_eq)
  then show ?case
  proof cases
    case 1
    then have c: "coroutine_sleep_cmp key e a < 0" by simp
    then have "nfind_loop key e (Nd c l a r) res = nfind_loop key e l a" by (simp only: nfind_loop.simps if_True)
    also note "2.IH"(1) [OF c l(1)]
    finally show ?thesis using less_imp_le [OF 1]
      by (cases "find (\<lambda>a. key e \<le> key a) (inorder l)") (simp_all only: inorder.simps app option.case find.simps if_True)
  next
    case 2
    then have c: "\<not> coroutine_sleep_cmp key e a < 0" "coroutine_sleep_cmp key e a > 0" "\<not> key e \<le> key a" by auto
    then have "nfind_loop key e (Nd c l a r) res = nfind_loop key e r res" by (simp only: nfind_loop.simps if_True if_False)
    also note "2.IH"(2) [OF c(1,2) l(2)]
    finally show ?thesis using c(3) none [OF less_imp_le [OF 2]]
      by (simp only: inorder.simps app option.case find.simps if_False)
  next
    case 3
    with none show ?thesis by (simp add: app)
  qed
qed simp

text \<open>The safe loop whose body removes the node it is at, in either direction.\<close>

lemma drain_next:
  assumes "rb_wf key t"
  shows "rb_walk_safe RB_NEXT RB_REMOVE (hd0 (inorder t)) t = Some (inorder t, Lf)"
  using assms
proof (induction "inorder t" arbitrary: t)
  case Nil
  then show ?case by (cases t) (simp_all add: rb_walk_safe.simps)
next
  case (Cons x xs)
  have x: "inorder t = x # xs" "inorder t = [] @ x # xs" using Cons.hyps(2) by simp_all
  from RB_REMOVE_ok [OF Cons.prems, of x] x(1) obtain t' where t': "RB_REMOVE x t = Some t'" "rb_wf key t'" "inorder t' = xs" by auto
  have "distinct (inorder t)" "x \<noteq> NULL" using Cons.prems x(1) by (auto simp: rb_wf_def intro: by_key_distinct)
  with Cons.hyps(1) [OF t'(3) [symmetric] t'(2)] neighbours(1) [OF x(2)] t' x(1) show ?case by (simp add: rb_walk_safe.simps)
qed

lemma drain_prev:
  assumes "rb_wf key t"
  shows "rb_walk_safe RB_PREV RB_REMOVE (hd0 (rev (inorder t))) t = Some (rev (inorder t), Lf)"
  using assms
proof (induction "rev (inorder t)" arbitrary: t)
  case Nil
  then show ?case by (cases t) (simp_all add: rb_walk_safe.simps)
next
  case (Cons x xs)
  have x: "inorder t = rev xs @ x # []" using arg_cong [OF Cons.hyps(2), of rev] by simp
  have d: "distinct (inorder t)" "x \<noteq> NULL" using Cons.prems x by_key_distinct [of key "inorder t"] by (auto simp: rb_wf_def)
  then have "remove1 x (inorder t) = rev xs" using x by (simp add: remove1_append)
  with RB_REMOVE_ok [OF Cons.prems, of x] x obtain t' where t': "RB_REMOVE x t = Some t'" "rb_wf key t'" "inorder t' = rev xs" by auto
  have e: "xs = rev (inorder t')" using t'(3) by simp
  from Cons.hyps(1) [OF e t'(2)] neighbours(2) [OF x d(1)] t' x d(2) show ?case by (subst rb_walk_safe.simps) simp
qed

text \<open>
  C14: walking a tree. In a well-formed tree \<^verbatim>\<open>RB_FOREACH\<close> and \<^verbatim>\<open>RB_FOREACH_REVERSE\<close> end and visit every node once, in
  increasing and in decreasing order of the keys, and \<^verbatim>\<open>RB_NFIND\<close> gives the first node of the order whose key is
  not less than the given one, as a scan would, NULL if there is none. The safe loops may remove every
  node they come to: they still visit all of them in the same order, and leave the tree empty.
\<close>

theorem rb_traversal:
  assumes "rb_wf key t"
  shows "RB_FOREACH t = Some (inorder t) \<and> RB_FOREACH_REVERSE t = Some (rev (inorder t)) \<and>
    RB_NFIND key e t = (case find (\<lambda>a. key e \<le> key a) (inorder t) of None \<Rightarrow> NULL | Some a \<Rightarrow> a) \<and>
    RB_FOREACH_SAFE RB_REMOVE t = Some (inorder t, Lf) \<and> RB_FOREACH_REVERSE_SAFE RB_REMOVE t = Some (rev (inorder t), Lf)"
proof -
  have w: "by_key key (inorder t)" "distinct (inorder t)" "NULL \<notin> set (inorder t)"
    using assms by (auto simp: rb_wf_def intro: by_key_distinct)
  have "RB_FOREACH t = Some (inorder t)" using walk_next [OF w(2,3), of "[]"] by (simp add: RB_FOREACH_def RB_MIN_hd0)
  moreover have "RB_FOREACH_REVERSE t = Some (rev (inorder t))"
    using walk_prev [OF w(2,3), of _ "[]"] by (simp add: RB_FOREACH_REVERSE_def RB_MAX_ok)
  moreover have "RB_FOREACH_SAFE RB_REMOVE t = Some (inorder t, Lf)"
    using drain_next [OF assms] by (simp add: RB_FOREACH_SAFE_def RB_MIN_hd0)
  moreover have "RB_FOREACH_REVERSE_SAFE RB_REMOVE t = Some (rev (inorder t), Lf)"
    using drain_prev [OF assms] by (simp add: RB_FOREACH_REVERSE_SAFE_def RB_MAX_ok)
  ultimately show ?thesis using nfind_scan [OF w(1)] by (simp add: RB_NFIND_def)
qed

theorem rb_traversal_witness:
  "RB_FOREACH (Nd RB_BLACK (Nd RB_RED Lf 1 Lf) 3 (Nd RB_RED Lf 5 Lf)) = Some [1, 3, 5] \<and>
   RB_NFIND of_nat 2 (Nd RB_BLACK (Nd RB_RED Lf 1 Lf) 3 (Nd RB_RED Lf 5 Lf)) = 3"
proof -
  let ?t = "Nd RB_BLACK (Nd RB_RED Lf 1 Lf) 3 (Nd RB_RED Lf 5 Lf)" and ?k = "of_nat :: addr \<Rightarrow> u64"
  have "rb_wf ?k ?t" by (auto simp: rb_wf_def rb_ok_def intro!: exI [of _ 1])
  from rb_traversal [OF this, of 2] show ?thesis by (simp add: word_le_nat_alt)
qed

end
