(* ===== verification/Sys_Splay.thy ===== *)
theory Sys_Splay
  imports Tree_Walk
begin

text \<open>
  The splay tree of \<^verbatim>\<open>include/dyco/sys_tree.h\<close>. \<^verbatim>\<open>SPLAY\<close> descends from the root and takes the nodes it passes apart
  into a left and a right tree that hang from the local variable \<^verbatim>\<open>__node\<close>; \<^verbatim>\<open>__left\<close> and \<^verbatim>\<open>__right\<close> point to their
  open ends. Here these two trees are lists of nodes with their finished subtrees, innermost first. Following a NULL
  pointer gives \<open>None\<close>; the theorems show that it does not happen.
\<close>

section \<open>Splaying\<close>

datatype sp_tree = SLf | SNd sp_tree addr sp_tree

type_synonym left_tree = "(sp_tree \<times> addr) list"
type_synonym right_tree = "(addr \<times> sp_tree) list"
type_synonym sp_state = "sp_tree \<times> left_tree \<times> right_tree"

fun SPLAY_LEFT :: "sp_tree \<Rightarrow> sp_tree option" where
  "SPLAY_LEFT (SNd l a r) = Some l"
| "SPLAY_LEFT SLf = None"

fun SPLAY_RIGHT :: "sp_tree \<Rightarrow> sp_tree option" where
  "SPLAY_RIGHT (SNd l a r) = Some r"
| "SPLAY_RIGHT SLf = None"

definition SPLAY_EMPTY :: "sp_tree \<Rightarrow> bool" where
  "SPLAY_EMPTY t = (t = SLf)"

fun SPLAY_ROTATE_RIGHT :: "sp_tree \<Rightarrow> sp_tree option" where
  "SPLAY_ROTATE_RIGHT (SNd (SNd ll b lr) a r) = Some (SNd ll b (SNd lr a r))"
| "SPLAY_ROTATE_RIGHT _ = None"

fun SPLAY_ROTATE_LEFT :: "sp_tree \<Rightarrow> sp_tree option" where
  "SPLAY_ROTATE_LEFT (SNd l a (SNd rl b rr)) = Some (SNd (SNd l a rl) b rr)"
| "SPLAY_ROTATE_LEFT _ = None"

fun SPLAY_LINKLEFT :: "sp_tree \<Rightarrow> left_tree \<Rightarrow> right_tree \<Rightarrow> sp_state option" where
  "SPLAY_LINKLEFT (SNd l a r) L R = Some (l, L, (a, r) # R)"
| "SPLAY_LINKLEFT SLf L R = None"

fun SPLAY_LINKRIGHT :: "sp_tree \<Rightarrow> left_tree \<Rightarrow> right_tree \<Rightarrow> sp_state option" where
  "SPLAY_LINKRIGHT (SNd l a r) L R = Some (r, (l, a) # L, R)"
| "SPLAY_LINKRIGHT SLf L R = None"

text \<open>Close the open end of the left (right) tree with a subtree.\<close>

fun close_left :: "left_tree \<Rightarrow> sp_tree \<Rightarrow> sp_tree" where
  "close_left [] t = t"
| "close_left ((l, a) # L) t = close_left L (SNd l a t)"

fun close_right :: "right_tree \<Rightarrow> sp_tree \<Rightarrow> sp_tree" where
  "close_right [] t = t"
| "close_right ((a, r) # R) t = close_right R (SNd t a r)"

fun SPLAY_ASSEMBLE :: "sp_state \<Rightarrow> sp_tree option" where
  "SPLAY_ASSEMBLE (SNd l a r, L, R) = Some (SNd (close_left L l) a (close_right R r))"
| "SPLAY_ASSEMBLE (SLf, L, R) = None"

text \<open>
  One turn of the loop; \<open>c\<close> compares the wanted key with that of a node. \<open>Inl\<close>: the loop ends, \<open>Inr\<close>: it goes on.
\<close>

definition splay_step :: "(addr \<Rightarrow> int) \<Rightarrow> sp_state \<Rightarrow> (sp_state + sp_state) option" where
  "splay_step c = (\<lambda>(t, L, R).
    case t of
      SLf \<Rightarrow> None
    | SNd l a r \<Rightarrow>
        if c a < 0
        then (case l of
                SLf \<Rightarrow> Some (Inl (t, L, R))
              | SNd _ b _ \<Rightarrow>
                  if c b < 0
                  then Option.bind (SPLAY_ROTATE_RIGHT t) (\<lambda>t'.
                       if SPLAY_LEFT t' = Some SLf then Some (Inl (t', L, R))
                       else map_option Inr (SPLAY_LINKLEFT t' L R))
                  else map_option Inr (SPLAY_LINKLEFT t L R))
        else if c a > 0
        then (case r of
                SLf \<Rightarrow> Some (Inl (t, L, R))
              | SNd _ b _ \<Rightarrow>
                  if c b > 0
                  then Option.bind (SPLAY_ROTATE_LEFT t) (\<lambda>t'.
                       if SPLAY_RIGHT t' = Some SLf then Some (Inl (t', L, R))
                       else map_option Inr (SPLAY_LINKRIGHT t' L R))
                  else map_option Inr (SPLAY_LINKRIGHT t L R))
        else Some (Inl (t, L, R)))"

lemma splay_step_smaller:
  "splay_step c (t, L, R) = Some (Inr (t', L', R')) \<Longrightarrow> size t' < size t"
  by (auto simp: splay_step_def split: sp_tree.splits if_splits)

function splay_loop :: "(addr \<Rightarrow> int) \<Rightarrow> sp_state \<Rightarrow> sp_state option" where
  "splay_loop c st =
    (case splay_step c st of
       None \<Rightarrow> None
     | Some (Inl st') \<Rightarrow> Some st'
     | Some (Inr st') \<Rightarrow> splay_loop c st')"
  by pat_completeness auto

termination
  by (relation "measure (\<lambda>(c, t, L, R). size t)") (auto dest: splay_step_smaller)

declare splay_loop.simps [simp del]

definition SPLAY :: "(addr \<Rightarrow> addr \<Rightarrow> int) \<Rightarrow> addr \<Rightarrow> sp_tree \<Rightarrow> sp_tree option" where
  "SPLAY cmp e t = Option.bind (splay_loop (cmp e) (t, [], [])) SPLAY_ASSEMBLE"

text \<open>
  \<^verbatim>\<open>SPLAY_MINMAX\<close> is the same loop with the constant \<^verbatim>\<open>__comp\<close> for every comparison, except that its
  condition is \<^verbatim>\<open>while (1)\<close>: with 0 it would turn forever.
\<close>

definition SPLAY_MINMAX :: "int \<Rightarrow> sp_tree \<Rightarrow> sp_tree option" where
  "SPLAY_MINMAX val t =
    (if val = 0 then None else Option.bind (splay_loop (\<lambda>_. val) (t, [], [])) SPLAY_ASSEMBLE)"

section \<open>Operations\<close>

text \<open>The returned pointer and the tree.\<close>

definition SPLAY_INSERT :: "(addr \<Rightarrow> addr \<Rightarrow> int) \<Rightarrow> addr \<Rightarrow> sp_tree \<Rightarrow> (addr \<times> sp_tree) option" where
  "SPLAY_INSERT cmp e t =
    (if SPLAY_EMPTY t then Some (NULL, SNd SLf e SLf)
     else case SPLAY cmp e t of
            Some (SNd l a r) \<Rightarrow>
              Some (if cmp e a < 0 then (NULL, SNd l e (SNd SLf a r))
                    else if cmp e a > 0 then (NULL, SNd (SNd l a SLf) e r)
                    else (a, SNd l a r))
          | _ \<Rightarrow> None)"

definition SPLAY_REMOVE :: "(addr \<Rightarrow> addr \<Rightarrow> int) \<Rightarrow> addr \<Rightarrow> sp_tree \<Rightarrow> (addr \<times> sp_tree) option" where
  "SPLAY_REMOVE cmp e t =
    (if SPLAY_EMPTY t then Some (NULL, t)
     else case SPLAY cmp e t of
            Some (SNd l a r) \<Rightarrow>
              if cmp e a = 0
              then if l = SLf then Some (e, r)
                   else (case SPLAY cmp e l of
                           Some (SNd l' a' r') \<Rightarrow> Some (e, SNd l' a' r)
                         | _ \<Rightarrow> None)
              else Some (NULL, SNd l a r)
          | _ \<Rightarrow> None)"

definition SPLAY_FIND :: "(addr \<Rightarrow> addr \<Rightarrow> int) \<Rightarrow> addr \<Rightarrow> sp_tree \<Rightarrow> (addr \<times> sp_tree) option" where
  "SPLAY_FIND cmp e t =
    (if SPLAY_EMPTY t then Some (NULL, t)
     else case SPLAY cmp e t of
            Some (SNd l a r) \<Rightarrow> Some (if cmp e a = 0 then a else NULL, SNd l a r)
          | _ \<Rightarrow> None)"

text \<open>The subtree a pointer to a node stands for.\<close>

fun sp_at :: "addr \<Rightarrow> sp_tree \<Rightarrow> sp_tree option" where
  "sp_at e SLf = None"
| "sp_at e (SNd l a r) = (if a = e then Some (SNd l a r) else case sp_at e l of None \<Rightarrow> sp_at e r | s \<Rightarrow> s)"

fun sp_leftmost :: "sp_tree \<Rightarrow> addr \<Rightarrow> addr" where
  "sp_leftmost SLf a = a"
| "sp_leftmost (SNd l b r) a = sp_leftmost l b"

definition SPLAY_NEXT :: "(addr \<Rightarrow> addr \<Rightarrow> int) \<Rightarrow> addr \<Rightarrow> sp_tree \<Rightarrow> (addr \<times> sp_tree) option" where
  "SPLAY_NEXT cmp e t =
    Option.bind (SPLAY cmp e t) (\<lambda>t'.
      case sp_at e t' of
        Some (SNd l a r) \<Rightarrow> Some (sp_leftmost r NULL, t')
      | _ \<Rightarrow> None)"

definition SPLAY_MIN_MAX :: "int \<Rightarrow> sp_tree \<Rightarrow> (addr \<times> sp_tree) option" where
  "SPLAY_MIN_MAX val t =
    Option.bind (SPLAY_MINMAX val t) (\<lambda>t'. case t' of SLf \<Rightarrow> Some (NULL, t') | SNd l a r \<Rightarrow> Some (a, t'))"

definition SPLAY_MIN :: "sp_tree \<Rightarrow> (addr \<times> sp_tree) option" where
  "SPLAY_MIN t = (if SPLAY_EMPTY t then Some (NULL, t) else SPLAY_MIN_MAX (- 1) t)"

definition SPLAY_MAX :: "sp_tree \<Rightarrow> (addr \<times> sp_tree) option" where
  "SPLAY_MAX t = (if SPLAY_EMPTY t then Some (NULL, t) else SPLAY_MIN_MAX 1 t)"

text \<open>\<^verbatim>\<open>SPLAY_FOREACH\<close>: every step splays the tree; the nodes visited and the tree at the end.\<close>

partial_function (option) sp_walk :: "(addr \<Rightarrow> addr \<Rightarrow> int) \<Rightarrow> addr \<Rightarrow> sp_tree \<Rightarrow> (addr list \<times> sp_tree) option" where
  "sp_walk cmp x t =
    (if x = NULL then Some ([], t)
     else Option.bind (SPLAY_NEXT cmp x t) (\<lambda>(y, t').
          Option.bind (sp_walk cmp y t') (\<lambda>(xs, t''). Some (x # xs, t''))))"

definition SPLAY_FOREACH :: "(addr \<Rightarrow> addr \<Rightarrow> int) \<Rightarrow> sp_tree \<Rightarrow> (addr list \<times> sp_tree) option" where
  "SPLAY_FOREACH cmp t = Option.bind (SPLAY_MIN t) (\<lambda>(x, t'). sp_walk cmp x t')"

section \<open>The order of the nodes\<close>

fun nodes :: "sp_tree \<Rightarrow> addr list" where
  "nodes SLf = []"
| "nodes (SNd l a r) = nodes l @ a # nodes r"

fun left_nodes :: "left_tree \<Rightarrow> addr list" where
  "left_nodes [] = []"
| "left_nodes ((l, a) # L) = left_nodes L @ nodes l @ [a]"

fun right_nodes :: "right_tree \<Rightarrow> addr list" where
  "right_nodes [] = []"
| "right_nodes ((a, r) # R) = a # nodes r @ right_nodes R"

fun state_nodes :: "sp_state \<Rightarrow> addr list" where
  "state_nodes (t, L, R) = left_nodes L @ nodes t @ right_nodes R"

lemma close_left_nodes [simp]: "nodes (close_left L t) = left_nodes L @ nodes t"
  by (induction L t rule: close_left.induct) simp_all

lemma close_right_nodes [simp]: "nodes (close_right R t) = nodes t @ right_nodes R"
  by (induction R t rule: close_right.induct) simp_all

lemma nodes_empty [simp]: "(nodes t = []) = (t = SLf)"
  by (cases t) simp_all

text \<open>The results of the comparisons along the order: positive ones, at most one 0, negative ones.\<close>

definition falling :: "(addr \<Rightarrow> int) \<Rightarrow> addr list \<Rightarrow> bool" where
  "falling c xs = sorted_wrt (\<lambda>x y. (c x \<le> 0 \<longrightarrow> c y < 0) \<and> (0 \<le> c y \<longrightarrow> 0 < c x)) xs"

text \<open>What the descent keeps: the left tree is below the wanted key, the right tree above.\<close>

fun sp_inv :: "(addr \<Rightarrow> int) \<Rightarrow> addr list \<Rightarrow> sp_state \<Rightarrow> bool" where
  "sp_inv c xs (t, L, R) =
    (state_nodes (t, L, R) = xs \<and> t \<noteq> SLf \<and> (\<forall>x \<in> set (left_nodes L). 0 < c x) \<and> (\<forall>x \<in> set (right_nodes R). c x < 0))"

fun sp_done :: "(addr \<Rightarrow> int) \<Rightarrow> sp_state \<Rightarrow> bool" where
  "sp_done c (SNd l a r, L, R) = (c a = 0 \<or> c a < 0 \<and> l = SLf \<or> 0 < c a \<and> r = SLf)"
| "sp_done c (SLf, L, R) = False"

lemma splay_step_ok:
  assumes "sp_inv c xs st" "falling c xs"
  shows "(\<exists>st'. splay_step c st = Some (Inl st') \<and> sp_inv c xs st' \<and> sp_done c st') \<or>
    (\<exists>st'. splay_step c st = Some (Inr st') \<and> sp_inv c xs st')"
proof -
  obtain t L R where st: "st = (t, L, R)" by (cases st) auto
  obtain l a r where t: "t = SNd l a r" using assms(1) st by (cases t) auto
  have f: "falling c (left_nodes L @ nodes l @ a # nodes r @ right_nodes R)" using assms st t by auto
  consider "c a < 0" | "c a > 0" | "c a = 0" by linarith
  then show ?thesis
  proof cases
    case 1
    then show ?thesis using assms(1) f st t
      by (cases l) (auto simp: splay_step_def falling_def sorted_wrt_append split: sp_tree.splits)
  next
    case 2
    then show ?thesis using assms(1) f st t
      by (cases r) (auto simp: splay_step_def falling_def sorted_wrt_append split: sp_tree.splits)
  qed (use assms(1) st t in \<open>simp add: splay_step_def\<close>)
qed

lemma splay_loop_ok:
  "sp_inv c xs st \<Longrightarrow> falling c xs \<Longrightarrow> \<exists>st'. splay_loop c st = Some st' \<and> sp_inv c xs st' \<and> sp_done c st'"
proof (induction c st rule: splay_loop.induct)
  case (1 c st)
  from splay_step_ok [OF "1.prems"] show ?case
  proof (elim disjE exE conjE)
    fix st'
    assume s: "splay_step c st = Some (Inr st')" "sp_inv c xs st'"
    from "1.IH" [OF s(1) refl s(2) "1.prems"(2)] s(1) show ?thesis by (simp add: splay_loop.simps [of c st])
  qed (simp add: splay_loop.simps)
qed

text \<open>Splaying keeps the order and puts the nodes below the wanted key to the left, those above to the right.\<close>

lemma splay_split:
  assumes "t \<noteq> SLf" "falling c (nodes t)"
  obtains l a r where "Option.bind (splay_loop c (t, [], [])) SPLAY_ASSEMBLE = Some (SNd l a r)" "nodes t = nodes l @ a # nodes r"
    "\<forall>x \<in> set (nodes l). 0 < c x" "\<forall>x \<in> set (nodes r). c x < 0"
proof -
  have "sp_inv c (nodes t) (t, [], [])" using assms(1) by simp
  from splay_loop_ok [OF this assms(2)] obtain l a r L R where
    s: "splay_loop c (t, [], []) = Some (SNd l a r, L, R)" "sp_inv c (nodes t) (SNd l a r, L, R)" "sp_done c (SNd l a r, L, R)"
    by (metis prod_cases3 sp_done.elims(2))
  have n: "nodes t = nodes (close_left L l) @ a # nodes (close_right R r)" using s(2) by simp
  have f: "falling c (left_nodes L @ nodes l @ a # nodes r @ right_nodes R)" using assms(2) s(2) by simp
  have "\<forall>x \<in> set (nodes l). 0 < c x" "\<forall>x \<in> set (nodes r). c x < 0"
    using f s(3) by (auto simp: falling_def sorted_wrt_append)
  then show thesis using s n by (intro that [of "close_left L l" a "close_right R r"]) auto
qed

section \<open>Correctness of the operations\<close>

text \<open>\<open>cmp\<close> compares keys.\<close>

definition is_cmp :: "(addr \<Rightarrow> addr \<Rightarrow> int) \<Rightarrow> (addr \<Rightarrow> u64) \<Rightarrow> bool" where
  "is_cmp cmp key = (\<forall>a b. (cmp a b < 0 \<longleftrightarrow> key a < key b) \<and> (0 < cmp a b \<longleftrightarrow> key b < key a))"

lemma is_cmp_sleep: "is_cmp (coroutine_sleep_cmp key) key"
  by (auto simp: is_cmp_def coroutine_sleep_cmp_def)

lemma cmp_zero: "is_cmp cmp key \<Longrightarrow> cmp a b = 0 \<longleftrightarrow> key a = key b"
  unfolding is_cmp_def by (metis less_irrefl not_less_iff_gr_or_eq)

lemma falling_cmp:
  assumes "is_cmp cmp key" "by_key key xs"
  shows "falling (cmp e) xs"
proof -
  have c: "cmp e x < 0 \<longleftrightarrow> key e < key x" "0 < cmp e x \<longleftrightarrow> key x < key e" for x using assms(1) by (simp_all add: is_cmp_def)
  have *: "(cmp e x \<le> 0 \<longrightarrow> cmp e y < 0) \<and> (0 \<le> cmp e y \<longrightarrow> 0 < cmp e x)" if "key x < key y" for x y
    unfolding c not_less [of 0, symmetric] not_less [of _ 0, symmetric] not_less
    using that by (auto intro: le_less_trans less_le_trans)
  show ?thesis unfolding falling_def by (rule sorted_wrt_mono_rel [OF _ assms(2)]) (use * in blast)
qed

lemma SPLAY_split:
  assumes "t \<noteq> SLf" "is_cmp cmp key" "by_key key (nodes t)"
  obtains l a r where "SPLAY cmp e t = Some (SNd l a r)" "nodes t = nodes l @ a # nodes r"
    "\<forall>x \<in> set (nodes l). key x < key e" "\<forall>x \<in> set (nodes r). key e < key x"
proof -
  from splay_split [OF assms(1) falling_cmp [OF assms(2,3), of e]] obtain l a r where
    "SPLAY cmp e t = Some (SNd l a r)" "nodes t = nodes l @ a # nodes r"
    "\<forall>x \<in> set (nodes l). 0 < cmp e x" "\<forall>x \<in> set (nodes r). cmp e x < 0" unfolding SPLAY_def by metis
  with assms(2) show thesis by (intro that) (auto simp: is_cmp_def)
qed

text \<open>The specification: lists in the order of the keys.\<close>

definition spec_insert :: "(addr \<Rightarrow> u64) \<Rightarrow> addr \<Rightarrow> addr list \<Rightarrow> addr list" where
  "spec_insert key e xs = (if \<exists>a \<in> set xs. key a = key e then xs else insort_key key e xs)"

definition spec_remove :: "(addr \<Rightarrow> u64) \<Rightarrow> addr \<Rightarrow> addr list \<Rightarrow> addr list" where
  "spec_remove key e xs = filter (\<lambda>a. key a \<noteq> key e) xs"

definition spec_find :: "(addr \<Rightarrow> u64) \<Rightarrow> addr \<Rightarrow> addr list \<Rightarrow> addr" where
  "spec_find key e xs = (case find (\<lambda>a. key a = key e) xs of None \<Rightarrow> NULL | Some a \<Rightarrow> a)"

lemma find_middle:
  "\<forall>x \<in> set xs. \<not> P x \<Longrightarrow> \<forall>y \<in> set ys. \<not> P y \<Longrightarrow> find P (xs @ a # ys) = (if P a then Some a else None)"
  by (induction xs) (auto simp: find_None_iff)

lemma SPLAY_INSERT_ok:
  assumes "is_cmp cmp key" "by_key key (nodes t)" "NULL \<notin> set (nodes t)" "e \<noteq> NULL"
  shows "\<exists>p t'. SPLAY_INSERT cmp e t = Some (p, t') \<and> nodes t' = spec_insert key e (nodes t) \<and> p = spec_find key e (nodes t)"
proof (cases "t = SLf")
  case True
  then show ?thesis by (simp add: SPLAY_INSERT_def SPLAY_EMPTY_def spec_insert_def spec_find_def)
next
  case False
  from SPLAY_split [OF this assms(1,2), of e] obtain l a r where
    s: "SPLAY cmp e t = Some (SNd l a r)" "nodes t = nodes l @ a # nodes r"
    "\<forall>x \<in> set (nodes l). key x < key e" "\<forall>x \<in> set (nodes r). key e < key x" by blast
  have f: "find (\<lambda>a. key a = key e) (nodes t) = (if key a = key e then Some a else None)"
    unfolding s(2) by (rule find_middle) (use s(3,4) in auto)
  have ins: "insort_key key e (nodes t) = nodes l @ e # a # nodes r" if "key e < key a"
    using insort_key_middle [of "nodes l" key e "a # nodes r"] s that by auto
  have ins': "insort_key key e (nodes t) = (nodes l @ [a]) @ e # nodes r" if "key a < key e"
    using insort_key_middle [of "nodes l @ [a]" key e "nodes r"] s that by auto
  have ex: "(\<exists>x \<in> set (nodes t). key x = key e) \<longleftrightarrow> key a = key e" using s(2-4) by auto
  consider "key e < key a" | "key a < key e" | "key e = key a" by (metis not_less_iff_gr_or_eq)
  then show ?thesis
  proof cases
    case 1
    then have "cmp e a < 0" using assms(1) by (simp add: is_cmp_def)
    with 1 s(1) False ex f ins show ?thesis by (auto simp: SPLAY_INSERT_def SPLAY_EMPTY_def spec_insert_def spec_find_def)
  next
    case 2
    then have "0 < cmp e a" using assms(1) by (simp add: is_cmp_def)
    with 2 s(1) False ex f ins' show ?thesis by (auto simp: SPLAY_INSERT_def SPLAY_EMPTY_def spec_insert_def spec_find_def)
  next
    case 3
    then have "cmp e a = 0" using cmp_zero [OF assms(1)] by simp
    with 3 s(1,2) False ex f show ?thesis by (auto simp: SPLAY_INSERT_def SPLAY_EMPTY_def spec_insert_def spec_find_def)
  qed
qed

lemma SPLAY_REMOVE_ok:
  assumes "is_cmp cmp key" "by_key key (nodes t)"
  shows "\<exists>p t'. SPLAY_REMOVE cmp e t = Some (p, t') \<and> nodes t' = spec_remove key e (nodes t) \<and>
    p = (if \<exists>a \<in> set (nodes t). key a = key e then e else NULL)"
proof (cases "t = SLf")
  case True
  then show ?thesis by (simp add: SPLAY_REMOVE_def SPLAY_EMPTY_def spec_remove_def)
next
  case False
  from SPLAY_split [OF this assms, of e] obtain l a r where
    s: "SPLAY cmp e t = Some (SNd l a r)" "nodes t = nodes l @ a # nodes r"
    "\<forall>x \<in> set (nodes l). key x < key e" "\<forall>x \<in> set (nodes r). key e < key x" by blast
  have keep: "filter (\<lambda>a. key a \<noteq> key e) (nodes l) = nodes l" "filter (\<lambda>a. key a \<noteq> key e) (nodes r) = nodes r"
    using s(3,4) by (auto simp: filter_id_conv)
  have ex: "(\<exists>x \<in> set (nodes t). key x = key e) \<longleftrightarrow> key a = key e" using s(2-4) by auto
  have z: "cmp e a = 0 \<longleftrightarrow> key a = key e" using cmp_zero [OF assms(1)] by metis
  show ?thesis
  proof (cases "key a = key e \<and> l \<noteq> SLf")
    case True
    have "by_key key (nodes l)" using assms(2) s(2) by (simp add: sorted_wrt_append)
    from SPLAY_split [OF conjunct2 [OF True] assms(1) this, of e] obtain l' a' r' where
      s': "SPLAY cmp e l = Some (SNd l' a' r')" "nodes l = nodes l' @ a' # nodes r'" "\<forall>x \<in> set (nodes r'). key e < key x" by metis
    have "r' = SLf"
    proof (rule ccontr)
      assume "r' \<noteq> SLf"
      then obtain x where "x \<in> set (nodes r')" by (cases r') auto
      with s'(2,3) s(3) have "key e < key x" "key x < key e" by auto
      then show False by simp
    qed
    then have "nodes (SNd l' a' r) = nodes l @ nodes r" using s'(2) by simp
    moreover have "spec_remove key e (nodes t) = nodes l @ nodes r" unfolding spec_remove_def s(2) using True keep by simp
    moreover have "SPLAY_REMOVE cmp e t = Some (e, SNd l' a' r)"
      using True s(1) s'(1) \<open>t \<noteq> SLf\<close> z by (simp add: SPLAY_REMOVE_def SPLAY_EMPTY_def)
    ultimately show ?thesis using True ex by auto
  next
    case no: False
    show ?thesis
    proof (cases "key a = key e")
      case True
      with no have "l = SLf" by simp
      with True s False ex z keep show ?thesis by (simp add: SPLAY_REMOVE_def SPLAY_EMPTY_def spec_remove_def)
    next
      case ne: False
      then have "spec_remove key e (nodes t) = nodes t" unfolding spec_remove_def s(2) using keep by simp
      with ne s(1,2) False ex z show ?thesis by (simp add: SPLAY_REMOVE_def SPLAY_EMPTY_def)
    qed
  qed
qed

lemma SPLAY_FIND_ok:
  assumes "is_cmp cmp key" "by_key key (nodes t)"
  shows "\<exists>t'. SPLAY_FIND cmp e t = Some (spec_find key e (nodes t), t') \<and> nodes t' = nodes t"
proof (cases "t = SLf")
  case True
  then show ?thesis by (simp add: SPLAY_FIND_def SPLAY_EMPTY_def spec_find_def)
next
  case False
  from SPLAY_split [OF this assms, of e] obtain l a r where
    s: "SPLAY cmp e t = Some (SNd l a r)" "nodes t = nodes l @ a # nodes r"
    "\<forall>x \<in> set (nodes l). key x < key e" "\<forall>x \<in> set (nodes r). key e < key x" by blast
  have "find (\<lambda>a. key a = key e) (nodes t) = (if key a = key e then Some a else None)"
    unfolding s(2) by (rule find_middle) (use s(3,4) in auto)
  with s(1,2) False cmp_zero [OF assms(1), of e a] show ?thesis by (auto simp: SPLAY_FIND_def SPLAY_EMPTY_def spec_find_def)
qed

lemma SPLAY_MIN_MAX_ok:
  shows "\<exists>t'. SPLAY_MIN t = Some (hd0 (nodes t), t') \<and> nodes t' = nodes t"
    and "\<exists>t'. SPLAY_MAX t = Some (hd0 (rev (nodes t)), t') \<and> nodes t' = nodes t"
proof -
  have f: "falling (\<lambda>_. - 1) (nodes t)" "falling (\<lambda>_. 1) (nodes t)" by (auto simp: falling_def sorted_wrt_iff_nth_less)
  show "\<exists>t'. SPLAY_MIN t = Some (hd0 (nodes t), t') \<and> nodes t' = nodes t"
  proof (cases "t = SLf")
    case False
    from splay_split [OF this f(1)] obtain l a r where
      "Option.bind (splay_loop (\<lambda>_. - 1) (t, [], [])) SPLAY_ASSEMBLE = Some (SNd l a r)" "nodes t = nodes l @ a # nodes r" "l = SLf"
      by (metis list.set_cases nodes_empty neq_Nil_conv list.set_intros(1) less_numeral_extra(3) neg_0_less_iff_less not_one_less_zero)
    with False show ?thesis by (simp add: SPLAY_MIN_def SPLAY_MIN_MAX_def SPLAY_MINMAX_def SPLAY_EMPTY_def)
  qed (simp add: SPLAY_MIN_def SPLAY_EMPTY_def)
  show "\<exists>t'. SPLAY_MAX t = Some (hd0 (rev (nodes t)), t') \<and> nodes t' = nodes t"
  proof (cases "t = SLf")
    case False
    from splay_split [OF this f(2)] obtain l a r where
      "Option.bind (splay_loop (\<lambda>_. 1) (t, [], [])) SPLAY_ASSEMBLE = Some (SNd l a r)" "nodes t = nodes l @ a # nodes r" "r = SLf"
      by (metis list.set_cases nodes_empty neq_Nil_conv list.set_intros(1) not_one_less_zero)
    with False show ?thesis by (simp add: SPLAY_MAX_def SPLAY_MIN_MAX_def SPLAY_MINMAX_def SPLAY_EMPTY_def)
  qed (simp add: SPLAY_MAX_def SPLAY_EMPTY_def)
qed

lemma sp_leftmost_hd0: "sp_leftmost t a = (if t = SLf then a else hd0 (nodes t))"
proof (induction t arbitrary: a)
  case (SNd l b r)
  have "l \<noteq> SLf \<Longrightarrow> hd0 (nodes l) = hd (nodes l)" using hd0_append [of "nodes l" "[]"] by simp
  with SNd show ?case by (cases "l = SLf") (simp_all add: hd0_append)
qed simp

lemma SPLAY_NEXT_ok:
  assumes "is_cmp cmp key" "by_key key (nodes t)" "nodes t = xs @ e # ys"
  shows "\<exists>t'. SPLAY_NEXT cmp e t = Some (hd0 ys, t') \<and> nodes t' = nodes t"
proof -
  have "t \<noteq> SLf" using assms(3) by auto
  from SPLAY_split [OF this assms(1,2), of e] obtain l a r where
    s: "SPLAY cmp e t = Some (SNd l a r)" "nodes t = nodes l @ a # nodes r"
    "\<forall>x \<in> set (nodes l). key x < key e" "\<forall>x \<in> set (nodes r). key e < key x" by blast
  have "e \<in> set (nodes t)" using assms(3) by simp
  with s(2-4) have a: "a = e" by auto
  have d: "distinct (xs @ e # ys)" using by_key_distinct [OF assms(2)] assms(3) by simp
  have "xs @ e # ys = nodes l @ e # nodes r" using assms(3) s(2) a by simp
  from conjunct2 [OF split_unique [OF this d]] have "ys = nodes r" .
  with s(1,2) a show ?thesis by (simp add: SPLAY_NEXT_def sp_leftmost_hd0)
qed

lemma sp_walk_ok:
  assumes "is_cmp cmp key" "by_key key (xs @ ys)" "NULL \<notin> set (xs @ ys)" "nodes t = xs @ ys"
  shows "\<exists>t'. sp_walk cmp (hd0 ys) t = Some (ys, t') \<and> nodes t' = xs @ ys"
  using assms(2-4)
proof (induction ys arbitrary: xs t)
  case Nil
  then show ?case by (simp add: sp_walk.simps)
next
  case (Cons y ys)
  have "by_key key (nodes t)" using Cons.prems(1,3) by simp
  from SPLAY_NEXT_ok [OF assms(1) this Cons.prems(3)] obtain t1 where
    t1: "SPLAY_NEXT cmp y t = Some (hd0 ys, t1)" "nodes t1 = (xs @ [y]) @ ys" using Cons.prems(3) by auto
  from Cons.IH [OF _ _ t1(2)] Cons.prems(1,2) obtain t2 where "sp_walk cmp (hd0 ys) t1 = Some (ys, t2)" "nodes t2 = xs @ y # ys" by auto
  with t1(1) Cons.prems(2) show ?case by (subst sp_walk.simps) simp
qed

section \<open>The splay tree refines a sorted list\<close>

datatype sp_op = SpInsert addr | SpRemove addr

fun run_sp :: "(addr \<Rightarrow> addr \<Rightarrow> int) \<Rightarrow> sp_op list \<Rightarrow> sp_tree \<Rightarrow> sp_tree option" where
  "run_sp cmp [] t = Some t"
| "run_sp cmp (SpInsert e # ops) t = Option.bind (SPLAY_INSERT cmp e t) (\<lambda>(_, t'). run_sp cmp ops t')"
| "run_sp cmp (SpRemove e # ops) t = Option.bind (SPLAY_REMOVE cmp e t) (\<lambda>(_, t'). run_sp cmp ops t')"

fun spec_op :: "(addr \<Rightarrow> u64) \<Rightarrow> sp_op \<Rightarrow> addr list \<Rightarrow> addr list" where
  "spec_op key (SpInsert e) xs = spec_insert key e xs"
| "spec_op key (SpRemove e) xs = spec_remove key e xs"

lemma by_key_insort: "by_key key xs \<Longrightarrow> \<forall>a \<in> set xs. key a \<noteq> key e \<Longrightarrow> by_key key (insort_key key e xs)" for key :: "addr \<Rightarrow> u64"
proof (induction xs)
  case (Cons x xs)
  then show ?case by (auto simp: set_insort_key order.strict_iff_order)
qed simp

lemma spec_op_ok:
  assumes "by_key key xs" "NULL \<notin> set xs" "SpInsert NULL \<noteq> d"
  shows "by_key key (spec_op key d xs) \<and> NULL \<notin> set (spec_op key d xs)"
  using assms by (cases d) (auto simp: spec_insert_def spec_remove_def sorted_wrt_filter set_insort_key by_key_insort)

lemma run_sp_ok:
  "is_cmp cmp key \<Longrightarrow> by_key key (nodes t) \<Longrightarrow> NULL \<notin> set (nodes t) \<Longrightarrow> SpInsert NULL \<notin> set ops \<Longrightarrow>
    \<exists>t'. run_sp cmp ops t = Some t' \<and> nodes t' = fold (spec_op key) ops (nodes t) \<and> by_key key (nodes t') \<and> NULL \<notin> set (nodes t')"
proof (induction ops arbitrary: t)
  case (Cons d ops)
  obtain t1 where t1: "run_sp cmp (d # ops) t = run_sp cmp ops t1" "nodes t1 = spec_op key d (nodes t)"
  proof (cases d)
    case (SpInsert e)
    with Cons.prems SPLAY_INSERT_ok [OF Cons.prems(1-3), of e] that show thesis by auto
  next
    case (SpRemove e)
    with SPLAY_REMOVE_ok [OF Cons.prems(1,2), of e] that show thesis by auto
  qed
  from spec_op_ok [OF Cons.prems(2,3), of d] Cons.prems(4) t1(2) have "by_key key (nodes t1)" "NULL \<notin> set (nodes t1)" by auto
  from Cons.IH [OF Cons.prems(1) this] Cons.prems(4) t1 show ?case by simp
qed simp

text \<open>
  C15: the splay tree is a sorted list. Whatever sequence of insertions (of nodes that are not NULL) and removals is run
  on an empty tree, no NULL pointer is followed and all loops end; the tree then holds, in order, what
  a list kept in strictly increasing order of the keys would hold, where an insertion of a key that is present
  changes nothing. \<^verbatim>\<open>SPLAY_FIND\<close> gives the node with the wanted key, \<^verbatim>\<open>SPLAY_MIN\<close> and \<^verbatim>\<open>SPLAY_MAX\<close> the ends of the list, and
  \<^verbatim>\<open>SPLAY_FOREACH\<close> visits the list in order although every step rearranges the tree.
\<close>

theorem splay_refines_list:
  assumes "is_cmp cmp key" and "SpInsert NULL \<notin> set ops"
  defines "xs \<equiv> fold (spec_op key) ops []"
  shows "\<exists>t t1 t2 t3 t4. run_sp cmp ops SLf = Some t \<and> nodes t = xs \<and> by_key key xs \<and>
    SPLAY_FIND cmp e t = Some (spec_find key e xs, t1) \<and> nodes t1 = xs \<and>
    SPLAY_MIN t = Some (hd0 xs, t2) \<and> nodes t2 = xs \<and> SPLAY_MAX t = Some (hd0 (rev xs), t3) \<and> nodes t3 = xs \<and>
    SPLAY_FOREACH cmp t = Some (xs, t4) \<and> nodes t4 = xs"
proof -
  from run_sp_ok [OF assms(1), of SLf ops] assms(2) obtain t where
    t: "run_sp cmp ops SLf = Some t" "nodes t = xs" "by_key key xs" "NULL \<notin> set xs" by (auto simp: xs_def)
  from SPLAY_FIND_ok [OF assms(1), of t e] t obtain t1 where 1: "SPLAY_FIND cmp e t = Some (spec_find key e xs, t1)" "nodes t1 = xs" by auto
  from SPLAY_MIN_MAX_ok [of t] t(2) obtain t2 t3 where
    2: "SPLAY_MIN t = Some (hd0 xs, t2)" "nodes t2 = xs" "SPLAY_MAX t = Some (hd0 (rev xs), t3)" "nodes t3 = xs" by auto
  from sp_walk_ok [OF assms(1), of "[]" xs t2] t 2 obtain t4 where "SPLAY_FOREACH cmp t = Some (xs, t4)" "nodes t4 = xs"
    by (auto simp: SPLAY_FOREACH_def)
  with t 1 2 show ?thesis by blast
qed

theorem splay_refines_list_witness:
  "\<exists>t t4. run_sp (coroutine_sleep_cmp of_nat) [SpInsert 5, SpInsert 3, SpInsert 7, SpRemove 5] SLf = Some t \<and>
     SPLAY_FOREACH (coroutine_sleep_cmp of_nat) t = Some ([3, 7], t4)"
proof -
  let ?ops = "[SpInsert 5, SpInsert 3, SpInsert 7, SpRemove 5]" and ?k = "of_nat :: addr \<Rightarrow> u64"
  have "SpInsert NULL \<notin> set ?ops" by simp
  moreover have "fold (spec_op ?k) ?ops [] = [3, 7]" by (simp add: spec_insert_def spec_remove_def word_le_nat_alt)
  ultimately show ?thesis using splay_refines_list [OF is_cmp_sleep, of ?ops ?k] by metis
qed

end
