(* ===== verification/Uctx_Asm.thy ===== *)
theory Uctx_Asm
  imports Dyco_Prelude
begin

text \<open>
  Memory and straight-line machine code, for the context switches of \<^verbatim>\<open>src/uctx_asm.S\<close>. The memory maps addresses to bytes;
  a word is stored at any address, in either byte order. The instructions are those the five assembler routines
  use: loads and stores with a constant offset, moves, pushes, and the jump that ends a routine. A machine has the
  registers its routines name, the segment registers of the 386, and the address of the next instruction
  after the routine (\<open>pc\<close>).
\<close>

section \<open>Bytes and words in memory\<close>

type_synonym 'w memory = "'w word \<Rightarrow> 8 word"

definition word_bytes :: "'v::len word \<Rightarrow> 8 word list" where
  "word_bytes v = map (\<lambda>i. ucast (drop_bit (8 * i) v)) [0..<LENGTH('v) div 8]"

definition in_order :: "bool \<Rightarrow> 8 word list \<Rightarrow> 8 word list" where
  "in_order be bs = (if be then rev bs else bs)"

definition load_bytes :: "nat \<Rightarrow> 'w::len memory \<Rightarrow> 'w word \<Rightarrow> 8 word list" where
  "load_bytes n m a = map (\<lambda>i. m (a + of_nat i)) [0..<n]"

definition store_bytes :: "'w::len word \<Rightarrow> 8 word list \<Rightarrow> 'w memory \<Rightarrow> 'w memory" where
  "store_bytes a bs m = (\<lambda>x. if unat (x - a) < length bs then bs ! unat (x - a) else m x)"

definition rd :: "bool \<Rightarrow> 'w::len memory \<Rightarrow> 'w word \<Rightarrow> 'v::len word" where
  "rd be m a = word_rcat (rev (in_order be (load_bytes (LENGTH('v) div 8) m a)))"

definition wr :: "bool \<Rightarrow> 'w::len word \<Rightarrow> 'v::len word \<Rightarrow> 'w memory \<Rightarrow> 'w memory" where
  "wr be a v m = store_bytes a (in_order be (word_bytes v)) m"

text \<open>The \<open>k\<close> bytes at \<open>a\<close> and the \<open>n\<close> bytes at \<open>b\<close> have nothing in common.\<close>

definition apart :: "'w::len word \<Rightarrow> nat \<Rightarrow> 'w word \<Rightarrow> nat \<Rightarrow> bool" where
  "apart a k b n \<longleftrightarrow> k \<le> unat (b - a) \<and> n \<le> unat (a - b)"

lemma word_bytes_length [simp]: "length (word_bytes (v :: 'v::len word)) = LENGTH('v) div 8"
  by (simp add: word_bytes_def)

lemma in_order_simps [simp]: "length (in_order be bs) = length bs" "in_order be (in_order be bs) = bs"
  by (auto simp: in_order_def)

lemma load_bytes_length [simp]: "length (load_bytes n m a) = n"
  by (simp add: load_bytes_def)

lemma word_rcat_bytes:
  assumes "8 dvd LENGTH('v)"
  shows "word_rcat (rev (word_bytes v)) = (v :: 'v::len word)"
proof (rule bit_word_eqI)
  fix n
  assume n: "n < LENGTH('v)"
  from assms obtain k where k: "LENGTH('v) = 8 * k" ..
  have len: "n div 8 < k" using n k by auto
  have mod: "n mod 8 < 8" by simp
  have "bit (word_rcat (rev (word_bytes v)) :: 'v word) n
      \<longleftrightarrow> bit (horner_sum uint (2 ^ LENGTH(8)) (word_bytes v)) n"
    using n by (simp add: word_rcat_def bit_simps)
  also have "\<dots> \<longleftrightarrow> bit (word_bytes v ! (n div 8)) (n mod 8)"
    unfolding bit_horner_sum_uint_exp_iff using len k by simp
  also have "\<dots> \<longleftrightarrow> bit v (8 * (n div 8) + n mod 8)"
    using len k mod by (simp add: word_bytes_def bit_simps)
  finally show "bit (word_rcat (rev (word_bytes v)) :: 'v word) n = bit v n"
    by simp
qed

lemma load_store_same:
  fixes a :: "'w::len word"
  assumes "length bs \<le> 2 ^ LENGTH('w)"
  shows "load_bytes (length bs) (store_bytes a bs m) a = bs"
  using assms by (intro nth_equalityI) (auto simp: load_bytes_def store_bytes_def unat_of_nat)

lemma apart_shift:
  fixes a b :: "'w::len word"
  assumes "apart a k b n" and "i < n"
  shows "k \<le> unat (b + of_nat i - a)"
proof -
  let ?x = "unat (b - a)" and ?y = "unat (a - b)" and ?N = "2 ^ LENGTH('w) :: nat"
  have "(?x + ?y) mod ?N = unat ((b - a) + (a - b))"
    by (simp only: unat_word_ariths(1))
  then have "(?x + ?y) mod ?N = 0"
    by simp
  then obtain q where q: "?x + ?y = ?N * q"
    by (metis mod_0_imp_dvd dvdE)
  moreover have "?x < ?N" "?y < ?N"
    by (rule unsigned_less)+
  ultimately have "?N * q < ?N * 2"
    by linarith
  then have "q \<le> 1" by simp
  then have "?N * q \<le> ?N" by (cases q) simp_all
  then have "?x + i < ?N"
    using assms q unfolding apart_def by linarith
  then have "unat ((b - a) + of_nat i) = ?x + i"
    by (simp add: unat_word_ariths(1) unat_of_nat)
  then show ?thesis using assms by (simp add: apart_def algebra_simps)
qed

lemma load_store_apart:
  assumes "apart a (length bs) b n"
  shows "load_bytes n (store_bytes a bs m) b = load_bytes n m b"
  using apart_shift [OF assms] by (simp add: load_bytes_def store_bytes_def linorder_not_less [symmetric])

lemma rd_wr_same [simp]:
  fixes a :: "'w::len word" and v :: "'v::len word"
  assumes "8 dvd LENGTH('v)" and "LENGTH('v) div 8 \<le> 2 ^ LENGTH('w)"
  shows "rd be (wr be a v m) a = v"
  using load_store_same [of "in_order be (word_bytes v)" a m] assms
  by (simp add: rd_def wr_def word_rcat_bytes)

lemma rd_wr_apart:
  fixes v :: "'v::len word"
  assumes "apart a (LENGTH('v) div 8) b (LENGTH('u) div 8)"
  shows "(rd be (wr be a v m) b :: 'u::len word) = rd be m b"
  using assms by (simp add: rd_def wr_def load_store_apart)

lemma apart_sym: "apart a k b n \<longleftrightarrow> apart b n a k"
  by (auto simp: apart_def)

text \<open>The operand \<open>o(a)\<close>: a constant offset from an address.\<close>

definition at :: "'w::len word \<Rightarrow> nat \<Rightarrow> 'w word" where
  "at a off = a + of_nat off"

lemma at_0 [simp]: "at a 0 = a"
  by (simp add: at_def)

lemma at_at [simp]: "at (at a i) j = at a (i + j)"
  by (simp add: at_def)

lemma apart_part:
  fixes a b :: "'w::len word"
  assumes "apart a len b n" and "off + k \<le> len" and "0 < k"
  shows "apart (at a off) k b n"
proof -
  have "n \<le> unat (a + of_nat off - b)"
    using assms apart_shift [of b n a len off] by (simp add: apart_sym)
  moreover have "k \<le> unat (b - (a + of_nat off))"
  proof -
    have le: "off + k \<le> unat (b - a)" using assms by (simp add: apart_def)
    have "unat (b - a) < 2 ^ LENGTH('w)" by (rule unsigned_less)
    with le have off: "off < 2 ^ LENGTH('w)" by linarith
    then have "(of_nat off :: 'w word) \<le> b - a"
      using le by (simp add: word_le_nat_alt unat_of_nat)
    then have "unat (b - a - of_nat off) = unat (b - a) - off"
      using off by (simp add: unat_sub unat_of_nat)
    then show ?thesis using le by (simp add: diff_diff_eq)
  qed
  ultimately show ?thesis by (simp add: apart_def at_def)
qed

lemma apart_at:
  fixes a :: "'w::len word"
  assumes "i + k \<le> j" and "j + n \<le> 2 ^ LENGTH('w)" and "0 < k" and "0 < n"
  shows "apart (at a i) k (at a j) n"
proof -
  have lt: "j < 2 ^ LENGTH('w)" "i < j" "i < 2 ^ LENGTH('w)" using assms by auto
  have "unat (of_nat j - of_nat i :: 'w word) = j - i"
    using lt by (simp add: unat_sub_if' unat_of_nat)
  moreover have "unat (of_nat i - of_nat j :: 'w word) = i + 2 ^ LENGTH('w) - j"
    using lt by (simp add: unat_sub_if' unat_of_nat)
  ultimately show ?thesis using assms by (auto simp: apart_def at_def)
qed

text \<open>
  Several words stored at offsets from one address, as the routines that save a context do; what is read back afterwards
  at one of the offsets, and at an address outside of the structure.
\<close>

definition stores :: "bool \<Rightarrow> 'w::len word \<Rightarrow> (nat \<times> 'w word) list \<Rightarrow> 'w memory \<Rightarrow> 'w memory" where
  "stores be a ws m = fold (\<lambda>(off, v). wr be (at a off) v) ws m"

definition slots :: "nat \<Rightarrow> nat \<Rightarrow> nat list \<Rightarrow> bool" where
  "slots w len offs \<longleftrightarrow> distinct offs \<and> list_all (\<lambda>off. w dvd off \<and> off + w \<le> len) offs"

lemma slots_gap:
  assumes "w dvd i" "w dvd j" "i \<noteq> j"
  shows "i + w \<le> j \<or> j + w \<le> (i :: nat)"
proof -
  from assms obtain p q where pq: "i = w * p" "j = w * q" by (auto elim!: dvdE)
  with assms have "p < q \<or> q < p" by (metis linorder_neqE_nat)
  then show ?thesis
    using pq mult_le_mono2 [of "Suc p" q w] mult_le_mono2 [of "Suc q" p w] by auto
qed

lemma rd_stores_other:
  fixes a :: "'w::len word"
  assumes "slots (LENGTH('w) div 8) len (map fst ws)" and "len \<le> 2 ^ LENGTH('w)" and "8 \<le> LENGTH('w)"
    and "off \<notin> fst ` set ws" and "LENGTH('w) div 8 dvd off" and "off + LENGTH('w) div 8 \<le> len"
  shows "(rd be (stores be a ws m) (at a off) :: 'w word) = rd be m (at a off)"
  using assms(1,4)
proof (induction ws arbitrary: m)
  case (Cons x ws)
  obtain i v where x [simp]: "x = (i, v)" by force
  from Cons.prems have i: "LENGTH('w) div 8 dvd i" "i + LENGTH('w) div 8 \<le> len" "i \<noteq> off"
    by (auto simp: slots_def)
  have w: "0 < LENGTH('w) div 8" using assms(3) by (simp add: div_greater_zero_iff)
  have "apart (at a i) (LENGTH('w) div 8) (at a off) (LENGTH('w) div 8)"
    using slots_gap [OF i(1) assms(5) i(3)] i assms w by (metis apart_at apart_sym le_trans)
  then show ?case
    using Cons by (simp add: stores_def slots_def rd_wr_apart)
qed (simp add: stores_def)

lemma rd_stores:
  fixes a :: "'w::len word"
  assumes "slots (LENGTH('w) div 8) len (map fst ws)" and "len \<le> 2 ^ LENGTH('w)" and "8 \<le> LENGTH('w)"
    and "8 dvd LENGTH('w)" and "(off, v) \<in> set ws"
  shows "rd be (stores be a ws m) (at a off) = v"
  using assms(1,5)
proof (induction ws arbitrary: m)
  case (Cons x ws)
  show ?case
  proof (cases "x = (off, v)")
    case True
    then have "off \<notin> fst ` set ws" "LENGTH('w) div 8 dvd off" "off + LENGTH('w) div 8 \<le> len"
      using Cons.prems by (auto simp: slots_def)
    moreover have "slots (LENGTH('w) div 8) len (map fst ws)"
      using Cons.prems by (simp add: slots_def)
    ultimately have "(rd be (stores be a ws (wr be (at a off) v m)) (at a off) :: 'w word) = rd be (wr be (at a off) v m) (at a off)"
      using assms by (intro rd_stores_other) auto
    moreover have "LENGTH('w) div 8 \<le> 2 ^ LENGTH('w)"
      using div_le_dividend less_exp le_trans less_imp_le by blast
    ultimately show ?thesis
      using True assms by (simp add: stores_def)
  next
    case False
    then show ?thesis using Cons by (simp add: stores_def slots_def)
  qed
qed simp

lemma rd_stores_apart:
  fixes a :: "'w::len word"
  assumes "slots (LENGTH('w) div 8) len (map fst ws)" and "8 \<le> LENGTH('w)" and "apart a len b (LENGTH('u) div 8)"
  shows "(rd be (stores be a ws m) b :: 'u::len word) = rd be m b"
  using assms(1)
proof (induction ws arbitrary: m)
  case (Cons x ws)
  obtain i v where x [simp]: "x = (i, v)" by force
  have "apart (at a i) (LENGTH('w) div 8) b (LENGTH('u) div 8)"
    using Cons.prems assms by (intro apart_part) (auto simp: slots_def div_greater_zero_iff)
  then show ?case
    using Cons by (simp add: stores_def slots_def rd_wr_apart)
qed (simp add: stores_def)

section \<open>Instructions\<close>

text \<open>
  Registers come first, then offset and base: \<open>Ld d off b\<close> loads \<open>d\<close> from \<open>off(b)\<close>. A segment register is 16 bits
  wide, in memory too. \<open>Push\<close> and \<open>Ret\<close> name the stack pointer. Executing a routine means executing its
  instructions in order: no routine branches before its end.
\<close>

datatype seg = GS | FS | ES | DS | SS

datatype 'r instr =
    Ld 'r nat 'r
  | St 'r nat 'r
  | StI nat nat 'r
  | LdSeg seg nat 'r
  | StSeg seg nat 'r
  | LI 'r nat
  | Mv 'r 'r
  | Lea 'r nat 'r
  | Xor 'r 'r 'r
  | Push 'r nat 'r
  | Ret 'r
  | Jr 'r
  | Nop

record ('r, 'a) cpu =
  regs :: "'r \<Rightarrow> 'a"
  segs :: "seg \<Rightarrow> 16 word"
  pc :: "'a"
  ram :: "'a \<Rightarrow> 8 word"
  big_endian :: bool

definition rdm :: "('r, 'w::len word) cpu \<Rightarrow> 'w word \<Rightarrow> 'w word" where
  "rdm s a = rd (big_endian s) (ram s) a"

definition wrm :: "'w::len word \<Rightarrow> 'w word \<Rightarrow> ('r, 'w word) cpu \<Rightarrow> ('r, 'w word) cpu" where
  "wrm a v s = s\<lparr>ram := wr (big_endian s) a v (ram s)\<rparr>"

definition setr :: "'r \<Rightarrow> 'a \<Rightarrow> ('r, 'a) cpu \<Rightarrow> ('r, 'a) cpu" where
  "setr r v s = s\<lparr>regs := (regs s)(r := v)\<rparr>"

primrec step :: "'r instr \<Rightarrow> ('r, 'w::len word) cpu \<Rightarrow> ('r, 'w word) cpu" where
  "step (Ld d off b) s = setr d (rdm s (at (regs s b) off)) s"
| "step (St r off b) s = wrm (at (regs s b) off) (regs s r) s"
| "step (StI n off b) s = wrm (at (regs s b) off) (of_nat n) s"
| "step (LdSeg g off b) s = s\<lparr>segs := (segs s)(g := rd (big_endian s) (ram s) (at (regs s b) off))\<rparr>"
| "step (StSeg g off b) s = s\<lparr>ram := wr (big_endian s) (at (regs s b) off) (segs s g) (ram s)\<rparr>"
| "step (LI d n) s = setr d (of_nat n) s"
| "step (Mv d r) s = setr d (regs s r) s"
| "step (Lea d off b) s = setr d (at (regs s b) off) s"
| "step (Xor d r r') s = setr d (regs s r XOR regs s r') s"
| "step (Push sp off b) s =
     (let v = rdm s (at (regs s b) off); a = regs s sp - of_nat (LENGTH('w) div 8)
      in wrm a v (setr sp a s))"
| "step (Ret sp) s = (setr sp (at (regs s sp) (LENGTH('w) div 8)) s)\<lparr>pc := rdm s (regs s sp)\<rparr>"
| "step (Jr r) s = s\<lparr>pc := regs s r\<rparr>"
| "step Nop s = s"

definition exec :: "'r instr list \<Rightarrow> ('r, 'w::len word) cpu \<Rightarrow> ('r, 'w word) cpu" where
  "exec is s = fold step is s"

lemma exec_simps [simp]: "exec [] s = s" "exec (i # is) s = exec is (step i s)"
  by (simp_all add: exec_def)

end
