(* ===== verification/Uctx_Context.thy ===== *)
theory Uctx_Context
  imports Uctx_Asm
begin

text \<open>
  The contexts of the platforms without a usable \<^verbatim>\<open>ucontext.h\<close>: the structures of \<^verbatim>\<open>include/dyco/uctx_*.h\<close> (their members in
  order, from which the offsets follow), the assembler routines of \<^verbatim>\<open>src/uctx_asm.S\<close> (\<open>GET\<close>, which saves the registers
  of its caller, and \<open>SET\<close>, which loads saved ones) and \<^verbatim>\<open>makecontext\<close> and \<^verbatim>\<open>swapcontext\<close> of \<^verbatim>\<open>src/uctx_context.c\<close>. On every
  other platform these functions are the C library's.
\<close>

section \<open>Structures\<close>

text \<open>A structure of words: its members with the number of words each takes, in the order of their declaration.\<close>

fun offset_of :: "nat \<Rightarrow> (string \<times> nat) list \<Rightarrow> string \<Rightarrow> nat" where
  "offset_of w [] f = 0"
| "offset_of w ((g, n) # fs) f = (if g = f then 0 else w * n + offset_of w fs f)"

definition size_of :: "nat \<Rightarrow> (string \<times> nat) list \<Rightarrow> nat" where
  "size_of w fs = w * sum_list (map snd fs)"

definition mcontext_amd64 :: "(string \<times> nat) list" where
  "mcontext_amd64 =
     [(''mc_onstack'', 1), (''mc_rdi'', 1), (''mc_rsi'', 1), (''mc_rdx'', 1), (''mc_rcx'', 1), (''mc_r8'', 1),
      (''mc_r9'', 1), (''mc_rax'', 1), (''mc_rbx'', 1), (''mc_rbp'', 1), (''mc_r10'', 1), (''mc_r11'', 1),
      (''mc_r12'', 1), (''mc_r13'', 1), (''mc_r14'', 1), (''mc_r15'', 1), (''mc_trapno'', 1), (''mc_addr'', 1),
      (''mc_flags'', 1), (''mc_err'', 1), (''mc_rip'', 1), (''mc_cs'', 1), (''mc_rflags'', 1), (''mc_rsp'', 1),
      (''mc_ss'', 1), (''mc_len'', 1), (''mc_fpformat'', 1), (''mc_ownedfp'', 1), (''mc_fpstate'', 64), (''mc_spare'', 8)]"

definition mcontext_386 :: "(string \<times> nat) list" where
  "mcontext_386 =
     [(''mc_onstack'', 1), (''mc_gs'', 1), (''mc_fs'', 1), (''mc_es'', 1), (''mc_ds'', 1), (''mc_edi'', 1),
      (''mc_esi'', 1), (''mc_ebp'', 1), (''mc_isp'', 1), (''mc_ebx'', 1), (''mc_edx'', 1), (''mc_ecx'', 1),
      (''mc_eax'', 1), (''mc_trapno'', 1), (''mc_err'', 1), (''mc_eip'', 1), (''mc_cs'', 1), (''mc_eflags'', 1),
      (''mc_esp'', 1), (''mc_ss'', 1), (''mc_fpregs'', 28), (''__spare__'', 17)]"

definition mcontext_power :: "(string \<times> nat) list" where
  "mcontext_power =
     [(''pc'', 1), (''cr'', 1), (''ctr'', 1), (''xer'', 1), (''sp'', 1), (''toc'', 1), (''r3'', 1), (''gpr'', 19)]"

definition mcontext_mips :: "(string \<times> nat) list" where
  "mcontext_mips =
     [(''mc_onstack'', 1), (''mc_pc'', 1), (''mc_regs'', 32), (''sr'', 1), (''mullo'', 1), (''mulhi'', 1),
      (''mc_fpused'', 1), (''mc_fpregs'', 33), (''mc_fpc_eir'', 1), (''mc_tls'', 1), (''__spare__'', 8)]"

text \<open>
  Of a \<^verbatim>\<open>ucontext_t\<close> the functions use the address of its machine context and the description of the stack.
\<close>

record 'a ucontext =
  uc_mcontext :: 'a
  ss_sp :: 'a
  ss_size :: 'a

section \<open>The assembler routines\<close>

datatype amd64_reg = rax | rbx | rcx | rdx | rsi | rdi | rbp | rsp | r8 | r9 | r10 | r11 | r12 | r13 | r14 | r15

definition SET_amd64 :: "amd64_reg instr list" where
  "SET_amd64 =
     [Ld rsi 16 rdi, Ld rdx 24 rdi, Ld rcx 32 rdi, Ld r8 40 rdi, Ld r9 48 rdi, Ld rax 56 rdi, Ld rbx 64 rdi,
      Ld rbp 72 rdi, Ld r10 80 rdi, Ld r11 88 rdi, Ld r12 96 rdi, Ld r13 104 rdi, Ld r14 112 rdi, Ld r15 120 rdi,
      Ld rsp 184 rdi, Push rsp 160 rdi, Ld rdi 8 rdi, Ret rsp]"

definition GET_amd64 :: "amd64_reg instr list" where
  "GET_amd64 =
     [St rdi 8 rdi, St rsi 16 rdi, St rdx 24 rdi, St rcx 32 rdi, St r8 40 rdi, St r9 48 rdi, StI 1 56 rdi,
      St rbx 64 rdi, St rbp 72 rdi, St r10 80 rdi, St r11 88 rdi, St r12 96 rdi, St r13 104 rdi, St r14 112 rdi,
      St r15 120 rdi, Ld rcx 0 rsp, St rcx 160 rdi, Lea rcx 8 rsp, St rcx 184 rdi, Ld rcx 32 rdi, LI rax 0, Ret rsp]"

datatype i386_reg = eax | ebx | ecx | edx | esi | edi | ebp | esp

definition SET_386 :: "i386_reg instr list" where
  "SET_386 =
     [Ld eax 4 esp, LdSeg FS 8 eax, LdSeg ES 12 eax, LdSeg DS 16 eax, LdSeg SS 76 eax, Ld edi 20 eax, Ld esi 24 eax,
      Ld ebp 28 eax, Ld ebx 36 eax, Ld edx 40 eax, Ld ecx 44 eax, Ld esp 72 eax, Push esp 60 eax, Ld eax 48 eax, Ret esp]"

definition GET_386 :: "i386_reg instr list" where
  "GET_386 =
     [Ld eax 4 esp, StSeg FS 8 eax, StSeg ES 12 eax, StSeg DS 16 eax, StSeg SS 76 eax, St edi 20 eax, St esi 24 eax,
      St ebp 28 eax, St ebx 36 eax, St edx 40 eax, St ecx 44 eax, StI 1 48 eax, Ld ecx 0 esp, St ecx 60 eax,
      Lea ecx 4 esp, St ecx 72 eax, Ld ecx 44 eax, LI eax 0, Ret esp]"

datatype power_reg = GPR nat | LR | CR | CTR | XER

definition GET_power :: "power_reg instr list" where
  "GET_power =
     [Mv (GPR 0) LR, Mv (GPR 5) CR, Mv (GPR 6) CTR, Mv (GPR 7) XER, St (GPR 0) 0 (GPR 3), St (GPR 5) 4 (GPR 3),
      St (GPR 6) 8 (GPR 3), St (GPR 7) 12 (GPR 3), St (GPR 1) 16 (GPR 3), St (GPR 2) 20 (GPR 3), LI (GPR 5) 1,
      St (GPR 5) 24 (GPR 3), St (GPR 13) 28 (GPR 3), St (GPR 14) 32 (GPR 3), St (GPR 15) 36 (GPR 3),
      St (GPR 16) 40 (GPR 3), St (GPR 17) 44 (GPR 3), St (GPR 18) 48 (GPR 3), St (GPR 19) 52 (GPR 3),
      St (GPR 20) 56 (GPR 3), St (GPR 21) 60 (GPR 3), St (GPR 22) 64 (GPR 3), St (GPR 23) 68 (GPR 3),
      St (GPR 24) 72 (GPR 3), St (GPR 25) 76 (GPR 3), St (GPR 26) 80 (GPR 3), St (GPR 27) 84 (GPR 3),
      St (GPR 28) 88 (GPR 3), St (GPR 29) 92 (GPR 3), St (GPR 30) 96 (GPR 3), St (GPR 31) 100 (GPR 3),
      LI (GPR 3) 0, Jr LR]"

definition SET_power :: "power_reg instr list" where
  "SET_power =
     [Ld (GPR 13) 28 (GPR 3), Ld (GPR 14) 32 (GPR 3), Ld (GPR 15) 36 (GPR 3), Ld (GPR 16) 40 (GPR 3),
      Ld (GPR 17) 44 (GPR 3), Ld (GPR 18) 48 (GPR 3), Ld (GPR 19) 52 (GPR 3), Ld (GPR 20) 56 (GPR 3),
      Ld (GPR 21) 60 (GPR 3), Ld (GPR 22) 64 (GPR 3), Ld (GPR 23) 68 (GPR 3), Ld (GPR 24) 72 (GPR 3),
      Ld (GPR 25) 76 (GPR 3), Ld (GPR 26) 80 (GPR 3), Ld (GPR 27) 84 (GPR 3), Ld (GPR 28) 88 (GPR 3),
      Ld (GPR 29) 92 (GPR 3), Ld (GPR 30) 96 (GPR 3), Ld (GPR 31) 100 (GPR 3), Ld (GPR 1) 16 (GPR 3),
      Ld (GPR 2) 20 (GPR 3), Ld (GPR 0) 0 (GPR 3), Mv LR (GPR 0), Ld (GPR 0) 4 (GPR 3), Mv CR (GPR 0),
      Ld (GPR 0) 8 (GPR 3), Mv CTR (GPR 0), Ld (GPR 0) 12 (GPR 3), Mv XER (GPR 0), Ld (GPR 3) 24 (GPR 3), Jr LR]"

text \<open>The registers of ARM and MIPS are numbered.\<close>

definition GET_arm :: "nat instr list" where
  "GET_arm =
     [St 1 4 0, St 2 8 0, St 3 12 0, St 4 16 0, St 5 20 0, St 6 24 0, St 7 28 0, St 8 32 0, St 9 36 0, St 10 40 0,
      St 11 44 0, St 12 48 0, St 13 52 0, St 14 56 0, LI 1 1, St 1 0 0, LI 0 0, Jr 14]"

definition SET_arm :: "nat instr list" where
  "SET_arm =
     [Ld 1 4 0, Ld 2 8 0, Ld 3 12 0, Ld 4 16 0, Ld 5 20 0, Ld 6 24 0, Ld 7 28 0, Ld 8 32 0, Ld 9 36 0, Ld 10 40 0,
      Ld 11 44 0, Ld 12 48 0, Ld 13 52 0, Ld 14 56 0, Ld 0 0 0, Jr 14]"

definition GET_mips :: "nat instr list" where
  "GET_mips =
     [St 4 24 4, St 5 28 4, St 6 32 4, St 7 36 4, St 16 72 4, St 17 76 4, St 18 80 4, St 19 84 4, St 20 88 4,
      St 21 92 4, St 22 96 4, St 23 100 4, St 28 120 4, St 29 124 4, St 30 128 4, St 31 132 4, Xor 2 2 2, Jr 31, Nop]"

definition SET_mips :: "nat instr list" where
  "SET_mips =
     [Ld 16 72 4, Ld 17 76 4, Ld 18 80 4, Ld 19 84 4, Ld 20 88 4, Ld 21 92 4, Ld 22 96 4, Ld 23 100 4, Ld 28 120 4,
      Ld 29 124 4, Ld 30 128 4, Ld 8 132 4, Ld 25 132 4, Ld 5 28 4, Ld 6 32 4, Ld 7 36 4, Ld 4 24 4, Jr 8, Nop]"

section \<open>makecontext\<close>

text \<open>
  The variadic arguments are the list of their slots; reading more of them than there are is undefined (\<open>None\<close>), and so is the
  write to address 0 with which the version for amd64 rejects a wrong number of arguments. \<open>va_arg\<close> with type \<^verbatim>\<open>int\<close> takes
  the lower half of a slot of amd64, and storing it in a \<^verbatim>\<open>long\<close> extends its sign.
\<close>

definition memset_bytes :: "'w::len word \<Rightarrow> nat \<Rightarrow> 'w memory \<Rightarrow> 'w memory" where
  "memset_bytes a n m = store_bytes a (replicate n 0) m"

definition makecontext_amd64 ::
    "64 word ucontext \<Rightarrow> 64 word \<Rightarrow> 32 word \<Rightarrow> 64 word list \<Rightarrow> 64 memory \<Rightarrow> 64 memory option" where
  "makecontext_amd64 ucp func argc args m =
     (let fld = (\<lambda>f. at (uc_mcontext ucp) (offset_of 8 mcontext_amd64 f));
          m = memset_bytes (uc_mcontext ucp) (size_of 8 mcontext_amd64) m
      in if argc \<noteq> 2 then None
         else case args of
           a0 # a1 # _ \<Rightarrow>
             let m = wr False (fld ''mc_rdi'') (scast (ucast a0 :: 32 word) :: 64 word) m;
                 m = wr False (fld ''mc_rsi'') (scast (ucast a1 :: 32 word) :: 64 word) m;
                 sp = ss_sp ucp + 8 * (ss_size ucp div 8);
                 sp = sp - 8 * scast argc;
                 sp = sp - sp mod 16;
                 sp = sp - 8;
                 m = wr False sp (0 :: 64 word) m;
                 m = wr False (fld ''mc_rip'') func m;
                 m = wr False (fld ''mc_rsp'') sp m
             in Some m
         | _ \<Rightarrow> None)"

definition makecontext_386 ::
    "32 word ucontext \<Rightarrow> 32 word \<Rightarrow> 32 word \<Rightarrow> 32 word list \<Rightarrow> 32 memory \<Rightarrow> 32 memory option" where
  "makecontext_386 ucp func argc args m =
     (let fld = (\<lambda>f. at (uc_mcontext ucp) (offset_of 4 mcontext_386 f));
          sp = ss_sp ucp + 4 * (ss_size ucp div 4);
          sp = sp - 4 * argc;
          sp = sp - sp mod 16
      in if sint argc < 0 \<or> length args < unat argc then None
         else let m = fold (\<lambda>i. wr False (at sp (4 * i)) (args ! i)) [0..<unat argc] m;
                  sp = sp - 4;
                  m = wr False sp (0 :: 32 word) m;
                  m = wr False (fld ''mc_eip'') func m;
                  m = wr False (fld ''mc_esp'') sp m
              in Some m)"

definition makecontext_power ::
    "32 word ucontext \<Rightarrow> 32 word \<Rightarrow> 32 word \<Rightarrow> 32 word list \<Rightarrow> 32 memory \<Rightarrow> 32 memory option" where
  "makecontext_power ucp func argc args m =
     (let fld = (\<lambda>f. at (uc_mcontext ucp) (offset_of 4 mcontext_power f));
          tos = ss_sp ucp + 4 * (ss_size ucp div 4);
          sp = tos - 4 * 16;
          m = wr True (fld ''pc'') func m;
          m = wr True (fld ''sp'') sp m
      in case args of [] \<Rightarrow> None | a0 # _ \<Rightarrow> Some (wr True (fld ''r3'') a0 m))"

text \<open>
  The version for ARM is not compiled (the macro that selects it is commented out) and there is no header for its
  structure: where \<^verbatim>\<open>gregs\<close> is in it is a parameter.
\<close>

definition makecontext_arm ::
    "(nat \<Rightarrow> 32 word) \<Rightarrow> 32 word ucontext \<Rightarrow> 32 word \<Rightarrow> 32 word \<Rightarrow> 32 word list \<Rightarrow> 32 memory \<Rightarrow> 32 memory option" where
  "makecontext_arm gregs uc fn argc args m =
     (let sp = ss_sp uc + 4 * (ss_size uc div 4);
          n = nat (min 4 (sint argc))
      in if length args < n then None
         else let m = fold (\<lambda>i. wr False (gregs i) (args ! i)) [0..<n] m;
                  m = wr False (gregs 13) sp m
              in Some (wr False (gregs 14) fn m))"

definition makecontext_mips ::
    "bool \<Rightarrow> 32 word ucontext \<Rightarrow> 32 word \<Rightarrow> 32 word \<Rightarrow> 32 word list \<Rightarrow> 32 memory \<Rightarrow> 32 memory option" where
  "makecontext_mips be uc fn argc args m =
     (let mc_regs = (\<lambda>i. at (uc_mcontext uc) (offset_of 4 mcontext_mips ''mc_regs'' + 4 * i));
          sp = ss_sp uc + 4 * (ss_size uc div 4);
          n = nat (min 4 (sint argc))
      in if length args < n then None
         else let m = fold (\<lambda>i. wr be (mc_regs (i + 4)) (args ! i)) [0..<n] m;
                  m = wr be (mc_regs 29) sp m
              in Some (wr be (mc_regs 31) fn m))"

section \<open>swapcontext\<close>

text \<open>
  \<^verbatim>\<open>swapcontext\<close> calls \<^verbatim>\<open>getcontext\<close>, which returns twice: first at once, with 0, and again when somebody loads the context it
  saved. After each return the same code runs (\<open>swap_rest\<close>): on 0 it calls \<^verbatim>\<open>setcontext\<close> and the other context
  goes on (\<open>Inl\<close>, with the state in which it does), otherwise \<^verbatim>\<open>swapcontext\<close> returns (\<open>Inr\<close>). How the compiled code passes the argument
  of the second call, and what it does to the other registers, is the parameter \<open>call\<close>.
\<close>

definition swap_rest :: "('s \<Rightarrow> 's) \<Rightarrow> ('s \<Rightarrow> 'b::zero) \<Rightarrow> ('s \<Rightarrow> 's) \<Rightarrow> 's \<Rightarrow> 's + 's" where
  "swap_rest setcontext res call s = (if res s = 0 then Inl (setcontext (call s)) else Inr s)"

definition swapcontext :: "('s \<Rightarrow> 's) \<Rightarrow> ('s \<Rightarrow> 's) \<Rightarrow> ('s \<Rightarrow> 'b::zero) \<Rightarrow> ('s \<Rightarrow> 's) \<Rightarrow> 's \<Rightarrow> 's + 's" where
  "swapcontext getcontext setcontext res call s = swap_rest setcontext res call (getcontext s)"

end
