(* ===== verification/Uctx_Correct.thy ===== *)
theory Uctx_Correct
  imports Uctx_Context
begin

text \<open>
  Correctness of the context switches. What a pair of routines promises is the locale \<open>context_save\<close>: \<open>GET\<close> returns 0 to its caller
  and leaves its context in the structure, \<open>SET\<close> returns to where a saved context was taken. With the second return
  told apart from the first (\<open>context_switch\<close>), \<^verbatim>\<open>swapcontext\<close> returns exactly once. The routines of amd64, 386, PowerPC and
  ARM are such pairs; those of MIPS are not.
\<close>

section \<open>The contract\<close>

locale context_save =
  fixes get set :: "'s \<Rightarrow> 's" and res :: "'s \<Rightarrow> 'b::zero" and get_ok set_ok :: "'s \<Rightarrow> bool"
    and argp :: "'s \<Rightarrow> 'a" and holds :: "'s \<Rightarrow> 'a \<Rightarrow> 's \<Rightarrow> bool" and returned :: "'s \<Rightarrow> 's \<Rightarrow> bool"
  assumes get_returns: "get_ok s \<Longrightarrow> returned s (get s)"
    and get_zero: "get_ok s \<Longrightarrow> res (get s) = 0"
    and get_holds: "get_ok s \<Longrightarrow> holds (get s) (argp s) s"
    and set_returns: "set_ok t \<Longrightarrow> holds t (argp t) s \<Longrightarrow> returned s (set t)"
begin

lemma swap_jumps:
  assumes "get_ok s" and "set_ok (call (get s))" and "holds (call (get s)) (argp (call (get s))) s0"
  shows "swapcontext get set res call s = Inl (set (call (get s)))" "returned s0 (set (call (get s)))"
  using assms by (simp_all add: swapcontext_def swap_rest_def get_zero set_returns)

end

locale context_switch = context_save +
  assumes set_nonzero: "set_ok t \<Longrightarrow> holds t (argp t) s \<Longrightarrow> res (set t) \<noteq> 0"
begin

lemma swap_switches:
  assumes "get_ok s" and "set_ok (call (get s))" and "holds (call (get s)) (argp (call (get s))) s0"
  shows "\<exists>u. swapcontext get set res call s = Inl u \<and> returned s0 u \<and> swap_rest set res call' u = Inr u"
  using swap_jumps [where call = call, OF assms] set_nonzero [OF assms(2,3)] by (simp add: swap_rest_def)

lemma swap_comes_back:
  assumes "get_ok s" and "set_ok t" and "argp t = argp s" and "holds t (argp s) s"
  shows "holds (get s) (argp s) s" and "returned s (set t)" and "swap_rest set res call (set t) = Inr (set t)"
  using assms get_holds set_returns [of t s] set_nonzero [of t s] by (simp_all add: swap_rest_def)

end

section \<open>Routines that save registers\<close>

text \<open>A structure that holds words at given offsets.\<close>

definition has_words :: "('r, 'w::len word) cpu \<Rightarrow> 'w word \<Rightarrow> (nat \<times> 'w word) list \<Rightarrow> bool" where
  "has_words t a ws \<longleftrightarrow> list_all (\<lambda>(off, v). rdm t (at a off) = v) ws"

lemma stores_snoc: "wr be (at a off) v (stores be a ws m) = stores be a (ws @ [(off, v)]) m"
  by (simp add: stores_def)

lemma stores_Nil: "stores be a [] m = m"
  by (simp add: stores_def)

lemma has_words_stores:
  fixes s :: "('r, 'w::len word) cpu"
  assumes "ram s = stores (big_endian s) a ws m"
    and "slots (LENGTH('w) div 8) len (map fst ws)" and "len \<le> 2 ^ LENGTH('w)" and "8 \<le> LENGTH('w)" and "8 dvd LENGTH('w)"
  shows "has_words s a ws"
  using assms rd_stores [of len ws] by (fastforce simp: has_words_def rdm_def list_all_iff)

lemmas asm_run = rdm_def wrm_def setr_def stores_snoc

subsection \<open>amd64\<close>

definition image_amd64 :: "(amd64_reg, 64 word) cpu \<Rightarrow> (nat \<times> 64 word) list" where
  "image_amd64 s =
     [(8, regs s rdi), (16, regs s rsi), (24, regs s rdx), (32, regs s rcx), (40, regs s r8), (48, regs s r9), (56, 1),
      (64, regs s rbx), (72, regs s rbp), (80, regs s r10), (88, regs s r11), (96, regs s r12), (104, regs s r13),
      (112, regs s r14), (120, regs s r15), (160, rdm s (regs s rsp)), (184, at (regs s rsp) 8)]"

definition get_ok_amd64 :: "(amd64_reg, 64 word) cpu \<Rightarrow> bool" where
  "get_ok_amd64 s \<longleftrightarrow> apart (regs s rdi) 192 (regs s rsp) 8"

definition set_ok_amd64 :: "(amd64_reg, 64 word) cpu \<Rightarrow> bool" where
  "set_ok_amd64 t \<longleftrightarrow> apart (regs t rdi) 192 (rdm t (at (regs t rdi) 184) - 8) 8"

definition returned_amd64 :: "(amd64_reg, 64 word) cpu \<Rightarrow> (amd64_reg, 64 word) cpu \<Rightarrow> bool" where
  "returned_amd64 s u \<longleftrightarrow> pc u = rdm s (regs s rsp)
     \<and> regs u = (regs s)(rsp := at (regs s rsp) 8, rax := regs u rax)"

lemma GET_amd64_run:
  assumes "get_ok_amd64 s"
  shows "exec GET_amd64 s = s\<lparr>ram := stores (big_endian s) (regs s rdi) (image_amd64 s) (ram s),
           regs := (regs s)(rax := 0, rsp := at (regs s rsp) 8), pc := rdm s (regs s rsp)\<rparr>"
proof -
  have sp: "(rd be (stores be (regs s rdi) ws m) (regs s rsp) :: 64 word) = rd be m (regs s rsp)"
    if "slots 8 192 (map fst ws)" for be ws m
    using assms that by (intro rd_stores_apart [where len = 192]) (simp_all add: get_ok_amd64_def)
  have rcx: "rd be (stores be a ws m) (at a 32) = regs s rcx"
    if "slots 8 192 (map fst ws)" "(32, regs s rcx) \<in> set ws" for be ws m and a :: "64 word"
    using that by (intro rd_stores [where len = 192]) simp_all
  have "exec GET_amd64 (s\<lparr>ram := stores (big_endian s) (regs s rdi) [] (ram s)\<rparr>) = s\<lparr>ram := stores (big_endian s) (regs s rdi) (image_amd64 s) (ram s),
           regs := (regs s)(rax := 0, rsp := at (regs s rsp) 8), pc := rdm s (regs s rsp)\<rparr>"
    by (simp add: GET_amd64_def asm_run image_amd64_def sp rcx slots_def fun_upd_twist)
  then show ?thesis by (simp add: stores_Nil)
qed

lemma SET_amd64_run:
  assumes "set_ok_amd64 t"
  defines "f \<equiv> \<lambda>off. rdm t (at (regs t rdi) off)"
  shows "exec SET_amd64 t = t\<lparr>ram := wr (big_endian t) (f 184 - 8) (f 160) (ram t),
           regs := (regs t)(rsi := f 16, rdx := f 24, rcx := f 32, r8 := f 40, r9 := f 48, rax := f 56, rbx := f 64,
             rbp := f 72, r10 := f 80, r11 := f 88, r12 := f 96, r13 := f 104, r14 := f 112, r15 := f 120,
             rsp := f 184, rdi := f 8), pc := f 160\<rparr>"
proof -
  have "apart (f 184 - 8) 8 (at (regs t rdi) 8) 8"
    using assms apart_part [of "regs t rdi" 192 "f 184 - 8" 8 8 8] by (simp add: set_ok_amd64_def apart_sym)
  then have rdi: "(rd be (wr be (f 184 - 8) v m) (at (regs t rdi) 8) :: 64 word) = rd be m (at (regs t rdi) 8)"
    for be m and v :: "64 word"
    by (intro rd_wr_apart) simp
  have sp: "at (a - 8) 8 = a" for a :: "64 word"
    by (simp add: at_def)
  show ?thesis
    using rdi by (simp add: SET_amd64_def asm_run Let_def f_def sp fun_upd_twist)
qed

lemma SET_amd64_returns:
  assumes "set_ok_amd64 t" and "has_words t (regs t rdi) (image_amd64 s)"
  shows "returned_amd64 s (exec SET_amd64 t)" and "regs (exec SET_amd64 t) rax = 1"
proof -
  have "regs (exec SET_amd64 t) r = (if r = rax then 1 else if r = rsp then at (regs s rsp) 8 else regs s r)" for r
    using assms(2) by (cases r) (simp_all add: SET_amd64_run [OF assms(1)] image_amd64_def has_words_def)
  moreover have "pc (exec SET_amd64 t) = rdm s (regs s rsp)"
    using assms(2) by (simp add: SET_amd64_run [OF assms(1)] image_amd64_def has_words_def)
  ultimately show "returned_amd64 s (exec SET_amd64 t)" and "regs (exec SET_amd64 t) rax = 1"
    by (simp_all add: returned_amd64_def fun_eq_iff)
qed

interpretation amd64: context_switch "exec GET_amd64" "exec SET_amd64" "\<lambda>s. regs s rax" get_ok_amd64 set_ok_amd64
    "\<lambda>s. regs s rdi" "\<lambda>t a s. has_words t a (image_amd64 s)" returned_amd64
proof
  fix s :: "(amd64_reg, 64 word) cpu"
  assume s: "get_ok_amd64 s"
  show "returned_amd64 s (exec GET_amd64 s)" "regs (exec GET_amd64 s) rax = 0"
    by (simp_all add: GET_amd64_run [OF s] returned_amd64_def fun_eq_iff)
  show "has_words (exec GET_amd64 s) (regs s rdi) (image_amd64 s)"
    by (rule has_words_stores [where m = "ram s" and len = 192])
      (simp_all add: GET_amd64_run [OF s] image_amd64_def slots_def)
qed (simp_all add: SET_amd64_returns)

subsection \<open>386\<close>

text \<open>
  The argument is on the stack, above the return address. The segment registers take two bytes of their members.
\<close>

definition argp_386 :: "(i386_reg, 32 word) cpu \<Rightarrow> 32 word" where
  "argp_386 s = rdm s (at (regs s esp) 4)"

definition image_386 :: "(i386_reg, 32 word) cpu \<Rightarrow> (nat \<times> 32 word) list" where
  "image_386 s =
     [(20, regs s edi), (24, regs s esi), (28, regs s ebp), (36, regs s ebx), (40, regs s edx), (44, regs s ecx), (48, 1),
      (60, rdm s (regs s esp)), (72, at (regs s esp) 4)]"

definition segs_386 :: "(i386_reg, 32 word) cpu \<Rightarrow> (nat \<times> 16 word) list" where
  "segs_386 s = [(8, segs s FS), (12, segs s ES), (16, segs s DS), (76, segs s SS)]"

definition holds_386 :: "(i386_reg, 32 word) cpu \<Rightarrow> 32 word \<Rightarrow> (i386_reg, 32 word) cpu \<Rightarrow> bool" where
  "holds_386 t a s \<longleftrightarrow> has_words t a (image_386 s)
     \<and> list_all (\<lambda>(off, v). rd (big_endian t) (ram t) (at a off) = v) (segs_386 s)"

definition get_ok_386 :: "(i386_reg, 32 word) cpu \<Rightarrow> bool" where
  "get_ok_386 s \<longleftrightarrow> apart (argp_386 s) 80 (regs s esp) 4"

definition set_ok_386 :: "(i386_reg, 32 word) cpu \<Rightarrow> bool" where
  "set_ok_386 t \<longleftrightarrow> apart (argp_386 t) 80 (rdm t (at (argp_386 t) 72) - 4) 4"

definition returned_386 :: "(i386_reg, 32 word) cpu \<Rightarrow> (i386_reg, 32 word) cpu \<Rightarrow> bool" where
  "returned_386 s u \<longleftrightarrow> pc u = rdm s (regs s esp)
     \<and> regs u = (regs s)(esp := at (regs s esp) 4, eax := regs u eax) \<and> segs u = (segs s)(GS := segs u GS)"

definition seg_stores :: "bool \<Rightarrow> 32 word \<Rightarrow> (nat \<times> 16 word) list \<Rightarrow> 32 memory \<Rightarrow> 32 memory" where
  "seg_stores be a ws m = fold (\<lambda>(off, v). wr be (at a off) v) ws m"

lemma rd_seg_stores_apart:
  assumes "apart a len b (LENGTH('u) div 8)" and "list_all (\<lambda>(off, v). off + 2 \<le> len) ws"
  shows "(rd be (seg_stores be a ws m) b :: 'u::len word) = rd be m b"
  using assms(2)
proof (induction ws arbitrary: m)
  case (Cons x ws)
  obtain off v where [simp]: "x = (off, v)" by force
  have "apart (at a off) 2 b (LENGTH('u) div 8)"
    using Cons.prems by (intro apart_part [OF assms(1)]) simp_all
  then show ?case using Cons by (simp add: seg_stores_def rd_wr_apart)
qed (simp add: seg_stores_def)

lemma GET_386_run:
  assumes "get_ok_386 s"
  shows "exec GET_386 s = s\<lparr>
           ram := stores (big_endian s) (argp_386 s) (image_386 s) (seg_stores (big_endian s) (argp_386 s) (segs_386 s) (ram s)),
           regs := (regs s)(eax := 0, esp := at (regs s esp) 4), pc := rdm s (regs s esp)\<rparr>" (is "_ = ?r")
proof -
  let ?be = "big_endian s" and ?a = "argp_386 s"
  let ?m = "seg_stores ?be ?a (segs_386 s) (ram s)"
  have sp: "(rd be (stores be ?a ws m) (regs s esp) :: 32 word) = rd be m (regs s esp)"
    if "slots 4 80 (map fst ws)" for be ws m
    using assms that by (intro rd_stores_apart [where len = 80]) (simp_all add: get_ok_386_def)
  have seg: "(rd be (seg_stores be ?a (segs_386 s) m) (regs s esp) :: 32 word) = rd be m (regs s esp)" for be m
    using assms by (intro rd_seg_stores_apart [where len = 80]) (simp_all add: get_ok_386_def segs_386_def)
  have ecx: "rd be (stores be a ws m) (at a 44) = regs s ecx"
    if "slots 4 80 (map fst ws)" "(44, regs s ecx) \<in> set ws" for be ws m and a :: "32 word"
    using that by (intro rd_stores [where len = 80]) simp_all
  have keep: "(regs s)(eax := x, ecx := regs s ecx) = (regs s)(eax := x)" for x
    by (simp add: fun_eq_iff)
  have split: "GET_386 = take 5 GET_386 @ drop 5 GET_386"
    by simp
  have "exec (take 5 GET_386) s = s\<lparr>ram := stores ?be ?a [] ?m, regs := (regs s)(eax := ?a)\<rparr>"
    by (simp add: GET_386_def asm_run argp_386_def seg_stores_def segs_386_def stores_Nil)
  moreover have "exec (drop 5 GET_386) (s\<lparr>ram := stores ?be ?a [] ?m, regs := (regs s)(eax := ?a)\<rparr>) = ?r"
    by (simp add: GET_386_def asm_run image_386_def sp seg ecx keep slots_def fun_upd_twist)
  ultimately show ?thesis
    using split by (metis exec_def fold_append comp_apply)
qed

lemma SET_386_run:
  assumes "set_ok_386 t"
  defines "f \<equiv> \<lambda>off. rdm t (at (argp_386 t) off)" and "g \<equiv> \<lambda>off. rd (big_endian t) (ram t) (at (argp_386 t) off)"
  shows "exec SET_386 t = t\<lparr>ram := wr (big_endian t) (f 72 - 4) (f 60) (ram t),
           regs := (regs t)(edi := f 20, esi := f 24, ebp := f 28, ebx := f 36, edx := f 40, ecx := f 44, esp := f 72, eax := f 48),
           segs := (segs t)(FS := g 8, ES := g 12, DS := g 16, SS := g 76), pc := f 60\<rparr>"
proof -
  have "apart (f 72 - 4) 4 (at (argp_386 t) 48) 4"
    using assms apart_part [of "argp_386 t" 80 "f 72 - 4" 4 48 4] by (simp add: set_ok_386_def apart_sym)
  then have eax: "(rd be (wr be (f 72 - 4) v m) (at (argp_386 t) 48) :: 32 word) = rd be m (at (argp_386 t) 48)"
    for be m and v :: "32 word"
    by (intro rd_wr_apart) simp
  have sp: "at (a - 4) 4 = a" for a :: "32 word"
    by (simp add: at_def)
  have arg: "rd (big_endian t) (ram t) (at (regs t esp) 4) = argp_386 t"
    by (simp add: argp_386_def rdm_def)
  show ?thesis
    using eax by (simp add: SET_386_def asm_run Let_def f_def g_def sp arg fun_upd_twist)
qed

lemma SET_386_returns:
  assumes "set_ok_386 t" and "holds_386 t (argp_386 t) s"
  shows "returned_386 s (exec SET_386 t)" and "regs (exec SET_386 t) eax = 1"
proof -
  have "regs (exec SET_386 t) r = (if r = eax then 1 else if r = esp then at (regs s esp) 4 else regs s r)" for r
    using assms(2) by (cases r) (simp_all add: SET_386_run [OF assms(1)] image_386_def holds_386_def has_words_def)
  moreover have "segs (exec SET_386 t) g = segs s g" if "g \<noteq> GS" for g
    using assms(2) that by (cases g) (simp_all add: SET_386_run [OF assms(1)] segs_386_def holds_386_def)
  moreover have "pc (exec SET_386 t) = rdm s (regs s esp)"
    using assms(2) by (simp add: SET_386_run [OF assms(1)] image_386_def holds_386_def has_words_def)
  ultimately show "returned_386 s (exec SET_386 t)" and "regs (exec SET_386 t) eax = 1"
    by (simp_all add: returned_386_def fun_eq_iff)
qed

lemma GET_386_segs:
  assumes "(off, v) \<in> set (segs_386 s)"
  shows "rd be (stores be a (image_386 s) (seg_stores be a (segs_386 s) m)) (at a off) = v"
proof -
  have word: "(rd be (wr be (at a i) u n) (at a j) :: 16 word) = rd be n (at a j)"
    if "i + 4 \<le> j \<or> j + 2 \<le> i" "i + 4 \<le> 80" "j + 2 \<le> 80" for i j n and u :: "32 word"
    using that apart_at [of i 4 j 2 a] apart_at [of j 2 i 4 a] by (intro rd_wr_apart) (auto simp: apart_sym)
  have half: "(rd be (wr be (at a i) u n) (at a j) :: 16 word) = rd be n (at a j)"
    if "i + 2 \<le> j \<or> j + 2 \<le> i" "i + 2 \<le> 80" "j + 2 \<le> 80" for i j n and u :: "16 word"
    using that apart_at [of i 2 j 2 a] apart_at [of j 2 i 2 a] by (intro rd_wr_apart) (auto simp: apart_sym)
  show ?thesis
    using assms by (auto simp: segs_386_def image_386_def stores_def seg_stores_def word half)
qed

interpretation i386: context_switch "exec GET_386" "exec SET_386" "\<lambda>s. regs s eax" get_ok_386 set_ok_386
    argp_386 holds_386 returned_386
proof
  fix s :: "(i386_reg, 32 word) cpu"
  assume s: "get_ok_386 s"
  show "returned_386 s (exec GET_386 s)" "regs (exec GET_386 s) eax = 0"
    by (simp_all add: GET_386_run [OF s] returned_386_def fun_eq_iff)
  have "has_words (exec GET_386 s) (argp_386 s) (image_386 s)"
    by (rule has_words_stores [where m = "seg_stores (big_endian s) (argp_386 s) (segs_386 s) (ram s)" and len = 80])
      (simp_all add: GET_386_run [OF s] image_386_def slots_def)
  then show "holds_386 (exec GET_386 s) (argp_386 s) s"
    by (auto simp: holds_386_def list_all_iff GET_386_run [OF s] GET_386_segs)
qed (simp_all add: SET_386_returns)

subsection \<open>PowerPC, ARM and MIPS\<close>

text \<open>
  These machines keep the return address in a register, so nothing is written to or read from the stack. The routines preserve the
  registers that a called function has to preserve.
\<close>

definition preserves :: "'r list \<Rightarrow> ('r, 'a) cpu \<Rightarrow> ('r, 'a) cpu \<Rightarrow> bool" where
  "preserves rs s u \<longleftrightarrow> list_all (\<lambda>r. regs u r = regs s r) rs"

definition image_power :: "(power_reg, 32 word) cpu \<Rightarrow> (nat \<times> 32 word) list" where
  "image_power s =
     [(0, regs s LR), (4, regs s CR), (8, regs s CTR), (12, regs s XER), (16, regs s (GPR 1)), (20, regs s (GPR 2)),
      (24, 1), (28, regs s (GPR 13)), (32, regs s (GPR 14)), (36, regs s (GPR 15)), (40, regs s (GPR 16)), (44, regs s
      (GPR 17)), (48, regs s (GPR 18)), (52, regs s (GPR 19)), (56, regs s (GPR 20)), (60, regs s (GPR 21)), (64, regs
      s (GPR 22)), (68, regs s (GPR 23)), (72, regs s (GPR 24)), (76, regs s (GPR 25)), (80, regs s (GPR 26)), (84,
      regs s (GPR 27)), (88, regs s (GPR 28)), (92, regs s (GPR 29)), (96, regs s (GPR 30)), (100, regs s (GPR 31))]"

definition returned_power :: "(power_reg, 32 word) cpu \<Rightarrow> (power_reg, 32 word) cpu \<Rightarrow> bool" where
  "returned_power s u \<longleftrightarrow> pc u = regs s LR \<and> preserves ([LR, CR, CTR, XER, GPR 1, GPR 2] @ map GPR [13..<32]) s u"

lemma GET_power_run:
  "ram (exec GET_power s) = stores (big_endian s) (regs s (GPR 3)) (image_power s) (ram s)"
  "regs (exec GET_power s) = (regs s)(GPR 0 := regs s LR, GPR 5 := 1, GPR 6 := regs s CTR, GPR 7 := regs s XER, GPR 3 := 0)"
  "pc (exec GET_power s) = regs s LR" "big_endian (exec GET_power s) = big_endian s"
proof -
  have "exec GET_power s = exec GET_power (s\<lparr>ram := stores (big_endian s) (regs s (GPR 3)) [] (ram s)\<rparr>)"
    by (simp add: stores_Nil)
  moreover have "ram (exec GET_power (s\<lparr>ram := stores (big_endian s) (regs s (GPR 3)) [] (ram s)\<rparr>))
      = stores (big_endian s) (regs s (GPR 3)) (image_power s) (ram s)"
    by (simp add: GET_power_def asm_run image_power_def del: at_0)
  ultimately show "ram (exec GET_power s) = stores (big_endian s) (regs s (GPR 3)) (image_power s) (ram s)"
    by metis
  show "regs (exec GET_power s) = (regs s)(GPR 0 := regs s LR, GPR 5 := 1, GPR 6 := regs s CTR, GPR 7 := regs s XER, GPR 3 := 0)"
    "pc (exec GET_power s) = regs s LR" "big_endian (exec GET_power s) = big_endian s"
    by (simp_all add: GET_power_def rdm_def wrm_def setr_def fun_upd_twist)
qed

lemma SET_power_returns:
  assumes "has_words t (regs t (GPR 3)) (image_power s)"
  shows "returned_power s (exec SET_power t)" and "regs (exec SET_power t) (GPR 3) = 1"
  using assms
  by (simp_all add: SET_power_def returned_power_def preserves_def image_power_def has_words_def rdm_def setr_def upt_rec_numeral)

interpretation power: context_switch "exec GET_power" "exec SET_power" "\<lambda>s. regs s (GPR 3)" "\<lambda>_. True" "\<lambda>_. True"
    "\<lambda>s. regs s (GPR 3)" "\<lambda>t a s. has_words t a (image_power s)" returned_power
proof
  fix s :: "(power_reg, 32 word) cpu"
  show "returned_power s (exec GET_power s)" "regs (exec GET_power s) (GPR 3) = 0"
    by (simp_all add: GET_power_run returned_power_def preserves_def upt_rec_numeral)
  show "has_words (exec GET_power s) (regs s (GPR 3)) (image_power s)"
    by (rule has_words_stores [where m = "ram s" and len = 104])
      (simp_all add: GET_power_run image_power_def slots_def)
qed (simp_all add: SET_power_returns)

definition image_arm :: "(nat, 32 word) cpu \<Rightarrow> (nat \<times> 32 word) list" where
  "image_arm s =
     [(4, regs s 1), (8, regs s 2), (12, regs s 3), (16, regs s 4), (20, regs s 5), (24, regs s 6), (28, regs s 7),
      (32, regs s 8), (36, regs s 9), (40, regs s 10), (44, regs s 11), (48, regs s 12), (52, regs s 13), (56, regs s
      14), (0, 1)]"

definition returned_arm :: "(nat, 32 word) cpu \<Rightarrow> (nat, 32 word) cpu \<Rightarrow> bool" where
  "returned_arm s u \<longleftrightarrow> pc u = regs s 14 \<and> preserves [2..<15] s u"

lemma GET_arm_run:
  "ram (exec GET_arm s) = stores (big_endian s) (regs s 0) (image_arm s) (ram s)"
  "regs (exec GET_arm s) = (regs s)(1 := 1, 0 := 0)"
  "pc (exec GET_arm s) = regs s 14" "big_endian (exec GET_arm s) = big_endian s"
proof -
  have "exec GET_arm s = exec GET_arm (s\<lparr>ram := stores (big_endian s) (regs s 0) [] (ram s)\<rparr>)"
    by (simp add: stores_Nil)
  moreover have "ram (exec GET_arm (s\<lparr>ram := stores (big_endian s) (regs s 0) [] (ram s)\<rparr>))
      = stores (big_endian s) (regs s 0) (image_arm s) (ram s)"
    by (simp add: GET_arm_def asm_run image_arm_def del: at_0 One_nat_def)
  ultimately show "ram (exec GET_arm s) = stores (big_endian s) (regs s 0) (image_arm s) (ram s)"
    by metis
  show "regs (exec GET_arm s) = (regs s)(1 := 1, 0 := 0)"
    "pc (exec GET_arm s) = regs s 14" "big_endian (exec GET_arm s) = big_endian s"
    by (simp_all add: GET_arm_def rdm_def wrm_def setr_def)
qed

lemma SET_arm_returns:
  assumes "has_words t (regs t 0) (image_arm s)"
  shows "returned_arm s (exec SET_arm t)" and "regs (exec SET_arm t) 0 = 1"
  using assms
  by (simp_all add: SET_arm_def returned_arm_def preserves_def image_arm_def has_words_def rdm_def setr_def upt_rec_numeral)

interpretation arm: context_switch "exec GET_arm" "exec SET_arm" "\<lambda>s. regs s 0" "\<lambda>_. True" "\<lambda>_. True"
    "\<lambda>s. regs s 0" "\<lambda>t a s. has_words t a (image_arm s)" returned_arm
proof
  fix s :: "(nat, 32 word) cpu"
  show "returned_arm s (exec GET_arm s)" "regs (exec GET_arm s) 0 = 0"
    by (simp_all add: GET_arm_run returned_arm_def preserves_def upt_rec_numeral)
  show "has_words (exec GET_arm s) (regs s 0) (image_arm s)"
    by (rule has_words_stores [where m = "ram s" and len = 60])
      (simp_all add: GET_arm_run image_arm_def slots_def)
qed (simp_all add: SET_arm_returns)

text \<open>The routines of MIPS neither save nor load register 2, in which a function returns its result.\<close>

definition image_mips :: "(nat, 32 word) cpu \<Rightarrow> (nat \<times> 32 word) list" where
  "image_mips s =
     [(24, regs s 4), (28, regs s 5), (32, regs s 6), (36, regs s 7), (72, regs s 16), (76, regs s 17), (80, regs s 18),
      (84, regs s 19), (88, regs s 20), (92, regs s 21), (96, regs s 22), (100, regs s 23), (120, regs s 28), (124, regs s 29),
      (128, regs s 30), (132, regs s 31)]"

definition returned_mips :: "(nat, 32 word) cpu \<Rightarrow> (nat, 32 word) cpu \<Rightarrow> bool" where
  "returned_mips s u \<longleftrightarrow> pc u = regs s 31 \<and> preserves [16, 17, 18, 19, 20, 21, 22, 23, 28, 29, 30] s u"

lemma GET_mips_run:
  "ram (exec GET_mips s) = stores (big_endian s) (regs s 4) (image_mips s) (ram s)"
  "regs (exec GET_mips s) = (regs s)(2 := 0)"
  "pc (exec GET_mips s) = regs s 31" "big_endian (exec GET_mips s) = big_endian s"
proof -
  have "exec GET_mips s = exec GET_mips (s\<lparr>ram := stores (big_endian s) (regs s 4) [] (ram s)\<rparr>)"
    by (simp add: stores_Nil)
  moreover have "ram (exec GET_mips (s\<lparr>ram := stores (big_endian s) (regs s 4) [] (ram s)\<rparr>))
      = stores (big_endian s) (regs s 4) (image_mips s) (ram s)"
    by (simp add: GET_mips_def asm_run image_mips_def)
  ultimately show "ram (exec GET_mips s) = stores (big_endian s) (regs s 4) (image_mips s) (ram s)"
    by metis
  show "regs (exec GET_mips s) = (regs s)(2 := 0)"
    "pc (exec GET_mips s) = regs s 31" "big_endian (exec GET_mips s) = big_endian s"
    by (simp_all add: GET_mips_def rdm_def wrm_def setr_def)
qed

lemma SET_mips_run:
  "has_words t (regs t 4) (image_mips s) \<Longrightarrow> returned_mips s (exec SET_mips t)"
  "regs (exec SET_mips t) 2 = regs t 2" "ram (exec SET_mips t) = ram t" "big_endian (exec SET_mips t) = big_endian t"
  by (simp_all add: SET_mips_def returned_mips_def preserves_def image_mips_def has_words_def rdm_def setr_def)

interpretation mips: context_save "exec GET_mips" "exec SET_mips" "\<lambda>s. regs s 2" "\<lambda>_. True" "\<lambda>_. True"
    "\<lambda>s. regs s 4" "\<lambda>t a s. has_words t a (image_mips s)" returned_mips
proof
  fix s :: "(nat, 32 word) cpu"
  show "returned_mips s (exec GET_mips s)" "regs (exec GET_mips s) 2 = 0"
    by (simp_all add: GET_mips_run returned_mips_def preserves_def)
  show "has_words (exec GET_mips s) (regs s 4) (image_mips s)"
    by (rule has_words_stores [where m = "ram s" and len = 136])
      (simp_all add: GET_mips_run image_mips_def slots_def)
qed (simp_all add: SET_mips_run)

section \<open>Switching\<close>

text \<open>Saving one context leaves the others alone.\<close>

lemma has_words_frame:
  fixes s :: "('r, 'w::len word) cpu"
  assumes "has_words s a ws" and "ram s' = stores (big_endian s) b ws' (ram s)" and "big_endian s' = big_endian s"
    and "slots (LENGTH('w) div 8) len' (map fst ws')" and "slots (LENGTH('w) div 8) len (map fst ws)"
    and "apart b len' a len" and "8 \<le> LENGTH('w)"
  shows "has_words s' a ws"
proof -
  have "rdm s' (at a off) = rdm s (at a off)" if "(off, v) \<in> set ws" for off v
  proof -
    have "apart (at a off) (LENGTH('w) div 8) b len'"
      using that assms(5-7) by (intro apart_part [of a len]) (auto simp: slots_def list_all_iff apart_sym div_greater_zero_iff)
    then show ?thesis
      using assms by (simp add: rdm_def rd_stores_apart apart_sym [of "at a off"])
  qed
  then show ?thesis
    using assms(1) by (auto simp: has_words_def list_all_iff)
qed

text \<open>
  C21: on amd64, \<^verbatim>\<open>swapcontext\<close> saves the registers of its caller and goes on where the context it loads was saved, with the
  registers saved there; the call of \<^verbatim>\<open>swapcontext\<close> that saved it returns. When later the caller's own context is loaded, whatever has
  happened to the registers and the rest of the memory, its call returns too, with its registers.
\<close>

theorem amd64_swap:
  fixes call call' :: "(amd64_reg, 64 word) cpu \<Rightarrow> (amd64_reg, 64 word) cpu"
  assumes "get_ok_amd64 s" and "set_ok_amd64 (call (exec GET_amd64 s))"
    and "has_words (call (exec GET_amd64 s)) (regs (call (exec GET_amd64 s)) rdi) (image_amd64 s0)"
    and "set_ok_amd64 t" and "regs t rdi = regs s rdi" and "has_words t (regs s rdi) (image_amd64 s)"
  shows "(\<exists>u. swapcontext (exec GET_amd64) (exec SET_amd64) (\<lambda>s. regs s rax) call s = Inl u
        \<and> returned_amd64 s0 u \<and> swap_rest (exec SET_amd64) (\<lambda>s. regs s rax) call' u = Inr u)
    \<and> has_words (exec GET_amd64 s) (regs s rdi) (image_amd64 s)
    \<and> returned_amd64 s (exec SET_amd64 t)
    \<and> swap_rest (exec SET_amd64) (\<lambda>s. regs s rax) call' (exec SET_amd64 t) = Inr (exec SET_amd64 t)"
  using amd64.swap_switches [where call = call and call' = call', OF assms(1-3)] amd64.swap_comes_back [OF assms(1,4-6)]
  by blast

text \<open>Two contexts, at 4096 and 8192: the second was saved first, then the first one switches to it.\<close>

definition second_ctx :: "(amd64_reg, 64 word) cpu" where
  "second_ctx = \<lparr>regs = (\<lambda>_. 7)(rdi := 8192, rsp := 40960), segs = \<lambda>_. 0, pc = 0, ram = \<lambda>_. 0, big_endian = False\<rparr>"

definition first_ctx :: "(amd64_reg, 64 word) cpu" where
  "first_ctx = (exec GET_amd64 second_ctx)\<lparr>regs := (\<lambda>_. 5)(rdi := 4096, rsp := 32768)\<rparr>"

theorem amd64_swap_witness:
  "\<exists>u. swapcontext (exec GET_amd64) (exec SET_amd64) (\<lambda>s. regs s rax) (setr rdi 8192) first_ctx = Inl u
     \<and> returned_amd64 second_ctx u \<and> swap_rest (exec SET_amd64) (\<lambda>s. regs s rax) id u = Inr u
     \<and> returned_amd64 first_ctx (exec SET_amd64 (exec GET_amd64 first_ctx))"
proof -
  have ok2: "get_ok_amd64 second_ctx"
    by (simp add: get_ok_amd64_def second_ctx_def apart_def)
  have ok1: "get_ok_amd64 first_ctx"
    by (simp add: get_ok_amd64_def first_ctx_def apart_def)
  have rdi1: "regs first_ctx rdi = 4096"
    by (simp add: first_ctx_def)
  note run = GET_amd64_run [OF ok1]
  let ?t = "exec GET_amd64 first_ctx"
  have "has_words first_ctx 8192 (image_amd64 second_ctx)"
    using amd64.get_holds [OF ok2] by (simp add: has_words_def rdm_def first_ctx_def second_ctx_def)
  then have "has_words ?t 8192 (image_amd64 second_ctx)"
    by (rule has_words_frame [where b = 4096 and ws' = "image_amd64 first_ctx" and len = 192 and len' = 192])
      (simp_all add: run rdi1 image_amd64_def slots_def apart_def)
  then have h: "has_words (setr rdi 8192 ?t) (regs (setr rdi 8192 ?t) rdi) (image_amd64 second_ctx)"
    by (simp add: has_words_def rdm_def setr_def)
  have r: "rdm (setr rdi 8192 ?t) (at 8192 184) = 40968"
    using h by (simp add: has_words_def image_amd64_def setr_def second_ctx_def at_def)
  then have ok3: "set_ok_amd64 (setr rdi 8192 ?t)"
    by (simp add: set_ok_amd64_def setr_def apart_def)
  have h1: "has_words ?t (regs first_ctx rdi) (image_amd64 first_ctx)"
    by (rule amd64.get_holds [OF ok1])
  have rdi: "regs ?t rdi = regs first_ctx rdi"
    by (simp add: run)
  have "rdm ?t (at 4096 184) = 32776"
    using h1 by (simp add: has_words_def image_amd64_def first_ctx_def at_def)
  then have ok4: "set_ok_amd64 ?t"
    using rdi by (simp add: set_ok_amd64_def apart_def first_ctx_def)
  show ?thesis
    using amd64_swap [where call = "setr rdi 8192" and call' = id, OF ok1 ok3 h ok4 rdi h1] by blast
qed

text \<open>
  C35: on MIPS it is left to chance whether a call of \<^verbatim>\<open>swapcontext\<close> returns. The call saves its context and loads another one, \<open>x\<close>, which goes on behind its call of
  \<^verbatim>\<open>getcontext\<close> with the registers it had, except for register 2, the result of \<^verbatim>\<open>getcontext\<close>: no routine stores or loads it, so it is what the caller of
  \<^verbatim>\<open>setcontext\<close> had in it. If that is 0, the call that \<open>x\<close> is in does not return but loads its target once more; otherwise it returns.
\<close>

theorem mips_swap_by_chance:
  assumes "v = call (exec GET_mips s)" and "has_words v (regs v 4) (image_mips x)"
  shows "swapcontext (exec GET_mips) (exec SET_mips) (\<lambda>s. regs s 2) call s = Inl (exec SET_mips v) \<and> returned_mips x (exec SET_mips v)
    \<and> swap_rest (exec SET_mips) (\<lambda>s. regs s 2) call' (exec SET_mips v)
        = (if regs v 2 = 0 then Inl (exec SET_mips (call' (exec SET_mips v))) else Inr (exec SET_mips v))"
  using assms by (simp add: swapcontext_def swap_rest_def GET_mips_run SET_mips_run)

text \<open>The context at 8192 was saved first; the one at 4096 loads it, once with 0 and once with 5 in register 2.\<close>

definition mips_ctx :: "32 word \<Rightarrow> (nat, 32 word) cpu \<Rightarrow> (nat, 32 word) cpu" where
  "mips_ctx r s = setr 2 r (setr 4 8192 s)"

theorem mips_swap_by_chance_witness:
  "\<exists>s u v. swapcontext (exec GET_mips) (exec SET_mips) (\<lambda>s. regs s 2) (mips_ctx 0) s = Inl u
     \<and> swap_rest (exec SET_mips) (\<lambda>s. regs s 2) id u = Inl (exec SET_mips u)
     \<and> swapcontext (exec GET_mips) (exec SET_mips) (\<lambda>s. regs s 2) (mips_ctx 5) s = Inl v
     \<and> swap_rest (exec SET_mips) (\<lambda>s. regs s 2) id v = Inr v"
proof -
  let ?x = "\<lparr>regs = (\<lambda>_. 7)(4 := 8192), segs = \<lambda>_. 0, pc = 0, ram = \<lambda>_. 0, big_endian = True\<rparr> :: (nat, 32 word) cpu"
  let ?s = "(exec GET_mips ?x)\<lparr>regs := (\<lambda>_. 5)(4 := 4096)\<rparr>" and ?v = "\<lambda>r. mips_ctx r (exec GET_mips ((exec GET_mips ?x)\<lparr>regs := (\<lambda>_. 5)(4 := 4096)\<rparr>))"
  have "has_words ?s 8192 (image_mips ?x)"
    using mips.get_holds [of ?x] by (simp add: has_words_def rdm_def GET_mips_run)
  then have "has_words (exec GET_mips ?s) 8192 (image_mips ?x)"
    by (rule has_words_frame [where b = 4096 and ws' = "image_mips ?s" and len = 192 and len' = 192])
      (simp_all add: GET_mips_run image_mips_def slots_def apart_def)
  then have h: "has_words (?v r) (regs (?v r) 4) (image_mips ?x)" for r
    by (simp add: has_words_def rdm_def mips_ctx_def setr_def)
  have "regs (?v r) 2 = r" for r by (simp add: mips_ctx_def setr_def)
  then show ?thesis
    using mips_swap_by_chance [where call = "mips_ctx 0" and s = ?s and call' = id, OF refl h [of 0]]
      mips_swap_by_chance [where call = "mips_ctx 5" and s = ?s and call' = id, OF refl h [of 5]]
    by (intro exI [of _ ?s] exI [of _ "exec SET_mips (?v 0)"] exI [of _ "exec SET_mips (?v 5)"]) simp
qed

end
