(* ===== verification/Uctx_Entry.thy ===== *)
theory Uctx_Entry
  imports Uctx_Correct
begin

text \<open>
  New contexts: what \<^verbatim>\<open>makecontext\<close> leaves in the structure and on the stack makes \<open>SET\<close> enter the function, with its
  arguments in place and a stack pointer inside of the stack and aligned as the calling convention wants it. The offsets of the
  assembler routines are compared with those that follow from the structures.
\<close>

section \<open>The stack pointer of a new context\<close>

lemma unat_sub_le: "unat b \<le> unat a \<Longrightarrow> unat (a - b) = unat a - unat b"
  by (simp add: unat_sub_if')

lemma unat_top:
  fixes p sz k :: "'w::len word"
  assumes "unat p + unat sz < 2 ^ LENGTH('w)"
  shows "unat (p + k * (sz div k)) = unat p + unat k * (unat sz div unat k)"
proof -
  have le: "unat k * (unat sz div unat k) \<le> unat sz" by (simp add: times_div_less_eq_dividend)
  have "unat k * unat (sz div k) < 2 ^ LENGTH('w)"
    using le assms by (simp only: unat_div)
  then have "unat (k * (sz div k)) = unat k * (unat sz div unat k)"
    by (simp only: unat_mult_lem [THEN iffD1] unat_div)
  then show ?thesis
    using le assms by (metis add_le_cancel_left le_less_trans unat_add_lem)
qed

lemma unat_align: 
  fixes a k :: "'w::len word"
  shows "unat (a - a mod k) = unat a - unat a mod unat k"
  by (simp add: unat_sub_le unat_mod)

text \<open>The stack pointer of a new context: below the arguments, aligned, with room for the return address.\<close>

lemma stack_top:
  fixes p sz k n :: "'w::len word"
  assumes "unat p + unat sz < 2 ^ LENGTH('w)" and "unat (k * n) + 16 + 3 * unat k \<le> unat sz" and "(16 :: nat) < 2 ^ LENGTH('w)"
    and "0 < unat k" and "unat k dvd 16"
  defines "sp \<equiv> p + k * (sz div k) - k * n - (p + k * (sz div k) - k * n) mod 16"
  shows "unat sp mod 16 = 0" "unat p + 2 * unat k \<le> unat sp" "unat sp + unat (k * n) \<le> unat p + unat sz"
proof -
  let ?t = "p + k * (sz div k)"
  have t: "unat ?t = unat p + unat k * (unat sz div unat k)"
    by (rule unat_top [OF assms(1)])
  have lo: "unat sz < unat k * (unat sz div unat k) + unat k" "unat k * (unat sz div unat k) \<le> unat sz"
    using dividend_less_times_div [OF assms(4), of "unat sz"] by (simp_all add: times_div_less_eq_dividend add.commute)
  have y: "unat (?t - k * n) = unat ?t - unat (k * n)"
    using lo assms(2) t by (intro unat_sub_le) linarith
  have sp: "unat sp = unat (?t - k * n) - unat (?t - k * n) mod 16"
    using assms(3) unat_align [of "?t - k * n" 16] by (simp add: sp_def unsigned_numeral take_bit_nat_eq_self)
  have m: "unat (?t - k * n) mod 16 < 16" "unat (?t - k * n) mod 16 \<le> unat (?t - k * n)" by simp_all
  show "unat sp mod 16 = 0" by (simp add: sp minus_mod_eq_mult_div)
  show "unat p + 2 * unat k \<le> unat sp" "unat sp + unat (k * n) \<le> unat p + unat sz"
    using sp y t lo m assms(2) by linarith+
qed
section \<open>amd64\<close>

definition stack_amd64 :: "64 word ucontext \<Rightarrow> bool" where
  "stack_amd64 ucp \<longleftrightarrow> unat (ss_sp ucp) + unat (ss_size ucp) < 2 ^ 64 \<and> 64 \<le> unat (ss_size ucp)
     \<and> apart (uc_mcontext ucp) (size_of 8 mcontext_amd64) (ss_sp ucp) (unat (ss_size ucp))"

definition sp_amd64 :: "64 word ucontext \<Rightarrow> 64 word" where
  "sp_amd64 ucp = (let sp = ss_sp ucp + 8 * (ss_size ucp div 8) - 16 in sp - sp mod 16 - 8)"

lemma below_16:
  assumes "x mod 16 = 0" and "16 \<le> x" and "0 < d" and "d < 16"
  shows "(x - d) mod 16 = (16 - d :: nat)"
proof -
  obtain q where "x = 16 * q" using assms(1) by (metis mod_0_imp_dvd dvdE)
  with assms(2) obtain r where "x = 16 * r + 16" by (cases q) auto
  with assms(3,4) have "x - d = 16 * r + (16 - d)" by simp
  moreover have "16 - d < 16" using assms(3) by simp
  ultimately show ?thesis by (metis mod_mult_self4 mod_less)
qed

lemma sp_amd64_bounds:
  assumes "stack_amd64 ucp"
  shows "unat (sp_amd64 ucp) mod 16 = 8" "unat (ss_sp ucp) + 8 \<le> unat (sp_amd64 ucp)"
    "unat (sp_amd64 ucp) + 24 \<le> unat (ss_sp ucp) + unat (ss_size ucp)"
proof -
  let ?sp = "ss_sp ucp + 8 * (ss_size ucp div 8) - 16 - (ss_sp ucp + 8 * (ss_size ucp div 8) - 16) mod 16"
  have sp: "unat ?sp mod 16 = 0" "unat (ss_sp ucp) + 16 \<le> unat ?sp" "unat ?sp + 16 \<le> unat (ss_sp ucp) + unat (ss_size ucp)"
    using assms stack_top [of "ss_sp ucp" "ss_size ucp" 8 2] by (simp_all add: stack_amd64_def)
  moreover have "unat (sp_amd64 ucp) = unat ?sp - 8"
    using sp(2) unat_sub_le [of 8 ?sp] by (simp add: sp_amd64_def Let_def)
  ultimately show "unat (sp_amd64 ucp) mod 16 = 8" "unat (ss_sp ucp) + 8 \<le> unat (sp_amd64 ucp)"
    "unat (sp_amd64 ucp) + 24 \<le> unat (ss_sp ucp) + unat (ss_size ucp)"
    using below_16 [of "unat ?sp" 8] by simp_all
qed


lemma within_stack:
  fixes a p q :: "'w::len word"
  assumes "apart a len p n" and "unat p \<le> unat q" and "unat q + k \<le> unat p + n" and "0 < k"
  shows "apart q k a len"
proof -
  have "q = at p (unat q - unat p)"
    using assms(2) by (simp add: at_def of_nat_diff)
  then show ?thesis
    using apart_part [of p n a len "unat q - unat p" k] assms by (simp add: apart_sym [of a])
qed

lemma rd_wr_at:
  assumes "i + LENGTH('v) div 8 \<le> j \<or> j + LENGTH('u) div 8 \<le> i" and "0 < LENGTH('v) div 8" and "0 < LENGTH('u) div 8"
    and "j + LENGTH('u) div 8 \<le> 2 ^ LENGTH('w)" and "i + LENGTH('v) div 8 \<le> 2 ^ LENGTH('w)"
  shows "(rd be (wr be (at (a :: 'w::len word) i) (v :: 'v::len word) m) (at a j) :: 'u::len word) = rd be m (at a j)"
  using assms apart_at [of i "LENGTH('v) div 8" j "LENGTH('u) div 8" a] apart_at [of j "LENGTH('u) div 8" i "LENGTH('v) div 8" a]
  by (intro rd_wr_apart) (auto simp: apart_sym)

lemma amd64_part_apart:
  assumes "stack_amd64 ucp" and "unat (ss_sp ucp) \<le> unat q" and "unat q + k \<le> unat (ss_sp ucp) + unat (ss_size ucp)" and "0 < k"
  shows "apart q k (uc_mcontext ucp) 800"
proof (rule within_stack)
  show "apart (uc_mcontext ucp) 800 (ss_sp ucp) (unat (ss_size ucp))"
    using assms(1) by (simp add: stack_amd64_def mcontext_amd64_def size_of_def)
qed fact+

lemma makecontext_amd64_reads:
  assumes "makecontext_amd64 ucp func 2 [a0, a1] m = Some m'" and "stack_amd64 ucp"
  shows "rd False m' (at (uc_mcontext ucp) 8) = (scast (ucast a0 :: 32 word) :: 64 word)"
    "rd False m' (at (uc_mcontext ucp) 16) = (scast (ucast a1 :: 32 word) :: 64 word)"
    "rd False m' (at (uc_mcontext ucp) 160) = func" "rd False m' (at (uc_mcontext ucp) 184) = sp_amd64 ucp"
    "rd False m' (sp_amd64 ucp) = (0 :: 64 word)"
proof -
  let ?a = "uc_mcontext ucp" and ?sp = "sp_amd64 ucp"
  have m': "m' = wr False (at ?a 184) ?sp (wr False (at ?a 160) func (wr False ?sp (0 :: 64 word)
       (wr False (at ?a 16) (scast (ucast a1 :: 32 word) :: 64 word) (wr False (at ?a 8) (scast (ucast a0 :: 32 word) :: 64 word)
         (memset_bytes ?a 800 m)))))"
    using assms(1) unfolding sp_amd64_def makecontext_amd64_def Let_def
    by (simp add: mcontext_amd64_def size_of_def diff_diff_eq add.commute)
  have out: "apart ?sp 8 ?a 800"
    using sp_amd64_bounds [OF assms(2)] by (intro amd64_part_apart [OF assms(2)]) linarith+
  have sp: "(rd False (wr False ?sp (v :: 64 word) n) (at ?a i) :: 64 word) = rd False n (at ?a i)"
    "(rd False (wr False (at ?a i) (v :: 64 word) n) ?sp :: 64 word) = rd False n ?sp"
    if "i + 8 \<le> 800" for i v n
    using apart_part [OF apart_sym [THEN iffD1, OF out] that] by (simp_all add: rd_wr_apart apart_sym [of ?sp])
  show "rd False m' (at ?a 8) = (scast (ucast a0 :: 32 word) :: 64 word)"
    "rd False m' (at ?a 16) = (scast (ucast a1 :: 32 word) :: 64 word)"
    "rd False m' (at ?a 160) = func" "rd False m' (at ?a 184) = ?sp" "rd False m' ?sp = (0 :: 64 word)"
    by (simp_all add: m' sp rd_wr_at)
qed

definition same_bytes :: "'w::len word \<Rightarrow> nat \<Rightarrow> 'w memory \<Rightarrow> 'w memory \<Rightarrow> bool" where
  "same_bytes a n m m' \<longleftrightarrow> (\<forall>i < n. m (at a i) = m' (at a i))"

lemma rd_cong:
  assumes "same_bytes a n m m'" and "off + LENGTH('u) div 8 \<le> n"
  shows "(rd be m (at a off) :: 'u::len word) = rd be m' (at a off)"
proof -
  have "m (at a off + of_nat i) = m' (at a off + of_nat i)" if "i < LENGTH('u) div 8" for i
    using assms that by (simp add: same_bytes_def at_def add.assoc flip: of_nat_add)
  then have "load_bytes (LENGTH('u) div 8) m (at a off) = load_bytes (LENGTH('u) div 8) m' (at a off)"
    by (simp add: load_bytes_def)
  then show ?thesis by (simp add: rd_def)
qed

definition enters_amd64 :: "64 word ucontext \<Rightarrow> 64 word \<Rightarrow> 64 word \<Rightarrow> 64 word \<Rightarrow> (amd64_reg, 64 word) cpu \<Rightarrow> bool" where
  "enters_amd64 ucp func a0 a1 u \<longleftrightarrow>
     pc u = func \<and> regs u rdi = scast (ucast a0 :: 32 word) \<and> regs u rsi = scast (ucast a1 :: 32 word)
     \<and> unat (regs u rsp) mod 16 = 8 \<and> unat (ss_sp ucp) + 8 \<le> unat (regs u rsp)
     \<and> unat (regs u rsp) + 8 \<le> unat (ss_sp ucp) + unat (ss_size ucp)"

text \<open>
  C22: on amd64, \<^verbatim>\<open>makecontext\<close> faults unless it is called with two arguments. With two it makes a context that enters
  the function with the lower halves of the arguments, sign-extended, in the first two argument registers, on a stack pointer that
  lies inside of the stack, is 8 above a multiple of 16, and points to the return address 0.
\<close>

theorem amd64_makecontext:
  assumes "stack_amd64 ucp"
  shows "(argc \<noteq> 2 \<longrightarrow> makecontext_amd64 ucp func argc args m = None)
    \<and> (\<exists>m'. makecontext_amd64 ucp func 2 [a0, a1] m = Some m' \<and> rd False m' (sp_amd64 ucp) = (0 :: 64 word)
      \<and> (\<forall>t. regs t rdi = uc_mcontext ucp \<and> same_bytes (uc_mcontext ucp) 192 (ram t) m' \<and> \<not> big_endian t \<longrightarrow>
           regs (exec SET_amd64 t) rsp = sp_amd64 ucp \<and> enters_amd64 ucp func a0 a1 (exec SET_amd64 t)))"
proof (intro conjI impI)
  show "makecontext_amd64 ucp func argc args m = None" if "argc \<noteq> 2"
    using that by (simp add: makecontext_amd64_def)
  obtain m' where m': "makecontext_amd64 ucp func 2 [a0, a1] m = Some m'"
    by (simp add: makecontext_amd64_def Let_def)
  note reads = makecontext_amd64_reads [OF m' assms]
  have "regs (exec SET_amd64 t) rsp = sp_amd64 ucp \<and> enters_amd64 ucp func a0 a1 (exec SET_amd64 t)"
    if t: "regs t rdi = uc_mcontext ucp" "same_bytes (uc_mcontext ucp) 192 (ram t) m'" "\<not> big_endian t" for t
  proof -
    have f: "rdm t (at (regs t rdi) off) = rd False m' (at (uc_mcontext ucp) off)" if "off + 8 \<le> 192" for off
      using t that rd_cong [where 'u = 64, OF t(2)] by (simp add: rdm_def)
    have "unat (sp_amd64 ucp - 8) = unat (sp_amd64 ucp) - 8"
      using sp_amd64_bounds [OF assms] unat_sub_le [of 8 "sp_amd64 ucp"] by simp
    then have "apart (sp_amd64 ucp - 8) 8 (uc_mcontext ucp) 800"
      using sp_amd64_bounds [OF assms] by (intro amd64_part_apart [OF assms]) linarith+
    then have "apart (sp_amd64 ucp - 8) 8 (uc_mcontext ucp) 192"
      by (simp add: apart_def)
    then have ok: "set_ok_amd64 t"
      using f [of 184] reads t by (simp add: set_ok_amd64_def apart_sym)
    show ?thesis
      using sp_amd64_bounds [OF assms] by (simp add: enters_amd64_def SET_amd64_run [OF ok] f reads)
  qed
  then show "\<exists>m'. makecontext_amd64 ucp func 2 [a0, a1] m = Some m' \<and> rd False m' (sp_amd64 ucp) = (0 :: 64 word)
      \<and> (\<forall>t. regs t rdi = uc_mcontext ucp \<and> same_bytes (uc_mcontext ucp) 192 (ram t) m' \<and> \<not> big_endian t \<longrightarrow>
           regs (exec SET_amd64 t) rsp = sp_amd64 ucp \<and> enters_amd64 ucp func a0 a1 (exec SET_amd64 t))"
    using m' reads(5) by blast
qed

definition ctx_amd64 :: "64 word ucontext" where
  "ctx_amd64 = \<lparr>uc_mcontext = 4096, ss_sp = 65536, ss_size = 16384\<rparr>"

theorem amd64_makecontext_witness:
  "stack_amd64 ctx_amd64 \<and> makecontext_amd64 ctx_amd64 4194304 1 [1234] (\<lambda>_. 0) = None
   \<and> (\<exists>m'. makecontext_amd64 ctx_amd64 4194304 2 [1234, 0] (\<lambda>_. 0) = Some m'
        \<and> enters_amd64 ctx_amd64 4194304 1234 0
             (exec SET_amd64 \<lparr>regs = \<lambda>_. 4096, segs = \<lambda>_. 0, pc = 0, ram = m', big_endian = False\<rparr>))"
proof -
  have ok: "stack_amd64 ctx_amd64"
    by (simp add: stack_amd64_def ctx_amd64_def apart_def size_of_def mcontext_amd64_def)
  show ?thesis
    using ok amd64_makecontext [OF ok, of 1 4194304 "[1234]" "\<lambda>_. 0" 1234 0]
    by (auto simp: same_bytes_def ctx_amd64_def)
qed

section \<open>386\<close>

definition sp_386 :: "32 word ucontext \<Rightarrow> 32 word \<Rightarrow> 32 word" where
  "sp_386 ucp argc = (let sp = ss_sp ucp + 4 * (ss_size ucp div 4) - 4 * argc in sp - sp mod 16 - 4)"

definition stack_386 :: "32 word ucontext \<Rightarrow> 32 word \<Rightarrow> bool" where
  "stack_386 ucp argc \<longleftrightarrow> unat (ss_sp ucp) + unat (ss_size ucp) < 2 ^ 32 \<and> 4 * unat argc + 32 \<le> unat (ss_size ucp)
     \<and> apart (uc_mcontext ucp) (size_of 4 mcontext_386) (ss_sp ucp) (unat (ss_size ucp))"

lemma sp_386_bounds:
  assumes "stack_386 ucp argc"
  shows "unat (sp_386 ucp argc) mod 16 = 12" "unat (ss_sp ucp) + 4 \<le> unat (sp_386 ucp argc)"
    "unat (sp_386 ucp argc) + 4 + 4 * unat argc \<le> unat (ss_sp ucp) + unat (ss_size ucp)"
proof -
  let ?t = "ss_sp ucp + 4 * (ss_size ucp div 4) - 4 * argc"
  let ?sp = "?t - ?t mod 16"
  have n: "unat (4 * argc) = 4 * unat argc"
    using assms unat_mult_lem [of 4 argc] by (simp add: stack_386_def)
  then have sp: "unat ?sp mod 16 = 0" "unat (ss_sp ucp) + 8 \<le> unat ?sp"
    "unat ?sp + 4 * unat argc \<le> unat (ss_sp ucp) + unat (ss_size ucp)"
    using assms stack_top [of "ss_sp ucp" "ss_size ucp" 4 argc] by (simp_all add: stack_386_def)
  moreover have "unat (sp_386 ucp argc) = unat ?sp - 4"
    using sp(2) unat_sub_le [of 4 ?sp] by (simp add: sp_386_def Let_def)
  moreover have "16 \<le> unat ?sp"
    using sp(1,2) by (cases "unat ?sp < 16") auto
  ultimately show "unat (sp_386 ucp argc) mod 16 = 12" "unat (ss_sp ucp) + 4 \<le> unat (sp_386 ucp argc)"
    "unat (sp_386 ucp argc) + 4 + 4 * unat argc \<le> unat (ss_sp ucp) + unat (ss_size ucp)"
    using below_16 [of "unat ?sp" 4] by simp_all
qed

lemma i386_part_apart:
  assumes "stack_386 ucp argc" and "unat (ss_sp ucp) \<le> unat q" and "unat q + k \<le> unat (ss_sp ucp) + unat (ss_size ucp)" and "0 < k"
  shows "apart q k (uc_mcontext ucp) 260"
proof (rule within_stack)
  show "apart (uc_mcontext ucp) 260 (ss_sp ucp) (unat (ss_size ucp))"
    using assms(1) by (simp add: stack_386_def mcontext_386_def size_of_def)
qed fact+

lemma fold_wr_stores:
  "fold (\<lambda>i. wr be (at a (4 * i)) (xs ! i)) [0..<n] m = stores be a (map (\<lambda>i. (4 * i, xs ! i)) [0..<n]) m"
  by (simp add: stores_def fold_map comp_def)

lemma rd_args_386:
  fixes q :: "32 word"
  assumes "i < n" and "4 * n \<le> 2 ^ 32"
  shows "rd False (stores False q (map (\<lambda>i. (4 * i, xs ! i)) [0..<n]) m) (at q (4 * i)) = xs ! i"
proof -
  have "slots 4 (4 * n) (map fst (map (\<lambda>i. (4 * i, xs ! i)) [0..<n]))"
    by (auto simp: slots_def distinct_map list_all_iff inj_on_def)
  then show ?thesis
    using assms by (intro rd_stores [where len = "4 * n"]) auto
qed

lemma makecontext_386_reads:
  assumes "makecontext_386 ucp func argc args m = Some m'" and "stack_386 ucp argc"
  shows "rd False m' (at (uc_mcontext ucp) 60) = func" "rd False m' (at (uc_mcontext ucp) 72) = sp_386 ucp argc"
    "rd False m' (sp_386 ucp argc) = (0 :: 32 word)"
    "i < unat argc \<Longrightarrow> rd False m' (at (sp_386 ucp argc) (4 + 4 * i)) = args ! i"
proof -
  let ?a = "uc_mcontext ucp" and ?sp = "sp_386 ucp argc"
  let ?ws = "map (\<lambda>i. (4 * i, args ! i)) [0..<unat argc]"
  have m': "m' = wr False (at ?a 72) ?sp (wr False (at ?a 60) func (wr False (at ?sp 0) (0 :: 32 word)
       (stores False (at ?sp 4) ?ws m)))"
    using assms(1) unfolding sp_386_def makecontext_386_def Let_def fold_wr_stores
    by (simp add: mcontext_386_def at_def split: if_splits)
  note b = sp_386_bounds [OF assms(2)]
  have all: "4 + 4 * unat argc < 2 ^ 32"
    using b assms(2) by (simp add: stack_386_def)
  have out: "apart ?sp (4 + 4 * unat argc) ?a 260"
    using b by (intro i386_part_apart [OF assms(2)]) linarith+
  have part: "apart (at ?sp j) 4 (at ?a i) 4" if "i + 4 \<le> 260" "j + 4 \<le> 4 + 4 * unat argc" for i j
    using apart_part [OF out, of j 4] apart_part [of ?a 260 "at ?sp j" 4 i 4] that by (simp add: apart_sym [of _ _ "at ?sp j"])
  have sp: "(rd False (wr False (at ?a i) (v :: 32 word) n) (at ?sp j) :: 32 word) = rd False n (at ?sp j)"
    if "i + 4 \<le> 260" "j + 4 \<le> 4 + 4 * unat argc" for i j v n
    using part [OF that] by (simp add: rd_wr_apart apart_sym [of "at ?a i"])
  show "rd False m' (at ?a 60) = func" "rd False m' (at ?a 72) = ?sp"
    by (simp_all add: m' rd_wr_at)
  show "rd False m' ?sp = (0 :: 32 word)"
    using sp [of _ 0] by (simp add: m')
  show "rd False m' (at ?sp (4 + 4 * i)) = args ! i" if "i < unat argc"
    using that all sp [of _ "4 + 4 * i"] rd_args_386 [of i "unat argc" "at ?sp 4" args m]
    by (simp add: m' rd_wr_at [of 0 "4 + 4 * i"] del: at_0)
qed

lemma sint_small:
  assumes "unat (a :: 32 word) < 2 ^ 31" shows "sint a = int (unat a)"
proof -
  have "int (unat a) < int (2 ^ 31)"
    using assms by (simp only: of_nat_less_iff)
  then have "int (unat a) < 2 ^ 31"
    by simp
  moreover have "- (2 ^ 31) \<le> int (unat a)"
    by (rule order_trans [of _ 0]) simp_all
  ultimately have "signed_take_bit 31 (int (unat a)) = int (unat a)"
    by (rule signed_take_bit_int_eq_self [rotated])
  moreover have "sint a = signed_take_bit 31 (int (unat a))"
    by (simp add: sint_uint)
  ultimately show ?thesis by (simp only:)
qed
text \<open>
  On the 386, \<^verbatim>\<open>makecontext\<close> makes a context that enters the function with its arguments above the return address 0, with the
  first argument at a multiple of 16, everything inside of the stack.
\<close>

theorem i386_makecontext:
  assumes "stack_386 ucp argc" and "unat argc \<le> length args"
  shows "\<exists>m'. makecontext_386 ucp func argc args m = Some m'
    \<and> rd False m' (sp_386 ucp argc) = (0 :: 32 word)
    \<and> (\<forall>i < unat argc. rd False m' (at (sp_386 ucp argc) (4 + 4 * i)) = args ! i)
    \<and> unat (sp_386 ucp argc) mod 16 = 12 \<and> unat (ss_sp ucp) + 4 \<le> unat (sp_386 ucp argc)
    \<and> unat (sp_386 ucp argc) + 4 + 4 * unat argc \<le> unat (ss_sp ucp) + unat (ss_size ucp)
    \<and> (\<forall>t. argp_386 t = uc_mcontext ucp \<and> same_bytes (uc_mcontext ucp) 80 (ram t) m' \<and> \<not> big_endian t \<longrightarrow>
         pc (exec SET_386 t) = func \<and> regs (exec SET_386 t) esp = sp_386 ucp argc)"
proof -
  have small: "4 * unat argc + 32 < 2 ^ 32"
    using assms(1) by (simp add: stack_386_def)
  then have "0 \<le> sint argc"
    by (simp add: sint_small)
  then obtain m' where m': "makecontext_386 ucp func argc args m = Some m'"
    using assms(2) by (simp add: makecontext_386_def Let_def)
  note reads = makecontext_386_reads [OF m' assms(1)] and b = sp_386_bounds [OF assms(1)]
  have "pc (exec SET_386 t) = func \<and> regs (exec SET_386 t) esp = sp_386 ucp argc"
    if t: "argp_386 t = uc_mcontext ucp" "same_bytes (uc_mcontext ucp) 80 (ram t) m'" "\<not> big_endian t" for t
  proof -
    have f: "rdm t (at (argp_386 t) off) = rd False m' (at (uc_mcontext ucp) off)" if "off + 4 \<le> 80" for off
      using t that rd_cong [where 'u = 32, OF t(2)] by (simp add: rdm_def)
    have "unat (sp_386 ucp argc - 4) = unat (sp_386 ucp argc) - 4"
      using b unat_sub_le [of 4 "sp_386 ucp argc"] by simp
    then have "apart (sp_386 ucp argc - 4) 4 (uc_mcontext ucp) 260"
      using b by (intro i386_part_apart [OF assms(1)]) linarith+
    then have ok: "set_ok_386 t"
      using f [of 72] reads t by (simp add: set_ok_386_def apart_def)
    show ?thesis
      by (simp add: SET_386_run [OF ok] f reads)
  qed
  then show ?thesis
    using m' reads b by blast
qed

definition ctx_386 :: "32 word ucontext" where
  "ctx_386 = \<lparr>uc_mcontext = 4096, ss_sp = 65536, ss_size = 16384\<rparr>"

theorem i386_makecontext_witness:
  "stack_386 ctx_386 1
   \<and> (\<exists>m'. makecontext_386 ctx_386 4194304 1 [134512640] (\<lambda>_. 0) = Some m'
        \<and> rd False m' (at (sp_386 ctx_386 1) 4) = (134512640 :: 32 word))"
proof -
  have ok: "stack_386 ctx_386 1"
    by (simp add: stack_386_def ctx_386_def apart_def size_of_def mcontext_386_def)
  show ?thesis
    using ok i386_makecontext [OF ok, of "[134512640]" 4194304 "\<lambda>_. 0"] by auto
qed

section \<open>PowerPC, ARM and MIPS\<close>

text \<open>
  The stack pointers of these three: 16 words below the top of the stack on PowerPC, the top itself on ARM and MIPS. Sizes and
  overlaps do not matter, since nothing is written to the stack.
\<close>

lemma power_makecontext:
  assumes "makecontext_power ucp func argc (a0 # args) m = Some m'"
    and "regs t (GPR 3) = uc_mcontext ucp" and "same_bytes (uc_mcontext ucp) 104 (ram t) m'" and "big_endian t"
  shows "pc (exec SET_power t) = func" "regs (exec SET_power t) (GPR 3) = a0"
    "regs (exec SET_power t) (GPR 1) = ss_sp ucp + 4 * (ss_size ucp div 4) - 64"
proof -
  let ?a = "uc_mcontext ucp"
  have m': "m' = wr True (at ?a 24) a0 (wr True (at ?a 16) (ss_sp ucp + 4 * (ss_size ucp div 4) - 64) (wr True (at ?a 0) func m))"
    using assms(1) by (simp add: makecontext_power_def mcontext_power_def Let_def)
  have f: "rd True (ram t) (at ?a off) = (rd True m' (at ?a off) :: 32 word)" if "off + 4 \<le> 104" for off
    using that rd_cong [where 'u = 32, OF assms(3)] by simp
  have "rd True m' (at ?a 0) = func" "rd True m' (at ?a 24) = a0"
    "rd True m' (at ?a 16) = ss_sp ucp + 4 * (ss_size ucp div 4) - 64"
    by (simp_all add: m' rd_wr_at del: at_0)
  then show "pc (exec SET_power t) = func" "regs (exec SET_power t) (GPR 3) = a0"
    "regs (exec SET_power t) (GPR 1) = ss_sp ucp + 4 * (ss_size ucp div 4) - 64"
    using f [of 0] f [of 16] f [of 24] assms by (simp_all add: SET_power_def rdm_def setr_def)
qed

text \<open>The arguments that are passed in registers are stored at consecutive places, as the other registers are.\<close>

lemma stores_reads:
  fixes a :: "32 word"
  assumes "slots 4 len (map fst ws)" and "len \<le> 136" and "(off, v) \<in> set ws"
    and "same_bytes a len m' (stores be a ws m)"
  shows "rd be m' (at a off) = v"
proof -
  have "off + 4 \<le> len"
    using assms(1,3) by (auto simp: slots_def list_all_iff)
  then have "(rd be m' (at a off) :: 32 word) = rd be (stores be a ws m) (at a off)"
    using rd_cong [where 'u = 32, OF assms(4)] by simp
  also have "\<dots> = v"
    using assms(1-3) by (intro rd_stores [where len = len]) auto
  finally show ?thesis .
qed

lemma mips_makecontext:
  assumes "makecontext_mips be uc fn 1 [a0] m = Some m'"
    and "regs t 4 = uc_mcontext uc" and "same_bytes (uc_mcontext uc) 136 (ram t) m'" and "big_endian t = be"
  shows "pc (exec SET_mips t) = fn" "regs (exec SET_mips t) 4 = a0"
    "regs (exec SET_mips t) 29 = ss_sp uc + 4 * (ss_size uc div 4)"
proof -
  let ?a = "uc_mcontext uc" and ?ws = "[(24, a0), (124, ss_sp uc + 4 * (ss_size uc div 4)), (132, fn)]"
  have "m' = stores be ?a ?ws m"
    using assms(1) by (simp add: makecontext_mips_def mcontext_mips_def Let_def stores_def)
  then have f: "rdm t (at ?a off) = v" if "(off, v) \<in> set ?ws" for off v
    using that assms stores_reads [of 136 ?ws off v ?a "ram t" be m] by (simp add: rdm_def slots_def)
  show "pc (exec SET_mips t) = fn" "regs (exec SET_mips t) 4 = a0"
    "regs (exec SET_mips t) 29 = ss_sp uc + 4 * (ss_size uc div 4)"
    using f [of 24 a0] f [of 132 fn] f [of 124] assms(2) by (simp_all add: SET_mips_def rdm_def setr_def)
qed

lemma arm_makecontext:
  assumes "makecontext_arm gregs uc fn 1 [a0] m = Some m'" and "\<forall>i. gregs i = at (uc_mcontext uc) (4 * i)"
    and "regs t 0 = uc_mcontext uc" and "same_bytes (uc_mcontext uc) 60 (ram t) m'" and "\<not> big_endian t"
  shows "pc (exec SET_arm t) = fn" "regs (exec SET_arm t) 0 = a0"
    "regs (exec SET_arm t) 13 = ss_sp uc + 4 * (ss_size uc div 4)"
proof -
  let ?a = "uc_mcontext uc" and ?ws = "[(0, a0), (52, ss_sp uc + 4 * (ss_size uc div 4)), (56, fn)]"
  have "m' = stores False ?a ?ws m"
    using assms(1,2) by (simp add: makecontext_arm_def Let_def stores_def)
  then have f: "rdm t (at ?a off) = v" if "(off, v) \<in> set ?ws" for off v
    using that assms stores_reads [of 60 ?ws off v ?a "ram t" False m] by (simp add: rdm_def slots_def)
  show "pc (exec SET_arm t) = fn" "regs (exec SET_arm t) 0 = a0"
    "regs (exec SET_arm t) 13 = ss_sp uc + 4 * (ss_size uc div 4)"
    using f [of 0 a0] f [of 56 fn] f [of 52] assms(3) by (simp_all add: SET_arm_def rdm_def setr_def)
qed

section \<open>Offsets\<close>

text \<open>
  The offsets at which the assembler routines save registers are those of the members of the structures that have
  their names, and the structures are large enough for all of them.
\<close>

theorem saved_members:
  "map fst (image_amd64 s) = map (offset_of 8 mcontext_amd64)
     [''mc_rdi'', ''mc_rsi'', ''mc_rdx'', ''mc_rcx'', ''mc_r8'', ''mc_r9'', ''mc_rax'', ''mc_rbx'', ''mc_rbp'', ''mc_r10'',
      ''mc_r11'', ''mc_r12'', ''mc_r13'', ''mc_r14'', ''mc_r15'', ''mc_rip'', ''mc_rsp'']
   \<and> map fst (image_386 s') = map (offset_of 4 mcontext_386)
     [''mc_edi'', ''mc_esi'', ''mc_ebp'', ''mc_ebx'', ''mc_edx'', ''mc_ecx'', ''mc_eax'', ''mc_eip'', ''mc_esp'']
   \<and> map fst (segs_386 s') = map (offset_of 4 mcontext_386) [''mc_fs'', ''mc_es'', ''mc_ds'', ''mc_ss'']
   \<and> map fst (image_power p) = map (offset_of 4 mcontext_power) [''pc'', ''cr'', ''ctr'', ''xer'', ''sp'', ''toc'', ''r3'']
       @ map (\<lambda>i. offset_of 4 mcontext_power ''gpr'' + 4 * i) [0..<19]
   \<and> map fst (image_mips q) = map (\<lambda>i. offset_of 4 mcontext_mips ''mc_regs'' + 4 * i)
       [4, 5, 6, 7, 16, 17, 18, 19, 20, 21, 22, 23, 28, 29, 30, 31]
   \<and> slots 8 (size_of 8 mcontext_amd64) (map fst (image_amd64 s)) \<and> slots 4 (size_of 4 mcontext_386) (map fst (image_386 s'))
   \<and> slots 4 (size_of 4 mcontext_power) (map fst (image_power p)) \<and> slots 4 (size_of 4 mcontext_mips) (map fst (image_mips q))"
  by (intro conjI; simp add: image_amd64_def image_386_def segs_386_def image_power_def image_mips_def mcontext_amd64_def
      mcontext_386_def mcontext_power_def mcontext_mips_def slots_def size_of_def upt_rec)

end
