(* ===== verification/Dyco_Htable.thy ===== *)
theory Dyco_Htable
  imports Dyco_Prelude
begin

text \<open>
  The hash table of \<^verbatim>\<open>include/dyco/dyco_htable.h\<close>: an array of \<open>2^width\<close> bucket
  heads stored in place, each with a chain of malloc'ed nodes. The scheduler keeps its two maps
  (descriptor to waiting coroutine, identifier to coroutine) in it, the wait groups their member
  set and their subscription lists.

  A chain is the list of its nodes; a node keeps its address and whether it has been freed while
  the table still points to it (\<open>hlive\<close>), so that the two functions that run a callback in
  the middle of a traversal behave as the code does when the callback changes the table. An access
  to a freed node, to a freed table or outside the array is a memory fault: \<open>None\<close> for the
  plain operations, \<open>Fault\<close> for those that run callbacks.

  Theory \<open>Htable_Map\<close> shows that for identifiers other than 0 and -1 the table is a finite map whatever
  sequence of insertions, deletions and resizings is run.
\<close>

section \<open>Data\<close>

record hnode =
  haddr :: addr
  hid :: i32
  hdata :: addr
  hlive :: bool

record hbucket =
  bid :: i32
  bdata :: addr
  bnext :: "hnode list"

datatype htab = TNull | TFreed | TBuckets "hbucket list"

record dyco_htable =
  hwidth :: int
  hmask :: i32
  hcount :: int
  htable :: htab

definition DYCO_HTABLE_MAXWITDH :: int where "DYCO_HTABLE_MAXWITDH = 24"
definition DYCO_HTABLE_DEFAULTWITDH :: int where "DYCO_HTABLE_DEFAULTWITDH = 16"
definition DYCO_HTABLE_MAXALPHA :: int where "DYCO_HTABLE_MAXALPHA = 2"

definition HTABLE_EMPTY :: "dyco_htable \<Rightarrow> bool" where
  "HTABLE_EMPTY ht = (hcount ht = 0)"

definition HTABLE_SIZE :: "dyco_htable \<Rightarrow> int" where
  "HTABLE_SIZE ht = hcount ht"

abbreviation hempty :: hbucket where
  "hempty \<equiv> \<lparr>bid = - 1, bdata = NULL, bnext = []\<rparr>"

abbreviation hzero :: hbucket where
  "hzero \<equiv> \<lparr>bid = 0, bdata = NULL, bnext = []\<rparr>"

section \<open>Operations\<close>

definition htable_init :: "int \<Rightarrow> mem \<Rightarrow> int \<times> dyco_htable \<times> mem" where
  "htable_init width m =
    (let w = (if width \<le> 0 then DYCO_HTABLE_DEFAULTWITDH
              else if width > DYCO_HTABLE_MAXWITDH then DYCO_HTABLE_MAXWITDH else width);
         sz = 2 ^ nat w;
         msk = push_bit (nat w) 1 - 1;
         (p, m') = malloc m
     in if p = NULL
        then (- 1, \<lparr>hwidth = w, hmask = msk, hcount = 0, htable = TNull\<rparr>, m')
        else (0, \<lparr>hwidth = w, hmask = msk, hcount = 0, htable = TBuckets (replicate sz hempty)\<rparr>, m'))"

definition htable_create :: "int \<Rightarrow> mem \<Rightarrow> dyco_htable option \<times> mem" where
  "htable_create width m =
    (let (p, m1) = malloc m
     in if p = NULL then (None, m1)
        else let (_, ht, m2) = htable_init width m1 in (Some ht, m2))"

text \<open>\<^verbatim>\<open>&htable->table[id & htable->mask]\<close>: reading and writing the bucket of an identifier.\<close>

definition hidx :: "i32 \<Rightarrow> i32 \<Rightarrow> nat" where
  "hidx msk k = unat (k AND msk)"

definition hb_at :: "dyco_htable \<Rightarrow> i32 \<Rightarrow> hbucket option" where
  "hb_at ht k =
    (case htable ht of
       TBuckets t \<Rightarrow> if hidx (hmask ht) k < length t then Some (t ! hidx (hmask ht) k) else None
     | _ \<Rightarrow> None)"

definition hb_put :: "i32 \<Rightarrow> hbucket \<Rightarrow> dyco_htable \<Rightarrow> dyco_htable" where
  "hb_put k b ht =
    (case htable ht of
       TBuckets t \<Rightarrow> ht\<lparr>htable := TBuckets (t[hidx (hmask ht) k := b])\<rparr>
     | _ \<Rightarrow> ht)"

text \<open>
  The chain loops. The outer \<open>None\<close> is a touched freed node, the inner one a search that
  ran to the end of the chain.
\<close>

fun hc_search :: "i32 \<Rightarrow> hnode list \<Rightarrow> hnode option option" where
  "hc_search k [] = Some None"
| "hc_search k (n # ns) =
    (if \<not> hlive n then None else if hid n = k then Some (Some n) else hc_search k ns)"

fun hc_update :: "i32 \<Rightarrow> addr \<Rightarrow> hnode list \<Rightarrow> hnode list option option" where
  "hc_update k d [] = Some None"
| "hc_update k d (n # ns) =
    (if \<not> hlive n then None
     else if hid n = k then Some (Some (n\<lparr>hdata := d\<rparr> # ns))
     else map_option (map_option ((#) n)) (hc_update k d ns))"

fun hc_remove :: "i32 \<Rightarrow> hnode list \<Rightarrow> (addr \<times> hnode list) option option" where
  "hc_remove k [] = Some None"
| "hc_remove k (n # ns) =
    (if \<not> hlive n then None
     else if hid n = k then Some (Some (hdata n, ns))
     else map_option (map_option (map_prod (\<lambda>d. d) ((#) n))) (hc_remove k ns))"

definition htable_find :: "dyco_htable \<Rightarrow> i32 \<Rightarrow> addr option" where
  "htable_find ht k =
    (case hb_at ht k of
       None \<Rightarrow> None
     | Some b \<Rightarrow>
         if bid b = - 1 then Some NULL
         else if bid b = k then Some (bdata b)
         else (case hc_search k (bnext b) of
                 None \<Rightarrow> None
               | Some None \<Rightarrow> Some NULL
               | Some (Some n) \<Rightarrow> Some (hdata n)))"

definition htable_contains :: "dyco_htable \<Rightarrow> i32 \<Rightarrow> int option" where
  "htable_contains ht k =
    (case hb_at ht k of
       None \<Rightarrow> None
     | Some b \<Rightarrow>
         if bid b = - 1 then Some 0
         else if bid b = k then Some 1
         else (case hc_search k (bnext b) of
                 None \<Rightarrow> None
               | Some None \<Rightarrow> Some 0
               | Some (Some n) \<Rightarrow> Some 1))"

text \<open>
  Resizing. The new array comes from \<^verbatim>\<open>calloc\<close>, so its entries are all zero, and the
  initialisation loop writes \<^verbatim>\<open>newtable->id = -1\<close> at every turn: only entry 0 is marked
  empty, every other one starts with the identifier 0 and no data.
\<close>

definition place_head :: "i32 \<Rightarrow> i32 \<Rightarrow> addr \<Rightarrow> hbucket list \<Rightarrow> mem \<Rightarrow> hbucket list option \<times> mem" where
  "place_head nm k d new m =
    (let i = hidx nm k; b = new ! i
     in if bid b = - 1 then (Some (new[i := b\<lparr>bid := k, bdata := d\<rparr>]), m)
        else let (p, m') = malloc m
             in if p = NULL then (None, m')
                else (Some (new[i := b\<lparr>bnext := \<lparr>haddr = p, hid = k, hdata = d, hlive = True\<rparr> # bnext b\<rparr>]), m'))"

definition place_node :: "i32 \<Rightarrow> hnode \<Rightarrow> hbucket list \<Rightarrow> hbucket list" where
  "place_node nm n new =
    (let i = hidx nm (hid n); b = new ! i
     in if bid b = - 1 then new[i := b\<lparr>bid := hid n, bdata := hdata n\<rparr>]
        else new[i := b\<lparr>bnext := n # bnext b\<rparr>])"

fun place_chain :: "i32 \<Rightarrow> hnode list \<Rightarrow> hbucket list \<Rightarrow> hbucket list option" where
  "place_chain nm [] new = Some new"
| "place_chain nm (n # ns) new =
    (if hlive n then place_chain nm ns (place_node nm n new) else None)"

text \<open>\<open>Inl rest\<close>: \<^verbatim>\<open>malloc\<close> failed at the first bucket of \<open>rest\<close>; \<open>Inr new\<close>: all moved.\<close>

fun rehash :: "i32 \<Rightarrow> hbucket list \<Rightarrow> hbucket list \<Rightarrow> mem \<Rightarrow> ((hbucket list + hbucket list) \<times> mem) option" where
  "rehash nm [] new m = Some (Inr new, m)"
| "rehash nm (b # bs) new m =
    (if bid b = - 1 then rehash nm bs new m
     else (case place_head nm (bid b) (bdata b) new m of
             (None, m') \<Rightarrow> Some (Inl (b # bs), m')
           | (Some new', m') \<Rightarrow>
               (case place_chain nm (bnext b) new' of
                  None \<Rightarrow> None
                | Some new'' \<Rightarrow> rehash nm bs new'' m')))"

text \<open>
  When \<^verbatim>\<open>malloc\<close> fails in mid-move the function returns with the old array still in
  place; the chain nodes of the buckets already moved were freed or linked into the abandoned new
  array, so the old array's pointers to them are dead.
\<close>

definition torn :: "hbucket list \<Rightarrow> hbucket list \<Rightarrow> hbucket list" where
  "torn old rest =
    map (\<lambda>b. b\<lparr>bnext := map (\<lambda>n. n\<lparr>hlive := False\<rparr>) (bnext b)\<rparr>) (take (length old - length rest) old) @ rest"

definition htable_resize :: "dyco_htable \<Rightarrow> int \<Rightarrow> mem \<Rightarrow> (int \<times> dyco_htable \<times> mem) option" where
  "htable_resize ht width m =
    (if width = hwidth ht \<or> width > DYCO_HTABLE_MAXWITDH then Some (- 1, ht, m)
     else let newsize = 2 ^ nat width;
              newmask = push_bit (nat width) 1 - 1;
              (p, m1) = malloc m
          in if p = NULL then Some (- 1, ht, m1)
             else (case htable ht of
                     TBuckets old \<Rightarrow>
                       (case rehash newmask old (hempty # replicate (newsize - 1) hzero) m1 of
                          None \<Rightarrow> None
                        | Some (Inl rest, m2) \<Rightarrow> Some (- 1, ht\<lparr>htable := TBuckets (torn old rest)\<rparr>, m2)
                        | Some (Inr new, m2) \<Rightarrow>
                            Some (0, ht\<lparr>hmask := newmask, hwidth := width, htable := TBuckets new\<rparr>, m2))
                   | _ \<Rightarrow> None))"

text \<open>The end of both insertion paths: grow when the load reaches \<open>MAXALPHA\<close>.\<close>

definition htable_grow :: "dyco_htable \<Rightarrow> mem \<Rightarrow> (int \<times> dyco_htable \<times> mem) option" where
  "htable_grow ht m =
    (if sint (hmask ht) * DYCO_HTABLE_MAXALPHA = hcount ht
     then (case htable_resize ht (hwidth ht + 1) m of
             None \<Rightarrow> None
           | Some (r, ht', m') \<Rightarrow> Some (if r < 0 then - 1 else 1, ht', m'))
     else Some (1, ht, m))"

definition htable_insert :: "dyco_htable \<Rightarrow> i32 \<Rightarrow> addr \<Rightarrow> mem \<Rightarrow> (int \<times> dyco_htable \<times> mem) option" where
  "htable_insert ht k d m =
    (case hb_at ht k of
       None \<Rightarrow> None
     | Some b \<Rightarrow>
         if bid b = - 1
         then htable_grow ((hb_put k (b\<lparr>bid := k, bdata := d\<rparr>) ht)\<lparr>hcount := hcount ht + 1\<rparr>) m
         else if bid b = k then Some (0, hb_put k (b\<lparr>bdata := d\<rparr>) ht, m)
         else (case hc_update k d (bnext b) of
                 None \<Rightarrow> None
               | Some (Some ns) \<Rightarrow> Some (0, hb_put k (b\<lparr>bnext := ns\<rparr>) ht, m)
               | Some None \<Rightarrow>
                   (let (p, m') = malloc m
                    in if p = NULL then Some (- 1, ht, m')
                       else htable_grow
                         ((hb_put k (b\<lparr>bnext := \<lparr>haddr = p, hid = k, hdata = d, hlive = True\<rparr> # bnext b\<rparr>) ht)
                            \<lparr>hcount := hcount ht + 1\<rparr>) m')))"

text \<open>The second component is what is stored through the output parameter \<^verbatim>\<open>data\<close>.\<close>

definition htable_delete :: "dyco_htable \<Rightarrow> i32 \<Rightarrow> (int \<times> addr option \<times> dyco_htable) option" where
  "htable_delete ht k =
    (case hb_at ht k of
       None \<Rightarrow> None
     | Some b \<Rightarrow>
         if bid b = - 1 then Some (- 1, None, ht)
         else if bid b = k
         then (case bnext b of
                 [] \<Rightarrow> Some (0, Some (bdata b),
                          (hb_put k (b\<lparr>bid := - 1, bdata := NULL\<rparr>) ht)\<lparr>hcount := hcount ht - 1\<rparr>)
               | n # ns \<Rightarrow>
                   if hlive n
                   then Some (0, Some (bdata b),
                          (hb_put k (b\<lparr>bid := hid n, bdata := hdata n, bnext := ns\<rparr>) ht)
                             \<lparr>hcount := hcount ht - 1\<rparr>)
                   else None)
         else (case hc_remove k (bnext b) of
                 None \<Rightarrow> None
               | Some None \<Rightarrow> Some (- 1, None, ht)
               | Some (Some (d, ns)) \<Rightarrow>
                   Some (0, Some d, (hb_put k (b\<lparr>bnext := ns\<rparr>) ht)\<lparr>hcount := hcount ht - 1\<rparr>)))"

definition htable_clear :: "dyco_htable \<Rightarrow> dyco_htable option" where
  "htable_clear ht =
    (case htable ht of
       TNull \<Rightarrow> Some ht
     | TFreed \<Rightarrow> None
     | TBuckets t \<Rightarrow>
         if \<forall>b \<in> set t. bid b \<noteq> - 1 \<longrightarrow> (\<forall>n \<in> set (bnext b). hlive n)
         then Some (ht\<lparr>htable := TFreed, hcount := 0, hmask := 0, hwidth := 0\<rparr>)
         else None)"

definition htable_free :: "dyco_htable option \<Rightarrow> dyco_htable option option" where
  "htable_free p =
    (case p of None \<Rightarrow> Some None | Some ht \<Rightarrow> map_option (\<lambda>_. None) (htable_clear ht))"

subsection \<open>Operations with a callback\<close>

text \<open>
  The table lives in the caller's state (\<open>get\<close> and \<open>put\<close>), because the callback
  may reach it. \<open>hn_at\<close> is a dereference of a node pointer kept across the callback: the
  node and what follows it, if it is still linked and alive.
\<close>

definition hn_at :: "dyco_htable \<Rightarrow> nat \<Rightarrow> addr \<Rightarrow> hnode list option" where
  "hn_at ht i p =
    (case htable ht of
       TBuckets t \<Rightarrow>
         if i < length t
         then (case dropWhile (\<lambda>n. haddr n \<noteq> p) (bnext (t ! i)) of
                 [] \<Rightarrow> None
               | n # ns \<Rightarrow> if hlive n then Some (n # ns) else None)
         else None
     | _ \<Rightarrow> None)"

definition hn_free :: "nat \<Rightarrow> addr \<Rightarrow> dyco_htable \<Rightarrow> dyco_htable" where
  "hn_free i p ht =
    (case htable ht of
       TBuckets t \<Rightarrow>
         ht\<lparr>htable := TBuckets (t[i := (t ! i)\<lparr>bnext := map (\<lambda>n. if haddr n = p then n\<lparr>hlive := False\<rparr> else n)
                                                   (bnext (t ! i))\<rparr>])\<rparr>
     | _ \<Rightarrow> ht)"

definition head_addr :: "hnode list \<Rightarrow> addr" where
  "head_addr ns = (case ns of [] \<Rightarrow> NULL | n # _ \<Rightarrow> haddr n)"

text \<open>The inner loop of \<^verbatim>\<open>htable_clear_with_freecb\<close>; a chain never grows while it runs, so its
  length is fuel enough.\<close>

fun clear_chain_cb ::
  "('s \<Rightarrow> dyco_htable) \<Rightarrow> (dyco_htable \<Rightarrow> 's \<Rightarrow> 's) \<Rightarrow> (addr \<Rightarrow> ('s, unit) comp) \<Rightarrow> nat \<Rightarrow> nat \<Rightarrow> addr \<Rightarrow> ('s, unit) comp"
where
  "clear_chain_cb get put cb i 0 pre = (if pre = NULL then ret () else fail BadAccess)"
| "clear_chain_cb get put cb i (Suc n) pre =
    (if pre = NULL then ret ()
     else bind (asks (\<lambda>s. hn_at (get s) i pre)) (\<lambda>q.
       case q of
         None \<Rightarrow> fail BadAccess
       | Some [] \<Rightarrow> fail BadAccess
       | Some (nd # rest) \<Rightarrow>
           seq (cb (hdata nd))
          (bind (asks (\<lambda>s. hn_at (get s) i pre)) (\<lambda>q'.
             if q' = None then fail DoubleFree
             else seq (modify (\<lambda>s. put (hn_free i pre (get s)) s))
                      (clear_chain_cb get put cb i n (head_addr rest))))))"

fun clear_buckets_cb ::
  "('s \<Rightarrow> dyco_htable) \<Rightarrow> (dyco_htable \<Rightarrow> 's \<Rightarrow> 's) \<Rightarrow> (addr \<Rightarrow> ('s, unit) comp) \<Rightarrow> nat \<Rightarrow> nat \<Rightarrow> ('s, unit) comp"
where
  "clear_buckets_cb get put cb i 0 = ret ()"
| "clear_buckets_cb get put cb i (Suc n) =
    bind (asks (\<lambda>s. case htable (get s) of TBuckets t \<Rightarrow> if i < length t then Some (t ! i) else None | _ \<Rightarrow> None)) (\<lambda>q.
      case q of
        None \<Rightarrow> fail BadAccess
      | Some b \<Rightarrow>
          if bid b = - 1 then clear_buckets_cb get put cb (Suc i) n
          else seq (cb (bdata b))
              (bind (asks (\<lambda>s. case htable (get s) of TBuckets t \<Rightarrow> bnext (t ! i) | _ \<Rightarrow> [])) (\<lambda>chain.
                 seq (clear_chain_cb get put cb i (length chain) (head_addr chain))
                     (clear_buckets_cb get put cb (Suc i) n))))"

definition htable_clear_with_freecb ::
  "('s \<Rightarrow> dyco_htable) \<Rightarrow> (dyco_htable \<Rightarrow> 's \<Rightarrow> 's) \<Rightarrow> (addr \<Rightarrow> ('s, unit) comp) \<Rightarrow> ('s, unit) comp" where
  "htable_clear_with_freecb get put cb =
    bind (asks get) (\<lambda>ht.
      case htable ht of
        TNull \<Rightarrow> ret ()
      | TFreed \<Rightarrow> fail BadAccess
      | TBuckets t \<Rightarrow>
          seq (clear_buckets_cb get put cb 0 (Suc (unat (hmask ht))))
              (modify (\<lambda>s. put ((get s)\<lparr>htable := TFreed, hcount := 0, hmask := 0, hwidth := 0\<rparr>) s)))"

text \<open>
  \<^verbatim>\<open>htable_delete_with_freecb\<close>: \<^verbatim>\<open>ptr\<close> and \<^verbatim>\<open>bucket\<close> are read
  before the callback runs. In the chain branch the node is unlinked first; in the bucket branch
  the callback runs first.
\<close>

definition htable_delete_with_freecb ::
  "('s \<Rightarrow> dyco_htable) \<Rightarrow> (dyco_htable \<Rightarrow> 's \<Rightarrow> 's) \<Rightarrow> (addr \<Rightarrow> ('s, unit) comp) \<Rightarrow> i32 \<Rightarrow> ('s, int) comp" where
  "htable_delete_with_freecb get put cb k =
    bind (asks get) (\<lambda>ht.
      case hb_at ht k of
        None \<Rightarrow> fail BadAccess
      | Some b \<Rightarrow>
          if bid b = - 1 then ret (- 1)
          else if bid b = k
          then seq (if bdata b \<noteq> NULL then cb (bdata b) else ret ())
              (bind (asks get) (\<lambda>ht'.
                 case bnext b of
                   [] \<Rightarrow> (case hb_at ht' k of
                            None \<Rightarrow> fail BadAccess
                          | Some b' \<Rightarrow>
                              seq (modify (put ((hb_put k (b'\<lparr>bid := - 1, bdata := NULL\<rparr>) ht')\<lparr>hcount := hcount ht' - 1\<rparr>)))
                                  (ret 0))
                 | n # _ \<Rightarrow> (case (hn_at ht' (hidx (hmask ht) k) (haddr n), hb_at ht' k) of
                              (Some (n' # ns'), Some b') \<Rightarrow>
                                seq (modify (put ((hb_put k (b'\<lparr>bid := hid n', bdata := hdata n', bnext := ns'\<rparr>) ht')
                                                    \<lparr>hcount := hcount ht' - 1\<rparr>)))
                                    (ret 0)
                            | _ \<Rightarrow> fail BadAccess)))
          else (case hc_remove k (bnext b) of
                  None \<Rightarrow> fail BadAccess
                | Some None \<Rightarrow> ret (- 1)
                | Some (Some (d, ns)) \<Rightarrow>
                    seq (modify (put (hb_put k (b\<lparr>bnext := ns\<rparr>) ht)))
                   (seq (if d \<noteq> NULL then cb d else ret ())
                   (seq (modify (\<lambda>s. put ((get s)\<lparr>hcount := hcount (get s) - 1\<rparr>) s))
                        (ret 0)))))"

end
