(* ===== verification/Htable_Map.thy ===== *)
theory Htable_Map
  imports Dyco_Htable
begin

text \<open>
  The hash table as a finite map. \<open>ht_abs\<close> reads a table as a partial function on the
  identifiers other than 0 and -1, \<open>ht_wf\<close> is the invariant every operation keeps. The
  identifier -1 marks an empty bucket, and the identifier 0 appears in every bucket but the first
  after a resizing, so neither can be a key (see the properties at the end).
\<close>

named_theorems htable_simps \<open>readings of the table through the abstraction\<close>

section \<open>Abstraction and invariant\<close>

definition ch :: "hnode list \<Rightarrow> (i32 \<times> addr) list" where
  "ch ns = map (\<lambda>n. (hid n, hdata n)) ns"

definition hkeys :: "hbucket \<Rightarrow> (i32 \<times> addr) list" where
  "hkeys b = (if bid b = - 1 then [] else (bid b, bdata b) # ch (bnext b))"

definition hids :: "hbucket \<Rightarrow> i32 list" where
  "hids b = (if bid b = - 1 then [] else bid b # map hid (bnext b))"

definition bucket_ok :: "i32 \<Rightarrow> nat \<Rightarrow> hbucket \<Rightarrow> bool" where
  "bucket_ok msk i b =
    ((bid b = - 1 \<longrightarrow> bnext b = []) \<and>
     distinct (filter (\<lambda>k. k \<noteq> 0) (hids b)) \<and>
     (\<forall>n \<in> set (bnext b). hlive n \<and> hid n \<noteq> - 1 \<and> hidx msk (hid n) = i) \<and>
     (bid b \<noteq> - 1 \<and> bid b \<noteq> 0 \<longrightarrow> hidx msk (bid b) = i))"

definition tbl_ok :: "i32 \<Rightarrow> hbucket list \<Rightarrow> bool" where
  "tbl_ok msk t = (\<forall>i < length t. bucket_ok msk i (t ! i))"

definition key_ok :: "i32 \<Rightarrow> bool" where
  "key_ok k = (k \<noteq> 0 \<and> k \<noteq> - 1)"

definition tbl_abs :: "i32 \<Rightarrow> hbucket list \<Rightarrow> i32 \<rightharpoonup> addr" where
  "tbl_abs msk t k = (if key_ok k then map_of (hkeys (t ! hidx msk k)) k else None)"

definition ht_abs :: "dyco_htable \<Rightarrow> i32 \<rightharpoonup> addr" where
  "ht_abs ht = (case htable ht of TBuckets t \<Rightarrow> tbl_abs (hmask ht) t | _ \<Rightarrow> Map.empty)"

definition ht_wf :: "dyco_htable \<Rightarrow> bool" where
  "ht_wf ht =
    (case htable ht of
       TBuckets t \<Rightarrow>
         1 \<le> hwidth ht \<and> hwidth ht \<le> DYCO_HTABLE_MAXWITDH \<and> hmask ht = mask (nat (hwidth ht)) \<and>
         length t = 2 ^ nat (hwidth ht) \<and> tbl_ok (hmask ht) t \<and>
         hcount ht = int (card (dom (tbl_abs (hmask ht) t)))
     | _ \<Rightarrow> False)"

lemma hidx_less [simp]: "hidx (mask w) k < 2 ^ w"
  by (simp add: hidx_def)

lemma hidx_0 [simp]: "hidx msk 0 = 0"
  by (simp add: hidx_def)

lemma ht_wfE:
  assumes "ht_wf ht"
  obtains t w where "htable ht = TBuckets t" "hwidth ht = int w" "1 \<le> w" "w \<le> 24" "hmask ht = mask w"
    "length t = 2 ^ w" "tbl_ok (mask w) t" "hcount ht = int (card (dom (tbl_abs (mask w) t)))"
proof -
  from assms obtain t where t: "htable ht = TBuckets t" by (auto simp: ht_wf_def split: htab.splits)
  show thesis
    by (rule that [of t "nat (hwidth ht)"]) (use assms t in \<open>auto simp: ht_wf_def DYCO_HTABLE_MAXWITDH_def\<close>)
qed

lemma hb_at_TBuckets: "htable ht = TBuckets t \<Longrightarrow> hmask ht = mask w \<Longrightarrow> length t = 2 ^ w \<Longrightarrow>
    hb_at ht k = Some (t ! hidx (mask w) k)"
  by (simp add: hb_at_def)

lemma tbl_okD: "tbl_ok (mask w) t \<Longrightarrow> length t = 2 ^ w \<Longrightarrow> bucket_ok (mask w) (hidx (mask w) k) (t ! hidx (mask w) k)"
  by (simp add: tbl_ok_def)

section \<open>Chains\<close>

lemma ch_Nil [simp]: "ch [] = []" and ch_Cons [simp]: "ch (n # ns) = (hid n, hdata n) # ch ns"
  by (simp_all add: ch_def)

lemma fst_ch: "map fst (ch ns) = map hid ns"
  by (simp add: ch_def)

lemma hc_search_live:
  "\<forall>n \<in> set ns. hlive n \<Longrightarrow> map_option (map_option hdata) (hc_search k ns) = Some (map_of (ch ns) k)"
  by (induction ns) auto

lemma hc_update_None: "\<forall>n \<in> set ns. hlive n \<Longrightarrow> hc_update k d ns \<noteq> None"
  by (induction ns) auto

lemma hc_update_absent: "\<forall>n \<in> set ns. hlive n \<Longrightarrow> hc_update k d ns = Some None \<longleftrightarrow> map_of (ch ns) k = None"
  by (induction ns) auto

lemma hc_update_present:
  "hc_update k d ns = Some (Some ns') \<Longrightarrow>
    map hid ns' = map hid ns \<and> map hlive ns' = map hlive ns \<and>
    map_of (ch ns) k \<noteq> None \<and> map_of (ch ns') = (map_of (ch ns))(k \<mapsto> d)"
  by (induction ns arbitrary: ns') (auto split: if_splits simp: fun_upd_twist)

lemma hc_remove_None: "\<forall>n \<in> set ns. hlive n \<Longrightarrow> hc_remove k ns \<noteq> None"
  by (induction ns) auto

lemma hc_remove_absent: "\<forall>n \<in> set ns. hlive n \<Longrightarrow> hc_remove k ns = Some None \<longleftrightarrow> map_of (ch ns) k = None"
  by (induction ns) auto

lemma hc_remove_present:
  "hc_remove k ns = Some (Some (d, ns')) \<Longrightarrow> map_of (ch ns) k = Some d \<and>
    (\<exists>xs n ys. ns = xs @ n # ys \<and> hid n = k \<and> hdata n = d \<and> ns' = xs @ ys \<and> k \<notin> hid ` set xs)"
proof (induction ns arbitrary: ns')
  case (Cons n ns)
  show ?case
  proof (cases "hid n = k")
    case True
    with Cons.prems show ?thesis by (auto split: if_splits intro: exI [of _ "[]"])
  next
    case False
    with Cons.prems obtain ms where ms: "hc_remove k ns = Some (Some (d, ms))" "ns' = n # ms"
      by (auto split: if_splits)
    from Cons.IH [OF ms(1)] obtain xs x ys where
      "map_of (ch ns) k = Some d" "ns = xs @ x # ys" "hid x = k" "hdata x = d" "ms = xs @ ys" "k \<notin> hid ` set xs"
      by blast
    with False ms(2) show ?thesis
      by (intro conjI exI [of _ "n # xs"] exI [of _ x] exI [of _ ys]) auto
  qed
qed simp

section \<open>Replacing one bucket\<close>

lemma map_of_not_key: "\<not> key_ok k \<Longrightarrow> tbl_abs msk t k = None"
  by (simp add: tbl_abs_def)

lemma bucket_abs:
  "bucket_ok (mask w) i b \<Longrightarrow> key_ok k \<Longrightarrow> hidx (mask w) k \<noteq> i \<Longrightarrow> map_of (hkeys b) k = None"
  by (auto simp: map_of_eq_None_iff hkeys_def bucket_ok_def key_ok_def ch_def split: if_splits)

lemma tbl_update:
  assumes "tbl_ok (mask w) t" "length t = 2 ^ w" and k: "key_ok k"
    and b: "bucket_ok (mask w) (hidx (mask w) k) b"
    and m: "\<And>j. key_ok j \<Longrightarrow> map_of (hkeys b) j = ((map_of (hkeys (t ! hidx (mask w) k)))(k := v)) j"
  shows "tbl_ok (mask w) (t[hidx (mask w) k := b]) \<and>
    tbl_abs (mask w) (t[hidx (mask w) k := b]) = (tbl_abs (mask w) t)(k := v)"
proof
  show "tbl_ok (mask w) (t[hidx (mask w) k := b])"
    using assms by (auto simp: tbl_ok_def nth_list_update)
  show "tbl_abs (mask w) (t[hidx (mask w) k := b]) = (tbl_abs (mask w) t)(k := v)"
  proof
    fix j
    show "tbl_abs (mask w) (t[hidx (mask w) k := b]) j = ((tbl_abs (mask w) t)(k := v)) j"
    proof (cases "key_ok j")
      case True
      with assms(2) k m [OF True] show ?thesis by (auto simp: tbl_abs_def nth_list_update)
    next
      case False
      with k show ?thesis by (auto simp: tbl_abs_def)
    qed
  qed
qed

lemma finite_dom_word [simp]: "finite (dom (m :: i32 \<rightharpoonup> addr))"
  by simp

lemma card_dom_new: "(m :: i32 \<rightharpoonup> addr) k = None \<Longrightarrow> card (dom (m(k \<mapsto> d))) = Suc (card (dom m))"
  by (simp add: domIff)

lemma card_dom_old: "(m :: i32 \<rightharpoonup> addr) k \<noteq> None \<Longrightarrow> dom (m(k \<mapsto> d)) = dom m"
  by auto

lemma card_dom_del: "(m :: i32 \<rightharpoonup> addr) k \<noteq> None \<Longrightarrow> int (card (dom (m(k := None)))) = int (card (dom m)) - 1"
proof -
  assume "m k \<noteq> None"
  then have "k \<in> dom m" by auto
  then have "0 < card (dom m)" by (auto simp: card_gt_0_iff)
  with \<open>k \<in> dom m\<close> show ?thesis by (simp add: card_Diff_singleton of_nat_diff)
qed

section \<open>The bucket each operation writes\<close>

lemma map_fst_hkeys: "map fst (hkeys b) = hids b"
  by (simp add: hkeys_def hids_def fst_ch)

lemma hkeys_None: "map_of (hkeys b) k = None \<longleftrightarrow> k \<notin> set (hids b)"
  by (simp add: map_of_eq_None_iff flip: map_fst_hkeys)

lemma bucket_ok_free: "bid b = - 1 \<Longrightarrow> bucket_ok msk i b \<longleftrightarrow> bnext b = []"
  by (auto simp: bucket_ok_def hids_def)

lemma bucket_ok_used: "bid b \<noteq> - 1 \<Longrightarrow> bucket_ok msk i b \<longleftrightarrow>
    distinct (filter (\<lambda>k. k \<noteq> 0) (bid b # map hid (bnext b))) \<and>
    (\<forall>n \<in> set (bnext b). hlive n \<and> hid n \<noteq> - 1 \<and> hidx msk (hid n) = i) \<and>
    (bid b \<noteq> 0 \<longrightarrow> hidx msk (bid b) = i)"
  by (simp add: bucket_ok_def hids_def)

lemma distinct_filter_mid: "distinct (filter P (xs @ y # ys)) \<Longrightarrow> distinct (filter P (xs @ ys))"
  by (cases "P y") (auto simp del: distinct_append simp add: distinct_append)

lemma distinct_filter_notin: "distinct (filter P (xs @ y # ys)) \<Longrightarrow> P y \<Longrightarrow> y \<notin> set ys"
  by auto

lemma bucket_fill:
  assumes "bucket_ok (mask w) i b" "bid b = - 1" "k \<noteq> - 1" "hidx (mask w) k = i"
  shows "bucket_ok (mask w) i (b\<lparr>bid := k, bdata := d\<rparr>) \<and>
    map_of (hkeys (b\<lparr>bid := k, bdata := d\<rparr>)) = (map_of (hkeys b))(k \<mapsto> d)"
  using assms by (simp add: bucket_ok_free bucket_ok_used hkeys_def)

lemma bucket_push_ok:
  assumes "bucket_ok (mask w) i b" "bid b \<noteq> - 1" "hid n = 0 \<or> hid n \<notin> set (hids b)"
    "hidx (mask w) (hid n) = i" "hid n \<noteq> - 1" "hlive n"
  shows "bucket_ok (mask w) i (b\<lparr>bnext := n # bnext b\<rparr>)"
proof -
  from assms(2,3) have "hid n \<noteq> 0 \<Longrightarrow> bid b \<noteq> hid n" by (auto simp: hids_def)
  with assms show ?thesis
    by (cases "bid b = 0"; cases "hid n = 0") (simp_all add: bucket_ok_used hids_def)
qed

lemma bucket_push_upd:
  "bid b \<noteq> - 1 \<Longrightarrow> hid n \<notin> set (hids b) \<Longrightarrow>
    map_of (hkeys (b\<lparr>bnext := n # bnext b\<rparr>)) = (map_of (hkeys b))(hid n \<mapsto> hdata n)"
  by (rule ext) (auto simp: hkeys_def hids_def)

lemma bucket_push_other:
  "j \<noteq> hid n \<Longrightarrow> map_of (hkeys (b\<lparr>bnext := n # bnext b\<rparr>)) j = map_of (hkeys b) j"
  by (simp add: hkeys_def)

lemma bucket_set_head:
  assumes "bucket_ok (mask w) i b" "bid b = k" "key_ok k"
  shows "bucket_ok (mask w) i (b\<lparr>bdata := d\<rparr>) \<and>
    map_of (hkeys (b\<lparr>bdata := d\<rparr>)) = (map_of (hkeys b))(k \<mapsto> d)"
  using assms by (simp add: bucket_ok_used hkeys_def key_ok_def)

lemma live_of_maps:
  assumes "map hid ns' = map hid ns" "map hlive ns' = map hlive ns" "\<forall>n \<in> set ns. hlive n \<and> P (hid n)"
  shows "\<forall>n \<in> set ns'. hlive n \<and> P (hid n)"
proof
  fix n assume "n \<in> set ns'"
  then obtain i where i: "i < length ns'" "ns' ! i = n" by (auto simp: in_set_conv_nth)
  from assms(1) have len: "length ns' = length ns" by (rule map_eq_imp_length_eq)
  have "map hid ns' ! i = map hid ns ! i" "map hlive ns' ! i = map hlive ns ! i"
    using assms(1,2) by simp_all
  with i len have "hid n = hid (ns ! i)" "hlive n = hlive (ns ! i)" by simp_all
  with i len assms(3) show "hlive n \<and> P (hid n)" by simp
qed

lemma bucket_set_chain:
  assumes b: "bucket_ok (mask w) i b" "bid b \<noteq> - 1" "bid b \<noteq> k" and u: "hc_update k d (bnext b) = Some (Some ns)"
  shows "bucket_ok (mask w) i (b\<lparr>bnext := ns\<rparr>) \<and>
    map_of (hkeys (b\<lparr>bnext := ns\<rparr>)) = (map_of (hkeys b))(k \<mapsto> d)"
proof
  note p = hc_update_present [OF u]
  have "\<forall>n \<in> set (bnext b). hlive n \<and> (hid n \<noteq> - 1 \<and> hidx (mask w) (hid n) = i)"
    using b(1) by (simp add: bucket_ok_def)
  then have live: "\<forall>n \<in> set ns. hlive n \<and> (hid n \<noteq> - 1 \<and> hidx (mask w) (hid n) = i)"
    using p by (intro live_of_maps [of ns "bnext b"]) auto
  have "hids (b\<lparr>bnext := ns\<rparr>) = hids b"
    using p by (simp add: hids_def)
  with live b show "bucket_ok (mask w) i (b\<lparr>bnext := ns\<rparr>)"
    by (simp add: bucket_ok_def)
  show "map_of (hkeys (b\<lparr>bnext := ns\<rparr>)) = (map_of (hkeys b))(k \<mapsto> d)"
    using p b by (simp add: hkeys_def fun_upd_twist)
qed

lemma bucket_del_single:
  assumes "bucket_ok (mask w) i b" "bid b = k" "key_ok k" "bnext b = []"
  shows "bucket_ok (mask w) i (b\<lparr>bid := - 1, bdata := NULL\<rparr>) \<and>
    map_of (hkeys (b\<lparr>bid := - 1, bdata := NULL\<rparr>)) = (map_of (hkeys b))(k := None)"
  using assms by (simp add: bucket_ok_free hkeys_def key_ok_def)

lemma map_of_del_mid:
  "k \<notin> fst ` set xs \<Longrightarrow> k \<notin> fst ` set ys \<Longrightarrow> map_of (xs @ ys) = (map_of (xs @ (k, d) # ys))(k := None)"
  by (auto simp: map_add_def map_of_eq_None_iff [symmetric] intro!: ext split: option.splits)

lemma bucket_del_head:
  assumes b: "bucket_ok (mask w) i b" "bid b = k" "key_ok k" "bnext b = n # ns"
  shows "bucket_ok (mask w) i (b\<lparr>bid := hid n, bdata := hdata n, bnext := ns\<rparr>) \<and>
    map_of (hkeys (b\<lparr>bid := hid n, bdata := hdata n, bnext := ns\<rparr>)) = (map_of (hkeys b))(k := None)"
proof
  from b(2,3) have k: "bid b \<noteq> - 1" "k \<noteq> 0" by (simp_all add: key_ok_def)
  with b have n: "hid n \<noteq> - 1" "hidx (mask w) (hid n) = i" by (auto simp: bucket_ok_used)
  from k b have d: "distinct (filter (\<lambda>k. k \<noteq> 0) ([] @ k # (hid n # map hid ns)))"
    by (simp add: bucket_ok_used)
  from distinct_filter_mid [OF d] n b k
  show "bucket_ok (mask w) i (b\<lparr>bid := hid n, bdata := hdata n, bnext := ns\<rparr>)"
    by (simp add: bucket_ok_used)
  from distinct_filter_notin [OF d] k have "k \<notin> fst ` set (ch (n # ns))"
    by (auto simp: ch_def)
  with map_of_del_mid [of k "[]" "ch (n # ns)" "bdata b"] n b k
  show "map_of (hkeys (b\<lparr>bid := hid n, bdata := hdata n, bnext := ns\<rparr>)) = (map_of (hkeys b))(k := None)"
    by (simp add: hkeys_def)
qed

lemma bucket_del_chain:
  assumes b: "bucket_ok (mask w) i b" "bid b \<noteq> - 1" "bid b \<noteq> k" "key_ok k"
    and r: "hc_remove k (bnext b) = Some (Some (d, ns))"
  shows "bucket_ok (mask w) i (b\<lparr>bnext := ns\<rparr>) \<and> map_of (hkeys (b\<lparr>bnext := ns\<rparr>)) = (map_of (hkeys b))(k := None)"
proof
  from hc_remove_present [OF r] obtain xs n ys where
    s: "bnext b = xs @ n # ys" "hid n = k" "hdata n = d" "ns = xs @ ys" "k \<notin> hid ` set xs" by blast
  from b s have e: "distinct (filter (\<lambda>k. k \<noteq> 0) ((bid b # map hid xs) @ k # map hid ys))"
    by (simp add: bucket_ok_used)
  from distinct_filter_mid [OF e] b s show "bucket_ok (mask w) i (b\<lparr>bnext := ns\<rparr>)"
    by (simp add: bucket_ok_used)
  from distinct_filter_notin [OF e] b have "k \<notin> hid ` set ys" by (auto simp: key_ok_def)
  then have "map_of (ch ns) = (map_of (ch (bnext b)))(k := None)"
    using map_of_del_mid [of k "ch xs" "ch ys" d] s by (simp add: ch_def image_image)
  then show "map_of (hkeys (b\<lparr>bnext := ns\<rparr>)) = (map_of (hkeys b))(k := None)"
    using b by (simp add: hkeys_def fun_upd_twist)
qed

section \<open>Finding\<close>

lemma bucket_live: "bucket_ok msk i b \<Longrightarrow> \<forall>n \<in> set (bnext b). hlive n"
  by (simp add: bucket_ok_def)

lemma htable_find_abs [htable_simps]:
  assumes "ht_wf ht" "key_ok k"
  shows "htable_find ht k = Some (case ht_abs ht k of None \<Rightarrow> NULL | Some d \<Rightarrow> d)"
proof -
  from assms(1) obtain t w where t: "htable ht = TBuckets t" "hmask ht = mask w" "length t = 2 ^ w" "tbl_ok (mask w) t"
    by (rule ht_wfE)
  define b where "b = t ! hidx (mask w) k"
  from t have b: "bucket_ok (mask w) (hidx (mask w) k) b" by (simp add: tbl_okD b_def)
  have s: "map_option (map_option hdata) (hc_search k (bnext b)) = Some (map_of (ch (bnext b)) k)"
    by (rule hc_search_live [OF bucket_live [OF b]])
  have "ht_abs ht k = map_of (hkeys b) k" using t assms(2) by (simp add: ht_abs_def tbl_abs_def b_def)
  moreover have "hb_at ht k = Some b" using t by (simp add: hb_at_TBuckets b_def)
  ultimately show ?thesis
    using s by (auto simp: htable_find_def hkeys_def split: option.splits)
qed

lemma htable_contains_abs [htable_simps]:
  assumes "ht_wf ht" "key_ok k"
  shows "htable_contains ht k = Some (if k \<in> dom (ht_abs ht) then 1 else 0)"
proof -
  from assms(1) obtain t w where t: "htable ht = TBuckets t" "hmask ht = mask w" "length t = 2 ^ w" "tbl_ok (mask w) t"
    by (rule ht_wfE)
  define b where "b = t ! hidx (mask w) k"
  from t have b: "bucket_ok (mask w) (hidx (mask w) k) b" by (simp add: tbl_okD b_def)
  have s: "map_option (map_option hdata) (hc_search k (bnext b)) = Some (map_of (ch (bnext b)) k)"
    by (rule hc_search_live [OF bucket_live [OF b]])
  have "ht_abs ht k = map_of (hkeys b) k" using t assms(2) by (simp add: ht_abs_def tbl_abs_def b_def)
  moreover have "hb_at ht k = Some b" using t by (simp add: hb_at_TBuckets b_def)
  ultimately show ?thesis
    using s by (auto simp: htable_contains_def hkeys_def domIff split: option.splits)
qed

section \<open>Writing a bucket of a well-formed table\<close>

lemma ht_wf_put:
  assumes wf: "ht_wf ht" and at: "hb_at ht k = Some b" and k: "key_ok k"
    and b': "bucket_ok (hmask ht) (hidx (hmask ht) k) b'" "map_of (hkeys b') = (map_of (hkeys b))(k := v)"
    and c: "c = int (card (dom ((ht_abs ht)(k := v))))"
  shows "ht_wf ((hb_put k b' ht)\<lparr>hcount := c\<rparr>) \<and> ht_abs ((hb_put k b' ht)\<lparr>hcount := c\<rparr>) = (ht_abs ht)(k := v)"
proof -
  from wf obtain t w where t: "htable ht = TBuckets t" "hwidth ht = int w" "1 \<le> w" "w \<le> 24" "hmask ht = mask w"
    "length t = 2 ^ w" "tbl_ok (mask w) t" by (rule ht_wfE)
  from at t have b: "b = t ! hidx (mask w) k" by (simp add: hb_at_TBuckets)
  have "tbl_ok (mask w) (t[hidx (mask w) k := b']) \<and>
    tbl_abs (mask w) (t[hidx (mask w) k := b']) = (tbl_abs (mask w) t)(k := v)"
    by (rule tbl_update) (use t b b' k in simp_all)
  with t c show ?thesis
    by (simp add: ht_wf_def ht_abs_def hb_put_def DYCO_HTABLE_MAXWITDH_def)
qed

lemma hb_put_hcount_id: "(hb_put k b ht)\<lparr>hcount := hcount ht\<rparr> = hb_put k b ht"
  by (simp add: hb_put_def split: htab.splits)

lemma hb_put_fields [simp]:
  "hwidth (hb_put k b ht) = hwidth ht" "hmask (hb_put k b ht) = hmask ht" "hcount (hb_put k b ht) = hcount ht"
  by (simp_all add: hb_put_def split: htab.splits)

lemma ht_wf_count: "ht_wf ht \<Longrightarrow> hcount ht = int (card (dom (ht_abs ht)))"
  by (auto simp: ht_wf_def ht_abs_def split: htab.splits)

lemma ht_wf_bucket:
  assumes "ht_wf ht"
  obtains b where "hb_at ht k = Some b" "bucket_ok (hmask ht) (hidx (hmask ht) k) b"
    "key_ok k \<Longrightarrow> ht_abs ht k = map_of (hkeys b) k"
proof -
  from assms obtain t w where t: "htable ht = TBuckets t" "hmask ht = mask w" "length t = 2 ^ w" "tbl_ok (mask w) t"
    by (rule ht_wfE)
  show thesis
    by (rule that [of "t ! hidx (mask w) k"])
      (use t in \<open>simp_all add: hb_at_TBuckets tbl_okD ht_abs_def tbl_abs_def\<close>)
qed

lemma hmask_mask: "ht_wf ht \<Longrightarrow> \<exists>w. hmask ht = mask w"
  by (auto elim: ht_wfE)

section \<open>Deleting\<close>

lemma htable_delete_absent:
  assumes "ht_wf ht" "key_ok k" "ht_abs ht k = None"
  shows "htable_delete ht k = Some (- 1, None, ht)"
proof -
  from assms(1) obtain b where b: "hb_at ht k = Some b" "bucket_ok (hmask ht) (hidx (hmask ht) k) b"
    "ht_abs ht k = map_of (hkeys b) k" by (rule ht_wf_bucket [where k = k]) (use assms(2) in auto)
  with assms(3) have "bid b = - 1 \<or> bid b \<noteq> k \<and> map_of (ch (bnext b)) k = None"
    by (auto simp: hkeys_def split: if_splits)
  with b(1) show ?thesis
    using hc_remove_absent [OF bucket_live [OF b(2)], of k] by (auto simp: htable_delete_def)
qed

lemma htable_delete_present:
  assumes wf: "ht_wf ht" and k: "key_ok k" and d: "ht_abs ht k = Some d"
  shows "\<exists>ht'. htable_delete ht k = Some (0, Some d, ht') \<and> ht_wf ht' \<and> ht_abs ht' = (ht_abs ht)(k := None)"
proof -
  from wf obtain b where b: "hb_at ht k = Some b" "bucket_ok (hmask ht) (hidx (hmask ht) k) b"
    "ht_abs ht k = map_of (hkeys b) k" by (rule ht_wf_bucket [where k = k]) (use k in auto)
  from wf obtain w where w: "hmask ht = mask w" using hmask_mask by blast
  from d b(3) have ne: "bid b \<noteq> - 1" by (auto simp: hkeys_def)
  have c: "hcount ht - 1 = int (card (dom ((ht_abs ht)(k := None))))"
    using card_dom_del [of "ht_abs ht" k] d ht_wf_count [OF wf] by simp
  note put = ht_wf_put [OF wf b(1) k _ _ c]
  show ?thesis
  proof (cases "bid b = k")
    case True
    then have dd: "d = bdata b" using d b(3) ne by (simp add: hkeys_def)
    show ?thesis
    proof (cases "bnext b")
      case Nil
      from bucket_del_single [OF b(2) [unfolded w] True k Nil] put [unfolded w]
      show ?thesis using True Nil b(1) ne dd by (simp add: htable_delete_def w)
    next
      case (Cons n ns)
      have "hlive n" using bucket_live [OF b(2)] Cons by simp
      with bucket_del_head [OF b(2) [unfolded w] True k Cons] put [unfolded w]
      show ?thesis using True Cons b(1) ne dd by (simp add: htable_delete_def w)
    qed
  next
    case False
    with d b(3) ne have m: "map_of (ch (bnext b)) k = Some d" by (simp add: hkeys_def)
    with hc_remove_absent hc_remove_None bucket_live [OF b(2)] obtain e ns where
      r: "hc_remove k (bnext b) = Some (Some (e, ns))" by (metis option.exhaust option.distinct(1) surj_pair)
    with hc_remove_present m have "e = d" by fastforce
    with bucket_del_chain [OF b(2) [unfolded w] ne False k r] put [unfolded w]
    show ?thesis using False b(1) ne r by (simp add: htable_delete_def w)
  qed
qed

section \<open>Moving the entries to a larger array\<close>

definition fresh_for :: "i32 \<Rightarrow> hbucket list \<Rightarrow> (i32 \<times> addr) list \<Rightarrow> bool" where
  "fresh_for msk new E =
    (distinct (filter (\<lambda>k. k \<noteq> 0) (map fst E)) \<and> (\<forall>k \<in> fst ` set E. k \<noteq> - 1 \<and> tbl_abs msk new k = None))"

definition moved :: "i32 \<Rightarrow> hbucket list \<Rightarrow> (i32 \<times> addr) list \<Rightarrow> hbucket list \<Rightarrow> bool" where
  "moved msk new E new' =
    (tbl_ok msk new' \<and> length new' = length new \<and>
     (\<forall>k. key_ok k \<longrightarrow> tbl_abs msk new' k = (case map_of E k of None \<Rightarrow> tbl_abs msk new k | Some d \<Rightarrow> Some d)))"

lemma tbl_same:
  assumes "tbl_ok (mask w) t" "length t = 2 ^ w" "bucket_ok (mask w) (hidx (mask w) k) b"
    and "\<And>j. key_ok j \<Longrightarrow> map_of (hkeys b) j = map_of (hkeys (t ! hidx (mask w) k)) j"
  shows "tbl_ok (mask w) (t[hidx (mask w) k := b]) \<and> tbl_abs (mask w) (t[hidx (mask w) k := b]) = tbl_abs (mask w) t"
  using assms by (auto simp: tbl_ok_def tbl_abs_def nth_list_update intro!: ext)

lemma moved_put:
  assumes t: "tbl_ok (mask w) new" "length new = 2 ^ w" and k: "k \<noteq> - 1"
    and ok: "bucket_ok (mask w) (hidx (mask w) k) b'"
    and nz: "k \<noteq> 0 \<Longrightarrow> map_of (hkeys b') = (map_of (hkeys (new ! hidx (mask w) k)))(k \<mapsto> d)"
    and z: "\<And>j. k = 0 \<Longrightarrow> key_ok j \<Longrightarrow> map_of (hkeys b') j = map_of (hkeys (new ! hidx (mask w) k)) j"
  shows "moved (mask w) new [(k, d)] (new[hidx (mask w) k := b'])"
proof (cases "k = 0")
  case True
  have "tbl_ok (mask w) (new[hidx (mask w) k := b']) \<and>
      tbl_abs (mask w) (new[hidx (mask w) k := b']) = tbl_abs (mask w) new"
    by (rule tbl_same [OF t ok]) (rule z [OF True])
  with True show ?thesis by (auto simp: moved_def key_ok_def)
next
  case False
  with k have "key_ok k" by (simp add: key_ok_def)
  then have "tbl_ok (mask w) (new[hidx (mask w) k := b']) \<and>
      tbl_abs (mask w) (new[hidx (mask w) k := b']) = (tbl_abs (mask w) new)(k \<mapsto> d)"
    by (intro tbl_update [OF t _ ok]) (simp_all add: nz [OF False])
  then show ?thesis by (auto simp: moved_def)
qed

lemma moved_fill:
  assumes t: "tbl_ok (mask w) new" "length new = 2 ^ w" and f: "fresh_for (mask w) new [(k, d)]"
    and b: "bid (new ! hidx (mask w) k) = - 1"
  shows "moved (mask w) new [(k, d)] (new[hidx (mask w) k := (new ! hidx (mask w) k)\<lparr>bid := k, bdata := d\<rparr>])"
proof -
  have k: "k \<noteq> - 1" using f by (simp add: fresh_for_def)
  note fill = bucket_fill [OF tbl_okD [OF t] b k refl, of d]
  show ?thesis
  proof (rule moved_put [OF t k conjunct1 [OF fill]])
    show "map_of (hkeys ((new ! hidx (mask w) k)\<lparr>bid := k, bdata := d\<rparr>)) =
      (map_of (hkeys (new ! hidx (mask w) k)))(k \<mapsto> d)" by (rule conjunct2 [OF fill])
    then show "map_of (hkeys ((new ! hidx (mask w) k)\<lparr>bid := k, bdata := d\<rparr>)) j =
      map_of (hkeys (new ! hidx (mask w) k)) j" if "k = 0" "key_ok j" for j
      using that by (simp only: fun_upd_apply) (simp add: key_ok_def)
  qed
qed

lemma moved_push:
  assumes t: "tbl_ok (mask w) new" "length new = 2 ^ w" and f: "fresh_for (mask w) new [(hid n, hdata n)]"
    and b: "bid (new ! hidx (mask w) (hid n)) \<noteq> - 1" and l: "hlive n"
  shows "moved (mask w) new [(hid n, hdata n)]
    (new[hidx (mask w) (hid n) := (new ! hidx (mask w) (hid n))\<lparr>bnext := n # bnext (new ! hidx (mask w) (hid n))\<rparr>])"
proof -
  have k: "hid n \<noteq> - 1" using f by (simp add: fresh_for_def)
  have fr: "hid n = 0 \<or> hid n \<notin> set (hids (new ! hidx (mask w) (hid n)))"
    using f k by (auto simp: fresh_for_def tbl_abs_def key_ok_def hkeys_None)
  show ?thesis
  proof (rule moved_put [OF t k])
    show "bucket_ok (mask w) (hidx (mask w) (hid n))
        ((new ! hidx (mask w) (hid n))\<lparr>bnext := n # bnext (new ! hidx (mask w) (hid n))\<rparr>)"
      by (rule bucket_push_ok [OF tbl_okD [OF t] b fr refl k l])
    show "map_of (hkeys ((new ! hidx (mask w) (hid n))\<lparr>bnext := n # bnext (new ! hidx (mask w) (hid n))\<rparr>)) =
        (map_of (hkeys (new ! hidx (mask w) (hid n))))(hid n \<mapsto> hdata n)" if "hid n \<noteq> 0"
      by (rule bucket_push_upd [OF b]) (use fr that in simp)
    show "map_of (hkeys ((new ! hidx (mask w) (hid n))\<lparr>bnext := n # bnext (new ! hidx (mask w) (hid n))\<rparr>)) j =
        map_of (hkeys (new ! hidx (mask w) (hid n))) j" if "hid n = 0" "key_ok j" for j
      by (rule bucket_push_other) (use that in \<open>simp add: key_ok_def\<close>)
  qed
qed

lemma moved_trans:
  assumes "moved msk new E1 new1" "moved msk new1 E2 new2" "fresh_for msk new (E1 @ E2)"
  shows "moved msk new (E1 @ E2) new2"
proof -
  have "map_of E1 k = None" if "key_ok k" "map_of E2 k = Some d" for k d
  proof -
    from that have "k \<in> set (filter (\<lambda>k. k \<noteq> 0) (map fst E2))"
      by (force simp: key_ok_def dest: map_of_SomeD)
    with assms(3) have "k \<notin> set (filter (\<lambda>k. k \<noteq> 0) (map fst E1))"
      by (auto simp: fresh_for_def disjoint_iff)
    with that show ?thesis by (auto simp: key_ok_def map_of_eq_None_iff)
  qed
  with assms(1,2) show ?thesis
    by (fastforce simp: moved_def map_add_def split: option.splits)
qed

lemma fresh_for_append:
  assumes "moved msk new E1 new1" "fresh_for msk new (E1 @ E2)"
  shows "fresh_for msk new1 E2"
proof -
  have "tbl_abs msk new1 k = None" if k: "k \<in> fst ` set E2" for k
  proof (cases "key_ok k")
    case True
    with k have "k \<in> set (filter (\<lambda>k. k \<noteq> 0) (map fst E2))" by (auto simp: key_ok_def)
    with assms(2) have "k \<notin> set (filter (\<lambda>k. k \<noteq> 0) (map fst E1))"
      by (auto simp: fresh_for_def disjoint_iff)
    with True have "map_of E1 k = None" by (auto simp: key_ok_def map_of_eq_None_iff)
    with True assms(1) have "tbl_abs msk new1 k = tbl_abs msk new k" by (simp add: moved_def)
    moreover from k assms(2) have "tbl_abs msk new k = None" by (auto simp: fresh_for_def)
    ultimately show ?thesis by simp
  qed (simp add: map_of_not_key)
  with assms(2) show ?thesis by (auto simp: fresh_for_def)
qed

lemma fresh_for_prefix: "fresh_for msk new (E1 @ E2) \<Longrightarrow> fresh_for msk new E1"
  by (auto simp: fresh_for_def)

lemma place_head_moved:
  assumes "tbl_ok (mask w) new" "length new = 2 ^ w" "fresh_for (mask w) new [(k, d)]"
    "place_head (mask w) k d new m = (Some new', m')"
  shows "moved (mask w) new [(k, d)] new' \<and> (plenty m \<longrightarrow> plenty m')"
proof (cases "bid (new ! hidx (mask w) k) = - 1")
  case True
  with assms(4) have "new' = new[hidx (mask w) k := (new ! hidx (mask w) k)\<lparr>bid := k, bdata := d\<rparr>]" "m' = m"
    by (auto simp: place_head_def Let_def)
  with moved_fill [OF assms(1-3) True] show ?thesis by simp
next
  case False
  obtain p m1 where m1: "malloc m = (p, m1)" by (cases "malloc m")
  let ?n = "\<lparr>haddr = p, hid = k, hdata = d, hlive = True\<rparr>"
  from False assms(4) m1 have p: "m1 = m'"
    "new' = new[hidx (mask w) k := (new ! hidx (mask w) k)\<lparr>bnext := ?n # bnext (new ! hidx (mask w) k)\<rparr>]"
    by (simp_all add: place_head_def Let_def split: if_splits)
  have "moved (mask w) new [(k, d)] new'"
    using moved_push [OF assms(1,2), of ?n] assms(3) False p(2) by simp
  with malloc_oom [OF m1] p(1) show ?thesis by (simp add: plenty_def)
qed

lemma place_head_total: "plenty m \<Longrightarrow> \<exists>new' m'. place_head msk k d new m = (Some new', m')"
  by (simp add: place_head_def Let_def malloc_def plenty_def)

lemma place_node_moved:
  assumes "tbl_ok (mask w) new" "length new = 2 ^ w" "fresh_for (mask w) new [(hid n, hdata n)]" "hlive n"
  shows "moved (mask w) new [(hid n, hdata n)] (place_node (mask w) n new)"
  using moved_fill [OF assms(1-3)] moved_push [OF assms(1-3) _ assms(4)]
  by (cases "bid (new ! hidx (mask w) (hid n)) = - 1") (simp_all add: place_node_def Let_def)

lemma place_chain_moved:
  "tbl_ok (mask w) new \<Longrightarrow> length new = 2 ^ w \<Longrightarrow> fresh_for (mask w) new (ch ns) \<Longrightarrow> \<forall>n \<in> set ns. hlive n \<Longrightarrow>
    \<exists>new'. place_chain (mask w) ns new = Some new' \<and> moved (mask w) new (ch ns) new'"
proof (induction ns arbitrary: new)
  case Nil
  then show ?case by (simp add: moved_def)
next
  case (Cons n ns)
  let ?E = "[(hid n, hdata n)]"
  have fr: "fresh_for (mask w) new (?E @ ch ns)" using Cons.prems by simp
  from Cons.prems fresh_for_prefix [OF fr] have m: "moved (mask w) new ?E (place_node (mask w) n new)"
    by (intro place_node_moved) auto
  from m Cons.prems have "tbl_ok (mask w) (place_node (mask w) n new)" "length (place_node (mask w) n new) = 2 ^ w"
    by (auto simp: moved_def)
  with Cons.IH [OF _ _ fresh_for_append [OF m fr]] Cons.prems obtain new' where
    n: "place_chain (mask w) ns (place_node (mask w) n new) = Some new'"
    "moved (mask w) (place_node (mask w) n new) (ch ns) new'" by auto
  from moved_trans [OF m n(2) fr] n(1) Cons.prems show ?case by simp
qed

lemma rehash_moved:
  assumes "plenty m"
  shows "tbl_ok (mask w) new \<Longrightarrow> length new = 2 ^ w \<Longrightarrow> fresh_for (mask w) new (concat (map hkeys bs)) \<Longrightarrow>
    \<forall>b \<in> set bs. \<forall>n \<in> set (bnext b). hlive n \<Longrightarrow>
    \<exists>new' m'. rehash (mask w) bs new m = Some (Inr new', m') \<and> moved (mask w) new (concat (map hkeys bs)) new' \<and> plenty m'"
  using assms
proof (induction bs arbitrary: new m)
  case Nil
  then show ?case by (auto simp: moved_def)
next
  case (Cons b bs)
  show ?case
  proof (cases "bid b = - 1")
    case True
    with Cons show ?thesis by (simp add: hkeys_def [of b])
  next
    case False
    let ?h = "[(bid b, bdata b)]" and ?r = "concat (map hkeys bs)"
    from False Cons.prems(3) have fr: "fresh_for (mask w) new (?h @ (ch (bnext b) @ ?r))"
      by (simp add: hkeys_def [of b])
    obtain n1 m1 where p1: "place_head (mask w) (bid b) (bdata b) new m = (Some n1, m1)"
      using place_head_total [OF Cons.prems(5)] by blast
    from place_head_moved [OF Cons.prems(1,2) fresh_for_prefix [OF fr] p1]
    have m1: "moved (mask w) new ?h n1" "plenty m1" using Cons.prems(5) by simp_all
    with Cons.prems(2) have n1: "tbl_ok (mask w) n1" "length n1 = 2 ^ w" by (simp_all add: moved_def)
    note fr1 = fresh_for_append [OF m1(1) fr]
    obtain n2 where p2: "place_chain (mask w) (bnext b) n1 = Some n2" "moved (mask w) n1 (ch (bnext b)) n2"
      using place_chain_moved [OF n1 fresh_for_prefix [OF fr1]] Cons.prems(4) by auto
    with n1 have n2: "tbl_ok (mask w) n2" "length n2 = 2 ^ w" by (simp_all add: moved_def)
    obtain n3 m3 where p3: "rehash (mask w) bs n2 m1 = Some (Inr n3, m3)" "moved (mask w) n2 ?r n3" "plenty m3"
      using Cons.IH [OF n2 fresh_for_append [OF p2(2) fr1] _ m1(2)] Cons.prems(4) by auto
    have "moved (mask w) new (?h @ (ch (bnext b) @ ?r)) n3"
      by (rule moved_trans [OF m1(1) moved_trans [OF p2(2) p3(2) fr1] fr])
    with False p1 p2(1) p3 show ?thesis by (simp add: hkeys_def [of b])
  qed
qed

section \<open>The entries of a whole table\<close>

lemma map_of_concat_None: "\<forall>x \<in> set xs. map_of x k = None \<Longrightarrow> map_of (concat xs) k = None"
  by (induction xs) (auto simp: map_add_def)

lemma map_of_concat_at:
  assumes "i < length xs" "\<And>j. j < length xs \<Longrightarrow> j \<noteq> i \<Longrightarrow> map_of (xs ! j) k = None"
  shows "map_of (concat xs) k = map_of (xs ! i) k"
proof -
  have "\<forall>x \<in> set (take i xs). map_of x k = None" "\<forall>x \<in> set (drop (Suc i) xs). map_of x k = None"
    using assms by (auto simp: in_set_conv_nth)
  then have "map_of (concat (take i xs)) k = None" "map_of (concat (drop (Suc i) xs)) k = None"
    by (simp_all add: map_of_concat_None)
  moreover have "concat xs = concat (take i xs) @ xs ! i @ concat (drop (Suc i) xs)"
    using id_take_nth_drop [OF assms(1)] by (metis concat.simps(2) concat_append)
  ultimately show ?thesis by (simp add: map_add_def split: option.splits)
qed

lemma tbl_entries_abs:
  assumes "tbl_ok (mask w) t" "length t = 2 ^ w" "key_ok k"
  shows "map_of (concat (map hkeys t)) k = tbl_abs (mask w) t k"
proof -
  have "map_of (concat (map hkeys t)) k = map_of (map hkeys t ! hidx (mask w) k) k"
    using assms by (intro map_of_concat_at) (auto simp: tbl_ok_def intro: bucket_abs)
  then show ?thesis using assms by (simp add: tbl_abs_def)
qed

lemma tbl_entries_distinct_upto:
  assumes "tbl_ok (mask w) t" "length t = 2 ^ w" "n \<le> length t"
  shows "distinct (filter (\<lambda>k. k \<noteq> 0) (concat (map hids (take n t)))) \<and>
    (\<forall>k \<in> set (concat (map hids (take n t))). k \<noteq> - 1 \<and> (k = 0 \<or> hidx (mask w) k < n))"
  using assms(3)
proof (induction n)
  case (Suc n)
  have b: "bucket_ok (mask w) n (t ! n)" using assms Suc.prems by (simp add: tbl_ok_def)
  then have h: "distinct (filter (\<lambda>k. k \<noteq> 0) (hids (t ! n)))"
    "\<forall>k \<in> set (hids (t ! n)). k \<noteq> - 1 \<and> (k = 0 \<or> hidx (mask w) k = n)"
    by (auto simp: bucket_ok_def hids_def)
  have e: "take (Suc n) t = take n t @ [t ! n]" using Suc.prems by (simp add: take_Suc_conv_app_nth)
  let ?P = "\<lambda>k :: i32. k \<noteq> 0"
  have "set (filter ?P (concat (map hids (take n t)))) \<inter> set (filter ?P (hids (t ! n))) = {}"
  proof (intro equals0I)
    fix x assume x: "x \<in> set (filter ?P (concat (map hids (take n t)))) \<inter> set (filter ?P (hids (t ! n)))"
    then have "hidx (mask w) x < n" using Suc by auto
    moreover from x h(2) have "hidx (mask w) x = n" by auto
    ultimately show False by simp
  qed
  with Suc h show ?case by (fastforce simp: e)
qed simp

lemma tbl_entries_fresh:
  assumes t: "tbl_ok (mask w) t" "length t = 2 ^ w" and e: "\<And>k. key_ok k \<Longrightarrow> tbl_abs (mask v) new k = None"
  shows "fresh_for (mask v) new (concat (map hkeys t))"
proof -
  have f: "map fst (concat (map hkeys t)) = concat (map hids t)"
    by (simp add: map_concat map_fst_hkeys o_def)
  then have s: "fst ` set (concat (map hkeys t)) = set (concat (map hids t))"
    by (metis set_map)
  from tbl_entries_distinct_upto [OF t order_refl]
  have "distinct (filter (\<lambda>k. k \<noteq> 0) (concat (map hids t)))" "\<forall>k \<in> set (concat (map hids t)). k \<noteq> - 1"
    by simp_all
  moreover have "tbl_abs (mask v) new k = None" for k
    using e map_of_not_key by blast
  ultimately show ?thesis unfolding fresh_for_def f s by blast
qed

section \<open>Resizing\<close>

lemma new_table_ok:
  assumes "1 \<le> w"
  shows "tbl_ok (mask w) (hempty # replicate (2 ^ w - 1) hzero)"
    and "length (hempty # replicate (2 ^ w - 1) hzero) = 2 ^ w"
    and "key_ok k \<Longrightarrow> tbl_abs (mask w) (hempty # replicate (2 ^ w - 1) hzero) k = None"
proof -
  show "tbl_ok (mask w) (hempty # replicate (2 ^ w - 1) hzero)"
    by (auto simp: tbl_ok_def bucket_ok_def hids_def nth_Cons split: nat.splits)
  show "length (hempty # replicate (2 ^ w - 1) hzero) = 2 ^ w" by simp
  assume k: "key_ok k"
  have "hidx (mask w) k < 2 ^ w" by simp
  then show "tbl_abs (mask w) (hempty # replicate (2 ^ w - 1) hzero) k = None"
    using k by (cases "hidx (mask w) k") (simp_all add: tbl_abs_def key_ok_def hkeys_def)
qed

lemma htable_resize_ok:
  assumes wf: "ht_wf ht" and v: "hwidth ht < v" "v \<le> DYCO_HTABLE_MAXWITDH" and m: "plenty m"
  shows "\<exists>ht' m'. htable_resize ht v m = Some (0, ht', m') \<and> ht_wf ht' \<and> ht_abs ht' = ht_abs ht \<and>
    hcount ht' = hcount ht \<and> hwidth ht' = v \<and> plenty m'"
proof -
  from wf obtain t w where t: "htable ht = TBuckets t" "hwidth ht = int w" "1 \<le> w" "w \<le> 24" "hmask ht = mask w"
    "length t = 2 ^ w" "tbl_ok (mask w) t" "hcount ht = int (card (dom (tbl_abs (mask w) t)))" by (rule ht_wfE)
  let ?v = "nat v" and ?new = "hempty # replicate (2 ^ nat v - 1) hzero"
  from v t have v1: "1 \<le> ?v" "int ?v = v" "v \<le> 24" by (auto simp: DYCO_HTABLE_MAXWITDH_def)
  from m obtain p m1 where m1: "malloc m = (p, m1)" "p \<noteq> NULL" "plenty m1" by (rule plentyE)
  have live: "\<forall>b \<in> set t. \<forall>n \<in> set (bnext b). hlive n"
    using t(7) by (fastforce simp: tbl_ok_def in_set_conv_nth dest: bucket_live)
  obtain new' m2 where r: "rehash (mask ?v) t ?new m1 = Some (Inr new', m2)"
    "moved (mask ?v) ?new (concat (map hkeys t)) new'" "plenty m2"
    using rehash_moved [OF m1(3) new_table_ok(1,2) [OF v1(1)]
        tbl_entries_fresh [OF t(7,6) new_table_ok(3) [OF v1(1)]] live] by auto
  have a: "tbl_abs (mask ?v) new' = tbl_abs (mask w) t"
  proof
    fix k
    show "tbl_abs (mask ?v) new' k = tbl_abs (mask w) t k"
    proof (cases "key_ok k")
      case True
      with r(2) new_table_ok(3) [OF v1(1) True] tbl_entries_abs [OF t(7,6) True] show ?thesis
        by (auto simp: moved_def split: option.splits)
    qed (simp add: map_of_not_key)
  qed
  let ?ht = "ht\<lparr>hmask := mask ?v, hwidth := v, htable := TBuckets new'\<rparr>"
  have "htable_resize ht v m = Some (0, ?ht, m2)"
    using v t(1,2) m1 r(1) unfolding htable_resize_def push_bit_minus_one_mask by simp
  moreover have "ht_wf ?ht" "ht_abs ?ht = ht_abs ht"
    using r(2) t v1 a new_table_ok(2) [OF v1(1)]
    by (simp_all add: ht_wf_def ht_abs_def moved_def DYCO_HTABLE_MAXWITDH_def)
  ultimately show ?thesis using r(3) by auto
qed

section \<open>Inserting\<close>

lemma sint_mask: "w \<le> 24 \<Longrightarrow> sint (mask w :: i32) = 2 ^ w - 1"
proof -
  assume w: "w \<le> 24"
  have "(2 :: int) ^ w \<le> 2 ^ 24" using w by (intro power_increasing) auto
  then have "(2 :: int) ^ w - 1 < 2 ^ 31" by simp
  moreover have "- (2 ^ 31) \<le> (2 :: int) ^ w - 1" by (rule order_trans [of _ 0]) simp_all
  ultimately have "signed_take_bit 31 ((2 :: int) ^ w - 1) = 2 ^ w - 1"
    by (rule signed_take_bit_int_eq_self [rotated])
  then have "sint (word_of_int (2 ^ w - 1) :: i32) = 2 ^ w - 1"
    by (subst signed_of_int) simp
  moreover have "mask w = (word_of_int (2 ^ w - 1) :: i32)"
    by (simp add: mask_eq_exp_minus_1)
  ultimately show ?thesis by (simp only:)
qed

text \<open>
  Growing keeps the map. It fails (-1) only when the table is already as wide as it may get, and
  then leaves it as it was.
\<close>

definition load_ok :: "dyco_htable \<Rightarrow> bool" where
  "load_ok ht = (hcount ht < sint (hmask ht) * DYCO_HTABLE_MAXALPHA)"

lemma wf_sint_mask: "ht_wf ht \<Longrightarrow> sint (hmask ht) = 2 ^ nat (hwidth ht) - 1"
  by (auto elim!: ht_wfE simp: sint_mask)

lemma htable_grow_ok:
  assumes wf: "ht_wf ht" and m: "plenty m"
  shows "\<exists>r ht' m'. htable_grow ht m = Some (r, ht', m') \<and> ht_wf ht' \<and> ht_abs ht' = ht_abs ht \<and> plenty m' \<and>
    r = (if sint (hmask ht) * DYCO_HTABLE_MAXALPHA = hcount ht \<and> hwidth ht = DYCO_HTABLE_MAXWITDH then - 1 else 1) \<and>
    (hwidth ht < DYCO_HTABLE_MAXWITDH \<and> hcount ht \<le> sint (hmask ht) * DYCO_HTABLE_MAXALPHA \<longrightarrow> load_ok ht')"
proof (cases "sint (hmask ht) * DYCO_HTABLE_MAXALPHA = hcount ht")
  case False
  with assms show ?thesis by (simp add: htable_grow_def load_ok_def)
next
  case True
  show ?thesis
  proof (cases "hwidth ht = DYCO_HTABLE_MAXWITDH")
    case False
    moreover from wf have w: "1 \<le> hwidth ht" "hwidth ht \<le> DYCO_HTABLE_MAXWITDH"
      by (auto simp: ht_wf_def split: htab.splits)
    ultimately have "hwidth ht < hwidth ht + 1" "hwidth ht + 1 \<le> DYCO_HTABLE_MAXWITDH" by simp_all
    with htable_resize_ok [OF wf _ _ m] obtain ht' m' where
      r: "htable_resize ht (hwidth ht + 1) m = Some (0, ht', m')" "ht_wf ht'" "ht_abs ht' = ht_abs ht"
      "hcount ht' = hcount ht" "hwidth ht' = hwidth ht + 1" "plenty m'" by blast
    have "nat (hwidth ht + 1) = Suc (nat (hwidth ht))" using w by simp
    then have "sint (hmask ht') = 2 * 2 ^ nat (hwidth ht) - 1"
      using r(5) wf_sint_mask [OF r(2)] by simp
    moreover have "(0 :: int) < 2 ^ nat (hwidth ht)" by simp
    ultimately have "load_ok ht'"
      using r(4) True wf_sint_mask [OF wf] unfolding load_ok_def DYCO_HTABLE_MAXALPHA_def by linarith
    with r True False show ?thesis by (auto simp: htable_grow_def)
  next
    case mx: True
    with assms True show ?thesis by (simp add: htable_grow_def htable_resize_def)
  qed
qed

lemma htable_insert_present:
  assumes wf: "ht_wf ht" and k: "key_ok k" and d: "ht_abs ht k \<noteq> None"
  shows "\<exists>ht'. htable_insert ht k e m = Some (0, ht', m) \<and> ht_wf ht' \<and> ht_abs ht' = (ht_abs ht)(k \<mapsto> e) \<and>
    hcount ht' = hcount ht \<and> hmask ht' = hmask ht"
proof -
  from wf obtain b where b: "hb_at ht k = Some b" "bucket_ok (hmask ht) (hidx (hmask ht) k) b"
    "ht_abs ht k = map_of (hkeys b) k" by (rule ht_wf_bucket [where k = k]) (use k in auto)
  from wf obtain w where w: "hmask ht = mask w" using hmask_mask by blast
  from d b(3) have ne: "bid b \<noteq> - 1" by (auto simp: hkeys_def)
  have c: "hcount ht = int (card (dom ((ht_abs ht)(k \<mapsto> e))))"
    using card_dom_old [of "ht_abs ht" k, OF d] ht_wf_count [OF wf] by simp
  note put = ht_wf_put [OF wf b(1) k _ _ c, unfolded hb_put_hcount_id w]
  show ?thesis
  proof (cases "bid b = k")
    case True
    from put bucket_set_head [OF b(2) [unfolded w] True k] b(1) ne True
    show ?thesis by (simp add: htable_insert_def)
  next
    case False
    with d b(3) ne have m: "map_of (ch (bnext b)) k \<noteq> None" by (simp add: hkeys_def)
    with hc_update_absent hc_update_None bucket_live [OF b(2)] obtain ns where
      u: "hc_update k e (bnext b) = Some (Some ns)" by (metis option.exhaust)
    from put bucket_set_chain [OF b(2) [unfolded w] ne False u] b(1) ne False u
    show ?thesis by (simp add: htable_insert_def)
  qed
qed

lemma htable_insert_absent:
  assumes wf: "ht_wf ht" and k: "key_ok k" and a: "ht_abs ht k = None" and m: "plenty m"
  shows "\<exists>r ht' m'. htable_insert ht k e m = Some (r, ht', m') \<and> ht_wf ht' \<and> ht_abs ht' = (ht_abs ht)(k \<mapsto> e) \<and>
    plenty m' \<and> (r = 1 \<or> r = - 1 \<and> hwidth ht = DYCO_HTABLE_MAXWITDH) \<and>
    (hwidth ht < DYCO_HTABLE_MAXWITDH \<and> load_ok ht \<longrightarrow> load_ok ht')"
proof -
  from wf obtain b where b: "hb_at ht k = Some b" "bucket_ok (hmask ht) (hidx (hmask ht) k) b"
    "ht_abs ht k = map_of (hkeys b) k" by (rule ht_wf_bucket [where k = k]) (use k in auto)
  from wf obtain w where w: "hmask ht = mask w" using hmask_mask by blast
  from a b(3) have nk: "k \<notin> set (hids b)" by (simp add: hkeys_None)
  have c: "hcount ht + 1 = int (card (dom ((ht_abs ht)(k \<mapsto> e))))"
    using card_dom_new [of "ht_abs ht" k, OF a] ht_wf_count [OF wf] by simp
  note put = ht_wf_put [OF wf b(1) k _ _ c, unfolded w]
  have grow: ?thesis if "ht_wf ht1" "ht_abs ht1 = (ht_abs ht)(k \<mapsto> e)" "hwidth ht1 = hwidth ht" "plenty m1"
    "htable_insert ht k e m = htable_grow ht1 m1" "hmask ht1 = hmask ht" "hcount ht1 = hcount ht + 1" for ht1 m1
    using htable_grow_ok [OF that(1,4)] that by (auto simp: load_ok_def split: if_splits)
  show ?thesis
  proof (cases "bid b = - 1")
    case True
    from k have "k \<noteq> - 1" by (simp add: key_ok_def)
    from put bucket_fill [OF b(2) [unfolded w] True this refl, of e] True b(1) m
    show ?thesis
      by (intro grow [of "(hb_put k (b\<lparr>bid := k, bdata := e\<rparr>) ht)\<lparr>hcount := hcount ht + 1\<rparr>" m])
        (simp_all add: htable_insert_def)
  next
    case False
    obtain p m1 where m1: "malloc m = (p, m1)" "p \<noteq> NULL" "plenty m1" using m by (rule plentyE)
    let ?n = "\<lparr>haddr = p, hid = k, hdata = e, hlive = True\<rparr>"
    from False nk have "bid b \<noteq> k" "map_of (ch (bnext b)) k = None"
      by (auto simp: hids_def map_of_eq_None_iff ch_def)
    moreover from this have "hc_update k e (bnext b) = Some None"
      using hc_update_absent bucket_live [OF b(2)] by blast
    moreover have "bucket_ok (mask w) (hidx (mask w) k) (b\<lparr>bnext := ?n # bnext b\<rparr>)"
      using bucket_push_ok [OF b(2) [unfolded w] False, of ?n] nk k by (simp add: key_ok_def)
    moreover have "map_of (hkeys (b\<lparr>bnext := ?n # bnext b\<rparr>)) = (map_of (hkeys b))(k \<mapsto> e)"
      using bucket_push_upd [OF False, of ?n] nk by simp
    ultimately show ?thesis
      using put False b(1) m1
      by (intro grow [of "(hb_put k (b\<lparr>bnext := ?n # bnext b\<rparr>) ht)\<lparr>hcount := hcount ht + 1\<rparr>" m1])
        (simp_all add: htable_insert_def)
  qed
qed

text \<open>Away from its load limit the table keeps its size.\<close>

lemma malloc_nalloc: "malloc m = (p, m') \<Longrightarrow> nalloc m \<le> nalloc m'"
  by (auto simp: malloc_def)

lemma htable_insert_small:
  assumes "htable_insert ht k e m = Some (r, ht', m')" and "hcount ht + 1 < sint (hmask ht) * DYCO_HTABLE_MAXALPHA"
  shows "hwidth ht' = hwidth ht" and "nalloc m \<le> nalloc m'"
  using assms
  by (auto simp: htable_insert_def htable_grow_def hb_put_def dest: malloc_nalloc split: option.splits if_splits prod.splits htab.splits)

section \<open>Creating\<close>

lemma htable_init_ok:
  assumes "plenty m"
  shows "\<exists>ht m'. htable_init v m = (0, ht, m') \<and> ht_wf ht \<and> ht_abs ht = Map.empty \<and> plenty m' \<and>
    hwidth ht = (if v \<le> 0 then 16 else min v 24)"
proof -
  from assms obtain p m1 where m1: "malloc m = (p, m1)" "p \<noteq> NULL" "plenty m1" by (rule plentyE)
  define w where "w = (if v \<le> 0 then 16 else min v 24)"
  then have w: "1 \<le> w" "w \<le> 24" by auto
  let ?ht = "\<lparr>hwidth = w, hmask = mask (nat w), hcount = 0, htable = TBuckets (replicate (2 ^ nat w) hempty)\<rparr>"
  have e: "tbl_abs (mask (nat w)) (replicate (2 ^ nat w) hempty) = Map.empty"
    by (rule ext) (simp add: tbl_abs_def hkeys_def)
  have "htable_init v m = (0, ?ht, m1)"
    unfolding htable_init_def push_bit_minus_one_mask
    using m1 by (simp add: w_def DYCO_HTABLE_MAXWITDH_def DYCO_HTABLE_DEFAULTWITDH_def min_def)
  moreover have "ht_wf ?ht"
    using w e by (simp add: ht_wf_def tbl_ok_def bucket_ok_def hids_def DYCO_HTABLE_MAXWITDH_def)
  ultimately show ?thesis using e m1(3) by (auto simp: ht_abs_def w_def)
qed

section \<open>The interface the other components use\<close>

text \<open>
  What a client of the table relies on: a finite map from admissible identifiers to pointers. The
  operations are the C functions; \<open>abs\<close> is what the client knows of the table.
\<close>

locale id_map =
  fixes wf :: "'m \<Rightarrow> bool"
    and abs :: "'m \<Rightarrow> i32 \<rightharpoonup> addr"
    and find :: "'m \<Rightarrow> i32 \<Rightarrow> addr option"
    and insert :: "'m \<Rightarrow> i32 \<Rightarrow> addr \<Rightarrow> mem \<Rightarrow> (int \<times> 'm \<times> mem) option"
    and delete :: "'m \<Rightarrow> i32 \<Rightarrow> (int \<times> addr option \<times> 'm) option"
    and count :: "'m \<Rightarrow> int"
  assumes find_law: "wf t \<Longrightarrow> key_ok k \<Longrightarrow> find t k = Some (case abs t k of None \<Rightarrow> NULL | Some d \<Rightarrow> d)"
    and insert_law: "wf t \<Longrightarrow> key_ok k \<Longrightarrow> plenty m \<Longrightarrow>
      \<exists>r t' m'. insert t k d m = Some (r, t', m') \<and> wf t' \<and> abs t' = (abs t)(k \<mapsto> d) \<and> plenty m'"
    and delete_law: "wf t \<Longrightarrow> key_ok k \<Longrightarrow>
      \<exists>r t'. delete t k = Some (r, abs t k, t') \<and> wf t' \<and> abs t' = (abs t)(k := None)"
    and count_law: "wf t \<Longrightarrow> count t = int (card (dom (abs t)))"
begin

lemma find_insert:
  assumes "wf t" "key_ok k" "key_ok j" "plenty m" "insert t k d m = Some (r, t', m')"
  shows "find t' j = (if j = k then Some d else find t j)"
  using insert_law [OF assms(1,2,4), of d] assms by (auto simp: find_law)

lemma find_delete:
  assumes "wf t" "key_ok k" "key_ok j" "delete t k = Some (r, d, t')"
  shows "find t' j = (if j = k then Some NULL else find t j)"
  using delete_law [OF assms(1,2)] assms by (auto simp: find_law)

lemma count_empty: "wf t \<Longrightarrow> count t = 0 \<longleftrightarrow> abs t = Map.empty"
  by (simp add: count_law card_eq_0_iff dom_eq_empty_conv)

end

text \<open>A client's history: a sequence of insertions and deletions.\<close>

datatype hop = HIns i32 addr | HDel i32

fun hop_key :: "hop \<Rightarrow> i32" where
  "hop_key (HIns k d) = k"
| "hop_key (HDel k) = k"

fun run_hops :: "('m \<Rightarrow> i32 \<Rightarrow> addr \<Rightarrow> mem \<Rightarrow> (int \<times> 'm \<times> mem) option) \<Rightarrow>
    ('m \<Rightarrow> i32 \<Rightarrow> (int \<times> addr option \<times> 'm) option) \<Rightarrow> hop list \<Rightarrow> 'm \<Rightarrow> mem \<Rightarrow> ('m \<times> mem) option" where
  "run_hops ins del [] t m = Some (t, m)"
| "run_hops ins del (HIns k d # hs) t m =
    (case ins t k d m of None \<Rightarrow> None | Some (_, t', m') \<Rightarrow> run_hops ins del hs t' m')"
| "run_hops ins del (HDel k # hs) t m =
    (case del t k of None \<Rightarrow> None | Some (_, _, t') \<Rightarrow> run_hops ins del hs t' m)"

fun spec_hops :: "hop list \<Rightarrow> (i32 \<rightharpoonup> addr) \<Rightarrow> (i32 \<rightharpoonup> addr)" where
  "spec_hops [] f = f"
| "spec_hops (HIns k d # hs) f = spec_hops hs (f(k \<mapsto> d))"
| "spec_hops (HDel k # hs) f = spec_hops hs (f(k := None))"

context id_map
begin

lemma run_hops_refines:
  "wf t \<Longrightarrow> plenty m \<Longrightarrow> \<forall>h \<in> set hs. key_ok (hop_key h) \<Longrightarrow>
    \<exists>t' m'. run_hops insert delete hs t m = Some (t', m') \<and> wf t' \<and> abs t' = spec_hops hs (abs t)"
proof (induction hs arbitrary: t m)
  case (Cons h hs)
  show ?case
  proof (cases h)
    case (HIns k d)
    with Cons.prems insert_law [of t k m d] obtain r t' m' where
      "insert t k d m = Some (r, t', m')" "wf t'" "abs t' = (abs t)(k \<mapsto> d)" "plenty m'" by auto
    with Cons.IH [of t' m'] Cons.prems HIns show ?thesis by (auto simp del: fun_upd_apply)
  next
    case (HDel k)
    with Cons.prems delete_law [of t k] obtain r t' where
      "delete t k = Some (r, abs t k, t')" "wf t'" "abs t' = (abs t)(k := None)" by auto
    with Cons.IH [of t' m] Cons.prems HDel show ?thesis by (auto simp del: fun_upd_apply)
  qed
qed simp

end

interpretation htab: id_map ht_wf ht_abs htable_find htable_insert htable_delete hcount
proof unfold_locales
  fix ht k m d assume *: "ht_wf ht" "key_ok k" "plenty m"
  then show "\<exists>r t' m'. htable_insert ht k d m = Some (r, t', m') \<and> ht_wf t' \<and> ht_abs t' = (ht_abs ht)(k \<mapsto> d) \<and> plenty m'"
    using htable_insert_present [OF *(1,2), of d m] htable_insert_absent [OF *(1,2) _ *(3), of d]
    by (cases "ht_abs ht k") auto
next
  fix ht k assume *: "ht_wf ht" "key_ok k"
  then show "\<exists>r t'. htable_delete ht k = Some (r, ht_abs ht k, t') \<and> ht_wf t' \<and> ht_abs t' = (ht_abs ht)(k := None)"
    using htable_delete_absent [OF *] htable_delete_present [OF *]
    by (cases "ht_abs ht k") (auto simp: fun_upd_idem)
qed (simp_all add: htable_find_abs ht_wf_count)

section \<open>What a resizing leaves in the bucket heads\<close>

text \<open>
  The entries that \<^verbatim>\<open>calloc\<close> left at zero stay in the table as heads with the
  identifier 0. The next resizing takes them for entries and moves them to bucket 0.
\<close>

definition kept :: "hbucket list \<Rightarrow> hbucket list \<Rightarrow> bool" where
  "kept new new' =
    (length new' = length new \<and>
     (\<forall>i < length new. set (hids (new ! i)) \<subseteq> set (hids (new' ! i)) \<and>
        (bid (new ! i) \<noteq> - 1 \<longrightarrow> bid (new' ! i) = bid (new ! i))))"

lemma kept_refl [simp]: "kept new new"
  by (simp add: kept_def)

lemma kept_trans: "kept a b \<Longrightarrow> kept b c \<Longrightarrow> kept a c"
  by (fastforce simp: kept_def)

lemma kept_update:
  assumes "set (hids (new ! i)) \<subseteq> set (hids b)" "bid (new ! i) \<noteq> - 1 \<longrightarrow> bid b = bid (new ! i)"
  shows "kept new (new[i := b])"
  using assms by (cases "i < length new") (auto simp: kept_def nth_list_update list_update_beyond)

lemma place_head_kept:
  assumes "place_head nm k d new m = (Some new', m')" "hidx nm k < length new" "k \<noteq> - 1"
  shows "kept new new' \<and> k \<in> set (hids (new' ! hidx nm k))"
proof (cases "bid (new ! hidx nm k) = - 1")
  case True
  with assms show ?thesis by (auto simp: place_head_def Let_def hids_def intro!: kept_update)
next
  case False
  obtain p m1 where "malloc m = (p, m1)" by (cases "malloc m")
  with False assms show ?thesis
    by (auto simp: place_head_def Let_def hids_def intro!: kept_update split: if_splits)
qed

lemma place_node_kept: "kept new (place_node nm n new)"
  by (auto simp: place_node_def Let_def hids_def intro!: kept_update)

lemma place_chain_kept: "place_chain nm ns new = Some new' \<Longrightarrow> kept new new'"
  by (induction ns arbitrary: new) (auto split: if_splits intro: kept_trans place_node_kept)

lemma rehash_kept:
  "rehash (mask w) bs new m = Some (Inr new', m') \<Longrightarrow> length new = 2 ^ w \<Longrightarrow>
    kept new new' \<and> (\<forall>b \<in> set bs. bid b \<noteq> - 1 \<longrightarrow> bid b \<in> set (hids (new' ! hidx (mask w) (bid b))))"
proof (induction bs arbitrary: new m)
  case (Cons b bs)
  show ?case
  proof (cases "bid b = - 1")
    case True
    with Cons show ?thesis by auto
  next
    case False
    with Cons.prems(1) obtain n1 m1 n2 where p: "place_head (mask w) (bid b) (bdata b) new m = (Some n1, m1)"
      "place_chain (mask w) (bnext b) n1 = Some n2" "rehash (mask w) bs n2 m1 = Some (Inr new', m')"
      by (auto split: prod.splits option.splits)
    have k1: "kept new n1" "bid b \<in> set (hids (n1 ! hidx (mask w) (bid b)))"
      using place_head_kept [OF p(1)] False Cons.prems(2) by auto
    have k2: "kept n1 n2" by (rule place_chain_kept [OF p(2)])
    have l: "length n1 = 2 ^ w" "length n2 = 2 ^ w" using k1(1) k2 Cons.prems(2) by (simp_all add: kept_def)
    from Cons.IH [OF p(3) l(2)] have k3: "kept n2 new'"
      "\<forall>b \<in> set bs. bid b \<noteq> - 1 \<longrightarrow> bid b \<in> set (hids (new' ! hidx (mask w) (bid b)))" by auto
    have k4: "kept n1 new'" by (rule kept_trans [OF k2 k3(1)])
    then have "set (hids (n1 ! hidx (mask w) (bid b))) \<subseteq> set (hids (new' ! hidx (mask w) (bid b)))"
      using l(1) by (simp add: kept_def)
    with k1 k3(2) kept_trans [OF k1(1) k4] show ?thesis by auto
  qed
qed simp

lemma htable_resize_buckets:
  assumes "htable_resize ht v m = Some (0, ht', m')"
  obtains t m1 new m2 where "htable ht = TBuckets t" "htable ht' = TBuckets new" "hmask ht' = mask (nat v)"
    "rehash (mask (nat v)) t (hempty # replicate (2 ^ nat v - 1) hzero) m1 = Some (Inr new, m2)"
  using assms unfolding htable_resize_def push_bit_minus_one_mask
  by (auto simp: Let_def split: if_splits prod.splits htab.splits option.splits sum.splits)

lemma resize_head_1:
  assumes "htable_resize ht v m = Some (0, ht', m')" "1 \<le> nat v"
  shows "\<exists>new. htable ht' = TBuckets new \<and> 1 < length new \<and> bid (new ! 1) = 0"
proof -
  from assms(1) obtain t m1 new m2 where r: "htable ht' = TBuckets new"
    "rehash (mask (nat v)) t (hempty # replicate (2 ^ nat v - 1) hzero) m1 = Some (Inr new, m2)"
    by (rule htable_resize_buckets)
  have len: "length (hempty # replicate (2 ^ nat v - 1) hzero) = 2 ^ nat v" by simp
  from rehash_kept [OF r(2) len] have k: "kept (hempty # replicate (2 ^ nat v - 1) hzero) new" by simp
  have "(2 :: nat) ^ 1 \<le> 2 ^ nat v" using assms(2) by (intro power_increasing) auto
  then have two: "1 < (2 :: nat) ^ nat v" by simp
  then have "(hempty # replicate (2 ^ nat v - 1) hzero) ! 1 = hzero" by simp
  with k two len have "length new = 2 ^ nat v" "bid (new ! 1) = 0"
    unfolding kept_def by (auto simp del: length_Cons)
  with r(1) two show ?thesis by simp
qed

lemma resize_moves_phantom:
  assumes "htable_resize ht v m = Some (0, ht', m')" "ht_wf ht'"
    and "htable ht = TBuckets t" "1 < length t" "bid (t ! 1) = 0"
  shows "htable_contains ht' 0 = Some 1"
proof -
  from assms(1) obtain t1 m1 new m2 where r: "htable ht = TBuckets t1" "htable ht' = TBuckets new" "hmask ht' = mask (nat v)"
    "rehash (mask (nat v)) t1 (hempty # replicate (2 ^ nat v - 1) hzero) m1 = Some (Inr new, m2)"
    by (rule htable_resize_buckets)
  have "t ! 1 \<in> set t" using assms(4) by simp
  with rehash_kept [OF r(4)] r(1) assms(3,5) have z: "0 \<in> set (hids (new ! 0))" by fastforce
  have new: "0 < length new" "bucket_ok (hmask ht') 0 (new ! 0)"
    using assms(2) r(2) by (auto simp: ht_wf_def tbl_ok_def)
  from z have "bid (new ! 0) = 0 \<or> bid (new ! 0) \<noteq> - 1 \<and> map_of (ch (bnext (new ! 0))) 0 \<noteq> None"
    by (auto simp: hids_def map_of_eq_None_iff ch_def image_iff split: if_splits)
  moreover have "map_option (map_option hdata) (hc_search 0 (bnext (new ! 0))) = Some (map_of (ch (bnext (new ! 0))) 0)"
    by (rule hc_search_live [OF bucket_live [OF new(2)]])
  moreover have "hb_at ht' 0 = Some (new ! 0)" using r(2) new(1) by (simp add: hb_at_def)
  ultimately show ?thesis by (auto simp: htable_contains_def split: option.splits)
qed

text \<open>The smallest table, for the witnesses.\<close>

lemma two_buckets_wf: "ht_wf \<lparr>hwidth = 1, hmask = 1, hcount = 0, htable = TBuckets [hempty, hempty]\<rparr>"
proof -
  let ?m = "\<lparr>nalloc = 0, oom = \<lambda>_. False\<rparr>"
  have "fst (snd (htable_init 1 ?m)) = \<lparr>hwidth = 1, hmask = 1, hcount = 0, htable = TBuckets [hempty, hempty]\<rparr>"
    by (simp add: htable_init_def malloc_def DYCO_HTABLE_MAXWITDH_def numeral_2_eq_2)
  moreover have "plenty ?m" by (simp add: plenty_def)
  ultimately show ?thesis using htable_init_ok [of ?m 1] by auto
qed

section \<open>Properties\<close>

text \<open>
  C3. The hash table refines a finite map: from a freshly initialised table of any width, any
  sequence of insertions and deletions, all of them of identifiers other than 0 and -1, runs without a memory
  fault (however often it resizes) as long as no allocation fails, and afterwards \<^verbatim>\<open>htable_find\<close> returns exactly what a
  finite map updated by the same sequence holds, NULL for an absent identifier, and \<^verbatim>\<open>htable_contains\<close> tells
  whether it holds anything, for every identifier other than 0 and -1; the element count is the size of that map.
\<close>

theorem htable_refines_map:
  assumes "plenty m" and "htable_init v m = (r0, ht, m0)" and "\<forall>h \<in> set hs. key_ok (hop_key h)" and "key_ok k"
  shows "\<exists>ht' m'. run_hops htable_insert htable_delete hs ht m0 = Some (ht', m') \<and>
    htable_find ht' k = Some (case spec_hops hs Map.empty k of None \<Rightarrow> NULL | Some d \<Rightarrow> d) \<and>
    htable_contains ht' k = Some (if k \<in> dom (spec_hops hs Map.empty) then 1 else 0) \<and>
    hcount ht' = int (card (dom (spec_hops hs Map.empty)))"
proof -
  from htable_init_ok [OF assms(1), of v] assms(2)
  have "ht_wf ht" "ht_abs ht = Map.empty" "plenty m0" by auto
  with htab.run_hops_refines [of ht m0 hs] assms(3) obtain ht' m' where
    "run_hops htable_insert htable_delete hs ht m0 = Some (ht', m')" "ht_wf ht'"
    "ht_abs ht' = spec_hops hs Map.empty" by auto
  with assms(4) htab.find_law [of ht' k] htab.count_law [of ht'] htable_contains_abs [of ht' k] show ?thesis by auto
qed

theorem htable_refines_map_witness:
  "\<exists>ht' m'. run_hops htable_insert htable_delete [HIns 5 9, HIns 7 8, HDel 5]
      (fst (snd (htable_init 2 \<lparr>nalloc = 0, oom = \<lambda>_. False\<rparr>))) (snd (snd (htable_init 2 \<lparr>nalloc = 0, oom = \<lambda>_. False\<rparr>)))
      = Some (ht', m') \<and>
    htable_find ht' 7 = Some 8 \<and> htable_contains ht' 7 = Some 1 \<and> hcount ht' = 1"
proof -
  let ?i = "htable_init 2 \<lparr>nalloc = 0, oom = \<lambda>_. False\<rparr>"
  have i: "?i = (fst ?i, fst (snd ?i), snd (snd ?i))" by simp
  have "spec_hops [HIns 5 9, HIns 7 8, HDel 5] Map.empty = [7 \<mapsto> 8]" by (rule ext) simp
  moreover from htable_refines_map [OF _ i, of "[HIns 5 9, HIns 7 8, HDel 5]" 7]
  have "\<exists>ht' m'. run_hops htable_insert htable_delete [HIns 5 9, HIns 7 8, HDel 5] (fst (snd ?i)) (snd (snd ?i)) = Some (ht', m') \<and>
    htable_find ht' 7 = Some (case spec_hops [HIns 5 9, HIns 7 8, HDel 5] Map.empty 7 of None \<Rightarrow> NULL | Some d \<Rightarrow> d) \<and>
    htable_contains ht' 7 = Some (if 7 \<in> dom (spec_hops [HIns 5 9, HIns 7 8, HDel 5] Map.empty) then 1 else 0) \<and>
    hcount ht' = int (card (dom (spec_hops [HIns 5 9, HIns 7 8, HDel 5] Map.empty)))"
    by (simp add: plenty_def key_ok_def)
  ultimately show ?thesis by simp
qed

text \<open>
  The condition on the identifiers is needed: -1 marks an empty bucket. In a table of four buckets, insert 3, 7 and -1, which share a bucket,
  and delete 3: the identifier -1 moves to the head of the bucket, and 7 is not found any more although it was never deleted.
\<close>

theorem htable_minus_one_hides:
  "map_option (\<lambda>(ht', m'). (htable_find ht' 7, hcount ht')) (run_hops htable_insert htable_delete [HIns 3 9, HIns 7 8, HIns (- 1) 5, HDel 3]
      (fst (snd (htable_init 2 \<lparr>nalloc = 0, oom = \<lambda>_. False\<rparr>))) (snd (snd (htable_init 2 \<lparr>nalloc = 0, oom = \<lambda>_. False\<rparr>)))) = Some (Some NULL, 2)"
  by code_simp

text \<open>
  The load stays bounded: a table that holds fewer entries than twice its mask still does
  after an insertion of any identifier other than 0 and -1, unless it is already as wide as
  the code allows (2^24 buckets), whatever the insertion returned.
\<close>

theorem htable_load_bound:
  assumes "ht_wf ht" and "hcount ht < sint (hmask ht) * DYCO_HTABLE_MAXALPHA" and "hwidth ht < DYCO_HTABLE_MAXWITDH"
    and "key_ok k" and "plenty m"
  shows "\<exists>r ht' m'. htable_insert ht k d m = Some (r, ht', m') \<and> hcount ht' < sint (hmask ht') * DYCO_HTABLE_MAXALPHA"
proof (cases "ht_abs ht k = None")
  case True
  from htable_insert_absent [OF assms(1,4) True assms(5), of d] assms(2,3) show ?thesis by (auto simp: load_ok_def)
next
  case False
  from htable_insert_present [OF assms(1,4) False, of d m] assms(2) show ?thesis by auto
qed

theorem htable_load_bound_witness:
  "\<exists>r ht' m'. htable_insert \<lparr>hwidth = 1, hmask = 1, hcount = 0, htable = TBuckets [hempty, hempty]\<rparr> 5 9
      \<lparr>nalloc = 0, oom = \<lambda>_. False\<rparr> = Some (r, ht', m') \<and> hcount ht' < sint (hmask ht') * DYCO_HTABLE_MAXALPHA"
  by (rule htable_load_bound [OF two_buckets_wf])
    (simp_all add: DYCO_HTABLE_MAXALPHA_def DYCO_HTABLE_MAXWITDH_def key_ok_def plenty_def)

text \<open>
  C40. The identifier 0 is not usable as a key: after two successful resizings
  \<^verbatim>\<open>htable_contains\<close> reports it present in every table, whether or not it was ever
  inserted, because the initialisation loop of \<^verbatim>\<open>htable_resize\<close> marks only the first
  bucket empty and the second resizing moves the other, zero-filled heads as entries.
\<close>

theorem htable_zero_appears:
  assumes "ht_wf ht" and "plenty m" and "hwidth ht < v1" and "v1 < v2" and "v2 \<le> DYCO_HTABLE_MAXWITDH"
  shows "\<exists>ht1 m1 ht2 m2. htable_resize ht v1 m = Some (0, ht1, m1) \<and> htable_resize ht1 v2 m1 = Some (0, ht2, m2) \<and>
    htable_contains ht2 0 = Some 1"
proof -
  from htable_resize_ok [OF assms(1,3) _ assms(2)] assms(4,5) obtain ht1 m1 where
    r1: "htable_resize ht v1 m = Some (0, ht1, m1)" "ht_wf ht1" "hwidth ht1 = v1" "plenty m1" by auto
  from htable_resize_ok [OF r1(2) _ assms(5) r1(4)] assms(4) r1(3) obtain ht2 m2 where
    r2: "htable_resize ht1 v2 m1 = Some (0, ht2, m2)" "ht_wf ht2" by auto
  have "1 \<le> nat v1" using assms(1,3) by (auto simp: ht_wf_def split: htab.splits)
  from resize_head_1 [OF r1(1) this] obtain t where "htable ht1 = TBuckets t" "1 < length t" "bid (t ! 1) = 0" by auto
  from resize_moves_phantom [OF r2 this] r1(1) r2(1) show ?thesis by blast
qed

theorem htable_zero_appears_witness:
  "\<exists>ht1 m1 ht2 m2. htable_resize \<lparr>hwidth = 1, hmask = 1, hcount = 0, htable = TBuckets [hempty, hempty]\<rparr> 2
      \<lparr>nalloc = 0, oom = \<lambda>_. False\<rparr> = Some (0, ht1, m1) \<and>
    htable_resize ht1 3 m1 = Some (0, ht2, m2) \<and> htable_contains ht2 0 = Some 1"
  by (rule htable_zero_appears [OF two_buckets_wf]) (simp_all add: DYCO_HTABLE_MAXWITDH_def plenty_def)

end
