(* ===== verification/Dyco_Types.thy ===== *)
theory Dyco_Types
  imports Htable_Map Sys_Queue Tree_Correct
begin

text \<open>
  The data of the program and the world it runs in: the structures of
  \<^verbatim>\<open>include/dyco/dyco_coroutine.h\<close> as records and datatypes, the heap that holds them (one
  partial map per type; a freed object is gone from its map and addresses are never reused, so a
  use after free is a fault), and the part of the C library and the kernel the code relies on:
  the descriptor table with event counters and epoll interest lists, the clock, the signal mask.

  What the environment decides (the time a clock reading returns, the number a new descriptor gets,
  the events epoll reports, the results of socket calls, how deep the running stack is) comes from the
  functions of the record \<open>env\<close>, read one after the other; \<open>tick\<close> counts the readings. The
  theorems hold for every \<open>env\<close> unless they say otherwise.
\<close>

named_theorems dyco_heap \<open>evaluation of accesses to the objects in the heap\<close>
named_theorems dyco_sys \<open>evaluation of library and system calls\<close>

section \<open>Enumerations\<close>

datatype dyco_schedcall_num = CALLNUM_SIGPROCMASK | CALLNUM_SCHED_STOP | CALLNUM_SCHED_ABORT

datatype dyco_schedule_status =
    SCHEDULE_STATUS_READY | SCHEDULE_STATUS_RUNNING | SCHEDULE_STATUS_STOPPED
  | SCHEDULE_STATUS_ABORTED | SCHEDULE_STATUS_DONE

datatype dyco_coroutine_status =
    COROUTINE_STATUS_NEW | COROUTINE_STATUS_READY | COROUTINE_STATUS_EXITED
  | COROUTINE_STATUS_RUNNING | COROUTINE_STATUS_SLEEPING | COROUTINE_STATUS_SCHEDCALL
  | COROUTINE_STATUS_KILLED | COROUTINE_FLAGS_URGENT | COROUTINE_FLAGS_OWNSTACK
  | COROUTINE_FLAGS_ALLOCSTACKMEM | COROUTINE_FLAGS_WAITING | COROUTINE_FLAGS_EXPIRED
  | COROUTINE_FLAGS_IOMULTIPLEXING | COROUTINE_FLAGS_WAITSIGNAL | COROUTINE_FLAGS_INCOROPOOL
  | COROUTINE_FLAGS_ASYMMETRIC

text \<open>The numbers the enumeration gives them; they are bit positions of the field \<^verbatim>\<open>status\<close>.\<close>

primrec bitno :: "dyco_coroutine_status \<Rightarrow> nat" where
  "bitno COROUTINE_STATUS_NEW = 0"
| "bitno COROUTINE_STATUS_READY = 1"
| "bitno COROUTINE_STATUS_EXITED = 2"
| "bitno COROUTINE_STATUS_RUNNING = 3"
| "bitno COROUTINE_STATUS_SLEEPING = 4"
| "bitno COROUTINE_STATUS_SCHEDCALL = 5"
| "bitno COROUTINE_STATUS_KILLED = 6"
| "bitno COROUTINE_FLAGS_URGENT = 7"
| "bitno COROUTINE_FLAGS_OWNSTACK = 8"
| "bitno COROUTINE_FLAGS_ALLOCSTACKMEM = 9"
| "bitno COROUTINE_FLAGS_WAITING = 10"
| "bitno COROUTINE_FLAGS_EXPIRED = 11"
| "bitno COROUTINE_FLAGS_IOMULTIPLEXING = 12"
| "bitno COROUTINE_FLAGS_WAITSIGNAL = 13"
| "bitno COROUTINE_FLAGS_INCOROPOOL = 14"
| "bitno COROUTINE_FLAGS_ASYMMETRIC = 15"

datatype half_duplex_channel_status =
    HDC_STATUS_NOP | HDC_STATUS_EMPTY | HDC_STATUS_FULL | HDC_STATUS_WANTREAD
  | HDC_STATUS_WANTWRITE | HDC_STATUS_WANTCLOSE | HDC_STATUS_CANCLOSE

datatype dyco_pubsub_channel_status = PSC_STATUS_NOP | PSC_STATUS_EMPTY | PSC_STATUS_TRANS | PSC_STATUS_CLOSE

definition DYCO_MAX_EVENTS :: nat where "DYCO_MAX_EVENTS = 1024"
definition DYCO_MAX_STACKSIZE :: nat where "DYCO_MAX_STACKSIZE = 64 * 1024"
definition DYCO_DEFAULT_TIMEOUT :: u64 where "DYCO_DEFAULT_TIMEOUT = 10000000"
definition DYCO_DEFAULT_CHANNELSIZE :: nat where "DYCO_DEFAULT_CHANNELSIZE = 256"
definition DYCO_URGENT_MAXEXEC :: nat where "DYCO_URGENT_MAXEXEC = 128"
definition DYCO_URGENT_MAXWAIT :: nat where "DYCO_URGENT_MAXWAIT = 128"

section \<open>Structures\<close>

type_synonym byte = "8 word"
type_synonym sigset = u64

text \<open>
  What a \<^verbatim>\<open>ucontext_t\<close> of a coroutine holds: nothing yet, a start made by
  \<^verbatim>\<open>makecontext\<close> (of the symmetric or the asymmetric \<^verbatim>\<open>execute\<close>), or a point saved by
  \<^verbatim>\<open>swapcontext\<close>.
\<close>

datatype ctx_kind = CtxUnset | CtxStart | CtxStartAsym | CtxSaved

record dyco_coroutine =
  co_func :: nat
  co_arg :: addr
  co_sched :: addr
  co_ctx :: ctx_kind
  co_stack :: addr
  co_stack_size :: nat
  co_status :: u32
  sched_count :: u32
  sleep_usecs :: u64
  old_sigmask :: sigset
  cid :: i32
  co_cpool :: addr
  co_udata :: addr
  co_epollfd :: fd
  co_sigfd :: fd

record sigprocmask_args =
  sa_how :: int
  sa_set :: sigset
  sa_oset :: sigset

record schedcall =
  callnum :: dyco_schedcall_num
  call_ret :: int
  call_arg :: sigprocmask_args

record dyco_schedule =
  sc_epollfd :: fd
  sc_stack :: addr
  sc_stack_size :: nat
  sched_id :: u32
  loopwait_timeout :: u64
  birth :: u64
  coro_count :: u32
  cid_gen :: u32
  curr_thread :: addr
  sc_call :: schedcall
  sc_status :: dyco_schedule_status
  sc_udata :: addr
  queues :: tq_store
  sleeping :: rb_tree
  fd_co_map :: dyco_htable
  cid_co_map :: dyco_htable

record dyco_coropool =
  totalsize :: int
  activenum :: int
  cp_stacksize :: nat
  cp_sublist :: addr
  freelist :: sl_store

record notifylist =
  notifyfd :: fd
  nl_next :: addr

record dyco_channel =
  ch_maxsize :: nat
  ch_msglen :: nat
  ch_msg :: addr
  r_notifyfd :: fd
  w_notifyfd :: fd
  ch_status :: half_duplex_channel_status

record dyco_waitgroup =
  tot_size :: i32
  finished :: i32
  cid_set :: dyco_htable
  target_sublist_map :: dyco_htable
  final_sublist :: addr

record dyco_pubsubchannel =
  ps_maxsize :: nat
  ps_msglen :: nat
  ps_msg :: addr
  pub_notifyfd :: fd
  sub_num :: u64
  ack_rem :: u64
  ps_sublist :: addr
  ps_status :: dyco_pubsub_channel_status

record dyco_semaphore =
  semval :: int
  wqueue :: addr
  wtail :: addr

section \<open>The world\<close>

text \<open>A descriptor: an event counter, an epoll instance with its interest list, or something else.\<close>

datatype fdesc = EventFd u64 | EpollFd "(fd \<times> u32) list" | SignalFd | OtherFd

text \<open>
  The answers of the environment, by the number of the question: the clock in microseconds, the
  number a new descriptor would get (negative: failure), the readiness poll reports for a descriptor
  that is not an event counter, the outcome of epoll_wait (an error number or the ready
  descriptors), the distance from the top of the running stack to the current frame, result and error number
  of any other call, bytes received; the page size.
\<close>

record env =
  clk :: "nat \<Rightarrow> u64"
  newfd :: "nat \<Rightarrow> int"
  pollres :: "nat \<Rightarrow> int"
  epollres :: "nat \<Rightarrow> int + fd list"
  stkdepth :: "nat \<Rightarrow> nat"
  sysres :: "nat \<Rightarrow> int \<times> int"
  sysbytes :: "nat \<Rightarrow> byte list"
  pagesize :: nat

text \<open>
  In \<open>wire\<close>: the bytes the kernel has accepted for each descriptor, oldest first; in \<open>waits\<close>: the time limits, in milliseconds, the
  calls of \<^verbatim>\<open>epoll_wait\<close> were given, latest first; in \<open>stdout\<close>: the lines printed, latest first.
\<close>

record world =
  heap :: mem
  bytes :: "addr \<Rightarrow> byte list option"
  cos :: "addr \<Rightarrow> dyco_coroutine option"
  scheds :: "addr \<Rightarrow> dyco_schedule option"
  pools :: "addr \<Rightarrow> dyco_coropool option"
  lnodes :: "addr \<Rightarrow> notifylist option"
  chans :: "addr \<Rightarrow> dyco_channel option"
  psubs :: "addr \<Rightarrow> dyco_pubsubchannel option"
  wgroups :: "addr \<Rightarrow> dyco_waitgroup option"
  sems :: "addr \<Rightarrow> dyco_semaphore option"
  key_made :: bool
  sched_key :: addr
  sched_id_gen :: u32
  fds :: "fd \<Rightarrow> fdesc option"
  sigmask :: sigset
  environ :: env
  tick :: nat
  wire :: "fd \<Rightarrow> byte list"
  waits :: "int list"
  stdout :: "string list"

type_synonym 'a M = "(world, 'a) comp"

section \<open>Objects\<close>

definition deref :: "(world \<Rightarrow> addr \<Rightarrow> 'o option) \<Rightarrow> addr \<Rightarrow> 'o M" where
  "deref sel p = bind (asks (\<lambda>w. sel w p)) (\<lambda>x. case x of None \<Rightarrow> fail BadAccess | Some v \<Rightarrow> ret v)"

definition assign ::
  "(world \<Rightarrow> addr \<Rightarrow> 'o option) \<Rightarrow> (((addr \<Rightarrow> 'o option) \<Rightarrow> addr \<Rightarrow> 'o option) \<Rightarrow> world \<Rightarrow> world) \<Rightarrow> addr \<Rightarrow> ('o \<Rightarrow> 'o) \<Rightarrow> unit M" where
  "assign sel upd p f = bind (deref sel p) (\<lambda>v. modify (\<lambda>w. upd (\<lambda>_. (sel w)(p \<mapsto> f v)) w))"

definition dispose ::
  "(world \<Rightarrow> addr \<Rightarrow> 'o option) \<Rightarrow> (((addr \<Rightarrow> 'o option) \<Rightarrow> addr \<Rightarrow> 'o option) \<Rightarrow> world \<Rightarrow> world) \<Rightarrow> addr \<Rightarrow> unit M" where
  "dispose sel upd p =
    bind (asks (\<lambda>w. sel w p)) (\<lambda>x.
       case x of None \<Rightarrow> fail DoubleFree | Some _ \<Rightarrow> modify (\<lambda>w. upd (\<lambda>_. (sel w)(p := None)) w))"

text \<open>Allocation: NULL, or the address of a new object with the given contents.\<close>

definition alloc :: "(((addr \<Rightarrow> 'o option) \<Rightarrow> addr \<Rightarrow> 'o option) \<Rightarrow> world \<Rightarrow> world) \<Rightarrow> 'o \<Rightarrow> addr M" where
  "alloc upd v w =
    (case malloc (heap w) of (p, h) \<Rightarrow>
       if p = NULL then Done NULL (w\<lparr>heap := h\<rparr>) else Done p (upd (\<lambda>m. m(p \<mapsto> v)) (w\<lparr>heap := h\<rparr>)))"

lemma bind_deref [simp, dyco_heap]:
  "bind (deref sel p) k w = (case sel w p of None \<Rightarrow> Fault BadAccess | Some v \<Rightarrow> k v w)"
  by (simp add: deref_def split: option.split)

lemma deref_app [simp, dyco_heap]:
  "deref sel p w = (case sel w p of None \<Rightarrow> Fault BadAccess | Some v \<Rightarrow> Done v w)"
  by (simp add: deref_def split: option.split)

lemma seq_assign [simp, dyco_heap]:
  "seq (assign sel upd p f) k w = (case sel w p of None \<Rightarrow> Fault BadAccess | Some v \<Rightarrow> k (upd (\<lambda>_. (sel w)(p \<mapsto> f v)) w))"
  by (simp add: assign_def split: option.split)

lemma assign_app [simp, dyco_heap]:
  "assign sel upd p f w = (case sel w p of None \<Rightarrow> Fault BadAccess | Some v \<Rightarrow> Done () (upd (\<lambda>_. (sel w)(p \<mapsto> f v)) w))"
  by (simp add: assign_def split: option.split)

lemma seq_dispose [simp, dyco_heap]:
  "seq (dispose sel upd p) k w = (if sel w p = None then Fault DoubleFree else k (upd (\<lambda>_. (sel w)(p := None)) w))"
  by (simp add: dispose_def split: option.split)

lemma dispose_app [simp, dyco_heap]:
  "dispose sel upd p w = (if sel w p = None then Fault DoubleFree else Done () (upd (\<lambda>_. (sel w)(p := None)) w))"
  by (simp add: dispose_def split: option.split)

abbreviation "co_get \<equiv> deref cos"
abbreviation "co_set \<equiv> assign cos cos_update"
abbreviation "sc_get \<equiv> deref scheds"
abbreviation "sc_set \<equiv> assign scheds scheds_update"

text \<open>\<^verbatim>\<open>SETBIT(co->status, b)\<close>, \<^verbatim>\<open>CLRBIT(co->status, b)\<close>, \<^verbatim>\<open>TESTBIT(co->status, b)\<close>\<close>

definition setb :: "dyco_coroutine_status \<Rightarrow> dyco_coroutine \<Rightarrow> dyco_coroutine" where
  "setb b co = co\<lparr>co_status := SETBIT (bitno b) (co_status co)\<rparr>"

definition clrb :: "dyco_coroutine_status \<Rightarrow> dyco_coroutine \<Rightarrow> dyco_coroutine" where
  "clrb b co = co\<lparr>co_status := CLRBIT (bitno b) (co_status co)\<rparr>"

definition testb :: "dyco_coroutine_status \<Rightarrow> dyco_coroutine \<Rightarrow> bool" where
  "testb b co = TESTBIT (co_status co) (bitno b)"

lemma bitno_less [simp]: "bitno b < 32"
  by (cases b) auto

lemma bitno_inject [simp]: "(bitno a = bitno b) = (a = b)"
  by (cases a; cases b) auto

lemma testb_setb [simp, dyco_bits]: "testb a (setb b co) = (a = b \<or> testb a co)"
  by (auto simp: testb_def setb_def)

lemma testb_clrb [simp, dyco_bits]: "testb a (clrb b co) = (a \<noteq> b \<and> testb a co)"
  by (auto simp: testb_def clrb_def)

lemma setb_fields [simp]:
  "co_func (setb b co) = co_func co" "co_arg (setb b co) = co_arg co" "co_sched (setb b co) = co_sched co"
  "co_ctx (setb b co) = co_ctx co" "co_stack (setb b co) = co_stack co" "co_stack_size (setb b co) = co_stack_size co"
  "sched_count (setb b co) = sched_count co" "sleep_usecs (setb b co) = sleep_usecs co" "old_sigmask (setb b co) = old_sigmask co"
  "cid (setb b co) = cid co" "co_cpool (setb b co) = co_cpool co" "co_udata (setb b co) = co_udata co"
  "co_epollfd (setb b co) = co_epollfd co" "co_sigfd (setb b co) = co_sigfd co"
  by (simp_all add: setb_def)

lemma clrb_fields [simp]:
  "co_func (clrb b co) = co_func co" "co_arg (clrb b co) = co_arg co" "co_sched (clrb b co) = co_sched co"
  "co_ctx (clrb b co) = co_ctx co" "co_stack (clrb b co) = co_stack co" "co_stack_size (clrb b co) = co_stack_size co"
  "sched_count (clrb b co) = sched_count co" "sleep_usecs (clrb b co) = sleep_usecs co" "old_sigmask (clrb b co) = old_sigmask co"
  "cid (clrb b co) = cid co" "co_cpool (clrb b co) = co_cpool co" "co_udata (clrb b co) = co_udata co"
  "co_epollfd (clrb b co) = co_epollfd co" "co_sigfd (clrb b co) = co_sigfd co"
  by (simp_all add: clrb_def)

lemma testb_fields [simp]:
  "testb b (co\<lparr>co_func := v1\<rparr>) = testb b co" "testb b (co\<lparr>co_arg := v2\<rparr>) = testb b co"
  "testb b (co\<lparr>co_sched := v3\<rparr>) = testb b co" "testb b (co\<lparr>co_ctx := v4\<rparr>) = testb b co"
  "testb b (co\<lparr>co_stack := v5\<rparr>) = testb b co" "testb b (co\<lparr>co_stack_size := v6\<rparr>) = testb b co"
  "testb b (co\<lparr>sched_count := v7\<rparr>) = testb b co" "testb b (co\<lparr>sleep_usecs := v8\<rparr>) = testb b co"
  "testb b (co\<lparr>old_sigmask := v9\<rparr>) = testb b co" "testb b (co\<lparr>cid := v10\<rparr>) = testb b co"
  "testb b (co\<lparr>co_cpool := v11\<rparr>) = testb b co" "testb b (co\<lparr>co_udata := v12\<rparr>) = testb b co"
  "testb b (co\<lparr>co_epollfd := v13\<rparr>) = testb b co" "testb b (co\<lparr>co_sigfd := v14\<rparr>) = testb b co"
  by (simp_all add: testb_def)

end
