(* ===== verification/Dyco_Libc.thy ===== *)
theory Dyco_Libc
  imports Dyco_Types
begin

text \<open>
  The calls of the C library and the kernel the program makes, with their documented effect on the
  descriptor table, the event counters, the epoll interest lists and the signal mask; and the small inline
  helpers of \<^verbatim>\<open>include/dyco/dyco_coroutine.h\<close> built on them.
\<close>

section \<open>Questions to the environment\<close>

definition consult :: "(env \<Rightarrow> nat \<Rightarrow> 'a) \<Rightarrow> 'a M" where
  "consult f w = Done (f (environ w) (tick w)) (w\<lparr>tick := Suc (tick w)\<rparr>)"

lemma bind_consult [simp, dyco_sys]:
  "bind (consult f) k w = k (f (environ w) (tick w)) (w\<lparr>tick := Suc (tick w)\<rparr>)"
  by (simp add: bind_def consult_def)

definition get_sched :: "addr M" where
  "get_sched = asks sched_key"

text \<open>
  The value of the thread-specific key. Before \<^verbatim>\<open>pthread_key_create\<close> the key does not exist: its value is read as NULL and
  \<^verbatim>\<open>pthread_setspecific\<close> fails without effect.
\<close>

definition set_sched :: "addr \<Rightarrow> unit M" where
  "set_sched s = modify (\<lambda>w. if key_made w then w\<lparr>sched_key := s\<rparr> else w)"

definition diff_usecs :: "u64 \<Rightarrow> u64 \<Rightarrow> u64" where
  "diff_usecs t1 t2 = t2 - t1"

definition usec_now :: "u64 M" where
  "usec_now = consult clk"

lemma bind_get_sched [simp, dyco_sys]: "bind get_sched k w = k (sched_key w) w"
  by (simp add: get_sched_def)

lemma bind_usec_now [simp, dyco_sys]:
  "bind usec_now k w = k (clk (environ w) (tick w)) (w\<lparr>tick := Suc (tick w)\<rparr>)"
  by (simp add: usec_now_def)

section \<open>Descriptors\<close>

text \<open>A new descriptor never has a number that is in use; \<open>-1\<close> is failure.\<close>

definition open_fd :: "fdesc \<Rightarrow> fd M" where
  "open_fd d =
    bind (consult newfd) (\<lambda>n. bind (asks fds) (\<lambda>t.
      if n < 0 \<or> t n \<noteq> None then ret (- 1)
      else seq (modify (fds_update (\<lambda>_. t(n \<mapsto> d)))) (ret n)))"

definition eventfd :: "u64 \<Rightarrow> fd M" where "eventfd n = open_fd (EventFd n)"
definition epoll_create :: "fd M" where "epoll_create = open_fd (EpollFd [])"

text \<open>Closing a descriptor also takes it out of every interest list.\<close>

definition forget_fd :: "fd \<Rightarrow> fdesc \<Rightarrow> fdesc" where
  "forget_fd n d = (case d of EpollFd l \<Rightarrow> EpollFd (filter (\<lambda>(m, _). m \<noteq> n) l) | _ \<Rightarrow> d)"

definition close :: "fd \<Rightarrow> int M" where
  "close n = bind (asks fds) (\<lambda>t.
     if t n = None then ret (- 1)
     else seq (modify (fds_update (\<lambda>_. (map_option (forget_fd n) \<circ> t)(n := None)))) (ret 0))"

definition eventfd_write :: "fd \<Rightarrow> u64 \<Rightarrow> int M" where
  "eventfd_write n v = bind (asks fds) (\<lambda>t.
     case t n of
       Some (EventFd c) \<Rightarrow>
         if uint c + uint v < 2 ^ 64 - 1 then seq (modify (fds_update (\<lambda>_. t(n \<mapsto> EventFd (c + v))))) (ret 0)
         else ret (- 1)
     | _ \<Rightarrow> ret (- 1))"

text \<open>Reading an event counter opened with \<^verbatim>\<open>EFD_NONBLOCK\<close>: it is reset; a counter of 0 is an error.\<close>

definition eventfd_read :: "fd \<Rightarrow> (int \<times> u64) M" where
  "eventfd_read n = bind (asks fds) (\<lambda>t.
     case t n of
       Some (EventFd c) \<Rightarrow>
         if c = 0 then ret (- 1, 0) else seq (modify (fds_update (\<lambda>_. t(n \<mapsto> EventFd 0)))) (ret (0, c))
     | _ \<Rightarrow> ret (- 1, 0))"

section \<open>Polling\<close>

definition EPOLLIN :: u32 where "EPOLLIN = 1"
definition EPOLLOUT :: u32 where "EPOLLOUT = 4"
definition EPOLLERR :: u32 where "EPOLLERR = 8"
definition EPOLLHUP :: u32 where "EPOLLHUP = 16"

definition EINTR :: int where "EINTR = 4"
definition EINVAL :: int where "EINVAL = 22"

definition epoll_ctl_add :: "fd \<Rightarrow> fd \<Rightarrow> u32 \<Rightarrow> int M" where
  "epoll_ctl_add ep n evs = bind (asks fds) (\<lambda>t.
     case t ep of
       Some (EpollFd l) \<Rightarrow>
         if t n = None \<or> n = ep \<or> n \<in> fst ` set l then ret (- 1)
         else seq (modify (fds_update (\<lambda>_. t(ep \<mapsto> EpollFd (l @ [(n, evs)]))))) (ret 0)
     | _ \<Rightarrow> ret (- 1))"

definition epoll_ctl_del :: "fd \<Rightarrow> fd \<Rightarrow> int M" where
  "epoll_ctl_del ep n = bind (asks fds) (\<lambda>t.
     case t ep of
       Some (EpollFd l) \<Rightarrow>
         if t n = None \<or> n \<notin> fst ` set l then ret (- 1)
         else seq (modify (fds_update (\<lambda>_. t(ep \<mapsto> EpollFd (filter (\<lambda>(m, _). m \<noteq> n) l))))) (ret 0)
     | _ \<Rightarrow> ret (- 1))"

text \<open>
  The error number, or at most \<open>maxevents\<close> distinct descriptors of the interest list; asking for none is
  an error. The time limit is recorded.
\<close>

definition epoll_wait_f :: "fd \<Rightarrow> nat \<Rightarrow> int \<Rightarrow> (int + fd list) M" where
  "epoll_wait_f ep maxevents timeout =
    seq (modify (waits_update (Cons timeout)))
   (bind (consult epollres) (\<lambda>r. bind (asks fds) (\<lambda>t.
      if maxevents = 0 then ret (Inl EINVAL)
      else case (r, t ep) of
        (Inr l, Some (EpollFd is)) \<Rightarrow> ret (Inr (take maxevents (filter (\<lambda>n. n \<in> fst ` set is) (remdups l))))
      | (Inl e, Some (EpollFd is)) \<Rightarrow> ret (Inl e)
      | _ \<Rightarrow> ret (Inl 9))))"

text \<open>
  \<^verbatim>\<open>poll(&pfd, 1, 0)\<close>: a negative descriptor is ignored, a closed one is reported
  (\<^verbatim>\<open>POLLNVAL\<close>), an event counter is readable when it is not 0 and writable when it is not full.
\<close>

definition poll1 :: "fd \<Rightarrow> u32 \<Rightarrow> int M" where
  "poll1 n evs = bind (consult pollres) (\<lambda>r. bind (asks fds) (\<lambda>t.
     if n < 0 then ret 0
     else (case t n of
             None \<Rightarrow> ret 1
           | Some (EventFd c) \<Rightarrow>
               if (evs AND EPOLLIN \<noteq> 0 \<and> c \<noteq> 0) \<or> (evs AND EPOLLOUT \<noteq> 0 \<and> uint c < 2 ^ 64 - 2) then ret 1 else ret 0
           | _ \<Rightarrow> ret (if r > 0 then 1 else if r < 0 then - 1 else 0))))"

section \<open>Signal mask\<close>

definition SIG_BLOCK :: int where "SIG_BLOCK = 0"
definition SIG_UNBLOCK :: int where "SIG_UNBLOCK = 1"
definition SIG_SETMASK :: int where "SIG_SETMASK = 2"

text \<open>The return value and the old mask.\<close>

definition sigprocmask :: "int \<Rightarrow> sigset \<Rightarrow> (int \<times> sigset) M" where
  "sigprocmask how sset = bind (asks sigmask) (\<lambda>old.
     if how = SIG_BLOCK then seq (modify (sigmask_update (\<lambda>_. old OR sset))) (ret (0, old))
     else if how = SIG_UNBLOCK then seq (modify (sigmask_update (\<lambda>_. old AND NOT sset))) (ret (0, old))
     else if how = SIG_SETMASK then seq (modify (sigmask_update (\<lambda>_. sset))) (ret (0, old))
     else ret (- 1, old))"

section \<open>Weakest preconditions over resumptions\<close>

text \<open>
  \<open>always P out\<close>: whenever the computation returns, however the world was changed by other
  contexts while it was switched out, \<open>P\<close> holds of the result and the world.
\<close>

primrec always :: "('a \<Rightarrow> 's \<Rightarrow> bool) \<Rightarrow> ('s, 'a) outcome \<Rightarrow> bool" where
  "always P (Done a s) = P a s"
| "always P (Fault e) = True"
| "always P (Swap f t s k) = (\<forall>s'. always P (k s'))"

lemma always_bind_out: "always (\<lambda>a s. always P (k a s)) m \<Longrightarrow> always P (bind_out m k)"
  by (induction m) auto

lemma always_bind: "(\<And>a s'. always P (k a s')) \<Longrightarrow> always P (bind m k s)"
proof -
  assume k: "\<And>a s'. always P (k a s')"
  have "always (\<lambda>a s. always P (k a s)) out" for out by (induction out) (use k in auto)
  then show ?thesis by (simp add: bind_def always_bind_out)
qed

lemma always_seq: "(\<And>s'. always P (k s')) \<Longrightarrow> always P (seq m k s)"
  by (simp add: seq_def always_bind)

lemma always_bindI: "always (\<lambda>a s'. always P (k a s')) (m s) \<Longrightarrow> always P (bind m k s)"
  by (simp add: bind_def always_bind_out)

lemma always_mono: "always P out \<Longrightarrow> (\<And>a s. P a s \<Longrightarrow> Q a s) \<Longrightarrow> always Q out"
  by (induction out) auto

text \<open>
  \<open>until_swap P Q out\<close>: the computation returns with \<open>P\<close> before it switches context, or
  its first switch satisfies \<open>Q\<close>, or it faults.
\<close>

primrec until_swap :: "('a \<Rightarrow> 's \<Rightarrow> bool) \<Rightarrow> (slot \<Rightarrow> slot \<Rightarrow> 's \<Rightarrow> bool) \<Rightarrow> ('s, 'a) outcome \<Rightarrow> bool" where
  "until_swap P Q (Done a s) = P a s"
| "until_swap P Q (Fault e) = True"
| "until_swap P Q (Swap f t s k) = Q f t s"

lemma until_swap_bind:
  "until_swap (\<lambda>a s. until_swap P Q (k a s)) Q (m s) \<Longrightarrow> until_swap P Q (bind m k s)"
  by (cases "m s") (auto simp: bind_def)

lemma until_swap_seq:
  "until_swap (\<lambda>_ s. until_swap P Q (k s)) Q (m s) \<Longrightarrow> until_swap P Q (seq m k s)"
  by (simp add: seq_def until_swap_bind)

lemma until_swap_mono:
  "until_swap P Q out \<Longrightarrow> (\<And>a s. P a s \<Longrightarrow> P' a s) \<Longrightarrow> (\<And>f t s. Q f t s \<Longrightarrow> Q' f t s) \<Longrightarrow> until_swap P' Q' out"
  by (cases out) auto

end
