(* ===== verification/Dyco_Schedule.thy ===== *)
theory Dyco_Schedule
  imports Dyco_Libc
begin

text \<open>
  The scheduler's containers and their operations (\<^verbatim>\<open>src/dyco_schedule.c\<close>, everything but the
  main loop and the abort path): creation and release of a scheduler, timers, descriptors waited for, and
  the choice of what is due.
\<close>

section \<open>Access to the containers\<close>

text \<open>
  The key the comparison function of the sleep tree reads. The tree operations read and write the
  nodes on their way; a tree that holds a freed coroutine counts as a bad access.
\<close>

definition sleep_key :: "world \<Rightarrow> addr \<Rightarrow> u64" where
  "sleep_key w a = (case cos w a of Some co \<Rightarrow> sleep_usecs co | None \<Rightarrow> 0)"

definition tree_live :: "world \<Rightarrow> rb_tree \<Rightarrow> bool" where
  "tree_live w t = list_all (\<lambda>a. cos w a \<noteq> None) (inorder t)"

definition sleep_tree :: "addr \<Rightarrow> rb_tree M" where
  "sleep_tree s = bind (sc_get s) (\<lambda>sc. bind (asks (\<lambda>w. tree_live w (sleeping sc))) (\<lambda>ok.
     if ok then ret (sleeping sc) else fail BadAccess))"

definition sleep_remove :: "addr \<Rightarrow> addr \<Rightarrow> unit M" where
  "sleep_remove s c = bind (sleep_tree s) (\<lambda>t.
     case RB_REMOVE c t of None \<Rightarrow> fail BadAccess | Some t' \<Rightarrow> sc_set s (sleeping_update (\<lambda>_. t')))"

definition sleep_insert :: "addr \<Rightarrow> addr \<Rightarrow> addr M" where
  "sleep_insert s c = bind (sleep_tree s) (\<lambda>t. bind (asks sleep_key) (\<lambda>key.
     case RB_INSERT key c t of
       None \<Rightarrow> fail BadAccess
     | Some (r, t') \<Rightarrow> seq (sc_set s (sleeping_update (\<lambda>_. t'))) (ret r)))"

definition sleep_find :: "addr \<Rightarrow> addr \<Rightarrow> addr M" where
  "sleep_find s c = bind (sleep_tree s) (\<lambda>t. bind (asks sleep_key) (\<lambda>key. ret (RB_FIND key c t)))"

definition map_insert ::
  "(dyco_schedule \<Rightarrow> dyco_htable) \<Rightarrow> ((dyco_htable \<Rightarrow> dyco_htable) \<Rightarrow> dyco_schedule \<Rightarrow> dyco_schedule) \<Rightarrow>
   addr \<Rightarrow> i32 \<Rightarrow> addr \<Rightarrow> int M" where
  "map_insert sel upd s k v = bind (sc_get s) (\<lambda>sc. bind (asks heap) (\<lambda>h.
     case htable_insert (sel sc) k v h of
       None \<Rightarrow> fail BadAccess
     | Some (r, ht, h') \<Rightarrow> seq (modify (heap_update (\<lambda>_. h'))) (seq (sc_set s (upd (\<lambda>_. ht))) (ret r))))"

definition map_delete ::
  "(dyco_schedule \<Rightarrow> dyco_htable) \<Rightarrow> ((dyco_htable \<Rightarrow> dyco_htable) \<Rightarrow> dyco_schedule \<Rightarrow> dyco_schedule) \<Rightarrow>
   addr \<Rightarrow> i32 \<Rightarrow> int M" where
  "map_delete sel upd s k = bind (sc_get s) (\<lambda>sc.
     case htable_delete (sel sc) k of
       None \<Rightarrow> fail BadAccess
     | Some (r, _, ht) \<Rightarrow> seq (sc_set s (upd (\<lambda>_. ht))) (ret r))"

definition map_find :: "(dyco_schedule \<Rightarrow> dyco_htable) \<Rightarrow> addr \<Rightarrow> i32 \<Rightarrow> addr M" where
  "map_find sel s k = bind (sc_get s) (\<lambda>sc.
     case htable_find (sel sc) k of None \<Rightarrow> fail BadAccess | Some v \<Rightarrow> ret v)"

abbreviation "fdmap_insert \<equiv> map_insert fd_co_map fd_co_map_update"
abbreviation "fdmap_delete \<equiv> map_delete fd_co_map fd_co_map_update"
abbreviation "cidmap_insert \<equiv> map_insert cid_co_map cid_co_map_update"
abbreviation "cidmap_delete \<equiv> map_delete cid_co_map cid_co_map_update"
abbreviation "cidmap_find \<equiv> map_find cid_co_map"

definition queue_push :: "addr \<Rightarrow> qid \<Rightarrow> addr \<Rightarrow> unit M" where
  "queue_push s q c = sc_set s (\<lambda>sc. sc\<lparr>queues := TAILQ_INSERT_TAIL q c (queues sc)\<rparr>)"

text \<open>\<^verbatim>\<open>if (TESTBIT(co->status, COROUTINE_FLAGS_URGENT)) ... else ...\<close>: onto the queue of its priority.\<close>

definition push_ready :: "addr \<Rightarrow> addr \<Rightarrow> unit M" where
  "push_ready s c = bind (co_get c) (\<lambda>co.
     queue_push s (if testb COROUTINE_FLAGS_URGENT co then QUrgent else QReady) c)"

section \<open>Creation and release\<close>

definition SCHEDULE_ISDONE :: "dyco_schedule \<Rightarrow> bool" where
  "SCHEDULE_ISDONE sc = (HTABLE_EMPTY (fd_co_map sc) \<and> RB_EMPTY (sleeping sc) \<and>
     TAILQ_EMPTY QReady (queues sc) \<and> TAILQ_EMPTY QUrgent (queues sc))"

text \<open>The structure \<^verbatim>\<open>calloc\<close> returns: every field zero.\<close>

definition zero_htable :: dyco_htable where
  "zero_htable = \<lparr>hwidth = 0, hmask = 0, hcount = 0, htable = TNull\<rparr>"

definition zero_schedule :: dyco_schedule where
  "zero_schedule = \<lparr>sc_epollfd = 0, sc_stack = NULL, sc_stack_size = 0, sched_id = 0, loopwait_timeout = 0,
     birth = 0, coro_count = 0, cid_gen = 0, curr_thread = NULL,
     sc_call = \<lparr>callnum = CALLNUM_SIGPROCMASK, call_ret = 0, call_arg = \<lparr>sa_how = 0, sa_set = 0, sa_oset = 0\<rparr>\<rparr>,
     sc_status = SCHEDULE_STATUS_READY, sc_udata = NULL,
     queues = \<lparr>tqh_first = \<lambda>_. NULL, tqh_last = FirstOf, tqe_next = \<lambda>_. NULL, tqe_prev = \<lambda>_. FirstOf QReady\<rparr>,
     sleeping = Lf, fd_co_map = zero_htable, cid_co_map = zero_htable\<rparr>"

definition init_map :: "((dyco_htable \<Rightarrow> dyco_htable) \<Rightarrow> dyco_schedule \<Rightarrow> dyco_schedule) \<Rightarrow> addr \<Rightarrow> unit M" where
  "init_map upd s = bind (asks heap) (\<lambda>h.
     case htable_init 0 h of (_, ht, h') \<Rightarrow>
       seq (modify (heap_update (\<lambda>_. h'))) (sc_set s (upd (\<lambda>_. ht))))"

definition dyco_schedule_create :: "nat \<Rightarrow> u64 \<Rightarrow> int M" where
  "dyco_schedule_create stack_size loopwait =
    bind (alloc scheds_update zero_schedule) (\<lambda>s.
      if s = NULL then ret (- 1)
      else
        seq (set_sched s)
       (bind epoll_create (\<lambda>ep.
        seq (sc_set s (sc_epollfd_update (\<lambda>_. ep)))
       (seq (DYCO_MUSTNOT (ep = - 1))
       (let n = (if stack_size \<noteq> 0 then stack_size else DYCO_MAX_STACKSIZE) in
        bind (alloc bytes_update (replicate n 0)) (\<lambda>stk.
        seq (sc_set s (\<lambda>sc. sc\<lparr>sc_stack_size := n, sc_stack := stk\<rparr>))
       (seq (modify (sched_id_gen_update (\<lambda>g. g + 1)))
       (bind (asks sched_id_gen) (\<lambda>g.
        bind usec_now (\<lambda>now.
        seq (sc_set s (\<lambda>sc. sc\<lparr>sched_id := g,
               loopwait_timeout := (if loopwait \<noteq> 0 then loopwait else DYCO_DEFAULT_TIMEOUT),
               birth := now, coro_count := 0, cid_gen := 0, sc_status := SCHEDULE_STATUS_READY,
               curr_thread := NULL, sc_udata := NULL,
               queues := TAILQ_INIT QReady (TAILQ_INIT QUrgent (queues sc)), sleeping := Lf\<rparr>))
       (seq (init_map fd_co_map_update s)
       (seq (init_map cid_co_map_update s)
       (ret (sint g))))))))))))))"

definition clear_map :: "(dyco_schedule \<Rightarrow> dyco_htable) \<Rightarrow> ((dyco_htable \<Rightarrow> dyco_htable) \<Rightarrow> dyco_schedule \<Rightarrow> dyco_schedule) \<Rightarrow> addr \<Rightarrow> unit M" where
  "clear_map sel upd s = bind (sc_get s) (\<lambda>sc.
     case htable_clear (sel sc) of None \<Rightarrow> fail BadAccess | Some ht \<Rightarrow> sc_set s (upd (\<lambda>_. ht)))"

definition dyco_schedule_free :: "addr \<Rightarrow> unit M" where
  "dyco_schedule_free s =
    bind (sc_get s) (\<lambda>sc.
    seq (whenM (sc_epollfd sc > 0) (seq (close (sc_epollfd sc)) (ret ())))
   (seq (whenM (sc_stack sc \<noteq> NULL) (dispose bytes bytes_update (sc_stack sc)))
   (seq (clear_map fd_co_map fd_co_map_update s)
   (seq (clear_map cid_co_map cid_co_map_update s)
   (seq (dispose scheds scheds_update s)
        (set_sched NULL))))))"

section \<open>Timers\<close>

definition schedule_get_expired :: "addr \<Rightarrow> addr M" where
  "schedule_get_expired s =
    bind (sc_get s) (\<lambda>sc.
    bind usec_now (\<lambda>now.
    let tdiff_usecs = diff_usecs (birth sc) now; c = RB_MIN (sleeping sc) in
    if c = NULL then ret NULL
    else bind (co_get c) (\<lambda>co.
      if sleep_usecs co \<le> tdiff_usecs
      then seq (sleep_remove (co_sched co) c)
          (seq (co_set c (clrb COROUTINE_STATUS_SLEEPING))
          (seq (co_set c (setb COROUTINE_FLAGS_EXPIRED))
               (ret c)))
      else ret NULL)))"

definition schedule_min_timeout :: "addr \<Rightarrow> u64 M" where
  "schedule_min_timeout s =
    bind (sc_get s) (\<lambda>sc.
    let c = RB_MIN (sleeping sc) in
    if c = NULL then ret (loopwait_timeout sc)
    else bind usec_now (\<lambda>now. bind (co_get c) (\<lambda>co.
      let now_relative_usecs = diff_usecs (birth sc) now in
      ret (if sleep_usecs co > now_relative_usecs then sleep_usecs co - now_relative_usecs else 0))))"

text \<open>
  The insertion loop of \<^verbatim>\<open>schedule_sched_sleep\<close>: while another coroutine has the same
  key, try the next one. The number of sleepers bounds the collisions.
\<close>

fun sleep_insert_loop :: "nat \<Rightarrow> addr \<Rightarrow> addr \<Rightarrow> unit M" where
  "sleep_insert_loop 0 s c = fail NoFuel"
| "sleep_insert_loop (Suc n) s c =
    bind (sleep_insert s c) (\<lambda>co_tmp.
      if co_tmp \<noteq> NULL
      then seq (co_set c (\<lambda>co. co\<lparr>sleep_usecs := sleep_usecs co + 1\<rparr>)) (sleep_insert_loop n s c)
      else seq (co_set c (setb COROUTINE_STATUS_SLEEPING)) (co_set c (clrb COROUTINE_FLAGS_EXPIRED)))"

text \<open>The part of \<^verbatim>\<open>schedule_sched_sleep\<close> for a positive time; \<^verbatim>\<open>msecs * 1000u\<close> is a 32-bit product.\<close>

definition usecs_of :: "int \<Rightarrow> u64" where
  "usecs_of msecs = ucast (word_of_int msecs * 1000 :: u32)"

definition sleep_set_timer :: "addr \<Rightarrow> addr \<Rightarrow> int \<Rightarrow> unit M" where
  "sleep_set_timer s c msecs =
    (let usecs = usecs_of msecs in
      bind (sc_get s) (\<lambda>sc. bind usec_now (\<lambda>now.
      seq (co_set c (\<lambda>co. co\<lparr>sleep_usecs := diff_usecs (birth sc) now + usecs\<rparr>))
          (sleep_insert_loop (Suc (length (inorder (sleeping sc)))) s c))))"

definition schedule_sched_sleep :: "addr \<Rightarrow> int \<Rightarrow> unit M" where
  "schedule_sched_sleep c msecs =
    bind (co_get c) (\<lambda>co0.
    let s = co_sched co0 in
    bind (sleep_find s c) (\<lambda>co_tmp.
    seq (whenM (co_tmp \<noteq> NULL) (sleep_remove s co_tmp))
   (if msecs \<le> 0 then ret () else sleep_set_timer s c msecs)))"

definition schedule_cancel_sleep :: "addr \<Rightarrow> unit M" where
  "schedule_cancel_sleep c =
    bind (co_get c) (\<lambda>co.
      whenM (testb COROUTINE_STATUS_SLEEPING co)
        (seq (sleep_remove (co_sched co) c) (co_set c (clrb COROUTINE_STATUS_SLEEPING))))"

section \<open>Descriptors waited for\<close>

abbreviation fd_key :: "fd \<Rightarrow> i32" where "fd_key n \<equiv> word_of_int n"

definition schedule_get_waitco :: "addr \<Rightarrow> fd \<Rightarrow> addr M" where
  "schedule_get_waitco s n = map_find fd_co_map s (fd_key n)"

definition schedule_cancel_wait :: "addr \<Rightarrow> fd \<Rightarrow> int M" where
  "schedule_cancel_wait c n =
    bind (co_get c) (\<lambda>co.
      if testb COROUTINE_FLAGS_WAITING co
      then seq (fdmap_delete (co_sched co) (fd_key n))
          (seq (co_set c (clrb COROUTINE_FLAGS_WAITING))
          (bind (sc_get (co_sched co)) (\<lambda>sc.
           bind (epoll_ctl_del (sc_epollfd sc) n) (\<lambda>r.
           seq (DYCO_MUST (r = 0)) (ret 0)))))
      else ret 1)"

definition schedule_sched_wait :: "addr \<Rightarrow> fd \<Rightarrow> u32 \<Rightarrow> unit M" where
  "schedule_sched_wait c n events =
    bind (co_get c) (\<lambda>co. bind (sc_get (co_sched co)) (\<lambda>sc.
    bind (epoll_ctl_add (sc_epollfd sc) n events) (\<lambda>r.
    seq (DYCO_MUST (r = 0))
   (seq (fdmap_insert (co_sched co) (fd_key n) c)
        (co_set c (setb COROUTINE_FLAGS_WAITING))))))"

definition schedule_sched_waitR :: "addr \<Rightarrow> fd \<Rightarrow> unit M" where
  "schedule_sched_waitR c n = schedule_sched_wait c n (EPOLLIN OR EPOLLHUP OR EPOLLERR)"

definition schedule_sched_waitW :: "addr \<Rightarrow> fd \<Rightarrow> unit M" where
  "schedule_sched_waitW c n = schedule_sched_wait c n (EPOLLOUT OR EPOLLHUP OR EPOLLERR)"

definition schedule_sched_waitRW :: "addr \<Rightarrow> fd \<Rightarrow> unit M" where
  "schedule_sched_waitRW c n = schedule_sched_wait c n (EPOLLIN OR EPOLLOUT OR EPOLLHUP OR EPOLLERR)"

text \<open>
  Waiting for events: \<^verbatim>\<open>nready\<close> and the ready descriptors. The inner loop repeats the call while
  it is interrupted; \<open>fuel\<close> bounds the repetitions. The time limit is an \<^verbatim>\<open>int\<close> of milliseconds.
\<close>

definition wait_msecs :: "u64 \<Rightarrow> int" where
  "wait_msecs timeout = sint (ucast (timeout div 1000) :: i32)"

fun epoll_wait_retry :: "nat \<Rightarrow> fd \<Rightarrow> u64 \<Rightarrow> (int \<times> fd list) M" where
  "epoll_wait_retry 0 ep timeout = fail NoFuel"
| "epoll_wait_retry (Suc n) ep timeout =
    bind (epoll_wait_f ep DYCO_MAX_EVENTS (wait_msecs timeout)) (\<lambda>r.
      case r of
        Inr l \<Rightarrow> ret (int (length l), l)
      | Inl e \<Rightarrow> if e = EINTR then epoll_wait_retry n ep timeout else fail Exit)"

definition epoll_wait_once :: "fd \<Rightarrow> (int \<times> fd list) M" where
  "epoll_wait_once ep = bind (epoll_wait_f ep DYCO_MAX_EVENTS 0) (\<lambda>r.
     case r of Inr l \<Rightarrow> ret (int (length l), l) | Inl e \<Rightarrow> ret (- 1, []))"

definition schedule_epoll_wait :: "nat \<Rightarrow> addr \<Rightarrow> (int \<times> fd list) M" where
  "schedule_epoll_wait fuel s =
    bind (sc_get s) (\<lambda>sc.
      if HTABLE_EMPTY (fd_co_map sc) \<and> RB_EMPTY (sleeping sc) then ret (0, [])
      else if \<not> TAILQ_EMPTY QReady (queues sc) \<or> \<not> TAILQ_EMPTY QUrgent (queues sc)
      then epoll_wait_once (sc_epollfd sc)
      else bind (schedule_min_timeout s) (\<lambda>timeout.
        if timeout = 0 then epoll_wait_once (sc_epollfd sc) else epoll_wait_retry fuel (sc_epollfd sc) timeout))"

definition schedule_stop :: "addr \<Rightarrow> unit M" where
  "schedule_stop s = sc_set s (\<lambda>sc. sc\<lparr>sc_status := SCHEDULE_STATUS_STOPPED, curr_thread := NULL\<rparr>)"

section \<open>Queries\<close>

definition dyco_schedule_schedID :: "int M" where
  "dyco_schedule_schedID = bind get_sched (\<lambda>s.
     if s = NULL then ret (- 1) else bind (sc_get s) (\<lambda>sc. ret (sint (sched_id sc))))"

definition dyco_schedule_setUdata :: "addr \<Rightarrow> int M" where
  "dyco_schedule_setUdata u = bind get_sched (\<lambda>s.
     if s = NULL then ret (- 1) else seq (sc_set s (sc_udata_update (\<lambda>_. u))) (ret 0))"

definition dyco_schedule_getUdata :: "(int \<times> addr option) M" where
  "dyco_schedule_getUdata = bind get_sched (\<lambda>s.
     if s = NULL then ret (- 1, None) else bind (sc_get s) (\<lambda>sc. ret (0, Some (sc_udata sc))))"

definition dyco_schedule_getCoroCount :: "int M" where
  "dyco_schedule_getCoroCount = bind get_sched (\<lambda>s.
     if s = NULL then ret (- 1) else bind (sc_get s) (\<lambda>sc. ret (sint (coro_count sc))))"

end
