(* ===== verification/Dyco_Coroutine.thy ===== *)
theory Dyco_Coroutine
  imports Dyco_Schedule
begin

text \<open>
  Coroutines (\<^verbatim>\<open>src/dyco_coroutine.c\<close>, without \<^verbatim>\<open>resume\<close> and
  \<^verbatim>\<open>execute\<close>, which need the pools and the scheduler calls): creation and release, saving and restoring the
  part of the shared stack a coroutine uses, yielding, waiting, sleeping, and the accessors.

  Sizes of stacks are natural numbers; the code keeps some of them in an \<^verbatim>\<open>int\<close>, so the model stands for
  stacks below two gigabytes.
\<close>

section \<open>Stacks\<close>

text \<open>The last \<open>n\<close> bytes of the shared stack: what lies between the current frame and its top.\<close>

definition stack_top :: "nat \<Rightarrow> byte list \<Rightarrow> byte list" where
  "stack_top n b = drop (length b - n) b"

text \<open>\<^verbatim>\<open>memcpy\<close> to the beginning and to the end of a buffer.\<close>

definition copy_to_front :: "byte list \<Rightarrow> byte list \<Rightarrow> byte list" where
  "copy_to_front d b = d @ drop (length d) b"

definition copy_to_end :: "byte list \<Rightarrow> byte list \<Rightarrow> byte list" where
  "copy_to_end d b = take (length b - length d) b @ d"

text \<open>\<^verbatim>\<open>co->stack = realloc(co->stack, n)\<close>\<close>

definition realloc_stack :: "addr \<Rightarrow> nat \<Rightarrow> unit M" where
  "realloc_stack c n =
    bind (co_get c) (\<lambda>co.
    bind (alloc bytes_update (replicate n 0)) (\<lambda>p.
    seq (whenM (p \<noteq> NULL \<and> co_stack co \<noteq> NULL) (dispose bytes bytes_update (co_stack co)))
        (co_set c (co_stack_update (\<lambda>_. p)))))"

definition savestk :: "addr \<Rightarrow> unit M" where
  "savestk c =
    bind (co_get c) (\<lambda>co.
      if testb COROUTINE_FLAGS_OWNSTACK co then ret ()
      else
        bind (sc_get (co_sched co)) (\<lambda>sc.
        bind (consult stkdepth) (\<lambda>cursize.
        seq (whenM (co_stack_size co < cursize) (realloc_stack c cursize))
       (seq (co_set c (co_stack_size_update (\<lambda>_. cursize)))
       (bind (deref bytes (sc_stack sc)) (\<lambda>shared.
        bind (co_get c) (\<lambda>co'.
        bind (deref bytes (co_stack co')) (\<lambda>own.
          if length shared < cursize \<or> length own < cursize then fail BadAccess
          else seq (assign bytes bytes_update (co_stack co') (copy_to_front (stack_top cursize shared)))
                   (co_set c (setb COROUTINE_FLAGS_ALLOCSTACKMEM))))))))))"

definition loadstk :: "addr \<Rightarrow> unit M" where
  "loadstk c =
    bind (co_get c) (\<lambda>co.
      if testb COROUTINE_FLAGS_OWNSTACK co then ret ()
      else
        bind (sc_get (co_sched co)) (\<lambda>sc.
          if co_stack_size co = 0 then ret ()
          else bind (deref bytes (co_stack co)) (\<lambda>own.
               bind (deref bytes (sc_stack sc)) (\<lambda>shared.
                 if length shared < co_stack_size co \<or> length own < co_stack_size co then fail BadAccess
                 else assign bytes bytes_update (sc_stack sc) (copy_to_end (take (co_stack_size co) own))))))"

text \<open>\<^verbatim>\<open>swapcontext(&co->ctx, &co->sched->ctx)\<close>\<close>

definition swap_to_sched :: "addr \<Rightarrow> unit M" where
  "swap_to_sched c =
    bind (co_get c) (\<lambda>co. bind (sc_get (co_sched co)) (\<lambda>_.
    seq (co_set c (co_ctx_update (\<lambda>_. CtxSaved))) (swapcontext (CoCtx c) SchedCtx)))"

definition checkstk :: "addr \<Rightarrow> int M" where
  "checkstk c =
    bind (co_get c) (\<lambda>co. bind (sc_get (co_sched co)) (\<lambda>sc.
    let total_size = (if testb COROUTINE_FLAGS_OWNSTACK co then co_stack_size co else sc_stack_size sc) in
    bind (consult stkdepth) (\<lambda>cur_size.
      if total_size < cur_size
      then seq (co_set c (setb COROUTINE_STATUS_KILLED))
          (seq (co_set c (clrb COROUTINE_STATUS_RUNNING))
          (seq (swap_to_sched c) (ret 0)))
      else if total_size - total_size div 8 < cur_size then ret 1
      else ret 0)))"

definition yield :: "addr \<Rightarrow> unit M" where
  "yield c =
    seq (checkstk c)
   (bind (co_get c) (\<lambda>co.
    seq (whenM (\<not> testb COROUTINE_STATUS_EXITED co) (savestk c))
   (seq (co_set c (clrb COROUTINE_STATUS_RUNNING))
   (seq (swap_to_sched c)
        (co_set c (setb COROUTINE_STATUS_RUNNING))))))"

text \<open>\<^verbatim>\<open>getcontext\<close> and \<^verbatim>\<open>makecontext\<close>: the context starts at \<^verbatim>\<open>execute\<close>.\<close>

definition init_coro :: "addr \<Rightarrow> unit M" where
  "init_coro c =
    bind (co_get c) (\<lambda>co.
    seq (whenM (\<not> testb COROUTINE_FLAGS_OWNSTACK co) (seq (sc_get (co_sched co)) (ret ())))
   (seq (co_set c (co_ctx_update (\<lambda>_. CtxStart)))
        (co_set c (clrb COROUTINE_STATUS_NEW))))"

section \<open>Creation and release\<close>

definition zero_coroutine :: dyco_coroutine where
  "zero_coroutine = \<lparr>co_func = 0, co_arg = NULL, co_sched = NULL, co_ctx = CtxUnset, co_stack = NULL, co_stack_size = 0,
     co_status = 0, sched_count = 0, sleep_usecs = 0, old_sigmask = 0, cid = 0, co_cpool = NULL, co_udata = NULL,
     co_epollfd = 0, co_sigfd = 0\<rparr>"

definition new_status :: u32 where
  "new_status = BIT (bitno COROUTINE_STATUS_NEW) OR BIT (bitno COROUTINE_STATUS_READY)"

text \<open>
  The key under which a thread finds its scheduler is created by the first coroutine of the process
  (\<^verbatim>\<open>pthread_once\<close>; that a key is left is taken for granted). When a thread ends, the destructor of the key gets the
  thread's scheduler.
\<close>

definition sched_key_creator :: "unit M" where
  "sched_key_creator = modify (\<lambda>w. w\<lparr>key_made := True, sched_key := NULL\<rparr>)"

definition sched_key_once :: "unit M" where
  "sched_key_once = bind (asks key_made) (\<lambda>made. whenM (\<not> made) sched_key_creator)"

definition sched_key_destructor :: "addr \<Rightarrow> unit M" where
  "sched_key_destructor p = dispose scheds scheds_update p"

definition thread_exit :: "unit M" where
  "thread_exit = bind get_sched (\<lambda>s. whenM (s \<noteq> NULL) (seq (set_sched NULL) (sched_key_destructor s)))"

definition newcoro :: "addr M" where
  "newcoro =
    seq sched_key_once
   (bind get_sched (\<lambda>s0.
    seq (whenM (s0 = NULL) (seq (dyco_schedule_create 0 0) (ret ())))
   (bind get_sched (\<lambda>s.
      if s = NULL then ret NULL
      else alloc cos_update (zero_coroutine\<lparr>co_stack := NULL, co_stack_size := 0, co_status := new_status,
             sched_count := 0, sleep_usecs := 0, co_cpool := NULL, co_udata := NULL, co_epollfd := - 1, co_sigfd := - 1\<rparr>)))))"

definition freecoro :: "addr \<Rightarrow> unit M" where
  "freecoro c =
    (if c = NULL then ret ()
     else
       bind (co_get c) (\<lambda>co.
       seq (sc_set (co_sched co) (\<lambda>sc. sc\<lparr>coro_count := coro_count sc - 1\<rparr>))
      (seq (cidmap_delete (co_sched co) (cid co))
      (seq (whenM (testb COROUTINE_FLAGS_IOMULTIPLEXING co)
             (seq (schedule_cancel_wait c (co_epollfd co))
             (bind (sc_get (co_sched co)) (\<lambda>sc.
              bind (epoll_ctl_del (sc_epollfd sc) (co_epollfd co)) (\<lambda>r.
              seq (DYCO_MUST (r = 0))
             (seq (close (co_epollfd co)) (ret ())))))))
      (seq (whenM (testb COROUTINE_FLAGS_WAITSIGNAL co)
             (seq (sigprocmask SIG_SETMASK (old_sigmask co))
             (seq (close (co_sigfd co)) (ret ()))))
      (seq (whenM (testb COROUTINE_FLAGS_ALLOCSTACKMEM co)
             (seq (whenM (co_stack co \<noteq> NULL) (dispose bytes bytes_update (co_stack co)))
                  (co_set c (co_stack_update (\<lambda>_. NULL)))))
           (dispose cos cos_update c)))))))"

text \<open>
  \<^verbatim>\<open>sched->_cid_gen = (sched->_cid_gen + 1) & 0xffffff\<close>, and the identifier
  \<^verbatim>\<open>((sched->sched_id & 0xff) << 24) | sched->_cid_gen\<close>
\<close>

abbreviation next_gen :: "u32 \<Rightarrow> u32" where
  "next_gen gen \<equiv> (gen + 1) AND 0xffffff"

definition make_cid :: "u32 \<Rightarrow> u32 \<Rightarrow> i32" where
  "make_cid sid gen = push_bit 24 (sid AND 0xff) OR gen"

text \<open>The lines every creating function shares: take the next identifier and enter it into the map. The result
  of \<^verbatim>\<open>htable_insert\<close> is returned.\<close>

definition register_coro :: "addr \<Rightarrow> addr \<Rightarrow> int M" where
  "register_coro s c =
    seq (co_set c (co_sched_update (\<lambda>_. s)))
   (seq (sc_set s (\<lambda>sc. sc\<lparr>cid_gen := next_gen (cid_gen sc)\<rparr>))
   (bind (sc_get s) (\<lambda>sc.
    seq (co_set c (cid_update (\<lambda>_. make_cid (sched_id sc) (cid_gen sc))))
        (cidmap_insert s (make_cid (sched_id sc) (cid_gen sc)) c))))"

text \<open>\<^verbatim>\<open>if (sched->status == SCHEDULE_STATUS_DONE) sched->status = SCHEDULE_STATUS_READY\<close>\<close>

definition reopen :: "dyco_schedule \<Rightarrow> dyco_schedule" where
  "reopen sc = (if sc_status sc = SCHEDULE_STATUS_DONE then sc\<lparr>sc_status := SCHEDULE_STATUS_READY\<rparr> else sc)"

definition dyco_coroutine_create :: "nat \<Rightarrow> addr \<Rightarrow> int M" where
  "dyco_coroutine_create f a =
    bind newcoro (\<lambda>c.
      if c = NULL then ret (- 2)
      else
        seq (co_set c (\<lambda>co. co\<lparr>co_func := f, co_arg := a\<rparr>))
       (bind get_sched (\<lambda>s.
        bind (register_coro s c) (\<lambda>r.
        seq (DYCO_MUST (r \<ge> 0))
       (seq (sc_set s (\<lambda>sc. sc\<lparr>coro_count := coro_count sc + 1\<rparr>))
       (seq (queue_push s QReady c)
       (seq (sc_set s reopen)
       (bind (co_get c) (\<lambda>co. ret (sint (cid co)))))))))))"

definition dyco_coroutine_create_urgent :: "nat \<Rightarrow> addr \<Rightarrow> int M" where
  "dyco_coroutine_create_urgent f a =
    bind newcoro (\<lambda>c.
      if c = NULL then ret (- 2)
      else
        seq (co_set c (\<lambda>co. co\<lparr>co_func := f, co_arg := a\<rparr>))
       (bind get_sched (\<lambda>s.
        bind (register_coro s c) (\<lambda>r.
        seq (DYCO_MUST (r \<ge> 0))
       (seq (sc_set s (\<lambda>sc. sc\<lparr>coro_count := coro_count sc + 1\<rparr>))
       (seq (co_set c (setb COROUTINE_FLAGS_URGENT))
       (seq (queue_push s QUrgent c)
       (seq (sc_set s reopen)
       (bind (co_get c) (\<lambda>co. ret (sint (cid co))))))))))))"

section \<open>Waiting and sleeping\<close>

text \<open>The scheduler and the running coroutine, which must exist.\<close>

definition current :: "(addr \<times> addr) M" where
  "current =
    bind get_sched (\<lambda>s.
    seq (DYCO_MUST (s \<noteq> NULL))
   (bind (sc_get s) (\<lambda>sc.
    seq (DYCO_MUST (curr_thread sc \<noteq> NULL))
        (ret (s, curr_thread sc)))))"

definition waitev :: "fd \<Rightarrow> u32 \<Rightarrow> int \<Rightarrow> int M" where
  "waitev n events timeout =
    bind (poll1 n (events AND 0xffff)) (\<lambda>r.
      if r > 0 \<or> timeout = 0 then ret r
      else
        bind current (\<lambda>(s, c).
        bind (co_get c) (\<lambda>co.
        seq (DYCO_MUSTNOT (testb COROUTINE_FLAGS_ASYMMETRIC co))
       (seq (schedule_sched_wait c n events)
       (seq (schedule_sched_sleep c timeout)
       (seq (yield c)
       (seq (schedule_cancel_sleep c)
       (seq (schedule_cancel_wait c n)
            (poll1 n (events AND 0xffff))))))))))"

definition dyco_coroutine_sleep :: "u32 \<Rightarrow> unit M" where
  "dyco_coroutine_sleep msecs =
    bind current (\<lambda>(s, c).
    bind (co_get c) (\<lambda>co.
    seq (DYCO_MUSTNOT (testb COROUTINE_FLAGS_ASYMMETRIC co))
   (seq (if msecs = 0
         then seq (co_set c (setb COROUTINE_STATUS_READY)) (push_ready s c)
         else schedule_sched_sleep c (sint msecs))
        (yield c))))"

definition dyco_coroutine_abort :: "unit M" where
  "dyco_coroutine_abort =
    bind current (\<lambda>(s, c).
    seq (co_set c (setb COROUTINE_STATUS_KILLED))
   (seq (co_set c (clrb COROUTINE_STATUS_RUNNING))
        (swap_to_sched c)))"

definition dyco_coroutine_waitRead :: "fd \<Rightarrow> int \<Rightarrow> int M" where
  "dyco_coroutine_waitRead n timeout = waitev n (EPOLLIN OR EPOLLERR OR EPOLLHUP) timeout"

definition dyco_coroutine_waitWrite :: "fd \<Rightarrow> int \<Rightarrow> int M" where
  "dyco_coroutine_waitWrite n timeout = waitev n (EPOLLOUT OR EPOLLERR OR EPOLLHUP) timeout"

definition dyco_coroutine_waitRW :: "fd \<Rightarrow> int \<Rightarrow> int M" where
  "dyco_coroutine_waitRW n timeout = waitev n (EPOLLOUT OR EPOLLIN OR EPOLLERR OR EPOLLHUP) timeout"

section \<open>Accessors\<close>

text \<open>The coroutine with the given identifier: \<open>None\<close> without a scheduler, NULL when there is none.\<close>

definition lookup_cid :: "i32 \<Rightarrow> addr M" where
  "lookup_cid k = bind get_sched (\<lambda>s. if s = NULL then ret NULL else cidmap_find s k)"

text \<open>The body shared by \<^verbatim>\<open>dyco_coroutine_setStack\<close> and \<^verbatim>\<open>coro_setstack\<close>.\<close>

definition coro_setstack :: "addr \<Rightarrow> addr \<Rightarrow> nat \<Rightarrow> int M" where
  "coro_setstack c stackptr stacksize =
    (if c = NULL then ret (- 1)
     else bind (co_get c) (\<lambda>co.
       if \<not> testb COROUTINE_STATUS_NEW co then ret (- 1)
       else if stacksize = 0
       then seq (co_set c (\<lambda>co. clrb COROUTINE_FLAGS_OWNSTACK (co\<lparr>co_stack := NULL, co_stack_size := 0\<rparr>))) (ret 0)
       else if stackptr = NULL
       then bind (asks (\<lambda>w. pagesize (environ w))) (\<lambda>page_size.
            let n = stacksize + stacksize mod page_size in
            bind (alloc bytes_update (replicate n 0)) (\<lambda>p.
            seq (co_set c (\<lambda>co. setb COROUTINE_FLAGS_ALLOCSTACKMEM (setb COROUTINE_FLAGS_OWNSTACK
                   (co\<lparr>co_stack_size := n, co_stack := (if p = NULL then co_stack co else p)\<rparr>))))
                (ret 1)))
       else seq (co_set c (\<lambda>co. setb COROUTINE_FLAGS_OWNSTACK (co\<lparr>co_stack := stackptr, co_stack_size := stacksize\<rparr>))) (ret 1)))"

definition dyco_coroutine_setStack :: "i32 \<Rightarrow> addr \<Rightarrow> nat \<Rightarrow> int M" where
  "dyco_coroutine_setStack k stackptr stacksize = bind (lookup_cid k) (\<lambda>c. coro_setstack c stackptr stacksize)"

definition dyco_coroutine_getStack :: "i32 \<Rightarrow> (int \<times> (addr \<times> nat) option) M" where
  "dyco_coroutine_getStack k = bind (lookup_cid k) (\<lambda>c.
     if c = NULL then ret (- 1, None)
     else bind (co_get c) (\<lambda>co.
       ret (if testb COROUTINE_FLAGS_OWNSTACK co then 1 else 0, Some (co_stack co, co_stack_size co))))"

definition dyco_coroutine_checkStack :: "int M" where
  "dyco_coroutine_checkStack = bind current (\<lambda>(s, c). checkstk c)"

definition dyco_coroutine_coroID :: "int M" where
  "dyco_coroutine_coroID = bind get_sched (\<lambda>s.
     if s = NULL then ret (- 1)
     else bind (sc_get s) (\<lambda>sc.
       if curr_thread sc = NULL then ret (- 1) else bind (co_get (curr_thread sc)) (\<lambda>co. ret (sint (cid co)))))"

definition dyco_coroutine_setUdata :: "i32 \<Rightarrow> addr \<Rightarrow> int M" where
  "dyco_coroutine_setUdata k u = bind (lookup_cid k) (\<lambda>c.
     if c = NULL then ret (- 1) else seq (co_set c (co_udata_update (\<lambda>_. u))) (ret 0))"

definition dyco_coroutine_getUdata :: "i32 \<Rightarrow> (int \<times> addr option) M" where
  "dyco_coroutine_getUdata k = bind (lookup_cid k) (\<lambda>c.
     if c = NULL then ret (- 1, None) else bind (co_get c) (\<lambda>co. ret (0, Some (co_udata co))))"

definition dyco_coroutine_setUrgent :: "i32 \<Rightarrow> int M" where
  "dyco_coroutine_setUrgent k = bind (lookup_cid k) (\<lambda>c.
     if c = NULL then ret (- 1) else seq (co_set c (setb COROUTINE_FLAGS_URGENT)) (ret 0))"

definition dyco_coroutine_unsetUrgent :: "i32 \<Rightarrow> int M" where
  "dyco_coroutine_unsetUrgent k = bind (lookup_cid k) (\<lambda>c.
     if c = NULL then ret (- 1) else seq (co_set c (clrb COROUTINE_FLAGS_URGENT)) (ret 0))"

definition dyco_coroutine_getSchedCount :: "i32 \<Rightarrow> int M" where
  "dyco_coroutine_getSchedCount k = bind (lookup_cid k) (\<lambda>c.
     if c = NULL then ret (- 1) else bind (co_get c) (\<lambda>co. ret (sint (sched_count co))))"

end
