(* ===== verification/Dyco_Asymcoro.thy ===== *)
theory Dyco_Asymcoro
  imports Dyco_Coroutine
begin

text \<open>
  Asymmetric coroutines (\<^verbatim>\<open>src/dyco_asymcoro.c\<close>): resumed explicitly by their user instead of by the
  scheduler, they switch back to the context saved in their field \<^verbatim>\<open>ret\<close>.
\<close>

definition dyco_coroutine_isasymmetric :: "i32 \<Rightarrow> int M" where
  "dyco_coroutine_isasymmetric k = bind get_sched (\<lambda>s.
     if s = NULL then ret (- 2)
     else bind (cidmap_find s k) (\<lambda>c.
       if c = NULL then ret (- 1)
       else bind (co_get c) (\<lambda>co. ret (if testb COROUTINE_FLAGS_ASYMMETRIC co then 1 else 0))))"

definition init_asymcoro :: "addr \<Rightarrow> unit M" where
  "init_asymcoro c =
    bind (co_get c) (\<lambda>co.
    seq (whenM (\<not> testb COROUTINE_FLAGS_OWNSTACK co) (seq (sc_get (co_sched co)) (ret ())))
   (seq (co_set c (co_ctx_update (\<lambda>_. CtxStartAsym)))
        (co_set c (clrb COROUTINE_STATUS_NEW))))"

definition dyco_asymcoro_create :: "nat \<Rightarrow> addr \<Rightarrow> int M" where
  "dyco_asymcoro_create f a =
    bind newcoro (\<lambda>c.
      if c = NULL then ret (- 2)
      else
        seq (co_set c (\<lambda>co. co\<lparr>co_func := f, co_arg := a\<rparr>))
       (seq (co_set c (setb COROUTINE_FLAGS_ASYMMETRIC))
       (bind get_sched (\<lambda>s.
        seq (register_coro s c)
       (seq (sc_set s (\<lambda>sc. sc\<lparr>coro_count := coro_count sc + 1\<rparr>))
       (bind (co_get c) (\<lambda>co. ret (sint (cid co)))))))))"

definition dyco_asymcoro_setStack :: "i32 \<Rightarrow> addr \<Rightarrow> nat \<Rightarrow> int M" where
  "dyco_asymcoro_setStack k stackptr stacksize = dyco_coroutine_setStack k stackptr stacksize"

text \<open>The saved context of the resumed coroutine is loaded; the caller's goes into \<^verbatim>\<open>co_next->ret\<close>.\<close>

definition dyco_asymcororesume :: "i32 \<Rightarrow> int M" where
  "dyco_asymcororesume k =
    bind get_sched (\<lambda>s.
      if s = NULL then ret (- 1)
      else
        bind (sc_get s) (\<lambda>sc.
        let co_prev = curr_thread sc in
        bind (cidmap_find s k) (\<lambda>co_next.
          if co_next = NULL then ret (- 1)
          else bind (co_get co_next) (\<lambda>co.
            if \<not> testb COROUTINE_FLAGS_ASYMMETRIC co then ret (- 1)
            else if testb COROUTINE_STATUS_EXITED co then ret 0
            else
              seq (whenM (co_prev \<noteq> NULL \<and> \<not> testb COROUTINE_FLAGS_OWNSTACK co)
                     (seq (dyco_asymcoro_setStack k NULL DYCO_MAX_STACKSIZE) (ret ())))
             (seq (if testb COROUTINE_STATUS_NEW co then init_asymcoro co_next else loadstk co_next)
             (seq (co_set co_next (\<lambda>co. co\<lparr>sched_count := sched_count co + 1\<rparr>))
             (seq (sc_set s (curr_thread_update (\<lambda>_. co_next)))
             (seq (co_set co_next (setb COROUTINE_STATUS_RUNNING))
             (seq (swapcontext (CoRet co_next) (CoCtx co_next))
             (seq (sc_set s (curr_thread_update (\<lambda>_. co_prev)))
             (bind (co_get co_next) (\<lambda>co'.
                if testb COROUTINE_STATUS_EXITED co' then ret 0 else ret (sint k)))))))))))))"

definition dyco_asymcoroyield :: "unit M" where
  "dyco_asymcoroyield =
    bind get_sched (\<lambda>s.
      if s = NULL then ret ()
      else
        bind (sc_get s) (\<lambda>sc.
        let c = curr_thread sc in
        bind (co_get c) (\<lambda>co.
        seq (whenM (\<not> testb COROUTINE_STATUS_EXITED co) (savestk c))
       (seq (co_set c (clrb COROUTINE_STATUS_RUNNING))
       (seq (co_set c (co_ctx_update (\<lambda>_. CtxSaved)))
       (seq (swapcontext (CoCtx c) (CoRet c))
            (co_set c (setb COROUTINE_STATUS_RUNNING))))))))"

definition dyco_asymcoro_free :: "i32 \<Rightarrow> unit M" where
  "dyco_asymcoro_free k =
    bind get_sched (\<lambda>s.
      if s = NULL then ret ()
      else
        bind (cidmap_find s k) (\<lambda>c.
          if c = NULL then ret ()
          else bind (co_get c) (\<lambda>co.
            if \<not> testb COROUTINE_FLAGS_ASYMMETRIC co then ret ()
            else
              seq (sc_set (co_sched co) (\<lambda>sc. sc\<lparr>coro_count := coro_count sc - 1\<rparr>))
             (seq (cidmap_delete (co_sched co) (cid co))
             (seq (whenM (testb COROUTINE_FLAGS_ALLOCSTACKMEM co)
                    (seq (whenM (co_stack co \<noteq> NULL) (dispose bytes bytes_update (co_stack co)))
                         (co_set c (co_stack_update (\<lambda>_. NULL)))))
                  (dispose cos cos_update c))))))"

definition dyco_asymcoro_coroID :: "int M" where
  "dyco_asymcoro_coroID = dyco_coroutine_coroID"

definition dyco_asymcoro_getStack :: "i32 \<Rightarrow> (int \<times> (addr \<times> nat) option) M" where
  "dyco_asymcoro_getStack k = dyco_coroutine_getStack k"

definition dyco_asymcoro_setUdata :: "i32 \<Rightarrow> addr \<Rightarrow> int M" where
  "dyco_asymcoro_setUdata k u = dyco_coroutine_setUdata k u"

definition dyco_asymcoro_getUdata :: "i32 \<Rightarrow> (int \<times> addr option) M" where
  "dyco_asymcoro_getUdata k = dyco_coroutine_getUdata k"

end
