(* ===== verification/Dyco_Coropool.thy ===== *)
theory Dyco_Coropool
  imports Dyco_Asymcoro
begin

text \<open>
  Coroutine pools (\<^verbatim>\<open>src/dyco_coropool.c\<close>): a free list of prepared coroutines, the number in use, and
  the queue of coroutines waiting for a free one, each with an event counter it is notified through.
\<close>

section \<open>Notification lists\<close>

abbreviation "ln_get \<equiv> deref lnodes"
abbreviation "ln_set \<equiv> assign lnodes lnodes_update"
abbreviation "cp_get \<equiv> deref pools"
abbreviation "cp_set \<equiv> assign pools pools_update"

text \<open>
  \<^verbatim>\<open>while (ptr->next != NULL) ptr = ptr->next;\<close> An acyclic list has at most as many nodes as objects were
  allocated, so that number is fuel enough.
\<close>

fun chain_last :: "nat \<Rightarrow> addr \<Rightarrow> addr M" where
  "chain_last 0 p = fail NoFuel"
| "chain_last (Suc n) p = bind (ln_get p) (\<lambda>x. if nl_next x = NULL then ret p else chain_last n (nl_next x))"

text \<open>The loop that takes a node out: stop at its predecessor, or at the end.\<close>

fun chain_unlink :: "nat \<Rightarrow> addr \<Rightarrow> addr \<Rightarrow> unit M" where
  "chain_unlink 0 p node = fail NoFuel"
| "chain_unlink (Suc n) p node =
    bind (ln_get p) (\<lambda>x.
      if nl_next x = NULL then ret ()
      else if nl_next x = node
      then bind (ln_get node) (\<lambda>y. ln_set p (nl_next_update (\<lambda>_. nl_next y)))
      else chain_unlink n (nl_next x) node)"

definition heap_size :: "nat M" where
  "heap_size = asks (\<lambda>w. Suc (nalloc (heap w)))"

section \<open>Pools\<close>

definition get_coro_by_cid :: "i32 \<Rightarrow> addr M" where
  "get_coro_by_cid k = bind get_sched (\<lambda>s. cidmap_find s k)"

definition dyco_coropool_available :: "dyco_coropool \<Rightarrow> int" where
  "dyco_coropool_available cp = totalsize cp - activenum cp"

definition cp_notify :: "fd \<Rightarrow> unit M" where
  "cp_notify n = bind (eventfd_write n 1) (\<lambda>r. DYCO_MUST (r = 0))"

text \<open>Lines 62--75: a new node with a new event counter at the end of the pool's list.\<close>

definition cp_enqueue :: "addr \<Rightarrow> fd \<Rightarrow> addr M" where
  "cp_enqueue p n =
    bind (alloc lnodes_update \<lparr>notifyfd = n, nl_next = NULL\<rparr>) (\<lambda>notify.
      if notify = NULL then ret NULL
      else
        bind (cp_get p) (\<lambda>cp.
        seq (if cp_sublist cp = NULL then cp_set p (cp_sublist_update (\<lambda>_. notify))
             else bind heap_size (\<lambda>f. bind (chain_last f (cp_sublist cp)) (\<lambda>ptr. ln_set ptr (nl_next_update (\<lambda>_. notify)))))
            (ret notify)))"

definition cp_wait :: "addr \<Rightarrow> int \<Rightarrow> int M" where
  "cp_wait p timeout =
    bind (cp_get p) (\<lambda>cp.
      if dyco_coropool_available cp > 0 \<or> timeout = 0 then ret (dyco_coropool_available cp)
      else
        bind current (\<lambda>(s, c).
        bind (co_get c) (\<lambda>co.
        seq (DYCO_MUSTNOT (testb COROUTINE_FLAGS_ASYMMETRIC co))
       (bind (eventfd 0) (\<lambda>n.
        seq (DYCO_MUSTNOT (n = - 1))
       (bind (cp_enqueue p n) (\<lambda>notify.
          if notify = NULL then ret 0
          else
            seq (schedule_sched_waitR c n)
           (seq (schedule_sched_sleep c timeout)
           (seq (yield c)
           (seq (schedule_cancel_sleep c)
           (seq (schedule_cancel_wait c n)
           (bind (eventfd_read n) (\<lambda>(r, _).
            seq (whenM (r < 0)
                  (bind (cp_get p) (\<lambda>cp.
                     if cp_sublist cp = notify
                     then bind (ln_get notify) (\<lambda>x. cp_set p (cp_sublist_update (\<lambda>_. nl_next x)))
                     else bind heap_size (\<lambda>f. chain_unlink f (cp_sublist cp) notify))))
           (seq (close n)
           (seq (dispose lnodes lnodes_update notify)
           (bind (cp_get p) (\<lambda>cp. ret (dyco_coropool_available cp))))))))))))))))))"

text \<open>One turn of the loops of \<^verbatim>\<open>cp_create\<close> and \<^verbatim>\<open>cp_resize\<close>: a new coroutine on the free list.\<close>

definition cp_add_member :: "addr \<Rightarrow> nat \<Rightarrow> bool \<Rightarrow> unit M" where
  "cp_add_member p stacksize isasymmetric =
    bind newcoro (\<lambda>cur.
      if cur = NULL then fail BadAccess
      else
        seq (whenM isasymmetric (co_set cur (setb COROUTINE_FLAGS_ASYMMETRIC)))
       (seq (whenM (isasymmetric \<or> stacksize > 0) (seq (coro_setstack cur NULL stacksize) (ret ())))
       (seq (cp_set p (\<lambda>cp. cp\<lparr>freelist := SLIST_INSERT_HEAD cur (freelist cp)\<rparr>))
       (seq (co_set cur (setb COROUTINE_FLAGS_INCOROPOOL))
            (co_set cur (co_cpool_update (\<lambda>_. p)))))))"

primrec repeatM :: "nat \<Rightarrow> unit M \<Rightarrow> unit M" where
  "repeatM 0 m = ret ()"
| "repeatM (Suc n) m = seq m (repeatM n m)"

definition cp_create :: "int \<Rightarrow> nat \<Rightarrow> bool \<Rightarrow> addr M" where
  "cp_create tsize stacksize isasymmetric =
    (if tsize \<le> 0 then ret NULL
     else
       bind (alloc pools_update \<lparr>totalsize = 0, activenum = 0, cp_stacksize = 0, cp_sublist = NULL,
              freelist = \<lparr>slh_first = NULL, sle_next = \<lambda>_. NULL\<rparr>\<rparr>) (\<lambda>p.
         if p = NULL then ret NULL
         else
           seq (cp_set p (\<lambda>cp. cp\<lparr>freelist := SLIST_INIT (freelist cp)\<rparr>))
          (seq (repeatM (nat tsize) (cp_add_member p stacksize isasymmetric))
          (seq (cp_set p (\<lambda>cp. cp\<lparr>totalsize := tsize, activenum := 0, cp_stacksize := stacksize, cp_sublist := NULL\<rparr>))
               (ret p)))))"

text \<open>\<^verbatim>\<open>if (cp->sublist != NULL) \<close>: notify the first waiter and take it off the list.\<close>

definition cp_wake :: "addr \<Rightarrow> unit M" where
  "cp_wake p =
    bind (cp_get p) (\<lambda>cp.
      whenM (cp_sublist cp \<noteq> NULL)
        (bind (ln_get (cp_sublist cp)) (\<lambda>head.
         seq (cp_notify (notifyfd head))
        (bind (ln_get (cp_sublist cp)) (\<lambda>head'.
         cp_set p (cp_sublist_update (\<lambda>_. nl_next head')))))))"

text \<open>One turn of the shrinking loops: the first coroutine of the free list is released.\<close>

definition cp_drop_member :: "addr \<Rightarrow> bool \<Rightarrow> unit M" where
  "cp_drop_member p isasymmetric =
    bind (cp_get p) (\<lambda>cp.
    let cur = SLIST_FIRST (freelist cp) in
      if cur = NULL then fail BadAccess
      else
        seq (cp_set p (\<lambda>cp. cp\<lparr>freelist := SLIST_REMOVE_HEAD (freelist cp)\<rparr>))
            (if isasymmetric then freecoro cur
             else bind (co_get cur) (\<lambda>co. dyco_asymcoro_free (cid co))))"

definition cp_resize :: "addr \<Rightarrow> int \<Rightarrow> bool \<Rightarrow> addr M" where
  "cp_resize p newsize isasymmetric =
    (if p = NULL then ret p
     else
       bind (cp_get p) (\<lambda>cp.
         if newsize = totalsize cp then ret p
         else
           seq (if totalsize cp < newsize
                then repeatM (nat (newsize - totalsize cp)) (seq (cp_add_member p (cp_stacksize cp) isasymmetric) (cp_wake p))
                else repeatM (nat (if newsize \<ge> activenum cp then totalsize cp - newsize else dyco_coropool_available cp))
                       (cp_drop_member p isasymmetric))
          (seq (cp_set p (totalsize_update (\<lambda>_. newsize)))
               (ret p))))"

definition cp_destroy :: "addr \<Rightarrow> bool \<Rightarrow> int M" where
  "cp_destroy p isasymmetric =
    (if p = NULL then ret 0
     else
       bind (cp_get p) (\<lambda>cp.
         if activenum cp \<noteq> 0 then ret (- 1)
         else
           seq (repeatM (nat (totalsize cp)) (cp_drop_member p isasymmetric))
          (seq (dispose pools pools_update p)
               (ret 0))))"

text \<open>The status word of a coroutine taken from the pool.\<close>

definition obtain_status :: "dyco_coroutine \<Rightarrow> bool \<Rightarrow> u32" where
  "obtain_status co isasymmetric =
    (let s0 = BIT (bitno COROUTINE_STATUS_NEW) OR BIT (bitno COROUTINE_STATUS_READY) OR BIT (bitno COROUTINE_FLAGS_INCOROPOOL);
         s1 = (if testb COROUTINE_FLAGS_OWNSTACK co then SETBIT (bitno COROUTINE_FLAGS_OWNSTACK) s0 else s0);
         s2 = (if testb COROUTINE_FLAGS_ALLOCSTACKMEM co then SETBIT (bitno COROUTINE_FLAGS_ALLOCSTACKMEM) s1 else s1)
     in if isasymmetric then SETBIT (bitno COROUTINE_FLAGS_ASYMMETRIC) s2 else s2)"

definition cp_obtain :: "addr \<Rightarrow> nat \<Rightarrow> addr \<Rightarrow> int \<Rightarrow> bool \<Rightarrow> bool \<Rightarrow> int M" where
  "cp_obtain p f a timeout isasymmetric isurgent =
    seq (DYCO_MUST (f \<noteq> 0))
   (bind get_sched (\<lambda>s.
    bind (cp_wait p timeout) (\<lambda>r.
      if r \<le> 0 then ret r
      else
        bind (cp_get p) (\<lambda>cp.
        let c = SLIST_FIRST (freelist cp) in
          if c = NULL then fail BadAccess
          else
            seq (cp_set p (\<lambda>cp. cp\<lparr>freelist := SLIST_REMOVE_HEAD (freelist cp), activenum := activenum cp + 1\<rparr>))
           (seq (co_set c (\<lambda>co. co\<lparr>co_func := f, co_arg := a, co_status := obtain_status co isasymmetric, sched_count := 0,
                    sleep_usecs := 0, co_udata := NULL, co_epollfd := - 1, co_sigfd := - 1\<rparr>))
           (seq (register_coro s c)
           (seq (sc_set s (\<lambda>sc. sc\<lparr>coro_count := coro_count sc + 1\<rparr>))
           (seq (whenM (\<not> isasymmetric)
                  (seq (if isurgent
                        then seq (co_set c (setb COROUTINE_FLAGS_URGENT)) (queue_push s QUrgent c)
                        else queue_push s QReady c)
                       (sc_set s reopen)))
           (bind (co_get c) (\<lambda>co. ret (sint (cid co))))))))))))"

definition cp_return :: "addr \<Rightarrow> unit M" where
  "cp_return c =
    (if c = NULL then ret ()
     else
       bind (co_get c) (\<lambda>co.
       let p = co_cpool co in
         if p = NULL then ret ()
         else
           seq (sc_set (co_sched co) (\<lambda>sc. sc\<lparr>coro_count := coro_count sc - 1\<rparr>))
          (seq (cidmap_delete (co_sched co) (cid co))
          (seq (whenM (testb COROUTINE_FLAGS_IOMULTIPLEXING co)
                 (seq (schedule_cancel_wait c (co_epollfd co))
                 (bind (sc_get (co_sched co)) (\<lambda>sc.
                  bind (epoll_ctl_del (sc_epollfd sc) (co_epollfd co)) (\<lambda>r.
                  seq (DYCO_MUST (r = 0))
                 (seq (close (co_epollfd co)) (ret ())))))))
          (seq (whenM (testb COROUTINE_FLAGS_WAITSIGNAL co)
                 (seq (sigprocmask SIG_SETMASK (old_sigmask co))
                 (seq (close (co_sigfd co)) (ret ()))))
          (seq (co_set c (clrb COROUTINE_FLAGS_URGENT))
          (seq (cp_set p (\<lambda>cp. cp\<lparr>freelist := SLIST_INSERT_HEAD c (freelist cp), activenum := activenum cp - 1\<rparr>))
               (cp_wake p))))))))"

definition dyco_coropool_create :: "int \<Rightarrow> nat \<Rightarrow> addr M" where
  "dyco_coropool_create tsize stacksize = cp_create tsize stacksize False"

definition dyco_coropool_resize :: "addr \<Rightarrow> int \<Rightarrow> addr M" where
  "dyco_coropool_resize p newsize = cp_resize p newsize False"

definition dyco_coropool_destroy :: "addr \<Rightarrow> int M" where
  "dyco_coropool_destroy p = cp_destroy p False"

definition dyco_coropool_obtain :: "addr \<Rightarrow> nat \<Rightarrow> addr \<Rightarrow> int \<Rightarrow> int M" where
  "dyco_coropool_obtain p f a timeout = cp_obtain p f a timeout False False"

definition dyco_coropool_obtain_urgent :: "addr \<Rightarrow> nat \<Rightarrow> addr \<Rightarrow> int \<Rightarrow> int M" where
  "dyco_coropool_obtain_urgent p f a timeout = cp_obtain p f a timeout False True"

definition dyco_coropool_return :: "addr \<Rightarrow> unit M" where
  "dyco_coropool_return c = cp_return c"

definition dyco_asymcpool_create :: "int \<Rightarrow> nat \<Rightarrow> addr M" where
  "dyco_asymcpool_create tsize stacksize = cp_create tsize stacksize True"

definition dyco_asymcpool_resize :: "addr \<Rightarrow> int \<Rightarrow> addr M" where
  "dyco_asymcpool_resize p newsize = cp_resize p newsize True"

definition dyco_asymcpool_destroy :: "addr \<Rightarrow> int M" where
  "dyco_asymcpool_destroy p = cp_destroy p True"

definition dyco_asymcpool_available :: "addr \<Rightarrow> int M" where
  "dyco_asymcpool_available p = bind (cp_get p) (\<lambda>cp. ret (dyco_coropool_available cp))"

definition dyco_asymcpool_obtain :: "addr \<Rightarrow> nat \<Rightarrow> addr \<Rightarrow> int \<Rightarrow> int M" where
  "dyco_asymcpool_obtain p f a timeout = cp_obtain p f a timeout True False"

definition dyco_asymcpool_return :: "i32 \<Rightarrow> unit M" where
  "dyco_asymcpool_return k = bind (get_coro_by_cid k) (\<lambda>c. whenM (c \<noteq> NULL) (cp_return c))"

end
