(* ===== verification/Dyco_Run.thy ===== *)
theory Dyco_Run
  imports Dyco_Coropool
begin

text \<open>
  The scheduler at work: the calls a coroutine makes to its scheduler (\<^verbatim>\<open>src/dyco_schedcall.c\<close>), the
  abort path, \<^verbatim>\<open>resume\<close> and \<^verbatim>\<open>execute\<close> of \<^verbatim>\<open>src/dyco_coroutine.c\<close>, the main loop
  \<^verbatim>\<open>dyco_schedule_run\<close>, and the machine that runs all contexts of a thread.

  The functions the coroutines run are a parameter \<open>prog\<close>: for a function pointer and its argument, any
  computation. Loops that need not end take \<open>fuel\<close>; running out of it is the fault \<open>NoFuel\<close>.
\<close>

section \<open>Abort\<close>

definition coro_abort :: "addr \<Rightarrow> unit M" where
  "coro_abort c =
    bind (co_get c) (\<lambda>co.
      if testb COROUTINE_FLAGS_INCOROPOOL co
      then if testb COROUTINE_FLAGS_ASYMMETRIC co then dyco_asymcpool_return (cid co) else dyco_coropool_return c
      else if testb COROUTINE_FLAGS_ASYMMETRIC co then dyco_asymcoro_free (cid co) else freecoro c)"

text \<open>The identifier map of a scheduler as a place the callback-driven table functions work on.\<close>

definition cid_map_of :: "addr \<Rightarrow> world \<Rightarrow> dyco_htable" where
  "cid_map_of s w = (case scheds w s of Some sc \<Rightarrow> cid_co_map sc | None \<Rightarrow> zero_htable)"

definition cid_map_put :: "addr \<Rightarrow> dyco_htable \<Rightarrow> world \<Rightarrow> world" where
  "cid_map_put s ht w =
    (case scheds w s of Some sc \<Rightarrow> w\<lparr>scheds := (scheds w)(s \<mapsto> sc\<lparr>cid_co_map := ht\<rparr>)\<rparr> | None \<Rightarrow> w)"

definition schedule_abort :: "addr \<Rightarrow> unit M" where
  "schedule_abort s =
    seq (sc_get s)
   (seq (htable_clear_with_freecb (cid_map_of s) (cid_map_put s) coro_abort)
        (sc_set s (\<lambda>sc. sc\<lparr>curr_thread := NULL, sc_status := SCHEDULE_STATUS_ABORTED\<rparr>)))"

section \<open>Scheduler calls\<close>

definition schedule_callexec :: "addr \<Rightarrow> bool M" where
  "schedule_callexec s =
    bind (sc_get s) (\<lambda>sc.
      case callnum (sc_call sc) of
        CALLNUM_SIGPROCMASK \<Rightarrow>
          bind (sigprocmask (sa_how (call_arg (sc_call sc))) (sa_set (call_arg (sc_call sc)))) (\<lambda>(r, old).
          seq (sc_set s (\<lambda>sc. sc\<lparr>sc_call := (sc_call sc)\<lparr>call_ret := r,
                 call_arg := (call_arg (sc_call sc))\<lparr>sa_oset := old\<rparr>\<rparr>\<rparr>))
              (ret True))
      | CALLNUM_SCHED_STOP \<Rightarrow>
          seq (schedule_stop s)
         (seq (sc_set s (\<lambda>sc. sc\<lparr>sc_call := (sc_call sc)\<lparr>call_ret := 0\<rparr>\<rparr>))
              (ret False))
      | CALLNUM_SCHED_ABORT \<Rightarrow>
          seq (schedule_abort s)
         (seq (sc_set s (\<lambda>sc. sc\<lparr>sc_call := (sc_call sc)\<lparr>call_ret := 0\<rparr>\<rparr>))
              (ret False)))"

definition dyco_schedcall_sigprocmask :: "int \<Rightarrow> sigset \<Rightarrow> (int \<times> sigset) M" where
  "dyco_schedcall_sigprocmask how sset =
    bind get_sched (\<lambda>s.
      if s = NULL then ret (- 1, 0)
      else bind (sc_get s) (\<lambda>sc.
        let c = curr_thread sc in
        if c = NULL then ret (- 1, 0)
        else
          bind (sigprocmask SIG_BLOCK sset) (\<lambda>(r, _).
          seq (DYCO_MUST (r = 0))
         (seq (sc_set s (\<lambda>sc. sc\<lparr>sc_call := (sc_call sc)\<lparr>callnum := CALLNUM_SIGPROCMASK,
                call_arg := \<lparr>sa_how = how, sa_set = sset, sa_oset = 0\<rparr>\<rparr>\<rparr>))
         (seq (co_set c (clrb COROUTINE_STATUS_RUNNING))
         (seq (co_set c (setb COROUTINE_STATUS_SCHEDCALL))
         (seq (swap_to_sched c)
         (seq (co_set c (clrb COROUTINE_STATUS_SCHEDCALL))
         (seq (co_set c (setb COROUTINE_STATUS_RUNNING))
         (bind (sc_get s) (\<lambda>sc. ret (call_ret (sc_call sc), sa_oset (call_arg (sc_call sc))))))))))))))"

definition dyco_schedcall_stop :: "unit M" where
  "dyco_schedcall_stop =
    bind get_sched (\<lambda>s.
      if s = NULL then ret ()
      else bind (sc_get s) (\<lambda>sc.
        let c = curr_thread sc in
        if c = NULL then ret ()
        else
          seq (sc_set s (\<lambda>sc. sc\<lparr>sc_call := (sc_call sc)\<lparr>callnum := CALLNUM_SCHED_STOP\<rparr>\<rparr>))
         (seq (co_set c (clrb COROUTINE_STATUS_RUNNING))
         (seq (co_set c (setb COROUTINE_STATUS_SCHEDCALL))
         (seq (co_set c (setb COROUTINE_STATUS_READY))
         (seq (push_ready s c)
         (seq (savestk c)
         (seq (swap_to_sched c)
         (seq (co_set c (setb COROUTINE_STATUS_RUNNING))
              (co_set c (clrb COROUTINE_STATUS_SCHEDCALL)))))))))))"

definition dyco_schedcall_abort :: "unit M" where
  "dyco_schedcall_abort =
    bind get_sched (\<lambda>s.
      if s = NULL then ret ()
      else bind (sc_get s) (\<lambda>sc.
        let c = curr_thread sc in
        if c = NULL then ret ()
        else
          seq (sc_set s (\<lambda>sc. sc\<lparr>sc_call := (sc_call sc)\<lparr>callnum := CALLNUM_SCHED_ABORT\<rparr>\<rparr>))
         (seq (co_set c (clrb COROUTINE_STATUS_RUNNING))
         (seq (co_set c (setb COROUTINE_STATUS_SCHEDCALL))
         (seq (swap_to_sched c)
         (seq (co_set c (clrb COROUTINE_STATUS_SCHEDCALL))
              (co_set c (setb COROUTINE_STATUS_RUNNING))))))))"

section \<open>Resuming a coroutine\<close>

text \<open>
  The loop that serves scheduler calls: \<open>True\<close> when the coroutine came back without one, \<open>False\<close>
  when a call ended the run (\<^verbatim>\<open>return 1\<close>).
\<close>

fun serve_calls :: "nat \<Rightarrow> addr \<Rightarrow> addr \<Rightarrow> bool M" where
  "serve_calls 0 s c = fail NoFuel"
| "serve_calls (Suc n) s c =
    bind (co_get c) (\<lambda>co.
      if testb COROUTINE_STATUS_SCHEDCALL co
      then bind (schedule_callexec s) (\<lambda>go.
             if go then seq (swapcontext SchedCtx (CoCtx c)) (serve_calls n s c) else ret False)
      else ret True)"

definition resume :: "nat \<Rightarrow> addr \<Rightarrow> int M" where
  "resume fuel c =
    bind (co_get c) (\<lambda>co0.
    seq (if testb COROUTINE_STATUS_NEW co0 then init_coro c else loadstk c)
   (let s = co_sched co0 in
    seq (co_set c (\<lambda>co. co\<lparr>sched_count := sched_count co + 1\<rparr>))
   (seq (sc_set s (curr_thread_update (\<lambda>_. c)))
   (seq (swapcontext SchedCtx (CoCtx c))
   (bind (serve_calls fuel s c) (\<lambda>back.
      if \<not> back then ret 1
      else
        seq (sc_set s (curr_thread_update (\<lambda>_. NULL)))
       (bind (co_get c) (\<lambda>co.
          if testb COROUTINE_STATUS_KILLED co
          then seq (schedule_cancel_sleep c)
              (seq (htable_delete_with_freecb (cid_map_of s) (cid_map_put s) coro_abort (cid co))
                   (ret (- 1)))
          else if testb COROUTINE_STATUS_EXITED co
          then seq (schedule_cancel_sleep c)
              (seq (if testb COROUTINE_FLAGS_INCOROPOOL co then dyco_coropool_return c else freecoro c)
                   (ret (- 1)))
          else ret 0))))))))"

text \<open>The bodies of the contexts made by \<^verbatim>\<open>init_coro\<close> (symmetric and asymmetric).\<close>

definition execute :: "(nat \<Rightarrow> addr \<Rightarrow> unit M) \<Rightarrow> addr \<Rightarrow> unit M" where
  "execute prog c =
    seq (co_set c (setb COROUTINE_STATUS_RUNNING))
   (bind (co_get c) (\<lambda>co.
    seq (prog (co_func co) (co_arg co))
   (seq (co_set c (setb COROUTINE_STATUS_EXITED))
        (yield c))))"

definition execute_asym :: "(nat \<Rightarrow> addr \<Rightarrow> unit M) \<Rightarrow> addr \<Rightarrow> unit M" where
  "execute_asym prog c =
    seq (co_set c (setb COROUTINE_STATUS_RUNNING))
   (bind (co_get c) (\<lambda>co.
    seq (prog (co_func co) (co_arg co))
   (seq (co_set c (setb COROUTINE_STATUS_EXITED))
        dyco_asymcoroyield)))"

section \<open>The main loop\<close>

text \<open>Phase A: every expired sleeper goes to the ready queue of its priority. Each turn takes one sleeper out.\<close>

fun probe_expired :: "nat \<Rightarrow> addr \<Rightarrow> unit M" where
  "probe_expired 0 s = fail NoFuel"
| "probe_expired (Suc n) s =
    bind (schedule_get_expired s) (\<lambda>expired.
      if expired = NULL then ret ()
      else seq (co_set expired (setb COROUTINE_STATUS_READY))
          (seq (push_ready s expired)
               (probe_expired n s)))"

text \<open>
  Phases B and C: resume the coroutines of a queue, first one first, until the queue is empty, the one that was last at
  the beginning has run, or the turns are used up; \<open>Some r\<close> when the run is to return \<open>r\<close>.
\<close>

fun process_queue :: "nat \<Rightarrow> qid \<Rightarrow> nat \<Rightarrow> addr \<Rightarrow> addr \<Rightarrow> int option M" where
  "process_queue fuel q 0 s lastco = ret None"
| "process_queue fuel q (Suc k) s lastco =
    bind (sc_get s) (\<lambda>sc.
      if TAILQ_EMPTY q (queues sc) then ret None
      else
        let c = TAILQ_FIRST q (queues sc) in
        seq (sc_set s (\<lambda>sc. sc\<lparr>queues := TAILQ_REMOVE q c (queues sc)\<rparr>))
       (seq (co_set c (clrb COROUTINE_STATUS_READY))
       (seq (resume fuel c)
       (bind (sc_get s) (\<lambda>sc'.
          if sc_status sc' = SCHEDULE_STATUS_STOPPED then ret (Some 1)
          else if sc_status sc' = SCHEDULE_STATUS_ABORTED then ret (Some (- 1))
          else if c = lastco then ret None
          else process_queue fuel q k s lastco)))))"

text \<open>Phase D: the coroutine waiting for each ready descriptor is queued and stops waiting for it.\<close>

fun process_events :: "fd list \<Rightarrow> addr \<Rightarrow> unit M" where
  "process_events [] s = ret ()"
| "process_events (n # ns) s =
    bind (schedule_get_waitco s n) (\<lambda>c.
    seq (whenM (c \<noteq> NULL)
          (seq (co_set c (setb COROUTINE_STATUS_READY))
          (seq (push_ready s c)
          (seq (schedule_cancel_wait c n) (ret ())))))
        (process_events ns s))"

fun schedule_loop :: "nat \<Rightarrow> addr \<Rightarrow> int M" where
  "schedule_loop 0 s = fail NoFuel"
| "schedule_loop (Suc fuel) s =
    bind (sc_get s) (\<lambda>sc.
      if SCHEDULE_ISDONE sc
      then seq (sc_set s (sc_status_update (\<lambda>_. SCHEDULE_STATUS_DONE))) (ret 0)
      else
        seq (probe_expired (Suc (length (inorder (sleeping sc)))) s)
       (bind (sc_get s) (\<lambda>sc1.
        bind (process_queue fuel QUrgent DYCO_URGENT_MAXEXEC s (TAILQ_LAST QUrgent (queues sc1))) (\<lambda>r1.
        case r1 of
          Some r \<Rightarrow> ret r
        | None \<Rightarrow>
            bind (sc_get s) (\<lambda>sc2.
            bind (process_queue fuel QReady DYCO_URGENT_MAXWAIT s (TAILQ_LAST QReady (queues sc2))) (\<lambda>r2.
            case r2 of
              Some r \<Rightarrow> ret r
            | None \<Rightarrow>
                bind (schedule_epoll_wait fuel s) (\<lambda>(nready, events).
                seq (whenM (nready \<noteq> 0) (process_events events s))
                    (schedule_loop fuel s))))))))"

definition dyco_schedule_run :: "nat \<Rightarrow> int M" where
  "dyco_schedule_run fuel =
    bind get_sched (\<lambda>s.
      if s = NULL then ret (- 2)
      else bind (sc_get s) (\<lambda>sc.
        seq (DYCO_MUSTNOT (sc_status sc = SCHEDULE_STATUS_RUNNING))
       (if sc_status sc = SCHEDULE_STATUS_ABORTED then ret (- 2)
        else if sc_status sc = SCHEDULE_STATUS_DONE then ret 0
        else seq (sc_set s (sc_status_update (\<lambda>_. SCHEDULE_STATUS_RUNNING)))
                 (schedule_loop fuel s))))"

section \<open>The machine\<close>

text \<open>
  The contexts of a thread: each saved context is the continuation captured at the switch, together with the signal
  mask of that moment, which \<^verbatim>\<open>swapcontext\<close> restores. Loading a context made by \<^verbatim>\<open>makecontext\<close> starts
  its body (with the mask of the context that made it, the one that loads it); a context nobody saved, or a
  body that returns, is a \<open>BadContext\<close>.
\<close>

datatype run_result = Finished int world | Crashed fault

type_synonym konts = "slot \<Rightarrow> (world \<Rightarrow> (world, int) outcome) option"

definition entry :: "(nat \<Rightarrow> addr \<Rightarrow> unit M) \<Rightarrow> world \<Rightarrow> slot \<Rightarrow> int M option" where
  "entry prog w t =
    (case t of
       CoCtx c \<Rightarrow>
         (case cos w c of
            Some co \<Rightarrow>
              (case co_ctx co of
                 CtxStart \<Rightarrow> Some (seq (execute prog c) (fail BadContext))
               | CtxStartAsym \<Rightarrow> Some (seq (execute_asym prog c) (fail BadContext))
               | _ \<Rightarrow> None)
          | None \<Rightarrow> None)
     | _ \<Rightarrow> None)"

definition save_context :: "slot \<Rightarrow> (world \<Rightarrow> (world, int) outcome) \<Rightarrow> world \<Rightarrow> konts \<Rightarrow> konts" where
  "save_context f k w ks = ks(f \<mapsto> (\<lambda>w'. k (w'\<lparr>sigmask := sigmask w\<rparr>)))"

fun machine :: "(nat \<Rightarrow> addr \<Rightarrow> unit M) \<Rightarrow> nat \<Rightarrow> konts \<Rightarrow> (world, int) outcome \<Rightarrow> run_result" where
  "machine prog n ks (Done r w) = Finished r w"
| "machine prog n ks (Fault e) = Crashed e"
| "machine prog 0 ks (Swap f t w k) = Crashed NoFuel"
| "machine prog (Suc n) ks (Swap f t w k) =
    (case entry prog w t of
       Some body \<Rightarrow> machine prog n (save_context f k w ks) (body w)
     | None \<Rightarrow>
         (case save_context f k w ks t of
            Some k' \<Rightarrow> machine prog n (save_context f k w ks) (k' w)
          | None \<Rightarrow> Crashed BadContext))"

end
