(* ===== verification/Timer_Correct.thy ===== *)
theory Timer_Correct
  imports Dyco_Schedule
begin

text \<open>
  What the timer operations of the scheduler do to the set of sleeping coroutines. The sleep tree is used
  through the contracts of the locale \<open>sleep_queue\<close> (facts \<open>sleepers.*\<close>).
\<close>

section \<open>The invariant of the sleep tree\<close>

definition timers_ok :: "world \<Rightarrow> addr \<Rightarrow> dyco_schedule \<Rightarrow> bool" where
  "timers_ok w s sc =
    (scheds w s = Some sc \<and> rb_wf (sleep_key w) (sleeping sc) \<and>
     (\<forall>a \<in> set (inorder (sleeping sc)). \<exists>co. cos w a = Some co \<and> co_sched co = s \<and> testb COROUTINE_STATUS_SLEEPING co))"

lemma sleep_key_simps [simp]:
  "sleep_key (w\<lparr>scheds := x1\<rparr>) = sleep_key w" "sleep_key (w\<lparr>tick := x2\<rparr>) = sleep_key w"
  "sleep_key (w\<lparr>fds := x3\<rparr>) = sleep_key w" "sleep_key (w\<lparr>heap := x4\<rparr>) = sleep_key w"
  by (simp_all add: sleep_key_def fun_eq_iff)

lemma sleep_key_cos [simp]: "sleep_key (w\<lparr>cos := (cos w)(c \<mapsto> co)\<rparr>) = (sleep_key w)(c := sleep_usecs co)"
  by (auto simp: sleep_key_def fun_eq_iff)

lemma tree_live_simps [simp]:
  "tree_live (w\<lparr>scheds := x1\<rparr>) t = tree_live w t" "tree_live (w\<lparr>tick := x2\<rparr>) t = tree_live w t"
  by (simp_all add: tree_live_def)

lemma timers_live: "timers_ok w s sc \<Longrightarrow> tree_live w (sleeping sc)"
  by (auto simp: timers_ok_def tree_live_def list_all_iff)

lemma timers_wf: "timers_ok w s sc \<Longrightarrow> rb_wf (sleep_key w) (sleeping sc)"
  by (simp add: timers_ok_def)

lemma timers_sched: "timers_ok w s sc \<Longrightarrow> scheds w s = Some sc"
  by (simp add: timers_ok_def)

lemma timers_distinct: "timers_ok w s sc \<Longrightarrow> distinct (inorder (sleeping sc))"
  by (meson by_key_distinct rb_wf_def timers_wf)

lemma sleep_remove_run:
  assumes "scheds w s = Some sc" "rb_wf (sleep_key w) (sleeping sc)" "tree_live w (sleeping sc)" "c \<in> set (inorder (sleeping sc))"
  obtains t' where "sleep_remove s c w = Done () (w\<lparr>scheds := (scheds w)(s \<mapsto> sc\<lparr>sleeping := t'\<rparr>)\<rparr>)"
    "rb_wf (sleep_key w) t'" "inorder t' = remove1 c (inorder (sleeping sc))"
proof -
  from sleepers.del_law [OF assms(2,4)] obtain t' where "RB_REMOVE c (sleeping sc) = Some t'" "rb_wf (sleep_key w) t'"
    "inorder t' = remove1 c (inorder (sleeping sc))" by blast
  with assms that show thesis by (simp add: sleep_remove_def sleep_tree_def)
qed

lemma timers_ok_remove:
  assumes "timers_ok w s sc" "rb_wf (sleep_key w) t'" "inorder t' = remove1 c (inorder (sleeping sc))" "cos w c = Some co"
    "w' = w\<lparr>scheds := (scheds w)(s \<mapsto> sc\<lparr>sleeping := t'\<rparr>), cos := (cos w)(c \<mapsto> co'), tick := n\<rparr>" "sleep_usecs co' = sleep_usecs co"
  shows "timers_ok w' s (sc\<lparr>sleeping := t'\<rparr>)"
proof -
  have k: "sleep_key w' = sleep_key w" using assms(4-6) by (auto simp: sleep_key_def fun_eq_iff)
  have "c \<notin> set (inorder t')" using assms(3) timers_distinct [OF assms(1)] by simp
  moreover have "set (inorder t') \<subseteq> set (inorder (sleeping sc))" using assms(3) by (simp add: set_remove1_subset)
  ultimately show ?thesis using assms(1,2,5) k by (auto simp: timers_ok_def)
qed

section \<open>Cancelling a timer\<close>

lemma cancel_sleep_run:
  assumes t: "timers_ok w s sc" and c: "cos w c = Some co" "co_sched co = s" "testb COROUTINE_STATUS_SLEEPING co"
    "c \<in> set (inorder (sleeping sc))"
  shows "\<exists>w' sc'. schedule_cancel_sleep c w = Done () w' \<and> timers_ok w' s sc' \<and>
    inorder (sleeping sc') = remove1 c (inorder (sleeping sc)) \<and>
    cos w' = (cos w)(c \<mapsto> clrb COROUTINE_STATUS_SLEEPING co) \<and> sc' = sc\<lparr>sleeping := sleeping sc'\<rparr>"
proof -
  from sleep_remove_run [OF timers_sched [OF t] timers_wf [OF t] timers_live [OF t] c(4)] obtain t' where
    t': "sleep_remove s c w = Done () (w\<lparr>scheds := (scheds w)(s \<mapsto> sc\<lparr>sleeping := t'\<rparr>)\<rparr>)"
    "rb_wf (sleep_key w) t'" "inorder t' = remove1 c (inorder (sleeping sc))" by blast
  let ?w = "w\<lparr>scheds := (scheds w)(s \<mapsto> sc\<lparr>sleeping := t'\<rparr>), cos := (cos w)(c \<mapsto> clrb COROUTINE_STATUS_SLEEPING co)\<rparr>"
  have "schedule_cancel_sleep c w = Done () ?w"
    using c by (simp add: schedule_cancel_sleep_def whenM_def seq_Done [where m = "sleep_remove s c", OF t'(1)])
  moreover have "timers_ok (?w\<lparr>tick := tick w\<rparr>) s (sc\<lparr>sleeping := t'\<rparr>)"
    by (rule timers_ok_remove [OF t t'(2,3) c(1) refl]) simp
  ultimately show ?thesis using t'(3) by (intro exI [of _ ?w] exI [of _ "sc\<lparr>sleeping := t'\<rparr>"]) simp
qed

lemma cancel_sleep_noop:
  "cos w c = Some co \<Longrightarrow> \<not> testb COROUTINE_STATUS_SLEEPING co \<Longrightarrow> schedule_cancel_sleep c w = Done () w"
  by (simp add: schedule_cancel_sleep_def whenM_def)

section \<open>Expiry\<close>

lemma RB_MIN_inorder: "rb_wf key t \<Longrightarrow> RB_MIN t = (if inorder t = [] then NULL else hd (inorder t)) \<and> (inorder t \<noteq> [] \<longrightarrow> RB_MIN t \<noteq> NULL)"
proof (cases "inorder t")
  case (Cons a as)
  moreover assume "rb_wf key t"
  ultimately show ?thesis by (simp add: RB_MIN_ok rb_wf_def)
qed (simp add: RB_MIN_ok)

lemma get_expired_none:
  assumes t: "timers_ok w s sc" and n: "\<forall>a \<in> set (inorder (sleeping sc)). \<not> sleep_key w a \<le> diff_usecs (birth sc) (clk (environ w) (tick w))"
  shows "schedule_get_expired s w = Done NULL (w\<lparr>tick := Suc (tick w)\<rparr>)"
proof (cases "inorder (sleeping sc)")
  case Nil
  with t show ?thesis by (simp add: schedule_get_expired_def timers_ok_def Let_def RB_MIN_ok)
next
  case (Cons a as)
  with t obtain co where co: "cos w a = Some co" by (auto simp: timers_ok_def)
  from Cons t have "RB_MIN (sleeping sc) = a" "a \<noteq> NULL"
    using RB_MIN_inorder [OF timers_wf [OF t]] by (auto simp del: inorder_empty)
  moreover from n Cons co have "\<not> sleep_usecs co \<le> diff_usecs (birth sc) (clk (environ w) (tick w))"
    by (auto simp: sleep_key_def)
  ultimately show ?thesis using co t by (simp add: schedule_get_expired_def timers_ok_def Let_def)
qed

lemma get_expired_first:
  assumes t: "timers_ok w s sc" and i: "inorder (sleeping sc) = a # as" and co: "cos w a = Some co"
    and k: "sleep_usecs co \<le> diff_usecs (birth sc) (clk (environ w) (tick w))"
  obtains t' w' where "schedule_get_expired s w = Done a w'"
    "w' = w\<lparr>tick := Suc (tick w), scheds := (scheds w)(s \<mapsto> sc\<lparr>sleeping := t'\<rparr>),
      cos := (cos w)(a \<mapsto> setb COROUTINE_FLAGS_EXPIRED (clrb COROUTINE_STATUS_SLEEPING co))\<rparr>"
    "timers_ok w' s (sc\<lparr>sleeping := t'\<rparr>)" "inorder t' = as"
proof -
  let ?w = "w\<lparr>tick := Suc (tick w)\<rparr>"
  have t1: "timers_ok ?w s sc" using t by (simp add: timers_ok_def)
  have a: "a \<in> set (inorder (sleeping sc))" using i by simp
  with t co have s: "co_sched co = s" by (auto simp: timers_ok_def)
  from sleep_remove_run [OF timers_sched [OF t1] timers_wf [OF t1] timers_live [OF t1] a] obtain t' where
    t': "sleep_remove s a ?w = Done () (?w\<lparr>scheds := (scheds ?w)(s \<mapsto> sc\<lparr>sleeping := t'\<rparr>)\<rparr>)"
    "rb_wf (sleep_key ?w) t'" "inorder t' = remove1 a (inorder (sleeping sc))" by blast
  let ?co = "setb COROUTINE_FLAGS_EXPIRED (clrb COROUTINE_STATUS_SLEEPING co)"
  let ?w' = "?w\<lparr>scheds := (scheds w)(s \<mapsto> sc\<lparr>sleeping := t'\<rparr>), cos := (cos w)(a \<mapsto> ?co)\<rparr>"
  have "RB_MIN (sleeping sc) = a" "a \<noteq> NULL"
    using RB_MIN_inorder [OF timers_wf [OF t]] i by (auto simp del: inorder_empty)
  with co s k t have "schedule_get_expired s w = Done a ?w'"
    by (simp add: schedule_get_expired_def timers_ok_def Let_def seq_Done [where m = "sleep_remove s a" and s = ?w, OF t'(1)])
  moreover have "timers_ok ?w' s (sc\<lparr>sleeping := t'\<rparr>)"
    by (rule timers_ok_remove [OF t1 t'(2,3), where co = co and co' = ?co and n = "Suc (tick w)"]) (use co in simp_all)
  ultimately show thesis using t'(3) i that by simp
qed

section \<open>Setting a timer\<close>

lemma free_key:
  assumes "finite K" "card K < m" "m \<le> 2 ^ 64"
  shows "\<exists>j < m. (x :: u64) + of_nat j \<notin> K"
proof (rule ccontr)
  assume "\<not> ?thesis"
  then have "(\<lambda>j. x + of_nat j) ` {..<m} \<subseteq> K" by auto
  moreover have "inj_on (\<lambda>j. x + of_nat j :: u64) {..<m}"
  proof (rule inj_onI)
    fix i j assume ij: "i \<in> {..<m}" "j \<in> {..<m}" "x + of_nat i = x + (of_nat j :: u64)"
    then have "unat (of_nat i :: u64) = unat (of_nat j :: u64)" by simp
    with ij(1,2) assms(3) show "i = j" by (simp add: unat_of_nat)
  qed
  ultimately have "m \<le> card K" using card_mono [OF assms(1)] by (metis card_image card_lessThan)
  with assms(2) show False by simp
qed

lemma sleep_insert_run:
  assumes "scheds w s = Some sc" "rb_wf (sleep_key w) (sleeping sc)" "tree_live w (sleeping sc)" "c \<noteq> NULL"
  shows "(\<forall>a \<in> set (inorder (sleeping sc)). sleep_key w a \<noteq> sleep_key w c) \<Longrightarrow>
      \<exists>t'. sleep_insert s c w = Done NULL (w\<lparr>scheds := (scheds w)(s \<mapsto> sc\<lparr>sleeping := t'\<rparr>)\<rparr>) \<and>
        rb_wf (sleep_key w) t' \<and> inorder t' = insort_key (sleep_key w) c (inorder (sleeping sc))"
    and "a \<in> set (inorder (sleeping sc)) \<Longrightarrow> sleep_key w a = sleep_key w c \<Longrightarrow> sleep_insert s c w = Done a w"
proof -
  assume "\<forall>a \<in> set (inorder (sleeping sc)). sleep_key w a \<noteq> sleep_key w c"
  from RB_INSERT_new [OF assms(2,4) this] assms(1,3)
  show "\<exists>t'. sleep_insert s c w = Done NULL (w\<lparr>scheds := (scheds w)(s \<mapsto> sc\<lparr>sleeping := t'\<rparr>)\<rparr>) \<and>
        rb_wf (sleep_key w) t' \<and> inorder t' = insort_key (sleep_key w) c (inorder (sleeping sc))"
    by (auto simp: sleep_insert_def sleep_tree_def)
next
  assume "a \<in> set (inorder (sleeping sc))" "sleep_key w a = sleep_key w c"
  from RB_INSERT_equal [OF assms(2) this] assms(1,3) have
    "sleep_insert s c w = Done a (w\<lparr>scheds := (scheds w)(s \<mapsto> sc)\<rparr>)"
    by (simp add: sleep_insert_def sleep_tree_def)
  with assms(1) show "sleep_insert s c w = Done a w" by (simp add: fun_upd_idem)
qed

lemma sleep_insert_loop_run:
  assumes "scheds w s = Some sc" "rb_wf (sleep_key w) (sleeping sc)" "tree_live w (sleeping sc)"
    "cos w c = Some co" "c \<noteq> NULL" "c \<notin> set (inorder (sleeping sc))"
    "\<exists>j < n. sleep_usecs co + of_nat j \<notin> sleep_key w ` set (inorder (sleeping sc))"
  shows "\<exists>j < n. \<exists>t' co'. sleep_insert_loop n s c w =
      Done () (w\<lparr>scheds := (scheds w)(s \<mapsto> sc\<lparr>sleeping := t'\<rparr>), cos := (cos w)(c \<mapsto> co')\<rparr>) \<and>
    co' = clrb COROUTINE_FLAGS_EXPIRED (setb COROUTINE_STATUS_SLEEPING (co\<lparr>sleep_usecs := sleep_usecs co + of_nat j\<rparr>)) \<and>
    rb_wf ((sleep_key w)(c := sleep_usecs co')) t' \<and>
    inorder t' = insort_key ((sleep_key w)(c := sleep_usecs co')) c (inorder (sleeping sc))"
  using assms
proof (induction n arbitrary: w co)
  case 0
  then show ?case by simp
next
  case (Suc n)
  let ?T = "inorder (sleeping sc)"
  have kc: "sleep_key w c = sleep_usecs co" using Suc.prems(4) by (simp add: sleep_key_def)
  show ?case
  proof (cases "\<forall>a \<in> set ?T. sleep_key w a \<noteq> sleep_key w c")
    case True
    from sleep_insert_run(1) [OF Suc.prems(1-3,5) True] obtain t' where t':
      "sleep_insert s c w = Done NULL (w\<lparr>scheds := (scheds w)(s \<mapsto> sc\<lparr>sleeping := t'\<rparr>)\<rparr>)"
      "rb_wf (sleep_key w) t'" "inorder t' = insort_key (sleep_key w) c ?T" by blast
    have "(sleep_key w)(c := sleep_usecs co) = sleep_key w" using kc by (simp add: fun_upd_idem)
    with t' Suc.prems(4) show ?thesis
      by (intro exI [of _ 0] conjI exI [of _ t']
          exI [of _ "clrb COROUTINE_FLAGS_EXPIRED (setb COROUTINE_STATUS_SLEEPING (co\<lparr>sleep_usecs := sleep_usecs co + of_nat 0\<rparr>))"])
        (simp_all add: bind_Done [where m = "sleep_insert s c", OF t'(1)] fun_upd_same del: fun_upd_apply)
  next
    case False
    then obtain a where a: "a \<in> set ?T" "sleep_key w a = sleep_key w c" by blast
    have aN: "a \<noteq> NULL" using a(1) Suc.prems(2) by (metis rb_wf_def)
    let ?co = "co\<lparr>sleep_usecs := sleep_usecs co + 1\<rparr>"
    let ?w = "w\<lparr>cos := (cos w)(c \<mapsto> ?co)\<rparr>"
    have keys: "sleep_key ?w b = sleep_key w b" if "b \<in> set ?T" for b
      using that Suc.prems(6) by (auto simp: sleep_key_def)
    have wf: "rb_wf (sleep_key ?w) (sleeping sc)" by (rule rb_wf_key [OF keys Suc.prems(2)])
    have img: "sleep_key ?w ` set ?T = sleep_key w ` set ?T" using keys by (simp cong: image_cong)
    have j: "\<exists>j < n. sleep_usecs ?co + of_nat j \<notin> sleep_key ?w ` set ?T"
    proof -
      from Suc.prems(7) obtain j where j: "j < Suc n" "sleep_usecs co + of_nat j \<notin> sleep_key w ` set ?T" by blast
      have "sleep_usecs co \<in> sleep_key w ` set ?T" using a kc by (metis image_eqI)
      with j have "j \<noteq> 0" by (cases j) auto
      then obtain i where "j = Suc i" by (cases j) auto
      with j img show ?thesis by (intro exI [of _ i]) (simp add: add.assoc)
    qed
    have live: "tree_live ?w (sleeping sc)" using Suc.prems(3) by (auto simp: tree_live_def list_all_iff)
    have step: "sleep_insert_loop (Suc n) s c w = sleep_insert_loop n s c ?w"
      using aN Suc.prems(4) by (simp add: bind_Done [where m = "sleep_insert s c", OF sleep_insert_run(2) [OF Suc.prems(1-3,5) a]])
    have up: "(sleep_key ?w)(c := x) = (sleep_key w)(c := x)" for x by (auto simp: sleep_key_def fun_eq_iff)
    have prem: "scheds ?w s = Some sc" "cos ?w c = Some ?co" using Suc.prems(1) by simp_all
    from Suc.IH [OF prem(1) wf live prem(2) Suc.prems(5,6) j] obtain i t' co' where
      r: "i < n" "sleep_insert_loop n s c ?w = Done () (?w\<lparr>scheds := (scheds ?w)(s \<mapsto> sc\<lparr>sleeping := t'\<rparr>), cos := (cos ?w)(c \<mapsto> co')\<rparr>)"
        "co' = clrb COROUTINE_FLAGS_EXPIRED (setb COROUTINE_STATUS_SLEEPING (?co\<lparr>sleep_usecs := sleep_usecs ?co + of_nat i\<rparr>))"
        "rb_wf ((sleep_key ?w)(c := sleep_usecs co')) t'"
        "inorder t' = insort_key ((sleep_key ?w)(c := sleep_usecs co')) c ?T" by blast
    show ?thesis
      by (rule exI [of _ "Suc i"], intro conjI exI [of _ t'] exI [of _ co'])
        (use r in \<open>simp_all add: step up add.assoc del: sleep_insert_loop.simps fun_upd_apply\<close>)
  qed
qed

definition wake_key :: "dyco_schedule \<Rightarrow> world \<Rightarrow> int \<Rightarrow> u64" where
  "wake_key sc w msecs = diff_usecs (birth sc) (clk (environ w) (tick w)) + usecs_of msecs"

text \<open>The second half of \<^verbatim>\<open>schedule_sched_sleep\<close>, for a coroutine that has no timer.\<close>

lemma sleep_set_timer_run:
  assumes t: "timers_ok w s sc" and c: "cos w c = Some co" "co_sched co = s" "c \<noteq> NULL" "c \<notin> set (inorder (sleeping sc))"
    and l: "length (inorder (sleeping sc)) < 2 ^ 64"
  shows "\<exists>w' sc' co' j. sleep_set_timer s c msecs w = Done () w' \<and>
    w' = w\<lparr>tick := Suc (tick w), scheds := (scheds w)(s \<mapsto> sc'), cos := (cos w)(c \<mapsto> co')\<rparr> \<and> timers_ok w' s sc' \<and> j \<le> length (inorder (sleeping sc)) \<and>
    cos w' = (cos w)(c \<mapsto> co') \<and> sc' = sc\<lparr>sleeping := sleeping sc'\<rparr> \<and>
    co' = clrb COROUTINE_FLAGS_EXPIRED (setb COROUTINE_STATUS_SLEEPING (co\<lparr>sleep_usecs := wake_key sc w msecs + of_nat j\<rparr>)) \<and>
    set (inorder (sleeping sc')) = insert c (set (inorder (sleeping sc)))"
proof -
  let ?T = "inorder (sleeping sc)" and ?k = "wake_key sc w msecs"
  let ?co = "co\<lparr>sleep_usecs := ?k\<rparr>"
  let ?w = "w\<lparr>tick := Suc (tick w), cos := (cos w)(c \<mapsto> ?co)\<rparr>"
  have keys: "sleep_key ?w b = sleep_key w b" if "b \<in> set ?T" for b
    using that c(4) by (auto simp: sleep_key_def)
  have wf: "rb_wf (sleep_key ?w) (sleeping sc)" by (rule rb_wf_key [OF keys timers_wf [OF t]])
  have live: "tree_live ?w (sleeping sc)" using timers_live [OF t] by (auto simp: tree_live_def list_all_iff)
  have sc: "scheds ?w s = Some sc" "cos ?w c = Some ?co" using timers_sched [OF t] by simp_all
  have "card (sleep_key ?w ` set ?T) < Suc (length ?T)"
    by (rule le_imp_less_Suc) (meson card_image_le card_length finite_set order_trans)
  from free_key [OF _ this, of "sleep_usecs ?co"] l
  have free: "\<exists>j < Suc (length ?T). sleep_usecs ?co + of_nat j \<notin> sleep_key ?w ` set ?T" by simp
  from sleep_insert_loop_run [OF sc(1) wf live sc(2) c(3,4) free] obtain j t' co' where
    r: "j < Suc (length ?T)" "sleep_insert_loop (Suc (length ?T)) s c ?w =
        Done () (?w\<lparr>scheds := (scheds ?w)(s \<mapsto> sc\<lparr>sleeping := t'\<rparr>), cos := (cos ?w)(c \<mapsto> co')\<rparr>)"
      "co' = clrb COROUTINE_FLAGS_EXPIRED (setb COROUTINE_STATUS_SLEEPING (?co\<lparr>sleep_usecs := sleep_usecs ?co + of_nat j\<rparr>))"
      "rb_wf ((sleep_key ?w)(c := sleep_usecs co')) t'"
      "inorder t' = insort_key ((sleep_key ?w)(c := sleep_usecs co')) c ?T" by blast
  let ?w' = "?w\<lparr>scheds := (scheds ?w)(s \<mapsto> sc\<lparr>sleeping := t'\<rparr>), cos := (cos ?w)(c \<mapsto> co')\<rparr>"
  have run: "sleep_set_timer s c msecs w = Done () ?w'"
    using timers_sched [OF t] c(1) r(2) by (simp add: sleep_set_timer_def wake_key_def del: sleep_insert_loop.simps fun_upd_apply)
  have "sleep_key ?w' = (sleep_key ?w)(c := sleep_usecs co')" by (auto simp: sleep_key_def fun_eq_iff)
  with r(4) have wf': "rb_wf (sleep_key ?w') t'" by simp
  have set': "set (inorder t') = insert c (set ?T)" using r(5) by (simp add: set_insort_key)
  have "\<exists>co. cos ?w' a = Some co \<and> co_sched co = s \<and> testb COROUTINE_STATUS_SLEEPING co" if "a \<in> set (inorder t')" for a
    using that set' t c(2) r(3) by (cases "a = c") (auto simp: timers_ok_def)
  with wf' have "timers_ok ?w' s (sc\<lparr>sleeping := t'\<rparr>)" by (simp add: timers_ok_def)
  with run set' r(1,3) show ?thesis
    by (intro exI [of _ ?w'] exI [of _ "sc\<lparr>sleeping := t'\<rparr>"] exI [of _ co'] exI [of _ j]) simp
qed

lemma sleep_find_run:
  assumes t: "timers_ok w s sc" and c: "cos w c = Some co" "c \<noteq> NULL"
    and stale: "\<forall>a \<in> set (inorder (sleeping sc)). sleep_key w a = sleep_usecs co \<longrightarrow> a = c"
  shows "sleep_find s c w = Done (if c \<in> set (inorder (sleeping sc)) then c else NULL) w"
proof -
  have k: "sleep_key w c = sleep_usecs co" using c(1) by (simp add: sleep_key_def)
  have s: "by_key (sleep_key w) (inorder (sleeping sc))" using timers_wf [OF t] by (simp add: rb_wf_def)
  have "RB_FIND (sleep_key w) c (sleeping sc) = (if c \<in> set (inorder (sleeping sc)) then c else NULL)"
  proof (cases "c \<in> set (inorder (sleeping sc))")
    case True
    with RB_FIND_ok [OF s, of c c] show ?thesis by simp
  next
    case False
    have "RB_FIND (sleep_key w) c (sleeping sc) = NULL"
    proof (rule ccontr)
      assume "RB_FIND (sleep_key w) c (sleeping sc) \<noteq> NULL"
      with RB_FIND_ok [OF s, of c c] k stale False show False by metis
    qed
    with False show ?thesis by simp
  qed
  then show ?thesis using timers_sched [OF t] timers_live [OF t] by (simp add: sleep_find_def sleep_tree_def)
qed

lemma sched_sleep_run:
  assumes t: "timers_ok w s sc" and c: "cos w c = Some co" "co_sched co = s" "c \<noteq> NULL"
    and stale: "\<forall>a \<in> set (inorder (sleeping sc)). sleep_key w a = sleep_usecs co \<longrightarrow> a = c"
    and l: "length (inorder (sleeping sc)) < 2 ^ 64" and m: "0 < msecs"
  shows "\<exists>w' sc' co' j. schedule_sched_sleep c msecs w = Done () w' \<and> timers_ok w' s sc' \<and> j \<le> length (inorder (sleeping sc)) \<and>
    cos w' = (cos w)(c \<mapsto> co') \<and> sc' = sc\<lparr>sleeping := sleeping sc'\<rparr> \<and>
    co' = clrb COROUTINE_FLAGS_EXPIRED (setb COROUTINE_STATUS_SLEEPING (co\<lparr>sleep_usecs := wake_key sc w msecs + of_nat j\<rparr>)) \<and>
    set (inorder (sleeping sc')) = insert c (set (inorder (sleeping sc)))"
proof (cases "c \<in> set (inorder (sleeping sc))")
  case False
  have "schedule_sched_sleep c msecs w = sleep_set_timer s c msecs w"
    using c m False
    by (simp add: schedule_sched_sleep_def bind_Done [where m = "sleep_find s c", OF sleep_find_run [OF t c(1,3) stale]])
  with sleep_set_timer_run [OF t c False l, of msecs] show ?thesis by metis
next
  case True
  from sleep_remove_run [OF timers_sched [OF t] timers_wf [OF t] timers_live [OF t] True] obtain t' where
    t': "sleep_remove s c w = Done () (w\<lparr>scheds := (scheds w)(s \<mapsto> sc\<lparr>sleeping := t'\<rparr>)\<rparr>)"
    "rb_wf (sleep_key w) t'" "inorder t' = remove1 c (inorder (sleeping sc))" by blast
  let ?w = "w\<lparr>scheds := (scheds w)(s \<mapsto> sc\<lparr>sleeping := t'\<rparr>)\<rparr>" and ?sc = "sc\<lparr>sleeping := t'\<rparr>"
  have t1: "timers_ok ?w s ?sc"
    by (rule timers_ok_remove [OF t t'(2,3) c(1), where co' = co and n = "tick w"]) (use c(1) in \<open>simp_all add: fun_upd_idem\<close>)
  have d: "distinct (inorder (sleeping sc))" by (rule timers_distinct [OF t])
  with t'(3) have n: "c \<notin> set (inorder (sleeping ?sc))" by simp
  have l1: "length (inorder (sleeping ?sc)) \<le> length (inorder (sleeping sc))" using t'(3) True by (simp add: length_remove1)
  have c1: "cos ?w c = Some co" using c(1) by simp
  have "length (inorder (sleeping ?sc)) < 2 ^ 64" using l l1 by simp
  note rest = sleep_set_timer_run [OF t1 c1 c(2,3) n this, of msecs]
  have k: "wake_key ?sc ?w msecs = wake_key sc w msecs" by (simp add: wake_key_def)
  have ins: "insert c (set (inorder (sleeping ?sc))) = insert c (set (inorder (sleeping sc)))"
    using t'(3) d by auto
  have run: "schedule_sched_sleep c msecs w = sleep_set_timer s c msecs ?w"
    using c m True
    by (simp add: schedule_sched_sleep_def bind_Done [where m = "sleep_find s c", OF sleep_find_run [OF t c(1,3) stale]] seq_Done [where m = "sleep_remove s c", OF t'(1)])
  from rest obtain w' sc' co' j where r: "schedule_sched_sleep c msecs w = Done () w'" "timers_ok w' s sc'"
    "j \<le> length (inorder (sleeping ?sc))" "cos w' = (cos ?w)(c \<mapsto> co')" "sc' = ?sc\<lparr>sleeping := sleeping sc'\<rparr>"
    "co' = clrb COROUTINE_FLAGS_EXPIRED (setb COROUTINE_STATUS_SLEEPING (co\<lparr>sleep_usecs := wake_key ?sc ?w msecs + of_nat j\<rparr>))"
    "set (inorder (sleeping sc')) = insert c (set (inorder (sleeping ?sc)))" unfolding run by blast
  then show ?thesis unfolding k ins using l1
    by (intro exI [of _ w'] exI [of _ sc'] exI [of _ co'] exI [of _ j]) simp
qed

section \<open>Properties of the timers\<close>

text \<open>
  C16: setting a timer. For a coroutine of a scheduler whose sleep tree is well-formed, and whose old
  key is not the key of another sleeper, \<^verbatim>\<open>schedule_sched_sleep\<close> with a positive time returns (its
  collision loop ends within one turn per sleeper), the coroutine is among the sleepers, nobody else has
  left or joined, the tree is well-formed again, and the coroutine's key is the wake-up time plus at most
  one microsecond per sleeper. The wake-up time is the elapsed time plus the 32-bit product
  \<^verbatim>\<open>msecs * 1000u\<close>.
\<close>

theorem sched_sleep_correct:
  assumes "timers_ok w s sc" and "cos w c = Some co" and "co_sched co = s" and "c \<noteq> NULL"
    and "\<forall>a \<in> set (inorder (sleeping sc)). sleep_key w a = sleep_usecs co \<longrightarrow> a = c"
    and "length (inorder (sleeping sc)) < 2 ^ 64" and "0 < msecs"
  shows "\<exists>w' sc' co' j. schedule_sched_sleep c msecs w = Done () w' \<and> timers_ok w' s sc' \<and>
    set (inorder (sleeping sc')) = insert c (set (inorder (sleeping sc))) \<and> cos w' = (cos w)(c \<mapsto> co') \<and>
    testb COROUTINE_STATUS_SLEEPING co' \<and> \<not> testb COROUTINE_FLAGS_EXPIRED co' \<and>
    j \<le> length (inorder (sleeping sc)) \<and>
    sleep_usecs co' = clk (environ w) (tick w) - birth sc + usecs_of msecs + of_nat j"
proof -
  from sched_sleep_run [OF assms] obtain w' sc' co' j where
    "schedule_sched_sleep c msecs w = Done () w'" "timers_ok w' s sc'" "j \<le> length (inorder (sleeping sc))"
    "cos w' = (cos w)(c \<mapsto> co')"
    "co' = clrb COROUTINE_FLAGS_EXPIRED (setb COROUTINE_STATUS_SLEEPING (co\<lparr>sleep_usecs := wake_key sc w msecs + of_nat j\<rparr>))"
    "set (inorder (sleeping sc')) = insert c (set (inorder (sleeping sc)))" by blast
  then show ?thesis
    by (intro exI [of _ w'] exI [of _ sc'] exI [of _ co'] exI [of _ j]) (simp add: wake_key_def diff_usecs_def)
qed

text \<open>A world with one scheduler, at address 1, and the given coroutines: the starting point of the examples.\<close>

definition env0 :: env where
  "env0 = \<lparr>clk = \<lambda>_. 500, newfd = \<lambda>n. int n + 10, pollres = \<lambda>_. 0, epollres = \<lambda>_. Inr [], stkdepth = \<lambda>_. 100,
     sysres = \<lambda>_. (0, 0), sysbytes = \<lambda>_. [], pagesize = 4096\<rparr>"

definition co0 :: dyco_coroutine where
  "co0 = \<lparr>co_func = 0, co_arg = 0, co_sched = 1, co_ctx = CtxUnset, co_stack = 0, co_stack_size = 0, co_status = 0,
     sched_count = 0, sleep_usecs = 0, old_sigmask = 0, cid = 1, co_cpool = 0, co_udata = 0, co_epollfd = - 1, co_sigfd = - 1\<rparr>"

definition world0 :: "(addr \<Rightarrow> dyco_coroutine option) \<Rightarrow> dyco_schedule \<Rightarrow> world" where
  "world0 cs sc = \<lparr>heap = \<lparr>nalloc = 100, oom = \<lambda>_. False\<rparr>, bytes = \<lambda>_. None, cos = cs, scheds = [1 \<mapsto> sc],
     pools = \<lambda>_. None, lnodes = \<lambda>_. None, chans = \<lambda>_. None, psubs = \<lambda>_. None, wgroups = \<lambda>_. None, sems = \<lambda>_. None,
     key_made = True, sched_key = 1, sched_id_gen = 1, fds = [5 \<mapsto> EpollFd [], 6 \<mapsto> EventFd 0], sigmask = 0, environ = env0, tick = 0, wire = \<lambda>_. [], waits = [], stdout = []\<rparr>"

lemmas world0_simps [simp] = world0_def env0_def co0_def

theorem sched_sleep_correct_witness:
  "\<exists>w'. schedule_sched_sleep 7 20 (world0 [7 \<mapsto> co0, 8 \<mapsto> setb COROUTINE_STATUS_SLEEPING (co0\<lparr>sleep_usecs := 20500\<rparr>)]
        (zero_schedule\<lparr>sleeping := Nd RB_BLACK Lf 8 Lf\<rparr>)) = Done () w'"
proof -
  let ?sc = "zero_schedule\<lparr>sleeping := Nd RB_BLACK Lf 8 Lf\<rparr>"
  let ?w = "world0 [7 \<mapsto> co0, 8 \<mapsto> setb COROUTINE_STATUS_SLEEPING (co0\<lparr>sleep_usecs := 20500\<rparr>)] ?sc"
  have t: "timers_ok ?w 1 ?sc"
    by (auto simp: timers_ok_def rb_wf_def rb_ok_def intro!: exI [of _ 1])
  have c: "cos ?w 7 = Some co0" "co_sched co0 = 1" by simp_all
  have k: "\<forall>a \<in> set (inorder (sleeping ?sc)). sleep_key ?w a = sleep_usecs co0 \<longrightarrow> a = 7"
    by (simp add: sleep_key_def)
  from sched_sleep_correct [OF t c _ k, of 20] show ?thesis by auto
qed

text \<open>
  C37: a timer can be stolen. \<^verbatim>\<open>schedule_sched_sleep\<close> looks the coroutine's old timer up by its
  old key. When the coroutine has no timer (it was woken by its descriptor) and another coroutine happens to
  sleep with that key, the other one's timer is removed: after the call it is not in the sleep tree, although
  its status still says it is sleeping, so that nothing will wake it in time.
\<close>

theorem sched_sleep_steals_timer:
  assumes "timers_ok w s sc" and "cos w c = Some co" and "co_sched co = s" and "c \<notin> set (inorder (sleeping sc))"
    and "d \<in> set (inorder (sleeping sc))" and "sleep_key w d = sleep_usecs co" and "c \<noteq> NULL"
    and "length (inorder (sleeping sc)) < 2 ^ 64"
  shows "\<exists>w' sc' cod. schedule_sched_sleep c msecs w = Done () w' \<and> scheds w' s = Some sc' \<and>
    d \<notin> set (inorder (sleeping sc')) \<and> cos w' d = Some cod \<and> testb COROUTINE_STATUS_SLEEPING cod"
proof -
  have s: "by_key (sleep_key w) (inorder (sleeping sc))" using timers_wf [OF assms(1)] by (simp add: rb_wf_def)
  have "sleep_key w c = sleep_usecs co" using assms(2) by (simp add: sleep_key_def)
  with RB_FIND_ok [OF s, of d c] assms(5,6) have "RB_FIND (sleep_key w) c (sleeping sc) = d" by simp
  then have find: "sleep_find s c w = Done d w"
    using timers_sched [OF assms(1)] timers_live [OF assms(1)] by (simp add: sleep_find_def sleep_tree_def)
  from assms(1,5) have d: "d \<noteq> NULL" by (metis rb_wf_def timers_wf)
  from sleep_remove_run [OF timers_sched timers_wf timers_live assms(5), OF assms(1,1,1)] obtain t' where
    t': "sleep_remove s d w = Done () (w\<lparr>scheds := (scheds w)(s \<mapsto> sc\<lparr>sleeping := t'\<rparr>)\<rparr>)"
    "rb_wf (sleep_key w) t'" "inorder t' = remove1 d (inorder (sleeping sc))" by blast
  let ?w = "w\<lparr>scheds := (scheds w)(s \<mapsto> sc\<lparr>sleeping := t'\<rparr>)\<rparr>" and ?sc = "sc\<lparr>sleeping := t'\<rparr>"
  have run: "schedule_sched_sleep c msecs w = (if msecs \<le> 0 then Done () ?w else sleep_set_timer s c msecs ?w)"
    using assms(2,3) d
    by (simp add: schedule_sched_sleep_def bind_Done [where m = "sleep_find s c", OF find]
        seq_Done [where m = "sleep_remove s d", OF t'(1)])
  from assms(1,5) obtain cod where cod: "cos w d = Some cod" "testb COROUTINE_STATUS_SLEEPING cod"
    by (auto simp: timers_ok_def)
  have dt: "d \<notin> set (inorder t')" using t'(3) timers_distinct [OF assms(1)] by simp
  show ?thesis
  proof (cases "msecs \<le> 0")
    case True
    with run dt cod show ?thesis by auto
  next
    case False
    have t1: "timers_ok ?w s ?sc"
      by (rule timers_ok_remove [OF assms(1) t'(2,3) cod(1), where co' = cod and n = "tick w"])
        (use cod in \<open>simp_all add: fun_upd_idem\<close>)
    have "set (inorder t') \<subseteq> set (inorder (sleeping sc))" using t'(3) by (simp add: set_remove1_subset)
    with assms(4) have n: "c \<notin> set (inorder (sleeping ?sc))" by auto
    have l: "length (inorder (sleeping ?sc)) < 2 ^ 64" using t'(3) assms(5,8) by (simp add: length_remove1)
    have c: "cos ?w c = Some co" using assms(2) by simp
    from sleep_set_timer_run [OF t1 c assms(3,7) n l, of msecs] obtain w' sc' co' where
      r: "sleep_set_timer s c msecs ?w = Done () w'" "timers_ok w' s sc'" "cos w' = (cos ?w)(c \<mapsto> co')"
        "set (inorder (sleeping sc')) = insert c (set (inorder (sleeping ?sc)))" by blast
    have "d \<noteq> c" using assms(4,5) by blast
    with r run False dt cod timers_sched [OF r(2)] show ?thesis by auto
  qed
qed

theorem sched_sleep_steals_timer_witness:
  "\<exists>w' sc' cod. schedule_sched_sleep 7 1000 (world0 [7 \<mapsto> co0\<lparr>sleep_usecs := 300\<rparr>,
        8 \<mapsto> setb COROUTINE_STATUS_SLEEPING (co0\<lparr>sleep_usecs := 300\<rparr>)] (zero_schedule\<lparr>sleeping := Nd RB_BLACK Lf 8 Lf\<rparr>)) = Done () w' \<and>
     scheds w' 1 = Some sc' \<and> 8 \<notin> set (inorder (sleeping sc')) \<and> cos w' 8 = Some cod \<and> testb COROUTINE_STATUS_SLEEPING cod"
proof -
  let ?sc = "zero_schedule\<lparr>sleeping := Nd RB_BLACK Lf 8 Lf\<rparr>"
  let ?w = "world0 [7 \<mapsto> co0\<lparr>sleep_usecs := 300\<rparr>, 8 \<mapsto> setb COROUTINE_STATUS_SLEEPING (co0\<lparr>sleep_usecs := 300\<rparr>)] ?sc"
  have t: "timers_ok ?w 1 ?sc"
    by (auto simp: timers_ok_def rb_wf_def rb_ok_def intro!: exI [of _ 1])
  show ?thesis
    by (rule sched_sleep_steals_timer [OF t, where co = "co0\<lparr>sleep_usecs := 300\<rparr>"]) (simp_all add: sleep_key_def)
qed

text \<open>
  C17: expiry. \<^verbatim>\<open>schedule_get_expired\<close> returns the sleeper with the smallest key if its
  time has come, taken out of the tree and marked expired and no longer sleeping; if no sleeper's time has come
  it returns NULL and changes nothing but the reading of the clock.
\<close>

theorem get_expired_correct:
  assumes "timers_ok w s sc"
  defines "now \<equiv> clk (environ w) (tick w) - birth sc"
  shows "(\<exists>a as co w' sc'. inorder (sleeping sc) = a # as \<and> cos w a = Some co \<and> sleep_usecs co \<le> now \<and>
      schedule_get_expired s w = Done a w' \<and> timers_ok w' s sc' \<and> inorder (sleeping sc') = as \<and>
      cos w' = (cos w)(a \<mapsto> setb COROUTINE_FLAGS_EXPIRED (clrb COROUTINE_STATUS_SLEEPING co))) \<or>
    ((\<forall>a \<in> set (inorder (sleeping sc)). now < sleep_key w a) \<and>
      schedule_get_expired s w = Done NULL (w\<lparr>tick := Suc (tick w)\<rparr>))"
proof (cases "\<forall>a \<in> set (inorder (sleeping sc)). now < sleep_key w a")
  case True
  then have "\<forall>a \<in> set (inorder (sleeping sc)). \<not> sleep_key w a \<le> diff_usecs (birth sc) (clk (environ w) (tick w))"
    by (simp add: now_def diff_usecs_def not_le)
  with True get_expired_none [OF assms(1)] show ?thesis by blast
next
  case False
  then obtain b where b: "b \<in> set (inorder (sleeping sc))" "sleep_key w b \<le> now" by (auto simp: not_less)
  then obtain a as where i: "inorder (sleeping sc) = a # as" by (cases "inorder (sleeping sc)") auto
  then obtain co where co: "cos w a = Some co" using assms(1) by (auto simp: timers_ok_def)
  have s: "by_key (sleep_key w) (inorder (sleeping sc))" using timers_wf [OF assms(1)] by (simp add: rb_wf_def)
  have "sleep_key w a \<le> sleep_key w b" using s b(1) i by (auto simp: less_imp_le)
  with b(2) co have k: "sleep_usecs co \<le> now" by (simp add: sleep_key_def)
  have "sleep_usecs co \<le> diff_usecs (birth sc) (clk (environ w) (tick w))" using k by (simp add: now_def diff_usecs_def)
  from get_expired_first [OF assms(1) i co this] obtain t' w' where
    r: "schedule_get_expired s w = Done a w'"
      "w' = w\<lparr>tick := Suc (tick w), scheds := (scheds w)(s \<mapsto> sc\<lparr>sleeping := t'\<rparr>),
        cos := (cos w)(a \<mapsto> setb COROUTINE_FLAGS_EXPIRED (clrb COROUTINE_STATUS_SLEEPING co))\<rparr>"
      "timers_ok w' s (sc\<lparr>sleeping := t'\<rparr>)" "inorder t' = as" by blast
  show ?thesis
    by (intro disjI1 exI [of _ a] exI [of _ as] exI [of _ co] exI [of _ w'] exI [of _ "sc\<lparr>sleeping := t'\<rparr>"])
      (use r i co k in simp)
qed

theorem get_expired_correct_witness:
  "\<exists>w'. schedule_get_expired 1 (world0 [8 \<mapsto> setb COROUTINE_STATUS_SLEEPING (co0\<lparr>sleep_usecs := 300\<rparr>)]
      (zero_schedule\<lparr>sleeping := Nd RB_BLACK Lf 8 Lf\<rparr>)) = Done 8 w'"
proof -
  let ?sc = "zero_schedule\<lparr>sleeping := Nd RB_BLACK Lf 8 Lf\<rparr>"
  let ?w = "world0 [8 \<mapsto> setb COROUTINE_STATUS_SLEEPING (co0\<lparr>sleep_usecs := 300\<rparr>)] ?sc"
  have t: "timers_ok ?w 1 ?sc"
    by (auto simp: timers_ok_def rb_wf_def rb_ok_def intro!: exI [of _ 1])
  have "\<not> (\<forall>a \<in> set (inorder (sleeping ?sc)). clk (environ ?w) (tick ?w) - birth ?sc < sleep_key ?w a)"
    by (simp add: sleep_key_def zero_schedule_def)
  with get_expired_correct [OF t] show ?thesis by auto
qed

end
