(* ===== verification/Wait_Correct.thy ===== *)
theory Wait_Correct
  imports Timer_Correct
begin

text \<open>
  What the operations on awaited descriptors do to the scheduler's map from descriptors to coroutines and to
  the interest list of its epoll instance. The map is used through the locale \<open>id_map\<close> (facts \<open>htab.*\<close>).
\<close>

section \<open>The maps of a scheduler\<close>

lemma fdmap_insert_run:
  assumes "scheds w s = Some sc" "ht_wf (fd_co_map sc)" "key_ok k" "plenty (heap w)"
  obtains r ht h where "fdmap_insert s k v w = Done r (w\<lparr>heap := h, scheds := (scheds w)(s \<mapsto> sc\<lparr>fd_co_map := ht\<rparr>)\<rparr>)"
    "ht_wf ht" "ht_abs ht = (ht_abs (fd_co_map sc))(k \<mapsto> v)" "plenty h"
proof -
  from htab.insert_law [OF assms(2-4), of v] obtain r ht h where "htable_insert (fd_co_map sc) k v (heap w) = Some (r, ht, h)"
    "ht_wf ht" "ht_abs ht = (ht_abs (fd_co_map sc))(k \<mapsto> v)" "plenty h" by blast
  with assms(1) that show thesis by (simp add: map_insert_def)
qed

lemma fdmap_delete_run:
  assumes "scheds w s = Some sc" "ht_wf (fd_co_map sc)" "key_ok k"
  obtains r ht where "fdmap_delete s k w = Done r (w\<lparr>scheds := (scheds w)(s \<mapsto> sc\<lparr>fd_co_map := ht\<rparr>)\<rparr>)"
    "ht_wf ht" "ht_abs ht = (ht_abs (fd_co_map sc))(k := None)"
proof -
  from htab.delete_law [OF assms(2,3)] obtain r ht where "htable_delete (fd_co_map sc) k = Some (r, ht_abs (fd_co_map sc) k, ht)"
    "ht_wf ht" "ht_abs ht = (ht_abs (fd_co_map sc))(k := None)" by blast
  with assms(1) that show thesis by (simp add: map_delete_def)
qed

lemma get_waitco_run:
  assumes "scheds w s = Some sc" "ht_wf (fd_co_map sc)" "key_ok (fd_key n)"
  shows "schedule_get_waitco s n w = Done (case ht_abs (fd_co_map sc) (fd_key n) of None \<Rightarrow> NULL | Some c \<Rightarrow> c) w"
  using assms htab.find_law [OF assms(2,3)] by (simp add: schedule_get_waitco_def map_find_def)

lemma cidmap_insert_run:
  assumes "scheds w s = Some sc" "ht_wf (cid_co_map sc)" "key_ok k" "plenty (heap w)"
  obtains r ht h where "cidmap_insert s k v w = Done r (w\<lparr>heap := h, scheds := (scheds w)(s \<mapsto> sc\<lparr>cid_co_map := ht\<rparr>)\<rparr>)"
    "htable_insert (cid_co_map sc) k v (heap w) = Some (r, ht, h)"
    "ht_wf ht" "ht_abs ht = (ht_abs (cid_co_map sc))(k \<mapsto> v)" "plenty h"
proof -
  from htab.insert_law [OF assms(2-4), of v] obtain r ht h where "htable_insert (cid_co_map sc) k v (heap w) = Some (r, ht, h)"
    "ht_wf ht" "ht_abs ht = (ht_abs (cid_co_map sc))(k \<mapsto> v)" "plenty h" by blast
  with assms(1) that show thesis by (simp add: map_insert_def)
qed

lemma cidmap_delete_run:
  assumes "scheds w s = Some sc" "ht_wf (cid_co_map sc)" "key_ok k"
  obtains r ht where "cidmap_delete s k w = Done r (w\<lparr>scheds := (scheds w)(s \<mapsto> sc\<lparr>cid_co_map := ht\<rparr>)\<rparr>)"
    "ht_wf ht" "ht_abs ht = (ht_abs (cid_co_map sc))(k := None)"
proof -
  from htab.delete_law [OF assms(2,3)] obtain r ht where "htable_delete (cid_co_map sc) k = Some (r, ht_abs (cid_co_map sc) k, ht)"
    "ht_wf ht" "ht_abs ht = (ht_abs (cid_co_map sc))(k := None)" by blast
  with assms(1) that show thesis by (simp add: map_delete_def)
qed

lemma cidmap_find_run:
  assumes "scheds w s = Some sc" "ht_wf (cid_co_map sc)" "key_ok k"
  shows "cidmap_find s k w = Done (case ht_abs (cid_co_map sc) k of None \<Rightarrow> NULL | Some c \<Rightarrow> c) w"
  using assms htab.find_law [OF assms(2,3)] by (simp add: map_find_def)

section \<open>Waiting and cancelling\<close>

lemma sched_wait_run:
  assumes co: "cos w c = Some co" "co_sched co = s" and sc: "scheds w s = Some sc" "ht_wf (fd_co_map sc)"
    and n: "key_ok (fd_key n)" "fds w n \<noteq> None" "n \<noteq> sc_epollfd sc" "n \<notin> fst ` set l"
    and e: "fds w (sc_epollfd sc) = Some (EpollFd l)" and m: "plenty (heap w)"
  obtains ht h where "schedule_sched_wait c n ev w = Done ()
      (w\<lparr>fds := (fds w)(sc_epollfd sc \<mapsto> EpollFd (l @ [(n, ev)])), heap := h,
         scheds := (scheds w)(s \<mapsto> sc\<lparr>fd_co_map := ht\<rparr>), cos := (cos w)(c \<mapsto> setb COROUTINE_FLAGS_WAITING co)\<rparr>)"
    "ht_wf ht" "ht_abs ht = (ht_abs (fd_co_map sc))(fd_key n \<mapsto> c)" "plenty h"
proof -
  let ?w = "w\<lparr>fds := (fds w)(sc_epollfd sc \<mapsto> EpollFd (l @ [(n, ev)]))\<rparr>"
  have "scheds ?w s = Some sc" "plenty (heap ?w)" using sc m by simp_all
  from fdmap_insert_run [OF this(1) sc(2) n(1) this(2), of c] obtain r ht h where
    i: "fdmap_insert s (fd_key n) c ?w = Done r (?w\<lparr>heap := h, scheds := (scheds ?w)(s \<mapsto> sc\<lparr>fd_co_map := ht\<rparr>)\<rparr>)"
    "ht_wf ht" "ht_abs ht = (ht_abs (fd_co_map sc))(fd_key n \<mapsto> c)" "plenty h" by blast
  have "schedule_sched_wait c n ev w = Done ()
      (w\<lparr>fds := (fds w)(sc_epollfd sc \<mapsto> EpollFd (l @ [(n, ev)])), heap := h,
         scheds := (scheds w)(s \<mapsto> sc\<lparr>fd_co_map := ht\<rparr>), cos := (cos w)(c \<mapsto> setb COROUTINE_FLAGS_WAITING co)\<rparr>)"
    using co sc n e by (simp add: schedule_sched_wait_def epoll_ctl_add_def
        seq_Done [where m = "fdmap_insert s (fd_key n) c" and s = ?w, OF i(1)])
  with i that show thesis by blast
qed

lemma cancel_wait_run:
  assumes co: "cos w c = Some co" "co_sched co = s" "testb COROUTINE_FLAGS_WAITING co"
    and sc: "scheds w s = Some sc" "ht_wf (fd_co_map sc)"
    and n: "key_ok (fd_key n)" "fds w n \<noteq> None" "n \<in> fst ` set l" and e: "fds w (sc_epollfd sc) = Some (EpollFd l)"
  obtains ht where "schedule_cancel_wait c n w = Done 0
      (w\<lparr>scheds := (scheds w)(s \<mapsto> sc\<lparr>fd_co_map := ht\<rparr>), cos := (cos w)(c \<mapsto> clrb COROUTINE_FLAGS_WAITING co),
         fds := (fds w)(sc_epollfd sc \<mapsto> EpollFd (filter (\<lambda>(m, _). m \<noteq> n) l))\<rparr>)"
    "ht_wf ht" "ht_abs ht = (ht_abs (fd_co_map sc))(fd_key n := None)"
proof -
  from fdmap_delete_run [OF sc n(1)] obtain r ht where
    d: "fdmap_delete s (fd_key n) w = Done r (w\<lparr>scheds := (scheds w)(s \<mapsto> sc\<lparr>fd_co_map := ht\<rparr>)\<rparr>)"
    "ht_wf ht" "ht_abs ht = (ht_abs (fd_co_map sc))(fd_key n := None)" by blast
  from n(3) obtain x where "(n, x) \<in> set l" by auto
  with co sc n e have "schedule_cancel_wait c n w = Done 0
      (w\<lparr>scheds := (scheds w)(s \<mapsto> sc\<lparr>fd_co_map := ht\<rparr>), cos := (cos w)(c \<mapsto> clrb COROUTINE_FLAGS_WAITING co),
         fds := (fds w)(sc_epollfd sc \<mapsto> EpollFd (filter (\<lambda>(m, _). m \<noteq> n) l))\<rparr>)"
    by (auto simp: schedule_cancel_wait_def epoll_ctl_del_def
        seq_Done [where m = "fdmap_delete s (fd_key n)", OF d(1)])
  with d that show thesis by blast
qed

text \<open>
  C28: waiting for a descriptor and giving up again. For an open descriptor that nobody waits for (and whose
  number is neither 0 nor -1, which the map cannot hold), \<^verbatim>\<open>schedule_sched_wait\<close> puts it into the interest
  list and into the map, so that \<^verbatim>\<open>schedule_get_waitco\<close> finds the coroutine; \<^verbatim>\<open>schedule_cancel_wait\<close>
  then takes it out of both, returns 0, and the descriptor table is as it was.
\<close>

theorem wait_cancel_roundtrip:
  assumes "cos w c = Some co" and "co_sched co = s" and "scheds w s = Some sc" and "ht_wf (fd_co_map sc)"
    and "key_ok (fd_key n)" and "fds w n \<noteq> None" and "n \<noteq> sc_epollfd sc" and "n \<notin> fst ` set l"
    and "fds w (sc_epollfd sc) = Some (EpollFd l)" and "plenty (heap w)"
  shows "\<exists>w1 sc1 w2 sc2. schedule_sched_wait c n ev w = Done () w1 \<and> scheds w1 s = Some sc1 \<and>
    fds w1 (sc_epollfd sc) = Some (EpollFd (l @ [(n, ev)])) \<and>
    ht_abs (fd_co_map sc1) = (ht_abs (fd_co_map sc))(fd_key n \<mapsto> c) \<and> schedule_get_waitco s n w1 = Done c w1 \<and>
    schedule_cancel_wait c n w1 = Done 0 w2 \<and> scheds w2 s = Some sc2 \<and> fds w2 = fds w \<and>
    ht_abs (fd_co_map sc2) = (ht_abs (fd_co_map sc))(fd_key n := None)"
proof -
  from sched_wait_run [OF assms(1-10), of ev] obtain ht h where
    r: "schedule_sched_wait c n ev w = Done ()
      (w\<lparr>fds := (fds w)(sc_epollfd sc \<mapsto> EpollFd (l @ [(n, ev)])), heap := h,
         scheds := (scheds w)(s \<mapsto> sc\<lparr>fd_co_map := ht\<rparr>), cos := (cos w)(c \<mapsto> setb COROUTINE_FLAGS_WAITING co)\<rparr>)"
    (is "_ = Done () ?w1") and ht: "ht_wf ht" "ht_abs ht = (ht_abs (fd_co_map sc))(fd_key n \<mapsto> c)" by blast
  let ?sc1 = "sc\<lparr>fd_co_map := ht\<rparr>"
  have g: "schedule_get_waitco s n ?w1 = Done c ?w1"
    using get_waitco_run [of ?w1 s ?sc1 n] ht assms(5) by simp
  have p: "cos ?w1 c = Some (setb COROUTINE_FLAGS_WAITING co)" "co_sched (setb COROUTINE_FLAGS_WAITING co) = s"
    "testb COROUTINE_FLAGS_WAITING (setb COROUTINE_FLAGS_WAITING co)" "scheds ?w1 s = Some ?sc1" "ht_wf (fd_co_map ?sc1)"
    "fds ?w1 n \<noteq> None" "n \<in> fst ` set (l @ [(n, ev)])" "fds ?w1 (sc_epollfd ?sc1) = Some (EpollFd (l @ [(n, ev)]))"
    using assms(2,6,7) ht(1) by simp_all
  have l: "filter (\<lambda>(m, _). m \<noteq> n) l = l" using assms(8) by (force simp: filter_id_conv)
  from cancel_wait_run [OF p(1-5) assms(5) p(6-8)] obtain ht2 where
    c: "schedule_cancel_wait c n ?w1 = Done 0
      (?w1\<lparr>scheds := (scheds ?w1)(s \<mapsto> ?sc1\<lparr>fd_co_map := ht2\<rparr>),
           cos := (cos ?w1)(c \<mapsto> clrb COROUTINE_FLAGS_WAITING (setb COROUTINE_FLAGS_WAITING co)),
           fds := (fds ?w1)(sc_epollfd ?sc1 \<mapsto> EpollFd (filter (\<lambda>(m, _). m \<noteq> n) (l @ [(n, ev)])))\<rparr>)"
    (is "_ = Done 0 ?w2") and h2: "ht_abs ht2 = (ht_abs (fd_co_map ?sc1))(fd_key n := None)" by blast
  have "fds ?w2 = fds w" using l assms(9) by (auto simp: fun_eq_iff)
  with r g c ht h2 show ?thesis
    by (intro exI [of _ ?w1] exI [of _ ?sc1] exI [of _ ?w2] exI [of _ "?sc1\<lparr>fd_co_map := ht2\<rparr>"] conjI) simp_all
qed

definition htable2 :: dyco_htable where
  "htable2 = \<lparr>hwidth = 1, hmask = 1, hcount = 0, htable = TBuckets [hempty, hempty]\<rparr>"

lemma htable2_wf [simp]: "ht_wf htable2"
  using two_buckets_wf by (simp add: htable2_def)

lemma htable2_empty: "ht_abs htable2 = Map.empty"
  using htab.count_empty [OF htable2_wf] by (simp add: htable2_def)

theorem wait_cancel_roundtrip_witness:
  "\<exists>w1. schedule_sched_wait 7 6 EPOLLIN (world0 [7 \<mapsto> co0] (zero_schedule\<lparr>sc_epollfd := 5, fd_co_map := htable2\<rparr>)) = Done () w1 \<and>
     schedule_get_waitco 1 6 w1 = Done 7 w1"
proof -
  let ?sc = "zero_schedule\<lparr>sc_epollfd := 5, fd_co_map := htable2\<rparr>"
  let ?w = "world0 [7 \<mapsto> co0] ?sc"
  have "\<exists>w1 sc1 w2 sc2. schedule_sched_wait 7 6 EPOLLIN ?w = Done () w1 \<and> scheds w1 1 = Some sc1 \<and>
    fds w1 (sc_epollfd ?sc) = Some (EpollFd ([] @ [(6, EPOLLIN)])) \<and>
    ht_abs (fd_co_map sc1) = (ht_abs (fd_co_map ?sc))(fd_key 6 \<mapsto> 7) \<and> schedule_get_waitco 1 6 w1 = Done 7 w1 \<and>
    schedule_cancel_wait 7 6 w1 = Done 0 w2 \<and> scheds w2 1 = Some sc2 \<and> fds w2 = fds ?w \<and>
    ht_abs (fd_co_map sc2) = (ht_abs (fd_co_map ?sc))(fd_key 6 := None)"
    by (rule wait_cancel_roundtrip [where co = co0]) (simp_all add: key_ok_def plenty_def)
  then show ?thesis by blast
qed

end
