(* ===== verification/Coroutine_Correct.thy ===== *)
theory Coroutine_Correct
  imports Dyco_Coroutine Wait_Correct
begin

text \<open>
  Properties of single coroutines: the copy of the shared stack survives whatever the other coroutines
  do to it, a new coroutine is registered and queued, sleeping and its bounds.
\<close>

section \<open>Saving and restoring the stack\<close>

lemma malloc_plenty: "plenty m \<Longrightarrow> malloc m = (Suc (nalloc m), m\<lparr>nalloc := Suc (nalloc m)\<rparr>)"
  by (simp add: malloc_def plenty_def)

lemma plenty_nalloc [simp]: "plenty (m\<lparr>nalloc := n\<rparr>) = plenty m"
  by (simp add: plenty_def)

lemma alloc_plenty:
  "plenty (heap w) \<Longrightarrow>
    alloc upd v w = Done (Suc (nalloc (heap w))) (upd (\<lambda>m. m(Suc (nalloc (heap w)) \<mapsto> v)) (w\<lparr>heap := (heap w)\<lparr>nalloc := Suc (nalloc (heap w))\<rparr>\<rparr>))"
  by (simp add: alloc_def malloc_plenty)

text \<open>The saved part of a coroutine's stack: nothing yet, or a buffer at least as long as the recorded size.\<close>

definition saved_ok :: "world \<Rightarrow> dyco_coroutine \<Rightarrow> bool" where
  "saved_ok w co =
    (if co_stack co = NULL then co_stack_size co = 0
     else co_stack co \<le> nalloc (heap w) \<and> (\<exists>own. bytes w (co_stack co) = Some own \<and> co_stack_size co \<le> length own))"

lemma savestk_run:
  assumes co: "cos w c = Some co" "\<not> testb COROUTINE_FLAGS_OWNSTACK co" and sc: "scheds w (co_sched co) = Some sc"
    and sh: "bytes w (sc_stack sc) = Some shared" and d: "stkdepth (environ w) (tick w) = n" "0 < n" "n \<le> length shared"
    and ok: "saved_ok w co" "sc_stack sc \<noteq> co_stack co" and m: "plenty (heap w)" "sc_stack sc \<le> nalloc (heap w)"
  shows "\<exists>w1 co1 own. savestk c w = Done () w1 \<and> cos w1 = (cos w)(c \<mapsto> co1) \<and> scheds w1 = scheds w \<and>
    co1 = setb COROUTINE_FLAGS_ALLOCSTACKMEM (co\<lparr>co_stack := co_stack co1, co_stack_size := n\<rparr>) \<and>
    bytes w1 (co_stack co1) = Some own \<and> n \<le> length own \<and> take n own = stack_top n shared \<and>
    bytes w1 (sc_stack sc) = Some shared \<and>
    w1 = w\<lparr>tick := Suc (tick w), heap := heap w1, bytes := bytes w1, cos := (cos w)(c \<mapsto> co1)\<rparr> \<and>
    plenty (heap w1) \<and> nalloc (heap w) \<le> nalloc (heap w1) \<and> co_stack co1 \<noteq> NULL \<and> co_stack co1 \<le> nalloc (heap w1) \<and>
    (co_stack co1 = co_stack co \<or> nalloc (heap w) < co_stack co1) \<and>
    (\<forall>p. p \<noteq> co_stack co \<and> p \<noteq> co_stack co1 \<longrightarrow> bytes w1 p = bytes w p)"
proof (cases "co_stack_size co < n")
  case True
  let ?p = "Suc (nalloc (heap w))"
  have p: "?p \<noteq> sc_stack sc" using m(2) by simp
  have l: "length (stack_top n shared) = n" using d by (simp add: stack_top_def)
  let ?co1 = "setb COROUTINE_FLAGS_ALLOCSTACKMEM (co\<lparr>co_stack := ?p, co_stack_size := n\<rparr>)"
  show ?thesis
  proof (cases "co_stack co = NULL")
    case c0: True
    with True co sc sh d ok m p l show ?thesis
      by (simp add: savestk_def realloc_stack_def whenM_def bind_Done [OF alloc_plenty] copy_to_front_def)
        (intro exI [of _ ?co1], simp)
  next
    case c1: False
    with ok(1) obtain own where "bytes w (co_stack co) = Some own" "co_stack co \<noteq> ?p" by (auto simp: saved_ok_def)
    with c1 True co sc sh d ok m p l show ?thesis
      by (simp add: savestk_def realloc_stack_def whenM_def bind_Done [OF alloc_plenty] copy_to_front_def)
        (intro exI [of _ ?co1], simp)
  qed
next
  case False
  with ok(1) d(2) obtain own where own: "bytes w (co_stack co) = Some own" "co_stack_size co \<le> length own"
      "co_stack co \<noteq> NULL" "co_stack co \<le> nalloc (heap w)"
    by (auto simp: saved_ok_def split: if_splits)
  have l: "length (stack_top n shared) = n" using d by (simp add: stack_top_def)
  from own False co sc sh d ok m l show ?thesis
    by (simp add: savestk_def whenM_def copy_to_front_def)
      (intro exI [of _ "setb COROUTINE_FLAGS_ALLOCSTACKMEM (co\<lparr>co_stack_size := n\<rparr>)"], simp)
qed

lemma loadstk_run:
  assumes "cos w c = Some co" "\<not> testb COROUTINE_FLAGS_OWNSTACK co" "scheds w (co_sched co) = Some sc"
    "bytes w (co_stack co) = Some own" "co_stack_size co = n" "0 < n" "n \<le> length own"
    "bytes w (sc_stack sc) = Some junk" "n \<le> length junk"
  shows "loadstk c w = Done () (w\<lparr>bytes := (bytes w)(sc_stack sc \<mapsto> take (length junk - n) junk @ take n own)\<rparr>)"
  using assms by (simp add: loadstk_def copy_to_end_def)

text \<open>
  C23: the stack round trip. A coroutine without a stack of its own saves the used part of the shared
  stack when it yields. Whatever happens to the shared stack's contents afterwards (as long as the coroutine's own
  buffer and its stack fields are left alone), \<^verbatim>\<open>loadstk\<close> puts exactly the saved bytes back to the
  place they came from, next to the top of the shared stack, before the coroutine is resumed.
\<close>

theorem savestk_loadstk_roundtrip:
  assumes "cos w c = Some co" and "\<not> testb COROUTINE_FLAGS_OWNSTACK co" and "scheds w (co_sched co) = Some sc"
    and "bytes w (sc_stack sc) = Some shared" and "stkdepth (environ w) (tick w) = n" and "0 < n" and "n \<le> length shared"
    and "saved_ok w co" and "sc_stack sc \<noteq> co_stack co" and "plenty (heap w)" and "sc_stack sc \<le> nalloc (heap w)"
  shows "\<exists>w1 co1. savestk c w = Done () w1 \<and> cos w1 c = Some co1 \<and> bytes w1 (sc_stack sc) = Some shared \<and>
    (\<forall>w2 co2 sc2 junk. cos w2 c = Some co2 \<and> \<not> testb COROUTINE_FLAGS_OWNSTACK co2 \<and>
       co_stack co2 = co_stack co1 \<and> co_stack_size co2 = co_stack_size co1 \<and> scheds w2 (co_sched co2) = Some sc2 \<and>
       sc_stack sc2 = sc_stack sc \<and> bytes w2 (co_stack co1) = bytes w1 (co_stack co1) \<and>
       bytes w2 (sc_stack sc) = Some junk \<and> length junk = length shared \<longrightarrow>
       (\<exists>w3. loadstk c w2 = Done () w3 \<and>
         bytes w3 (sc_stack sc) = Some (take (length shared - n) junk @ drop (length shared - n) shared)))"
proof -
  from savestk_run [OF assms] obtain w1 co1 own where
    r: "savestk c w = Done () w1" "cos w1 = (cos w)(c \<mapsto> co1)"
      "co1 = setb COROUTINE_FLAGS_ALLOCSTACKMEM (co\<lparr>co_stack := co_stack co1, co_stack_size := n\<rparr>)"
      "bytes w1 (co_stack co1) = Some own" "n \<le> length own" "take n own = stack_top n shared" "bytes w1 (sc_stack sc) = Some shared"
    by blast
  have n: "co_stack_size co1 = n" using r(3) by (metis dyco_coroutine.select_convs(6) dyco_coroutine.surjective dyco_coroutine.update_convs(6) setb_fields(6))
  have "\<exists>w3. loadstk c w2 = Done () w3 \<and> bytes w3 (sc_stack sc) = Some (take (length shared - n) junk @ drop (length shared - n) shared)"
    if "cos w2 c = Some co2" "\<not> testb COROUTINE_FLAGS_OWNSTACK co2" "co_stack co2 = co_stack co1"
      "co_stack_size co2 = co_stack_size co1" "scheds w2 (co_sched co2) = Some sc2" "sc_stack sc2 = sc_stack sc"
      "bytes w2 (co_stack co1) = bytes w1 (co_stack co1)" "bytes w2 (sc_stack sc) = Some junk" "length junk = length shared"
    for w2 co2 sc2 junk
    using loadstk_run [OF that(1,2,5), of own n junk] that n r assms(6,7) by (simp add: stack_top_def)
  with r show ?thesis by (intro exI [of _ w1] exI [of _ co1]) auto
qed

theorem savestk_loadstk_roundtrip_witness:
  "\<exists>w1. savestk 7 ((world0 [7 \<mapsto> co0] (zero_schedule\<lparr>sc_stack := 3, sc_stack_size := 200\<rparr>))\<lparr>bytes := [3 \<mapsto> replicate 200 9]\<rparr>) = Done () w1 \<and>
     bytes w1 3 = Some (replicate 200 9)"
proof -
  let ?sc = "zero_schedule\<lparr>sc_stack := 3, sc_stack_size := 200\<rparr>"
  let ?w = "(world0 [7 \<mapsto> co0] ?sc)\<lparr>bytes := [3 \<mapsto> replicate 200 9]\<rparr>"
  have p: "cos ?w 7 = Some co0" "\<not> testb COROUTINE_FLAGS_OWNSTACK co0" "scheds ?w (co_sched co0) = Some ?sc"
    "bytes ?w (sc_stack ?sc) = Some (replicate 200 9)" "stkdepth (environ ?w) (tick ?w) = 100" "(0::nat) < 100"
    "100 \<le> length (replicate 200 (9::byte))" "saved_ok ?w co0" "sc_stack ?sc \<noteq> co_stack co0" "plenty (heap ?w)"
    "sc_stack ?sc \<le> nalloc (heap ?w)"
    by (simp_all add: saved_ok_def plenty_def testb_def TESTBIT_def)
  from savestk_loadstk_roundtrip [OF p] show ?thesis by auto
qed

section \<open>Creation\<close>

definition queues_ok :: "dyco_schedule \<Rightarrow> (qid \<Rightarrow> addr list) \<Rightarrow> bool" where
  "queues_ok sc f = tq_both (queues sc) f"

lemma register_coro_run:
  assumes s: "scheds w s = Some sc" "ht_wf (cid_co_map sc)" and c: "cos w c = Some co" and m: "plenty (heap w)"
    and k: "k = make_cid (sched_id sc) ((cid_gen sc + 1) AND 0xffffff)" "key_ok k"
  obtains r ht h where "register_coro s c w = Done r
      (w\<lparr>cos := (cos w)(c \<mapsto> co\<lparr>co_sched := s, cid := k\<rparr>), heap := h,
         scheds := (scheds w)(s \<mapsto> sc\<lparr>cid_gen := (cid_gen sc + 1) AND 0xffffff, cid_co_map := ht\<rparr>)\<rparr>)"
    "htable_insert (cid_co_map sc) k c (heap w) = Some (r, ht, h)"
    "ht_wf ht" "ht_abs ht = (ht_abs (cid_co_map sc))(k \<mapsto> c)" "plenty h"
proof -
  let ?sc = "sc\<lparr>cid_gen := (cid_gen sc + 1) AND 0xffffff\<rparr>"
  let ?w = "w\<lparr>scheds := (scheds w)(s \<mapsto> ?sc), cos := (cos w)(c \<mapsto> co\<lparr>co_sched := s, cid := k\<rparr>)\<rparr>"
  have "scheds ?w s = Some ?sc" "ht_wf (cid_co_map ?sc)" "plenty (heap ?w)" using s m by simp_all
  from cidmap_insert_run [OF this(1,2) k(2) this(3), of c] obtain r ht h where
    i: "cidmap_insert s k c ?w = Done r (?w\<lparr>heap := h, scheds := (scheds ?w)(s \<mapsto> ?sc\<lparr>cid_co_map := ht\<rparr>)\<rparr>)"
      "htable_insert (cid_co_map ?sc) k c (heap ?w) = Some (r, ht, h)"
      "ht_wf ht" "ht_abs ht = (ht_abs (cid_co_map ?sc))(k \<mapsto> c)" "plenty h" by blast
  have "register_coro s c w = Done r
      (w\<lparr>cos := (cos w)(c \<mapsto> co\<lparr>co_sched := s, cid := k\<rparr>), heap := h,
         scheds := (scheds w)(s \<mapsto> sc\<lparr>cid_gen := (cid_gen sc + 1) AND 0xffffff, cid_co_map := ht\<rparr>)\<rparr>)"
    using s c k(1) i(1) by (simp add: register_coro_def)
  with i that show thesis by simp
qed

lemma newcoro_run:
  assumes "key_made w" "sched_key w \<noteq> NULL" "plenty (heap w)"
  shows "newcoro w = Done (Suc (nalloc (heap w)))
    (w\<lparr>heap := (heap w)\<lparr>nalloc := Suc (nalloc (heap w))\<rparr>, cos := (cos w)(Suc (nalloc (heap w)) \<mapsto>
       zero_coroutine\<lparr>co_status := new_status, co_epollfd := - 1, co_sigfd := - 1\<rparr>)\<rparr>)"
  using assms by (simp add: newcoro_def sched_key_once_def whenM_def alloc_plenty zero_coroutine_def)

lemma new_status_bits [simp]:
  "co_status co = new_status \<Longrightarrow> testb b co = (b = COROUTINE_STATUS_NEW \<or> b = COROUTINE_STATUS_READY)"
  by (cases b) (simp_all add: testb_def new_status_def TESTBIT_bit BIT_def bit_simps)

lemma htable_insert_result:
  assumes "ht_wf ht" "key_ok k" "plenty m" "hwidth ht < DYCO_HTABLE_MAXWITDH" "htable_insert ht k d m = Some (r, ht', m')"
  shows "0 \<le> r"
proof (cases "ht_abs ht k")
  case None
  with htable_insert_absent [OF assms(1,2) None assms(3), of d] assms(4,5) show ?thesis by auto
next
  case (Some x)
  with htable_insert_present [OF assms(1,2), of d m] assms(5) show ?thesis by auto
qed

lemma coroutine_create_run:
  assumes "sched_key w = s" and "s \<noteq> NULL" and "scheds w s = Some sc" and "ht_wf (cid_co_map sc)" and "plenty (heap w)"
    and "hwidth (cid_co_map sc) < DYCO_HTABLE_MAXWITDH" and "key_ok k" and "key_made w"
    and "k = make_cid (sched_id sc) ((cid_gen sc + 1) AND 0xffffff)" and "c = Suc (nalloc (heap w))"
  obtains r ht h where "dyco_coroutine_create f a w = Done (sint k)
      (w\<lparr>cos := (cos w)(c \<mapsto> zero_coroutine\<lparr>co_status := new_status, co_epollfd := - 1, co_sigfd := - 1, co_func := f, co_arg := a, co_sched := s, cid := k\<rparr>),
         heap := h, scheds := (scheds w)(s \<mapsto> reopen (sc\<lparr>cid_gen := (cid_gen sc + 1) AND 0xffffff, cid_co_map := ht,
           coro_count := coro_count sc + 1, queues := TAILQ_INSERT_TAIL QReady c (queues sc)\<rparr>))\<rparr>)"
    "htable_insert (cid_co_map sc) k c ((heap w)\<lparr>nalloc := c\<rparr>) = Some (r, ht, h)"
    "ht_wf ht" "ht_abs ht = (ht_abs (cid_co_map sc))(k \<mapsto> c)" "plenty h"
proof -
  let ?h = "(heap w)\<lparr>nalloc := c\<rparr>"
  let ?co = "zero_coroutine\<lparr>co_status := new_status, co_epollfd := - 1, co_sigfd := - 1\<rparr>"
  let ?co1 = "?co\<lparr>co_func := f, co_arg := a\<rparr>"
  let ?w = "w\<lparr>heap := ?h, cos := (cos w)(c \<mapsto> ?co1)\<rparr>"
  have new: "newcoro w = Done c (w\<lparr>heap := ?h, cos := (cos w)(c \<mapsto> ?co)\<rparr>)"
    using newcoro_run assms(1,2,5,8,10) by simp
  have p: "scheds ?w s = Some sc" "cos ?w c = Some ?co1" "plenty (heap ?w)" using assms(3,5) by simp_all
  from register_coro_run [OF p(1) assms(4) p(2,3) assms(9,7)] obtain r ht h where
    reg: "register_coro s c ?w = Done r (?w\<lparr>cos := (cos ?w)(c \<mapsto> ?co1\<lparr>co_sched := s, cid := k\<rparr>), heap := h,
         scheds := (scheds ?w)(s \<mapsto> sc\<lparr>cid_gen := (cid_gen sc + 1) AND 0xffffff, cid_co_map := ht\<rparr>)\<rparr>)"
    "htable_insert (cid_co_map sc) k c (heap ?w) = Some (r, ht, h)"
    "ht_wf ht" "ht_abs ht = (ht_abs (cid_co_map sc))(k \<mapsto> c)" "plenty h" by blast
  have r: "0 \<le> r" using htable_insert_result [OF assms(4,7) p(3) assms(6) reg(2)] .
  have c: "c \<noteq> NULL" using assms(10) by simp
  note run = bind_Done [where m = newcoro, OF new] bind_Done [where m = "register_coro s c" and s = ?w, OF reg(1)]
  show thesis
    by (rule that [of ht h r]) (use assms(1) c r reg(2-5) in \<open>simp_all add: dyco_coroutine_create_def run queue_push_def\<close>)
qed

lemma make_cid_sign:
  assumes "gen < 2 ^ 24"
  shows "sint (make_cid sid gen) < 0 \<longleftrightarrow> bit sid 7"
proof -
  have "take_bit 24 gen = gen" using assms by (simp add: word_uint_eq_iff unsigned_take_bit_eq take_bit_int_eq_self word_less_def)
  moreover have "\<not> bit (take_bit 24 gen) 31" by (simp add: bit_take_bit_iff)
  ultimately have "\<not> bit gen 31" by simp
  then have "bit (make_cid sid gen) 31 \<longleftrightarrow> bit sid 7" by (simp add: make_cid_def bit_simps)
  then show ?thesis by (simp add: bit_last_iff [symmetric])
qed

lemma next_gen_less: "next_gen g < 2 ^ 24"
proof -
  have "next_gen g \<le> 0xffffff" by (rule word_and_le1)
  then show ?thesis by (rule order_le_less_trans) simp
qed

text \<open>
  C25: creation. With a scheduler whose identifier map is well-formed and not at its largest size, enough memory, a thread-specific key that exists and an
  identifier that is neither 0 nor -1, \<^verbatim>\<open>dyco_coroutine_create\<close> returns the new identifier (the low 8
  bits of the scheduler's number above a 24-bit counter) as a signed number, which is negative exactly when bit 7 of the scheduler's number is set; the new coroutine, at an address nobody used, is the last
  one of the ready queue, the map finds it under its identifier and everybody else under theirs, the
  count is one higher, its status is new and ready, and a scheduler that was done is ready to run again.
\<close>

theorem coroutine_create_correct:
  assumes "sched_key w = s" and "s \<noteq> NULL" and "scheds w s = Some sc" and "ht_wf (cid_co_map sc)" and "plenty (heap w)"
    and "hwidth (cid_co_map sc) < DYCO_HTABLE_MAXWITDH" and "tq_both (queues sc) q"
    and "\<And>i. Suc (nalloc (heap w)) \<notin> set (q i)" and "key_ok (make_cid (sched_id sc) ((cid_gen sc + 1) AND 0xffffff))"
    and "key_made w"
  defines "k \<equiv> make_cid (sched_id sc) ((cid_gen sc + 1) AND 0xffffff)" and "c \<equiv> Suc (nalloc (heap w))"
  shows "\<exists>w' sc' co. dyco_coroutine_create f a w = Done (sint k) w' \<and> (sint k < 0 \<longleftrightarrow> bit (sched_id sc) 7) \<and> scheds w' s = Some sc' \<and> cos w' = (cos w)(c \<mapsto> co) \<and>
    co_func co = f \<and> co_arg co = a \<and> co_sched co = s \<and> cid co = k \<and>
    testb COROUTINE_STATUS_NEW co \<and> testb COROUTINE_STATUS_READY co \<and> \<not> testb COROUTINE_FLAGS_URGENT co \<and>
    ht_wf (cid_co_map sc') \<and> ht_abs (cid_co_map sc') = (ht_abs (cid_co_map sc))(k \<mapsto> c) \<and>
    tq_both (queues sc') (q(QReady := q QReady @ [c])) \<and> coro_count sc' = coro_count sc + 1 \<and>
    sc_status sc' = (if sc_status sc = SCHEDULE_STATUS_DONE then SCHEDULE_STATUS_READY else sc_status sc)"
proof -
  let ?co = "zero_coroutine\<lparr>co_status := new_status, co_epollfd := - 1, co_sigfd := - 1, co_func := f, co_arg := a, co_sched := s, cid := k\<rparr>"
  have k: "key_ok k" using assms(9) by (simp only: k_def)
  obtain r ht h where
    run: "dyco_coroutine_create f a w = Done (sint k) (w\<lparr>cos := (cos w)(c \<mapsto> ?co),
         heap := h, scheds := (scheds w)(s \<mapsto> reopen (sc\<lparr>cid_gen := (cid_gen sc + 1) AND 0xffffff, cid_co_map := ht,
           coro_count := coro_count sc + 1, queues := TAILQ_INSERT_TAIL QReady c (queues sc)\<rparr>))\<rparr>)" (is "_ = Done _ ?w'")
    "ht_wf ht" "ht_abs ht = (ht_abs (cid_co_map sc))(k \<mapsto> c)"
    by (rule coroutine_create_run [OF assms(1-6) k assms(10) k_def [THEN meta_eq_to_obj_eq] c_def [THEN meta_eq_to_obj_eq], of f a]) (rule that)
  have q: "tq_both (TAILQ_INSERT_TAIL QReady c (queues sc)) (q(QReady := q QReady @ [c]))"
    by (rule tailq.push_law [OF assms(7)]) (use assms(8) in \<open>simp_all add: c_def\<close>)
  have sign: "sint k < 0 \<longleftrightarrow> bit (sched_id sc) 7" unfolding k_def by (rule make_cid_sign [OF next_gen_less])
  show ?thesis
    by (intro exI [of _ ?w'] exI [of _ "the (scheds ?w' s)"] exI [of _ ?co]) (use run q sign in \<open>simp add: reopen_def\<close>)
qed

theorem coroutine_create_correct_witness:
  "\<exists>w' sc'. dyco_coroutine_create 3 4 (world0 Map.empty (zero_schedule\<lparr>sched_id := 1, cid_co_map := htable2\<rparr>)) = Done 0x1000001 w' \<and>
     scheds w' 1 = Some sc' \<and> ht_abs (cid_co_map sc') 0x1000001 = Some 101 \<and> coro_count sc' = 1"
proof -
  let ?sc = "zero_schedule\<lparr>sched_id := 1, cid_co_map := htable2\<rparr>"
  let ?w = "world0 Map.empty ?sc"
  have k: "make_cid (sched_id ?sc) ((cid_gen ?sc + 1) AND 0xffffff) = 0x1000001"
    by (simp add: make_cid_def zero_schedule_def push_bit_eq_mult)
  have p: "sched_key ?w = 1" "1 \<noteq> NULL" "scheds ?w 1 = Some ?sc" "ht_wf (cid_co_map ?sc)" "plenty (heap ?w)"
    "hwidth (cid_co_map ?sc) < DYCO_HTABLE_MAXWITDH" "tq_both (queues ?sc) (\<lambda>_. [])"
    by (simp_all add: plenty_def htable2_def DYCO_HTABLE_MAXWITDH_def two_buckets_wf zero_schedule_def tq_both_def tq_rep_def)
  from coroutine_create_correct [OF p, of 3 4] show ?thesis
    unfolding k by (auto simp: key_ok_def zero_schedule_def)
qed


section \<open>Yielding\<close>

lemma savestk_frame: "until_swap (\<lambda>_ w'. scheds w' = scheds w \<and> sched_key w' = sched_key w) (\<lambda>_ _ _. False) (savestk c w)"
  by (auto simp: savestk_def realloc_stack_def whenM_def alloc_def bind_def [of "alloc _ _"] split: option.splits prod.splits)

lemma checkstk_frame:
  "until_swap (\<lambda>_ w'. scheds w' = scheds w) (\<lambda>f t w'. f = CoCtx c \<and> t = SchedCtx \<and> scheds w' = scheds w) (checkstk c w)"
  by (auto simp: checkstk_def swap_to_sched_def Let_def split: option.splits)

text \<open>A yield ends in a switch to the scheduler (or a fault); the scheduler's containers are untouched.\<close>

lemma yield_frame:
  "until_swap (\<lambda>_ _. False) (\<lambda>f t w'. f = CoCtx c \<and> t = SchedCtx \<and> scheds w' = scheds w) (yield c w)"
proof -
  have tail: "until_swap (\<lambda>_ _. False) (\<lambda>f t w'. f = CoCtx c \<and> t = SchedCtx \<and> scheds w' = scheds w)
      (seq (swap_to_sched c) (co_set c (setb COROUTINE_STATUS_RUNNING)) w')"
    if "scheds w' = scheds w" for w'
    using that by (auto simp: swap_to_sched_def split: option.splits)
  show ?thesis unfolding yield_def
    apply (rule until_swap_seq, rule until_swap_mono [OF checkstk_frame])
     apply (auto split: option.splits intro!: tail)
    apply (rule until_swap_seq, rule until_swap_mono [OF savestk_frame])
     apply (auto split: option.splits intro!: tail)
    done
qed

section \<open>Sleeping\<close>

text \<open>
  The bounds of a sleep. Up to 4294967 milliseconds the number of microseconds is exact; one
  millisecond more and the 32-bit product wraps around to 704 microseconds.
\<close>

theorem sleep_product_exact:
  "0 < msecs \<Longrightarrow> msecs \<le> 4294967 \<Longrightarrow> usecs_of msecs = of_int (msecs * 1000) \<and> usecs_of 4294968 = 704"
proof -
  assume that: "0 < msecs" "msecs \<le> 4294967"
  have "(word_of_int msecs * 1000 :: u32) = word_of_int (msecs * 1000)" by simp
  moreover have "uint (word_of_int (msecs * 1000) :: u32) = msecs * 1000"
    unfolding uint_word_of_int using that by simp
  ultimately have "ucast (word_of_int msecs * 1000 :: u32) = (of_int (msecs * 1000) :: u64)"
    by (metis ucast_eq)
  then show ?thesis by (simp add: usecs_of_def)
qed

theorem sleep_product_exact_witness:
  "usecs_of 2000 = 2000000"
  using sleep_product_exact [of 2000] by simp

lemma sint_high_negative: "2 ^ 31 \<le> (m :: u32) \<Longrightarrow> sint m < 0"
proof -
  assume "2 ^ 31 \<le> m"
  then have "2 ^ 31 \<le> uint m" by (simp add: word_le_def)
  moreover have "uint m < 2 ^ 32" using uint_lt2p [of m] by simp
  ultimately have "uint m div 2 ^ 31 = 1" by simp
  then have "bit (uint m) 31" by (simp add: bit_iff_odd)
  then show ?thesis by (simp add: sint_uint)
qed

text \<open>
  A sleep of 2^31 milliseconds or more never ends. The time is passed on as a negative \<^verbatim>\<open>int\<close>, which
  means no time limit: the coroutine switches to the scheduler with every container of the scheduler as it
  was, so it is neither among the sleepers nor on a ready queue and nothing is left that would resume it.
\<close>

theorem sleep_huge_not_queued:
  assumes "sched_key w = s" and "s \<noteq> NULL" and "timers_ok w s sc" and "curr_thread sc = c" and "c \<noteq> NULL"
    and "cos w c = Some co" and "co_sched co = s" and "\<not> testb COROUTINE_FLAGS_ASYMMETRIC co"
    and "c \<notin> set (inorder (sleeping sc))" and "\<forall>a \<in> set (inorder (sleeping sc)). sleep_key w a \<noteq> sleep_usecs co"
    and "2 ^ 31 \<le> msecs"
  shows "until_swap (\<lambda>_ _. False) (\<lambda>f t w'. f = CoCtx c \<and> t = SchedCtx \<and> scheds w' = scheds w) (dyco_coroutine_sleep msecs w)"
proof -
  have neg: "sint msecs < 0" by (rule sint_high_negative [OF assms(11)])
  have st: "\<forall>a \<in> set (inorder (sleeping sc)). sleep_key w a = sleep_usecs co \<longrightarrow> a = c" using assms(10) by blast
  note f = sleep_find_run [OF assms(3,6,5) st]
  have "schedule_sched_sleep c (sint msecs) w = Done () w"
    using assms(6,7,9) neg by (simp add: schedule_sched_sleep_def bind_Done [where m = "sleep_find s c", OF f])
  moreover have "msecs \<noteq> 0" using assms(11) by auto
  ultimately have "dyco_coroutine_sleep msecs w = yield c w" using assms(1-8) timers_sched [OF assms(3)]
    by (simp add: dyco_coroutine_sleep_def current_def seq_Done [where m = "schedule_sched_sleep c (sint msecs)"])
  then show ?thesis by (simp add: yield_frame)
qed

theorem sleep_huge_not_queued_witness:
  "until_swap (\<lambda>_ _. False) (\<lambda>f t w'. f = CoCtx 7 \<and> t = SchedCtx \<and> scheds w' = [1 \<mapsto> zero_schedule\<lparr>curr_thread := 7\<rparr>])
     (dyco_coroutine_sleep 0x80000000 (world0 [7 \<mapsto> co0] (zero_schedule\<lparr>curr_thread := 7\<rparr>)))"
proof -
  let ?sc = "zero_schedule\<lparr>curr_thread := 7\<rparr>"
  let ?w = "world0 [7 \<mapsto> co0] ?sc"
  have p: "sched_key ?w = 1" "1 \<noteq> NULL" "timers_ok ?w 1 ?sc" "curr_thread ?sc = 7" "7 \<noteq> NULL" "cos ?w 7 = Some co0"
    "co_sched co0 = 1" "\<not> testb COROUTINE_FLAGS_ASYMMETRIC co0" "7 \<notin> set (inorder (sleeping ?sc))"
    "\<forall>a \<in> set (inorder (sleeping ?sc)). sleep_key ?w a \<noteq> sleep_usecs co0" "2 ^ 31 \<le> (0x80000000 :: u32)"
    by (simp_all add: timers_ok_def zero_schedule_def testb_def TESTBIT_def)
  from sleep_huge_not_queued [OF p] show ?thesis by simp
qed

section \<open>Identifiers\<close>

lemma take_24: "gen < 2 ^ 24 \<Longrightarrow> take_bit 24 gen = (gen :: u32)"
  by (simp add: word_uint_eq_iff unsigned_take_bit_eq take_bit_int_eq_self word_less_def)

lemma make_cid_low: "gen < 2 ^ 24 \<Longrightarrow> take_bit 24 (make_cid sid gen) = gen"
  by (simp add: make_cid_def take_24)

lemma byte_mask: "(0xff :: u32) = mask 8"
  by (simp add: mask_eq_exp_minus_1)

lemma make_cid_high: "gen < 2 ^ 24 \<Longrightarrow> drop_bit 24 (make_cid sid gen) = sid AND 0xff"
proof -
  assume g: "gen < 2 ^ 24"
  have "drop_bit 24 gen = drop_bit 24 (take_bit 24 gen)" using take_24 [OF g] by simp
  also have "\<dots> = 0" by (simp only: drop_bit_take_bit) simp
  finally have "drop_bit 24 gen = 0" .
  moreover have "drop_bit 24 (push_bit 24 (sid AND 0xff)) = sid AND 0xff"
    unfolding byte_mask by (rule bit_word_eqI) (auto simp: bit_simps)
  ultimately show ?thesis by (simp add: make_cid_def)
qed

lemma make_cid_inj:
  assumes "gen < 2 ^ 24" "gen' < 2 ^ 24"
  shows "make_cid sid gen = make_cid sid' gen' \<longleftrightarrow> sid AND 0xff = sid' AND 0xff \<and> gen = gen'"
  using assms make_cid_high make_cid_low by (metis make_cid_def)

text \<open>The counter after \<open>k > 0\<close> creations.\<close>

lemma low_bits: "x AND 0xffffff = (take_bit 24 x :: u32)"
  by (simp add: take_bit_eq_mask mask_eq_exp_minus_1)

lemma next_gen_unat: "unat (next_gen g) = (unat g + 1) mod 2 ^ 24"
proof -
  have "unat (next_gen g) = take_bit 24 (unat (g + 1))" by (simp only: low_bits unsigned_take_bit_eq)
  also have "\<dots> = unat (g + 1) mod 2 ^ 24" by (rule take_bit_eq_mod)
  also have "unat (g + 1) = (unat g + 1) mod 2 ^ 32" by (simp add: unat_word_ariths)
  also have "(unat g + 1) mod 2 ^ 32 mod 2 ^ 24 = (unat g + 1) mod 2 ^ 24" by (simp add: mod_mod_cancel)
  finally show ?thesis .
qed

lemma gens_unat: "0 < k \<Longrightarrow> unat ((next_gen ^^ k) g) = (unat g + k) mod 2 ^ 24"
proof (induction k)
  case (Suc k)
  show ?case
  proof (cases "k = 0")
    case False
    with Suc.IH have "unat ((next_gen ^^ Suc k) g) = ((unat g + k) mod 2 ^ 24 + 1) mod 2 ^ 24"
      by (simp only: funpow.simps comp_apply next_gen_unat)
    then show ?thesis by (simp add: mod_Suc_eq)
  qed (simp only: funpow.simps comp_apply next_gen_unat id_apply One_nat_def)
qed simp

lemma gens_less: "0 < k \<Longrightarrow> (next_gen ^^ k) g < 2 ^ 24"
  by (simp only: word_less_nat_alt gens_unat) simp

text \<open>
  When identifiers coincide: the \<open>i\<close>-th coroutine created by one scheduler and the \<open>j\<close>-th one created by another have the same identifier exactly when the numbers of the schedulers
  agree in the low byte and the counters modulo 2^24. Within a scheduler an identifier comes again after 2^24 creations.
\<close>

theorem cid_unique:
  assumes "0 < i" and "0 < j"
  shows "make_cid sid ((next_gen ^^ i) g) = make_cid sid' ((next_gen ^^ j) g') \<longleftrightarrow>
    sid AND 0xff = sid' AND 0xff \<and> (unat g + i) mod 2 ^ 24 = (unat g' + j) mod 2 ^ 24"
proof -
  have "(next_gen ^^ i) g = (next_gen ^^ j) g' \<longleftrightarrow> (unat g + i) mod 2 ^ 24 = (unat g' + j) mod 2 ^ 24"
    by (simp only: word_unat_eq_iff gens_unat [OF assms(1)] gens_unat [OF assms(2)])
  then show ?thesis
    using make_cid_inj [OF gens_less [OF assms(1)] gens_less [OF assms(2)]] by blast
qed

theorem cid_unique_witness:
  "make_cid 1 ((next_gen ^^ 2) 0) \<noteq> make_cid 1 ((next_gen ^^ 3) 0) \<and> make_cid 1 ((next_gen ^^ 2) 0) \<noteq> make_cid 2 ((next_gen ^^ 2) 0) \<and>
   make_cid 1 ((next_gen ^^ 2) 0) = make_cid 257 ((next_gen ^^ 2) 0)"
  using cid_unique [of 2 3 1 0 1 0] cid_unique [of 2 2 1 0 2 0] cid_unique [of 2 2 1 0 257 0] by (simp del: funpow.simps)

end
