(* ===== verification/Run_Correct.thy ===== *)
theory Run_Correct
  imports Dyco_Run Coroutine_Correct
begin

text \<open>
  Properties of the main loop: what the phases do to the queues, and what the release paths of \<^verbatim>\<open>resume\<close> do to the identifier map.
\<close>

section \<open>Phase A\<close>

lemma testb_status_zero: "co_status co = 0 \<Longrightarrow> \<not> testb b co"
  by (simp add: testb_def TESTBIT_bit)

lemma timers_ok_cong:
  assumes "timers_ok w s sc" "scheds w' s = Some sc'" "sleeping sc' = sleeping sc"
    "\<And>b. b \<in> set (inorder (sleeping sc)) \<Longrightarrow> cos w' b = cos w b"
  shows "timers_ok w' s sc'"
proof -
  have "rb_wf (sleep_key w') (sleeping sc)"
    by (rule rb_wf_key [OF _ timers_wf [OF assms(1)]]) (simp add: sleep_key_def assms(4))
  with assms show ?thesis by (auto simp: timers_ok_def)
qed

definition urgent_in :: "world \<Rightarrow> addr \<Rightarrow> bool" where
  "urgent_in w a = (case cos w a of Some co \<Rightarrow> testb COROUTINE_FLAGS_URGENT co | None \<Rightarrow> False)"

definition qid_of :: "world \<Rightarrow> addr \<Rightarrow> qid" where
  "qid_of w a = (if urgent_in w a then QUrgent else QReady)"

lemma probe_expired_turn:
  assumes t: "timers_ok w s sc" and i: "inorder (sleeping sc) = a # as"
    and now: "sleep_key w a \<le> diff_usecs (birth sc) (clk (environ w) (tick w))"
  obtains w3 sc3 co3 where "probe_expired (Suc n) s w = probe_expired n s w3" "timers_ok w3 s sc3" "inorder (sleeping sc3) = as"
    "queues sc3 = TAILQ_INSERT_TAIL (qid_of w a) a (queues sc)" "cos w3 = (cos w)(a \<mapsto> co3)" "environ w3 = environ w"
    "tick w3 = Suc (tick w)" "birth sc3 = birth sc" "w3 = w\<lparr>tick := Suc (tick w), cos := (cos w)(a \<mapsto> co3), scheds := (scheds w)(s \<mapsto> sc3)\<rparr>"
    "sc3 = sc\<lparr>sleeping := sleeping sc3, queues := queues sc3\<rparr>"
    "co3 = setb COROUTINE_STATUS_READY (setb COROUTINE_FLAGS_EXPIRED (clrb COROUTINE_STATUS_SLEEPING (the (cos w a))))"
proof -
  from t i obtain co where co: "cos w a = Some co" by (auto simp: timers_ok_def)
  with now have "sleep_usecs co \<le> diff_usecs (birth sc) (clk (environ w) (tick w))" by (simp add: sleep_key_def)
  from get_expired_first [OF t i co this] obtain t' w1 where
    r: "schedule_get_expired s w = Done a w1"
      "w1 = w\<lparr>tick := Suc (tick w), scheds := (scheds w)(s \<mapsto> sc\<lparr>sleeping := t'\<rparr>),
        cos := (cos w)(a \<mapsto> setb COROUTINE_FLAGS_EXPIRED (clrb COROUTINE_STATUS_SLEEPING co))\<rparr>"
      "timers_ok w1 s (sc\<lparr>sleeping := t'\<rparr>)" "inorder t' = as" by blast
  have a0: "a \<noteq> NULL" using t i timers_wf by (fastforce simp: rb_wf_def)
  let ?co = "setb COROUTINE_STATUS_READY (setb COROUTINE_FLAGS_EXPIRED (clrb COROUTINE_STATUS_SLEEPING co))"
  let ?sc = "sc\<lparr>sleeping := t', queues := TAILQ_INSERT_TAIL (qid_of w a) a (queues sc)\<rparr>"
  let ?w3 = "w\<lparr>tick := Suc (tick w), cos := (cos w)(a \<mapsto> ?co), scheds := (scheds w)(s \<mapsto> ?sc)\<rparr>"
  have "probe_expired (Suc n) s w = probe_expired n s ?w3"
    using a0 co by (simp add: bind_Done [where m = "schedule_get_expired s", OF r(1)] r(2) push_ready_def queue_push_def
        qid_of_def urgent_in_def)
  moreover have "timers_ok ?w3 s ?sc"
    by (rule timers_ok_cong [OF r(3)]) (use r(2,4) i timers_distinct [OF t] in auto)
  ultimately show thesis using r(4) co by (intro that [of ?w3 ?sc ?co]) simp_all
qed

lemma probe_expired_step:
  assumes t: "timers_ok w s sc" and q: "tq_both (queues sc) q" and i: "inorder (sleeping sc) = a # as" and a: "\<And>i. a \<notin> set (q i)"
    and now: "sleep_key w a \<le> diff_usecs (birth sc) (clk (environ w) (tick w))"
  obtains w3 sc3 co3 where "probe_expired (Suc n) s w = probe_expired n s w3" "timers_ok w3 s sc3" "inorder (sleeping sc3) = as"
    "tq_both (queues sc3) (q(qid_of w a := q (qid_of w a) @ [a]))" "cos w3 = (cos w)(a \<mapsto> co3)" "environ w3 = environ w"
    "tick w3 = Suc (tick w)" "birth sc3 = birth sc"
proof -
  have a0: "a \<noteq> NULL" using t i timers_wf by (fastforce simp: rb_wf_def)
  have "tq_both (TAILQ_INSERT_TAIL (qid_of w a) a (queues sc)) (q(qid_of w a := q (qid_of w a) @ [a]))"
    by (rule tailq.push_law [OF q a0]) (use a in auto)
  with probe_expired_turn [OF t i now, of n] that show thesis by metis
qed

lemma probe_expired_stop:
  assumes t: "timers_ok w s sc" and now: "\<And>a as. inorder (sleeping sc) = a # as \<Longrightarrow> diff_usecs (birth sc) (clk (environ w) (tick w)) < sleep_key w a"
  shows "probe_expired (Suc n) s w = Done () (w\<lparr>tick := Suc (tick w)\<rparr>)"
proof -
  have "\<forall>a \<in> set (inorder (sleeping sc)). \<not> sleep_key w a \<le> diff_usecs (birth sc) (clk (environ w) (tick w))"
  proof (cases "inorder (sleeping sc)")
    case (Cons a as)
    have "by_key (sleep_key w) (inorder (sleeping sc))" using timers_wf [OF t] by (simp add: rb_wf_def)
    then have "\<forall>b \<in> set (inorder (sleeping sc)). sleep_key w a \<le> sleep_key w b" using Cons by (auto simp: less_imp_le)
    with now [OF Cons] show ?thesis by (metis leD order_less_le_trans)
  qed simp
  from get_expired_none [OF t this] show ?thesis by (simp add: bind_Done [where m = "schedule_get_expired s"])
qed

lemma probe_expired_run:
  assumes "timers_ok w s sc" "tq_both (queues sc) q" "\<And>i. set (inorder (sleeping sc)) \<inter> set (q i) = {}"
    "length (inorder (sleeping sc)) < n" "T = inorder (sleeping sc)"
  shows "\<exists>k w' sc'. probe_expired n s w = Done () w' \<and> k \<le> length T \<and> timers_ok w' s sc' \<and> inorder (sleeping sc') = drop k T \<and>
    tq_both (queues sc') (\<lambda>i. q i @ filter (\<lambda>a. qid_of w a = i) (take k T)) \<and>
    (\<forall>j < k. sleep_key w (T ! j) \<le> diff_usecs (birth sc) (clk (environ w) (tick w + j))) \<and>
    (k < length T \<longrightarrow> diff_usecs (birth sc) (clk (environ w) (tick w + k)) < sleep_key w (T ! k))"
  using assms
proof (induction T arbitrary: w sc q n)
  case Nil
  from Nil.prems(4) obtain m where m: "n = Suc m" by (cases n) auto
  have "probe_expired n s w = Done () (w\<lparr>tick := Suc (tick w)\<rparr>)"
    unfolding m by (rule probe_expired_stop [OF Nil.prems(1)]) (use Nil.prems(5) in simp)
  moreover have "timers_ok (w\<lparr>tick := Suc (tick w)\<rparr>) s sc" using Nil.prems(1) by (simp add: timers_ok_def)
  ultimately show ?case using Nil.prems(2) Nil.prems(5) [symmetric]
    by (intro exI [of _ 0] exI [of _ "w\<lparr>tick := Suc (tick w)\<rparr>"] exI [of _ sc]) (simp del: inorder_empty)
next
  case (Cons a as)
  from Cons.prems(4) obtain m where m: "n = Suc m" by (cases n) auto
  have i: "inorder (sleeping sc) = a # as" using Cons.prems(5) by simp
  show ?case
  proof (cases "sleep_key w a \<le> diff_usecs (birth sc) (clk (environ w) (tick w))")
    case False
    have "probe_expired n s w = Done () (w\<lparr>tick := Suc (tick w)\<rparr>)"
      unfolding m by (rule probe_expired_stop [OF Cons.prems(1)]) (use i False in auto)
    moreover have "timers_ok (w\<lparr>tick := Suc (tick w)\<rparr>) s sc" using Cons.prems(1) by (simp add: timers_ok_def)
    ultimately show ?thesis using Cons.prems(2) False i
      by (intro exI [of _ 0] exI [of _ "w\<lparr>tick := Suc (tick w)\<rparr>"] exI [of _ sc]) auto
  next
    case True
    have ai: "a \<notin> set (q j)" for j using Cons.prems(3) [of j] i by auto
    from probe_expired_step [OF Cons.prems(1,2) i ai True, of m] obtain w3 sc3 co3 where
      st: "probe_expired (Suc m) s w = probe_expired m s w3" "timers_ok w3 s sc3" "inorder (sleeping sc3) = as"
      "tq_both (queues sc3) (q(qid_of w a := q (qid_of w a) @ [a]))" "cos w3 = (cos w)(a \<mapsto> co3)" "environ w3 = environ w"
      "tick w3 = Suc (tick w)" "birth sc3 = birth sc" by blast
    have anew: "a \<notin> set as" using timers_distinct [OF Cons.prems(1)] i by simp
    let ?q = "q(qid_of w a := q (qid_of w a) @ [a])"
    have dis: "set (inorder (sleeping sc3)) \<inter> set (?q j) = {}" for j
      using Cons.prems(3) [of j] i st(3) anew by auto
    have len: "length (inorder (sleeping sc3)) < m" using Cons.prems(4) i st(3) m by simp
    have same: "sleep_key w3 b = sleep_key w b" "qid_of w3 b = qid_of w b" if "b \<in> set as" for b
      using that anew st(5) by (auto simp: sleep_key_def qid_of_def urgent_in_def)
    from Cons.IH [OF st(2,4) dis len st(3) [symmetric]] obtain k w' sc' where
      r: "probe_expired m s w3 = Done () w'" "k \<le> length as" "timers_ok w' s sc'" "inorder (sleeping sc') = drop k as"
      "tq_both (queues sc') (\<lambda>i. ?q i @ filter (\<lambda>a. qid_of w3 a = i) (take k as))"
      "\<forall>j < k. sleep_key w3 (as ! j) \<le> diff_usecs (birth sc3) (clk (environ w3) (tick w3 + j))"
      "k < length as \<longrightarrow> diff_usecs (birth sc3) (clk (environ w3) (tick w3 + k)) < sleep_key w3 (as ! k)" by blast
    have "filter (\<lambda>a. qid_of w3 a = i) (take k as) = filter (\<lambda>a. qid_of w a = i) (take k as)" for i
      by (rule filter_cong) (use same(2) in \<open>auto dest: in_set_takeD\<close>)
    then have fq: "(\<lambda>i. ?q i @ filter (\<lambda>a. qid_of w3 a = i) (take k as)) =
        (\<lambda>i. q i @ filter (\<lambda>a. qid_of w a = i) (take (Suc k) (a # as)))"
      by (auto simp: fun_eq_iff)
    have j: "\<forall>j < Suc k. sleep_key w ((a # as) ! j) \<le> diff_usecs (birth sc) (clk (environ w) (tick w + j))"
    proof (intro allI impI)
      fix j assume "j < Suc k"
      then show "sleep_key w ((a # as) ! j) \<le> diff_usecs (birth sc) (clk (environ w) (tick w + j))"
      proof (cases j)
        case (Suc l)
        with \<open>j < Suc k\<close> r(2,6) st(6-8) same(1) [of "as ! l"] show ?thesis by auto
      qed (use True in simp)
    qed
    have l: "Suc k < length (a # as) \<longrightarrow> diff_usecs (birth sc) (clk (environ w) (tick w + Suc k)) < sleep_key w ((a # as) ! Suc k)"
      using r(7) st(6-8) same(1) [of "as ! k"] by auto
    show ?thesis
      by (intro exI [of _ "Suc k"] exI [of _ w'] exI [of _ sc']) (use r st(1) m j l fq in auto)
  qed
qed

text \<open>
  C18: phase A. Started on a well-formed scheduler none of whose sleepers is queued, the loop that probes the
  timers ends, and there is a number \<open>k\<close> such that the \<open>k\<close> earliest sleepers have been moved, in the order
  of their wake-up times, to the tails of the ready queues of their priorities, everything that was on the
  queues staying in front of them; each of them was due at the clock reading made for it, the next one was not, and
  the sleep tree holds exactly the others.
\<close>

theorem probe_expired_correct:
  assumes "timers_ok w s sc" and "tq_both (queues sc) q" and "\<And>i. set (inorder (sleeping sc)) \<inter> set (q i) = {}"
  defines "T \<equiv> inorder (sleeping sc)"
  shows "\<exists>k w' sc'. probe_expired (Suc (length T)) s w = Done () w' \<and> k \<le> length T \<and> timers_ok w' s sc' \<and>
    inorder (sleeping sc') = drop k T \<and>
    tq_both (queues sc') (\<lambda>i. q i @ filter (\<lambda>a. qid_of w a = i) (take k T)) \<and>
    (\<forall>j < k. sleep_key w (T ! j) \<le> clk (environ w) (tick w + j) - birth sc) \<and>
    (k < length T \<longrightarrow> clk (environ w) (tick w + k) - birth sc < sleep_key w (T ! k))"
  using probe_expired_run [OF assms(1-3), of "Suc (length T)" T] by (simp add: T_def diff_usecs_def)

theorem probe_expired_correct_witness:
  "\<exists>w'. probe_expired 2 1 (world0 [8 \<mapsto> setb COROUTINE_STATUS_SLEEPING (co0\<lparr>sleep_usecs := 300\<rparr>)]
      (zero_schedule\<lparr>sleeping := Nd RB_BLACK Lf 8 Lf\<rparr>)) = Done () w'"
proof -
  let ?sc = "zero_schedule\<lparr>sleeping := Nd RB_BLACK Lf 8 Lf\<rparr>"
  let ?w = "world0 [8 \<mapsto> setb COROUTINE_STATUS_SLEEPING (co0\<lparr>sleep_usecs := 300\<rparr>)] ?sc"
  have t: "timers_ok ?w 1 ?sc"
    by (auto simp: timers_ok_def rb_wf_def rb_ok_def intro!: exI [of _ 1])
  have q: "tq_both (queues ?sc) (\<lambda>_. [])" by (simp add: zero_schedule_def tq_both_def tq_rep_def)
  from probe_expired_correct [OF t q] show ?thesis by (auto simp: numeral_2_eq_2)
qed

section \<open>A timer and an event of the same coroutine\<close>

lemma timers_ok_flags:
  assumes "timers_ok w s sc" "cos w c = Some co" "cos w' = (cos w)(c \<mapsto> co')" "sleep_usecs co' = sleep_usecs co"
    "co_sched co' = co_sched co" "testb COROUTINE_STATUS_SLEEPING co' = testb COROUTINE_STATUS_SLEEPING co"
    "scheds w' s = Some sc'" "sleeping sc' = sleeping sc"
  shows "timers_ok w' s sc'"
proof -
  have "sleep_key w' = sleep_key w" using assms(2-4) by (auto simp: sleep_key_def fun_eq_iff)
  then show ?thesis using assms by (auto simp: timers_ok_def)
qed

lemma process_event_run:
  assumes co: "cos w c = Some co" "co_sched co = s" "testb COROUTINE_FLAGS_WAITING co" "c \<noteq> NULL"
    and sc: "scheds w s = Some sc" "ht_wf (fd_co_map sc)" "ht_abs (fd_co_map sc) (fd_key n) = Some c"
    and n: "key_ok (fd_key n)" "fds w n \<noteq> None" "n \<in> fst ` set l" and e: "fds w (sc_epollfd sc) = Some (EpollFd l)"
  obtains w1 sc1 where "process_events (n # ns) s w = process_events ns s w1" "scheds w1 s = Some sc1"
    "queues sc1 = TAILQ_INSERT_TAIL (qid_of w c) c (queues sc)" "sleeping sc1 = sleeping sc" "birth sc1 = birth sc"
    "cos w1 = (cos w)(c \<mapsto> clrb COROUTINE_FLAGS_WAITING (setb COROUTINE_STATUS_READY co))"
    "environ w1 = environ w" "tick w1 = tick w" "ht_wf (fd_co_map sc1)"
    "ht_abs (fd_co_map sc1) = (ht_abs (fd_co_map sc))(fd_key n := None)"
    "fds w1 = (fds w)(sc_epollfd sc \<mapsto> EpollFd (filter (\<lambda>(m, _). m \<noteq> n) l))" "sc_epollfd sc1 = sc_epollfd sc"
proof -
  let ?co = "setb COROUTINE_STATUS_READY co"
  let ?sc = "sc\<lparr>queues := TAILQ_INSERT_TAIL (qid_of w c) c (queues sc)\<rparr>"
  let ?w = "w\<lparr>cos := (cos w)(c \<mapsto> ?co), scheds := (scheds w)(s \<mapsto> ?sc)\<rparr>"
  have g: "schedule_get_waitco s n w = Done c w" using get_waitco_run [OF sc(1,2) n(1)] sc(3) by simp
  have p: "cos ?w c = Some ?co" "co_sched ?co = s" "testb COROUTINE_FLAGS_WAITING ?co" "scheds ?w s = Some ?sc" "ht_wf (fd_co_map ?sc)"
    "fds ?w n \<noteq> None" "fds ?w (sc_epollfd ?sc) = Some (EpollFd l)" using co sc n e by simp_all
  from cancel_wait_run [OF p(1-5) n(1) p(6) n(3) p(7)] obtain ht where
    c: "schedule_cancel_wait c n ?w = Done 0
      (?w\<lparr>scheds := (scheds ?w)(s \<mapsto> ?sc\<lparr>fd_co_map := ht\<rparr>), cos := (cos ?w)(c \<mapsto> clrb COROUTINE_FLAGS_WAITING ?co),
         fds := (fds ?w)(sc_epollfd ?sc \<mapsto> EpollFd (filter (\<lambda>(m, _). m \<noteq> n) l))\<rparr>)" (is "_ = Done 0 ?w1")
    and h: "ht_wf ht" "ht_abs ht = (ht_abs (fd_co_map ?sc))(fd_key n := None)" by blast
  have r: "push_ready s c (w\<lparr>cos := (cos w)(c \<mapsto> ?co)\<rparr>) = Done () ?w"
    using co sc(1) by (simp add: push_ready_def queue_push_def qid_of_def urgent_in_def)
  have "process_events (n # ns) s w = process_events ns s ?w1"
    using co(1,4) by (simp add: bind_Done [where m = "schedule_get_waitco s n", OF g] seq_Done [where m = "push_ready s c", OF r]
        seq_Done [where m = "schedule_cancel_wait c n", OF c] del: fun_upd_apply add: fun_upd_same)
  then show thesis by (rule that [of ?w1 "?sc\<lparr>fd_co_map := ht\<rparr>"]) (use h in simp_all)
qed

text \<open>
  C38: a coroutine that waits for a descriptor with a time limit can be queued twice. If its descriptor
  becomes ready and its timer expires before it runs again, phase D queues it for the event (and leaves its
  timer alone) and the following phase A queues it for the timer. From then on removing it from the ready queue has no
  effect: it stays the head of the queue for ever, so it is resumed again and again, even after it
  has ended and its memory has been freed.
\<close>

theorem event_and_timer_queue_twice:
  assumes "timers_ok w s sc" and "inorder (sleeping sc) = [c]" and "cos w c = Some co" and "testb COROUTINE_FLAGS_WAITING co"
    and "\<not> testb COROUTINE_FLAGS_URGENT co" and "ht_wf (fd_co_map sc)" and "ht_abs (fd_co_map sc) (fd_key n) = Some c"
    and "key_ok (fd_key n)" and "fds w n \<noteq> None" and "n \<in> fst ` set l" and "fds w (sc_epollfd sc) = Some (EpollFd l)"
    and "tq_both (queues sc) (\<lambda>_. [])" and "sleep_usecs co \<le> clk (environ w) (tick w) - birth sc"
  shows "\<exists>w1 w2 sc2. process_events [n] s w = Done () w1 \<and> probe_expired 2 s w1 = Done () w2 \<and> scheds w2 s = Some sc2 \<and>
    (\<forall>m. TAILQ_FIRST QReady ((TAILQ_REMOVE QReady c ^^ m) (queues sc2)) = c)"
proof -
  have cs: "co_sched co = s" using assms(1-3) by (auto simp: timers_ok_def)
  have c0: "c \<noteq> NULL" using timers_wf [OF assms(1)] assms(2) by (auto simp: rb_wf_def)
  from process_event_run [OF assms(3) cs assms(4) c0 timers_sched [OF assms(1)] assms(6-11), of "[]"] obtain w1 sc1 where
    e: "process_events [n] s w = process_events [] s w1" "scheds w1 s = Some sc1"
      "queues sc1 = TAILQ_INSERT_TAIL (qid_of w c) c (queues sc)" "sleeping sc1 = sleeping sc" "birth sc1 = birth sc"
      "cos w1 = (cos w)(c \<mapsto> clrb COROUTINE_FLAGS_WAITING (setb COROUTINE_STATUS_READY co))" "environ w1 = environ w" "tick w1 = tick w"
    by blast
  have t1: "timers_ok w1 s sc1" by (rule timers_ok_flags [OF assms(1,3) e(6) _ _ _ e(2,4)]) simp_all
  have i1: "inorder (sleeping sc1) = [c]" using assms(2) e(4) by simp
  have k1: "sleep_key w1 c \<le> diff_usecs (birth sc1) (clk (environ w1) (tick w1))"
    using assms(13) e(5-8) by (simp add: sleep_key_def diff_usecs_def)
  have q: "qid_of w c = QReady" "qid_of w1 c = QReady" using assms(3,5) e(6) by (simp_all add: qid_of_def urgent_in_def)
  from probe_expired_turn [OF t1 i1 k1, of 1] obtain w3 sc3 where
    p: "probe_expired (Suc 1) s w1 = probe_expired 1 s w3" "timers_ok w3 s sc3" "inorder (sleeping sc3) = []"
      "queues sc3 = TAILQ_INSERT_TAIL (qid_of w1 c) c (queues sc1)" by metis
  have stop: "probe_expired (Suc 0) s w3 = Done () (w3\<lparr>tick := Suc (tick w3)\<rparr>)"
    by (rule probe_expired_stop [OF p(2)]) (use p(3) in simp)
  have "tq_rep (queues sc) QReady []" using assms(12) by (simp add: tq_both_def)
  from TAILQ_INSERT_TAIL_rep [OF this c0] have "tq_rep (queues sc1) QReady [c]" using e(3) q by simp
  from TAILQ_INSERT_twice_stuck [OF this] have "TAILQ_FIRST QReady ((TAILQ_REMOVE QReady c ^^ m) (queues sc3)) = c" for m
    using p(4) q by simp
  moreover have "probe_expired 2 s w1 = Done () (w3\<lparr>tick := Suc (tick w3)\<rparr>)"
    using p(1) stop by (simp add: numeral_2_eq_2 del: probe_expired.simps)
  ultimately show ?thesis using e(1) timers_sched [OF p(2)]
    by (intro exI [of _ w1] exI [of _ "w3\<lparr>tick := Suc (tick w3)\<rparr>"] exI [of _ sc3]) (simp del: probe_expired.simps)
qed

text \<open>A table that holds one descriptor.\<close>

definition htable_one :: dyco_htable where
  "htable_one = \<lparr>hwidth = 1, hmask = 1, hcount = 1, htable = TBuckets [\<lparr>bid = 6, bdata = 8, bnext = []\<rparr>, hempty]\<rparr>"

lemma htable_one_ok: "ht_wf htable_one \<and> ht_abs htable_one (fd_key 6) = Some 8"
proof -
  have p: "plenty \<lparr>nalloc = 0, oom = \<lambda>_. False\<rparr>" "key_ok 6" by (simp_all add: plenty_def key_ok_def)
  have "htable_insert htable2 6 8 \<lparr>nalloc = 0, oom = \<lambda>_. False\<rparr> = Some (1, htable_one, \<lparr>nalloc = 0, oom = \<lambda>_. False\<rparr>)"
    by (simp add: htable_insert_def htable2_def htable_one_def hb_at_def hb_put_def hidx_def htable_grow_def DYCO_HTABLE_MAXALPHA_def)
  with htab.insert_law [OF htable2_wf p(2,1), of 8] show ?thesis by auto
qed

theorem event_and_timer_queue_twice_witness:
  "\<exists>w1 w2 sc2. process_events [6] 1 ((world0 [8 \<mapsto> setb COROUTINE_FLAGS_WAITING (setb COROUTINE_STATUS_SLEEPING (co0\<lparr>sleep_usecs := 300\<rparr>))]
      (zero_schedule\<lparr>sc_epollfd := 5, sleeping := Nd RB_BLACK Lf 8 Lf, fd_co_map := htable_one\<rparr>))
        \<lparr>fds := [5 \<mapsto> EpollFd [(6, EPOLLIN)], 6 \<mapsto> EventFd 1]\<rparr>) = Done () w1 \<and> probe_expired 2 1 w1 = Done () w2 \<and>
     scheds w2 1 = Some sc2 \<and> TAILQ_FIRST QReady (TAILQ_REMOVE QReady 8 (queues sc2)) = 8"
proof -
  let ?co = "setb COROUTINE_FLAGS_WAITING (setb COROUTINE_STATUS_SLEEPING (co0\<lparr>sleep_usecs := 300\<rparr>))"
  let ?sc = "zero_schedule\<lparr>sc_epollfd := 5, sleeping := Nd RB_BLACK Lf 8 Lf, fd_co_map := htable_one\<rparr>"
  let ?w = "(world0 [8 \<mapsto> ?co] ?sc)\<lparr>fds := [5 \<mapsto> EpollFd [(6, EPOLLIN)], 6 \<mapsto> EventFd 1]\<rparr>"
  have t: "timers_ok ?w 1 ?sc"
    by (auto simp: timers_ok_def rb_wf_def rb_ok_def intro!: exI [of _ 1])
  have u: "\<not> testb COROUTINE_FLAGS_URGENT ?co" by (simp, simp add: testb_def TESTBIT_def)
  have q: "tq_both (queues ?sc) (\<lambda>_. [])" by (simp add: zero_schedule_def tq_both_def tq_rep_def)
  have h: "ht_wf (fd_co_map ?sc)" "ht_abs (fd_co_map ?sc) (fd_key 6) = Some 8" using htable_one_ok by simp_all
  have "\<exists>w1 w2 sc2. process_events [6] 1 ?w = Done () w1 \<and> probe_expired 2 1 w1 = Done () w2 \<and> scheds w2 1 = Some sc2 \<and>
    (\<forall>m. TAILQ_FIRST QReady ((TAILQ_REMOVE QReady 8 ^^ m) (queues sc2)) = 8)"
    by (rule event_and_timer_queue_twice [OF t _ _ _ u h, where l = "[(6, EPOLLIN)]"]) (use q in \<open>simp_all add: key_ok_def zero_schedule_def\<close>)
  then obtain w1 w2 sc2 where r: "process_events [6] 1 ?w = Done () w1" "probe_expired 2 1 w1 = Done () w2" "scheds w2 1 = Some sc2"
    "TAILQ_FIRST QReady ((TAILQ_REMOVE QReady 8 ^^ 1) (queues sc2)) = 8" by blast
  then show ?thesis by (intro exI [of _ w1] exI [of _ w2] exI [of _ sc2]) simp
qed

section \<open>Releasing a coroutine\<close>

text \<open>The memory \<open>freecoro\<close> gives back with the coroutine.\<close>

definition owned_stack :: "dyco_coroutine \<Rightarrow> addr" where
  "owned_stack co = (if testb COROUTINE_FLAGS_ALLOCSTACKMEM co then co_stack co else NULL)"

lemma freecoro_run:
  assumes co: "cos w c = Some co" "c \<noteq> NULL" "\<not> testb COROUTINE_FLAGS_IOMULTIPLEXING co" "\<not> testb COROUTINE_FLAGS_WAITSIGNAL co"
    and st: "owned_stack co \<noteq> NULL \<Longrightarrow> bytes w (owned_stack co) \<noteq> None"
    and sc: "scheds w (co_sched co) = Some sc" "htable_delete (cid_co_map sc) (cid co) = Some (r, d, ht)"
  obtains w' where "freecoro c w = Done () w'" "cos w' = (cos w)(c := None)" "fds w' = fds w" "sigmask w' = sigmask w"
    "scheds w' = (scheds w)(co_sched co \<mapsto> sc\<lparr>coro_count := coro_count sc - 1, cid_co_map := ht\<rparr>)"
    "bytes w' = (if owned_stack co = NULL then bytes w else (bytes w)(owned_stack co := None))"
    "w' = w\<lparr>scheds := scheds w', bytes := bytes w', cos := cos w'\<rparr>"
proof -
  let ?w' = "w\<lparr>scheds := (scheds w)(co_sched co \<mapsto> sc\<lparr>coro_count := coro_count sc - 1, cid_co_map := ht\<rparr>),
    bytes := (if owned_stack co = NULL then bytes w else (bytes w)(owned_stack co := None)), cos := (cos w)(c := None)\<rparr>"
  have "freecoro c w = Done () ?w'"
  proof (cases "testb COROUTINE_FLAGS_ALLOCSTACKMEM co")
    case True
    then show ?thesis using assms by (cases "co_stack co = NULL") (auto simp: freecoro_def owned_stack_def map_delete_def)
  next
    case False
    then show ?thesis using assms by (simp add: freecoro_def owned_stack_def map_delete_def)
  qed
  then show thesis by (rule that) simp_all
qed

text \<open>A coroutine the scheduler runs by itself, with no pool behind it, no multiplexer and no awaited signal.\<close>

definition plain_coro :: "world \<Rightarrow> addr \<Rightarrow> dyco_coroutine \<Rightarrow> bool" where
  "plain_coro w c co = (cos w c = Some co \<and> c \<noteq> NULL \<and> \<not> testb COROUTINE_FLAGS_INCOROPOOL co \<and>
     \<not> testb COROUTINE_FLAGS_ASYMMETRIC co \<and> \<not> testb COROUTINE_FLAGS_IOMULTIPLEXING co \<and>
     \<not> testb COROUTINE_FLAGS_WAITSIGNAL co \<and> (owned_stack co \<noteq> NULL \<longrightarrow> bytes w (owned_stack co) \<noteq> None))"

lemma coro_abort_plain:
  assumes "plain_coro w c co" "scheds w (co_sched co) = Some sc" "htable_delete (cid_co_map sc) (cid co) = Some (r, d, ht)"
  obtains w' where "coro_abort c w = Done () w'" "cos w' = (cos w)(c := None)"
    "scheds w' = (scheds w)(co_sched co \<mapsto> sc\<lparr>coro_count := coro_count sc - 1, cid_co_map := ht\<rparr>)"
proof -
  from assms(1) have p: "cos w c = Some co" "c \<noteq> NULL" "\<not> testb COROUTINE_FLAGS_IOMULTIPLEXING co" "\<not> testb COROUTINE_FLAGS_WAITSIGNAL co"
    "owned_stack co \<noteq> NULL \<Longrightarrow> bytes w (owned_stack co) \<noteq> None" "\<not> testb COROUTINE_FLAGS_INCOROPOOL co"
    "\<not> testb COROUTINE_FLAGS_ASYMMETRIC co" by (simp_all add: plain_coro_def)
  from freecoro_run [OF p(1-5) assms(2,3)] obtain w' where "freecoro c w = Done () w'" "cos w' = (cos w)(c := None)"
    "scheds w' = (scheds w)(co_sched co \<mapsto> sc\<lparr>coro_count := coro_count sc - 1, cid_co_map := ht\<rparr>)" by blast
  with p that show thesis by (simp add: coro_abort_def)
qed

lemma hb_at_put:
  assumes "hb_at ht k = Some b" shows "hb_at (hb_put k b' ht) k = Some b'"
  using assms by (auto simp: hb_at_def hb_put_def split: htab.splits if_splits)

lemma hb_at_hcount [simp]: "hb_at (ht\<lparr>hcount := c\<rparr>) k = hb_at ht k"
  by (simp add: hb_at_def split: htab.split)

lemma htable_delete_hcount:
  "htable_delete (ht\<lparr>hcount := c\<rparr>) k = Some (- 1, None, ht\<lparr>hcount := c\<rparr>) \<Longrightarrow> htable_delete ht k = Some (- 1, None, ht)"
  by (auto simp: htable_delete_def split: option.splits list.splits if_splits)

lemma bnext_dropWhile_gone: "p \<notin> haddr ` set ns \<Longrightarrow> dropWhile (\<lambda>n. haddr n \<noteq> p) ns = []"
  by (auto simp: dropWhile_eq_Nil_conv)

lemma killed_single:
  assumes p: "plain_coro w c co" and sc: "scheds w (co_sched co) = Some sc" and k: "cid co \<noteq> - 1"
    and b: "hb_at (cid_co_map sc) (cid co) = Some b" "bid b = cid co" "bdata b = c" "bnext b = []"
  obtains w' sc' where "htable_delete_with_freecb (cid_map_of (co_sched co)) (cid_map_put (co_sched co)) coro_abort (cid co) w = Done 0 w'"
    "scheds w' (co_sched co) = Some sc'" "cos w' = (cos w)(c := None)"
    "cid_co_map sc' = (hb_put (cid co) (b\<lparr>bid := - 1, bdata := NULL\<rparr>) (cid_co_map sc))\<lparr>hcount := hcount (cid_co_map sc) - 2\<rparr>"
proof -
  let ?ht = "cid_co_map sc" and ?b = "b\<lparr>bid := - 1, bdata := NULL\<rparr>"
  let ?ht1 = "(hb_put (cid co) ?b ?ht)\<lparr>hcount := hcount ?ht - 1\<rparr>"
  have d: "htable_delete ?ht (cid co) = Some (0, Some c, ?ht1)" using b k by (simp add: htable_delete_def)
  from coro_abort_plain [OF p sc d] obtain w1 where w1: "coro_abort c w = Done () w1" "cos w1 = (cos w)(c := None)"
    "scheds w1 = (scheds w)(co_sched co \<mapsto> sc\<lparr>coro_count := coro_count sc - 1, cid_co_map := ?ht1\<rparr>)" by blast
  have at: "hb_at ?ht1 (cid co) = Some ?b" using hb_at_put [OF b(1)] by simp
  have pp: "hb_put (cid co) ?b ?ht1 = ?ht1"
    using b(1) by (auto simp: hb_put_def hb_at_def split: htab.splits if_splits)
  have c: "c \<noteq> NULL" using p by (simp add: plain_coro_def)
  let ?w2 = "cid_map_put (co_sched co) (?ht1\<lparr>hcount := hcount ?ht - 2\<rparr>) w1"
  have "htable_delete_with_freecb (cid_map_of (co_sched co)) (cid_map_put (co_sched co)) coro_abort (cid co) w = Done 0 ?w2"
    using b k c sc at pp
    by (simp add: htable_delete_with_freecb_def cid_map_of_def w1(3) seq_Done [where m = "coro_abort c", OF w1(1)])
  then show thesis
    by (rule that [of ?w2 "sc\<lparr>coro_count := coro_count sc - 1, cid_co_map := ?ht1\<lparr>hcount := hcount ?ht - 2\<rparr>\<rparr>"])
      (simp_all add: cid_map_put_def w1)
qed

lemma killed_chained:
  assumes p: "plain_coro w c co" and sc: "scheds w (co_sched co) = Some sc" and k: "cid co \<noteq> - 1"
    and b: "hb_at (cid_co_map sc) (cid co) = Some b" "bid b = cid co" "bdata b = c" "bnext b = n # ns"
    and n: "hlive n" "haddr n \<notin> haddr ` set ns"
  shows "htable_delete_with_freecb (cid_map_of (co_sched co)) (cid_map_put (co_sched co)) coro_abort (cid co) w = Fault BadAccess"
proof -
  let ?ht = "cid_co_map sc" and ?b = "b\<lparr>bid := hid n, bdata := hdata n, bnext := ns\<rparr>"
  let ?ht1 = "(hb_put (cid co) ?b ?ht)\<lparr>hcount := hcount ?ht - 1\<rparr>"
  have d: "htable_delete ?ht (cid co) = Some (0, Some c, ?ht1)" using b k n(1) by (simp add: htable_delete_def)
  from coro_abort_plain [OF p sc d] obtain w1 where w1: "coro_abort c w = Done () w1" "cos w1 = (cos w)(c := None)"
    "scheds w1 = (scheds w)(co_sched co \<mapsto> sc\<lparr>coro_count := coro_count sc - 1, cid_co_map := ?ht1\<rparr>)" by blast
  have gone: "hn_at ?ht1 (hidx (hmask ?ht) (cid co)) (haddr n) = None"
    using b(1) by (auto simp: hn_at_def hb_put_def hb_at_def bnext_dropWhile_gone [OF n(2)] split: htab.splits if_splits)
  have c: "c \<noteq> NULL" using p by (simp add: plain_coro_def)
  show ?thesis
    using b k c sc gone
    by (simp add: htable_delete_with_freecb_def cid_map_of_def w1(3) seq_Done [where m = "coro_abort c", OF w1(1)])
qed

lemma killed_in_chain:
  assumes p: "plain_coro w c co" and sc: "scheds w (co_sched co) = Some sc" "ht_wf (cid_co_map sc)"
    and k: "key_ok (cid co)" "ht_abs (cid_co_map sc) (cid co) = Some c"
    and b: "hb_at (cid_co_map sc) (cid co) = Some b" "bid b \<noteq> cid co"
  obtains w' sc' where "htable_delete_with_freecb (cid_map_of (co_sched co)) (cid_map_put (co_sched co)) coro_abort (cid co) w = Done 0 w'"
    "scheds w' (co_sched co) = Some sc'" "cos w' = (cos w)(c := None)" "ht_wf (cid_co_map sc')"
    "ht_abs (cid_co_map sc') = (ht_abs (cid_co_map sc))(cid co := None)"
proof -
  let ?s = "co_sched co" and ?ht = "cid_co_map sc"
  from htable_delete_present [OF sc(2) k] obtain ht where ht: "htable_delete ?ht (cid co) = Some (0, Some c, ht)" "ht_wf ht"
    "ht_abs ht = (ht_abs ?ht)(cid co := None)" by blast
  from ht(1) b obtain ns where ns: "bid b \<noteq> - 1" "hc_remove (cid co) (bnext b) = Some (Some (c, ns))"
    "ht = (hb_put (cid co) (b\<lparr>bnext := ns\<rparr>) ?ht)\<lparr>hcount := hcount ?ht - 1\<rparr>"
    by (auto simp: htable_delete_def split: if_splits option.splits)
  let ?ht0 = "hb_put (cid co) (b\<lparr>bnext := ns\<rparr>) ?ht"
  let ?w0 = "cid_map_put ?s ?ht0 w"
  have "htable_delete ht (cid co) = Some (- 1, None, ht)" using htable_delete_absent [OF ht(2) k(1)] ht(3) by simp
  then have d: "htable_delete ?ht0 (cid co) = Some (- 1, None, ?ht0)" using htable_delete_hcount ns(3) by blast
  have p0: "plain_coro ?w0 c co" using p sc by (simp add: plain_coro_def cid_map_put_def)
  have s0: "scheds ?w0 ?s = Some (sc\<lparr>cid_co_map := ?ht0\<rparr>)" using sc by (simp add: cid_map_put_def)
  from coro_abort_plain [OF p0 s0, of "- 1" None ?ht0] d obtain w1 where w1: "coro_abort c ?w0 = Done () w1"
    "cos w1 = (cos ?w0)(c := None)"
    "scheds w1 = (scheds ?w0)(?s \<mapsto> sc\<lparr>cid_co_map := ?ht0\<rparr>\<lparr>coro_count := coro_count sc - 1, cid_co_map := ?ht0\<rparr>)" by auto
  have c: "c \<noteq> NULL" using p by (simp add: plain_coro_def)
  let ?w2 = "cid_map_put ?s ht w1"
  have "htable_delete_with_freecb (cid_map_of ?s) (cid_map_put ?s) coro_abort (cid co) w = Done 0 ?w2"
    using b ns k c sc by (simp add: htable_delete_with_freecb_def cid_map_of_def w1(3) seq_Done [where m = "coro_abort c", OF w1(1)])
  then show thesis
    by (rule that [of ?w2 "sc\<lparr>coro_count := coro_count sc - 1, cid_co_map := ht\<rparr>"])
      (use sc ht in \<open>simp_all add: cid_map_put_def w1\<close>)
qed

text \<open>
  C39: what \<^verbatim>\<open>resume\<close> does with a coroutine that was killed. It deletes its entry from the identifier map
  and has the callback release it; but the callback deletes the entry too. When the entry is the head of
  its bucket and alone there, the count of the map drops by 2 for one entry; when it is the head of a chain, the
  map reads a node the callback has freed; only when the entry is further down the chain is the result what
  it should be.
\<close>

theorem killed_coroutine_release:
  assumes "plain_coro w c co" and "s = co_sched co" and "scheds w s = Some sc" and "ht_wf (cid_co_map sc)" and "key_ok (cid co)"
    and "ht_abs (cid_co_map sc) (cid co) = Some c"
    and "hb_at (cid_co_map sc) (cid co) = Some b" and "distinct (map haddr (bnext b))"
  defines "kill \<equiv> htable_delete_with_freecb (cid_map_of s) (cid_map_put s) coro_abort (cid co) w"
  shows "if bid b = cid co
    then if bnext b = []
      then \<exists>w' sc'. kill = Done 0 w' \<and> scheds w' s = Some sc' \<and> cos w' c = None \<and> hcount (cid_co_map sc') = hcount (cid_co_map sc) - 2
      else kill = Fault BadAccess
    else \<exists>w' sc'. kill = Done 0 w' \<and> scheds w' s = Some sc' \<and> cos w' c = None \<and> ht_wf (cid_co_map sc') \<and>
      ht_abs (cid_co_map sc') = (ht_abs (cid_co_map sc))(cid co := None)"
proof -
  note s = assms(3) [unfolded assms(2)]
  have k: "cid co \<noteq> - 1" using assms(5) by (simp add: key_ok_def)
  have live: "\<forall>n \<in> set (bnext b). hlive n" and d: "bid b = cid co \<Longrightarrow> bdata b = c"
    using ht_wf_bucket [OF assms(4), of "cid co"] assms(5-7) k by (auto simp: hkeys_def dest: bucket_live)
  show ?thesis
  proof (cases "bid b = cid co")
    case True
    show ?thesis
    proof (cases "bnext b")
      case Nil
      from killed_single [OF assms(1) s k assms(7) True d [OF True] Nil] True Nil show ?thesis
        unfolding kill_def assms(2) by fastforce
    next
      case (Cons n ns)
      from killed_chained [OF assms(1) s k assms(7) True d [OF True] Cons] live assms(8) True Cons show ?thesis
        unfolding kill_def assms(2) by simp
    qed
  next
    case False
    from killed_in_chain [OF assms(1) s assms(4-6,7) False] False show ?thesis
      unfolding kill_def assms(2) by fastforce
  qed
qed

theorem killed_coroutine_release_witness:
  "\<exists>w' sc'. htable_delete_with_freecb (cid_map_of 1) (cid_map_put 1) coro_abort 6
      (world0 [8 \<mapsto> co0\<lparr>cid := 6\<rparr>] (zero_schedule\<lparr>cid_co_map := htable_one\<rparr>)) = Done 0 w' \<and>
    scheds w' 1 = Some sc' \<and> hcount (cid_co_map sc') = - 1"
proof -
  let ?co = "co0\<lparr>cid := 6\<rparr>" and ?sc = "zero_schedule\<lparr>cid_co_map := htable_one\<rparr>"
  let ?w = "world0 [8 \<mapsto> ?co] ?sc" and ?b = "\<lparr>bid = 6, bdata = 8, bnext = []\<rparr> :: hbucket"
  have p: "plain_coro ?w 8 ?co" by (simp add: plain_coro_def owned_stack_def testb_def TESTBIT_def)
  have h: "ht_wf (cid_co_map ?sc)" "ht_abs (cid_co_map ?sc) (cid ?co) = Some 8" using htable_one_ok by simp_all
  have b: "hb_at (cid_co_map ?sc) (cid ?co) = Some ?b" by (simp add: hb_at_def htable_one_def hidx_def)
  have "hcount (cid_co_map ?sc) = 1" by (simp add: htable_one_def)
  with killed_coroutine_release [OF p _ _ h(1) _ h(2) b, of 1] show ?thesis by (auto simp: key_ok_def)
qed

end
