(* ===== verification/Round_Robin.thy ===== *)
theory Round_Robin
  imports Run_Correct
begin

text \<open>
  Phases B and C of the main loop as a round: the scheduler and the coroutines of a queue take turns. A turn of a coroutine starts when
  the scheduler takes it from its queue and loads its context, and ends when it has switched back and, if it has come to its end or
  has been killed, been released. As long as coroutines only put others behind the queue, the phase runs those that were queued at its
  beginning, in order, as many as it allows.
\<close>

section \<open>A turn\<close>

text \<open>What the scheduler does before it loads the context of \<open>c\<close>, and what it does when \<open>c\<close> has switched back.\<close>

definition enter :: "addr \<Rightarrow> qid \<Rightarrow> addr \<Rightarrow> unit M" where
  "enter s q c =
     seq (sc_set s (\<lambda>sc. sc\<lparr>queues := TAILQ_REMOVE q c (queues sc)\<rparr>))
    (seq (co_set c (clrb COROUTINE_STATUS_READY))
    (bind (co_get c) (\<lambda>co0.
     seq (if testb COROUTINE_STATUS_NEW co0 then init_coro c else loadstk c)
    (seq (co_set c (\<lambda>co. co\<lparr>sched_count := sched_count co + 1\<rparr>))
         (sc_set s (curr_thread_update (\<lambda>_. c)))))))"

definition settle :: "addr \<Rightarrow> addr \<Rightarrow> int M" where
  "settle s c =
     seq (sc_set s (curr_thread_update (\<lambda>_. NULL)))
    (bind (co_get c) (\<lambda>co.
       if testb COROUTINE_STATUS_KILLED co
       then seq (schedule_cancel_sleep c)
           (seq (htable_delete_with_freecb (cid_map_of s) (cid_map_put s) coro_abort (cid co)) (ret (- 1)))
       else if testb COROUTINE_STATUS_EXITED co
       then seq (schedule_cancel_sleep c)
           (seq (if testb COROUTINE_FLAGS_INCOROPOOL co then dyco_coropool_return c else freecoro c) (ret (- 1)))
       else ret 0))"

definition leave :: "nat \<Rightarrow> qid \<Rightarrow> nat \<Rightarrow> addr \<Rightarrow> addr \<Rightarrow> addr \<Rightarrow> int option M" where
  "leave fuel q k s lastco c =
     bind (serve_calls fuel s c) (\<lambda>back.
     seq (if \<not> back then ret (1 :: int) else settle s c)
     (bind (sc_get s) (\<lambda>sc'.
        if sc_status sc' = SCHEDULE_STATUS_STOPPED then ret (Some 1)
        else if sc_status sc' = SCHEDULE_STATUS_ABORTED then ret (Some (- 1))
        else if c = lastco then ret None
        else process_queue fuel q k s lastco)))"

lemma process_queue_enter:
  assumes "scheds w s = Some sc" and "\<not> TAILQ_EMPTY q (queues sc)" and "TAILQ_FIRST q (queues sc) = c"
    and "cos w c = Some co" and "co_sched co = s" and "enter s q c w = Done () w1"
  shows "process_queue fuel q (Suc k) s l w = Swap SchedCtx (CoCtx c) w1 (leave fuel q k s l c)"
proof -
  have "process_queue fuel q (Suc k) s l w = seq (enter s q c) (seq (swapcontext SchedCtx (CoCtx c)) (leave fuel q k s l c)) w"
    using assms(1-5) by (simp add: enter_def leave_def [abs_def] settle_def resume_def Let_def split del: if_split cong del: if_weak_cong)
  then show ?thesis
    by (simp add: seq_Done [where m = "enter s q c", OF assms(6)])
qed

text \<open>
  Where \<open>c\<close> goes on when its context is loaded: at the beginning of its function, or where it last switched.
\<close>

definition goes_on :: "(nat \<Rightarrow> addr \<Rightarrow> unit M) \<Rightarrow> konts \<Rightarrow> world \<Rightarrow> addr \<Rightarrow> (world, int) outcome option" where
  "goes_on prog ks w c =
     (case entry prog w (CoCtx c) of Some body \<Rightarrow> Some (body w) | None \<Rightarrow> map_option (\<lambda>k. k w) (ks (CoCtx c)))"

text \<open>
  A turn of \<open>c\<close>, the first one of queue \<open>q\<close>: it runs until it switches to the scheduler, without an open scheduler call; if it is
  killed or has come to its end it is released. The turn may put coroutines \<open>ys\<close> behind the queue and do anything else that leaves
  the scheduler running.
\<close>

definition turn ::
    "(nat \<Rightarrow> addr \<Rightarrow> unit M) \<Rightarrow> addr \<Rightarrow> qid \<Rightarrow> konts \<Rightarrow> world \<Rightarrow> addr \<Rightarrow> addr list \<Rightarrow> addr list \<Rightarrow> konts \<Rightarrow> world \<Rightarrow> bool" where
  "turn prog s q ks w c xs ys ks' w' \<longleftrightarrow>
     (\<exists>sc f co w1 w2 k co2 r sc2 f2.
        scheds w s = Some sc \<and> tq_both (queues sc) f \<and> f q = c # xs \<and> cos w c = Some co \<and> co_sched co = s
        \<and> enter s q c w = Done () w1 \<and> goes_on prog ks w1 c = Some (Swap (CoCtx c) SchedCtx w2 k)
        \<and> cos w2 c = Some co2 \<and> \<not> testb COROUTINE_STATUS_SCHEDCALL co2 \<and> settle s c (w2\<lparr>sigmask := sigmask w1\<rparr>) = Done r w'
        \<and> scheds w' s = Some sc2 \<and> sc_status sc2 \<noteq> SCHEDULE_STATUS_STOPPED \<and> sc_status sc2 \<noteq> SCHEDULE_STATUS_ABORTED
        \<and> tq_both (queues sc2) f2 \<and> f2 q = xs @ ys
        \<and> ks' = ks(CoCtx c \<mapsto> (\<lambda>v. k (v\<lparr>sigmask := sigmask w2\<rparr>))))"

text \<open>What is saved for the scheduler itself does not matter between turns: it is saved anew at every turn.\<close>

definition same_coroutines :: "konts \<Rightarrow> konts \<Rightarrow> bool" where
  "same_coroutines ks ks' \<longleftrightarrow> (\<forall>t. t \<noteq> SchedCtx \<longrightarrow> ks t = ks' t)"

lemma leave_settle:
  assumes "cos w c = Some co" and "\<not> testb COROUTINE_STATUS_SCHEDCALL co" and "settle s c w = Done r w'" and "scheds w' s = Some sc"
    and "sc_status sc \<noteq> SCHEDULE_STATUS_STOPPED" and "sc_status sc \<noteq> SCHEDULE_STATUS_ABORTED"
  shows "leave (Suc fuel) q k s l c w = (if c = l then Done None w' else process_queue (Suc fuel) q k s l w')"
  using assms by (simp add: leave_def seq_Done [where m = "settle s c", OF assms(3)] ret_def)

lemma leave_run:
  assumes "cos w c = Some co" and "\<not> testb COROUTINE_STATUS_SCHEDCALL co" and "\<not> testb COROUTINE_STATUS_KILLED co"
    and "\<not> testb COROUTINE_STATUS_EXITED co" and "scheds w s = Some sc" and "sc_status sc \<noteq> SCHEDULE_STATUS_STOPPED"
    and "sc_status sc \<noteq> SCHEDULE_STATUS_ABORTED"
  defines "w' \<equiv> w\<lparr>scheds := (scheds w)(s \<mapsto> sc\<lparr>curr_thread := NULL\<rparr>)\<rparr>"
  shows "leave (Suc fuel) q k s l c w = (if c = l then Done None w' else process_queue (Suc fuel) q k s l w')"
  by (rule leave_settle [OF assms(1,2), where r = 0 and sc = "sc\<lparr>curr_thread := NULL\<rparr>"])
    (use assms(1-7) in \<open>simp_all add: w'_def settle_def ret_def\<close>)

text \<open>
  A turn as the machine sees it: the scheduler prepares \<open>c\<close>, which is the first of its queue, loads its context, \<open>c\<close> runs until it
  switches back, and what the scheduler does then ends in \<open>w'\<close>.
\<close>

lemma machine_step:
  assumes "scheds w s = Some sc" and "\<not> TAILQ_EMPTY q (queues sc)" and "TAILQ_FIRST q (queues sc) = c"
    and "cos w c = Some co" and "co_sched co = s" and "enter s q c w = Done () w1"
    and "goes_on prog ks w1 c = Some (Swap (CoCtx c) SchedCtx w2 k)"
    and "leave fuel q m s l c (w2\<lparr>sigmask := sigmask w1\<rparr>) = (if c = l then Done None w' else process_queue fuel q m s l w')"
    and "same_coroutines ks0 ks"
  shows "\<exists>ks1. same_coroutines ks1 (ks(CoCtx c \<mapsto> (\<lambda>v. k (v\<lparr>sigmask := sigmask w2\<rparr>)))) \<and>
    machine prog (Suc (Suc n)) ks0 (bind (process_queue fuel q (Suc m) s l) g w) =
    machine prog n ks1 (if c = l then g None w' else bind (process_queue fuel q m s l) g w')"
proof -
  let ?K = "bind (leave fuel q m s l c) g"
  let ?ks1 = "save_context SchedCtx ?K w1 ks0"
  let ?ks2 = "save_context (CoCtx c) k w2 ?ks1"
  from process_queue_enter [OF assms(1-6), of fuel m l]
  have "bind (process_queue fuel q (Suc m) s l) g w = Swap SchedCtx (CoCtx c) w1 ?K"
    by (rule bind_Swap [where m = "process_queue fuel q (Suc m) s l"])
  moreover have "goes_on prog ?ks1 w1 c = Some (Swap (CoCtx c) SchedCtx w2 k)"
    using assms(7,9) by (simp add: goes_on_def save_context_def same_coroutines_def split: option.splits)
  ultimately have "machine prog (Suc (Suc n)) ks0 (bind (process_queue fuel q (Suc m) s l) g w)
      = machine prog (Suc n) ?ks1 (Swap (CoCtx c) SchedCtx w2 k)"
    by (auto simp: goes_on_def split: option.splits)
  also have "\<dots> = machine prog n ?ks2 (?K (w2\<lparr>sigmask := sigmask w1\<rparr>))"
    by (simp add: entry_def save_context_def)
  also have "?K (w2\<lparr>sigmask := sigmask w1\<rparr>) = (if c = l then g None w' else bind (process_queue fuel q m s l) g w')"
    using assms(8) by (simp add: bind_def)
  finally have "machine prog (Suc (Suc n)) ks0 (bind (process_queue fuel q (Suc m) s l) g w) =
      machine prog n ?ks2 (if c = l then g None w' else bind (process_queue fuel q m s l) g w')" .
  moreover have "same_coroutines ?ks2 (ks(CoCtx c \<mapsto> (\<lambda>v. k (v\<lparr>sigmask := sigmask w2\<rparr>))))"
    using assms(9) by (simp add: same_coroutines_def save_context_def)
  ultimately show ?thesis by blast
qed

lemma machine_turn:
  assumes "turn prog s q ks w c xs ys ks' w'" and "same_coroutines ks0 ks"
  shows "\<exists>ks1. same_coroutines ks1 ks' \<and> machine prog (Suc (Suc n)) ks0 (bind (process_queue (Suc fuel) q (Suc m) s l) g w) =
    machine prog n ks1 (if c = l then g None w' else bind (process_queue (Suc fuel) q m s l) g w')"
proof -
  from assms(1) obtain sc f co w1 w2 k co2 r sc2 where
    t: "scheds w s = Some sc" "tq_both (queues sc) f" "f q = c # xs" "cos w c = Some co" "co_sched co = s"
      "enter s q c w = Done () w1" "goes_on prog ks w1 c = Some (Swap (CoCtx c) SchedCtx w2 k)"
    and b: "cos w2 c = Some co2" "\<not> testb COROUTINE_STATUS_SCHEDCALL co2" "settle s c (w2\<lparr>sigmask := sigmask w1\<rparr>) = Done r w'"
      "scheds w' s = Some sc2" "sc_status sc2 \<noteq> SCHEDULE_STATUS_STOPPED" "sc_status sc2 \<noteq> SCHEDULE_STATUS_ABORTED"
    and ks': "ks' = ks(CoCtx c \<mapsto> (\<lambda>v. k (v\<lparr>sigmask := sigmask w2\<rparr>)))"
    unfolding turn_def by blast
  have q: "\<not> TAILQ_EMPTY q (queues sc)" "TAILQ_FIRST q (queues sc) = c"
    using tailq.isempty_law [OF t(2)] tailq.front_law [OF t(2)] t(3) by simp_all
  have "leave (Suc fuel) q m s l c (w2\<lparr>sigmask := sigmask w1\<rparr>) = (if c = l then Done None w' else process_queue (Suc fuel) q m s l w')"
    by (rule leave_settle [OF _ b(2-6)]) (use b(1) in simp)
  from machine_step [OF t(1) q t(4-7) this assms(2)] show ?thesis unfolding ks' .
qed

section \<open>A round\<close>

text \<open>
  Turns one after the other: \<open>turns prog s q ks w xs cs zs ks' w'\<close> when the coroutines \<open>cs\<close> take turns, in this order, and the queue
  holds \<open>xs\<close> before and \<open>zs\<close> after them.
\<close>

inductive turns ::
    "(nat \<Rightarrow> addr \<Rightarrow> unit M) \<Rightarrow> addr \<Rightarrow> qid \<Rightarrow> konts \<Rightarrow> world \<Rightarrow> addr list \<Rightarrow> addr list \<Rightarrow> addr list \<Rightarrow> konts \<Rightarrow> world \<Rightarrow> bool"
  for prog s q where
  turns_Nil: "turns prog s q ks w xs [] xs ks w"
| turns_Cons: "turn prog s q ks w c xs ys ks1 w1 \<Longrightarrow> turns prog s q ks1 w1 (xs @ ys) cs zs ks2 w2 \<Longrightarrow>
    turns prog s q ks w (c # xs) (c # cs) zs ks2 w2"

lemma turns_order:
  assumes "turns prog s q ks w xs cs zs ks' w'" and "length cs \<le> length xs"
  shows "cs = take (length cs) xs \<and> (\<exists>new. zs = drop (length cs) xs @ new)"
  using assms
proof (induction rule: turns.induct)
  case (turns_Cons ks w c xs ys ks1 w1 cs zs ks2 w2)
  then show ?case by fastforce
qed simp

text \<open>The phase goes on until \<open>l\<close> has had its turn or \<open>k\<close> turns are over.\<close>

lemma machine_turns:
  assumes "turns prog s q ks w xs cs zs ks' w'" and "cs \<noteq> []" and "l \<notin> set (butlast cs)" and "length cs \<le> k" and "last cs = l \<or> length cs = k"
    and "same_coroutines ks0 ks"
  shows "\<exists>ks1. same_coroutines ks1 ks' \<and> machine prog (2 * length cs + n) ks0 (bind (process_queue (Suc fuel) q k s l) g w)
    = machine prog n ks1 (g None w')"
  using assms
proof (induction arbitrary: k ks0 rule: turns.induct)
  case (turns_Cons ks w c xs ys ks1 w1 cs zs ks2 w2)
  then obtain m where k: "k = Suc m" by (cases k) auto
  have len: "2 * length (c # cs) + n = Suc (Suc (2 * length cs + n))" by simp
  from machine_turn [OF turns_Cons.hyps(1) turns_Cons.prems(5), of "2 * length cs + n" fuel m l g] obtain ks3 where
    k3: "same_coroutines ks3 ks1" "machine prog (2 * length (c # cs) + n) ks0 (bind (process_queue (Suc fuel) q k s l) g w) =
      machine prog (2 * length cs + n) ks3 (if c = l then g None w1 else bind (process_queue (Suc fuel) q m s l) g w1)"
    unfolding len k by blast
  show ?case
  proof (cases "cs = []")
    case True
    then have "ks2 = ks1" "w2 = w1" using turns_Cons.hyps(2) by (auto elim: turns.cases)
    moreover have "bind (process_queue (Suc fuel) q 0 s l) g w1 = g None w1" by (simp add: bind_def ret_def)
    moreover have "c = l \<or> m = 0" using turns_Cons.prems(4) True k by auto
    ultimately show ?thesis using k3 True by (auto simp del: process_queue.simps)
  next
    case False
    then have "c \<noteq> l" "l \<notin> set (butlast cs)" "last cs = l \<or> length cs = m" "length cs \<le> m" using turns_Cons.prems(2-4) k by auto
    moreover from turns_Cons.IH [OF False this(2,4,3) k3(1)] obtain ks4 where
      "same_coroutines ks4 ks2" "machine prog (2 * length cs + n) ks3 (bind (process_queue (Suc fuel) q m s l) g w1) = machine prog n ks4 (g None w2)" by blast
    ultimately show ?thesis using k3(2) by auto
  qed
qed simp

text \<open>
  C7: a phase of the main loop is fair. Suppose that the coroutines of a queue that is not empty take turns in which none of them makes a scheduler call
  (they may wait, sleep, come to their end or be killed), the scheduler is neither stopped nor aborted, and the queue changes only in
  that others are put behind it. Of the coroutines queued at the beginning, the first \<open>k\<close> run, where \<open>k\<close> is the number of turns the phase allows, or all
  of them if they are fewer: each once and in their order. Then the phase ends; the others of them and behind them exactly those who were queued meanwhile are
  left in the queue. Every turn takes two switches of contexts.
\<close>

theorem phase_is_fair:
  assumes "scheds w s = Some sc" and "tq_both (queues sc) f" and "f q \<noteq> []" and "0 < k"
    and "turns prog s q ks w (f q) cs zs ks' w'" and "length cs = min k (length (f q))"
  shows "cs = take k (f q) \<and> (\<exists>new. zs = drop k (f q) @ new) \<and> (\<exists>ks1. same_coroutines ks1 ks'
    \<and> machine prog (2 * length cs + n) ks (bind (process_queue (Suc fuel) q k s (TAILQ_LAST q (queues sc))) g w) = machine prog n ks1 (g None w'))"
proof -
  let ?l = "last (f q)"
  have "cs = take (length cs) (f q) \<and> (\<exists>new. zs = drop (length cs) (f q) @ new)"
    using turns_order [OF assms(5)] assms(6) by simp
  moreover have "take (length cs) (f q) = take k (f q)" "drop (length cs) (f q) = drop k (f q)" unfolding assms(6) by (simp_all add: min_def)
  ultimately have cs: "cs = take k (f q)" and zs: "\<exists>new. zs = drop k (f q) @ new" by simp_all
  have d: "distinct (f q)"
    using assms(2) by (cases q) (simp_all add: tq_both_def qid_all tq_rep_def)
  have ne: "cs \<noteq> []" using assms(3,4) by (simp add: cs)
  have f: "f q = butlast (f q) @ [?l]" using assms(3) by simp
  then have "?l \<notin> set (butlast (f q))" using d by (metis distinct_append disjoint_insert(2) list.simps(15) inf_commute)
  moreover have "set (butlast cs) \<subseteq> set (butlast (f q))"
    unfolding cs by (cases "k < length (f q)") (auto simp: butlast_take take_butlast [symmetric] dest: in_set_takeD)
  ultimately have "?l \<notin> set (butlast cs)" by blast
  moreover have "last cs = ?l \<or> length cs = k" using assms(6) cs by (auto simp: min_def split: if_splits)
  moreover have "TAILQ_LAST q (queues sc) = ?l"
    by (rule tailq.rear_law [OF assms(2,3)])
  ultimately show ?thesis
    using machine_turns [OF assms(5) ne, of ?l k ks n fuel g] assms(6) cs zs by (auto simp: same_coroutines_def simp del: process_queue.simps machine.simps)
qed

section \<open>An iteration of the main loop\<close>

text \<open>Phases C and D of an iteration, and the iterations after it.\<close>

definition from_d :: "nat \<Rightarrow> addr \<Rightarrow> int M" where
  "from_d fuel s = bind (schedule_epoll_wait fuel s) (\<lambda>(nready, events).
     seq (whenM (nready \<noteq> 0) (process_events events s)) (schedule_loop fuel s))"

definition from_c :: "nat \<Rightarrow> addr \<Rightarrow> int M" where
  "from_c fuel s = bind (sc_get s) (\<lambda>sc. bind (process_queue fuel QReady DYCO_URGENT_MAXWAIT s (TAILQ_LAST QReady (queues sc)))
     (\<lambda>r. case r of Some x \<Rightarrow> ret x | None \<Rightarrow> from_d fuel s))"

lemma bind_out_ret: "bind_out o1 ret = o1"
  by (induction o1) (simp_all add: ret_def)

lemma bind_right [simp]: "bind m ret = m"
  by (simp add: bind_def bind_out_ret fun_eq_iff)

lemma loop_phases:
  assumes "scheds w s = Some sc" "\<not> SCHEDULE_ISDONE sc" "probe_expired (Suc (length (inorder (sleeping sc)))) s w = Done () w1" "scheds w1 s = Some sc1"
  shows "bind (schedule_loop (Suc fuel) s) g w = bind (process_queue fuel QUrgent DYCO_URGENT_MAXEXEC s (TAILQ_LAST QUrgent (queues sc1)))
    (\<lambda>r. bind (case r of Some x \<Rightarrow> ret x | None \<Rightarrow> from_c fuel s) g) w1"
  using assms
  by (simp add: seq_Done [where m = "probe_expired (Suc (length (inorder (sleeping sc))))  s"] from_c_def [abs_def] from_d_def [abs_def]
      del: process_queue.simps probe_expired.simps cong: option.case_cong)

section \<open>Coroutines that only switch\<close>

lemma enter_run:
  assumes "scheds w s = Some sc" and "cos w c = Some co" and "\<not> testb COROUTINE_STATUS_NEW co" and "testb COROUTINE_FLAGS_OWNSTACK co"
  shows "enter s q c w = Done () (w\<lparr>scheds := (scheds w)(s \<mapsto> sc\<lparr>queues := TAILQ_REMOVE q c (queues sc), curr_thread := c\<rparr>),
    cos := (cos w)(c \<mapsto> (clrb COROUTINE_STATUS_READY co)\<lparr>sched_count := sched_count co + 1\<rparr>)\<rparr>)"
  using assms by (simp add: enter_def loadstk_def assign_def modify_def)

text \<open>A coroutine with a stack of its own that gives up control at once, without registering for anything.\<close>

definition idle :: "addr \<Rightarrow> dyco_coroutine \<Rightarrow> bool" where
  "idle s co \<longleftrightarrow> co_sched co = s \<and> co_ctx co = CtxSaved \<and> testb COROUTINE_FLAGS_OWNSTACK co \<and> \<not> testb COROUTINE_STATUS_NEW co
     \<and> \<not> testb COROUTINE_STATUS_SCHEDCALL co \<and> \<not> testb COROUTINE_STATUS_KILLED co \<and> \<not> testb COROUTINE_STATUS_EXITED co"

lemma idle_turn:
  assumes "scheds w s = Some sc" and "tq_both (queues sc) f" and "f q = c # xs" and "cos w c = Some co" and "idle s co"
    and "ks (CoCtx c) = Some (seq (swap_to_sched c) h)" and "sc_status sc = SCHEDULE_STATUS_RUNNING"
  shows "\<exists>ks' w' sc'. turn prog s q ks w c xs [] ks' w' \<and> scheds w' s = Some sc' \<and> tq_both (queues sc') (f(q := xs))
    \<and> sc_status sc' = SCHEDULE_STATUS_RUNNING \<and> sched_key w' = sched_key w \<and> (\<forall>d. d \<noteq> c \<longrightarrow> cos w' d = cos w d \<and> ks' (CoCtx d) = ks (CoCtx d))"
proof -
  let ?co1 = "(clrb COROUTINE_STATUS_READY co)\<lparr>sched_count := sched_count co + 1\<rparr>"
  let ?sc1 = "sc\<lparr>queues := TAILQ_REMOVE q c (queues sc), curr_thread := c\<rparr>"
  define w1 where "w1 = w\<lparr>scheds := (scheds w)(s \<mapsto> ?sc1), cos := (cos w)(c \<mapsto> ?co1)\<rparr>"
  define w2 where "w2 = w1\<lparr>cos := (cos w1)(c \<mapsto> ?co1\<lparr>co_ctx := CtxSaved\<rparr>)\<rparr>"
  let ?ks' = "ks(CoCtx c \<mapsto> (\<lambda>v. h (v\<lparr>sigmask := sigmask w2\<rparr>)))"
  let ?sc' = "?sc1\<lparr>curr_thread := NULL\<rparr>"
  let ?w' = "w2\<lparr>sigmask := sigmask w1, scheds := (scheds w2)(s \<mapsto> ?sc')\<rparr>"
  have q: "tq_both (queues ?sc1) (f(q := xs))"
    using tailq.pop_law [OF assms(2,3)] by simp
  have "enter s q c w = Done () w1"
    using enter_run [OF assms(1,4)] assms(5) by (simp add: idle_def w1_def)
  moreover have "goes_on prog ks w1 c = Some (Swap (CoCtx c) SchedCtx w2 h)"
    using assms(5,6) by (simp add: goes_on_def entry_def w1_def w2_def idle_def swap_to_sched_def)
  moreover have "cos w2 c = Some (?co1\<lparr>co_ctx := CtxSaved\<rparr>)" "scheds w2 s = Some ?sc1"
    by (simp_all add: w1_def w2_def)
  moreover from this have "settle s c (w2\<lparr>sigmask := sigmask w1\<rparr>) = Done 0 ?w'"
    using assms(5) by (simp add: settle_def idle_def ret_def)
  ultimately have "turn prog s q ks w c xs [] ?ks' ?w'"
    unfolding turn_def using assms(1-5,7) q
    by (intro exI [of _ sc] exI [of _ f] exI [of _ co] exI [of _ w1] exI [of _ w2] exI [of _ h] exI [of _ "?co1\<lparr>co_ctx := CtxSaved\<rparr>"]
        exI [of _ 0] exI [of _ ?sc'] exI [of _ "f(q := xs)"]) (simp add: idle_def)
  then show ?thesis
    using q assms(7) by (intro exI [of _ ?ks'] exI [of _ ?w'] exI [of _ ?sc']) (simp add: w1_def w2_def)
qed

definition idler :: dyco_coroutine where
  "idler = setb COROUTINE_FLAGS_OWNSTACK (co0\<lparr>co_ctx := CtxSaved\<rparr>)"

definition sched_idle :: dyco_schedule where
  "sched_idle = zero_schedule\<lparr>sc_status := SCHEDULE_STATUS_RUNNING,
     queues := TAILQ_INSERT_TAIL QReady 8 (TAILQ_INSERT_TAIL QReady 7 (queues zero_schedule))\<rparr>"

definition world_idle :: world where
  "world_idle = world0 [7 \<mapsto> idler, 8 \<mapsto> idler] sched_idle"

lemma idler_idle: "idle 1 idler"
  by (simp add: idle_def idler_def testb_status_zero)

lemma sched_idle_queues: "tq_both (queues sched_idle) ((\<lambda>_. [])(QReady := [7, 8]))"
proof -
  have "tq_both (queues zero_schedule) (\<lambda>_. [])"
    by (simp add: zero_schedule_def tq_both_def tq_rep_def)
  from tailq.push_law [OF this, of 7 QReady]
  have "tq_both (TAILQ_INSERT_TAIL QReady 7 (queues zero_schedule)) ((\<lambda>_. [])(QReady := [7]))" by simp
  from tailq.push_law [OF this, of 8 QReady] show ?thesis by (simp add: sched_idle_def)
qed

definition idle_konts :: konts where
  "idle_konts = [CoCtx 7 \<mapsto> seq (swap_to_sched 7) (ret 0), CoCtx 8 \<mapsto> seq (swap_to_sched 8) (ret 0)]"

theorem phase_is_fair_witness:
  "\<exists>ks' w' ks1. turns (\<lambda>_ _. ret ()) 1 QReady idle_konts world_idle [7, 8] [7, 8] [] ks' w'
     \<and> machine (\<lambda>_ _. ret ()) 4 idle_konts (bind (process_queue 1 QReady 128 1 8) (\<lambda>_. ret 0) world_idle) = machine (\<lambda>_ _. ret ()) 0 ks1 (ret 0 w')"
proof -
  let ?prog = "\<lambda>_ _. ret () :: unit M"
  let ?sc = sched_idle
  let ?f = "(\<lambda>_. [])(QReady := [7, 8 :: addr])"
  note idle = idler_idle and f = sched_idle_queues
  have s: "scheds world_idle 1 = Some ?sc" by (simp add: world_idle_def)
  from idle_turn [OF s f, of QReady 7 "[8]" idler idle_konts "ret 0" ?prog] idle obtain ks1 w1 sc1 where
    t1: "turn ?prog 1 QReady idle_konts world_idle 7 [8] [] ks1 w1" "scheds w1 1 = Some sc1" "tq_both (queues sc1) (?f(QReady := [8]))"
      "sc_status sc1 = SCHEDULE_STATUS_RUNNING" "cos w1 8 = Some idler" "ks1 (CoCtx 8) = Some (seq (swap_to_sched 8) (ret 0))"
    by (auto simp: world_idle_def idle_konts_def sched_idle_def)
  from idle_turn [OF t1(2,3), of QReady 8 "[]" idler ks1 "ret 0" ?prog] t1 idle obtain ks2 w2 where
    t2: "turn ?prog 1 QReady ks1 w1 8 [] [] ks2 w2" by auto
  have "turns ?prog 1 QReady ks1 w1 [8] [8] [] ks2 w2"
    using turns_Cons [OF t2, of "[]" "[]"] turns_Nil [of ?prog 1 QReady ks2 w2 "[]"] by simp
  then have t: "turns ?prog 1 QReady idle_konts world_idle [7, 8] [7, 8] [] ks2 w2"
    using turns_Cons [OF t1(1), of "[8]" "[]" ks2 w2] by simp
  have l: "TAILQ_LAST QReady (queues ?sc) = 8"
    using tailq.rear_law [OF f, of QReady] by simp
  have "[7, 8 :: addr] = take 128 (?f QReady) \<and> (\<exists>new. [] = drop 128 (?f QReady) @ new) \<and> (\<exists>ks1. same_coroutines ks1 ks2 \<and> machine ?prog (2 * length [7, 8 :: addr] + 0) idle_konts
      (bind (process_queue (Suc 0) QReady 128 1 (TAILQ_LAST QReady (queues ?sc))) (\<lambda>_. ret 0) world_idle) = machine ?prog 0 ks1 (ret 0 w2))"
    by (rule phase_is_fair [OF s f]) (use t in simp_all)
  then show ?thesis
    using t unfolding l by (auto simp del: machine.simps process_queue.simps)
qed

end
