(* ===== verification/Dyco_Notify.thy ===== *)
theory Dyco_Notify
  imports Dyco_Coroutine
begin

text \<open>
  What the communication primitives share: the check that the caller is a coroutine of a scheduler, the five
  calls with which a coroutine waits for a descriptor with a time limit, and the loops over lists of
  event counters (\<^verbatim>\<open>struct notifylist\<close>).
\<close>

abbreviation "nd_get \<equiv> deref lnodes"
abbreviation "nd_set \<equiv> assign lnodes lnodes_update"

text \<open>
  \<^verbatim>\<open>sched = get_sched(); if (sched == NULL) return ..; co = sched->curr_thread; if (co == NULL) return ..;\<close>
  where \<open>otherwise\<close> stands for what is returned.
\<close>

definition with_current :: "'a M \<Rightarrow> (addr \<Rightarrow> 'a M) \<Rightarrow> 'a M" where
  "with_current otherwise k =
    bind get_sched (\<lambda>s.
      if s = NULL then otherwise
      else bind (sc_get s) (\<lambda>sc. if curr_thread sc = NULL then otherwise else k (curr_thread sc)))"

text \<open>
  \<^verbatim>\<open>schedule_sched_waitR(co, fd); schedule_sched_sleep(co, timeout); yield(co);
  schedule_cancel_sleep(co); schedule_cancel_wait(co, fd);\<close>
\<close>

definition park :: "addr \<Rightarrow> fd \<Rightarrow> int \<Rightarrow> unit M" where
  "park c n timeout =
    seq (schedule_sched_waitR c n)
   (seq (schedule_sched_sleep c timeout)
   (seq (yield c)
   (seq (schedule_cancel_sleep c)
   (seq (schedule_cancel_wait c n)
        (ret ())))))"

text \<open>An acyclic list has at most as many nodes as objects were allocated; that is the fuel of the loops below.\<close>

definition list_fuel :: "nat M" where
  "list_fuel = asks (\<lambda>w. Suc (nalloc (heap w)))"

text \<open>A function applied to the descriptor of every node in turn.\<close>

fun each_node :: "(fd \<Rightarrow> unit M) \<Rightarrow> nat \<Rightarrow> addr \<Rightarrow> unit M" where
  "each_node f 0 p = fail NoFuel"
| "each_node f (Suc n) p =
    (if p = NULL then ret ()
     else bind (nd_get p) (\<lambda>x. seq (f (notifyfd x)) (each_node f n (nl_next x))))"

text \<open>
  The loop that takes the node with descriptor \<open>n\<close> out of the list behind \<open>pre\<close>, closes the
  descriptor and frees the node.
\<close>

fun unsubscribe :: "nat \<Rightarrow> addr \<Rightarrow> addr \<Rightarrow> fd \<Rightarrow> unit M" where
  "unsubscribe 0 pre p n = fail NoFuel"
| "unsubscribe (Suc k) pre p n =
    (if p = NULL then ret ()
     else bind (nd_get p) (\<lambda>x.
       if notifyfd x = n
       then seq (nd_set pre (nl_next_update (\<lambda>_. nl_next x)))
           (seq (close (notifyfd x))
                (dispose lnodes lnodes_update p))
       else unsubscribe k p (nl_next x) n))"

end
