(* ===== verification/Run_Eval.thy ===== *)
theory Run_Eval
  imports Dyco_Run Dyco_Notify Timer_Correct
begin

text \<open>
  Evaluation of whole runs in the logic: a concrete world with one scheduler and one new coroutine on
  its ready queue, and the equations and congruence rules with which \<open>simp\<close> executes the machine on it.
  The congruence rules keep the simplifier out of the continuations until they run.
\<close>

section \<open>Evaluation rules\<close>

lemma seq_later: "m = m' \<Longrightarrow> seq m k = seq m' k"
  by simp

lemma bind_later: "m = m' \<Longrightarrow> bind m k = bind m' k"
  by simp

lemma Swap_later: "s = s' \<Longrightarrow> Swap f t s k = Swap f t s' k"
  by simp

lemma seq_deref: "seq (deref sel p) k w = (case sel w p of None \<Rightarrow> Fault BadAccess | Some v \<Rightarrow> k w)"
  by (simp add: seq_def)

lemmas process_queue_numeral = process_queue.simps(2) [of _ _ "pred_numeral n" for n, folded numeral_eq_Suc]

lemmas run_later = seq_later bind_later Swap_later

lemmas run_eval = seq_deref process_queue_numeral DYCO_URGENT_MAXEXEC_def DYCO_URGENT_MAXWAIT_def dyco_schedule_run_def
  zero_schedule_def SCHEDULE_ISDONE_def HTABLE_EMPTY_def RB_EMPTY_def RB_MIN_def Let_def
  TAILQ_EMPTY_def TAILQ_INSERT_TAIL_def TAILQ_LAST_def TAILQ_FIRST_def TAILQ_REMOVE_def
  testb_def TESTBIT_def new_status_def BIT_def setb_def clrb_def SETBIT_def CLRBIT_def
  schedule_get_expired_def resume_def init_coro_def entry_def save_context_def execute_def yield_def checkstk_def swap_to_sched_def
  schedule_cancel_sleep_def freecoro_def map_delete_def htable_delete_def hb_at_def hidx_def hb_put_def
  schedule_epoll_wait_def schedule_min_timeout_def epoll_wait_f_def

section \<open>A scheduler with one new coroutine\<close>

definition sched1 :: dyco_schedule where
  "sched1 = zero_schedule\<lparr>sc_epollfd := 5, coro_count := 1, sc_stack := 50, sc_stack_size := 4096,
     cid_co_map := \<lparr>hwidth = 1, hmask = 1, hcount = 1, htable = TBuckets [hempty, \<lparr>bid = 1, bdata = 7, bnext = []\<rparr>]\<rparr>,
     fd_co_map := \<lparr>hwidth = 1, hmask = 1, hcount = 0, htable = TBuckets [hempty, hempty]\<rparr>,
     queues := TAILQ_INSERT_TAIL QReady 7 (queues zero_schedule)\<rparr>"

definition world1 :: world where
  "world1 = world0 [7 \<mapsto> co0\<lparr>co_status := new_status\<rparr>] sched1"

end
