(* ===== verification/Sleep_Turn.thy ===== *)
theory Sleep_Turn
  imports Round_Robin Run_Eval "HOL-Library.Multiset" "HOL-Library.Sublist"
begin

text \<open>
  Programs whose coroutines print and sleep, and what one turn of such a coroutine does: it prints its lines up to the next
  sleep and goes to the back of the ready queue or into the sleep tree, or comes to its end and is released. The invariant \<open>sleepy\<close> ties queues,
  tree, identifier map, count, stacks, saved contexts and wake-up times together, and every turn keeps it.
\<close>

section \<open>Programs that sleep\<close>

datatype act = Say "int \<Rightarrow> string" | Nap u32

text \<open>\<^verbatim>\<open>printf("... %d ...", dyco_coroutine_coroID())\<close> and \<^verbatim>\<open>dyco_coroutine_sleep(msecs)\<close>\<close>

definition print_line :: "string \<Rightarrow> unit M" where
  "print_line l = modify (\<lambda>w. w\<lparr>stdout := l # stdout w\<rparr>)"

primrec act_run :: "act \<Rightarrow> unit M" where
  "act_run (Say line) = bind dyco_coroutine_coroID (\<lambda>i. print_line (line i))"
| "act_run (Nap msecs) = dyco_coroutine_sleep msecs"

primrec script :: "act list \<Rightarrow> unit M" where
  "script [] = ret ()"
| "script (a # as) = seq (act_run a) (script as)"

primrec is_say :: "act \<Rightarrow> bool" where
  "is_say (Say line) = True"
| "is_say (Nap msecs) = False"

text \<open>The lines a coroutine with identifier \<open>i\<close> prints, and the output when it has printed those that come before the next sleep.\<close>

primrec lines :: "int \<Rightarrow> act list \<Rightarrow> string list" where
  "lines i [] = []"
| "lines i (a # as) = (case a of Say line \<Rightarrow> [line i] | Nap m \<Rightarrow> []) @ lines i as"

definition spoken :: "dyco_coroutine \<Rightarrow> act list \<Rightarrow> string list \<Rightarrow> string list" where
  "spoken co as out = rev (lines (sint (cid co)) (takeWhile is_say as)) @ out"

text \<open>The turns a script takes: one up to each sleep, and the last one up to its end.\<close>

definition turns_left :: "act list \<Rightarrow> nat" where
  "turns_left as = Suc (length (filter (Not \<circ> is_say) as))"

text \<open>
  A sleep of \<open>2 ^ 31\<close> milliseconds or more is passed on as a negative time, which sets no timer; one of \<open>2 ^ 29\<close> milliseconds or a multiple of it
  has 0 microseconds in 32 bits, and can get the key of a coroutine that has just been woken.
\<close>

definition nap_ok :: "u32 \<Rightarrow> bool" where
  "nap_ok m \<longleftrightarrow> m < 2 ^ 31 \<and> (m = 0 \<or> m * 1000 \<noteq> 0)"

definition naps_ok :: "act list \<Rightarrow> bool" where
  "naps_ok as = list_all (\<lambda>a. case a of Say l \<Rightarrow> True | Nap m \<Rightarrow> nap_ok m) as"

section \<open>A coroutine and the rest of its script\<close>

definition finish :: "addr \<Rightarrow> int M" where
  "finish c = seq (co_set c (setb COROUTINE_STATUS_EXITED)) (seq (yield c) (fail BadContext))"

definition goes_through :: "addr \<Rightarrow> act list \<Rightarrow> int M" where
  "goes_through c as = seq (co_set c (setb COROUTINE_STATUS_RUNNING)) (seq (script as) (finish c))"

definition plain_bits :: "dyco_coroutine_status list" where
  "plain_bits = [COROUTINE_FLAGS_ASYMMETRIC, COROUTINE_FLAGS_INCOROPOOL, COROUTINE_FLAGS_IOMULTIPLEXING, COROUTINE_FLAGS_WAITSIGNAL,
     COROUTINE_FLAGS_WAITING, COROUTINE_STATUS_SCHEDCALL, COROUTINE_STATUS_KILLED, COROUTINE_STATUS_EXITED]"

definition plain :: "addr \<Rightarrow> dyco_coroutine \<Rightarrow> bool" where
  "plain s co \<longleftrightarrow> co_sched co = s \<and> key_ok (cid co) \<and> (\<forall>b \<in> set plain_bits. \<not> testb b co)"

text \<open>
  The stack of a coroutine: one of its own, deep enough, or a buffer for the used part of the shared one. What it owns is
  allocated and not the shared stack.
\<close>

definition stack_ok :: "world \<Rightarrow> dyco_schedule \<Rightarrow> dyco_coroutine \<Rightarrow> bool" where
  "stack_ok w sc co \<longleftrightarrow>
     (owned_stack co \<noteq> NULL \<longrightarrow> owned_stack co \<noteq> sc_stack sc \<and> owned_stack co \<le> nalloc (heap w) \<and> bytes w (owned_stack co) \<noteq> None) \<and>
     (if testb COROUTINE_FLAGS_OWNSTACK co then \<forall>i. stkdepth (environ w) i \<le> co_stack_size co
      else co_stack co = owned_stack co \<and> saved_ok w co \<and> co_stack_size co \<le> sc_stack_size sc)"

definition own :: "world \<Rightarrow> addr \<Rightarrow> addr" where
  "own w c = (case cos w c of Some co \<Rightarrow> owned_stack co | None \<Rightarrow> NULL)"

text \<open>What \<open>c\<close> does when its context is loaded: go through \<open>as\<close>.\<close>

definition will_do :: "(nat \<Rightarrow> addr \<Rightarrow> act list) \<Rightarrow> konts \<Rightarrow> addr \<Rightarrow> dyco_coroutine \<Rightarrow> act list \<Rightarrow> bool" where
  "will_do scr ks c co as \<longleftrightarrow> naps_ok as \<and>
     (if testb COROUTINE_STATUS_NEW co then as = scr (co_func co) (co_arg co)
      else co_ctx co = CtxSaved \<and> (\<exists>m. ks (CoCtx c) = Some (\<lambda>v. goes_through c as (v\<lparr>sigmask := m\<rparr>))))"

text \<open>The parts of the world that stay as they are.\<close>

definition sched_fine :: "addr \<Rightarrow> dyco_schedule \<Rightarrow> world \<Rightarrow> bool" where
  "sched_fine s sc w \<longleftrightarrow> s \<noteq> NULL \<and> sched_key w = s \<and> scheds w s = Some sc \<and> sc_status sc = SCHEDULE_STATUS_RUNNING \<and> HTABLE_EMPTY (fd_co_map sc) \<and>
     ht_wf (cid_co_map sc) \<and> fds w (sc_epollfd sc) = Some (EpollFd []) \<and> plenty (heap w) \<and> sc_stack sc \<noteq> NULL \<and> sc_stack sc \<le> nalloc (heap w) \<and>
     (\<exists>shared. bytes w (sc_stack sc) = Some shared \<and> length shared = sc_stack_size sc) \<and>
     (\<forall>i. 0 < stkdepth (environ w) i \<and> stkdepth (environ w) i \<le> sc_stack_size sc)"

section \<open>What a coroutine does in its turn\<close>

lemma says_run:
  assumes "sched_key w = s" "s \<noteq> NULL" "scheds w s = Some sc" "curr_thread sc = c" "c \<noteq> NULL" "cos w c = Some co"
  shows "seq (script as) k w = seq (script (dropWhile is_say as)) k (w\<lparr>stdout := spoken co as (stdout w)\<rparr>)"
  using assms
proof (induction as arbitrary: w)
  case Nil
  show ?case by (simp add: spoken_def)
next
  case (Cons a as)
  show ?case
  proof (cases a)
    case (Nap m)
    show ?thesis by (simp add: Nap spoken_def)
  next
    case (Say line)
    let ?w = "w\<lparr>stdout := line (sint (cid co)) # stdout w\<rparr>"
    have "seq (script (a # as)) k w = seq (script as) k ?w"
      using Cons.prems Say by (simp add: dyco_coroutine_coroID_def print_line_def)
    moreover from Cons.IH [of ?w] Cons.prems have
      "seq (script as) k ?w = seq (script (dropWhile is_say as)) k (?w\<lparr>stdout := spoken co as (stdout ?w)\<rparr>)" by auto
    ultimately show ?thesis using Say by (simp add: spoken_def)
  qed
qed

lemma spoken_cid: "cid co = cid co' \<Longrightarrow> spoken co = spoken co'"
  by (simp add: spoken_def fun_eq_iff)

definition stack_limit :: "dyco_schedule \<Rightarrow> dyco_coroutine \<Rightarrow> nat" where
  "stack_limit sc co = (if testb COROUTINE_FLAGS_OWNSTACK co then co_stack_size co else sc_stack_size sc)"

lemma stack_limit_setb [simp]: "a \<noteq> COROUTINE_FLAGS_OWNSTACK \<Longrightarrow> stack_limit sc (setb a co) = stack_limit sc co"
  by (simp add: stack_limit_def)

lemma checkstk_run:
  assumes "cos w c = Some co" "scheds w (co_sched co) = Some sc"
    "stkdepth (environ w) (tick w) \<le> stack_limit sc co"
  shows "\<exists>r. checkstk c w = Done r (w\<lparr>tick := Suc (tick w)\<rparr>)"
  using assms by (auto simp: checkstk_def Let_def bind_def consult_def stack_limit_def)

lemma yield_exit:
  assumes "cos w c = Some co" "scheds w (co_sched co) = Some sc" "testb COROUTINE_STATUS_EXITED co"
    "stkdepth (environ w) (tick w) \<le> stack_limit sc co"
  shows "seq (yield c) k w = Swap (CoCtx c) SchedCtx
    (w\<lparr>tick := Suc (tick w), cos := (cos w)(c \<mapsto> (clrb COROUTINE_STATUS_RUNNING co)\<lparr>co_ctx := CtxSaved\<rparr>)\<rparr>)
    (seq (co_set c (setb COROUTINE_STATUS_RUNNING)) k)"
proof -
  from checkstk_run [OF assms(1,2,4)] obtain r where r: "checkstk c w = Done r (w\<lparr>tick := Suc (tick w)\<rparr>)" by blast
  show ?thesis
    using assms by (simp add: yield_def seq_Done [where m = "checkstk c", OF r] swap_to_sched_def)
qed

text \<open>
  What saving the stack of \<open>co\<close> leaves behind: the coroutine \<open>co1\<close> with its stack in the buffers \<open>b\<close>. A new buffer is at an address nobody
  used, and no other buffer is touched.
\<close>

definition stack_saved :: "world \<Rightarrow> dyco_schedule \<Rightarrow> dyco_coroutine \<Rightarrow> mem \<Rightarrow> (addr \<Rightarrow> byte list option) \<Rightarrow> dyco_coroutine \<Rightarrow> bool" where
  "stack_saved w sc co h b co1 \<longleftrightarrow>
     plenty h \<and> nalloc (heap w) \<le> nalloc h \<and> stack_ok (w\<lparr>heap := h, bytes := b\<rparr>) sc co1 \<and> b (sc_stack sc) = bytes w (sc_stack sc) \<and>
     (owned_stack co1 = owned_stack co \<or> nalloc (heap w) < owned_stack co1) \<and>
     (\<forall>p. p \<noteq> owned_stack co \<and> p \<noteq> owned_stack co1 \<longrightarrow> b p = bytes w p) \<and>
     co_sched co1 = co_sched co \<and> cid co1 = cid co \<and> sleep_usecs co1 = sleep_usecs co"

lemma savestk_keeps:
  assumes co: "cos w c = Some co" and sc: "scheds w (co_sched co) = Some sc" and st: "stack_ok w sc co" and f: "sched_fine (co_sched co) sc w"
  shows "\<exists>t h b co1. savestk c w = Done () (w\<lparr>tick := t, heap := h, bytes := b, cos := (cos w)(c \<mapsto> co1)\<rparr>) \<and> tick w \<le> t \<and> t \<le> Suc (tick w) \<and>
     stack_saved w sc co h b co1 \<and> (\<forall>a. a \<noteq> COROUTINE_FLAGS_ALLOCSTACKMEM \<longrightarrow> testb a co1 = testb a co)"
proof (cases "testb COROUTINE_FLAGS_OWNSTACK co")
  case True
  then have "savestk c w = Done () w" using co by (simp add: savestk_def)
  moreover have "w = w\<lparr>tick := tick w, heap := heap w, bytes := bytes w, cos := (cos w)(c \<mapsto> co)\<rparr>"
    using co by (simp add: fun_upd_idem)
  ultimately show ?thesis using st f
    by (intro exI [of _ "tick w"] exI [of _ "heap w"] exI [of _ "bytes w"] exI [of _ co]) (simp add: sched_fine_def stack_saved_def)
next
  case False
  from f obtain shared where sh: "bytes w (sc_stack sc) = Some shared" "length shared = sc_stack_size sc" by (auto simp: sched_fine_def)
  let ?n = "stkdepth (environ w) (tick w)"
  have n: "0 < ?n" "?n \<le> length shared" and m: "plenty (heap w)" "sc_stack sc \<le> nalloc (heap w)"
    using f sh(2) by (simp_all add: sched_fine_def)
  have ok: "saved_ok w co" "co_stack co = owned_stack co" using st False by (auto simp: stack_ok_def)
  have "sc_stack sc \<noteq> co_stack co"
    using st f ok(2) by (cases "co_stack co = NULL") (auto simp: stack_ok_def sched_fine_def)
  from savestk_run [OF co False sc sh(1) refl n ok(1) this m] obtain w1 co1 own where
    r: "savestk c w = Done () w1" "co1 = setb COROUTINE_FLAGS_ALLOCSTACKMEM (co\<lparr>co_stack := co_stack co1, co_stack_size := ?n\<rparr>)"
      "bytes w1 (co_stack co1) = Some own" "?n \<le> length own" "bytes w1 (sc_stack sc) = Some shared"
      "w1 = w\<lparr>tick := Suc (tick w), heap := heap w1, bytes := bytes w1, cos := (cos w)(c \<mapsto> co1)\<rparr>" "plenty (heap w1)"
      "nalloc (heap w) \<le> nalloc (heap w1)" "co_stack co1 \<noteq> NULL" "co_stack co1 \<le> nalloc (heap w1)"
      "co_stack co1 = co_stack co \<or> nalloc (heap w) < co_stack co1"
      "\<forall>p. p \<noteq> co_stack co \<and> p \<noteq> co_stack co1 \<longrightarrow> bytes w1 p = bytes w p" by blast
  obtain p where p: "co1 = setb COROUTINE_FLAGS_ALLOCSTACKMEM (co\<lparr>co_stack := p, co_stack_size := ?n\<rparr>)" "co_stack co1 = p"
    using r(2) by blast
  have own1: "owned_stack co1 = p" by (simp add: owned_stack_def p)
  have nown: "\<not> testb COROUTINE_FLAGS_OWNSTACK co1" using False by (simp add: p(1))
  have "stack_ok (w\<lparr>heap := heap w1, bytes := bytes w1\<rparr>) sc co1"
    using r(3-5,8-11) nown own1 p \<open>sc_stack sc \<noteq> co_stack co\<close> m(2) n sh by (auto simp: stack_ok_def saved_ok_def)
  moreover have "savestk c w = Done () (w\<lparr>tick := Suc (tick w), heap := heap w1, bytes := bytes w1, cos := (cos w)(c \<mapsto> co1)\<rparr>)"
    using r(1,6) by simp
  ultimately show ?thesis using r(5,7,8,11,12) sh(1) own1 p ok(2)
    by (intro exI [of _ "Suc (tick w)"] exI [of _ "heap w1"] exI [of _ "bytes w1"] exI [of _ co1]) (simp add: p(1) stack_saved_def)
qed

lemma stack_ok_fields [simp]:
  "stack_ok w sc (co\<lparr>co_ctx := x\<rparr>) = stack_ok w sc co" "stack_ok w sc (co\<lparr>sched_count := y\<rparr>) = stack_ok w sc co"
  "stack_ok w sc (co\<lparr>sleep_usecs := z\<rparr>) = stack_ok w sc co"
  "a \<noteq> COROUTINE_FLAGS_OWNSTACK \<Longrightarrow> a \<noteq> COROUTINE_FLAGS_ALLOCSTACKMEM \<Longrightarrow> stack_ok w sc (setb a co) = stack_ok w sc co"
  "a \<noteq> COROUTINE_FLAGS_OWNSTACK \<Longrightarrow> a \<noteq> COROUTINE_FLAGS_ALLOCSTACKMEM \<Longrightarrow> stack_ok w sc (clrb a co) = stack_ok w sc co"
  by (simp_all add: stack_ok_def owned_stack_def saved_ok_def)

lemma stack_ok_cong:
  "heap w' = heap w \<Longrightarrow> bytes w' = bytes w \<Longrightarrow> environ w' = environ w \<Longrightarrow> sc_stack sc' = sc_stack sc \<Longrightarrow>
    sc_stack_size sc' = sc_stack_size sc \<Longrightarrow> stack_ok w' sc' co = stack_ok w sc co"
  by (simp add: stack_ok_def saved_ok_def)

lemma stack_ok_world [simp]:
  "stack_ok (w\<lparr>tick := t\<rparr>) sc co = stack_ok w sc co" "stack_ok (w\<lparr>tick := t, heap := h, bytes := b\<rparr>) sc co = stack_ok (w\<lparr>heap := h, bytes := b\<rparr>) sc co"
  by (rule stack_ok_cong; simp)+

lemma owned_stack_fields [simp]:
  "owned_stack (co\<lparr>co_ctx := x\<rparr>) = owned_stack co" "owned_stack (co\<lparr>sched_count := y\<rparr>) = owned_stack co"
  "owned_stack (co\<lparr>sleep_usecs := z\<rparr>) = owned_stack co"
  "a \<noteq> COROUTINE_FLAGS_ALLOCSTACKMEM \<Longrightarrow> owned_stack (setb a co) = owned_stack co"
  "a \<noteq> COROUTINE_FLAGS_ALLOCSTACKMEM \<Longrightarrow> owned_stack (clrb a co) = owned_stack co"
  by (simp_all add: owned_stack_def)

lemma depth_ok:
  "sched_fine s sc w \<Longrightarrow> stack_ok w sc co \<Longrightarrow>
    stkdepth (environ w) i \<le> stack_limit sc co"
  by (simp add: stack_ok_def sched_fine_def stack_limit_def)

lemma yield_nap:
  assumes co: "cos w c = Some co" and sc: "scheds w (co_sched co) = Some sc" and st: "stack_ok w sc co" and f: "sched_fine (co_sched co) sc w"
    and run: "\<not> testb COROUTINE_STATUS_EXITED co"
  shows "\<exists>t h b co1. seq (yield c) k w = Swap (CoCtx c) SchedCtx (w\<lparr>tick := t, heap := h, bytes := b, cos := (cos w)(c \<mapsto> co1)\<rparr>)
      (seq (co_set c (setb COROUTINE_STATUS_RUNNING)) k) \<and> tick w < t \<and> t \<le> tick w + 2 \<and> stack_saved w sc co h b co1 \<and> co_ctx co1 = CtxSaved \<and>
     (\<forall>a. a \<noteq> COROUTINE_FLAGS_ALLOCSTACKMEM \<longrightarrow> testb a co1 = (a \<noteq> COROUTINE_STATUS_RUNNING \<and> testb a co))"
proof -
  let ?w = "w\<lparr>tick := Suc (tick w)\<rparr>"
  from checkstk_run [OF co sc depth_ok [OF f st]] obtain r where r: "checkstk c w = Done r ?w" by blast
  have f1: "sched_fine (co_sched co) sc ?w" and st1: "stack_ok ?w sc co" using f st by (simp_all add: sched_fine_def)
  have "cos ?w c = Some co" "scheds ?w (co_sched co) = Some sc" using co sc by simp_all
  from savestk_keeps [OF this st1 f1] obtain t h b co1 where
    s: "savestk c ?w = Done () (?w\<lparr>tick := t, heap := h, bytes := b, cos := (cos w)(c \<mapsto> co1)\<rparr>)" "Suc (tick w) \<le> t" "t \<le> Suc (Suc (tick w))"
      "stack_saved ?w sc co h b co1" "\<forall>a. a \<noteq> COROUTINE_FLAGS_ALLOCSTACKMEM \<longrightarrow> testb a co1 = testb a co" by auto
  let ?co = "(clrb COROUTINE_STATUS_RUNNING co1)\<lparr>co_ctx := CtxSaved\<rparr>"
  have sch: "co_sched co1 = co_sched co" using s(4) by (simp add: stack_saved_def)
  have "seq (yield c) k w = Swap (CoCtx c) SchedCtx (w\<lparr>tick := t, heap := h, bytes := b, cos := (cos w)(c \<mapsto> ?co)\<rparr>)
      (seq (co_set c (setb COROUTINE_STATUS_RUNNING)) k)"
    using co sc run sch by (simp add: yield_def seq_Done [where m = "checkstk c", OF r] seq_Done [where m = "savestk c", OF s(1)] swap_to_sched_def)
  moreover have "stack_saved w sc co h b ?co" using s(4) by (simp add: stack_saved_def)
  ultimately show ?thesis using s(2,3,5)
    by (intro exI [of _ t] exI [of _ h] exI [of _ b] exI [of _ ?co]) auto
qed

section \<open>The invariant of a run\<close>

definition elapsed :: "env \<Rightarrow> u64 \<Rightarrow> nat \<Rightarrow> nat" where
  "elapsed e b i = unat (diff_usecs b (clk e i))"

text \<open>
  From the \<open>m\<close>-th question to the environment to the \<open>n\<close>-th the clock never goes back, it moves on by a microsecond at least whenever \<open>K\<close> questions have
  been asked (a reading may repeat as long as it does not do so for ever), and the time since the scheduler was made stays in the lower half of its type.
\<close>

definition clock_runs :: "nat \<Rightarrow> env \<Rightarrow> u64 \<Rightarrow> nat \<Rightarrow> nat \<Rightarrow> bool" where
  "clock_runs K e b m n \<longleftrightarrow> (\<forall>i. m \<le> i \<and> i < n \<longrightarrow> elapsed e b i \<le> elapsed e b (Suc i)) \<and>
     (\<forall>i. m \<le> i \<and> i + K \<le> n \<longrightarrow> elapsed e b i < elapsed e b (i + K)) \<and> elapsed e b n < 2 ^ 63"

lemma clock_runs_later: "clock_runs K e b m n \<Longrightarrow> m \<le> m' \<Longrightarrow> clock_runs K e b m' n"
  by (auto simp: clock_runs_def)

definition sleepers_of :: "dyco_schedule \<Rightarrow> addr set" where
  "sleepers_of sc = set (inorder (sleeping sc))"

definition members :: "(qid \<Rightarrow> addr list) \<Rightarrow> dyco_schedule \<Rightarrow> addr set" where
  "members f sc = set (f QReady) \<union> set (f QUrgent) \<union> sleepers_of sc"

definition live :: "(nat \<Rightarrow> addr \<Rightarrow> act list) \<Rightarrow> addr \<Rightarrow> konts \<Rightarrow> (addr \<Rightarrow> act list) \<Rightarrow> addr set \<Rightarrow> dyco_schedule \<Rightarrow> world \<Rightarrow> bool" where
  "live scr s ks rest M sc w \<longleftrightarrow> (\<forall>c \<in> M. \<exists>co. cos w c = Some co \<and> c \<noteq> NULL \<and> plain s co \<and> stack_ok w sc co \<and>
     will_do scr ks c co (rest c) \<and> testb COROUTINE_STATUS_SLEEPING co = (c \<in> sleepers_of sc))"

definition apart :: "addr set \<Rightarrow> world \<Rightarrow> bool" where
  "apart M w \<longleftrightarrow> (\<forall>c \<in> M. \<forall>d \<in> M. c \<noteq> d \<and> own w c \<noteq> NULL \<longrightarrow> own w c \<noteq> own w d)"

definition registered :: "addr set \<Rightarrow> dyco_schedule \<Rightarrow> world \<Rightarrow> bool" where
  "registered M sc w \<longleftrightarrow> coro_count sc = of_nat (card M) \<and>
     (\<forall>k c. ht_abs (cid_co_map sc) k = Some c \<longleftrightarrow> c \<in> M \<and> map_option cid (cos w c) = Some k)"

text \<open>
  The wake-up times: none is more than the longest sleep away; a coroutine that does not sleep has an old one, which
  is not ahead and no sleeper's.
\<close>

definition keyed :: "nat \<Rightarrow> nat \<Rightarrow> addr set \<Rightarrow> dyco_schedule \<Rightarrow> world \<Rightarrow> bool" where
  "keyed L now M sc w \<longleftrightarrow> (\<forall>a \<in> sleepers_of sc. unat (sleep_key w a) \<le> now + 2 ^ 32 + L) \<and>
     (\<forall>c \<in> M - sleepers_of sc. unat (sleep_key w c) \<le> now \<and> (\<forall>a \<in> sleepers_of sc. sleep_key w a \<noteq> sleep_key w c))"

definition sleepy :: "nat \<Rightarrow> (nat \<Rightarrow> addr \<Rightarrow> act list) \<Rightarrow> addr \<Rightarrow> konts \<Rightarrow> (qid \<Rightarrow> addr list) \<Rightarrow> (addr \<Rightarrow> act list) \<Rightarrow> dyco_schedule \<Rightarrow> world \<Rightarrow> bool" where
  "sleepy L scr s ks f rest sc w \<longleftrightarrow> timers_ok w s sc \<and> tq_both (queues sc) f \<and> (\<forall>i. sleepers_of sc \<inter> set (f i) = {}) \<and> sched_fine s sc w \<and>
     live scr s ks rest (members f sc) sc w \<and> apart (members f sc) w \<and> registered (members f sc) sc w \<and> card (members f sc) \<le> L \<and>
     keyed L (elapsed (environ w) (birth sc) (tick w)) (members f sc) sc w"

lemma live_others:
  assumes "live scr s ks rest M sc w" and "M' \<subseteq> M" and "\<And>d. d \<in> M' \<Longrightarrow> cos w' d = cos w d \<and> ks' (CoCtx d) = ks (CoCtx d) \<and> rest' d = rest d"
    and "\<And>d. d \<in> M' \<Longrightarrow> own w d \<noteq> NULL \<Longrightarrow> bytes w' (own w d) = bytes w (own w d)"
    and "\<And>d. d \<in> M' \<Longrightarrow> (d \<in> sleepers_of sc') = (d \<in> sleepers_of sc)"
    and "nalloc (heap w) \<le> nalloc (heap w')" "environ w' = environ w" "sc_stack sc' = sc_stack sc" "sc_stack_size sc' = sc_stack_size sc"
  shows "live scr s ks' rest' M' sc' w'"
  unfolding live_def
proof
  fix d assume d: "d \<in> M'"
  with assms(1,2) obtain co where co: "cos w d = Some co" "d \<noteq> NULL" "plain s co" "stack_ok w sc co" "will_do scr ks d co (rest d)"
    "testb COROUTINE_STATUS_SLEEPING co = (d \<in> sleepers_of sc)" unfolding live_def by blast
  have "own w d = owned_stack co" using co(1) by (simp add: own_def)
  with assms(4) [OF d] have "bytes w' (owned_stack co) = bytes w (owned_stack co)" if "owned_stack co \<noteq> NULL" using that by simp
  with co(4) assms(6-9) have "stack_ok w' sc' co" by (auto simp: stack_ok_def saved_ok_def)
  moreover have "will_do scr ks' d co (rest' d)" using co(5) assms(3) [OF d] by (simp add: will_do_def)
  ultimately show "\<exists>co. cos w' d = Some co \<and> d \<noteq> NULL \<and> plain s co \<and> stack_ok w' sc' co \<and> will_do scr ks' d co (rest' d) \<and>
      testb COROUTINE_STATUS_SLEEPING co = (d \<in> sleepers_of sc')"
    using co assms(3,5) [OF d] by auto
qed

section \<open>One turn\<close>

definition entered :: "dyco_coroutine \<Rightarrow> dyco_coroutine" where
  "entered co = (if testb COROUTINE_STATUS_NEW co then clrb COROUTINE_STATUS_NEW ((clrb COROUTINE_STATUS_READY co)\<lparr>co_ctx := CtxStart\<rparr>)
     else clrb COROUTINE_STATUS_READY co)\<lparr>sched_count := sched_count co + 1\<rparr>"

lemma entered_fields [simp]:
  "co_sched (entered co) = co_sched co" "cid (entered co) = cid co" "sleep_usecs (entered co) = sleep_usecs co"
  "owned_stack (entered co) = owned_stack co" "stack_ok w sc (entered co) = stack_ok w sc co"
  "testb b (entered co) = (b \<noteq> COROUTINE_STATUS_NEW \<and> b \<noteq> COROUTINE_STATUS_READY \<and> testb b co)"
  "co_func (entered co) = co_func co" "co_arg (entered co) = co_arg co"
  by (auto simp: entered_def)

lemma enter_plain:
  assumes sc: "scheds w s = Some sc" and co: "cos w c = Some co" "co_sched co = s" "stack_ok w sc co" and f: "sched_fine s sc w"
  shows "\<exists>b. enter s q c w = Done () (w\<lparr>bytes := b, cos := (cos w)(c \<mapsto> entered co),
        scheds := (scheds w)(s \<mapsto> sc\<lparr>queues := TAILQ_REMOVE q c (queues sc), curr_thread := c\<rparr>)\<rparr>) \<and> (\<forall>p. p \<noteq> sc_stack sc \<longrightarrow> b p = bytes w p) \<and>
      (\<exists>l. b (sc_stack sc) = Some l \<and> length l = sc_stack_size sc)"
proof -
  from f obtain shared where sh: "bytes w (sc_stack sc) = Some shared" "length shared = sc_stack_size sc" by (auto simp: sched_fine_def)
  show ?thesis
  proof (cases "testb COROUTINE_STATUS_NEW co \<or> testb COROUTINE_FLAGS_OWNSTACK co \<or> co_stack_size co = 0")
    case True
    have "enter s q c w = Done () (w\<lparr>bytes := bytes w, cos := (cos w)(c \<mapsto> entered co),
        scheds := (scheds w)(s \<mapsto> sc\<lparr>queues := TAILQ_REMOVE q c (queues sc), curr_thread := c\<rparr>)\<rparr>)"
      using True sc co by (auto simp: enter_def init_coro_def loadstk_def entered_def seq_deref)
    then show ?thesis using sh by blast
  next
    case False
    then obtain buf where buf: "bytes w (co_stack co) = Some buf" "co_stack_size co \<le> length buf" "co_stack_size co \<le> length shared"
      using co(3) sh(2) by (auto simp: stack_ok_def saved_ok_def split: if_splits)
    let ?b = "(bytes w)(sc_stack sc \<mapsto> copy_to_end (take (co_stack_size co) buf) shared)"
    have "enter s q c w = Done () (w\<lparr>bytes := ?b, cos := (cos w)(c \<mapsto> entered co),
        scheds := (scheds w)(s \<mapsto> sc\<lparr>queues := TAILQ_REMOVE q c (queues sc), curr_thread := c\<rparr>)\<rparr>)"
      using False sc co buf sh by (auto simp: enter_def loadstk_def entered_def)
    moreover have "length (copy_to_end (take (co_stack_size co) buf) shared) = sc_stack_size sc"
      using buf sh(2) by (simp add: copy_to_end_def)
    ultimately show ?thesis by (intro exI [of _ ?b]) simp
  qed
qed

lemma goes_on_plain:
  assumes "cos w c = Some (entered co)" and "will_do scr ks c co as"
  shows "\<exists>m. goes_on (\<lambda>f a. script (scr f a)) ks w c = Some (goes_through c as (w\<lparr>sigmask := m\<rparr>))"
proof (cases "testb COROUTINE_STATUS_NEW co")
  case True
  have "w = w\<lparr>sigmask := sigmask w\<rparr>" by simp
  with assms True show ?thesis
    by (intro exI [of _ "sigmask w"]) (simp add: goes_on_def entry_def entered_def will_do_def execute_def goes_through_def finish_def)
next
  case False
  with assms show ?thesis by (auto simp: goes_on_def entry_def entered_def will_do_def)
qed

text \<open>The coroutine that runs: it is current, and neither queued nor asleep.\<close>

definition running :: "addr \<Rightarrow> addr \<Rightarrow> dyco_schedule \<Rightarrow> dyco_coroutine \<Rightarrow> world \<Rightarrow> bool" where
  "running s c sc co w \<longleftrightarrow> sched_fine s sc w \<and> curr_thread sc = c \<and> c \<noteq> NULL \<and> cos w c = Some co \<and> plain s co \<and> stack_ok w sc co"

lemma plain_bitsD:
  assumes "plain s co"
  shows "co_sched co = s" "key_ok (cid co)" "\<not> testb COROUTINE_FLAGS_ASYMMETRIC co" "\<not> testb COROUTINE_FLAGS_INCOROPOOL co"
    "\<not> testb COROUTINE_FLAGS_IOMULTIPLEXING co" "\<not> testb COROUTINE_FLAGS_WAITSIGNAL co" "\<not> testb COROUTINE_STATUS_SCHEDCALL co"
    "\<not> testb COROUTINE_STATUS_KILLED co" "\<not> testb COROUTINE_STATUS_EXITED co"
  using assms by (simp_all add: plain_def plain_bits_def)

lemma goes_through_end:
  assumes r: "running s c sc co w" and as: "dropWhile is_say as = []"
  shows "\<exists>k. goes_through c as w = Swap (CoCtx c) SchedCtx (w\<lparr>stdout := spoken co as (stdout w), tick := Suc (tick w),
      cos := (cos w)(c \<mapsto> (clrb COROUTINE_STATUS_RUNNING (setb COROUTINE_STATUS_EXITED (setb COROUTINE_STATUS_RUNNING co)))\<lparr>co_ctx := CtxSaved\<rparr>)\<rparr>) k"
proof -
  let ?co = "setb COROUTINE_STATUS_RUNNING co" and ?w = "w\<lparr>cos := (cos w)(c \<mapsto> setb COROUTINE_STATUS_RUNNING co)\<rparr>"
  from r have p: "sched_fine s sc w" "curr_thread sc = c" "c \<noteq> NULL" "cos w c = Some co" "plain s co" "stack_ok w sc co"
    by (simp_all add: running_def)
  have sf: "s \<noteq> NULL" "sched_key w = s" "scheds w s = Some sc" using p(1) by (simp_all add: sched_fine_def)
  let ?out = "spoken co as (stdout w)"
  from says_run [of ?w s sc c ?co as "finish c"] p sf as spoken_cid [of ?co co] have
    o: "seq (script as) (finish c) ?w = finish c (?w\<lparr>stdout := ?out\<rparr>)" by auto
  let ?co2 = "setb COROUTINE_STATUS_EXITED ?co"
  let ?w2 = "w\<lparr>stdout := ?out, cos := (cos w)(c \<mapsto> ?co2)\<rparr>"
  have "goes_through c as w = seq (yield c) (fail BadContext) ?w2"
    using p(4) o by (simp add: goes_through_def finish_def)
  also have "\<dots> = Swap (CoCtx c) SchedCtx (?w2\<lparr>tick := Suc (tick w), cos := (cos ?w2)(c \<mapsto> (clrb COROUTINE_STATUS_RUNNING ?co2)\<lparr>co_ctx := CtxSaved\<rparr>)\<rparr>)
      (seq (co_set c (setb COROUTINE_STATUS_RUNNING)) (fail BadContext))"
    using yield_exit [of ?w2 c ?co2 sc "fail BadContext"] p sf plain_bitsD(1) [OF p(5)] depth_ok [OF p(1,6), of "tick w"] by simp
  finally show ?thesis by (intro exI) simp
qed

lemma running_says:
  assumes "running s c sc co w"
  shows "goes_through c as w = seq (script (dropWhile is_say as)) (finish c)
    (w\<lparr>cos := (cos w)(c \<mapsto> setb COROUTINE_STATUS_RUNNING co), stdout := spoken co as (stdout w)\<rparr>)"
proof -
  let ?w = "w\<lparr>cos := (cos w)(c \<mapsto> setb COROUTINE_STATUS_RUNNING co)\<rparr>"
  from assms have "goes_through c as w = seq (script as) (finish c) ?w" by (simp add: goes_through_def running_def)
  with says_run [of ?w s sc c "setb COROUTINE_STATUS_RUNNING co" as "finish c"] assms spoken_cid [of "setb COROUTINE_STATUS_RUNNING co" co]
  show ?thesis by (auto simp: running_def sched_fine_def)
qed

lemma current_run:
  assumes "sched_fine s sc w" "curr_thread sc = c" "c \<noteq> NULL"
  shows "bind current k w = k (s, c) w"
  using assms by (simp add: current_def sched_fine_def)

text \<open>A coroutine that sleeps for no time goes to the end of its queue.\<close>

lemma goes_through_nap0:
  assumes r: "running s c sc co w" and as: "dropWhile is_say as = Nap 0 # bs"
  defines "sc2 \<equiv> sc\<lparr>queues := TAILQ_INSERT_TAIL (qid_of w c) c (queues sc)\<rparr>"
  shows "\<exists>t h b co2. goes_through c as w = Swap (CoCtx c) SchedCtx (w\<lparr>stdout := spoken co as (stdout w), scheds := (scheds w)(s \<mapsto> sc2), tick := t, heap := h, bytes := b,
      cos := (cos w)(c \<mapsto> co2)\<rparr>) (goes_through c bs) \<and> tick w < t \<and> t \<le> tick w + 2 \<and> stack_saved w sc co h b co2 \<and> co_ctx co2 = CtxSaved \<and>
     (\<forall>a. a \<noteq> COROUTINE_FLAGS_ALLOCSTACKMEM \<longrightarrow> testb a co2 = (a \<noteq> COROUTINE_STATUS_RUNNING \<and> (a = COROUTINE_STATUS_READY \<or> testb a co)))"
proof -
  from r have p: "sched_fine s sc w" "curr_thread sc = c" "c \<noteq> NULL" "cos w c = Some co" "plain s co" "stack_ok w sc co"
    by (simp_all add: running_def)
  note pb = plain_bitsD [OF p(5)]
  define out where "out = spoken co as (stdout w)"
  have o: "goes_through c as w = seq (script (Nap 0 # bs)) (finish c) (w\<lparr>cos := (cos w)(c \<mapsto> setb COROUTINE_STATUS_RUNNING co), stdout := out\<rparr>)"
    unfolding out_def running_says [OF r, of as] as ..
  let ?co = "setb COROUTINE_STATUS_READY (setb COROUTINE_STATUS_RUNNING co)"
  let ?w = "w\<lparr>stdout := out, cos := (cos w)(c \<mapsto> ?co), scheds := (scheds w)(s \<mapsto> sc2)\<rparr>"
  have sc: "scheds w s = Some sc" using p(1) by (simp add: sched_fine_def)
  have q: "qid_of w c = (if testb COROUTINE_FLAGS_URGENT co then QUrgent else QReady)" using p(4) by (simp add: qid_of_def urgent_in_def)
  have f2: "sched_fine s sc2 ?w" using p(1) by (auto simp: sched_fine_def sc2_def)
  have st2: "stack_ok ?w sc2 ?co" using p(6) stack_ok_cong [of ?w w sc2 sc co] by (simp add: sc2_def)
  let ?v = "w\<lparr>cos := (cos w)(c \<mapsto> setb COROUTINE_STATUS_RUNNING co), stdout := out\<rparr>"
  have fv: "sched_fine s sc ?v" using p(1) by (simp add: sched_fine_def)
  have "goes_through c as w = seq (yield c) (seq (script bs) (finish c)) ?w"
    using o p sc pb by (simp add: dyco_coroutine_sleep_def current_run [OF fv p(2,3)] push_ready_def queue_push_def sc2_def q)
  moreover from yield_nap [of ?w c ?co sc2 "seq (script bs) (finish c)"] f2 st2 pb obtain t h b co2 where
    y: "seq (yield c) (seq (script bs) (finish c)) ?w = Swap (CoCtx c) SchedCtx (?w\<lparr>tick := t, heap := h, bytes := b, cos := (cos ?w)(c \<mapsto> co2)\<rparr>)
      (goes_through c bs)" "tick w < t" "t \<le> tick w + 2" "stack_saved ?w sc2 ?co h b co2" "co_ctx co2 = CtxSaved"
     "\<forall>a. a \<noteq> COROUTINE_FLAGS_ALLOCSTACKMEM \<longrightarrow> testb a co2 = (a \<noteq> COROUTINE_STATUS_RUNNING \<and> testb a ?co)"
    by (auto simp: goes_through_def sc2_def)
  moreover have "stack_saved w sc co h b co2"
    using y(4) stack_ok_cong [of "?w\<lparr>heap := h, bytes := b\<rparr>" "w\<lparr>heap := h, bytes := b\<rparr>" sc2 sc co2] by (simp add: stack_saved_def sc2_def)
  ultimately show ?thesis
    unfolding out_def [symmetric] by (intro exI [of _ t] exI [of _ h] exI [of _ b] exI [of _ co2]) auto
qed

lemma sched_sleep_awake:
  assumes t: "timers_ok w s sc" and c: "cos w c = Some co" "co_sched co = s" "c \<noteq> NULL" "c \<notin> set (inorder (sleeping sc))"
    and stale: "\<forall>a \<in> set (inorder (sleeping sc)). sleep_key w a \<noteq> sleep_usecs co"
    and l: "length (inorder (sleeping sc)) < 2 ^ 64" and m: "0 < msecs"
  shows "\<exists>w' sc' co' j. schedule_sched_sleep c msecs w = Done () w' \<and>
    w' = w\<lparr>tick := Suc (tick w), scheds := (scheds w)(s \<mapsto> sc'), cos := (cos w)(c \<mapsto> co')\<rparr> \<and> timers_ok w' s sc' \<and>
    j \<le> length (inorder (sleeping sc)) \<and> sc' = sc\<lparr>sleeping := sleeping sc'\<rparr> \<and>
    co' = clrb COROUTINE_FLAGS_EXPIRED (setb COROUTINE_STATUS_SLEEPING (co\<lparr>sleep_usecs := wake_key sc w msecs + of_nat j\<rparr>)) \<and>
    sleepers_of sc' = insert c (sleepers_of sc)"
proof -
  have "\<forall>a \<in> set (inorder (sleeping sc)). sleep_key w a = sleep_usecs co \<longrightarrow> a = c" using stale by blast
  note find = sleep_find_run [OF t c(1,3) this]
  have "schedule_sched_sleep c msecs w = sleep_set_timer s c msecs w"
    using c m by (simp add: schedule_sched_sleep_def bind_Done [where m = "sleep_find s c", OF find])
  with sleep_set_timer_run [OF t c l, of msecs] show ?thesis unfolding sleepers_of_def by metis
qed

lemma sint_nap: "m \<noteq> 0 \<Longrightarrow> m < 2 ^ 31 \<Longrightarrow> 0 < sint (m :: u32)"
proof -
  assume m: "m \<noteq> 0" "m < 2 ^ 31"
  have "0 < uint m" using m(1) by (simp add: word_neq_0_conv word_less_def)
  moreover have "uint m < 2 ^ 31" using m(2) by (simp add: word_less_def)
  ultimately show ?thesis by (simp add: sint_uint signed_take_bit_int_eq_self)
qed

text \<open>A coroutine that sleeps for some time joins the sleepers.\<close>

lemma goes_through_nap:
  assumes r: "running s c sc co w" and as: "dropWhile is_say as = Nap m # bs" and m: "m \<noteq> 0" "m < 2 ^ 31"
    and t: "timers_ok w s sc" "c \<notin> sleepers_of sc" "\<forall>a \<in> sleepers_of sc. sleep_key w a \<noteq> sleep_usecs co"
    and l: "length (inorder (sleeping sc)) < 2 ^ 64"
  shows "\<exists>t h b co2 sc2 j w2. goes_through c as w = Swap (CoCtx c) SchedCtx w2 (goes_through c bs) \<and>
     w2 = w\<lparr>stdout := spoken co as (stdout w), scheds := (scheds w)(s \<mapsto> sc2), tick := t, heap := h, bytes := b, cos := (cos w)(c \<mapsto> co2)\<rparr> \<and>
     tick w < t \<and> t \<le> tick w + 3 \<and> j \<le> length (inorder (sleeping sc)) \<and>
     stack_saved w sc (co\<lparr>sleep_usecs := wake_key sc w (sint m) + of_nat j\<rparr>) h b co2 \<and> co_ctx co2 = CtxSaved \<and>
     (\<forall>a. a \<noteq> COROUTINE_FLAGS_ALLOCSTACKMEM \<longrightarrow> testb a co2 = (a \<noteq> COROUTINE_STATUS_RUNNING \<and> a \<noteq> COROUTINE_FLAGS_EXPIRED \<and>
        (a = COROUTINE_STATUS_SLEEPING \<or> testb a co))) \<and>
     timers_ok w2 s sc2 \<and> sc2 = sc\<lparr>sleeping := sleeping sc2\<rparr> \<and> sleepers_of sc2 = insert c (sleepers_of sc)"
proof -
  from r have p: "sched_fine s sc w" "curr_thread sc = c" "c \<noteq> NULL" "cos w c = Some co" "plain s co" "stack_ok w sc co"
    by (simp_all add: running_def)
  note pb = plain_bitsD [OF p(5)]
  have sc: "scheds w s = Some sc" using p(1) by (simp add: sched_fine_def)
  define out where "out = spoken co as (stdout w)"
  have o: "goes_through c as w = seq (script (Nap m # bs)) (finish c) (w\<lparr>cos := (cos w)(c \<mapsto> setb COROUTINE_STATUS_RUNNING co), stdout := out\<rparr>)"
    unfolding out_def running_says [OF r, of as] as ..
  let ?co = "setb COROUTINE_STATUS_RUNNING co"
  let ?v = "w\<lparr>cos := (cos w)(c \<mapsto> ?co), stdout := out\<rparr>"
  have fv: "sched_fine s sc ?v" using p(1) by (simp add: sched_fine_def)
  have tv: "timers_ok ?v s sc" by (rule timers_ok_cong [OF t(1)]) (use sc t(2) in \<open>auto simp: sleepers_of_def\<close>)
  have kv: "\<forall>a \<in> set (inorder (sleeping sc)). sleep_key ?v a \<noteq> sleep_usecs ?co"
    using t(2,3) by (auto simp: sleepers_of_def sleep_key_def)
  have cv: "cos ?v c = Some ?co" "co_sched ?co = s" "c \<notin> set (inorder (sleeping sc))" using pb t(2) by (simp_all add: sleepers_of_def)
  from sched_sleep_awake [OF tv cv(1,2) p(3) cv(3) kv l sint_nap [OF m]] obtain w1 sc1 co1 j where
    s1: "schedule_sched_sleep c (sint m) ?v = Done () w1" "w1 = ?v\<lparr>tick := Suc (tick ?v), scheds := (scheds ?v)(s \<mapsto> sc1), cos := (cos ?v)(c \<mapsto> co1)\<rparr>"
      "timers_ok w1 s sc1" "j \<le> length (inorder (sleeping sc))" "sc1 = sc\<lparr>sleeping := sleeping sc1\<rparr>"
      "co1 = clrb COROUTINE_FLAGS_EXPIRED (setb COROUTINE_STATUS_SLEEPING (?co\<lparr>sleep_usecs := wake_key sc ?v (sint m) + of_nat j\<rparr>))"
      "sleepers_of sc1 = insert c (sleepers_of sc)" by blast
  have wk: "wake_key sc ?v (sint m) = wake_key sc w (sint m)" by (simp add: wake_key_def)
  obtain T where T: "sc1 = sc\<lparr>sleeping := T\<rparr>" using s1(5) by blast
  have f1: "sched_fine s sc1 w1" using p(1) unfolding s1(2) T by (auto simp: sched_fine_def)
  have st1: "stack_ok w1 sc1 co1"
    using p(6) stack_ok_cong [of w1 w sc1 sc co] by (simp add: s1(2,6) T)
  have "goes_through c as w = seq (yield c) (seq (script bs) (finish c)) w1"
    using o p pb m(1) cv(1) by (simp add: dyco_coroutine_sleep_def current_run [OF fv p(2,3)] seq_Done [where m = "schedule_sched_sleep c (sint m)", OF s1(1)])
  moreover have c1: "cos w1 c = Some co1" "scheds w1 (co_sched co1) = Some sc1" "co_sched co1 = s" "\<not> testb COROUTINE_STATUS_EXITED co1"
    using pb by (simp_all add: s1(2,6))
  from yield_nap [OF c1(1,2) st1 f1 [folded c1(3)] c1(4), of "seq (script bs) (finish c)"] obtain t h b co2 where
    y: "seq (yield c) (seq (script bs) (finish c)) w1 = Swap (CoCtx c) SchedCtx (w1\<lparr>tick := t, heap := h, bytes := b, cos := (cos w1)(c \<mapsto> co2)\<rparr>)
      (goes_through c bs)" "tick w1 < t" "t \<le> tick w1 + 2" "stack_saved w1 sc1 co1 h b co2" "co_ctx co2 = CtxSaved"
     "\<forall>a. a \<noteq> COROUTINE_FLAGS_ALLOCSTACKMEM \<longrightarrow> testb a co2 = (a \<noteq> COROUTINE_STATUS_RUNNING \<and> testb a co1)"
    unfolding goes_through_def by blast
  let ?w2 = "w\<lparr>stdout := out, scheds := (scheds w)(s \<mapsto> sc1), tick := t, heap := h, bytes := b, cos := (cos w)(c \<mapsto> co2)\<rparr>"
  have w2: "w1\<lparr>tick := t, heap := h, bytes := b, cos := (cos w1)(c \<mapsto> co2)\<rparr> = ?w2" by (simp add: s1(2))
  have ss: "stack_saved w sc (co\<lparr>sleep_usecs := wake_key sc w (sint m) + of_nat j\<rparr>) h b co2"
    using y(4) stack_ok_cong [of "w1\<lparr>heap := h, bytes := b\<rparr>" "w\<lparr>heap := h, bytes := b\<rparr>" sc1 sc co2]
    by (simp add: stack_saved_def s1(2,6) T wk)
  have "timers_ok ?w2 s sc1"
    by (rule timers_ok_flags [OF s1(3) c1(1), where co' = co2]) (use y(4,6) in \<open>simp_all add: s1(2) stack_saved_def\<close>)
  moreover have "tick w1 = Suc (tick w)" by (simp add: s1(2))
  ultimately show ?thesis using y(1-3,5,6) s1(4,5,7) ss unfolding w2 out_def [symmetric]
    by - (rule exI [of _ t], intro exI [of _ h] exI [of _ b] exI [of _ co2] exI [of _ sc1] exI [of _ j] exI [of _ ?w2],
      auto simp: s1(6))
qed

section \<open>Turns keep the invariant\<close>

lemma live_insert: "live scr s ks rest (insert c M) sc w \<longleftrightarrow> live scr s ks rest {c} sc w \<and> live scr s ks rest M sc w"
  by (auto simp: live_def)

lemma own_bound: "live scr s ks rest M sc w \<Longrightarrow> d \<in> M \<Longrightarrow> own w d \<le> nalloc (heap w)"
  by (cases "own w d = NULL") (auto simp: live_def stack_ok_def own_def)

lemma own_not_shared: "live scr s ks rest M sc w \<Longrightarrow> d \<in> M \<Longrightarrow> own w d \<noteq> NULL \<Longrightarrow> own w d \<noteq> sc_stack sc"
  by (auto simp: live_def stack_ok_def own_def)

lemma sleepyD:
  assumes "sleepy L scr s ks f rest sc w"
  shows "timers_ok w s sc" "tq_both (queues sc) f" "\<And>i. sleepers_of sc \<inter> set (f i) = {}" "sched_fine s sc w"
    "live scr s ks rest (members f sc) sc w" "apart (members f sc) w" "registered (members f sc) sc w" "card (members f sc) \<le> L"
    "keyed L (elapsed (environ w) (birth sc) (tick w)) (members f sc) sc w"
  using assms by (simp_all add: sleepy_def)

lemma sleepy_update:
  assumes S: "sleepy L scr s ks f rest sc w"
    and c: "timers_ok w' s sc'" "tq_both (queues sc') f'" "\<And>i. sleepers_of sc' \<inter> set (f' i) = {}" "sched_fine s sc' w'" "members f' sc' \<subseteq> members f sc"
    and o: "\<And>d. d \<in> members f' sc' \<Longrightarrow> d \<noteq> c \<Longrightarrow> cos w' d = cos w d \<and> ks' (CoCtx d) = ks (CoCtx d) \<and> rest' d = rest d \<and> (d \<in> sleepers_of sc') = (d \<in> sleepers_of sc)"
    and b: "\<And>d. d \<in> members f' sc' \<Longrightarrow> d \<noteq> c \<Longrightarrow> own w d \<noteq> NULL \<Longrightarrow> bytes w' (own w d) = bytes w (own w d)"
    and x: "c \<in> members f' sc' \<Longrightarrow> live scr s ks' rest' {c} sc' w' \<and> (own w' c = own w c \<or> nalloc (heap w) < own w' c)"
    and e: "nalloc (heap w) \<le> nalloc (heap w')" "environ w' = environ w" "sc_stack sc' = sc_stack sc" "sc_stack_size sc' = sc_stack_size sc"
    and r: "registered (members f' sc') sc' w'" "keyed L (elapsed (environ w') (birth sc') (tick w')) (members f' sc') sc' w'"
  shows "sleepy L scr s ks' f' rest' sc' w'"
proof -
  let ?M = "members f sc" and ?N = "members f' sc'"
  note S = sleepyD [OF S]
  have "live scr s ks' rest' (?N - {c}) sc' w'"
    by (rule live_others [OF S(5)]) (use c(5) o b e in auto)
  then have lv: "live scr s ks' rest' ?N sc' w'"
    using x live_insert [of scr s ks' rest' c "?N - {c}" sc' w'] by (cases "c \<in> ?N") (simp_all add: insert_absorb)
  have own: "own w' d = own w d" if "d \<in> ?N" "d \<noteq> c" for d using o [OF that] by (simp add: own_def)
  have "apart ?N w'" unfolding apart_def
  proof (intro ballI impI)
    fix d d' assume d: "d \<in> ?N" "d' \<in> ?N" "d \<noteq> d' \<and> own w' d \<noteq> NULL"
    have le: "own w d \<le> nalloc (heap w)" "own w d' \<le> nalloc (heap w)" using own_bound [OF S(5)] d c(5) by auto
    have ap: "own w d \<noteq> NULL \<Longrightarrow> own w d \<noteq> own w d'" "own w d' \<noteq> NULL \<Longrightarrow> own w d' \<noteq> own w d" using S(6) d c(5) unfolding apart_def by (metis subsetD)+
    show "own w' d \<noteq> own w' d'"
    proof (cases "d = c \<or> d' = c")
      case False
      then show ?thesis using own d ap by simp
    next
      case True
      then have "c \<in> ?N" using d by auto
      with x have "own w' c = own w c \<or> nalloc (heap w) < own w' c" by blast
      then show ?thesis using True own d ap le by auto
    qed
  qed
  moreover have "finite ?M" by (simp add: members_def sleepers_of_def)
  then have "card ?N \<le> L" using S(8) card_mono [OF _ c(5)] by simp
  ultimately show ?thesis using c lv r by (simp add: sleepy_def)
qed

lemma keyed_mono:
  assumes "keyed L now M sc w" "now \<le> now'"
  shows "keyed L now' M sc w"
  unfolding keyed_def
proof (intro conjI ballI)
  fix a assume "a \<in> sleepers_of sc"
  with assms show "unat (sleep_key w a) \<le> now' + 2 ^ 32 + L" unfolding keyed_def by (meson add_le_mono1 order_trans)
next
  fix d assume "d \<in> M - sleepers_of sc"
  with assms show "unat (sleep_key w d) \<le> now'" unfolding keyed_def by (meson order_trans)
next
  fix d a assume "d \<in> M - sleepers_of sc" "a \<in> sleepers_of sc"
  with assms show "sleep_key w a \<noteq> sleep_key w d" unfolding keyed_def by blast
qed

lemma elapsed_mono:
  assumes "clock_runs K e b m n" "m \<le> i" "i \<le> j" "j \<le> n"
  shows "elapsed e b i \<le> elapsed e b j"
  using assms(3,4)
proof (induction rule: dec_induct)
  case (step l)
  then show ?case using assms(1,2) unfolding clock_runs_def by (meson Suc_le_lessD less_imp_le order_trans)
qed simp

lemma elapsed_gap:
  assumes "clock_runs K e b m n" "m \<le> i" "i + K * k \<le> n"
  shows "elapsed e b i + k \<le> elapsed e b (i + K * k)"
  using assms(3)
proof (induction k)
  case (Suc k)
  then have "elapsed e b (i + K * k) < elapsed e b (i + K * k + K)" using assms(1,2) by (simp add: clock_runs_def)
  with Suc show ?case by (simp add: add.commute add.left_commute)
qed simp

lemma members_UN: "members f sc = (\<Union>i. set (f i)) \<union> sleepers_of sc"
proof -
  have "set (f i) \<subseteq> set (f QReady) \<union> set (f QUrgent)" for i by (cases i) auto
  then show ?thesis by (auto simp: members_def)
qed

lemma queue_distinct:
  assumes "tq_both qs f" "f q = c # xs"
  shows "c \<noteq> NULL" "c \<notin> set ((f(q := xs)) i)"
proof -
  have r: "tq_rep qs i (f i)" "tq_rep qs q (c # xs)" using assms by (metis tq_both_def)+
  then show "c \<noteq> NULL" by (simp add: tq_rep_def)
  show "c \<notin> set ((f(q := xs)) i)"
  proof (cases "i = q")
    case True
    then show ?thesis using r(2) by (simp add: tq_rep_def)
  next
    case False
    then show ?thesis using assms by (cases i; cases q) (auto simp: tq_both_def)
  qed
qed

text \<open>
  The beginning of the turn of \<open>c\<close>, the first one of queue \<open>q\<close>: \<open>w1\<close> is the world in which its context is loaded, and there \<open>c\<close> goes through the rest of
  its script.
\<close>

definition begins :: "(nat \<Rightarrow> addr \<Rightarrow> act list) \<Rightarrow> addr \<Rightarrow> konts \<Rightarrow> (qid \<Rightarrow> addr list) \<Rightarrow> (addr \<Rightarrow> act list) \<Rightarrow> dyco_schedule \<Rightarrow> world \<Rightarrow>
    qid \<Rightarrow> addr \<Rightarrow> addr list \<Rightarrow> dyco_coroutine \<Rightarrow> (addr \<Rightarrow> byte list option) \<Rightarrow> world \<Rightarrow> dyco_schedule \<Rightarrow> sigset \<Rightarrow> bool" where
  "begins scr s ks f rest sc w q c xs co b w1 sc1 x \<longleftrightarrow> cos w c = Some co \<and> c \<noteq> NULL \<and> plain s co \<and> stack_ok w sc co \<and> naps_ok (rest c) \<and>
     c \<notin> sleepers_of sc \<and> \<not> testb COROUTINE_STATUS_SLEEPING co \<and> enter s q c w = Done () w1 \<and>
     w1 = w\<lparr>bytes := b, cos := (cos w)(c \<mapsto> entered co), scheds := (scheds w)(s \<mapsto> sc1)\<rparr> \<and>
     sc1 = sc\<lparr>queues := TAILQ_REMOVE q c (queues sc), curr_thread := c\<rparr> \<and> tq_both (queues sc1) (f(q := xs)) \<and>
     (\<forall>p. p \<noteq> sc_stack sc \<longrightarrow> b p = bytes w p) \<and> goes_on (\<lambda>f a. script (scr f a)) ks w1 c = Some (goes_through c (rest c) (w1\<lparr>sigmask := x\<rparr>)) \<and>
     running s c sc1 (entered co) (w1\<lparr>sigmask := x\<rparr>)"

lemma beginsD:
  assumes "begins scr s ks f rest sc w q c xs co b w1 sc1 x"
  shows "cos w c = Some co" "c \<noteq> NULL" "plain s co" "stack_ok w sc co" "naps_ok (rest c)" "c \<notin> sleepers_of sc" "\<not> testb COROUTINE_STATUS_SLEEPING co"
    "enter s q c w = Done () w1" "w1 = w\<lparr>bytes := b, cos := (cos w)(c \<mapsto> entered co), scheds := (scheds w)(s \<mapsto> sc1)\<rparr>"
    "sc1 = sc\<lparr>queues := TAILQ_REMOVE q c (queues sc), curr_thread := c\<rparr>" "tq_both (queues sc1) (f(q := xs))"
    "\<forall>p. p \<noteq> sc_stack sc \<longrightarrow> b p = bytes w p"
    "goes_on (\<lambda>f a. script (scr f a)) ks w1 c = Some (goes_through c (rest c) (w1\<lparr>sigmask := x\<rparr>))"
    "running s c sc1 (entered co) (w1\<lparr>sigmask := x\<rparr>)"
  using assms unfolding begins_def by blast+

lemma sleepy_enter:
  assumes S: "sleepy L scr s ks f rest sc w" and q: "f q = c # xs"
  obtains co b w1 sc1 x where "begins scr s ks f rest sc w q c xs co b w1 sc1 x"
proof -
  note S = sleepyD [OF S]
  have c: "c \<in> members f sc" "c \<notin> sleepers_of sc" using q S(3) [of q] by (auto simp: members_UN intro: exI [of _ q])
  then obtain co where co: "cos w c = Some co" "c \<noteq> NULL" "plain s co" "stack_ok w sc co" "will_do scr ks c co (rest c)"
    "\<not> testb COROUTINE_STATUS_SLEEPING co" using S(5) by (auto simp: live_def)
  have sc: "scheds w s = Some sc" using S(4) by (simp add: sched_fine_def)
  let ?sc = "sc\<lparr>queues := TAILQ_REMOVE q c (queues sc), curr_thread := c\<rparr>"
  from enter_plain [OF sc co(1) plain_bitsD(1) [OF co(3)] co(4) S(4), of q] obtain b where
    e: "enter s q c w = Done () (w\<lparr>bytes := b, cos := (cos w)(c \<mapsto> entered co), scheds := (scheds w)(s \<mapsto> ?sc)\<rparr>)"
      "\<forall>p. p \<noteq> sc_stack sc \<longrightarrow> b p = bytes w p" "\<exists>l. b (sc_stack sc) = Some l \<and> length l = sc_stack_size sc" by blast
  let ?w1 = "w\<lparr>bytes := b, cos := (cos w)(c \<mapsto> entered co), scheds := (scheds w)(s \<mapsto> ?sc)\<rparr>"
  from goes_on_plain [of ?w1 c co scr ks "rest c"] co(5) obtain m where
    g: "goes_on (\<lambda>f a. script (scr f a)) ks ?w1 c = Some (goes_through c (rest c) (?w1\<lparr>sigmask := m\<rparr>))" by auto
  have f1: "sched_fine s ?sc (?w1\<lparr>sigmask := m\<rparr>)" using S(4) e(3) by (simp add: sched_fine_def)
  have "stack_ok (?w1\<lparr>sigmask := m\<rparr>) ?sc co"
    using co(4) e(2) S(4) by (auto simp: stack_ok_def saved_ok_def)
  moreover have "plain s (entered co)" using co(3) by (simp add: plain_def)
  ultimately have r: "running s c ?sc (entered co) (?w1\<lparr>sigmask := m\<rparr>)" using co(2) f1 by (simp add: running_def)
  have "tq_both (queues ?sc) (f(q := xs))" using tailq.pop_law [OF S(2) q] by simp
  with co c(2) e(1,2) g r show thesis by (intro that [of co b ?w1 ?sc m]) (simp add: begins_def will_do_def)
qed

lemma spoken_entered:
  assumes "begins scr s ks f rest sc w q c xs co b w1 sc1 x"
  shows "spoken (entered co) (rest c) (stdout (w1\<lparr>sigmask := x\<rparr>)) = spoken co (rest c) (stdout w)"
  using beginsD(9) [OF assms] spoken_cid [of "entered co" co] by simp

lemma sleepers_few:
  assumes "sleepy L scr s ks f rest sc w"
  shows "length (inorder (sleeping sc)) \<le> L"
proof -
  have "length (inorder (sleeping sc)) = card (sleepers_of sc)"
    using distinct_card [OF timers_distinct [OF sleepyD(1) [OF assms]]] by (simp add: sleepers_of_def)
  also have "\<dots> \<le> card (members f sc)" by (rule card_mono) (auto simp: members_def sleepers_of_def)
  finally show ?thesis using sleepyD(8) [OF assms] by simp
qed

lemma queue_member: "f q = c # xs \<Longrightarrow> c \<in> members f sc"
  by (auto simp: members_UN intro: exI [of _ q])

lemma members_finite [simp]: "finite (members f sc)"
  by (simp add: members_def sleepers_of_def)

definition weight :: "(addr \<Rightarrow> act list) \<Rightarrow> addr set \<Rightarrow> nat" where
  "weight rest M = (\<Sum>c \<in> M. turns_left (rest c))"

text \<open>What has been printed together with what is still to be printed.\<close>

definition ledger :: "(addr \<Rightarrow> act list) \<Rightarrow> addr set \<Rightarrow> world \<Rightarrow> string multiset" where
  "ledger rest M w = mset (stdout w) + (\<Sum>c \<in> M. mset (lines (case cos w c of Some co \<Rightarrow> sint (cid co) | None \<Rightarrow> 0) (rest c)))"

text \<open>
  From one moment to a later one, at most \<open>k\<close> questions to the environment on: who is not a member any more has been released, and
  no line has been lost or doubled.
\<close>

definition onward :: "nat \<Rightarrow> (addr \<Rightarrow> act list) \<Rightarrow> addr set \<Rightarrow> dyco_schedule \<Rightarrow> world \<Rightarrow> (addr \<Rightarrow> act list) \<Rightarrow> addr set \<Rightarrow> dyco_schedule \<Rightarrow> world \<Rightarrow> bool" where
  "onward k rest M sc w rest' M' sc' w' \<longleftrightarrow> environ w' = environ w \<and> birth sc' = birth sc \<and> tick w \<le> tick w' \<and> tick w' \<le> tick w + k \<and> M' \<subseteq> M \<and>
     (\<forall>d. d \<notin> M' \<longrightarrow> cos w' d = (if d \<in> M then None else cos w d)) \<and> ledger rest' M' w' = ledger rest M w \<and>
     suffix (stdout w) (stdout w')"

definition takes_turn :: "nat \<Rightarrow> (nat \<Rightarrow> addr \<Rightarrow> act list) \<Rightarrow> addr \<Rightarrow> konts \<Rightarrow> (qid \<Rightarrow> addr list) \<Rightarrow> (addr \<Rightarrow> act list) \<Rightarrow> dyco_schedule \<Rightarrow> world \<Rightarrow>
    qid \<Rightarrow> addr \<Rightarrow> bool" where
  "takes_turn L scr s ks f rest sc w q c \<longleftrightarrow> (\<exists>w1 w2 k w' f' rest' sc'. enter s q c w = Done () w1 \<and>
     goes_on (\<lambda>f a. script (scr f a)) ks w1 c = Some (Swap (CoCtx c) SchedCtx w2 k) \<and>
     (\<forall>fuel m l. leave (Suc fuel) q m s l c (w2\<lparr>sigmask := sigmask w1\<rparr>) = (if c = l then Done None w' else process_queue (Suc fuel) q m s l w')) \<and>
     sleepy L scr s (ks(CoCtx c \<mapsto> (\<lambda>v. k (v\<lparr>sigmask := sigmask w2\<rparr>)))) f' rest' sc' w' \<and>
     onward 3 rest (members f sc) sc w rest' (members f' sc') sc' w' \<and> Suc (weight rest' (members f' sc')) = weight rest (members f sc))"

lemma weight_nap:
  assumes "finite M" "c \<in> M" "dropWhile is_say (rest c) = Nap m # bs"
  shows "Suc (weight (rest(c := bs)) M) = weight rest M"
proof -
  have "filter (Not \<circ> is_say) as = filter (Not \<circ> is_say) (dropWhile is_say as)" for as by (induction as) auto
  from this [of "rest c"] have "turns_left (rest c) = Suc (turns_left bs)" using assms(3) by (simp add: turns_left_def)
  moreover have "(\<Sum>d \<in> M - {c}. turns_left ((rest(c := bs)) d)) = (\<Sum>d \<in> M - {c}. turns_left (rest d))"
    by (rule sum.cong) auto
  ultimately show ?thesis unfolding weight_def using assms(1,2) by (simp add: sum.remove [of M c])
qed

lemma lines_split: "lines i as = lines i (takeWhile is_say as) @ lines i (dropWhile is_say as)"
  by (induction as) (auto split: act.splits)

text \<open>A turn prints what it takes from the script.\<close>

lemma ledger_nap:
  assumes "finite M" "c \<in> M" "dropWhile is_say (rest c) = Nap m # bs" "cos w c = Some co"
    and "stdout w' = spoken co (rest c) (stdout w)" "\<And>d. d \<in> M \<Longrightarrow> map_option cid (cos w' d) = map_option cid (cos w d)"
  shows "ledger (rest(c := bs)) M w' = ledger rest M w"
proof -
  have i: "(case cos w' d of Some co \<Rightarrow> sint (cid co) | None \<Rightarrow> 0) = (case cos w d of Some co \<Rightarrow> sint (cid co) | None \<Rightarrow> 0)" if "d \<in> M" for d
    using assms(6) [OF that] by (cases "cos w' d"; cases "cos w d") auto
  have "mset (lines (sint (cid co)) (rest c)) = mset (lines (sint (cid co)) (takeWhile is_say (rest c))) + mset (lines (sint (cid co)) bs)"
    using lines_split [of "sint (cid co)" "rest c"] assms(3) by simp
  moreover have "(\<Sum>d \<in> M - {c}. mset (lines (case cos w' d of Some co \<Rightarrow> sint (cid co) | None \<Rightarrow> 0) ((rest(c := bs)) d))) =
      (\<Sum>d \<in> M - {c}. mset (lines (case cos w d of Some co \<Rightarrow> sint (cid co) | None \<Rightarrow> 0) (rest d)))"
    by (rule sum.cong) (use i in auto)
  ultimately show ?thesis
    unfolding ledger_def sum.remove [OF assms(1,2)] using assms(4,5) i [OF assms(2)] by (simp add: spoken_def)
qed

lemma ledger_exit:
  assumes "finite M" "c \<in> M" "dropWhile is_say (rest c) = []" "cos w c = Some co"
    and "stdout w' = spoken co (rest c) (stdout w)" "cos w' = (cos w)(c := None)"
  shows "ledger rest (M - {c}) w' = ledger rest M w"
proof -
  have "mset (lines i (takeWhile is_say (rest c))) = mset (lines i (rest c))" for i by (subst (2) lines_split) (simp only: assms(3) lines.simps append_Nil2)
  moreover have "(\<Sum>d \<in> M - {c}. mset (lines (case cos w' d of Some co \<Rightarrow> sint (cid co) | None \<Rightarrow> 0) (rest d))) =
      (\<Sum>d \<in> M - {c}. mset (lines (case cos w d of Some co \<Rightarrow> sint (cid co) | None \<Rightarrow> 0) (rest d)))"
    by (rule sum.cong) (use assms(6) in auto)
  ultimately show ?thesis
    unfolding ledger_def sum.remove [OF assms(1,2)] using assms(4,5) by (simp add: spoken_def)
qed

lemma naps_ok_drop: "naps_ok as \<Longrightarrow> dropWhile is_say as = Nap m # bs \<Longrightarrow> naps_ok bs \<and> nap_ok m"
  by (induction as) (auto simp: naps_ok_def split: if_splits act.splits)

text \<open>What remains of a turn that ends in a sleep.\<close>

lemma leave_nap:
  assumes "cos w2 c = Some co2" "plain s co2" "scheds w2 s = Some sc2" "sc_status sc2 = SCHEDULE_STATUS_RUNNING"
  shows "leave (Suc fuel) q m s l c (w2\<lparr>sigmask := x\<rparr>) = (if c = l then Done None (w2\<lparr>sigmask := x, scheds := (scheds w2)(s \<mapsto> sc2\<lparr>curr_thread := NULL\<rparr>)\<rparr>)
     else process_queue (Suc fuel) q m s l (w2\<lparr>sigmask := x, scheds := (scheds w2)(s \<mapsto> sc2\<lparr>curr_thread := NULL\<rparr>)\<rparr>))"
  using leave_run [of "w2\<lparr>sigmask := x\<rparr>" c co2 s sc2 fuel q m l] assms plain_bitsD [OF assms(2)] by simp

lemma keyed_cong:
  "keyed L now M sc w \<Longrightarrow> M' \<subseteq> M \<Longrightarrow> sleepers_of sc' = sleepers_of sc \<Longrightarrow> (\<And>d. d \<in> M' \<union> sleepers_of sc \<Longrightarrow> sleep_key w' d = sleep_key w d) \<Longrightarrow> keyed L now M' sc' w'"
  unfolding keyed_def by (auto simp: subset_iff)

lemma others_bytes:
  assumes S: "sleepy L scr s ks f rest sc w" and B: "begins scr s ks f rest sc w q c xs co b w1 sc1 x" and cM: "c \<in> members f sc"
    and ss: "stack_saved (w1\<lparr>sigmask := x\<rparr>) sc1 co1 h b2 co2" "owned_stack co1 = owned_stack co"
    and d: "d \<in> members f sc" "d \<noteq> c" "own w d \<noteq> NULL"
  shows "b2 (own w d) = bytes w (own w d)"
proof -
  note D = sleepyD [OF S] and B = beginsD [OF B]
  have "own w c = owned_stack co" using B(1) by (simp add: own_def)
  then have n: "own w d \<noteq> owned_stack co" using D(6) d cM unfolding apart_def by metis
  moreover have "own w d \<noteq> owned_stack co2"
    using own_bound [OF D(5) d(1)] ss n by (auto simp: stack_saved_def B(9))
  ultimately have "b2 (own w d) = b (own w d)" using ss by (simp add: stack_saved_def B(9))
  then show ?thesis using B(12) own_not_shared [OF D(5) d(1,3)] by simp
qed

text \<open>A turn that ends in a sleep, in the ready queue or in the tree.\<close>

lemma turn_back:
  assumes S: "sleepy L scr s ks f rest sc w" and q: "f q = c # xs" and d: "dropWhile is_say (rest c) = Nap m # bs"
    and B: "begins scr s ks f rest sc w q c xs co b w1 sc1 x"
    and n: "goes_through c (rest c) (w1\<lparr>sigmask := x\<rparr>) = Swap (CoCtx c) SchedCtx w2 (goes_through c bs)"
    and w2: "w2 = w1\<lparr>sigmask := x, stdout := spoken co (rest c) (stdout w), scheds := (scheds w1)(s \<mapsto> sc2), tick := t, heap := h, bytes := b2, cos := (cos w1)(c \<mapsto> co2)\<rparr>"
    and sc2: "sc2 = sc1\<lparr>queues := qs2, sleeping := sl2\<rparr>" and t: "tick w < t" "t \<le> tick w + 3"
    and ss: "stack_saved (w1\<lparr>sigmask := x\<rparr>) sc1 co1 h b2 co2" "owned_stack co1 = owned_stack co" "cid co1 = cid co"
    and c2: "co_ctx co2 = CtxSaved" "plain s co2" "\<not> testb COROUTINE_STATUS_NEW co2" "testb COROUTINE_STATUS_SLEEPING co2 = (c \<in> sleepers_of sc2)"
    and tm: "timers_ok w2 s sc2" and qs: "tq_both qs2 f'" "\<And>i. sleepers_of sc2 \<inter> set (f' i) = {}" and M: "members f' sc2 = members f sc"
    and sl: "\<And>d. d \<noteq> c \<Longrightarrow> (d \<in> sleepers_of sc2) = (d \<in> sleepers_of sc)"
    and k: "keyed L (elapsed (environ w) (birth sc) t) (members f sc) sc2 w2"
  shows "takes_turn L scr s ks f rest sc w q c"
proof -
  note D = sleepyD [OF S] and b = beginsD [OF B] and cM = queue_member [where f = f and sc = sc, OF q]
  let ?sc' = "sc2\<lparr>curr_thread := NULL\<rparr>"
  let ?w' = "w2\<lparr>sigmask := sigmask w1, scheds := (scheds w2)(s \<mapsto> ?sc')\<rparr>"
  let ?ks' = "ks(CoCtx c \<mapsto> (\<lambda>v. goes_through c bs (v\<lparr>sigmask := sigmask w2\<rparr>)))"
  have sl': "sleepers_of ?sc' = sleepers_of sc2" by (simp add: sleepers_of_def)
  have M': "members f' ?sc' = members f sc" using M by (simp add: members_def sleepers_of_def)
  have lv: "leave (Suc fuel) q m' s l c (w2\<lparr>sigmask := sigmask w1\<rparr>) = (if c = l then Done None ?w' else process_queue (Suc fuel) q m' s l ?w')" for fuel m' l
    by (rule leave_nap [OF _ c2(2)]) (use D(4) in \<open>simp_all add: sched_fine_def w2 sc2 b(10)\<close>)
  have cids: "map_option cid (cos ?w' d) = map_option cid (cos w d)" for d
    using ss(1,3) b(1) by (simp add: w2 b(9) stack_saved_def)
  have "sleepy L scr s ?ks' f' (rest(c := bs)) ?sc' ?w'"
  proof (rule sleepy_update [OF S, where c = c])
    show "timers_ok ?w' s ?sc'" by (rule timers_ok_cong [OF tm]) simp_all
    show "sched_fine s ?sc' ?w'" using b(14) ss(1) by (auto simp: running_def sched_fine_def stack_saved_def w2 sc2 b(9,10))
    show "bytes ?w' (own w d) = bytes w (own w d)" if "d \<in> members f' ?sc'" "d \<noteq> c" "own w d \<noteq> NULL" for d
      using others_bytes [OF S B cM ss(1,2)] that M' by (simp add: w2)
    have "stack_ok ?w' ?sc' co2"
      using ss(1) stack_ok_cong [of ?w' "w1\<lparr>sigmask := x, heap := h, bytes := b2\<rparr>" ?sc' sc1 co2] by (simp add: stack_saved_def w2 sc2)
    moreover have "own ?w' c = own w c \<or> nalloc (heap w) < own ?w' c"
      using ss b(1) by (auto simp: own_def w2 b(9) stack_saved_def)
    ultimately show "live scr s ?ks' (rest(c := bs)) {c} ?sc' ?w' \<and> (own ?w' c = own w c \<or> nalloc (heap w) < own ?w' c)"
      using b(2) c2 naps_ok_drop [OF b(5) d] by (auto simp: live_def will_do_def w2 sl')
    show "nalloc (heap w) \<le> nalloc (heap ?w')" using ss(1) by (simp add: stack_saved_def w2 b(9))
    show "registered (members f' ?sc') ?sc' ?w'" using D(7) cids unfolding M' registered_def by (simp add: sc2 b(10))
    have "elapsed (environ ?w') (birth ?sc') (tick ?w') = elapsed (environ w) (birth sc) t" by (simp add: w2 b(9) sc2 b(10))
    then show "keyed L (elapsed (environ ?w') (birth ?sc') (tick ?w')) (members f' ?sc') ?sc' ?w'"
      unfolding M' by (simp only:) (rule keyed_cong [OF k order_refl sl'], simp add: sleep_key_def)
  qed (use qs M' sl sl' in \<open>simp_all add: w2 b(9) sc2 b(10)\<close>)
  moreover have "ledger (rest(c := bs)) (members f sc) ?w' = ledger rest (members f sc) w"
    by (rule ledger_nap [where rest = rest, OF _ cM d b(1)]) (use cids in \<open>simp_all add: w2\<close>)
  then have "onward 3 rest (members f sc) sc w (rest(c := bs)) (members f' ?sc') ?sc' ?w'"
    unfolding M' onward_def using t cM by (auto simp: w2 b(9) sc2 b(10) spoken_def suffix_def)
  moreover have "Suc (weight (rest(c := bs)) (members f' ?sc')) = weight rest (members f sc)"
    unfolding M' using members_finite cM d by (rule weight_nap)
  ultimately show ?thesis unfolding takes_turn_def using b(8,13) n lv by metis
qed

lemma turn_nap0:
  assumes S: "sleepy L scr s ks f rest sc w" and q: "f q = c # xs" and d: "dropWhile is_say (rest c) = Nap 0 # bs"
    and N: "clock_runs K (environ w) (birth sc) (tick w) N" "tick w + 3 \<le> N"
  shows "takes_turn L scr s ks f rest sc w q c"
proof -
  note D = sleepyD [OF S]
  obtain co b w1 sc1 x where B: "begins scr s ks f rest sc w q c xs co b w1 sc1 x" by (rule sleepy_enter [OF S q])
  note b = beginsD [OF B]
  let ?q = "qid_of (w1\<lparr>sigmask := x\<rparr>) c" and ?out = "spoken co (rest c) (stdout w)"
  let ?sc2 = "sc1\<lparr>queues := TAILQ_INSERT_TAIL ?q c (queues sc1)\<rparr>" and ?f' = "(f(q := xs))(?q := (f(q := xs)) ?q @ [c])"
  have v: "scheds (w1\<lparr>sigmask := x\<rparr>) = scheds w1" "cos (w1\<lparr>sigmask := x\<rparr>) = cos w1" "tick (w1\<lparr>sigmask := x\<rparr>) = tick w" by (simp_all add: b(9))
  from goes_through_nap0 [OF b(14) d, unfolded v spoken_entered [OF B]] obtain t h b2 co2 where
    n: "goes_through c (rest c) (w1\<lparr>sigmask := x\<rparr>) = Swap (CoCtx c) SchedCtx (w1\<lparr>sigmask := x, stdout := ?out, scheds := (scheds w1)(s \<mapsto> ?sc2),
        tick := t, heap := h, bytes := b2, cos := (cos w1)(c \<mapsto> co2)\<rparr>) (goes_through c bs)" (is "_ = Swap _ _ ?w2 _") "tick w < t" "t \<le> tick w + 2"
      "stack_saved (w1\<lparr>sigmask := x\<rparr>) sc1 (entered co) h b2 co2" "co_ctx co2 = CtxSaved"
      "\<forall>a. a \<noteq> COROUTINE_FLAGS_ALLOCSTACKMEM \<longrightarrow> testb a co2 = (a \<noteq> COROUTINE_STATUS_RUNNING \<and> (a = COROUTINE_STATUS_READY \<or> testb a (entered co)))"
    by blast
  have sl: "sleepers_of ?sc2 = sleepers_of sc" by (simp add: sleepers_of_def b(10))
  have p2: "plain s co2" using b(3) n(4,6) by (simp add: plain_def plain_bits_def stack_saved_def)
  have key: "sleep_key ?w2 d = sleep_key w d" for d
    using b(1) n(4) by (simp add: sleep_key_def b(9) stack_saved_def)
  show ?thesis
  proof (rule turn_back [OF S q d B n(1) refl _ n(2) _ n(4)])
    show "?sc2 = sc1\<lparr>queues := TAILQ_INSERT_TAIL ?q c (queues sc1), sleeping := sleeping sc1\<rparr>" by simp
    show "tq_both (TAILQ_INSERT_TAIL ?q c (queues sc1)) ?f'"
      by (rule tailq.push_law [OF b(11,2)]) (rule queue_distinct(2) [OF D(2) q])
    show "sleepers_of ?sc2 \<inter> set (?f' i) = {}" for i
      using D(3) [of i] D(3) [of q] b(6) q by (auto simp: sl)
    show "members ?f' ?sc2 = members f sc"
      unfolding members_def sl using q by (cases q; cases ?q) auto
    show "timers_ok ?w2 s ?sc2"
      by (rule timers_ok_cong [OF D(1)]) (use b(6) in \<open>auto simp: b(9,10) sleepers_of_def\<close>)
    have "elapsed (environ w) (birth sc) (tick w) \<le> elapsed (environ w) (birth sc) t"
      by (rule elapsed_mono [OF N(1)]) (use n(2,3) N(2) in simp_all)
    from keyed_mono [OF D(9) this]
    show "keyed L (elapsed (environ w) (birth sc) t) (members f sc) ?sc2 ?w2"
      by (rule keyed_cong) (use sl key in simp_all)
  qed (use n(3,5,6) b(3,6,7) p2 in \<open>simp_all add: sl\<close>)
qed

lemma wake_key_unat:
  assumes "elapsed (environ w) (birth sc) (tick w) < 2 ^ 63" "j \<le> L" "L < 2 ^ 32" "usecs_of m \<noteq> 0"
  shows "elapsed (environ w) (birth sc) (tick w) < unat (wake_key sc w m + of_nat j)"
    and "unat (wake_key sc w m + of_nat j) \<le> elapsed (environ w) (birth sc) (tick w) + 2 ^ 32 + j"
proof -
  let ?x = "elapsed (environ w) (birth sc) (tick w)" and ?u = "unat (usecs_of m)"
  have "unat (word_of_int m * 1000 :: u32) < 2 ^ 32" using unsigned_less [of "word_of_int m * 1000 :: u32", where 'a = nat] by simp
  then have u: "?u < 2 ^ 32"
    unfolding usecs_of_def unsigned_ucast_eq by (rule order_le_less_trans [rotated]) (simp add: take_bit_nat_less_eq_self)
  have j: "unat (of_nat j :: u64) = j" using assms(2,3) by (simp add: unat_of_nat take_bit_nat_eq_self)
  have "unat (wake_key sc w m) = ?x + ?u"
    unfolding wake_key_def elapsed_def by (rule unat_add_lem [THEN iffD1]) (use assms(1) u in \<open>simp add: elapsed_def\<close>)
  then have "unat (wake_key sc w m + of_nat j) = ?x + ?u + j"
    using unat_add_lem [of "wake_key sc w m" "of_nat j"] assms u j by simp
  moreover have "0 < ?u" using assms(4) by (simp add: unat_gt_0)
  ultimately show "?x < unat (wake_key sc w m + of_nat j)" "unat (wake_key sc w m + of_nat j) \<le> ?x + 2 ^ 32 + j" using u by simp_all
qed

lemma nap_usecs: "m \<noteq> 0 \<Longrightarrow> nap_ok m \<Longrightarrow> usecs_of (sint m) \<noteq> 0"
proof -
  assume "m \<noteq> 0" "nap_ok m"
  moreover have "unat (usecs_of (sint m)) = unat (m * 1000)"
    unfolding usecs_of_def unsigned_ucast_eq using unsigned_less [of "m * 1000", where 'a = nat] by (simp add: take_bit_nat_eq_self)
  ultimately show ?thesis by (auto simp: nap_ok_def word_unat_eq_iff)
qed

lemma keyed_nap:
  assumes k: "keyed L now M sc w" and sl: "sleepers_of sc2 = insert c (sleepers_of sc)"
    and key: "\<And>d. d \<noteq> c \<Longrightarrow> sleep_key w2 d = sleep_key w d" and now: "now \<le> now'" "now < unat (sleep_key w2 c)" "unat (sleep_key w2 c) \<le> now' + 2 ^ 32 + L"
  shows "keyed L now' M sc2 w2"
  unfolding keyed_def
proof (intro conjI ballI)
  fix a assume a: "a \<in> sleepers_of sc2"
  show "unat (sleep_key w2 a) \<le> now' + 2 ^ 32 + L"
  proof (cases "a = c")
    case False
    then have "unat (sleep_key w a) \<le> now + 2 ^ 32 + L" using k a by (simp add: keyed_def sl)
    then show ?thesis using False now(1) by (simp add: key)
  qed (use now(3) in simp)
next
  fix d assume "d \<in> M - sleepers_of sc2"
  then have d: "d \<noteq> c" "unat (sleep_key w d) \<le> now" "\<forall>a \<in> sleepers_of sc. sleep_key w a \<noteq> sleep_key w d"
    using k by (auto simp: keyed_def sl)
  then show "unat (sleep_key w2 d) \<le> now'" using now(1) by (simp add: key)
  fix a assume "a \<in> sleepers_of sc2"
  then show "sleep_key w2 a \<noteq> sleep_key w2 d"
    using d now(2) by (cases "a = c") (auto simp: key sl)
qed

lemma turn_nap:
  assumes S: "sleepy L scr s ks f rest sc w" and q: "f q = c # xs" and d: "dropWhile is_say (rest c) = Nap m # bs" "m \<noteq> 0"
    and N: "clock_runs K (environ w) (birth sc) (tick w) N" "tick w + 3 \<le> N" and L: "L < 2 ^ 32"
  shows "takes_turn L scr s ks f rest sc w q c"
proof -
  note D = sleepyD [OF S]
  obtain co b w1 sc1 x where B: "begins scr s ks f rest sc w q c xs co b w1 sc1 x" by (rule sleepy_enter [OF S q])
  note b = beginsD [OF B]
  let ?v = "w1\<lparr>sigmask := x\<rparr>" and ?now = "elapsed (environ w) (birth sc)" and ?out = "spoken co (rest c) (stdout w)"
  have v: "scheds ?v = scheds w1" "cos ?v = cos w1" "tick ?v = tick w" "wake_key sc1 ?v (sint m) = wake_key sc w (sint m)"
    by (simp_all add: b(9,10) wake_key_def)
  have sl1: "sleepers_of sc1 = sleepers_of sc" "sleeping sc1 = sleeping sc" by (simp_all add: sleepers_of_def b(10))
  have tv: "timers_ok ?v s sc1" by (rule timers_ok_cong [OF D(1)]) (use b(6) in \<open>auto simp: b(9,10) sleepers_of_def\<close>)
  have stale: "\<forall>a \<in> sleepers_of sc1. sleep_key ?v a \<noteq> sleep_usecs (entered co)"
  proof
    fix a assume "a \<in> sleepers_of sc1"
    then have "sleep_key w a \<noteq> sleep_key w c" "a \<noteq> c" using D(9) queue_member [where f = f and sc = sc, OF q] b(6) unfolding keyed_def sl1 by auto
    then show "sleep_key ?v a \<noteq> sleep_usecs (entered co)" using b(1) by (simp add: sleep_key_def b(9))
  qed
  have l64: "length (inorder (sleeping sc1)) < 2 ^ 64" "c \<notin> sleepers_of sc1" using sleepers_few [OF S] L b(6) by (simp_all add: sl1)
  have nap: "nap_ok m" "m < 2 ^ 31" using naps_ok_drop [OF b(5) d(1)] by (simp_all add: nap_ok_def)
  from goes_through_nap [OF b(14) d _ tv l64(2) stale l64(1), unfolded v spoken_entered [OF B]] nap obtain t h b2 co2 sc2 j w2 where
    n: "goes_through c (rest c) ?v = Swap (CoCtx c) SchedCtx w2 (goes_through c bs)"
      "w2 = w1\<lparr>sigmask := x, stdout := ?out, scheds := (scheds w1)(s \<mapsto> sc2), tick := t, heap := h, bytes := b2, cos := (cos w1)(c \<mapsto> co2)\<rparr>"
      "tick w < t" "t \<le> tick w + 3" "j \<le> length (inorder (sleeping sc1))"
      "stack_saved ?v sc1 ((entered co)\<lparr>sleep_usecs := wake_key sc w (sint m) + of_nat j\<rparr>) h b2 co2" "co_ctx co2 = CtxSaved"
      "\<forall>a. a \<noteq> COROUTINE_FLAGS_ALLOCSTACKMEM \<longrightarrow> testb a co2 = (a \<noteq> COROUTINE_STATUS_RUNNING \<and> a \<noteq> COROUTINE_FLAGS_EXPIRED \<and>
         (a = COROUTINE_STATUS_SLEEPING \<or> testb a (entered co)))"
      "timers_ok w2 s sc2" "sc2 = sc1\<lparr>sleeping := sleeping sc2\<rparr>" "sleepers_of sc2 = insert c (sleepers_of sc1)" by blast
  have p2: "plain s co2" using b(3) n(6,8) by (simp add: plain_def plain_bits_def stack_saved_def)
  have key: "sleep_key w2 d = (if d = c then wake_key sc w (sint m) + of_nat j else sleep_key w d)" for d
    using n(6) by (simp add: sleep_key_def n(2) b(9) stack_saved_def)
  have now: "?now (tick w) \<le> ?now t" "?now (tick w) < 2 ^ 63"
    using elapsed_mono [OF N(1), of "tick w" t] elapsed_mono [OF N(1), of "tick w" N] n(3,4) N unfolding clock_runs_def by simp_all
  have jL: "j \<le> L" using n(5) sleepers_few [OF S] by (simp add: sl1)
  note wk = wake_key_unat [OF now(2) jL L nap_usecs [OF d(2) nap(1)]]
  show ?thesis
  proof (rule turn_back [OF S q d(1) B n(1,2) _ n(3,4) n(6) _ _ n(7) p2 _ _ n(9)])
    show "sc2 = sc1\<lparr>queues := queues sc1, sleeping := sleeping sc2\<rparr>" using n(10) by simp
    show "tq_both (queues sc1) (f(q := xs))" by (rule b(11))
    show "sleepers_of sc2 \<inter> set ((f(q := xs)) i) = {}" for i
      using D(3) [of i] D(3) [of q] q queue_distinct(2) [OF D(2) q, of i] by (auto simp: n(11) sl1)
    show "members (f(q := xs)) sc2 = members f sc"
      unfolding members_def n(11) sl1 using q by (cases q) auto
    show "keyed L (?now t) (members f sc) sc2 w2"
      by (rule keyed_nap [OF D(9) n(11) [unfolded sl1]]) (use key now(1) wk jL in simp_all)
  qed (use n(8,11) b(6) in \<open>auto simp: sl1\<close>)
qed

text \<open>What remains of the last turn: the coroutine is released.\<close>

lemma leave_exit:
  assumes "cos w c = Some co" "\<not> testb COROUTINE_STATUS_SCHEDCALL co" "\<not> testb COROUTINE_STATUS_KILLED co" "testb COROUTINE_STATUS_EXITED co"
    "\<not> testb COROUTINE_FLAGS_INCOROPOOL co" "\<not> testb COROUTINE_STATUS_SLEEPING co" "scheds w s = Some sc"
    "freecoro c (w\<lparr>scheds := (scheds w)(s \<mapsto> sc\<lparr>curr_thread := NULL\<rparr>)\<rparr>) = Done () w'" "scheds w' s = Some sc'" "sc_status sc' = SCHEDULE_STATUS_RUNNING"
  shows "leave (Suc fuel) q m s l c w = (if c = l then Done None w' else process_queue (Suc fuel) q m s l w')"
proof -
  let ?w = "w\<lparr>scheds := (scheds w)(s \<mapsto> sc\<lparr>curr_thread := NULL\<rparr>)\<rparr>"
  have "schedule_cancel_sleep c ?w = Done () ?w" by (rule cancel_sleep_noop) (use assms(1,6) in simp_all)
  then have "settle s c w = Done (- 1) w'"
    using assms(1-5,7)
    by (simp add: settle_def seq_Done [where m = "schedule_cancel_sleep c" and s = ?w] seq_Done [where m = "freecoro c", OF assms(8)] ret_def)
  from leave_settle [OF assms(1,2) this assms(9)] assms(10) show ?thesis by simp
qed

lemma exit_run:
  assumes S: "sleepy L scr s ks f rest sc w" and q: "f q = c # xs" and d: "dropWhile is_say (rest c) = []"
    and B: "begins scr s ks f rest sc w q c xs co b w1 sc1 x"
  obtains w2 k w' ht sc' where "goes_through c (rest c) (w1\<lparr>sigmask := x\<rparr>) = Swap (CoCtx c) SchedCtx w2 k"
    "\<And>fuel m l. leave (Suc fuel) q m s l c (w2\<lparr>sigmask := sigmask w1\<rparr>) = (if c = l then Done None w' else process_queue (Suc fuel) q m s l w')"
    "scheds w' s = Some sc'" "sc' = sc1\<lparr>curr_thread := NULL, coro_count := coro_count sc - 1, cid_co_map := ht\<rparr>"
    "ht_wf ht" "ht_abs ht = (ht_abs (cid_co_map sc))(cid co := None)" "cos w' = (cos w)(c := None)"
    "\<And>p. p \<noteq> sc_stack sc \<Longrightarrow> p \<noteq> owned_stack co \<Longrightarrow> bytes w' p = bytes w p" "bytes w' (sc_stack sc) = bytes w1 (sc_stack sc)"
    "environ w' = environ w" "tick w' = Suc (tick w)" "heap w' = heap w" "fds w' = fds w" "sched_key w' = sched_key w"
    "stdout w' = spoken co (rest c) (stdout w)"
proof -
  note D = sleepyD [OF S] and b = beginsD [OF B]
  note pb = plain_bitsD [OF b(3)]
  let ?co2 = "(clrb COROUTINE_STATUS_RUNNING (setb COROUTINE_STATUS_EXITED (setb COROUTINE_STATUS_RUNNING (entered co))))\<lparr>co_ctx := CtxSaved\<rparr>"
  have v: "cos (w1\<lparr>sigmask := x\<rparr>) = cos w1" "tick (w1\<lparr>sigmask := x\<rparr>) = tick w" by (simp_all add: b(9))
  define w2 where "w2 = w1\<lparr>sigmask := x, stdout := spoken co (rest c) (stdout w), tick := Suc (tick w), cos := (cos w1)(c \<mapsto> ?co2)\<rparr>"
  from goes_through_end [OF b(14) d, unfolded v spoken_entered [OF B]] obtain k where
    n: "goes_through c (rest c) (w1\<lparr>sigmask := x\<rparr>) = Swap (CoCtx c) SchedCtx w2 k" unfolding w2_def by blast
  let ?sc2 = "sc1\<lparr>curr_thread := NULL\<rparr>" and ?z = "w2\<lparr>sigmask := sigmask w1\<rparr>"
  let ?u = "?z\<lparr>scheds := (scheds ?z)(s \<mapsto> ?sc2)\<rparr>"
  have reg: "ht_abs (cid_co_map sc) (cid co) = Some c" and wf: "ht_wf (cid_co_map sc)"
    using D(4,7) queue_member [where f = f and sc = sc, OF q] b(1) by (simp_all add: registered_def sched_fine_def)
  from htable_delete_present [OF wf pb(2) reg] obtain ht where
    ht: "htable_delete (cid_co_map sc) (cid co) = Some (0, Some c, ht)" "ht_wf ht" "ht_abs ht = (ht_abs (cid_co_map sc))(cid co := None)" by blast
  have u: "cos ?u c = Some ?co2" "scheds ?u (co_sched ?co2) = Some ?sc2" "htable_delete (cid_co_map ?sc2) (cid ?co2) = Some (0, Some c, ht)"
    "owned_stack ?co2 \<noteq> NULL \<Longrightarrow> bytes ?u (owned_stack ?co2) \<noteq> None"
    using pb(1) ht(1) b(4,12) by (auto simp: w2_def b(9,10) stack_ok_def)
  obtain w' where
    w': "freecoro c ?u = Done () w'" "cos w' = (cos ?u)(c := None)"
      "scheds w' = (scheds ?u)(co_sched ?co2 \<mapsto> ?sc2\<lparr>coro_count := coro_count ?sc2 - 1, cid_co_map := ht\<rparr>)"
      "bytes w' = (if owned_stack ?co2 = NULL then bytes ?u else (bytes ?u)(owned_stack ?co2 := None))"
      "w' = ?u\<lparr>scheds := scheds w', bytes := bytes w', cos := cos w'\<rparr>"
    by (rule freecoro_run [OF u(1) b(2) _ _ u(4) u(2,3)]) (use pb in auto)
  let ?sc' = "sc1\<lparr>curr_thread := NULL, coro_count := coro_count sc - 1, cid_co_map := ht\<rparr>"
  have sc': "scheds w' s = Some ?sc'" using w'(3) pb(1) by (simp add: b(10))
  have lv: "leave (Suc fuel) q m s l c ?z = (if c = l then Done None w' else process_queue (Suc fuel) q m s l w')" for fuel m l
    by (rule leave_exit [OF _ _ _ _ _ _ _ w'(1) sc', where co = ?co2]) (use pb b(7) D(4) in \<open>simp_all add: w2_def b(9,10) sched_fine_def\<close>)
  show thesis
  proof (rule that [OF n lv sc' refl ht(2,3)])
    show "cos w' = (cos w)(c := None)" using w'(2) by (auto simp: w2_def b(9))
    show "bytes w' p = bytes w p" if "p \<noteq> sc_stack sc" "p \<noteq> owned_stack co" for p using w'(4) that b(12) by (simp add: w2_def b(9))
    show "bytes w' (sc_stack sc) = bytes w1 (sc_stack sc)" using w'(4) b(4) by (auto simp: w2_def b(9) stack_ok_def)
  qed (subst w'(5), simp add: w2_def b(9))+
qed

lemma registered_exit:
  assumes "registered M sc w" "c \<in> M" "finite M" "cos w c = Some co" "coro_count sc' = coro_count sc - 1"
    "ht_abs (cid_co_map sc') = (ht_abs (cid_co_map sc))(cid co := None)" "cos w' = (cos w)(c := None)"
  shows "registered (M - {c}) sc' w'"
proof -
  have old: "(ht_abs (cid_co_map sc) k = Some d) = (d \<in> M \<and> map_option cid (cos w d) = Some k)" for k d
    using assms(1) by (simp add: registered_def)
  have "(ht_abs (cid_co_map sc') k = Some d) = (d \<in> M - {c} \<and> map_option cid (cos w' d) = Some k)" for k d
    using old [of k d] old [of k c] old [of "cid co" c] assms(2,4) by (auto simp: assms(6,7))
  moreover have "card M = Suc (card (M - {c}))" using card_Suc_Diff1 [OF assms(3,2)] by simp
  then have "coro_count sc' = of_nat (card (M - {c}))" using assms(1,5) by (simp add: registered_def)
  ultimately show ?thesis by (simp add: registered_def)
qed

text \<open>A turn that comes to the end of the script.\<close>

lemma turn_exit:
  assumes S: "sleepy L scr s ks f rest sc w" and q: "f q = c # xs" and d: "dropWhile is_say (rest c) = []"
    and N: "clock_runs K (environ w) (birth sc) (tick w) N" "tick w + 3 \<le> N"
  shows "takes_turn L scr s ks f rest sc w q c"
proof -
  note D = sleepyD [OF S]
  let ?M = "members f sc" and ?f' = "f(q := xs)"
  have cM: "c \<in> ?M" using q by (rule queue_member)
  obtain co b w1 sc1 x where B: "begins scr s ks f rest sc w q c xs co b w1 sc1 x" by (rule sleepy_enter [OF S q])
  note b = beginsD [OF B]
  obtain w2 k w' ht sc' where n: "goes_through c (rest c) (w1\<lparr>sigmask := x\<rparr>) = Swap (CoCtx c) SchedCtx w2 k"
    and lv: "\<And>fuel m l. leave (Suc fuel) q m s l c (w2\<lparr>sigmask := sigmask w1\<rparr>) = (if c = l then Done None w' else process_queue (Suc fuel) q m s l w')"
    and sc': "scheds w' s = Some sc'" "sc' = sc1\<lparr>curr_thread := NULL, coro_count := coro_count sc - 1, cid_co_map := ht\<rparr>"
    and ht: "ht_wf ht" "ht_abs ht = (ht_abs (cid_co_map sc))(cid co := None)" and cos': "cos w' = (cos w)(c := None)"
    and by': "\<And>p. p \<noteq> sc_stack sc \<Longrightarrow> p \<noteq> owned_stack co \<Longrightarrow> bytes w' p = bytes w p" "bytes w' (sc_stack sc) = bytes w1 (sc_stack sc)"
    and f': "environ w' = environ w" "tick w' = Suc (tick w)" "heap w' = heap w" "fds w' = fds w" "sched_key w' = sched_key w"
      "stdout w' = spoken co (rest c) (stdout w)" by (rule exit_run [OF S q d B]) (rule that)
  have sl: "sleepers_of sc' = sleepers_of sc" by (simp add: sleepers_of_def sc'(2) b(10))
  have M: "members ?f' sc' = ?M - {c}"
    unfolding members_def sl using q b(6) queue_distinct(2) [OF D(2) q, of QReady] queue_distinct(2) [OF D(2) q, of QUrgent] by (cases q) auto
  have "sleepy L scr s (ks(CoCtx c \<mapsto> (\<lambda>v. k (v\<lparr>sigmask := sigmask w2\<rparr>)))) ?f' rest sc' w'"
  proof (rule sleepy_update [OF S, where c = c])
    show "timers_ok w' s sc'" by (rule timers_ok_cong [OF D(1) sc'(1)]) (use b(6) cos' in \<open>auto simp: sc'(2) b(10) sleepers_of_def\<close>)
    show "tq_both (queues sc') ?f'" using b(11) by (simp add: sc'(2))
    show "sleepers_of sc' \<inter> set (?f' i) = {}" for i using D(3) [of i] D(3) [of q] q by (auto simp: sl)
    show "sched_fine s sc' w'" using b(14) D(4) sc'(1) f' by'(2) ht(1) by (simp add: running_def sched_fine_def sc'(2) b(10))
    show "bytes w' (own w d) = bytes w (own w d)" if "d \<in> members ?f' sc'" "d \<noteq> c" "own w d \<noteq> NULL" for d
    proof -
      have dM: "d \<in> ?M" and "own w c = owned_stack co" using that(1) M b(1) by (simp_all add: own_def)
      then have "own w d \<noteq> owned_stack co" using D(6) cM that(2,3) unfolding apart_def by metis
      then show ?thesis using by'(1) own_not_shared [OF D(5) dM that(3)] by simp
    qed
    show "registered (members ?f' sc') sc' w'"
      unfolding M by (rule registered_exit [OF D(7) cM members_finite b(1) _ _ cos']) (simp_all add: sc'(2) ht(2))
    have "elapsed (environ w) (birth sc) (tick w) \<le> elapsed (environ w) (birth sc) (Suc (tick w))"
      by (rule elapsed_mono [OF N(1)]) (use N(2) in simp_all)
    from keyed_mono [OF D(9) this]
    have "keyed L (elapsed (environ w) (birth sc) (Suc (tick w))) (?M - {c}) sc' w'"
      by (rule keyed_cong) (use sl cos' b(6) in \<open>auto simp: sleep_key_def\<close>)
    then show "keyed L (elapsed (environ w') (birth sc') (tick w')) (members ?f' sc') sc' w'"
      unfolding M by (simp add: f' sc'(2) b(10))
  qed (use M f' cos' sl in \<open>auto simp: sc'(2) b(10)\<close>)
  moreover have "onward 3 rest ?M sc w rest (members ?f' sc') sc' w'"
    unfolding M onward_def using cM ledger_exit [where rest = rest and w' = w', OF members_finite cM d b(1)] f' cos'
    by (auto simp: sc'(2) b(10) spoken_def suffix_def)
  moreover have "filter (Not \<circ> is_say) (rest c) = []" using d by (simp add: dropWhile_eq_Nil_conv filter_empty_conv)
  then have "Suc (weight rest (members ?f' sc')) = weight rest ?M"
    unfolding M weight_def using sum.remove [OF members_finite cM, of "\<lambda>c. turns_left (rest c)"] by (simp add: turns_left_def)
  ultimately show ?thesis unfolding takes_turn_def using b(8,13) n lv by metis
qed

lemma sleepy_turn:
  assumes S: "sleepy L scr s ks f rest sc w" and q: "f q = c # xs" and N: "clock_runs K (environ w) (birth sc) (tick w) N" "tick w + 3 \<le> N" and L: "L < 2 ^ 32"
  shows "takes_turn L scr s ks f rest sc w q c"
proof (cases "dropWhile is_say (rest c)")
  case Nil
  then show ?thesis by (rule turn_exit [OF S q _ N])
next
  case (Cons a bs)
  then obtain m where a: "a = Nap m" using hd_dropWhile [of is_say "rest c"] by (cases a) auto
  show ?thesis
  proof (cases "m = 0")
    case True
    then show ?thesis using turn_nap0 [OF S q _ N] Cons a by simp
  next
    case False
    then show ?thesis using turn_nap [OF S q _ _ N L] Cons a by simp
  qed
qed

end
