(* ===== verification/Dyco_Epoll.thy ===== *)
theory Dyco_Epoll
  imports Dyco_Notify
begin

text \<open>
  Multiplexing inside a coroutine (\<^verbatim>\<open>src/dyco_epoll.c\<close>): an epoll instance of its own, waited for through
  the scheduler, and the hooks that make \<^verbatim>\<open>epoll_wait\<close> and \<^verbatim>\<open>poll\<close> switch instead of block.
  \<open>- 1\<close> stands for a failed call; a successful wait returns the ready descriptors.
\<close>

definition dyco_epoll_init :: "int M" where
  "dyco_epoll_init =
    with_current (ret (- 1)) (\<lambda>c.
    bind (co_get c) (\<lambda>co.
      if testb COROUTINE_FLAGS_IOMULTIPLEXING co then ret (- 1)
      else
        bind epoll_create (\<lambda>n.
        seq (co_set c (\<lambda>co. co\<lparr>co_epollfd := n\<rparr>))
       (seq (DYCO_MUSTNOT (n = - 1))
       (seq (co_set c (setb COROUTINE_FLAGS_IOMULTIPLEXING))
            (ret 0))))))"

text \<open>\<^verbatim>\<open>DYCO_ABORT()\<close> ends the process.\<close>

definition dyco_epoll_wait :: "nat \<Rightarrow> int \<Rightarrow> (int + fd list) M" where
  "dyco_epoll_wait maxevents timeout =
    with_current (ret (Inl (- 1))) (\<lambda>c.
    bind (co_get c) (\<lambda>co.
      if \<not> testb COROUTINE_FLAGS_IOMULTIPLEXING co then fail Exit
      else if timeout = 0 then epoll_wait_f (co_epollfd co) maxevents 0
      else
        seq (schedule_sched_waitR c (co_epollfd co))
       (seq (schedule_sched_sleep c timeout)
       (seq (yield c)
       (seq (schedule_cancel_sleep c)
       (bind (co_get c) (\<lambda>co.
        seq (schedule_cancel_wait c (co_epollfd co))
            (epoll_wait_f (co_epollfd co) maxevents 0))))))))"

definition dyco_epoll_add :: "fd \<Rightarrow> u32 \<Rightarrow> int M" where
  "dyco_epoll_add n ev =
    with_current (ret (- 1)) (\<lambda>c.
    bind (co_get c) (\<lambda>co.
      if \<not> testb COROUTINE_FLAGS_IOMULTIPLEXING co then ret (- 1)
      else bind (epoll_ctl_add (co_epollfd co) n ev) (\<lambda>r. seq (DYCO_MUST (r = 0)) (ret 0))))"

definition dyco_epoll_del :: "fd \<Rightarrow> int M" where
  "dyco_epoll_del n =
    with_current (ret (- 1)) (\<lambda>c.
    bind (co_get c) (\<lambda>co.
      if \<not> testb COROUTINE_FLAGS_IOMULTIPLEXING co then ret (- 1)
      else bind (epoll_ctl_del (co_epollfd co) n) (\<lambda>r. seq (DYCO_MUST (r = 0)) (ret 0))))"

definition dyco_epoll_destroy :: "unit M" where
  "dyco_epoll_destroy =
    with_current (ret ()) (\<lambda>c.
    bind (co_get c) (\<lambda>co.
      if \<not> testb COROUTINE_FLAGS_IOMULTIPLEXING co then ret ()
      else
        seq (co_set c (clrb COROUTINE_FLAGS_IOMULTIPLEXING))
       (seq (close (co_epollfd co))
            (ret ()))))"

section \<open>Hooks\<close>

text \<open>
  The hook of \<^verbatim>\<open>epoll_wait\<close> without a time limit calls \<^verbatim>\<open>epoll_wait_f(epfd, events, timeout, 0)\<close>:
  the time limit stands where the number of events belongs.
\<close>

definition epoll_wait_hook :: "fd \<Rightarrow> nat \<Rightarrow> int \<Rightarrow> (int + fd list) M" where
  "epoll_wait_hook epfd maxevents timeout =
    (if timeout = 0 then epoll_wait_f epfd (nat timeout) 0
     else
       with_current (ret (Inl (- 1))) (\<lambda>c.
       seq (park c epfd timeout)
           (epoll_wait_f epfd maxevents 0)))"

text \<open>The system's \<^verbatim>\<open>poll\<close> on an array: the environment decides the result.\<close>

definition poll_f :: "(fd \<times> u32) list \<Rightarrow> int \<Rightarrow> int M" where
  "poll_f pfds timeout = bind (consult sysres) (\<lambda>(r, _). ret r)"

primrec poll_add :: "fd \<Rightarrow> (fd \<times> u32) list \<Rightarrow> unit M" where
  "poll_add epfd [] = ret ()"
| "poll_add epfd (x # xs) =
    bind (epoll_ctl_add epfd (fst x) (snd x)) (\<lambda>r. seq (DYCO_MUST (r = 0)) (poll_add epfd xs))"

primrec poll_del :: "fd \<Rightarrow> (fd \<times> u32) list \<Rightarrow> unit M" where
  "poll_del epfd [] = ret ()"
| "poll_del epfd (x # xs) =
    bind (epoll_ctl_del epfd (fst x)) (\<lambda>r. seq (DYCO_MUST (r = 0)) (poll_del epfd xs))"

definition poll_hook :: "(fd \<times> u32) list \<Rightarrow> int \<Rightarrow> int M" where
  "poll_hook pfds timeout =
    (if timeout = 0 then poll_f pfds 0
     else
       with_current (ret (- 1)) (\<lambda>c.
       bind epoll_create (\<lambda>epfd.
       seq (DYCO_MUSTNOT (epfd = - 1))
      (seq (poll_add epfd pfds)
      (seq (park c epfd timeout)
      (seq (poll_del epfd pfds)
           (poll_f pfds timeout)))))))"

end
