(* ===== verification/Event_Correct.thy ===== *)
theory Event_Correct
  imports Run_Correct Dyco_Epoll
begin

text \<open>
  Phase D of the main loop, from the descriptors the kernel reports to the ready queues; and what becomes of a
  coroutine with an epoll instance of its own.
\<close>

section \<open>From events to the ready queues\<close>

text \<open>The coroutine the scheduler knows to wait for a descriptor.\<close>

definition waitco :: "dyco_schedule \<Rightarrow> fd \<Rightarrow> addr" where
  "waitco sc n = (case ht_abs (fd_co_map sc) (fd_key n) of None \<Rightarrow> NULL | Some c \<Rightarrow> c)"

text \<open>
  What the scheduler relies on for a reported descriptor: it is open, and if a coroutine waits for it, then that
  coroutine is alive and has registered the descriptor with the scheduler's epoll instance.
\<close>

definition event_ok :: "world \<Rightarrow> addr \<Rightarrow> dyco_schedule \<Rightarrow> fd \<Rightarrow> bool" where
  "event_ok w s sc n =
    (key_ok (fd_key n) \<and> fds w n \<noteq> None \<and> n \<noteq> sc_epollfd sc \<and>
     (case ht_abs (fd_co_map sc) (fd_key n) of
        None \<Rightarrow> True
      | Some c \<Rightarrow> c \<noteq> NULL \<and> (case cos w c of None \<Rightarrow> False | Some co \<Rightarrow> co_sched co = s \<and> testb COROUTINE_FLAGS_WAITING co) \<and>
          (case fds w (sc_epollfd sc) of Some (EpollFd l) \<Rightarrow> n \<in> fst ` set l | _ \<Rightarrow> False)))"

definition woken :: "dyco_schedule \<Rightarrow> fd list \<Rightarrow> addr list" where
  "woken sc ns = filter (\<lambda>c. c \<noteq> NULL) (map (waitco sc) ns)"

lemma woken_Cons: "woken sc (n # ns) = (if waitco sc n = NULL then woken sc ns else waitco sc n # woken sc ns)"
  by (simp add: woken_def)

lemma process_events_run:
  assumes "scheds w s = Some sc" "ht_wf (fd_co_map sc)" "fds w (sc_epollfd sc) = Some (EpollFd l)"
    "\<forall>n \<in> set ns. event_ok w s sc n" "distinct (map fd_key ns)" "distinct (woken sc ns)"
    "tq_both (queues sc) q" "\<And>i. set (woken sc ns) \<inter> set (q i) = {}"
  shows "\<exists>w' sc'. process_events ns s w = Done () w' \<and> scheds w' s = Some sc' \<and>
    tq_both (queues sc') (\<lambda>i. q i @ filter (\<lambda>c. qid_of w c = i) (woken sc ns)) \<and>
    ht_abs (fd_co_map sc') = (\<lambda>k. if k \<in> fd_key ` set ns then None else ht_abs (fd_co_map sc) k) \<and> ht_wf (fd_co_map sc')"
  using assms
proof (induction ns arbitrary: w sc l q)
  case Nil
  then show ?case by (simp add: woken_def)
next
  case (Cons n ns)
  have e: "key_ok (fd_key n)" "fds w n \<noteq> None" "n \<noteq> sc_epollfd sc" using Cons.prems(4) by (auto simp: event_ok_def)
  note get = get_waitco_run [OF Cons.prems(1,2) e(1)]
  show ?case
  proof (cases "ht_abs (fd_co_map sc) (fd_key n)")
    case None
    then have w0: "waitco sc n = NULL" by (simp add: waitco_def)
    have 1: "process_events (n # ns) s w = process_events ns s w"
      using get None by (simp add: bind_Done [where m = "schedule_get_waitco s n"])
    have h: "(\<lambda>k. if k \<in> fd_key ` set ns then None else ht_abs (fd_co_map sc) k) = (\<lambda>k. if k \<in> fd_key ` set (n # ns) then None else ht_abs (fd_co_map sc) k)"
      using None by (auto simp: fun_eq_iff)
    show ?thesis unfolding 1 woken_Cons w0 if_P [OF refl] h [symmetric]
      by (rule Cons.IH [OF Cons.prems(1-3)]) (use Cons.prems(4-8) w0 in \<open>auto simp: woken_Cons\<close>)
  next
    case (Some c)
    then have w0: "waitco sc n = c" by (simp add: waitco_def)
    from Some Cons.prems(3,4) obtain co where co: "cos w c = Some co" "co_sched co = s" "testb COROUTINE_FLAGS_WAITING co" "c \<noteq> NULL" "n \<in> fst ` set l"
      by (auto simp: event_ok_def split: option.splits)
    from process_event_run [OF co(1-4) Cons.prems(1,2) Some e(1,2) co(5) Cons.prems(3), of ns] obtain w1 sc1 where
      w1: "process_events (n # ns) s w = process_events ns s w1" "scheds w1 s = Some sc1"
        "queues sc1 = TAILQ_INSERT_TAIL (qid_of w c) c (queues sc)"
        "cos w1 = (cos w)(c \<mapsto> clrb COROUTINE_FLAGS_WAITING (setb COROUTINE_STATUS_READY co))" "ht_wf (fd_co_map sc1)"
        "ht_abs (fd_co_map sc1) = (ht_abs (fd_co_map sc))(fd_key n := None)"
        "fds w1 = (fds w)(sc_epollfd sc \<mapsto> EpollFd (filter (\<lambda>(m, _). m \<noteq> n) l))" "sc_epollfd sc1 = sc_epollfd sc" by metis
    have other: "fd_key m \<noteq> fd_key n" "m \<noteq> n" if "m \<in> set ns" for m
      using that Cons.prems(5) by (simp, metis imageI)+
    have wt: "waitco sc1 m = waitco sc m" if "m \<in> set ns" for m using other(1) [OF that] w1(6) by (simp add: waitco_def)
    have wk: "woken sc1 ns = woken sc ns" unfolding woken_def by (simp add: wt cong: map_cong)
    have c: "c \<notin> set (woken sc ns)" "woken sc (n # ns) = c # woken sc ns" using Cons.prems(6) w0 co(4) by (simp_all add: woken_Cons)
    have qid: "qid_of w1 = qid_of w" using w1(4) co(1) by (auto simp: qid_of_def urgent_in_def fun_eq_iff)
    have ev: "event_ok w1 s sc1 m" if m: "m \<in> set ns" for m
    proof -
      have "event_ok w s sc m" using Cons.prems(4) m by simp
      moreover have "ht_abs (fd_co_map sc) (fd_key m) \<noteq> Some c" 
      proof
        assume "ht_abs (fd_co_map sc) (fd_key m) = Some c"
        then have "waitco sc m = c" by (simp add: waitco_def)
        with c(1) m co(4) show False by (auto simp: woken_def)
      qed
      ultimately show ?thesis using other [OF m] w1(4,6-8) Cons.prems(3)
        by (auto simp: event_ok_def image_iff split: option.splits)
    qed
    let ?q = "q(qid_of w c := q (qid_of w c) @ [c])"
    have tq: "tq_both (queues sc1) ?q" unfolding w1(3) by (rule tailq.push_law [OF Cons.prems(7) co(4)]) (use Cons.prems(8) c(2) in auto)
    have "\<exists>w' sc'. process_events ns s w1 = Done () w' \<and> scheds w' s = Some sc' \<and>
      tq_both (queues sc') (\<lambda>i. ?q i @ filter (\<lambda>c. qid_of w1 c = i) (woken sc1 ns)) \<and>
      ht_abs (fd_co_map sc') = (\<lambda>k. if k \<in> fd_key ` set ns then None else ht_abs (fd_co_map sc1) k) \<and> ht_wf (fd_co_map sc')"
      by (rule Cons.IH [OF w1(2,5) _ _ _ _ tq, of "filter (\<lambda>(m, _). m \<noteq> n) l"])
        (use w1(7,8) ev Cons.prems(5,6,8) wk c in \<open>auto split: if_splits\<close>)
    moreover have "(\<lambda>i. ?q i @ filter (\<lambda>c. qid_of w1 c = i) (woken sc1 ns)) = (\<lambda>i. q i @ filter (\<lambda>c. qid_of w c = i) (woken sc (n # ns)))"
      using wk c(2) qid by (auto simp: fun_eq_iff)
    moreover have "(\<lambda>k. if k \<in> fd_key ` set ns then None else ht_abs (fd_co_map sc1) k) =
        (\<lambda>k. if k \<in> fd_key ` set (n # ns) then None else ht_abs (fd_co_map sc) k)" using w1(6) by (auto simp: fun_eq_iff)
    ultimately show ?thesis using w1(1) by simp
  qed
qed

text \<open>
  C9: events wake their waiters. Phase D ends, and for the descriptors \<open>ns\<close> the kernel reported it puts
  exactly the coroutines that wait for one of them behind what is on their ready queues, in the order of the report
  (urgent ones on the urgent queue); their registrations are gone and all others are kept. A descriptor nobody
  waits for is ignored.
\<close>

theorem process_events_correct:
  assumes "scheds w s = Some sc" and "ht_wf (fd_co_map sc)" and "fds w (sc_epollfd sc) = Some (EpollFd l)"
    and "\<forall>n \<in> set ns. event_ok w s sc n" and "distinct (map fd_key ns)" and "distinct (woken sc ns)"
    and "tq_both (queues sc) q" and "\<And>i. set (woken sc ns) \<inter> set (q i) = {}"
  shows "\<exists>w' sc'. process_events ns s w = Done () w' \<and> scheds w' s = Some sc' \<and>
    tq_both (queues sc') (\<lambda>i. q i @ filter (\<lambda>c. qid_of w c = i) (woken sc ns)) \<and>
    ht_abs (fd_co_map sc') = (\<lambda>k. if k \<in> fd_key ` set ns then None else ht_abs (fd_co_map sc) k) \<and> ht_wf (fd_co_map sc')"
  by (rule process_events_run [OF assms])

theorem process_events_correct_witness:
  "\<exists>w' sc'. process_events [6, 7] 1 ((world0 [8 \<mapsto> setb COROUTINE_FLAGS_WAITING co0]
      (zero_schedule\<lparr>sc_epollfd := 5, fd_co_map := htable_one\<rparr>))\<lparr>fds := [5 \<mapsto> EpollFd [(6, EPOLLIN)], 6 \<mapsto> EventFd 1, 7 \<mapsto> EventFd 1]\<rparr>) = Done () w' \<and>
    scheds w' 1 = Some sc' \<and> tq_rep (queues sc') QReady [8]"
proof -
  let ?sc = "zero_schedule\<lparr>sc_epollfd := 5, fd_co_map := htable_one\<rparr>"
  let ?w = "(world0 [8 \<mapsto> setb COROUTINE_FLAGS_WAITING co0] ?sc)\<lparr>fds := [5 \<mapsto> EpollFd [(6, EPOLLIN)], 6 \<mapsto> EventFd 1, 7 \<mapsto> EventFd 1]\<rparr>"
  have h: "ht_abs htable_one (fd_key 6) = Some 8" "ht_abs htable_one (fd_key 7) = None" "ht_wf htable_one"
    using htable_one_ok by (simp_all add: htable_one_def ht_abs_def tbl_abs_def hidx_def hkeys_def)
  have wk: "woken ?sc [6, 7] = [8]" using h by (simp add: woken_def waitco_def zero_schedule_def)
  have ev: "\<forall>n \<in> set [6, 7]. event_ok ?w 1 ?sc n" using h by (simp add: event_ok_def key_ok_def zero_schedule_def)
  have q: "tq_both (queues ?sc) (\<lambda>_. [])" by (simp add: zero_schedule_def tq_both_def tq_rep_def)
  have u: "qid_of ?w 8 = QReady" by (simp add: qid_of_def urgent_in_def, simp add: testb_def TESTBIT_def)
  have "\<exists>w' sc'. process_events [6, 7] 1 ?w = Done () w' \<and> scheds w' 1 = Some sc' \<and>
    tq_both (queues sc') (\<lambda>i. [] @ filter (\<lambda>c. qid_of ?w c = i) (woken ?sc [6, 7])) \<and>
    ht_abs (fd_co_map sc') = (\<lambda>k. if k \<in> fd_key ` set [6, 7] then None else ht_abs (fd_co_map ?sc) k) \<and> ht_wf (fd_co_map sc')"
    by (rule process_events_correct [OF _ _ _ ev _ _ q]) (use h wk in \<open>simp_all add: zero_schedule_def\<close>)
  then obtain w' sc' where r: "process_events [6, 7] 1 ?w = Done () w'" "scheds w' 1 = Some sc'"
    "tq_both (queues sc') (\<lambda>i. [] @ filter (\<lambda>c. qid_of ?w c = i) [8])" unfolding wk by blast
  from r(3) have "tq_rep (queues sc') QReady ([] @ filter (\<lambda>c. qid_of ?w c = QReady) [8])" unfolding tq_both_def by blast
  with r(1,2) show ?thesis unfolding filter.simps u by simp
qed

section \<open>A coroutine with an epoll instance\<close>

text \<open>
  The hook of \<^verbatim>\<open>epoll_wait\<close> cannot poll: called with a time limit of 0 it always fails with
  \<^verbatim>\<open>EINVAL\<close>, whatever is ready: the time limit is passed on as the number of events.
\<close>

lemma epoll_hook_einval: "\<exists>w'. epoll_wait_hook epfd maxevents 0 w = Done (Inl EINVAL) w'"
  by (simp add: epoll_wait_hook_def epoll_wait_f_def)

text \<open>
  C36: a coroutine that multiplexes cannot be released. When a coroutine ends that has called
  \<^verbatim>\<open>dyco_epoll_init\<close> and not \<^verbatim>\<open>dyco_epoll_destroy\<close>, \<^verbatim>\<open>freecoro\<close> ends the process: it takes
  the coroutine's epoll descriptor out of the scheduler's interest list although it is not there, either because it
  was never put there or because \<^verbatim>\<open>schedule_cancel_wait\<close> has just taken it out.
\<close>

theorem multiplexing_never_released:
  assumes "c \<noteq> NULL" and "cos w c = Some co" and "testb COROUTINE_FLAGS_IOMULTIPLEXING co" and "co_sched co = s" and "scheds w s = Some sc"
    and "ht_wf (cid_co_map sc)" and "key_ok (cid co)" and "ht_wf (fd_co_map sc)" and "key_ok (fd_key (co_epollfd co))"
    and "fds w (sc_epollfd sc) = Some (EpollFd l)" and "fds w (co_epollfd co) \<noteq> None"
    and "testb COROUTINE_FLAGS_WAITING co \<longleftrightarrow> co_epollfd co \<in> fst ` set l"
  shows "freecoro c w = Fault Exit"
proof -
  let ?w1 = "w\<lparr>scheds := (scheds w)(s \<mapsto> sc\<lparr>coro_count := coro_count sc - 1\<rparr>)\<rparr>"
  have "scheds ?w1 s = Some (sc\<lparr>coro_count := coro_count sc - 1\<rparr>)" "ht_wf (cid_co_map (sc\<lparr>coro_count := coro_count sc - 1\<rparr>))" using assms(6) by simp_all
  from cidmap_delete_run [OF this assms(7)] obtain r ht where
    d: "cidmap_delete s (cid co) ?w1 = Done r (?w1\<lparr>scheds := (scheds ?w1)(s \<mapsto> sc\<lparr>coro_count := coro_count sc - 1, cid_co_map := ht\<rparr>)\<rparr>)" by blast
  let ?sc = "sc\<lparr>coro_count := coro_count sc - 1, cid_co_map := ht\<rparr>"
  let ?w2 = "w\<lparr>scheds := (scheds w)(s \<mapsto> ?sc)\<rparr>"
  have d2: "cidmap_delete s (cid co) ?w1 = Done r ?w2" using d by simp
  have c2: "\<exists>r w3 sc3 l3. schedule_cancel_wait c (co_epollfd co) ?w2 = Done r w3 \<and> scheds w3 s = Some sc3 \<and>
      fds w3 (sc_epollfd sc3) = Some (EpollFd l3) \<and> co_epollfd co \<notin> fst ` set l3"
  proof (cases "testb COROUTINE_FLAGS_WAITING co")
    case True
    have p: "cos ?w2 c = Some co" "scheds ?w2 s = Some ?sc" "ht_wf (fd_co_map ?sc)" "fds ?w2 (co_epollfd co) \<noteq> None"
      "co_epollfd co \<in> fst ` set l" "fds ?w2 (sc_epollfd ?sc) = Some (EpollFd l)" using assms True by simp_all
    show ?thesis by (rule cancel_wait_run [OF p(1) assms(4) True p(2,3) assms(9) p(4-6)]) (auto intro!: exI)
  next
    case False
    then show ?thesis using assms by (simp add: schedule_cancel_wait_def)
  qed
  then obtain r3 w3 sc3 l3 where 3: "schedule_cancel_wait c (co_epollfd co) ?w2 = Done r3 w3" "scheds w3 s = Some sc3"
    "fds w3 (sc_epollfd sc3) = Some (EpollFd l3)" "co_epollfd co \<notin> fst ` set l3" by blast
  then show ?thesis
    using assms(1-5)
    by (simp add: freecoro_def whenM_def seq_Done [where m = "cidmap_delete s (cid co)", OF d2]
        seq_Done [where m = "schedule_cancel_wait _ _", OF 3(1)] epoll_ctl_del_def DYCO_MUST_def)
qed

theorem multiplexing_never_released_witness:
  "\<exists>w1. dyco_epoll_init (world0 [7 \<mapsto> co0] (zero_schedule\<lparr>curr_thread := 7, sc_epollfd := 5, fd_co_map := htable2, cid_co_map := htable2\<rparr>)) = Done 0 w1 \<and>
     freecoro 7 w1 = Fault Exit"
proof -
  let ?sc = "zero_schedule\<lparr>curr_thread := 7, sc_epollfd := 5, fd_co_map := htable2, cid_co_map := htable2\<rparr>"
  let ?w = "world0 [7 \<mapsto> co0] ?sc"
  let ?co = "setb COROUTINE_FLAGS_IOMULTIPLEXING (co0\<lparr>co_epollfd := 10\<rparr>)"
  have n: "\<not> testb COROUTINE_FLAGS_IOMULTIPLEXING co0" "\<not> testb COROUTINE_FLAGS_WAITING ?co"
    by (simp add: testb_def TESTBIT_def, simp, simp add: testb_def TESTBIT_def)
  have "\<exists>w1. dyco_epoll_init ?w = Done 0 w1 \<and> cos w1 7 = Some ?co \<and> scheds w1 1 = Some ?sc \<and> fds w1 5 = Some (EpollFd []) \<and> fds w1 10 = Some (EpollFd [])"
    using n(1) by (simp add: dyco_epoll_init_def with_current_def epoll_create_def open_fd_def DYCO_MUSTNOT_def)
  then obtain w1 where w1: "dyco_epoll_init ?w = Done 0 w1" "cos w1 7 = Some ?co" "scheds w1 1 = Some ?sc" "fds w1 5 = Some (EpollFd [])"
    "fds w1 10 = Some (EpollFd [])" by blast
  have "freecoro 7 w1 = Fault Exit"
    by (rule multiplexing_never_released [OF _ w1(2) _ _ w1(3), where l = "[]"]) (use w1(4,5) n(2) in \<open>simp_all add: key_ok_def zero_schedule_def\<close>)
  with w1(1) show ?thesis by blast
qed

section \<open>How long the scheduler waits\<close>

text \<open>The calls of an interrupted wait: all with the same limit.\<close>

lemma retry_run:
  assumes "fds w ep = Some (EpollFd is)" and "\<forall>i < n. epollres (environ w) (tick w + i) = Inl EINTR" and "epollres (environ w) (tick w + n) = Inr l"
  shows "\<exists>r. epoll_wait_retry (Suc n + fuel) ep t w = Done (int (length r), r) (w\<lparr>waits := replicate (Suc n) (wait_msecs t) @ waits w, tick := tick w + Suc n\<rparr>)
    \<and> r = take DYCO_MAX_EVENTS (filter (\<lambda>i. i \<in> fst ` set is) (remdups l))"
  using assms
proof (induction n arbitrary: w)
  case 0
  then show ?case by (simp add: epoll_wait_f_def DYCO_MAX_EVENTS_def)
next
  case (Suc n)
  let ?w = "w\<lparr>waits := wait_msecs t # waits w, tick := Suc (tick w)\<rparr>"
  have p: "fds ?w ep = Some (EpollFd is)" "\<forall>i < n. epollres (environ ?w) (tick ?w + i) = Inl EINTR" "epollres (environ ?w) (tick ?w + n) = Inr l"
    using Suc.prems by auto
  have "epollres (environ w) (tick w) = Inl EINTR" using Suc.prems(2) by (metis add.right_neutral zero_less_Suc)
  moreover have u: "waits_update ((#) x) w = w\<lparr>waits := x # waits w\<rparr>" for x by (cases w) simp
  ultimately have "epoll_wait_retry (Suc (Suc n) + fuel) ep t w = epoll_wait_retry (Suc n + fuel) ep t ?w"
    using Suc.prems(1) by (simp add: epoll_wait_f_def u DYCO_MAX_EVENTS_def del: epoll_wait_retry.simps(2) add: epoll_wait_retry.simps(2) [of "Suc (n + fuel)"])
  with Suc.IH [OF p] show ?case
    by (simp add: replicate_app_Cons_same del: epoll_wait_retry.simps)
qed

lemma wait_msecs_small:
  assumes "unat t < 2 ^ 31 * 1000"
  shows "wait_msecs t = int (unat t div 1000)"
proof -
  have "unat (t div 1000) = unat t div 1000" by (simp add: unat_div)
  then have u: "uint (t div 1000) = int (unat t div 1000)" by (metis int_nat_eq unat_eq_nat_uint uint_nat)
  have "unat t div 1000 < 2 ^ 31" using assms by (simp add: less_mult_imp_div_less)
  then have "int (unat t div 1000) < 2 ^ 31" by (metis of_nat_less_iff of_nat_numeral of_nat_power)
  then show ?thesis unfolding wait_msecs_def
    by (simp add: sint_uint unsigned_ucast_eq u take_bit_int_eq_self signed_take_bit_int_eq_self)
qed

text \<open>
  C19: the scheduler does not sleep past its earliest sleeper. With nobody ready, the time limit it gives to \<^verbatim>\<open>epoll_wait\<close> is the time that is left
  to the earliest wake-up, in milliseconds and rounded down. When the call is interrupted \<open>n\<close> times, it is repeated
  \<open>n\<close> times, every time with the whole limit, whatever has gone by.
\<close>

theorem epoll_wait_limit:
  assumes "timers_ok w s sc" and "inorder (sleeping sc) = a # as" and "TAILQ_EMPTY QReady (queues sc)" and "TAILQ_EMPTY QUrgent (queues sc)"
    and "fds w (sc_epollfd sc) = Some (EpollFd is)" and "\<forall>i < n. epollres (environ w) (tick w + 1 + i) = Inl EINTR" and "epollres (environ w) (tick w + 1 + n) = Inr l"
  defines "now \<equiv> unat (diff_usecs (birth sc) (clk (environ w) (tick w)))"
  assumes "now < unat (sleep_key w a)" and "unat (sleep_key w a) < now + 2 ^ 31 * 1000"
  shows "\<exists>r. schedule_epoll_wait (Suc n + fuel) s w = Done (int (length r), r)
    (w\<lparr>waits := replicate (Suc n) (int ((unat (sleep_key w a) - now) div 1000)) @ waits w, tick := tick w + n + 2\<rparr>)"
proof -
  let ?now = "diff_usecs (birth sc) (clk (environ w) (tick w))" and ?w = "w\<lparr>tick := Suc (tick w)\<rparr>"
  have sc: "scheds w s = Some sc" using timers_sched [OF assms(1)] .
  have m: "RB_MIN (sleeping sc) = a" "a \<noteq> NULL" using RB_MIN_inorder [OF timers_wf [OF assms(1)]] assms(2) by auto
  obtain co where co: "cos w a = Some co" using assms(1,2) by (auto simp: timers_ok_def)
  have less: "?now < sleep_usecs co" using assms(9) co by (simp add: now_def sleep_key_def word_less_nat_alt)
  define x where "x = sleep_usecs co - ?now"
  have x: "unat x = unat (sleep_key w a) - now" using co less by (simp add: x_def now_def sleep_key_def unat_sub)
  then have x0: "x \<noteq> 0" and xs: "unat x < 2 ^ 31 * 1000" using assms(9,10) by auto
  have min: "schedule_min_timeout s w = Done x ?w"
    using sc m co less by (simp add: schedule_min_timeout_def Let_def x_def)
  have "\<not> RB_EMPTY (sleeping sc)" using assms(2) by (auto simp: RB_EMPTY_def)
  then have "schedule_epoll_wait (Suc n + fuel) s w = epoll_wait_retry (Suc n + fuel) (sc_epollfd sc) x ?w"
    using sc assms(3,4) x0 by (simp add: schedule_epoll_wait_def bind_Done [where m = "schedule_min_timeout s", OF min] del: epoll_wait_retry.simps)
  moreover from retry_run [of ?w "sc_epollfd sc" "is" n l fuel x] assms(5-7) obtain r where
    "epoll_wait_retry (Suc n + fuel) (sc_epollfd sc) x ?w = Done (int (length r), r) (?w\<lparr>waits := replicate (Suc n) (wait_msecs x) @ waits ?w, tick := tick ?w + Suc n\<rparr>)"
    by (auto simp del: epoll_wait_retry.simps)
  ultimately show ?thesis using wait_msecs_small [OF xs] x by (simp del: epoll_wait_retry.simps)
qed

theorem epoll_wait_limit_witness:
  "\<exists>r w'. schedule_epoll_wait 2 1 ((world0 [7 \<mapsto> setb COROUTINE_STATUS_SLEEPING (co0\<lparr>sleep_usecs := 20700\<rparr>)] (zero_schedule\<lparr>sleeping := Nd RB_BLACK Lf 7 Lf, sc_epollfd := 5\<rparr>))
       \<lparr>environ := env0\<lparr>epollres := \<lambda>i. if i = 1 then Inl 4 else Inr []\<rparr>\<rparr>) = Done (int (length r), r) w' \<and> waits w' = [20, 20]"
proof -
  let ?sc = "zero_schedule\<lparr>sleeping := Nd RB_BLACK Lf 7 Lf, sc_epollfd := 5\<rparr>"
  let ?w = "(world0 [7 \<mapsto> setb COROUTINE_STATUS_SLEEPING (co0\<lparr>sleep_usecs := 20700\<rparr>)] ?sc)\<lparr>environ := env0\<lparr>epollres := \<lambda>i. if i = 1 then Inl 4 else Inr []\<rparr>\<rparr>"
  have t: "timers_ok ?w 1 ?sc" by (auto simp: timers_ok_def rb_wf_def rb_ok_def intro!: exI [of _ 1])
  have p: "inorder (sleeping ?sc) = [7]" "TAILQ_EMPTY QReady (queues ?sc)" "TAILQ_EMPTY QUrgent (queues ?sc)" "fds ?w (sc_epollfd ?sc) = Some (EpollFd [])"
    "\<forall>i < 1. epollres (environ ?w) (tick ?w + 1 + i) = Inl EINTR" "epollres (environ ?w) (tick ?w + 1 + 1) = Inr []"
    "unat (diff_usecs (birth ?sc) (clk (environ ?w) (tick ?w))) = 500" "unat (sleep_key ?w 7) = 20700"
    by (simp_all add: zero_schedule_def TAILQ_EMPTY_def EINTR_def diff_usecs_def sleep_key_def)
  have k: "500 < (20700 :: nat)" "20700 < 500 + 2 ^ 31 * (1000 :: nat)" "Suc 1 + 0 = (2 :: nat)" by simp_all
  from epoll_wait_limit [OF t p(1-6), of 0, unfolded p(7,8), OF k(1,2)] obtain r where
    r: "schedule_epoll_wait 2 1 ?w = Done (int (length r), r) (?w\<lparr>waits := replicate (Suc 1) (int ((20700 - 500) div 1000)) @ waits ?w, tick := tick ?w + 1 + 2\<rparr>)"
    unfolding k(3) by (rule exE)
  show ?thesis
    by (rule exI [of _ r], rule exI [of _ "?w\<lparr>waits := replicate (Suc 1) (int ((20700 - 500) div 1000)) @ waits ?w, tick := tick ?w + 1 + 2\<rparr>"], rule conjI, rule r) simp
qed

end
