(* ===== verification/Sleep_Run.thy ===== *)
theory Sleep_Run
  imports Sleep_Turn Event_Correct
begin

text \<open>
  Whole runs of programs whose coroutines print and sleep: the four phases of the main loop keep the invariant and use up
  the turns that are left, and the loop comes to its end. Every coroutine is woken whenever it sleeps, runs its function to
  the last line and is released, and nothing faults on the way. What the environment has to do is to let time pass and not to interrupt \<^verbatim>\<open>epoll_wait\<close> for ever.
\<close>

section \<open>Phases B and C\<close>

lemma onward_refl: "onward 0 rest M sc w rest M sc w"
  by (simp add: onward_def)

lemma onward_trans:
  assumes "onward k rest M sc w rest1 M1 sc1 w1" "onward k1 rest1 M1 sc1 w1 rest2 M2 sc2 w2"
  shows "onward (k + k1) rest M sc w rest2 M2 sc2 w2"
  using assms unfolding onward_def by (auto simp: subset_iff intro: suffix_order.trans)

lemma onward_mono: "onward k rest M sc w rest' M' sc' w' \<Longrightarrow> k \<le> k' \<Longrightarrow> onward k' rest M sc w rest' M' sc' w'"
  by (simp add: onward_def)

lemma ledger_cong:
  assumes "\<And>d. d \<in> M \<Longrightarrow> map_option cid (cos w' d) = map_option cid (cos w d)" "stdout w' = stdout w"
  shows "ledger rest M w' = ledger rest M w"
proof -
  have "(case cos w' d of Some co \<Rightarrow> sint (cid co) | None \<Rightarrow> 0) = (case cos w d of Some co \<Rightarrow> sint (cid co) | None \<Rightarrow> 0)" if "d \<in> M" for d
    using assms(1) [OF that] by (cases "cos w' d"; cases "cos w d") auto
  then show ?thesis unfolding ledger_def assms(2) by simp
qed

lemma ledger_world [simp]: "ledger rest M (w\<lparr>tick := x1\<rparr>) = ledger rest M w" "ledger rest M (w\<lparr>waits := x2\<rparr>) = ledger rest M w"
  "ledger rest M (w\<lparr>scheds := x3\<rparr>) = ledger rest M w"
  by (simp_all add: ledger_def)

lemma clock_onward: "clock_runs K (environ w) (birth sc) (tick w) N \<Longrightarrow> onward k rest M sc w rest' M' sc' w' \<Longrightarrow> clock_runs K (environ w') (birth sc') (tick w') N"
  by (simp add: onward_def clock_runs_later)

text \<open>A moment of a run: the saved contexts, the queues, what everybody still has to do, the scheduler and the world.\<close>

record stage =
  st_konts :: konts
  st_queues :: "qid \<Rightarrow> addr list"
  st_rest :: "addr \<Rightarrow> act list"
  st_sched :: dyco_schedule
  st_world :: world

definition good :: "nat \<Rightarrow> (nat \<Rightarrow> addr \<Rightarrow> act list) \<Rightarrow> addr \<Rightarrow> stage \<Rightarrow> bool" where
  "good L scr s p \<longleftrightarrow> sleepy L scr s (st_konts p) (st_queues p) (st_rest p) (st_sched p) (st_world p)"

definition crew :: "stage \<Rightarrow> addr set" where
  "crew p = members (st_queues p) (st_sched p)"

text \<open>The turns that are left.\<close>

definition due :: "stage \<Rightarrow> nat" where
  "due p = weight (st_rest p) (crew p)"

definition now :: "stage \<Rightarrow> nat" where
  "now p = elapsed (environ (st_world p)) (birth (st_sched p)) (tick (st_world p))"

text \<open>Of \<open>K\<close> calls of \<^verbatim>\<open>epoll_wait\<close> one is not interrupted by a signal; on an open descriptor and with a buffer there is no other error.\<close>

definition answered :: "nat \<Rightarrow> env \<Rightarrow> bool" where
  "answered K e \<longleftrightarrow> (\<forall>i. \<exists>j < K. (\<exists>l. epollres e (i + j) = Inr l) \<and> (\<forall>i' < j. epollres e (i + i') = Inl EINTR))"

definition clock_ok :: "nat \<Rightarrow> stage \<Rightarrow> nat \<Rightarrow> bool" where
  "clock_ok K p N \<longleftrightarrow> clock_runs K (environ (st_world p)) (birth (st_sched p)) (tick (st_world p)) N \<and> answered K (environ (st_world p))"

lemma clock_okD:
  assumes "clock_ok K p N"
  shows "clock_runs K (environ (st_world p)) (birth (st_sched p)) (tick (st_world p)) N" "answered K (environ (st_world p))"
  using assms by (simp_all add: clock_ok_def)

definition goes_to :: "nat \<Rightarrow> stage \<Rightarrow> stage \<Rightarrow> bool" where
  "goes_to k p p' \<longleftrightarrow> due p' \<le> due p \<and> onward (k + 3 * (due p - due p')) (st_rest p) (crew p) (st_sched p) (st_world p)
     (st_rest p') (crew p') (st_sched p') (st_world p')"

text \<open>The machine gets from the one to the other: every turn takes two switches.\<close>

definition leads :: "(nat \<Rightarrow> addr \<Rightarrow> act list) \<Rightarrow> stage \<Rightarrow> (world, int) outcome \<Rightarrow> stage \<Rightarrow> (world, int) outcome \<Rightarrow> bool" where
  "leads scr p x p' x' \<longleftrightarrow> (\<forall>n ks0. same_coroutines ks0 (st_konts p) \<longrightarrow> (\<exists>ks1. same_coroutines ks1 (st_konts p') \<and>
     machine (\<lambda>f a. script (scr f a)) (2 * due p + n) ks0 x = machine (\<lambda>f a. script (scr f a)) (2 * due p' + n) ks1 x'))"

lemma goes_to_refl: "goes_to k p p"
  using onward_mono [OF onward_refl] by (simp add: goes_to_def)

lemma goes_to_trans: "goes_to k p p1 \<Longrightarrow> goes_to k1 p1 p2 \<Longrightarrow> goes_to (k + k1) p p2"
  unfolding goes_to_def by (auto intro: onward_mono [OF onward_trans])

lemma goes_to_clock: "clock_ok K p N \<Longrightarrow> goes_to k p p' \<Longrightarrow> clock_ok K p' N"
  unfolding clock_ok_def goes_to_def using clock_onward by (auto simp: onward_def)

lemma goes_to_tick: "goes_to k p p' \<Longrightarrow> tick (st_world p') + 3 * due p' \<le> tick (st_world p) + k + 3 * due p"
  by (auto simp: goes_to_def onward_def)

lemma leads_refl: "leads scr p x p x"
  by (auto simp: leads_def)

lemma leads_trans: "leads scr p x p1 x1 \<Longrightarrow> leads scr p1 x1 p2 x2 \<Longrightarrow> leads scr p x p2 x2"
  unfolding leads_def by metis

lemma leads_end:
  assumes "leads scr p x p' x'" "due p' = 0"
  shows "\<exists>ks. machine (\<lambda>f a. script (scr f a)) (2 * due p + n) (st_konts p) x = machine (\<lambda>f a. script (scr f a)) n ks x'"
proof -
  have "same_coroutines (st_konts p) (st_konts p)" by (simp add: same_coroutines_def)
  with assms show ?thesis unfolding leads_def by (metis mult_0_right add_0)
qed

lemma due_pos: "crew p \<noteq> {} \<Longrightarrow> 0 < due p"
proof -
  assume "crew p \<noteq> {}"
  then obtain c where "c \<in> crew p" by auto
  then show ?thesis by (auto simp: due_def weight_def turns_left_def crew_def sum.remove)
qed

lemma goodD:
  assumes "good L scr s p"
  shows "sleepy L scr s (st_konts p) (st_queues p) (st_rest p) (st_sched p) (st_world p)" "scheds (st_world p) s = Some (st_sched p)"
    "tq_both (queues (st_sched p)) (st_queues p)"
  using assms sleepyD(2,4) [OF assms [unfolded good_def]] by (simp_all add: good_def sched_fine_def)

text \<open>One turn.\<close>

lemma stage_turn:
  assumes G: "good L scr s p" and q: "st_queues p q = c # xs" and N: "clock_ok K p N" "tick (st_world p) + 3 * due p \<le> N" and L: "L < 2 ^ 32"
  shows "\<exists>p'. good L scr s p' \<and> goes_to 0 p p' \<and> due p = Suc (due p') \<and> (\<forall>fuel k l g. leads scr p (bind (process_queue (Suc fuel) q (Suc k) s l) g (st_world p)) p'
     (if c = l then g None (st_world p') else bind (process_queue (Suc fuel) q k s l) g (st_world p')))"
proof -
  note S = goodD [OF G]
  note D = sleepyD [OF S(1)]
  let ?f = "st_queues p" and ?sc = "st_sched p" and ?w = "st_world p" and ?prog = "\<lambda>f a. script (scr f a)"
  have e: "\<not> TAILQ_EMPTY q (queues ?sc)" "TAILQ_FIRST q (queues ?sc) = c"
    using tailq.isempty_law [OF D(2), of q] tailq.front_law [OF D(2), of q] q by simp_all
  have cM: "c \<in> crew p" unfolding crew_def using q by (rule queue_member)
  then obtain co where co: "cos ?w c = Some co" "co_sched co = s" using D(5) by (auto simp: live_def plain_def crew_def)
  have "tick ?w + 3 \<le> N" using N(2) due_pos [of p] cM by fastforce
  from sleepy_turn [OF S(1) q clock_okD(1) [OF N(1)] this L] obtain w1 w2 k' w' f' rest' sc' where
    t: "enter s q c ?w = Done () w1" "goes_on ?prog (st_konts p) w1 c = Some (Swap (CoCtx c) SchedCtx w2 k')"
      "\<And>fuel m l. leave (Suc fuel) q m s l c (w2\<lparr>sigmask := sigmask w1\<rparr>) = (if c = l then Done None w' else process_queue (Suc fuel) q m s l w')"
      "sleepy L scr s ((st_konts p)(CoCtx c \<mapsto> (\<lambda>v. k' (v\<lparr>sigmask := sigmask w2\<rparr>)))) f' rest' sc' w'"
      "onward 3 (st_rest p) (crew p) ?sc ?w rest' (members f' sc') sc' w'" "Suc (weight rest' (members f' sc')) = due p"
    unfolding takes_turn_def crew_def due_def by blast
  define p' where "p' = \<lparr>st_konts = (st_konts p)(CoCtx c \<mapsto> (\<lambda>v. k' (v\<lparr>sigmask := sigmask w2\<rparr>))), st_queues = f', st_rest = rest', st_sched = sc', st_world = w'\<rparr>"
  have f: "st_konts p' = (st_konts p)(CoCtx c \<mapsto> (\<lambda>v. k' (v\<lparr>sigmask := sigmask w2\<rparr>)))" "st_queues p' = f'" "st_rest p' = rest'" "st_sched p' = sc'" "st_world p' = w'"
    by (simp_all add: p'_def)
  have d: "due p = Suc (due p')" using t(6) by (simp add: due_def crew_def f)
  moreover have "leads scr p (bind (process_queue (Suc fuel) q (Suc k) s l) g ?w) p' (if c = l then g None w' else bind (process_queue (Suc fuel) q k s l) g w')" for fuel k l g
    unfolding leads_def
  proof (intro allI impI)
    fix n ks0 assume "same_coroutines ks0 (st_konts p)"
    from machine_step [where n = "2 * due p' + n" and g = g and fuel = "Suc fuel" and m = k and l = l, OF S(2) e co t(1-3) this]
    show "\<exists>ks1. same_coroutines ks1 (st_konts p') \<and> machine ?prog (2 * due p + n) ks0 (bind (process_queue (Suc fuel) q (Suc k) s l) g ?w) =
        machine ?prog (2 * due p' + n) ks1 (if c = l then g None w' else bind (process_queue (Suc fuel) q k s l) g w')"
      unfolding d f by simp
  qed
  moreover have "goes_to 0 p p'" using t(5) d by (simp add: goes_to_def crew_def f)
  moreover have "good L scr s p'" using t(4) by (simp add: good_def f)
  ultimately show ?thesis unfolding f(5) [symmetric] by blast
qed

text \<open>A phase: at least one turn, if somebody is ready.\<close>

lemma stage_phase:
  assumes "good L scr s p" "clock_ok K p N" "tick (st_world p) + 3 * due p \<le> N" "L < 2 ^ 32"
  shows "\<exists>p'. good L scr s p' \<and> goes_to 0 p p' \<and> (0 < k \<and> st_queues p q \<noteq> [] \<longrightarrow> due p' < due p) \<and> (st_queues p q = [] \<longrightarrow> st_queues p' = st_queues p) \<and>
     (\<forall>fuel g. leads scr p (bind (process_queue (Suc fuel) q k s l) g (st_world p)) p' (g None (st_world p')))"
  using assms
proof (induction k arbitrary: p)
  case 0
  have z: "bind (process_queue (Suc fuel) q 0 s l) g w = g None w" for fuel g w by (simp add: bind_def ret_def)
  from 0 show ?case by (intro exI [of _ p]) (auto simp: z goes_to_refl leads_refl simp del: process_queue.simps)
next
  case (Suc k)
  show ?case
  proof (cases "st_queues p q")
    case Nil
    note S = goodD [OF Suc.prems(1)]
    have "process_queue (Suc fuel) q (Suc k) s l (st_world p) = Done None (st_world p)" for fuel
      using tailq.isempty_law [OF S(3), of q] Nil S(2) by simp
    then have z: "bind (process_queue (Suc fuel) q (Suc k) s l) g (st_world p) = g None (st_world p)" for fuel g by (simp add: bind_def del: process_queue.simps)
    show ?thesis using Suc.prems(1) Nil by (intro exI [of _ p]) (auto simp: z goes_to_refl leads_refl simp del: process_queue.simps)
  next
    case (Cons c xs)
    from stage_turn [OF Suc.prems(1) Cons Suc.prems(2-4)] obtain p1 where
      t: "good L scr s p1" "goes_to 0 p p1" "due p = Suc (due p1)" "\<And>fuel l g. leads scr p (bind (process_queue (Suc fuel) q (Suc k) s l) g (st_world p)) p1
        (if c = l then g None (st_world p1) else bind (process_queue (Suc fuel) q k s l) g (st_world p1))" by blast
    show ?thesis
    proof (cases "c = l")
      case True
      then show ?thesis using t(1-3) t(4) [of _ l] Cons by (intro exI [of _ p1]) (auto simp del: process_queue.simps)
    next
      case False
      have "tick (st_world p1) + 3 * due p1 \<le> N" using goes_to_tick [OF t(2)] Suc.prems(3) by simp
      from Suc.IH [OF t(1) goes_to_clock [OF Suc.prems(2) t(2)] this Suc.prems(4)] obtain p2 where
        i: "good L scr s p2" "goes_to 0 p1 p2" "\<And>fuel g. leads scr p1 (bind (process_queue (Suc fuel) q k s l) g (st_world p1)) p2 (g None (st_world p2))" by blast
      have "leads scr p (bind (process_queue (Suc fuel) q (Suc k) s l) g (st_world p)) p2 (g None (st_world p2))" for fuel g
        using leads_trans [OF t(4) [of fuel l g, unfolded if_not_P [OF False]] i(3)] .
      moreover have "goes_to 0 p p2" "due p2 < due p" using goes_to_trans [OF t(2) i(2)] t(3) i(2) by (simp_all add: goes_to_def)
      ultimately show ?thesis using i(1) Cons by (intro exI [of _ p2]) (simp del: process_queue.simps)
    qed
  qed
qed

section \<open>Phases A and D\<close>

lemma sleepy_tick:
  assumes S: "sleepy L scr s ks f rest sc w" and N: "clock_runs K (environ w) (birth sc) (tick w) N" "t \<le> N" "tick w \<le> t"
  shows "sleepy L scr s ks f rest sc (w\<lparr>waits := ws, tick := t\<rparr>)"
proof (rule sleepy_update [OF S, where c = NULL])
  note D = sleepyD [OF S]
  let ?w = "w\<lparr>waits := ws, tick := t\<rparr>"
  show "timers_ok ?w s sc" by (rule timers_ok_cong [OF D(1)]) (use timers_sched [OF D(1)] in simp_all)
  show "sched_fine s sc ?w" using D(4) by (simp add: sched_fine_def)
  show "registered (members f sc) sc ?w" using D(7) by (simp add: registered_def)
  from keyed_mono [OF D(9) elapsed_mono [OF N(1) order_refl N(3,2)]]
  show "keyed L (elapsed (environ ?w) (birth sc) (tick ?w)) (members f sc) sc ?w"
    by (simp add: keyed_def sleep_key_def)
  show "NULL \<in> members f sc \<Longrightarrow> live scr s ks rest {NULL} sc ?w \<and> (own ?w NULL = own w NULL \<or> nalloc (heap w) < own ?w NULL)"
    using D(5) by (auto simp: live_def)
qed (use sleepyD [OF S] in simp_all)

lemma keyed_wake:
  assumes "keyed L n M sc w" "n \<le> n'" "sleepers_of sc = insert a A" "a \<notin> A" "sleepers_of sc' = A" "unat (sleep_key w a) \<le> n'"
    and "\<And>d. d \<in> A \<Longrightarrow> sleep_key w a < sleep_key w d" "sleep_key w' = sleep_key w"
  shows "keyed L n' M sc' w'"
  using keyed_mono [OF assms(1,2)] assms(3-7) unfolding keyed_def assms(8) by (metis Diff_iff insert_iff order_less_irrefl)

lemma sleepy_wake:
  assumes S: "sleepy L scr s ks f rest sc w" and i: "inorder (sleeping sc) = a # as"
    and now: "sleep_key w a \<le> diff_usecs (birth sc) (clk (environ w) (tick w))"
    and N: "clock_runs K (environ w) (birth sc) (tick w) N" "tick w + 1 \<le> N"
  obtains w' sc' f' where "probe_expired (Suc n) s w = probe_expired n s w'" "sleepy L scr s ks f' rest sc' w'" "inorder (sleeping sc') = as"
    "members f' sc' = members f sc" "onward 1 rest (members f sc) sc w rest (members f' sc') sc' w'" "\<forall>i. f i \<noteq> [] \<longrightarrow> f' i \<noteq> []" "\<exists>i. f' i \<noteq> []"
proof -
  note D = sleepyD [OF S]
  obtain w3 sc3 co3 where
    t: "probe_expired (Suc n) s w = probe_expired n s w3" "timers_ok w3 s sc3" "inorder (sleeping sc3) = as"
      "queues sc3 = TAILQ_INSERT_TAIL (qid_of w a) a (queues sc)" "cos w3 = (cos w)(a \<mapsto> co3)" "environ w3 = environ w"
      "tick w3 = Suc (tick w)" "birth sc3 = birth sc" "w3 = w\<lparr>tick := Suc (tick w), cos := (cos w)(a \<mapsto> co3), scheds := (scheds w)(s \<mapsto> sc3)\<rparr>"
      "sc3 = sc\<lparr>sleeping := sleeping sc3, queues := queues sc3\<rparr>"
      "co3 = setb COROUTINE_STATUS_READY (setb COROUTINE_FLAGS_EXPIRED (clrb COROUTINE_STATUS_SLEEPING (the (cos w a))))"
    by (rule probe_expired_turn [OF D(1) i now])
  obtain T qs where sc3: "sc3 = sc\<lparr>sleeping := T, queues := qs\<rparr>" using t(10) by blast
  have aM: "a \<in> members f sc" "a \<in> sleepers_of sc" using i by (simp_all add: members_def sleepers_of_def)
  then obtain co where co: "cos w a = Some co" "a \<noteq> NULL" "plain s co" "stack_ok w sc co" "will_do scr ks a co (rest a)"
    using D(5) unfolding live_def by blast
  have co3: "co3 = setb COROUTINE_STATUS_READY (setb COROUTINE_FLAGS_EXPIRED (clrb COROUTINE_STATUS_SLEEPING co))" using t(11) co(1) by simp
  have anew: "a \<notin> set as" using timers_distinct [OF D(1)] i by simp
  have sl: "sleepers_of sc3 = set as" "sleepers_of sc = insert a (set as)" using t(3) i by (simp_all add: sleepers_of_def)
  let ?q = "qid_of w a" and ?f' = "f(qid_of w a := f (qid_of w a) @ [a])"
  have fr: "a \<notin> set (f j)" for j using D(3) [of j] aM(2) by auto
  have M: "members ?f' sc3 = members f sc"
    unfolding members_def sl by (cases ?q) auto
  have key: "sleep_key w3 d = sleep_key w d" for d using co(1) by (simp add: sleep_key_def t(5) co3)
  have later: "sleep_key w a < sleep_key w d" if "d \<in> set as" for d
    using timers_wf [OF D(1)] i that by (simp add: rb_wf_def)
  let ?now = "elapsed (environ w) (birth sc)"
  have ka: "unat (sleep_key w a) \<le> ?now (Suc (tick w))"
  proof -
    have "unat (sleep_key w a) \<le> ?now (tick w)" using now by (simp add: elapsed_def word_le_nat_alt)
    also have "\<dots> \<le> ?now (Suc (tick w))" using N by (simp add: clock_runs_def)
    finally show ?thesis .
  qed
  have "sleepy L scr s ks ?f' rest sc3 w3"
  proof (rule sleepy_update [OF S t(2), where c = a])
    show "tq_both (queues sc3) ?f'" unfolding t(4) by (rule tailq.push_law [OF D(2) co(2) fr])
    show "sleepers_of sc3 \<inter> set (?f' j) = {}" for j using D(3) [of j] anew by (auto simp: sl)
    show "sched_fine s sc3 w3" using D(4) by (simp add: sched_fine_def t(9) sc3)
    show "cos w3 d = cos w d \<and> ks (CoCtx d) = ks (CoCtx d) \<and> rest d = rest d \<and> (d \<in> sleepers_of sc3) = (d \<in> sleepers_of sc)" if "d \<noteq> a" for d
      using that by (simp add: t(5) sl)
    have "stack_ok w3 sc3 co3" using co(4) stack_ok_cong [of w3 w sc3 sc co] by (simp add: co3 t(9) sc3)
    moreover have "plain s co3" using co(3) by (simp add: co3 plain_def plain_bits_def)
    moreover have "will_do scr ks a co3 (rest a)" using co(5) by (simp add: will_do_def co3)
    ultimately show "live scr s ks rest {a} sc3 w3 \<and> (own w3 a = own w a \<or> nalloc (heap w) < own w3 a)"
      using co(1,2) anew by (simp add: live_def t(5) sl(1) own_def co3)
    show "registered (members ?f' sc3) sc3 w3"
      using D(7) co(1) unfolding M registered_def by (simp add: t(5) sc3 co3)
    have "?now (tick w) \<le> ?now (Suc (tick w))" by (rule elapsed_mono [OF N(1)]) (use N(2) in simp_all)
    from keyed_wake [OF D(9) this sl(2) anew sl(1) ka later, of w3]
    show "keyed L (elapsed (environ w3) (birth sc3) (tick w3)) (members ?f' sc3) sc3 w3"
      unfolding M t(6-8) using key by (simp add: fun_eq_iff)
  qed (use M in \<open>simp_all add: t(9) sc3\<close>)
  moreover have "onward 1 rest (members f sc) sc w rest (members ?f' sc3) sc3 w3"
    unfolding M using aM(1) ledger_cong [of "members f sc" w3 w rest] co(1) by (auto simp: onward_def t(5-9) co3)
  ultimately show thesis using t(1,3) M by (intro that [of w3 ?f' sc3]) auto
qed

lemma probe_sleepy:
  assumes "sleepy L scr s ks f rest sc w" "inorder (sleeping sc) = T" "length T < n"
    "clock_runs K (environ w) (birth sc) (tick w) N" "tick w + Suc (length T) \<le> N"
  shows "\<exists>w' sc' f'. probe_expired n s w = Done () w' \<and> sleepy L scr s ks f' rest sc' w' \<and> members f' sc' = members f sc \<and>
    onward (Suc (length T)) rest (members f sc) sc w rest (members f' sc') sc' w' \<and> tick w < tick w' \<and> (\<forall>i. f i \<noteq> [] \<longrightarrow> f' i \<noteq> []) \<and>
    ((\<forall>i. f' i = []) \<longrightarrow> f' = f \<and> sc' = sc \<and> w' = w\<lparr>tick := Suc (tick w)\<rparr> \<and> (\<forall>a \<in> sleepers_of sc. elapsed (environ w) (birth sc) (tick w) < unat (sleep_key w a)))"
  using assms
proof (induction T arbitrary: w sc f n)
  case Nil
  from Nil.prems(3) obtain m where m: "n = Suc m" by (cases n) auto
  have "probe_expired n s w = Done () (w\<lparr>tick := Suc (tick w)\<rparr>)"
    unfolding m by (rule probe_expired_stop [OF sleepyD(1) [OF Nil.prems(1)]]) (use Nil.prems(2) in simp)
  moreover have "sleepy L scr s ks f rest sc (w\<lparr>tick := Suc (tick w)\<rparr>)"
    using sleepy_tick [OF Nil.prems(1,4), of "Suc (tick w)" "waits w"] Nil.prems(5) by simp
  ultimately show ?case
    by (intro exI [of _ "w\<lparr>tick := Suc (tick w)\<rparr>"] exI [of _ sc] exI [of _ f]) (use Nil.prems(2) in \<open>simp add: onward_def sleepers_of_def\<close>)
next
  case (Cons a as)
  from Cons.prems(3) obtain m where m: "n = Suc m" by (cases n) auto
  show ?case
  proof (cases "sleep_key w a \<le> diff_usecs (birth sc) (clk (environ w) (tick w))")
    case False
    have "probe_expired n s w = Done () (w\<lparr>tick := Suc (tick w)\<rparr>)"
      unfolding m by (rule probe_expired_stop [OF sleepyD(1) [OF Cons.prems(1)]]) (use Cons.prems(2) False in auto)
    moreover have "sleepy L scr s ks f rest sc (w\<lparr>tick := Suc (tick w)\<rparr>)"
      using sleepy_tick [OF Cons.prems(1,4), of "Suc (tick w)" "waits w"] Cons.prems(5) by simp
    moreover have "elapsed (environ w) (birth sc) (tick w) < unat (sleep_key w b)" if "b \<in> sleepers_of sc" for b
    proof -
      have "sleep_key w a \<le> sleep_key w b" using timers_wf [OF sleepyD(1) [OF Cons.prems(1)]] Cons.prems(2) that
        by (auto simp: rb_wf_def sleepers_of_def less_imp_le)
      then show ?thesis using False by (simp add: elapsed_def word_less_nat_alt word_le_nat_alt)
    qed
    ultimately show ?thesis
      by (intro exI [of _ "w\<lparr>tick := Suc (tick w)\<rparr>"] exI [of _ sc] exI [of _ f]) (simp add: onward_def)
  next
    case True
    have "tick w + 1 \<le> N" using Cons.prems(5) by simp
    then obtain w1 sc1 f1 where
      s: "probe_expired (Suc m) s w = probe_expired m s w1" "sleepy L scr s ks f1 rest sc1 w1" "inorder (sleeping sc1) = as"
        "members f1 sc1 = members f sc" "onward 1 rest (members f sc) sc w rest (members f1 sc1) sc1 w1" "\<forall>i. f i \<noteq> [] \<longrightarrow> f1 i \<noteq> []" "\<exists>i. f1 i \<noteq> []"
      by (rule sleepy_wake [OF Cons.prems(1,2) True Cons.prems(4), where n = m]) (rule that)
    have o: "environ w1 = environ w" "birth sc1 = birth sc" "tick w \<le> tick w1" "tick w1 \<le> tick w + 1" using s(5) by (simp_all add: onward_def)
    have "length as < m" "clock_runs K (environ w1) (birth sc1) (tick w1) N" "tick w1 + Suc (length as) \<le> N"
      using clock_onward [OF Cons.prems(4) s(5)] Cons.prems(3,5) m o by auto
    from Cons.IH [OF s(2,3) this] obtain w' sc' f' where
      r: "probe_expired m s w1 = Done () w'" "sleepy L scr s ks f' rest sc' w'" "members f' sc' = members f1 sc1"
        "onward (Suc (length as)) rest (members f1 sc1) sc1 w1 rest (members f' sc') sc' w'" "tick w1 < tick w'" "\<forall>i. f1 i \<noteq> [] \<longrightarrow> f' i \<noteq> []" by blast
    have "onward (Suc (length (a # as))) rest (members f sc) sc w rest (members f' sc') sc' w'"
      using onward_trans [OF s(5) r(4)] by simp
    moreover have "\<not> (\<forall>i. f' i = [])" "\<forall>i. f i \<noteq> [] \<longrightarrow> f' i \<noteq> []" using s(6,7) r(6) by blast+
    ultimately show ?thesis
      by (intro exI [of _ w'] exI [of _ sc'] exI [of _ f']) (use s(1,4) r(1-3,5) o(3) m in \<open>simp del: probe_expired.simps, blast\<close>)
  qed
qed

text \<open>The wait in phase D, whether it is interrupted or not: nothing is reported.\<close>

lemma once_run:
  assumes "fds w ep = Some (EpollFd [])"
  shows "\<exists>r. epoll_wait_once ep w = Done (r, []) (w\<lparr>waits := 0 # waits w, tick := Suc (tick w)\<rparr>)"
proof -
  have u: "waits_update ((#) x) w = w\<lparr>waits := x # waits w\<rparr>" for x by (cases w) simp
  show ?thesis using assms by (cases "epollres (environ w) (tick w)") (simp_all add: epoll_wait_once_def epoll_wait_f_def DYCO_MAX_EVENTS_def u ret_def)
qed

lemma retry_sleepy:
  assumes "fds w ep = Some (EpollFd [])" and "answered K (environ w)"
  shows "\<exists>t ws. tick w \<le> t \<and> t \<le> tick w + K \<and> (\<forall>fuel. epoll_wait_retry (K + fuel) ep x w = Done (0, []) (w\<lparr>waits := ws, tick := t\<rparr>))"
proof -
  from assms(2) obtain j l where j: "j < K" "epollres (environ w) (tick w + j) = Inr l" "\<forall>i < j. epollres (environ w) (tick w + i) = Inl EINTR"
    unfolding answered_def by blast
  from j(1) obtain k where k: "K = Suc j + k" by (metis less_imp_Suc_add add_Suc)
  have "epoll_wait_retry (K + fuel) ep x w = Done (0, []) (w\<lparr>waits := replicate (Suc j) (wait_msecs x) @ waits w, tick := tick w + Suc j\<rparr>)" for fuel
    using retry_run [OF assms(1) j(3,2), of "k + fuel" x] unfolding k by (simp add: add.assoc del: epoll_wait_retry.simps)
  then show ?thesis using j(1) by (intro exI [of _ "tick w + Suc j"] exI) auto
qed

lemma epoll_sleepy:
  assumes S: "sleepy L scr s ks f rest sc w" and K: "answered K (environ w)"
  shows "\<exists>t ws r. tick w \<le> t \<and> t \<le> tick w + Suc K \<and> (\<forall>fuel. schedule_epoll_wait (K + fuel) s w = Done (r, []) (w\<lparr>waits := ws, tick := t\<rparr>))"
proof -
  note D = sleepyD [OF S]
  from D(4) have sc: "scheds w s = Some sc" "fds w (sc_epollfd sc) = Some (EpollFd [])" by (simp_all add: sched_fine_def)
  consider (none) "RB_EMPTY (sleeping sc)" | (ready) "\<not> RB_EMPTY (sleeping sc)" "\<not> (TAILQ_EMPTY QReady (queues sc) \<and> TAILQ_EMPTY QUrgent (queues sc))"
    | (wait) "\<not> RB_EMPTY (sleeping sc)" "TAILQ_EMPTY QReady (queues sc) \<and> TAILQ_EMPTY QUrgent (queues sc)" by blast
  then show ?thesis
  proof cases
    case none
    then have "schedule_epoll_wait (K + fuel) s w = Done (0, []) w" for fuel using D(4) sc(1) by (simp add: schedule_epoll_wait_def sched_fine_def)
    then show ?thesis by (intro exI [of _ "tick w"] exI [of _ "waits w"] exI [of _ 0]) simp
  next
    case ready
    from once_run [OF sc(2)] obtain r where
      "schedule_epoll_wait (K + fuel) s w = Done (r, []) (w\<lparr>waits := 0 # waits w, tick := Suc (tick w)\<rparr>)" for fuel
      using ready sc(1) by (auto simp: schedule_epoll_wait_def)
    then show ?thesis by (intro exI [of _ "Suc (tick w)"] exI [of _ "0 # waits w"] exI [of _ r]) simp
  next
    case wait
    from wait have ne: "inorder (sleeping sc) \<noteq> []" by (simp add: RB_EMPTY_def)
    with D(1) have "RB_MIN (sleeping sc) \<noteq> NULL" "RB_MIN (sleeping sc) \<in> set (inorder (sleeping sc))"
      using RB_MIN_inorder [OF timers_wf [OF D(1)]] by (auto simp del: inorder_empty)
    with D(1) obtain co where "cos w (RB_MIN (sleeping sc)) = Some co" "RB_MIN (sleeping sc) \<noteq> NULL" by (auto simp: timers_ok_def)
    then obtain x where x: "schedule_min_timeout s w = Done x (w\<lparr>tick := Suc (tick w)\<rparr>)" using sc(1) by (simp add: schedule_min_timeout_def Let_def)
    let ?w = "w\<lparr>tick := Suc (tick w)\<rparr>"
    have e: "schedule_epoll_wait (K + fuel) s w = (if x = 0 then epoll_wait_once (sc_epollfd sc) else epoll_wait_retry (K + fuel) (sc_epollfd sc) x) ?w" for fuel
      using wait sc(1) by (simp add: schedule_epoll_wait_def bind_Done [where m = "schedule_min_timeout s", OF x] del: epoll_wait_retry.simps)
    show ?thesis
    proof (cases "x = 0")
      case True
      from once_run [of ?w "sc_epollfd sc"] sc(2) obtain r where
        "epoll_wait_once (sc_epollfd sc) ?w = Done (r, []) (?w\<lparr>waits := 0 # waits ?w, tick := Suc (tick ?w)\<rparr>)" by auto
      moreover have "0 < K" using K unfolding answered_def by auto
      ultimately show ?thesis using e True by (intro exI [of _ "Suc (Suc (tick w))"] exI [of _ "0 # waits w"] exI [of _ r]) simp
    next
      case False
      from retry_sleepy [of ?w "sc_epollfd sc" K x] sc(2) K obtain t ws where
        "Suc (tick w) \<le> t" "t \<le> Suc (tick w) + K" "\<And>fuel. epoll_wait_retry (K + fuel) (sc_epollfd sc) x ?w = Done (0, []) (?w\<lparr>waits := ws, tick := t\<rparr>)" by auto
      then show ?thesis using e False by (intro exI [of _ t] exI [of _ ws] exI [of _ 0]) simp
    qed
  qed
qed

section \<open>The main loop\<close>

text \<open>The questions to the environment a turn costs at most: a sleep of the longest time, the iteration in which it ends, and the one in which the turn is taken.\<close>

definition turn_cost :: "nat \<Rightarrow> nat \<Rightarrow> nat" where
  "turn_cost K L = K * (2 ^ 32 + L) + (K + 2) + (L + K + 6)"

definition key :: "stage \<Rightarrow> addr \<Rightarrow> nat" where
  "key p a = unat (sleep_key (st_world p) a)"

text \<open>
  A sleeper \<open>a\<close> is woken in time: its time has come and \<open>C\<close> more questions are allowed, or it comes at question \<open>d\<close>, and they
  are allowed after the iteration in which that question is asked.
\<close>

definition in_time :: "nat \<Rightarrow> nat \<Rightarrow> nat \<Rightarrow> stage \<Rightarrow> addr \<Rightarrow> bool" where
  "in_time K N C p a \<longleftrightarrow> key p a \<le> now p \<and> tick (st_world p) + C \<le> N \<or>
     (\<exists>d \<ge> tick (st_world p). key p a \<le> elapsed (environ (st_world p)) (birth (st_sched p)) d \<and> d + (K + 2) + C \<le> N)"

text \<open>The questions to the environment the loop may still ask: for every turn that is left, or a turn less and the time to the wake-up of a sleeper.\<close>

definition enough :: "nat \<Rightarrow> nat \<Rightarrow> nat \<Rightarrow> stage \<Rightarrow> bool" where
  "enough K L N p \<longleftrightarrow> tick (st_world p) + due p * turn_cost K L \<le> N \<or>
     (\<forall>i. st_queues p i = []) \<and> (\<exists>a \<in> sleepers_of (st_sched p). in_time K N ((due p - 1) * turn_cost K L + L + K + 6) p a)"

text \<open>Nobody is ready, and no sleeper's time has come.\<close>

definition idle :: "stage \<Rightarrow> bool" where
  "idle p \<longleftrightarrow> (\<forall>i. st_queues p i = []) \<and> (\<forall>a \<in> sleepers_of (st_sched p). now p < key p a)"

lemma sleepy_done:
  assumes S: "sleepy L scr s ks f rest sc w"
  shows "SCHEDULE_ISDONE sc = (members f sc = {})"
  using sleepyD(2) [OF S] sleepyD(4) [OF S] tailq.isempty_law [OF sleepyD(2) [OF S]]
  by (auto simp: SCHEDULE_ISDONE_def sched_fine_def members_def sleepers_of_def RB_EMPTY_def)

lemma loop_after_c:
  assumes S: "sleepy L scr s ks f rest sc w" and N: "clock_runs K (environ w) (birth sc) (tick w) N" "answered K (environ w)" "tick w + Suc K \<le> N"
  shows "\<exists>t ws. sleepy L scr s ks f rest sc (w\<lparr>waits := ws, tick := t\<rparr>) \<and> tick w \<le> t \<and> t \<le> tick w + Suc K \<and>
    (\<forall>fuel. from_d (Suc (K + fuel)) s w = schedule_loop (Suc (K + fuel)) s (w\<lparr>waits := ws, tick := t\<rparr>))"
proof -
  from epoll_sleepy [OF S N(2)] obtain t ws r where
    e: "tick w \<le> t" "t \<le> tick w + Suc K" "\<And>fuel. schedule_epoll_wait (K + fuel) s w = Done (r, []) (w\<lparr>waits := ws, tick := t\<rparr>)" by blast
  have "from_d (Suc (K + fuel)) s w = schedule_loop (Suc (K + fuel)) s (w\<lparr>waits := ws, tick := t\<rparr>)" for fuel
    by (cases "r = 0") (simp_all add: from_d_def bind_Done [where m = "schedule_epoll_wait (Suc (K + fuel)) s", OF e(3) [of "Suc fuel", unfolded add_Suc_right]] whenM_def del: schedule_loop.simps)
  moreover have "sleepy L scr s ks f rest sc (w\<lparr>waits := ws, tick := t\<rparr>)"
    by (rule sleepy_tick [OF S N(1)]) (use e N(3) in simp_all)
  ultimately show ?thesis using e(1,2) by blast
qed

text \<open>An iteration in which nobody is ready: some questions later everything is as it was.\<close>

lemma loop_idle:
  assumes G: "good L scr s p" and N: "clock_ok K p N" "tick (st_world p) + K + 2 \<le> N" and ne: "crew p \<noteq> {}" and idle: "idle p"
  shows "\<exists>t ws. good L scr s (p\<lparr>st_world := (st_world p)\<lparr>waits := ws, tick := t\<rparr>\<rparr>) \<and> tick (st_world p) < t \<and> t \<le> tick (st_world p) + K + 2 \<and>
    (\<forall>fuel. schedule_loop (Suc (Suc (K + fuel))) s (st_world p) = schedule_loop (Suc (K + fuel)) s ((st_world p)\<lparr>waits := ws, tick := t\<rparr>))"
proof -
  note S = goodD [OF G]
  note D = sleepyD [OF S(1)] and N1 = clock_okD(1) [OF N(1)]
  let ?sc = "st_sched p"
  let ?w = "(st_world p)\<lparr>tick := Suc (tick (st_world p))\<rparr>"
  have pr: "probe_expired (Suc k) s (st_world p) = Done () ?w" for k
  proof (rule probe_expired_stop [OF D(1)])
    fix a as assume "inorder (sleeping ?sc) = a # as"
    then have "a \<in> sleepers_of ?sc" by (simp add: sleepers_of_def)
    then show "diff_usecs (birth ?sc) (clk (environ (st_world p)) (tick (st_world p))) < sleep_key (st_world p) a"
      using idle by (simp add: idle_def key_def now_def elapsed_def word_less_nat_alt)
  qed
  have S1: "sleepy L scr s (st_konts p) (st_queues p) (st_rest p) ?sc ?w"
    using sleepy_tick [OF S(1) N1, of "Suc (tick (st_world p))" "waits (st_world p)"] N(2) by simp
  have "process_queue (Suc fuel) q (Suc k) s l ?w = Done None ?w" for fuel q k l
    using tailq.isempty_law [OF D(2), of q] idle S(2) by (simp add: idle_def)
  then have empty: "bind (process_queue (Suc fuel) q (Suc k) s l) g ?w = g None ?w" for fuel q k l and g :: "int option \<Rightarrow> int M"
    by (simp add: bind_def del: process_queue.simps)
  have busy: "\<not> SCHEDULE_ISDONE ?sc" using sleepy_done [OF S(1)] ne by (simp add: crew_def)
  obtain k1 k2 where k: "DYCO_URGENT_MAXEXEC = Suc k1" "DYCO_URGENT_MAXWAIT = Suc k2" by (simp add: DYCO_URGENT_MAXEXEC_def DYCO_URGENT_MAXWAIT_def numeral_eq_Suc)
  have "schedule_loop (Suc (Suc (K + fuel))) s (st_world p) = from_d (Suc (K + fuel)) s ?w" for fuel
    using loop_phases [OF S(2) busy pr, of ?sc "Suc (K + fuel)" ret] S(2) unfolding k empty
    by (simp add: empty k from_c_def del: schedule_loop.simps process_queue.simps)
  moreover have "tick ?w + Suc K \<le> N" "clock_runs K (environ ?w) (birth ?sc) (tick ?w) N" "answered K (environ ?w)"
    using N(2) clock_runs_later [OF N1, of "Suc (tick (st_world p))"] clock_okD(2) [OF N(1)] by simp_all
  from loop_after_c [OF S1 this(2,3,1)] obtain t ws where
    "sleepy L scr s (st_konts p) (st_queues p) (st_rest p) ?sc (?w\<lparr>waits := ws, tick := t\<rparr>)" "tick ?w \<le> t" "t \<le> tick ?w + Suc K"
    "\<And>fuel. from_d (Suc (K + fuel)) s ?w = schedule_loop (Suc (K + fuel)) s (?w\<lparr>waits := ws, tick := t\<rparr>)" by blast
  ultimately show ?thesis
    by (intro exI [of _ t] exI [of _ ws]) (simp add: good_def del: schedule_loop.simps)
qed

text \<open>Phase A puts those on the queues whose time has come.\<close>

lemma stage_probe:
  assumes G: "good L scr s p" and N: "clock_ok K p N" "tick (st_world p) + Suc L \<le> N" and ready: "\<not> idle p"
  shows "\<exists>p'. good L scr s p' \<and> goes_to (Suc L) p p' \<and> due p' = due p \<and> st_konts p' = st_konts p \<and> tick (st_world p) < tick (st_world p') \<and>
     (\<exists>i. st_queues p' i \<noteq> []) \<and> probe_expired (Suc (length (inorder (sleeping (st_sched p))))) s (st_world p) = Done () (st_world p')"
proof -
  note S = goodD [OF G]
  let ?T = "inorder (sleeping (st_sched p))"
  note few = sleepers_few [OF S(1)]
  with N(2) have "tick (st_world p) + Suc (length ?T) \<le> N" by simp
  from probe_sleepy [OF S(1) refl lessI clock_okD(1) [OF N(1)] this] obtain w' sc' f' where
    a: "probe_expired (Suc (length ?T)) s (st_world p) = Done () w'" "sleepy L scr s (st_konts p) f' (st_rest p) sc' w'" "members f' sc' = crew p"
      "onward (Suc (length ?T)) (st_rest p) (crew p) (st_sched p) (st_world p) (st_rest p) (members f' sc') sc' w'" "\<forall>i. st_queues p i \<noteq> [] \<longrightarrow> f' i \<noteq> []"
      "tick (st_world p) < tick w'" "(\<forall>i. f' i = []) \<longrightarrow> (\<forall>a \<in> sleepers_of (st_sched p). now p < key p a)"
    unfolding crew_def now_def key_def by blast
  let ?p = "\<lparr>st_konts = st_konts p, st_queues = f', st_rest = st_rest p, st_sched = sc', st_world = w'\<rparr>"
  have "due ?p = due p" "crew ?p = members f' sc'" using a(3) by (simp_all add: due_def crew_def)
  moreover from this have "goes_to (Suc L) p ?p" using onward_mono [OF a(4), of "Suc L"] few by (simp add: goes_to_def)
  moreover have "\<exists>i. f' i \<noteq> []" using ready a(5,7) unfolding idle_def by blast
  ultimately show ?thesis using a(1,2,6) by (intro exI [of _ ?p]) (simp add: good_def del: probe_expired.simps)
qed

text \<open>Phase D, when nobody waits for a descriptor, does nothing but to wait.\<close>

lemma stage_wait:
  assumes G: "good L scr s p" and N: "clock_ok K p N" "tick (st_world p) + Suc K \<le> N"
  shows "\<exists>p'. good L scr s p' \<and> goes_to (Suc K) p p' \<and> due p' = due p \<and> (\<forall>fuel g. leads scr p (bind (from_d (Suc (K + fuel)) s) g (st_world p)) p' (bind (schedule_loop (Suc (K + fuel)) s) g (st_world p')))"
proof -
  from loop_after_c [OF goodD(1) [OF G] clock_okD [OF N(1)] N(2)] obtain t ws where
    d: "sleepy L scr s (st_konts p) (st_queues p) (st_rest p) (st_sched p) ((st_world p)\<lparr>waits := ws, tick := t\<rparr>)" "tick (st_world p) \<le> t" "t \<le> tick (st_world p) + Suc K"
      "\<And>fuel. from_d (Suc (K + fuel)) s (st_world p) = schedule_loop (Suc (K + fuel)) s ((st_world p)\<lparr>waits := ws, tick := t\<rparr>)" by blast
  let ?p = "p\<lparr>st_world := (st_world p)\<lparr>waits := ws, tick := t\<rparr>\<rparr>"
  have "due ?p = due p" "goes_to (Suc K) p ?p" using d(2,3) by (auto simp: due_def crew_def goes_to_def onward_def)
  moreover have "leads scr p (bind (from_d (Suc (K + fuel)) s) g (st_world p)) ?p (bind (schedule_loop (Suc (K + fuel)) s) g (st_world ?p))" for fuel g
    using d(4) [of fuel] \<open>due ?p = due p\<close> by (auto simp: leads_def bind_def simp del: schedule_loop.simps)
  ultimately show ?thesis using d(1) by (intro exI [of _ ?p]) (simp add: good_def del: schedule_loop.simps)
qed

text \<open>An iteration in which somebody is ready, or becomes ready: at least one turn is taken.\<close>

lemma loop_turn:
  assumes G: "good L scr s p" and N: "clock_ok K p N" "tick (st_world p) + L + K + 3 * due p + 2 \<le> N" and ne: "crew p \<noteq> {}" and L: "L < 2 ^ 32" and ready: "\<not> idle p"
  shows "\<exists>p'. good L scr s p' \<and> goes_to (L + K + 2) p p' \<and> due p' < due p \<and> tick (st_world p) < tick (st_world p') \<and>
     (\<forall>fuel g. leads scr p (bind (schedule_loop (Suc (Suc (K + fuel))) s) g (st_world p)) p' (bind (schedule_loop (Suc (K + fuel)) s) g (st_world p')))"
proof -
  have "tick (st_world p) + Suc L \<le> N" using N(2) by simp
  from stage_probe [OF G N(1) this ready] obtain p1 where
    a: "good L scr s p1" "goes_to (Suc L) p p1" "due p1 = due p" "st_konts p1 = st_konts p" "tick (st_world p) < tick (st_world p1)"
      "\<exists>i. st_queues p1 i \<noteq> []" "probe_expired (Suc (length (inorder (sleeping (st_sched p))))) s (st_world p) = Done () (st_world p1)" by blast
  note N1 = goes_to_clock [OF N(1) a(2)]
  have pos: "0 < DYCO_URGENT_MAXEXEC" "0 < DYCO_URGENT_MAXWAIT" by (simp_all add: DYCO_URGENT_MAXEXEC_def DYCO_URGENT_MAXWAIT_def)
  have "tick (st_world p1) + 3 * due p1 \<le> N" using goes_to_tick [OF a(2)] N(2) a(3) by simp
  from stage_phase [OF a(1) N1 this L, of DYCO_URGENT_MAXEXEC QUrgent "TAILQ_LAST QUrgent (queues (st_sched p1))"] obtain p2 where
    b: "good L scr s p2" "goes_to 0 p1 p2" "st_queues p1 QUrgent \<noteq> [] \<longrightarrow> due p2 < due p1" "st_queues p1 QUrgent = [] \<longrightarrow> st_queues p2 = st_queues p1"
      "\<And>fuel g. leads scr p1 (bind (process_queue (Suc fuel) QUrgent DYCO_URGENT_MAXEXEC s (TAILQ_LAST QUrgent (queues (st_sched p1)))) g (st_world p1)) p2 (g None (st_world p2))"
    using pos by blast
  note N2 = goes_to_clock [OF N1 b(2)]
  have t2: "tick (st_world p2) + 3 * due p2 + Suc K \<le> N" using goes_to_tick [OF b(2)] goes_to_tick [OF a(2)] N(2) by simp
  then have "tick (st_world p2) + 3 * due p2 \<le> N" by simp
  from stage_phase [OF b(1) N2 this L, of DYCO_URGENT_MAXWAIT QReady "TAILQ_LAST QReady (queues (st_sched p2))"] obtain p3 where
    c: "good L scr s p3" "goes_to 0 p2 p3" "st_queues p2 QReady \<noteq> [] \<longrightarrow> due p3 < due p2"
      "\<And>fuel g. leads scr p2 (bind (process_queue (Suc fuel) QReady DYCO_URGENT_MAXWAIT s (TAILQ_LAST QReady (queues (st_sched p2)))) g (st_world p2)) p3 (g None (st_world p3))"
    using pos by blast
  have "tick (st_world p3) + Suc K \<le> N" using goes_to_tick [OF c(2)] t2 by simp
  from stage_wait [OF c(1) goes_to_clock [OF N2 c(2)] this] obtain p4 where
    d: "good L scr s p4" "goes_to (Suc K) p3 p4" "due p4 = due p3" "\<And>fuel g. leads scr p3 (bind (from_d (Suc (K + fuel)) s) g (st_world p3)) p4 (bind (schedule_loop (Suc (K + fuel)) s) g (st_world p4))" by blast
  have "due p4 < due p"
  proof (cases "st_queues p1 QUrgent = []")
    case True
    then have "st_queues p2 QReady \<noteq> []" using a(6) b(4) by (metis qid.exhaust)
    then show ?thesis using b(2) c(3) a(3) d(3) by (simp add: goes_to_def)
  qed (use b(3) c(2) a(3) d(3) in \<open>simp add: goes_to_def\<close>)
  moreover have "leads scr p (bind (schedule_loop (Suc (Suc (K + fuel))) s) g (st_world p)) p4 (bind (schedule_loop (Suc (K + fuel)) s) g (st_world p4))" for fuel g
  proof -
    have "\<not> SCHEDULE_ISDONE (st_sched p)" using sleepy_done [OF goodD(1) [OF G]] ne by (simp add: crew_def)
    note ph = loop_phases [OF goodD(2) [OF G] this a(7) goodD(2) [OF a(1)], of "Suc (K + fuel)" g]
    have "leads scr p (bind (schedule_loop (Suc (Suc (K + fuel))) s) g (st_world p)) p2 (bind (from_c (Suc (K + fuel)) s) g (st_world p2))"
      using b(5) [of "K + fuel" "\<lambda>r. bind (case r of Some x \<Rightarrow> ret x | None \<Rightarrow> from_c (Suc (K + fuel)) s) g"] a(3,4) unfolding ph leads_def by simp
    moreover have "leads scr p2 (bind (from_c (Suc (K + fuel)) s) g (st_world p2)) p3 (bind (from_d (Suc (K + fuel)) s) g (st_world p3))"
      using c(4) [of "K + fuel" "\<lambda>r. bind (case r of Some x \<Rightarrow> ret x | None \<Rightarrow> from_d (Suc (K + fuel)) s) g"] goodD(2) [OF b(1)]
      unfolding from_c_def by (simp del: process_queue.simps)
    ultimately show ?thesis using d(4) by (blast intro: leads_trans)
  qed
  moreover have "goes_to (L + K + 2) p p4" using goes_to_trans [OF goes_to_trans [OF goes_to_trans [OF a(2) b(2)] c(2)] d(2)] by (simp add: numeral_eq_Suc)
  moreover have "tick (st_world p) < tick (st_world p4)" using a(5) b(2) c(2) d(2) by (simp add: goes_to_def onward_def)
  ultimately show ?thesis using d(1) by (intro exI [of _ p4]) (simp del: schedule_loop.simps)
qed

text \<open>What is left when the loop has ended: an empty scheduler, everybody released, every line printed.\<close>

definition finished :: "addr \<Rightarrow> stage \<Rightarrow> world \<Rightarrow> bool" where
  "finished s p w' \<longleftrightarrow> sched_key w' = s \<and> mset (stdout w') = ledger (st_rest p) (crew p) (st_world p) \<and> suffix (stdout (st_world p)) (stdout w') \<and>
     (\<exists>sc'. scheds w' s = Some sc' \<and> sc_status sc' = SCHEDULE_STATUS_DONE \<and> coro_count sc' = 0 \<and> HTABLE_EMPTY (cid_co_map sc')) \<and>
     (\<forall>c. cos w' c = (if c \<in> crew p then None else cos (st_world p) c))"

lemma finished_earlier: "finished s p' w' \<Longrightarrow> goes_to k p p' \<Longrightarrow> finished s p w'"
  by (auto simp: finished_def goes_to_def onward_def intro: suffix_order.trans)

lemma loop_end:
  assumes G: "good L scr s p" and nobody: "crew p = {}"
  shows "\<exists>w'. finished s p w' \<and> (\<forall>fuel. schedule_loop (Suc fuel) s (st_world p) = Done 0 w')"
proof -
  note S = goodD [OF G]
  note D = sleepyD [OF S(1)]
  let ?sc = "st_sched p"
  let ?w = "(st_world p)\<lparr>scheds := (scheds (st_world p))(s \<mapsto> ?sc\<lparr>sc_status := SCHEDULE_STATUS_DONE\<rparr>)\<rparr>"
  have m: "members (st_queues p) ?sc = {}" using nobody by (simp add: crew_def)
  have "ht_abs (cid_co_map ?sc) k = None" for k using D(7) m by (cases "ht_abs (cid_co_map ?sc) k") (auto simp: registered_def)
  then have "dom (ht_abs (cid_co_map ?sc)) = {}" by auto
  then have "HTABLE_EMPTY (cid_co_map ?sc)" using D(4) ht_wf_count [of "cid_co_map ?sc"] by (simp add: sched_fine_def HTABLE_EMPTY_def)
  then have "finished s p ?w" using D(4,7) m nobody by (simp add: finished_def registered_def sched_fine_def ledger_def)
  moreover have "schedule_loop (Suc fuel) s (st_world p) = Done 0 ?w" for fuel
    using sleepy_done [OF S(1)] m S(2) by simp
  ultimately show ?thesis by blast
qed

lemma enough_least:
  assumes "enough K L N p" "due p = Suc V"
  shows "tick (st_world p) + V * turn_cost K L + L + K + 6 \<le> N"
  using assms by (auto simp: enough_def turn_cost_def in_time_def)

lemma turn_cost_least: "3 \<le> turn_cost K L"
  by (simp add: turn_cost_def)

lemma enough_budget:
  assumes "enough K L N p" "0 < due p"
  shows "tick (st_world p) + L + K + 3 * due p + 2 \<le> N"
proof -
  obtain V where W: "due p = Suc V" using assms(2) by (cases "due p") auto
  have "3 * V \<le> V * turn_cost K L" using turn_cost_least [of K L] by simp
  then show ?thesis using enough_least [OF assms(1) W] W by linarith
qed

lemma enough_less:
  assumes "enough K L N p" "due p' < due p" "goes_to (L + K + 2) p p'"
  shows "enough K L N p'"
proof -
  obtain d where W: "due p = Suc (due p' + d)" using assms(2) by (metis less_imp_Suc_add)
  have "3 * d \<le> d * turn_cost K L" using turn_cost_least [of K L] by simp
  moreover have "tick (st_world p) + (due p' * turn_cost K L + d * turn_cost K L) + L + K + 6 \<le> N"
    using enough_least [OF assms(1) W] by (simp add: add_mult_distrib)
  moreover have "tick (st_world p') \<le> tick (st_world p) + (5 + L + K + 3 * d)" using goes_to_tick [OF assms(3)] W by simp
  ultimately have "tick (st_world p') + due p' * turn_cost K L \<le> N" by linarith
  then show ?thesis by (simp add: enough_def)
qed

lemma enough_sleeper:
  assumes e: "enough K L N p" and G: "good L scr s p" and N: "clock_ok K p N" and idle: "idle p" and ne: "crew p \<noteq> {}"
  shows "\<exists>a \<in> sleepers_of (st_sched p). in_time K N ((due p - 1) * turn_cost K L + L + K + 6) p a"
proof (cases "tick (st_world p) + due p * turn_cost K L \<le> N")
  case True
  let ?d = "tick (st_world p) + K * (2 ^ 32 + L)" and ?C = "(due p - 1) * turn_cost K L + L + K + 6"
  have "due p * turn_cost K L = (due p - 1) * turn_cost K L + turn_cost K L" using due_pos [OF ne] by (cases "due p") simp_all
  then have d: "?d + (K + 2) + ?C \<le> N" using True by (simp add: turn_cost_def)
  obtain a where a: "a \<in> sleepers_of (st_sched p)" using ne idle by (auto simp: crew_def members_def idle_def)
  moreover have "key p a \<le> now p + 2 ^ 32 + L" using sleepyD(9) [OF goodD(1) [OF G]] a by (simp add: keyed_def now_def key_def)
  moreover have "now p + (2 ^ 32 + L) \<le> elapsed (environ (st_world p)) (birth (st_sched p)) ?d"
    unfolding now_def by (rule elapsed_gap [OF clock_okD(1) [OF N] order_refl]) (use d in simp)
  ultimately have "in_time K N ?C p a" using d unfolding in_time_def by (intro disjI2 exI [of _ ?d]) linarith
  with a show ?thesis by blast
qed (use e in \<open>simp add: enough_def\<close>)

lemma enough_idle:
  assumes e: "enough K L N p" and G: "good L scr s p" and N: "clock_ok K p N" and idle: "idle p" and ne: "crew p \<noteq> {}"
    and t: "tick (st_world p) < t" "t \<le> tick (st_world p) + K + 2" "t \<le> N"
  shows "enough K L N (p\<lparr>st_world := (st_world p)\<lparr>waits := ws, tick := t\<rparr>\<rparr>)"
proof -
  let ?p = "p\<lparr>st_world := (st_world p)\<lparr>waits := ws, tick := t\<rparr>\<rparr>" and ?C = "(due p - 1) * turn_cost K L + L + K + 6"
  let ?now = "elapsed (environ (st_world p)) (birth (st_sched p))"
  from enough_sleeper [OF e G N idle ne] obtain a where a: "a \<in> sleepers_of (st_sched p)" "in_time K N ?C p a" by blast
  have f: "due ?p = due p" "key ?p a = key p a" "now ?p = ?now t" "tick (st_world ?p) = t" "environ (st_world ?p) = environ (st_world p)"
    by (simp_all add: due_def crew_def key_def sleep_key_def now_def)
  have "now p < key p a" using idle a(1) by (simp add: idle_def)
  with a(2) obtain d where d: "tick (st_world p) \<le> d" "key p a \<le> ?now d" "d + (K + 2) + ?C \<le> N" unfolding in_time_def by auto
  have "in_time K N ?C ?p a"
  proof (cases "t \<le> d")
    case False
    then have "?now d \<le> ?now t" using elapsed_mono [OF clock_okD(1) [OF N], of d t] d(1) t(3) by simp
    then show ?thesis using d t(2) unfolding in_time_def f by simp
  qed (use d in \<open>auto simp: in_time_def f\<close>)
  moreover have "(\<forall>i. st_queues ?p i = [])" "a \<in> sleepers_of (st_sched ?p)" using a(1) idle by (simp_all add: idle_def)
  ultimately show ?thesis unfolding enough_def f(1) by blast
qed

text \<open>An iteration, whether somebody is ready or not.\<close>

lemma loop_iteration:
  assumes G: "good L scr s p" and N: "clock_ok K p N" and e: "enough K L N p" and L: "L < 2 ^ 32" and ne: "crew p \<noteq> {}"
  shows "\<exists>p'. good L scr s p' \<and> goes_to (L + K + 2) p p' \<and> enough K L N p' \<and> tick (st_world p) < tick (st_world p') \<and> tick (st_world p) < N \<and>
     (\<forall>fuel g. leads scr p (bind (schedule_loop (Suc (Suc (K + fuel))) s) g (st_world p)) p' (bind (schedule_loop (Suc (K + fuel)) s) g (st_world p')))"
proof -
  have budget: "tick (st_world p) + L + K + 3 * due p + 2 \<le> N" using enough_budget [OF e due_pos [OF ne]] .
  show ?thesis
  proof (cases "idle p")
    case False
    from loop_turn [OF G N budget ne L this] enough_less [OF e] budget show ?thesis by fastforce
  next
    case True
    have "tick (st_world p) + K + 2 \<le> N" using budget by simp
    from loop_idle [OF G N this ne True] obtain t ws where
      t: "good L scr s (p\<lparr>st_world := (st_world p)\<lparr>waits := ws, tick := t\<rparr>\<rparr>)" "tick (st_world p) < t" "t \<le> tick (st_world p) + K + 2"
        "\<And>fuel. schedule_loop (Suc (Suc (K + fuel))) s (st_world p) = schedule_loop (Suc (K + fuel)) s ((st_world p)\<lparr>waits := ws, tick := t\<rparr>)" by blast
    let ?p = "p\<lparr>st_world := (st_world p)\<lparr>waits := ws, tick := t\<rparr>\<rparr>"
    have "due ?p = due p" by (simp add: due_def crew_def)
    then have "goes_to (L + K + 2) p ?p" "leads scr p (bind (schedule_loop (Suc (Suc (K + fuel))) s) g (st_world p)) ?p (bind (schedule_loop (Suc (K + fuel)) s) g (st_world ?p))" for fuel g
      using t(2,3) t(4) [of fuel] by (auto simp: goes_to_def onward_def crew_def leads_def bind_def simp del: schedule_loop.simps)
    moreover have "enough K L N ?p" by (rule enough_idle [OF e G N True ne t(2,3)]) (use t(3) budget in simp)
    ultimately show ?thesis using t(1,2) budget by (intro exI [of _ ?p]) (simp del: schedule_loop.simps)
  qed
qed

lemma loop_finishes:
  assumes "good L scr s p" "clock_ok K p N" "enough K L N p" "L < 2 ^ 32"
  shows "\<exists>fuel0 p'. due p' = 0 \<and> finished s p (st_world p') \<and>
    (\<forall>fuel g. leads scr p (bind (schedule_loop (fuel0 + fuel) s) g (st_world p)) p' (g 0 (st_world p')))"
  using assms
proof (induction "N - tick (st_world p)" arbitrary: p rule: less_induct)
  case less
  show ?case
  proof (cases "crew p = {}")
    case True
    from loop_end [OF less.prems(1) True] obtain w' where
      f: "finished s p w'" "\<And>fuel. schedule_loop (Suc fuel) s (st_world p) = Done 0 w'" by blast
    let ?p = "p\<lparr>st_world := w'\<rparr>"
    have d: "due p = 0" "due ?p = 0" using True by (simp_all add: due_def weight_def crew_def)
    then have "leads scr p (bind (schedule_loop (1 + fuel) s) g (st_world p)) ?p (g 0 (st_world ?p))" for fuel g
      using f(2) [of fuel] by (auto simp: leads_def bind_def simp del: schedule_loop.simps)
    with f(1) d(2) show ?thesis by (intro exI [of _ 1] exI [of _ ?p]) simp
  next
    case False
    from loop_iteration [OF less.prems False] obtain p1 where
      t: "good L scr s p1" "goes_to (L + K + 2) p p1" "enough K L N p1" "tick (st_world p) < tick (st_world p1)" "tick (st_world p) < N"
        "\<And>fuel g. leads scr p (bind (schedule_loop (Suc (Suc (K + fuel))) s) g (st_world p)) p1 (bind (schedule_loop (Suc (K + fuel)) s) g (st_world p1))" by blast
    have "N - tick (st_world p1) < N - tick (st_world p)" using t(4,5) by simp
    from less.hyps [OF this t(1) goes_to_clock [OF less.prems(2) t(2)] t(3) less.prems(4)] obtain fuel0 p' where
      i: "due p' = 0" "finished s p1 (st_world p')" "\<And>fuel g. leads scr p1 (bind (schedule_loop (fuel0 + fuel) s) g (st_world p1)) p' (g 0 (st_world p'))" by blast
    have "leads scr p (bind (schedule_loop (fuel0 + K + 2 + fuel) s) g (st_world p)) p' (g 0 (st_world p'))" for fuel g
    proof -
      have "fuel0 + K + 2 + fuel = Suc (Suc (K + (fuel0 + fuel)))" "fuel0 + Suc (K + fuel) = Suc (K + (fuel0 + fuel))" by simp_all
      then show ?thesis using leads_trans [OF t(6) [of "fuel0 + fuel" g]] i(3) [of "Suc (K + fuel)" g] by metis
    qed
    then show ?thesis using i(1) finished_earlier [OF i(2) t(2)] by blast
  qed
qed

end
