(* ===== verification/Sched_Create.thy ===== *)
theory Sched_Create
  imports Coroutine_Correct
begin

text \<open>
  Creating a scheduler, and the thread-specific key under which a thread finds it. A new scheduler is empty, has its stack and its
  epoll instance, and belongs to the thread, if the key exists; the key is made by the first coroutine.
\<close>

lemma htable_init_run:
  assumes "plenty m"
  obtains ht where "htable_init v m = (0, ht, m\<lparr>nalloc := Suc (nalloc m)\<rparr>)" "ht_wf ht" "ht_abs ht = Map.empty" "hcount ht = 0"
    "hwidth ht = (if v \<le> 0 then DYCO_HTABLE_DEFAULTWITDH else min v 24)"
proof -
  from htable_init_ok [OF assms, of v] obtain ht m' where
    h: "htable_init v m = (0, ht, m')" "ht_wf ht" "ht_abs ht = Map.empty"
      "hwidth ht = (if v \<le> 0 then DYCO_HTABLE_DEFAULTWITDH else min v 24)" by (auto simp: DYCO_HTABLE_DEFAULTWITDH_def)
  moreover have "m' = m\<lparr>nalloc := Suc (nalloc m)\<rparr>" "hcount ht = 0"
    using h(1) assms by (auto simp: htable_init_def Let_def malloc_plenty)
  ultimately show thesis by (intro that) auto
qed

text \<open>What a new scheduler looks like.\<close>

definition fresh_schedule :: "fd \<Rightarrow> nat \<Rightarrow> u64 \<Rightarrow> u32 \<Rightarrow> world \<Rightarrow> dyco_schedule \<Rightarrow> bool" where
  "fresh_schedule ep n loopwait i w sc \<longleftrightarrow>
     sc_epollfd sc = ep \<and> fds w ep = Some (EpollFd [])
     \<and> sc_stack_size sc = (if n \<noteq> 0 then n else DYCO_MAX_STACKSIZE)
     \<and> (case bytes w (sc_stack sc) of None \<Rightarrow> False | Some b \<Rightarrow> length b = sc_stack_size sc)
     \<and> loopwait_timeout sc = (if loopwait \<noteq> 0 then loopwait else DYCO_DEFAULT_TIMEOUT)
     \<and> sched_id sc = i \<and> coro_count sc = 0 \<and> cid_gen sc = 0 \<and> curr_thread sc = NULL \<and> sc_status sc = SCHEDULE_STATUS_READY
     \<and> tq_both (queues sc) (\<lambda>_. []) \<and> sleeping sc = Lf
     \<and> ht_wf (fd_co_map sc) \<and> ht_abs (fd_co_map sc) = Map.empty \<and> ht_wf (cid_co_map sc) \<and> ht_abs (cid_co_map sc) = Map.empty
     \<and> hwidth (fd_co_map sc) = DYCO_HTABLE_DEFAULTWITDH \<and> hwidth (cid_co_map sc) = DYCO_HTABLE_DEFAULTWITDH \<and> SCHEDULE_ISDONE sc"

lemma set_sched_run [simp]: "seq (set_sched s) k w = k (w\<lparr>sched_key := (if key_made w then s else sched_key w)\<rparr>)"
  by (simp add: set_sched_def)

lemma init_map_run:
  assumes "scheds w s = Some sc" and "plenty (heap w)"
  obtains ht where "\<And>k. seq (init_map upd s) k w = k (w\<lparr>heap := (heap w)\<lparr>nalloc := Suc (nalloc (heap w))\<rparr>,
      scheds := (scheds w)(s \<mapsto> upd (\<lambda>_. ht) sc)\<rparr>)"
    "ht_wf ht" "ht_abs ht = Map.empty" "hcount ht = 0" "hwidth ht = DYCO_HTABLE_DEFAULTWITDH"
proof -
  obtain ht where h: "htable_init 0 (heap w) = (0, ht, (heap w)\<lparr>nalloc := Suc (nalloc (heap w))\<rparr>)" "ht_wf ht"
    "ht_abs ht = Map.empty" "hcount ht = 0" "hwidth ht = DYCO_HTABLE_DEFAULTWITDH"
    by (rule htable_init_run [OF assms(2), of 0]) (use that in simp)
  show thesis
    by (rule that [of ht]) (use assms(1) h in \<open>simp_all add: init_map_def\<close>)
qed

lemma schedule_create_run:
  assumes "plenty (heap w)" and "newfd (environ w) (tick w) = ep" and "0 \<le> ep" and "fds w ep = None"
  defines "s \<equiv> Suc (nalloc (heap w))"
  obtains w' sc where "dyco_schedule_create n loopwait w = Done (sint (sched_id_gen w + 1)) w'"
    "scheds w' = (scheds w)(s \<mapsto> sc)" "fresh_schedule ep n loopwait (sched_id_gen w + 1) w' sc"
    "sched_key w' = (if key_made w then s else sched_key w)" "key_made w' = key_made w"
    "cos w' = cos w" "plenty (heap w')" "Suc s < nalloc (heap w')" "environ w' = environ w" "tick w' = tick w + 2"
    "fds w' = (fds w)(ep \<mapsto> EpollFd [])" "sched_id_gen w' = sched_id_gen w + 1"
    "bytes w' = (bytes w)(sc_stack sc \<mapsto> replicate (sc_stack_size sc) 0)" "sc_stack sc = Suc s" "birth sc = clk (environ w) (Suc (tick w))" "stdout w' = stdout w"
proof -
  let ?N = "if n \<noteq> 0 then n else DYCO_MAX_STACKSIZE" and ?T = "if loopwait \<noteq> 0 then loopwait else DYCO_DEFAULT_TIMEOUT"
  define sc0 where "sc0 = zero_schedule\<lparr>sc_epollfd := ep, sc_stack_size := ?N, sc_stack := Suc s, sched_id := sched_id_gen w + 1,
      loopwait_timeout := ?T, birth := clk (environ w) (Suc (tick w)), coro_count := 0, cid_gen := 0, sc_status := SCHEDULE_STATUS_READY,
      curr_thread := NULL, sc_udata := NULL,
      queues := TAILQ_INIT QReady (TAILQ_INIT QUrgent (queues zero_schedule)), sleeping := Lf\<rparr>"
  define w0 where "w0 = w\<lparr>heap := (heap w)\<lparr>nalloc := Suc s\<rparr>, scheds := (scheds w)(s \<mapsto> sc0), sched_key := if key_made w then s else sched_key w,
      tick := tick w + 2, fds := (fds w)(ep \<mapsto> EpollFd []), bytes := (bytes w)(Suc s \<mapsto> replicate ?N 0), sched_id_gen := sched_id_gen w + 1\<rparr>"
  have "scheds w0 s = Some sc0" and p0: "plenty (heap w0)"
    using assms(1) by (simp_all add: w0_def)
  then obtain h1 where h1: "\<And>k :: int M. seq (init_map fd_co_map_update s) k w0 = k (w0\<lparr>heap := (heap w0)\<lparr>nalloc := Suc (nalloc (heap w0))\<rparr>,
      scheds := (scheds w0)(s \<mapsto> sc0\<lparr>fd_co_map := h1\<rparr>)\<rparr>)" "ht_wf h1" "ht_abs h1 = Map.empty" "hcount h1 = 0" "hwidth h1 = DYCO_HTABLE_DEFAULTWITDH"
    using init_map_run [of w0 s sc0 fd_co_map_update] by auto
  define w1 where "w1 = w0\<lparr>heap := (heap w0)\<lparr>nalloc := Suc (nalloc (heap w0))\<rparr>, scheds := (scheds w0)(s \<mapsto> sc0\<lparr>fd_co_map := h1\<rparr>)\<rparr>"
  have "scheds w1 s = Some (sc0\<lparr>fd_co_map := h1\<rparr>)" and p1: "plenty (heap w1)"
    using p0 by (simp_all add: w1_def)
  then obtain h2 where h2: "\<And>k :: int M. seq (init_map cid_co_map_update s) k w1 = k (w1\<lparr>heap := (heap w1)\<lparr>nalloc := Suc (nalloc (heap w1))\<rparr>,
      scheds := (scheds w1)(s \<mapsto> sc0\<lparr>fd_co_map := h1, cid_co_map := h2\<rparr>)\<rparr>)" "ht_wf h2" "ht_abs h2 = Map.empty" "hcount h2 = 0" "hwidth h2 = DYCO_HTABLE_DEFAULTWITDH"
    using init_map_run [of w1 s "sc0\<lparr>fd_co_map := h1\<rparr>" cid_co_map_update] by auto
  let ?sc = "sc0\<lparr>fd_co_map := h1, cid_co_map := h2\<rparr>"
  let ?w' = "w1\<lparr>heap := (heap w1)\<lparr>nalloc := Suc (nalloc (heap w1))\<rparr>, scheds := (scheds w1)(s \<mapsto> ?sc)\<rparr>"
  have "dyco_schedule_create n loopwait w = seq (init_map fd_co_map_update s) (seq (init_map cid_co_map_update s) (ret (sint (sched_id_gen w + 1)))) w0"
    using assms(1-4) unfolding w0_def sc0_def s_def
    by (simp add: dyco_schedule_create_def bind_Done [OF alloc_plenty] epoll_create_def open_fd_def DYCO_MUSTNOT_def Let_def split del: if_split)
      (rule arg_cong [where f = "seq (init_map fd_co_map_update (Suc (nalloc (heap w)))) (seq (init_map cid_co_map_update (Suc (nalloc (heap w))))
         (ret (sint (sched_id_gen w + 1))))"], rule world.equality; simp)
  then have "dyco_schedule_create n loopwait w = Done (sint (sched_id_gen w + 1)) ?w'"
    by (simp add: h1(1) w1_def [symmetric] h2(1) ret_def)
  moreover have "fresh_schedule ep n loopwait (sched_id_gen w + 1) ?w' ?sc"
    using h1(2-5) h2(2-5)
    by (simp add: fresh_schedule_def w1_def w0_def sc0_def SCHEDULE_ISDONE_def HTABLE_EMPTY_def RB_EMPTY_def TAILQ_EMPTY_def TAILQ_INIT_def tq_both_def qid_all tq_rep_def)
  ultimately show thesis
    using assms(1) by (intro that [of ?w' ?sc]) (simp_all add: w1_def w0_def sc0_def)
qed

text \<open>
  C24: a new scheduler has an epoll instance of its own and a stack of the requested or the default size; its queues, its tree and its
  maps (of the default width) are empty, and there is nothing for it to do. It becomes the scheduler of the thread only if the thread-specific key
  exists.
\<close>

theorem schedule_create_correct:
  assumes "plenty (heap w)" and "newfd (environ w) (tick w) = ep" and "0 \<le> ep" and "fds w ep = None"
  shows "\<exists>w' sc. dyco_schedule_create n loopwait w = Done (sint (sched_id_gen w + 1)) w' \<and> scheds w' = (scheds w)(Suc (nalloc (heap w)) \<mapsto> sc)
    \<and> fresh_schedule ep n loopwait (sched_id_gen w + 1) w' sc \<and> cos w' = cos w
    \<and> sched_key w' = (if key_made w then Suc (nalloc (heap w)) else sched_key w)"
  by (rule schedule_create_run [OF assms, of n loopwait]) blast

definition world_new :: world where
  "world_new = (world0 Map.empty zero_schedule)\<lparr>scheds := Map.empty, key_made := False, sched_key := NULL\<rparr>"

theorem schedule_create_correct_witness:
  "\<exists>w' sc. dyco_schedule_create 8192 0 world_new = Done 2 w' \<and> scheds w' 101 = Some sc \<and> fresh_schedule 10 8192 0 2 w' sc
     \<and> sched_key w' = NULL"
  using schedule_create_correct [of world_new 10 8192 0] by (force simp: world_new_def plenty_def)

text \<open>
  C34: a scheduler created before the first coroutine of the process is lost. The key does not exist yet, so the thread
  does not get the scheduler, and the first coroutine creates another one, with the default sizes; the first one stays
  allocated, and nothing refers to it.
\<close>

theorem early_scheduler_lost:
  assumes "plenty (heap w)" and "\<not> key_made w" and "sched_key w = NULL" and "fds w ep = None" and "0 \<le> ep" and "fds w ep' = None"
    and "0 \<le> ep'" and "ep \<noteq> ep'" and "newfd (environ w) (tick w) = ep" and "newfd (environ w) (tick w + 2) = ep'"
  defines "s \<equiv> Suc (nalloc (heap w))"
  shows "\<exists>w1 w2 c s' sc sc'. dyco_schedule_create n loopwait w = Done (sint (sched_id_gen w + 1)) w1 \<and> get_sched w1 = Done NULL w1
    \<and> newcoro w1 = Done c w2 \<and> sched_key w2 = s' \<and> s' \<noteq> s \<and> scheds w2 s = Some sc \<and> scheds w2 s' = Some sc'
    \<and> fresh_schedule ep n loopwait (sched_id_gen w + 1) w2 sc \<and> fresh_schedule ep' 0 0 (sched_id_gen w + 2) w2 sc'"
proof -
  obtain w1 sc where c1: "dyco_schedule_create n loopwait w = Done (sint (sched_id_gen w + 1)) w1" "scheds w1 = (scheds w)(s \<mapsto> sc)"
    "fresh_schedule ep n loopwait (sched_id_gen w + 1) w1 sc" "sched_key w1 = NULL" "\<not> key_made w1" "plenty (heap w1)" "Suc s < nalloc (heap w1)" "sc_stack sc = Suc s"
    "environ w1 = environ w" "tick w1 = tick w + 2" "fds w1 = (fds w)(ep \<mapsto> EpollFd [])" "sched_id_gen w1 = sched_id_gen w + 1"
    by (rule schedule_create_run [OF assms(1,9,5,4), of n loopwait]) (use assms(2,3) in \<open>simp add: s_def\<close>)
  let ?w = "w1\<lparr>key_made := True, sched_key := NULL\<rparr>" and ?s = "Suc (nalloc (heap w1))"
  have p: "plenty (heap ?w)" "newfd (environ ?w) (tick ?w) = ep'" "0 \<le> ep'" "fds ?w ep' = None"
    using c1 assms by simp_all
  obtain w2 sc' where c2: "dyco_schedule_create 0 0 ?w = Done (sint (sched_id_gen w1 + 1)) w2" "scheds w2 = (scheds w1)(?s \<mapsto> sc')"
    "fresh_schedule ep' 0 0 (sched_id_gen w1 + 1) w2 sc'" "sched_key w2 = ?s" "plenty (heap w2)" "fds w2 = (fds w1)(ep' \<mapsto> EpollFd [])"
    "bytes w2 = (bytes w1)(sc_stack sc' \<mapsto> replicate (sc_stack_size sc') 0)" "sc_stack sc' = Suc ?s"
    by (rule schedule_create_run [OF p, of 0 0]) simp
  let ?c = "Suc (nalloc (heap w2))"
  let ?w3 = "w2\<lparr>heap := (heap w2)\<lparr>nalloc := ?c\<rparr>, cos := (cos w2)(?c \<mapsto> zero_coroutine\<lparr>co_status := new_status, co_epollfd := - 1, co_sigfd := - 1\<rparr>)\<rparr>"
  have "newcoro w1 = Done ?c ?w3"
    using c1(4,5) c2(4,5)
    by (simp add: newcoro_def sched_key_once_def sched_key_creator_def whenM_def seq_Done [where m = "dyco_schedule_create 0 0", OF c2(1)]
        alloc_plenty zero_coroutine_def)
  moreover have "scheds ?w3 s = Some sc" "scheds ?w3 ?s = Some sc'" "?s \<noteq> s"
    using c1(2,7) c2(2) by auto
  moreover have "fresh_schedule ep n loopwait (sched_id_gen w + 1) ?w3 sc"
    using c1(3,7,8) c2(6-8) assms(8) by (simp add: fresh_schedule_def)
  moreover have "fresh_schedule ep' 0 0 (sched_id_gen w + 2) ?w3 sc'"
    using c2(3) c1(12) by (simp add: fresh_schedule_def add.assoc)
  ultimately show ?thesis
    using c1(1,4) c2(4) by (intro exI [of _ w1] exI [of _ ?w3] exI [of _ ?c] exI [of _ ?s] exI [of _ sc] exI [of _ sc']) (simp add: get_sched_def)
qed

theorem early_scheduler_lost_witness:
  "\<exists>w1 w2 c s' sc sc'. dyco_schedule_create 8192 0 world_new = Done 2 w1 \<and> newcoro w1 = Done c w2 \<and> sched_key w2 = s' \<and> s' \<noteq> 101
     \<and> scheds w2 101 = Some sc \<and> scheds w2 s' = Some sc' \<and> sc_stack_size sc = 8192 \<and> sc_stack_size sc' = DYCO_MAX_STACKSIZE"
proof -
  have p: "plenty (heap world_new)" "\<not> key_made world_new" "sched_key world_new = NULL" "fds world_new 10 = None" "0 \<le> (10 :: int)"
    "fds world_new 12 = None" "0 \<le> (12 :: int)" "10 \<noteq> (12 :: int)" "newfd (environ world_new) (tick world_new) = 10"
    "newfd (environ world_new) (tick world_new + 2) = 12" "sint (sched_id_gen world_new + 1) = 2" "Suc (nalloc (heap world_new)) = 101"
    by (simp_all add: world_new_def plenty_def)
  show ?thesis
    using early_scheduler_lost [OF p(1-10), of 8192 0] unfolding p(11,12) fresh_schedule_def by (elim exE conjE) (intro exI conjI, assumption+, simp_all)
qed

text \<open>
  The end of a thread releases the structure of its scheduler and nothing else: its stack stays allocated and its epoll instance
  stays open.
\<close>

lemma thread_exit_run:
  assumes "key_made w" and "sched_key w = s" and "s \<noteq> NULL" and "scheds w s = Some sc"
  shows "thread_exit w = Done () (w\<lparr>sched_key := NULL, scheds := (scheds w)(s := None)\<rparr>)"
  using assms by (simp add: thread_exit_def whenM_def sched_key_destructor_def dispose_def)

end
