(* ===== verification/Sleep_Program.thy ===== *)
theory Sleep_Program
  imports Sleep_Run Sched_Create
begin

text \<open>
  Programs from \<^verbatim>\<open>main\<close> on: a process creates its coroutines one after the other, the first of which brings the scheduler with it, and calls
  \<^verbatim>\<open>dyco_schedule_run\<close>.
\<close>

section \<open>Creating the coroutines\<close>

text \<open>The results of creating a coroutine for each of the functions and arguments.\<close>

primrec create_all :: "(nat \<times> addr) list \<Rightarrow> int list M" where
  "create_all [] = ret []"
| "create_all (p # ps) = bind (dyco_coroutine_create (fst p) (snd p)) (\<lambda>i. bind (create_all ps) (\<lambda>is. ret (i # is)))"

definition spawn :: "(nat \<times> addr) list \<Rightarrow> unit M" where
  "spawn ps = seq (create_all ps) (ret ())"

definition newborn :: "addr \<Rightarrow> i32 \<Rightarrow> nat \<times> addr \<Rightarrow> dyco_coroutine" where
  "newborn s k p = zero_coroutine\<lparr>co_status := new_status, co_epollfd := - 1, co_sigfd := - 1, co_func := fst p, co_arg := snd p, co_sched := s, cid := k\<rparr>"

definition nth_cid :: "u32 \<Rightarrow> nat \<Rightarrow> i32" where
  "nth_cid sid i = make_cid sid (of_nat (Suc i))"

text \<open>A scheduler that has never run, with the coroutines \<open>cs\<close> made for the functions and arguments \<open>ps\<close>.\<close>

definition seeded :: "(nat \<times> addr) list \<Rightarrow> addr list \<Rightarrow> addr \<Rightarrow> dyco_schedule \<Rightarrow> world \<Rightarrow> bool" where
  "seeded ps cs s sc w \<longleftrightarrow> key_made w \<and> sched_key w = s \<and> s \<noteq> NULL \<and> scheds w s = Some sc \<and> sc_status sc = SCHEDULE_STATUS_READY \<and>
     sleeping sc = Lf \<and> HTABLE_EMPTY (fd_co_map sc) \<and> fds w (sc_epollfd sc) = Some (EpollFd []) \<and> plenty (heap w) \<and>
     sc_stack sc \<noteq> NULL \<and> sc_stack sc \<le> nalloc (heap w) \<and> (\<exists>b. bytes w (sc_stack sc) = Some b \<and> length b = sc_stack_size sc) \<and>
     ht_wf (cid_co_map sc) \<and> hwidth (cid_co_map sc) = DYCO_HTABLE_DEFAULTWITDH \<and> length ps = length cs \<and>
     coro_count sc = of_nat (length cs) \<and> cid_gen sc = of_nat (length cs) \<and> tq_both (queues sc) ((\<lambda>_. [])(QReady := cs)) \<and>
     (\<forall>c \<in> set cs. c \<noteq> NULL \<and> c \<le> nalloc (heap w)) \<and> (\<forall>i < length cs. cos w (cs ! i) = Some (newborn s (nth_cid (sched_id sc) i) (ps ! i))) \<and>
     (\<forall>k c. ht_abs (cid_co_map sc) k = Some c \<longleftrightarrow> (\<exists>i < length cs. c = cs ! i \<and> k = nth_cid (sched_id sc) i))"

lemma gen_less: "n \<le> 2 ^ 16 \<Longrightarrow> (of_nat n :: u32) < 2 ^ 24"
  by (simp add: word_less_nat_alt unat_of_nat)

lemma gen_unat: "n \<le> 2 ^ 16 \<Longrightarrow> unat (of_nat n :: u32) = n"
  by (simp add: unat_of_nat)

lemma nth_cid_ok:
  assumes "i < 2 ^ 16"
  shows "key_ok (nth_cid sid i)"
proof -
  have l: "take_bit 24 (nth_cid sid i) = of_nat (Suc i)" unfolding nth_cid_def by (rule make_cid_low [OF gen_less]) (use assms in simp)
  have "unat (of_nat (Suc i) :: u32) = Suc i" by (rule gen_unat) (use assms in simp)
  then have "of_nat (Suc i) \<noteq> (0 :: u32)" "of_nat (Suc i) \<noteq> (take_bit 24 (- 1) :: u32)" using assms by (auto simp: mask_eq_exp_minus_1)
  with l show ?thesis unfolding key_ok_def by (metis take_bit_of_0)
qed

lemma nth_cid_inj:
  assumes "nth_cid sid i = nth_cid sid j" "i < 2 ^ 16" "j < 2 ^ 16"
  shows "i = j"
proof -
  have "(of_nat (Suc i) :: u32) = of_nat (Suc j)"
    using assms make_cid_inj [OF gen_less gen_less, of "Suc i" "Suc j" sid sid] by (simp add: nth_cid_def)
  then have "unat (of_nat (Suc i) :: u32) = unat (of_nat (Suc j) :: u32)" by simp
  then show ?thesis using assms(2,3) gen_unat [of "Suc i"] gen_unat [of "Suc j"] by simp
qed

lemma next_gen_small:
  assumes "n < 2 ^ 16"
  shows "next_gen (of_nat n) = of_nat (Suc n)"
proof -
  have "unat (next_gen (of_nat n)) = Suc n mod 2 ^ 24" by (simp only: next_gen_unat gen_unat [OF less_imp_le [OF assms]] Suc_eq_plus1)
  also have "\<dots> = unat (of_nat (Suc n) :: u32)" using assms gen_unat [of "Suc n"] by simp
  finally show ?thesis by (simp only: word_unat_eq_iff)
qed

lemma seeded_map:
  assumes S: "seeded ps cs s sc w" and n: "length cs < 2 ^ 16" and ht: "ht_abs ht = (ht_abs (cid_co_map sc))(nth_cid (sched_id sc) (length cs) \<mapsto> c)"
  shows "ht_abs ht k = Some d \<longleftrightarrow> (\<exists>i < length (cs @ [c]). d = (cs @ [c]) ! i \<and> k = nth_cid (sched_id sc) i)"
proof (cases "k = nth_cid (sched_id sc) (length cs)")
  case True
  have "nth_cid (sched_id sc) i \<noteq> nth_cid (sched_id sc) (length cs)" if "i < length cs" for i
    using nth_cid_inj [of "sched_id sc" i "length cs"] that n by auto
  then show ?thesis using True ht by (fastforce simp: nth_append less_Suc_eq)
next
  case False
  have "ht_abs (cid_co_map sc) k = Some d \<longleftrightarrow> (\<exists>i < length cs. d = cs ! i \<and> k = nth_cid (sched_id sc) i)"
    using S unfolding seeded_def by blast
  then show ?thesis using False ht by (auto simp: nth_append less_Suc_eq)
qed

lemma seeded_create:
  assumes S: "seeded ps cs s sc w" and n: "length cs < 2 ^ 16 - 1"
  obtains c sc' w' where "dyco_coroutine_create (fst p) (snd p) w = Done (sint (nth_cid (sched_id sc) (length cs))) w'" "seeded (ps @ [p]) (cs @ [c]) s sc' w'"
    "environ w' = environ w" "tick w' = tick w" "birth sc' = birth sc" "sc_stack_size sc' = sc_stack_size sc" "c \<notin> set cs"
    "cos w' = (cos w)(c \<mapsto> newborn s (nth_cid (sched_id sc) (length cs)) p)" "stdout w' = stdout w" "sched_id sc' = sched_id sc"
proof -
  define c where "c = Suc (nalloc (heap w))"
  have gen: "next_gen (cid_gen sc) = of_nat (Suc (length cs))" using S next_gen_small [of "length cs"] n by (simp add: seeded_def)
  have kk: "nth_cid (sched_id sc) (length cs) = make_cid (sched_id sc) (next_gen (cid_gen sc))" by (simp only: gen nth_cid_def)
  have w: "hwidth (cid_co_map sc) < DYCO_HTABLE_MAXWITDH" using S by (simp add: seeded_def DYCO_HTABLE_DEFAULTWITDH_def DYCO_HTABLE_MAXWITDH_def)
  have ok: "key_ok (nth_cid (sched_id sc) (length cs))" by (rule nth_cid_ok) (use n in simp)
  have a: "sched_key w = s" "s \<noteq> NULL" "scheds w s = Some sc" "ht_wf (cid_co_map sc)" "plenty (heap w)" "key_made w" using S by (simp_all add: seeded_def)
  from coroutine_create_run [OF a(1-5) w ok a(6) kk c_def, of "fst p" "snd p"] obtain r ht h where
    run: "dyco_coroutine_create (fst p) (snd p) w = Done (sint (nth_cid (sched_id sc) (length cs))) (w\<lparr>cos := (cos w)(c \<mapsto> newborn s (nth_cid (sched_id sc) (length cs)) p),
         heap := h, scheds := (scheds w)(s \<mapsto> reopen (sc\<lparr>cid_gen := next_gen (cid_gen sc), cid_co_map := ht,
           coro_count := coro_count sc + 1, queues := TAILQ_INSERT_TAIL QReady c (queues sc)\<rparr>))\<rparr>)" (is "_ = Done _ ?w'")
    and ins: "htable_insert (cid_co_map sc) (nth_cid (sched_id sc) (length cs)) c ((heap w)\<lparr>nalloc := c\<rparr>) = Some (r, ht, h)"
    and ht: "ht_wf ht" "ht_abs ht = (ht_abs (cid_co_map sc))(nth_cid (sched_id sc) (length cs) \<mapsto> c)" "plenty h"
    unfolding newborn_def by blast
  have "dom (ht_abs (cid_co_map sc)) \<subseteq> nth_cid (sched_id sc) ` {..<length cs}" using S by (auto simp: seeded_def)
  from surj_card_le [OF _ this] have "hcount (cid_co_map sc) \<le> int (length cs)" using ht_wf_count [OF a(4)] by simp
  moreover have "sint (hmask (cid_co_map sc)) = 2 ^ 16 - 1"
    using wf_sint_mask [OF a(4)] S by (simp add: seeded_def DYCO_HTABLE_DEFAULTWITDH_def)
  ultimately have "hcount (cid_co_map sc) + 1 < sint (hmask (cid_co_map sc)) * DYCO_HTABLE_MAXALPHA"
    using n by (simp add: DYCO_HTABLE_MAXALPHA_def)
  from htable_insert_small [OF ins this] have small: "hwidth ht = hwidth (cid_co_map sc)" "c \<le> nalloc h" by simp_all
  have fresh: "d < c" if "d \<in> set cs" for d using S that by (auto simp: seeded_def c_def)
  have q: "tq_both (TAILQ_INSERT_TAIL QReady c (queues sc)) (((\<lambda>_. [])(QReady := cs))(QReady := cs @ [c]))"
    using tailq.push_law [of "queues sc" "(\<lambda>_. [])(QReady := cs)" c QReady] S fresh by (auto simp: seeded_def c_def)
  have map: "ht_abs ht k = Some d \<longleftrightarrow> (\<exists>i < length (cs @ [c]). d = (cs @ [c]) ! i \<and> k = nth_cid (sched_id sc) i)" for k d
    using seeded_map [OF S _ ht(2)] n by simp
  have born: "cos ?w' ((cs @ [c]) ! i) = Some (newborn s (nth_cid (sched_id sc) i) ((ps @ [p]) ! i))" if "i < length (cs @ [c])" for i
    using S that fresh [of "cs ! i"] by (auto simp: seeded_def nth_append less_Suc_eq)
  have "reopen (sc\<lparr>cid_gen := next_gen (cid_gen sc), cid_co_map := ht, coro_count := coro_count sc + 1, queues := TAILQ_INSERT_TAIL QReady c (queues sc)\<rparr>)
      = sc\<lparr>cid_gen := of_nat (Suc (length cs)), cid_co_map := ht, coro_count := of_nat (length (cs @ [c])), queues := TAILQ_INSERT_TAIL QReady c (queues sc)\<rparr>"
    using S gen by (simp add: reopen_def seeded_def)
  with map born q ht small S fresh have "seeded (ps @ [p]) (cs @ [c]) s (the (scheds ?w' s)) ?w'"
    unfolding seeded_def by (auto simp: c_def)
  with run fresh show thesis
    by (intro that [of ?w' c "the (scheds ?w' s)"]) (auto simp: reopen_def)
qed

lemma seeded_create_all:
  assumes "seeded ps cs s sc w" "length cs + length qs < 2 ^ 16"
  shows "\<exists>ds sc' w'. create_all qs w = Done (map (\<lambda>i. sint (nth_cid (sched_id sc) i)) [length cs..<length cs + length qs]) w' \<and>
    seeded (ps @ qs) (cs @ ds) s sc' w' \<and> environ w' = environ w \<and> tick w' = tick w \<and>
    birth sc' = birth sc \<and> sc_stack_size sc' = sc_stack_size sc \<and> stdout w' = stdout w \<and> sched_id sc' = sched_id sc \<and>
    (\<forall>c. c \<notin> set ds \<longrightarrow> cos w' c = cos w c)"
  using assms
proof (induction qs arbitrary: ps cs sc w)
  case Nil
  then show ?case by (intro exI [of _ "[]"]) (auto simp: ret_def)
next
  case (Cons q qs)
  obtain c sc1 w1 where
    c: "dyco_coroutine_create (fst q) (snd q) w = Done (sint (nth_cid (sched_id sc) (length cs))) w1" "seeded (ps @ [q]) (cs @ [c]) s sc1 w1"
      "environ w1 = environ w" "tick w1 = tick w" "birth sc1 = birth sc" "sc_stack_size sc1 = sc_stack_size sc"
      "cos w1 = (cos w)(c \<mapsto> newborn s (nth_cid (sched_id sc) (length cs)) q)" "stdout w1 = stdout w" "sched_id sc1 = sched_id sc"
    by (rule seeded_create [OF Cons.prems(1), of q]) (use Cons.prems(2) in simp_all)
  have "length (cs @ [c]) + length qs < 2 ^ 16" using Cons.prems(2) by simp
  from Cons.IH [OF c(2) this] obtain ds sc2 w2 where
    d: "create_all qs w1 = Done (map (\<lambda>i. sint (nth_cid (sched_id sc) i)) [Suc (length cs)..<Suc (length cs) + length qs]) w2"
      "seeded ((ps @ [q]) @ qs) ((cs @ [c]) @ ds) s sc2 w2" "environ w2 = environ w1" "tick w2 = tick w1" "birth sc2 = birth sc1"
      "sc_stack_size sc2 = sc_stack_size sc1" "stdout w2 = stdout w1" "sched_id sc2 = sched_id sc1" "\<forall>e. e \<notin> set ds \<longrightarrow> cos w2 e = cos w1 e"
    using c(9) by auto
  have "[length cs..<length cs + length (q # qs)] = length cs # [Suc (length cs)..<Suc (length cs) + length qs]" by (simp add: upt_rec)
  then have "create_all (q # qs) w = Done (map (\<lambda>i. sint (nth_cid (sched_id sc) i)) [length cs..<length cs + length (q # qs)]) w2"
    by (simp add: bind_Done [where m = "dyco_coroutine_create (fst q) (snd q)", OF c(1)] bind_Done [where m = "create_all qs", OF d(1)] ret_def)
  then show ?case using c d by (intro exI [of _ "c # ds"] exI [of _ sc2] exI [of _ w2]) simp
qed

text \<open>A process that has no scheduler: the first coroutine makes the key and the scheduler.\<close>

definition fresh_process :: "world \<Rightarrow> bool" where
  "fresh_process w \<longleftrightarrow> plenty (heap w) \<and> \<not> key_made w \<and> sched_key w = NULL \<and> cos w = Map.empty \<and>
     0 \<le> newfd (environ w) (tick w) \<and> fds w (newfd (environ w) (tick w)) = None"

lemma create_first:
  assumes "fresh_process w"
  obtains s sc w1 where "\<And>f a. dyco_coroutine_create f a w = dyco_coroutine_create f a w1" "seeded [] [] s sc w1" "cos w1 = Map.empty"
    "environ w1 = environ w" "tick w1 = tick w + 2" "birth sc = clk (environ w) (Suc (tick w))" "sc_stack_size sc = DYCO_MAX_STACKSIZE"
    "stdout w1 = stdout w" "sched_id sc = sched_id_gen w + 1"
proof -
  let ?w = "w\<lparr>key_made := True, sched_key := NULL\<rparr>" and ?s = "Suc (nalloc (heap w))"
  have p: "plenty (heap ?w)" "newfd (environ ?w) (tick ?w) = newfd (environ w) (tick w)" "0 \<le> newfd (environ w) (tick w)" "fds ?w (newfd (environ w) (tick w)) = None"
    using assms by (simp_all add: fresh_process_def)
  obtain w1 sc where c: "dyco_schedule_create 0 0 ?w = Done (sint (sched_id_gen w + 1)) w1" "scheds w1 = (scheds w)(?s \<mapsto> sc)"
    "fresh_schedule (newfd (environ w) (tick w)) 0 0 (sched_id_gen w + 1) w1 sc" "sched_key w1 = ?s" "key_made w1" "cos w1 = cos w" "plenty (heap w1)" "Suc ?s < nalloc (heap w1)"
    "environ w1 = environ w" "tick w1 = tick w + 2" "sc_stack sc = Suc ?s" "birth sc = clk (environ w) (Suc (tick w))" "stdout w1 = stdout w"
    by (rule schedule_create_run [OF p, of 0 0]) simp
  have "newcoro w = newcoro w1"
    using assms c(1,4,5) by (simp add: newcoro_def fresh_process_def sched_key_once_def sched_key_creator_def whenM_def seq_Done [where m = "dyco_schedule_create 0 0", OF c(1)])
  then have "dyco_coroutine_create f a w = dyco_coroutine_create f a w1" for f a by (simp add: dyco_coroutine_create_def bind_def)
  moreover have "seeded [] [] ?s sc w1"
    using c(2-8,11) assms ht_wf_count [of "fd_co_map sc"] unfolding seeded_def fresh_schedule_def
    by (auto simp: HTABLE_EMPTY_def fun_upd_idem split: option.splits)
  ultimately show thesis
    using c assms by (intro that [of w1 ?s sc]) (simp_all add: fresh_schedule_def fresh_process_def)
qed

lemma fresh_create_all:
  assumes "fresh_process w" and "ps \<noteq> []" and "length ps < 2 ^ 16"
  obtains w1 cs s sc where "create_all ps w = Done (map (\<lambda>i. sint (nth_cid (sched_id_gen w + 1) i)) [0..<length ps]) w1" "seeded ps cs s sc w1"
    "environ w1 = environ w" "tick w1 = tick w + 2" "birth sc = clk (environ w) (Suc (tick w))" "sc_stack_size sc = DYCO_MAX_STACKSIZE" "stdout w1 = stdout w"
    "sched_id sc = sched_id_gen w + 1" "\<And>c. c \<notin> set cs \<Longrightarrow> cos w1 c = None"
proof -
  obtain s sc w1 where
    f: "\<And>f a. dyco_coroutine_create f a w = dyco_coroutine_create f a w1" "seeded [] [] s sc w1" "cos w1 = Map.empty"
    "environ w1 = environ w" "tick w1 = tick w + 2" "birth sc = clk (environ w) (Suc (tick w))" "sc_stack_size sc = DYCO_MAX_STACKSIZE"
    "stdout w1 = stdout w" "sched_id sc = sched_id_gen w + 1"
    by (rule create_first [OF assms(1)]) (rule that)
  from seeded_create_all [OF f(2), of ps] assms(3) obtain cs sc2 w2 where
    c: "create_all ps w1 = Done (map (\<lambda>i. sint (nth_cid (sched_id sc) i)) [0..<length ps]) w2" "seeded ps cs s sc2 w2" "environ w2 = environ w1" "tick w2 = tick w1"
      "birth sc2 = birth sc" "sc_stack_size sc2 = sc_stack_size sc" "stdout w2 = stdout w1" "sched_id sc2 = sched_id sc"
      "\<forall>c. c \<notin> set cs \<longrightarrow> cos w2 c = cos w1 c" by auto
  have "create_all ps w = create_all ps w1" using assms(2) f(1) by (cases ps) (simp_all add: bind_def)
  with c f show thesis by (intro that [of w2 cs s sc2]) auto
qed

text \<open>
  C29: identifiers of coroutines are unique. In a process that has no scheduler yet and in which allocations succeed, up to 65535 coroutines are created one after the other. Every
  creation returns another identifier, made of the low byte of the number of the scheduler and the number of the creation, and looking an identifier up
  in the map of the scheduler finds the coroutine with the function and the argument it was created for.
\<close>

theorem created_ids_distinct:
  assumes "fresh_process w" and "ps \<noteq> []" and "length ps < 2 ^ 16"
  shows "\<exists>ks w'. create_all ps w = Done (map sint ks) w' \<and> length ks = length ps \<and> distinct (map sint ks) \<and>
    (\<forall>i < length ps. ks ! i = make_cid (sched_id_gen w + 1) (of_nat (i + 1)) \<and>
      (\<exists>c co. cidmap_find (sched_key w') (ks ! i) w' = Done c w' \<and> cos w' c = Some co \<and> co_func co = fst (ps ! i) \<and> co_arg co = snd (ps ! i) \<and> cid co = ks ! i))"
proof -
  obtain w1 cs s sc where
    c: "create_all ps w = Done (map (\<lambda>i. sint (nth_cid (sched_id_gen w + 1) i)) [0..<length ps]) w1" "seeded ps cs s sc w1" "sched_id sc = sched_id_gen w + 1"
    by (rule fresh_create_all [OF assms]) (rule that)
  let ?ks = "map (nth_cid (sched_id_gen w + 1)) [0..<length ps]"
  have "inj_on (nth_cid (sched_id_gen w + 1)) (set [0..<length ps])"
    by (rule inj_onI, rule nth_cid_inj) (use assms(3) in auto)
  then have "distinct ?ks" by (simp only: distinct_map distinct_upt simp_thms)
  moreover have "inj_on sint (set ?ks)" by (rule inj_onI, rule signed_word_eqI)
  ultimately have d: "distinct (map sint ?ks)" by (simp only: distinct_map simp_thms)
  have S: "sched_key w1 = s" "scheds w1 s = Some sc" "ht_wf (cid_co_map sc)" "length cs = length ps" using c(2) by (simp_all add: seeded_def)
  have "\<exists>d co. cidmap_find (sched_key w1) (?ks ! i) w1 = Done d w1 \<and> cos w1 d = Some co \<and> co_func co = fst (ps ! i) \<and> co_arg co = snd (ps ! i) \<and> cid co = ?ks ! i"
    if i: "i < length ps" for i
  proof -
    have k: "?ks ! i = nth_cid (sched_id sc) i" using i c(3) by simp
    have "ht_abs (cid_co_map sc) (nth_cid (sched_id sc) i) = Some (cs ! i)" "cos w1 (cs ! i) = Some (newborn s (nth_cid (sched_id sc) i) (ps ! i))"
      using c(2) i S(4) unfolding seeded_def by auto
    moreover have "key_ok (nth_cid (sched_id sc) i)" by (rule nth_cid_ok) (use i assms(3) in simp)
    ultimately show ?thesis unfolding k S(1) using cidmap_find_run [OF S(2,3)]
      by (intro exI [of _ "cs ! i"] exI [of _ "newborn s (nth_cid (sched_id sc) i) (ps ! i)"]) (simp add: newborn_def)
  qed
  moreover have "create_all ps w = Done (map sint ?ks) w1" using c(1) by (simp add: comp_def)
  ultimately show ?thesis using d by (intro exI [of _ ?ks] exI [of _ w1]) (simp add: nth_cid_def)
qed

section \<open>From main to the end\<close>

definition func_of :: "(nat \<Rightarrow> addr \<Rightarrow> act list) \<Rightarrow> world \<Rightarrow> addr \<Rightarrow> act list" where
  "func_of scr w c = (case cos w c of Some co \<Rightarrow> scr (co_func co) (co_arg co) | None \<Rightarrow> [])"

text \<open>The turns a program takes in all.\<close>

definition total_turns :: "(nat \<Rightarrow> addr \<Rightarrow> act list) \<Rightarrow> (nat \<times> addr) list \<Rightarrow> nat" where
  "total_turns scr ps = (\<Sum>p \<leftarrow> ps. turns_left (scr (fst p) (snd p)))"

text \<open>The lines a program prints in all.\<close>

definition total_lines :: "(nat \<Rightarrow> addr \<Rightarrow> act list) \<Rightarrow> u32 \<Rightarrow> (nat \<times> addr) list \<Rightarrow> string multiset" where
  "total_lines scr sid ps = (\<Sum>i < length ps. mset (lines (sint (nth_cid sid i)) (scr (fst (ps ! i)) (snd (ps ! i)))))"

lemma newborn_fields [simp]:
  "co_sched (newborn s k p) = s" "cid (newborn s k p) = k" "co_func (newborn s k p) = fst p" "co_arg (newborn s k p) = snd p"
  "sleep_usecs (newborn s k p) = 0" "co_stack (newborn s k p) = NULL" "co_stack_size (newborn s k p) = 0"
  "owned_stack (newborn s k p) = NULL"
  "testb b (newborn s k p) = (b = COROUTINE_STATUS_NEW \<or> b = COROUTINE_STATUS_READY)"
  by (simp_all add: newborn_def zero_coroutine_def owned_stack_def)

lemma func_of_world [simp]: "func_of scr (w\<lparr>scheds := x\<rparr>) = func_of scr w"
  by (simp add: func_of_def fun_eq_iff)

lemma seeded_born:
  assumes "seeded ps cs s sc w" "i < length cs"
  shows "cos w (cs ! i) = Some (newborn s (nth_cid (sched_id sc) i) (ps ! i))" "ps ! i \<in> set ps" "func_of scr w (cs ! i) = scr (fst (ps ! i)) (snd (ps ! i))"
  using assms by (simp_all add: seeded_def func_of_def)

lemma seeded_distinct: "seeded ps cs s sc w \<Longrightarrow> distinct cs"
  by (simp add: seeded_def tq_both_def tq_rep_def split: if_splits)

lemma seeded_registered:
  assumes "seeded ps cs s sc w"
  shows "registered (set cs) sc w"
proof -
  have "ht_abs (cid_co_map sc) k = Some c \<longleftrightarrow> c \<in> set cs \<and> map_option cid (cos w c) = Some k" for k c
  proof -
    have "ht_abs (cid_co_map sc) k = Some c \<longleftrightarrow> (\<exists>i < length cs. c = cs ! i \<and> k = nth_cid (sched_id sc) i)"
      using assms unfolding seeded_def by blast
    then show ?thesis using seeded_born(1) [OF assms] by (fastforce simp: in_set_conv_nth)
  qed
  then show ?thesis using assms distinct_card [OF seeded_distinct [OF assms]] by (simp add: registered_def seeded_def)
qed

lemma seeded_live:
  assumes S: "seeded ps cs s sc w" and n: "length cs < 2 ^ 16" and naps: "\<forall>p \<in> set ps. naps_ok (scr (fst p) (snd p))"
  shows "live scr s ks (func_of scr w) (set cs) sc w"
  unfolding live_def
proof
  fix c assume c: "c \<in> set cs"
  then obtain i where i: "i < length cs" "c = cs ! i" by (metis in_set_conv_nth)
  note b = seeded_born [OF S i(1)]
  let ?co = "newborn s (nth_cid (sched_id sc) i) (ps ! i)"
  have "plain s ?co" using nth_cid_ok i(1) n by (auto simp: plain_def plain_bits_def)
  moreover have "stack_ok w sc ?co" by (simp add: stack_ok_def saved_ok_def)
  moreover have "will_do scr ks c ?co (func_of scr w c)" using b(2,3) naps i(2) by (simp add: will_do_def)
  moreover have "c \<noteq> NULL" "sleepers_of sc = {}" using S c by (simp_all add: seeded_def sleepers_of_def)
  ultimately show "\<exists>co. cos w c = Some co \<and> c \<noteq> NULL \<and> plain s co \<and> stack_ok w sc co \<and> will_do scr ks c co (func_of scr w c) \<and>
      testb COROUTINE_STATUS_SLEEPING co = (c \<in> sleepers_of sc)"
    using b(1) i(2) by simp
qed

lemma seeded_totals:
  assumes S: "seeded ps cs s sc w"
  shows "weight (func_of scr w) (set cs) = total_turns scr ps" and "ledger (func_of scr w) (set cs) w = mset (stdout w) + total_lines scr (sched_id sc) ps"
proof -
  note d = seeded_distinct [OF S] and b = seeded_born [OF S]
  have "map (\<lambda>c. turns_left (func_of scr w c)) cs = map (\<lambda>p. turns_left (scr (fst p) (snd p))) ps"
    by (rule nth_equalityI) (use S b(3) in \<open>simp_all add: seeded_def\<close>)
  then show "weight (func_of scr w) (set cs) = total_turns scr ps"
    by (simp add: weight_def total_turns_def sum.distinct_set_conv_list [OF d])
  have "total_lines scr (sched_id sc) ps = (\<Sum>c \<in> set cs. mset (lines (case cos w c of Some co \<Rightarrow> sint (cid co) | None \<Rightarrow> 0) (func_of scr w c)))"
    unfolding sum.distinct_set_conv_list [OF d] sum_list_sum_nth total_lines_def
    by (rule sum.cong) (use S b(1,3) in \<open>auto simp: seeded_def\<close>)
  then show "ledger (func_of scr w) (set cs) w = mset (stdout w) + total_lines scr (sched_id sc) ps"
    by (simp add: ledger_def)
qed

lemma seeded_sleepy:
  assumes S: "seeded ps cs s sc w" and n: "length cs < 2 ^ 16" and naps: "\<forall>p \<in> set ps. naps_ok (scr (fst p) (snd p))"
    and stk: "\<forall>i. 0 < stkdepth (environ w) i \<and> stkdepth (environ w) i \<le> sc_stack_size sc"
  defines "sc' \<equiv> sc\<lparr>sc_status := SCHEDULE_STATUS_RUNNING\<rparr>" and "w' \<equiv> w\<lparr>scheds := (scheds w)(s \<mapsto> sc\<lparr>sc_status := SCHEDULE_STATUS_RUNNING\<rparr>)\<rparr>"
  shows "sleepy (length cs) scr s ks ((\<lambda>_. [])(QReady := cs)) (func_of scr w) sc' w'" and "members ((\<lambda>_. [])(QReady := cs)) sc' = set cs"
proof -
  let ?f = "(\<lambda>_. [])(QReady := cs)"
  note b = seeded_born [OF S]
  have sl: "sleepers_of sc' = {}" "sleepers_of sc = {}" using S by (simp_all add: sc'_def sleepers_of_def seeded_def)
  show m: "members ?f sc' = set cs" using sl by (simp add: members_def)
  have "timers_ok w' s sc'" using S by (simp add: timers_ok_def w'_def sc'_def seeded_def rb_wf_def rb_ok_def)
  moreover have "tq_both (queues sc') ?f" using S by (simp add: sc'_def seeded_def)
  moreover have "sched_fine s sc' w'" using S stk unfolding seeded_def sched_fine_def sc'_def w'_def by simp
  moreover have "live scr s ks (func_of scr w) (set cs) sc' w'"
    by (rule live_others [OF seeded_live [OF S n naps]]) (use sl in \<open>simp_all add: sc'_def w'_def\<close>)
  moreover have "apart (set cs) w'" using b(1) by (auto simp: apart_def own_def w'_def in_set_conv_nth)
  moreover have "registered (set cs) sc' w'" using seeded_registered [OF S] by (simp add: registered_def sc'_def w'_def)
  moreover have "keyed (length cs) (elapsed (environ w') (birth sc') (tick w')) (set cs) sc' w'"
    using sl b(1) by (auto simp: keyed_def sc'_def w'_def sleep_key_def in_set_conv_nth)
  ultimately show "sleepy (length cs) scr s ks ?f (func_of scr w) sc' w'"
    using sl distinct_card [OF seeded_distinct [OF S]] by (simp add: sleepy_def m)
qed

lemma run_loop:
  assumes "seeded ps cs s sc w"
  shows "dyco_schedule_run fuel w = schedule_loop fuel s (w\<lparr>scheds := (scheds w)(s \<mapsto> sc\<lparr>sc_status := SCHEDULE_STATUS_RUNNING\<rparr>)\<rparr>)"
  using assms by (simp add: dyco_schedule_run_def seeded_def DYCO_MUSTNOT_def)

text \<open>
  What the run needs of the environment: the frames of the coroutines fit on the stack, the clock does not go back and moves on, and the waits of the scheduler
  are not interrupted for ever.
\<close>

definition kind :: "nat \<Rightarrow> env \<Rightarrow> nat \<Rightarrow> u64 \<Rightarrow> nat \<Rightarrow> nat \<Rightarrow> bool" where
  "kind K e stack b m n \<longleftrightarrow> (\<forall>i. 0 < stkdepth e i \<and> stkdepth e i \<le> stack) \<and> clock_runs K e b m n \<and> answered K e"

lemma seeded_run:
  assumes S: "seeded ps cs s sc w" and n: "length ps < 2 ^ 16" and naps: "\<forall>p \<in> set ps. naps_ok (scr (fst p) (snd p))"
    and k: "kind K (environ w) (sc_stack_size sc) (birth sc) (tick w) (tick w + total_turns scr ps * turn_cost K (length ps))"
  obtains fuel0 new w' sc' where
    "\<And>fuel n g. \<exists>ks. machine (\<lambda>f a. script (scr f a)) (2 * total_turns scr ps + n) Map.empty (bind (dyco_schedule_run (fuel0 + fuel)) g w)
       = machine (\<lambda>f a. script (scr f a)) n ks (g 0 w')"
    "stdout w' = new @ stdout w" "mset new = total_lines scr (sched_id sc) ps" "sched_key w' = s" "scheds w' s = Some sc'"
    "sc_status sc' = SCHEDULE_STATUS_DONE" "coro_count sc' = 0" "HTABLE_EMPTY (cid_co_map sc')" "\<And>c. cos w' c = (if c \<in> set cs then None else cos w c)"
proof -
  have l: "length cs = length ps" using S by (simp add: seeded_def)
  let ?sc = "sc\<lparr>sc_status := SCHEDULE_STATUS_RUNNING\<rparr>" and ?N = "tick w + total_turns scr ps * turn_cost K (length ps)"
  let ?w = "w\<lparr>scheds := (scheds w)(s \<mapsto> ?sc)\<rparr>" and ?f = "(\<lambda>_. [])(QReady := cs)"
  let ?p = "\<lparr>st_konts = Map.empty, st_queues = ?f, st_rest = func_of scr w, st_sched = ?sc, st_world = ?w\<rparr>"
  have stk: "\<forall>i. 0 < stkdepth (environ w) i \<and> stkdepth (environ w) i \<le> sc_stack_size sc" using k by (simp add: kind_def)
  note S1 = seeded_sleepy [OF S _ naps stk, unfolded l, OF n]
  have p: "good (length ps) scr s ?p" "crew ?p = set cs" using S1(1,2) by (simp_all add: good_def crew_def)
  have d: "due ?p = total_turns scr ps" using seeded_totals(1) [OF S] p(2) by (simp add: due_def)
  then have "clock_ok K ?p ?N" "enough K (length ps) ?N ?p" "length ps < 2 ^ 32" using k n by (simp_all add: clock_ok_def kind_def enough_def)
  from loop_finishes [OF p(1) this] obtain fuel0 p' where
    f: "due p' = 0" "finished s ?p (st_world p')" "\<And>fuel g. leads scr ?p (bind (schedule_loop (fuel0 + fuel) s) g ?w) p' (g 0 (st_world p'))" by auto
  let ?w' = "st_world p'"
  have "\<exists>ks. machine (\<lambda>f a. script (scr f a)) (2 * total_turns scr ps + n) Map.empty (bind (dyco_schedule_run (fuel0 + fuel)) g w)
      = machine (\<lambda>f a. script (scr f a)) n ks (g 0 ?w')" for fuel n g
    using leads_end [OF f(3) [of fuel g] f(1), of n] d by (simp add: bind_def run_loop [OF S])
  moreover obtain new where "stdout ?w' = new @ stdout w" using f(2) by (auto simp: finished_def suffix_def)
  moreover from this have "mset new = total_lines scr (sched_id sc) ps" using f(2) seeded_totals(2) [OF S] p(2) by (simp add: finished_def)
  moreover obtain sc' where "scheds ?w' s = Some sc'" "sc_status sc' = SCHEDULE_STATUS_DONE" "coro_count sc' = 0" "HTABLE_EMPTY (cid_co_map sc')" "sched_key ?w' = s"
    using f(2) by (auto simp: finished_def)
  moreover have "cos ?w' c = (if c \<in> set cs then None else cos w c)" for c using f(2) p(2) by (simp add: finished_def)
  ultimately show thesis by (intro that)
qed

text \<open>A fresh process after it has created its coroutines.\<close>

lemma fresh_spawn:
  assumes "fresh_process w" and "ps \<noteq> []" and "length ps < 2 ^ 16" and "kind K (environ w) DYCO_MAX_STACKSIZE (clk (environ w) (tick w + 1)) (tick w + 1) (tick w + 2 + N)"
  obtains w1 cs s sc where "spawn ps w = Done () w1" "seeded ps cs s sc w1" "environ w1 = environ w" "stdout w1 = stdout w" "sched_id sc = sched_id_gen w + 1"
    "\<And>c. c \<notin> set cs \<Longrightarrow> cos w1 c = None" "kind K (environ w1) (sc_stack_size sc) (birth sc) (tick w1) (tick w1 + N)"
proof -
  obtain w2 cs s sc where
    c: "create_all ps w = Done (map (\<lambda>i. sint (nth_cid (sched_id_gen w + 1) i)) [0..<length ps]) w2" "seeded ps cs s sc w2" "environ w2 = environ w"
      "tick w2 = tick w + 2" "birth sc = clk (environ w) (Suc (tick w))" "sc_stack_size sc = DYCO_MAX_STACKSIZE" "stdout w2 = stdout w"
      "sched_id sc = sched_id_gen w + 1" "\<And>c. c \<notin> set cs \<Longrightarrow> cos w2 c = None"
    by (rule fresh_create_all [OF assms(1-3)]) (rule that)
  have sp: "spawn ps w = Done () w2" by (simp add: spawn_def seq_Done [where m = "create_all ps", OF c(1)] ret_def)
  have clock: "clock_runs K (environ w2) (birth sc) (tick w + 1) (tick w + 2 + N)" using assms(4) c(3,5) by (simp add: kind_def)
  have "kind K (environ w2) (sc_stack_size sc) (birth sc) (tick w2) (tick w2 + N)"
    using assms(4) clock_runs_later [OF clock, of "tick w2"] c(3,4,6) by (simp add: kind_def)
  with c sp show thesis by (intro that [of w2 cs s sc]) auto
qed

text \<open>
  C2: programs whose coroutines print and sleep come to their end. In a process that has no scheduler yet and in which allocations succeed, at least one and at most 65535 coroutines
  are created, whose functions print lines and sleep, in any order and as often as they like, each time for less than \<open>2 ^ 31\<close> milliseconds and for no
  positive multiple of \<open>2 ^ 29\<close> milliseconds; then \<^verbatim>\<open>dyco_schedule_run\<close> is called. Of the environment it is assumed (\<open>kind\<close>) that the running stack never exceeds the
  shared one, that the clock does not go back and moves on by a microsecond at least once in \<open>K\<close> questions to the environment, without an overflow while the program runs,
  and that of \<open>K\<close> calls of \<^verbatim>\<open>epoll_wait\<close> one is not interrupted; \<open>K\<close> may be as large as one likes. Then the run returns 0,
  whatever else the environment does: nothing faults and nobody is forgotten. Every line of every coroutine has been printed, exactly once and
  with the identifier of that coroutine; every coroutine has been released; the scheduler is done, its count is 0 and its identifier map is
  empty. \<open>total_turns scr ps * turn_cost K (length ps)\<close> questions to the environment are enough, and two context switches per turn.
\<close>

theorem sleeping_program_ends:
  assumes "fresh_process w" and "ps \<noteq> []" and "length ps < 2 ^ 16" and "\<forall>p \<in> set ps. naps_ok (scr (fst p) (snd p))"
    and "kind K (environ w) DYCO_MAX_STACKSIZE (clk (environ w) (tick w + 1)) (tick w + 1) (tick w + 2 + total_turns scr ps * turn_cost K (length ps))"
  shows "\<exists>fuel0 new sc w'. (\<forall>fuel n. machine (\<lambda>f a. script (scr f a)) (2 * total_turns scr ps + n) Map.empty
        (seq (spawn ps) (dyco_schedule_run (fuel0 + fuel)) w) = Finished 0 w') \<and>
     stdout w' = new @ stdout w \<and> mset new = total_lines scr (sched_id_gen w + 1) ps \<and> cos w' = Map.empty \<and>
     scheds w' (sched_key w') = Some sc \<and> sc_status sc = SCHEDULE_STATUS_DONE \<and> coro_count sc = 0 \<and> HTABLE_EMPTY (cid_co_map sc)"
proof -
  from fresh_spawn [OF assms(1-3,5)] obtain w1 cs s sc where
    c: "spawn ps w = Done () w1" "seeded ps cs s sc w1" "environ w1 = environ w" "stdout w1 = stdout w" "sched_id sc = sched_id_gen w + 1"
      "\<And>c. c \<notin> set cs \<Longrightarrow> cos w1 c = None" "kind K (environ w1) (sc_stack_size sc) (birth sc) (tick w1) (tick w1 + total_turns scr ps * turn_cost K (length ps))" by blast
  obtain fuel0 new w' sc' where
    r: "\<And>fuel n g. \<exists>ks. machine (\<lambda>f a. script (scr f a)) (2 * total_turns scr ps + n) Map.empty (bind (dyco_schedule_run (fuel0 + fuel)) g w1)
       = machine (\<lambda>f a. script (scr f a)) n ks (g 0 w')"
    "stdout w' = new @ stdout w1" "mset new = total_lines scr (sched_id sc) ps" "sched_key w' = s" "scheds w' s = Some sc'"
    "sc_status sc' = SCHEDULE_STATUS_DONE" "coro_count sc' = 0" "HTABLE_EMPTY (cid_co_map sc')" "\<And>c. cos w' c = (if c \<in> set cs then None else cos w1 c)"
    by (rule seeded_run [OF c(2) assms(3,4) c(7)]) (rule that)
  have "machine (\<lambda>f a. script (scr f a)) (2 * total_turns scr ps + n) Map.empty (seq (spawn ps) (dyco_schedule_run (fuel0 + fuel)) w) = Finished 0 w'" for fuel n
    using r(1) [of n fuel ret] by (simp add: seq_Done [where m = "spawn ps", OF c(1)] ret_def)
  moreover have "cos w' = Map.empty" using r(9) c(6) by (auto simp: fun_eq_iff)
  ultimately show ?thesis using r(2-8) c(4,5) by - (rule exI [of _ fuel0], rule exI [of _ new], rule exI [of _ sc'], rule exI [of _ w'], simp)
qed

text \<open>A process in which a microsecond goes by while two questions are asked, and every other wait is interrupted.\<close>

definition world_run :: world where
  "world_run = world_new\<lparr>environ := env0\<lparr>clk := \<lambda>i. of_nat (i div 2), epollres := \<lambda>i. if even i then Inl EINTR else Inr []\<rparr>\<rparr>"

lemma world_run_kind:
  assumes "n < 2 ^ 62"
  shows "fresh_process world_run" "tick world_run = 0" "stdout world_run = []" "sched_id_gen world_run = 1"
    "kind 2 (environ world_run) DYCO_MAX_STACKSIZE (clk (environ world_run) (tick world_run + 1)) (tick world_run + 1) (tick world_run + 2 + n)"
proof -
  let ?e = "environ world_run"
  have e: "elapsed ?e 0 i = i div 2" if "i < 2 ^ 63" for i
  proof -
    have "i div 2 < 2 ^ 64" using that by simp
    then have "unat (of_nat (i div 2) :: u64) = i div 2" by (simp add: unat_of_nat take_bit_nat_eq_self)
    then show ?thesis by (simp add: elapsed_def world_run_def diff_usecs_def)
  qed
  have "elapsed ?e 0 i \<le> elapsed ?e 0 (Suc i)" if "i < 2 + n" for i
    using assms that e [of i] e [of "Suc i"] by (simp add: div_le_mono)
  moreover have "elapsed ?e 0 i < elapsed ?e 0 (i + 2)" if "i + 2 \<le> 2 + n" for i
    using assms that e [of i] e [of "i + 2"] by simp
  moreover have "elapsed ?e 0 (2 + n) < 2 ^ 63" using assms e [of "2 + n"] by simp
  ultimately have "clock_runs 2 ?e 0 1 (2 + n)" unfolding clock_runs_def by blast
  moreover have "\<exists>j < 2. (\<exists>l. epollres ?e (i + j) = Inr l) \<and> (\<forall>i' < j. epollres ?e (i + i') = Inl EINTR)" for i
  proof (cases "even i")
    case True
    then show ?thesis by (intro exI [of _ 1]) (simp add: world_run_def)
  next
    case False
    then show ?thesis by (intro exI [of _ 0]) (simp add: world_run_def)
  qed
  then have "answered 2 ?e" by (simp add: answered_def)
  ultimately show "kind 2 ?e DYCO_MAX_STACKSIZE (clk ?e (tick world_run + 1)) (tick world_run + 1) (tick world_run + 2 + n)"
    by (simp add: kind_def world_run_def world_new_def DYCO_MAX_STACKSIZE_def)
qed (simp_all add: fresh_process_def world_run_def world_new_def plenty_def)

theorem created_ids_distinct_witness:
  "\<exists>i j w'. create_all [(0, 5), (0, 5)] world_run = Done [i, j] w' \<and> i \<noteq> j"
proof -
  have p: "(0 :: nat) < 2 ^ 62" "[(0 :: nat, 5 :: addr), (0, 5)] \<noteq> []" "length [(0 :: nat, 5 :: addr), (0, 5)] < 2 ^ 16" by simp_all
  from created_ids_distinct [OF world_run_kind(1) [OF p(1)] p(2,3)] obtain ks :: "i32 list" and w' where
    k: "create_all [(0, 5), (0, 5)] world_run = Done (map sint ks) w'" "length ks = length [(0 :: nat, 5 :: addr), (0, 5)]" "distinct (map sint ks)" by blast
  from k(2) obtain i j where "ks = [i, j]" by (auto simp: length_Suc_conv)
  with k(1,3) show ?thesis by (intro exI [of _ "sint i"] exI [of _ "sint j"] exI [of _ w']) (simp del: create_all.simps)
qed

theorem sleeping_program_ends_witness:
  "\<exists>fuel0 new w'. (\<forall>fuel. machine (\<lambda>f a. script [Say (\<lambda>i. ''before''), Nap (of_nat a), Say (\<lambda>i. ''after'')]) 8 Map.empty
       (seq (spawn [(0, 5), (0, 0)]) (dyco_schedule_run (fuel0 + fuel)) world_run) = Finished 0 w')
     \<and> stdout w' = new \<and> mset new = {#''before'', ''before'', ''after'', ''after''#} \<and> cos w' = Map.empty"
proof -
  let ?scr = "\<lambda>(f :: nat) a. [Say (\<lambda>i. ''before''), Nap (of_nat a), Say (\<lambda>i. ''after'')]" and ?ps = "[(0, 5), (0, 0)] :: (nat \<times> addr) list"
  have t: "total_turns ?scr ?ps = 4" by (simp add: total_turns_def turns_left_def)
  have m: "total_lines ?scr 2 ?ps = {#''before'', ''before'', ''after'', ''after''#}" by (simp add: total_lines_def lessThan_Suc numeral_eq_Suc)
  have p: "?ps \<noteq> []" "length ?ps < 2 ^ 16" "\<forall>p \<in> set ?ps. naps_ok (?scr (fst p) (snd p))" by (simp_all add: naps_ok_def nap_ok_def)
  have "total_turns ?scr ?ps * turn_cost 2 (length ?ps) < 2 ^ 62" unfolding t by (simp add: turn_cost_def)
  note w = world_run_kind [OF this]
  from sleeping_program_ends [OF w(1) p w(5)] obtain fuel0 new w' where
    r: "\<And>fuel n. machine (\<lambda>f a. script (?scr f a)) (8 + n) Map.empty (seq (spawn ?ps) (dyco_schedule_run (fuel0 + fuel)) world_run) = Finished 0 w'"
      "stdout w' = new" "mset new = total_lines ?scr 2 ?ps" "cos w' = Map.empty" unfolding t w(3,4) by auto
  show ?thesis
    by (rule exI [of _ fuel0], rule exI [of _ new], rule exI [of _ w']) (use r(1) [of 0] r(2-4) m in simp)
qed

section \<open>example/sleep.c\<close>

text \<open>\<^verbatim>\<open>%d\<close>\<close>

fun dec_nat :: "nat \<Rightarrow> string" where
  "dec_nat n = (if n < 10 then [char_of (48 + n)] else dec_nat (n div 10) @ [char_of (48 + n mod 10)])"

definition dec :: "int \<Rightarrow> string" where
  "dec i = (if i < 0 then ''-'' @ dec_nat (nat (- i)) else dec_nat (nat i))"

text \<open>\<open>ints\<close>: the integers in memory.\<close>

definition sleep_corofun :: "(addr \<Rightarrow> i32) \<Rightarrow> addr \<Rightarrow> act list" where
  "sleep_corofun ints arg =
    (let sleeptime = ints arg in
      [Say (\<lambda>i. ''I am coro '' @ dec i @ ''. I'm about sleep '' @ dec (sint sleeptime) @ '' ms''),
       Nap sleeptime,
       Say (\<lambda>i. ''I am coro '' @ dec i @ ''. Now I wake up'')])"

text \<open>\<^verbatim>\<open>main\<close>: the array \<^verbatim>\<open>sleeptime\<close> at address \<open>a\<close>, what it holds when it is filled, and the coroutines; function 0 is \<^verbatim>\<open>corofun\<close>.\<close>

definition sleeptime :: "addr \<Rightarrow> addr \<Rightarrow> i32" where
  "sleeptime a p = of_nat (1000 * (p - a))"

definition sleep_coroutines :: "addr \<Rightarrow> (nat \<times> addr) list" where
  "sleep_coroutines a = map (\<lambda>i. (0, a + i)) [0..<10]"

definition sleep_main :: "addr \<Rightarrow> nat \<Rightarrow> int M" where
  "sleep_main a fuel =
    seq (spawn (sleep_coroutines a))
   (seq (print_line ''[+] scheduler start running.'')
   (seq (dyco_schedule_run fuel)
   (seq (print_line ''[-] scheduler stopped.'')
        (ret 0))))"

definition sleep_prog :: "addr \<Rightarrow> nat \<Rightarrow> addr \<Rightarrow> unit M" where
  "sleep_prog a f p = script (sleep_corofun (sleeptime a) p)"

lemma sleeptime_small:
  assumes "i < 10"
  shows "sint (sleeptime a (a + i)) = 1000 * int i" "nap_ok (sleeptime a (a + i))"
proof -
  have "i \<in> {0, 1, 2, 3, 4, 5, 6, 7, 8, 9}" using assms by auto
  then show "sint (sleeptime a (a + i)) = 1000 * int i" "nap_ok (sleeptime a (a + i))" by (auto simp: sleeptime_def nap_ok_def)
qed

lemma sleep_coroutines_facts:
  fixes a :: addr
  defines "scr \<equiv> \<lambda>f :: nat. sleep_corofun (sleeptime a)"
  shows "length (sleep_coroutines a) = 10" and "total_turns scr (sleep_coroutines a) = 20"
    and "\<forall>p \<in> set (sleep_coroutines a). naps_ok (scr (fst p) (snd p))"
    and "total_lines scr sid (sleep_coroutines a) = (\<Sum>i < 10. {#''I am coro '' @ dec (sint (nth_cid sid i)) @ ''. I'm about sleep '' @ dec (1000 * int i) @ '' ms'',
        ''I am coro '' @ dec (sint (nth_cid sid i)) @ ''. Now I wake up''#})"
proof -
  show len: "length (sleep_coroutines a) = 10" by (simp add: sleep_coroutines_def)
  show "total_turns scr (sleep_coroutines a) = 20"
    by (simp add: total_turns_def sleep_coroutines_def upt_rec scr_def sleep_corofun_def turns_left_def Let_def)
  show "\<forall>p \<in> set (sleep_coroutines a). naps_ok (scr (fst p) (snd p))"
    using sleeptime_small(2) by (auto simp: sleep_coroutines_def naps_ok_def nap_ok_def scr_def sleep_corofun_def Let_def)
  show "total_lines scr sid (sleep_coroutines a) = (\<Sum>i < 10. {#''I am coro '' @ dec (sint (nth_cid sid i)) @ ''. I'm about sleep '' @ dec (1000 * int i) @ '' ms'',
        ''I am coro '' @ dec (sint (nth_cid sid i)) @ ''. Now I wake up''#})"
    unfolding total_lines_def len
    by (rule sum.cong) (use sleeptime_small(1) in \<open>simp_all add: sleep_coroutines_def scr_def sleep_corofun_def Let_def del: dec_nat.simps\<close>)
qed

text \<open>
  C8: the program \<^verbatim>\<open>example/sleep.c\<close> runs to its end and returns 0, in a process that has no scheduler yet, in which allocations succeed, the running stack fits on the shared
  one, the clock does not go back and moves on once in \<open>K\<close> questions to the environment, and one of \<open>K\<close> calls of \<^verbatim>\<open>epoll_wait\<close> is not interrupted. Between the lines \<^verbatim>\<open>[+] scheduler start running.\<close> and \<^verbatim>\<open>[-] scheduler stopped.\<close>
  every one of its ten coroutines has printed its two lines, once, with its identifier and its sleeping time, and all of them have been released.
\<close>

theorem sleep_example_ends:
  assumes "fresh_process w"
    and "kind K (environ w) DYCO_MAX_STACKSIZE (clk (environ w) (tick w + 1)) (tick w + 1) (tick w + 2 + 20 * turn_cost K 10)"
  shows "\<exists>fuel0 new w'. (\<forall>fuel n. machine (sleep_prog a) (40 + n) Map.empty (sleep_main a (fuel0 + fuel) w) = Finished 0 w') \<and>
     stdout w' = [''[-] scheduler stopped.''] @ new @ [''[+] scheduler start running.''] @ stdout w \<and>
     mset new = (\<Sum>i < 10. {#''I am coro '' @ dec (sint (nth_cid (sched_id_gen w + 1) i)) @ ''. I'm about sleep '' @ dec (1000 * int i) @ '' ms'',
        ''I am coro '' @ dec (sint (nth_cid (sched_id_gen w + 1) i)) @ ''. Now I wake up''#}) \<and> cos w' = Map.empty"
proof -
  let ?ps = "sleep_coroutines a" and ?scr = "\<lambda>(f :: nat) p. sleep_corofun (sleeptime a) p"
  have prog: "sleep_prog a = (\<lambda>f p. script (?scr f p))" by (simp add: sleep_prog_def fun_eq_iff)
  note ex = sleep_coroutines_facts [of a]
  have len: "length ?ps < 2 ^ 16" "?ps \<noteq> []" using ex(1) by auto
  from fresh_spawn [OF assms(1) len(2,1) assms(2)] obtain w1 cs s sc where
    c: "spawn ?ps w = Done () w1" "seeded ?ps cs s sc w1" "environ w1 = environ w" "stdout w1 = stdout w" "sched_id sc = sched_id_gen w + 1"
      "\<And>c. c \<notin> set cs \<Longrightarrow> cos w1 c = None" "kind K (environ w1) (sc_stack_size sc) (birth sc) (tick w1) (tick w1 + 20 * turn_cost K 10)" by blast
  define w2 where "w2 = w1\<lparr>stdout := ''[+] scheduler start running.'' # stdout w1\<rparr>"
  have c2: "seeded ?ps cs s sc w2" using c(2) by (simp add: seeded_def w2_def)
  have c3: "kind K (environ w2) (sc_stack_size sc) (birth sc) (tick w2) (tick w2 + total_turns ?scr ?ps * turn_cost K (length ?ps))"
    using c(7) unfolding ex(1,2) by (simp add: w2_def)
  obtain fuel0 new w' where
    r: "\<And>fuel n g. \<exists>ks. machine (sleep_prog a) (40 + n) Map.empty (bind (dyco_schedule_run (fuel0 + fuel)) g w2) = machine (sleep_prog a) n ks (g 0 w')"
    "stdout w' = new @ stdout w2" "mset new = total_lines ?scr (sched_id sc) ?ps" "\<And>c. cos w' c = (if c \<in> set cs then None else cos w2 c)"
    unfolding prog by (rule seeded_run [OF c2 len(1) ex(3) c3, unfolded ex(2)]) (simp, blast)
  let ?w = "w'\<lparr>stdout := ''[-] scheduler stopped.'' # stdout w'\<rparr>"
  have "machine (sleep_prog a) (40 + n) Map.empty (sleep_main a (fuel0 + fuel) w) = Finished 0 ?w" for fuel n
  proof -
    have "sleep_main a (fuel0 + fuel) w = seq (dyco_schedule_run (fuel0 + fuel)) (seq (print_line ''[-] scheduler stopped.'') (ret 0)) w2"
      by (simp add: sleep_main_def seq_Done [where m = "spawn ?ps", OF c(1)] print_line_def w2_def)
    with r(1) [of n fuel "\<lambda>_. seq (print_line ''[-] scheduler stopped.'') (ret 0)", folded seq_def] show ?thesis by (simp add: print_line_def ret_def)
  qed
  moreover have "cos ?w = Map.empty" using r(4) c(6) by (auto simp: fun_eq_iff w2_def)
  ultimately show ?thesis
    using r(2,3) c(4,5) ex(4) by (intro exI [of _ fuel0] exI [of _ new] exI [of _ ?w]) (simp add: w2_def del: dec_nat.simps)
qed

theorem sleep_example_ends_witness:
  "\<exists>fuel0 w'. machine (sleep_prog 40) 40 Map.empty (sleep_main 40 fuel0 world_run) = Finished 0 w' \<and> length (stdout w') = 22 \<and>
     hd (stdout w') = ''[-] scheduler stopped.'' \<and> cos w' = Map.empty"
proof -
  have "20 * turn_cost 2 10 < (2 ^ 62 :: nat)" by (simp add: turn_cost_def)
  note w = world_run_kind [OF this]
  from sleep_example_ends [OF w(1,5), of 40] obtain fuel0 new w' where
    r: "\<And>fuel n. machine (sleep_prog 40) (40 + n) Map.empty (sleep_main 40 (fuel0 + fuel) world_run) = Finished 0 w'"
      "stdout w' = [''[-] scheduler stopped.''] @ new @ [''[+] scheduler start running.'']" "cos w' = Map.empty"
    and m: "mset new = (\<Sum>i < 10. {#''I am coro '' @ dec (sint (nth_cid (sched_id_gen world_run + 1) i)) @ ''. I'm about sleep '' @ dec (1000 * int i) @ '' ms'',
        ''I am coro '' @ dec (sint (nth_cid (sched_id_gen world_run + 1) i)) @ ''. Now I wake up''#})" unfolding w(3) by auto
  have "length new = 20" using arg_cong [OF m, of "size"] by (simp del: dec_nat.simps)
  with r(1) [of 0 0] r(2,3) show ?thesis by (intro exI [of _ fuel0] exI [of _ w']) simp
qed

end
