(* ===== verification/Asym_Correct.thy ===== *)
theory Asym_Correct
  imports Run_Correct Run_Eval
begin

text \<open>
  Asymmetric coroutines as generators: a call of \<^verbatim>\<open>dyco_asymcororesume\<close> runs the coroutine from where it last yielded to its next
  \<^verbatim>\<open>dyco_asymcoroyield\<close>, and then goes on in the caller. A coroutine that runs on the shared stack finds there what it left, and
  leaves it in a buffer of its own.
\<close>

text \<open>
  An asymmetric coroutine \<open>c\<close> with identifier \<open>k\<close>, as the scheduler of the thread knows it. It has a stack of its own, which it gets when it
  is first resumed by another coroutine, or it runs on the shared stack and is resumed by the thread itself.
\<close>

definition asym_known :: "world \<Rightarrow> addr \<Rightarrow> dyco_schedule \<Rightarrow> i32 \<Rightarrow> addr \<Rightarrow> dyco_coroutine \<Rightarrow> bool" where
  "asym_known w s sc k c co \<longleftrightarrow> sched_key w = s \<and> s \<noteq> NULL \<and> scheds w s = Some sc \<and> ht_wf (cid_co_map sc) \<and> key_ok k
     \<and> ht_abs (cid_co_map sc) k = Some c \<and> c \<noteq> NULL \<and> cos w c = Some co \<and> co_sched co = s
     \<and> testb COROUTINE_FLAGS_ASYMMETRIC co \<and> (testb COROUTINE_FLAGS_OWNSTACK co \<or> curr_thread sc = NULL)"

text \<open>Its saved stack is in its buffer, \<open>unpacked\<close> puts it back to the end of the shared one.\<close>

definition stack_there :: "world \<Rightarrow> dyco_schedule \<Rightarrow> dyco_coroutine \<Rightarrow> bool" where
  "stack_there w sc co \<longleftrightarrow> testb COROUTINE_FLAGS_OWNSTACK co \<or> 0 < co_stack_size co \<and>
     (\<exists>own shared. bytes w (co_stack co) = Some own \<and> co_stack_size co \<le> length own
        \<and> bytes w (sc_stack sc) = Some shared \<and> co_stack_size co \<le> length shared)"

definition unpacked :: "world \<Rightarrow> dyco_schedule \<Rightarrow> dyco_coroutine \<Rightarrow> addr \<Rightarrow> byte list option" where
  "unpacked w sc co = (if testb COROUTINE_FLAGS_OWNSTACK co then bytes w
     else case (bytes w (co_stack co), bytes w (sc_stack sc)) of
       (Some own, Some shared) \<Rightarrow>
         (bytes w)(sc_stack sc \<mapsto> take (length shared - co_stack_size co) shared @ take (co_stack_size co) own)
     | _ \<Rightarrow> bytes w)"

text \<open>The world in which the resumed coroutine goes on.\<close>

definition resumed :: "addr \<Rightarrow> dyco_schedule \<Rightarrow> addr \<Rightarrow> dyco_coroutine \<Rightarrow> world \<Rightarrow> world" where
  "resumed s sc c co w = w\<lparr>bytes := unpacked w sc co, cos := (cos w)(c \<mapsto> setb COROUTINE_STATUS_RUNNING (co\<lparr>sched_count := sched_count co + 1\<rparr>)),
     scheds := (scheds w)(s \<mapsto> sc\<lparr>curr_thread := c\<rparr>)\<rparr>"

text \<open>What saving the stack needs, and the world it leaves: the used part of the shared stack is in the buffer of the coroutine, and no other buffer is touched.\<close>

definition can_save :: "world \<Rightarrow> dyco_schedule \<Rightarrow> dyco_coroutine \<Rightarrow> bool" where
  "can_save v sc co \<longleftrightarrow> testb COROUTINE_FLAGS_OWNSTACK co \<or>
     (\<exists>shared. bytes v (sc_stack sc) = Some shared \<and> 0 < stkdepth (environ v) (tick v) \<and> stkdepth (environ v) (tick v) \<le> length shared)
     \<and> saved_ok v co \<and> sc_stack sc \<noteq> co_stack co \<and> plenty (heap v) \<and> sc_stack sc \<le> nalloc (heap v)"

definition packed :: "addr \<Rightarrow> dyco_schedule \<Rightarrow> dyco_coroutine \<Rightarrow> world \<Rightarrow> dyco_coroutine \<Rightarrow> world \<Rightarrow> bool" where
  "packed c sc co v co' v' \<longleftrightarrow>
     (if testb COROUTINE_FLAGS_OWNSTACK co then co' = co \<and> v' = v
      else \<exists>own shared n. n = stkdepth (environ v) (tick v) \<and> bytes v (sc_stack sc) = Some shared
        \<and> co' = setb COROUTINE_FLAGS_ALLOCSTACKMEM (co\<lparr>co_stack := co_stack co', co_stack_size := n\<rparr>)
        \<and> v' = v\<lparr>tick := Suc (tick v), heap := heap v', bytes := bytes v', cos := (cos v)(c \<mapsto> co')\<rparr>
        \<and> bytes v' (co_stack co') = Some own \<and> n \<le> length own \<and> take n own = drop (length shared - n) shared
        \<and> (\<forall>p. p \<noteq> co_stack co \<and> p \<noteq> co_stack co' \<longrightarrow> bytes v' p = bytes v p))"

lemma savestk_packed:
  assumes "cos v c = Some co" and "scheds v (co_sched co) = Some sc" and "can_save v sc co"
  shows "\<exists>co' v'. savestk c v = Done () v' \<and> packed c sc co v co' v' \<and> cos v' = (cos v)(c \<mapsto> co') \<and> scheds v' = scheds v \<and> sigmask v' = sigmask v \<and>
    co_sched co' = co_sched co \<and> (\<forall>b. b \<noteq> COROUTINE_FLAGS_ALLOCSTACKMEM \<longrightarrow> testb b co' = testb b co)"
proof (cases "testb COROUTINE_FLAGS_OWNSTACK co")
  case True
  then show ?thesis using assms(1) by (intro exI [of _ co] exI [of _ v]) (simp add: savestk_def packed_def fun_upd_idem)
next
  case False
  let ?n = "stkdepth (environ v) (tick v)"
  from False assms(3) obtain shared where sh: "bytes v (sc_stack sc) = Some shared" "0 < ?n" "?n \<le> length shared"
    "saved_ok v co" "sc_stack sc \<noteq> co_stack co" "plenty (heap v)" "sc_stack sc \<le> nalloc (heap v)" by (auto simp: can_save_def)
  from savestk_run [OF assms(1) False assms(2) sh(1) refl sh(2-7)] obtain w1 co1 own where
    r: "savestk c v = Done () w1" "co1 = setb COROUTINE_FLAGS_ALLOCSTACKMEM (co\<lparr>co_stack := co_stack co1, co_stack_size := ?n\<rparr>)"
      "bytes w1 (co_stack co1) = Some own" "?n \<le> length own" "take ?n own = stack_top ?n shared" "cos w1 = (cos v)(c \<mapsto> co1)" "scheds w1 = scheds v"
      "w1 = v\<lparr>tick := Suc (tick v), heap := heap w1, bytes := bytes w1, cos := (cos v)(c \<mapsto> co1)\<rparr>"
      "\<forall>p. p \<noteq> co_stack co \<and> p \<noteq> co_stack co1 \<longrightarrow> bytes w1 p = bytes v p" by blast
  have "packed c sc co v co1 w1" unfolding packed_def using False sh(1) r(2-5,8,9) by (auto simp: stack_top_def)
  moreover have "sigmask w1 = sigmask v" by (subst r(8)) simp
  moreover have "co_sched co1 = co_sched co" "\<forall>b. b \<noteq> COROUTINE_FLAGS_ALLOCSTACKMEM \<longrightarrow> testb b co1 = testb b co" by (subst r(2), simp)+
  ultimately show ?thesis using r(1,6,7) by blast
qed

text \<open>The world in which the resumer goes on when the coroutine has yielded.\<close>

definition stowed :: "addr \<Rightarrow> dyco_schedule \<Rightarrow> dyco_coroutine \<Rightarrow> world \<Rightarrow> world \<Rightarrow> bool" where
  "stowed c sc co v v' \<longleftrightarrow> (\<exists>co1 v1. packed c sc co v co1 v1 \<and> v' = v1\<lparr>cos := (cos v1)(c \<mapsto> (clrb COROUTINE_STATUS_RUNNING co1)\<lparr>co_ctx := CtxSaved\<rparr>)\<rparr>)"

definition resume_rest :: "addr \<Rightarrow> addr \<Rightarrow> i32 \<Rightarrow> addr \<Rightarrow> int M" where
  "resume_rest s co_prev k c =
     seq (sc_set s (curr_thread_update (\<lambda>_. co_prev)))
    (bind (co_get c) (\<lambda>co'. if testb COROUTINE_STATUS_EXITED co' then ret 0 else ret (sint k)))"

lemma loadstk_unpacked:
  assumes "cos w c = Some co" and "scheds w (co_sched co) = Some sc" and "stack_there w sc co"
  shows "loadstk c w = Done () (w\<lparr>bytes := unpacked w sc co\<rparr>)"
proof (cases "testb COROUTINE_FLAGS_OWNSTACK co")
  case True
  then show ?thesis using assms(1) by (simp add: loadstk_def unpacked_def)
next
  case False
  then obtain own shared where b: "bytes w (co_stack co) = Some own" "co_stack_size co \<le> length own" "bytes w (sc_stack sc) = Some shared"
    "co_stack_size co \<le> length shared" "0 < co_stack_size co" using assms(3) by (auto simp: stack_there_def)
  from loadstk_run [OF assms(1) False assms(2) b(1) refl b(5,2,3,4)] show ?thesis using False b by (simp add: unpacked_def)
qed

lemma asym_resume_switch:
  assumes "asym_known w s sc k c co" and "\<not> testb COROUTINE_STATUS_EXITED co" and "\<not> testb COROUTINE_STATUS_NEW co" and "stack_there w sc co"
  shows "dyco_asymcororesume k w = Swap (CoRet c) (CoCtx c) (resumed s sc c co w) (resume_rest s (curr_thread sc) k c)"
proof -
  have f: "cidmap_find s k w = Done c w"
    using cidmap_find_run [of w s sc k] assms(1) by (simp add: asym_known_def)
  have l: "loadstk c w = Done () (w\<lparr>bytes := unpacked w sc co\<rparr>)"
    by (rule loadstk_unpacked [OF _ _ assms(4)]) (use assms(1) in \<open>simp_all add: asym_known_def\<close>)
  show ?thesis
    using assms(1-3) by (auto simp: asym_known_def dyco_asymcororesume_def Let_def whenM_def resumed_def resume_rest_def
        bind_Done [where m = "cidmap_find s k", OF f] seq_Done [where m = "loadstk c", OF l])
qed

lemma asym_yield_switch:
  assumes "sched_key v = s" and "s \<noteq> NULL" and "scheds v s = Some sc" and "curr_thread sc = c" and "cos v c = Some co" and "co_sched co = s"
    and "\<not> testb COROUTINE_STATUS_EXITED co" and "can_save v sc co"
  shows "\<exists>v'. stowed c sc co v v' \<and> scheds v' = scheds v \<and> sigmask v' = sigmask v \<and> (\<exists>co'. cos v' c = Some co' \<and> \<not> testb COROUTINE_STATUS_EXITED co') \<and>
    seq dyco_asymcoroyield h v = Swap (CoCtx c) (CoRet c) v' (seq (co_set c (setb COROUTINE_STATUS_RUNNING)) h)"
proof -
  have "scheds v (co_sched co) = Some sc" using assms(3,6) by simp
  from savestk_packed [OF assms(5) this assms(8)] obtain co1 v1 where
    r: "savestk c v = Done () v1" "packed c sc co v co1 v1" "cos v1 = (cos v)(c \<mapsto> co1)" "scheds v1 = scheds v" "sigmask v1 = sigmask v"
      "testb COROUTINE_STATUS_EXITED co1 = testb COROUTINE_STATUS_EXITED co" by auto
  let ?v' = "v1\<lparr>cos := (cos v1)(c \<mapsto> (clrb COROUTINE_STATUS_RUNNING co1)\<lparr>co_ctx := CtxSaved\<rparr>)\<rparr>"
  have "seq dyco_asymcoroyield h v = Swap (CoCtx c) (CoRet c) ?v' (seq (co_set c (setb COROUTINE_STATUS_RUNNING)) h)"
    using assms(1-7) r(3) by (simp add: dyco_asymcoroyield_def Let_def whenM_def seq_Done [where m = "savestk c", OF r(1)])
  moreover have "stowed c sc co v ?v'" unfolding stowed_def using r(2) by blast
  ultimately show ?thesis using r(4-6) assms(7) by (intro exI [of _ ?v']) simp
qed

text \<open>
  C26: resuming and yielding are inverse. An asymmetric coroutine that has yielded before is resumed: by anybody if it has a stack of its own, by the thread itself
  if it runs on the shared stack. It goes on where it last yielded, in the world \<open>resumed\<close>, in which the saved part of its stack is back at the end of the shared one. When it comes to its next
  yield in a world \<open>v\<close>, the resumer goes on in that world: with the identifier of the coroutine as the result, what was running before as the running
  coroutine and its own signal mask; the used part of the shared stack is in the buffer of the coroutine (\<open>packed\<close>). The rest \<open>h\<close> of the coroutine is what the next call of
  \<^verbatim>\<open>dyco_asymcororesume\<close> will run.
\<close>

theorem asym_resume_yield:
  assumes "asym_known w s sc k c co" and "\<not> testb COROUTINE_STATUS_EXITED co" and "\<not> testb COROUTINE_STATUS_NEW co" and "stack_there w sc co"
    and "co_ctx co = CtxSaved" and "ks (CoCtx c) = Some body"
    and "body (resumed s sc c co w) = seq dyco_asymcoroyield h v"
    and "sched_key v = s" and "scheds v s = Some scv" and "curr_thread scv = c" and "cos v c = Some cov" and "co_sched cov = s"
    and "\<not> testb COROUTINE_STATUS_EXITED cov" and "can_save v scv cov"
  shows "\<exists>ks' v'. stowed c scv cov v v' \<and> machine prog (Suc (Suc n)) ks (bind (dyco_asymcororesume k) g w) =
      machine prog n ks' (g (sint k) (v'\<lparr>sigmask := sigmask w, scheds := (scheds v)(s \<mapsto> scv\<lparr>curr_thread := curr_thread sc\<rparr>)\<rparr>))
    \<and> ks' (CoCtx c) = Some (\<lambda>w'. seq (co_set c (setb COROUTINE_STATUS_RUNNING)) h (w'\<lparr>sigmask := sigmask v\<rparr>))
    \<and> (\<forall>t. t \<noteq> CoCtx c \<and> t \<noteq> CoRet c \<longrightarrow> ks' t = ks t)"
proof -
  let ?w1 = "resumed s sc c co w"
  let ?K = "bind (resume_rest s (curr_thread sc) k c) g"
  let ?ks1 = "save_context (CoRet c) ?K ?w1 ks"
  let ?Y = "seq (co_set c (setb COROUTINE_STATUS_RUNNING)) h"
  have s: "s \<noteq> NULL" using assms(1) by (simp add: asym_known_def)
  from asym_yield_switch [OF assms(8) s assms(9-14), of h] obtain v' co' where
    v': "stowed c scv cov v v'" "scheds v' = scheds v" "sigmask v' = sigmask v" "cos v' c = Some co'" "\<not> testb COROUTINE_STATUS_EXITED co'"
      "seq dyco_asymcoroyield h v = Swap (CoCtx c) (CoRet c) v' ?Y" by blast
  let ?ks2 = "save_context (CoCtx c) ?Y v' ?ks1"
  have "bind (dyco_asymcororesume k) g w = Swap (CoRet c) (CoCtx c) ?w1 ?K"
    by (rule bind_Swap [where m = "dyco_asymcororesume k", OF asym_resume_switch [OF assms(1-4)]])
  moreover have "entry prog ?w1 (CoCtx c) = None"
    using assms(5) by (simp add: entry_def resumed_def)
  moreover have "?ks1 (CoCtx c) = Some body"
    using assms(6) by (simp add: save_context_def)
  moreover have "body ?w1 = Swap (CoCtx c) (CoRet c) v' ?Y"
    using assms(7) v'(6) by simp
  moreover have "entry prog v' (CoRet c) = None"
    by (simp add: entry_def)
  moreover have "?ks2 (CoRet c) = Some (\<lambda>w'. ?K (w'\<lparr>sigmask := sigmask w\<rparr>))"
    by (simp add: save_context_def resumed_def)
  moreover have "?K (v'\<lparr>sigmask := sigmask w\<rparr>) = g (sint k) (v'\<lparr>sigmask := sigmask w,
        scheds := (scheds v)(s \<mapsto> scv\<lparr>curr_thread := curr_thread sc\<rparr>)\<rparr>)"
    using assms(9) v'(2,4,5) by (simp add: resume_rest_def)
  ultimately have "machine prog (Suc (Suc n)) ks (bind (dyco_asymcororesume k) g w) =
      machine prog n ?ks2 (g (sint k) (v'\<lparr>sigmask := sigmask w, scheds := (scheds v)(s \<mapsto> scv\<lparr>curr_thread := curr_thread sc\<rparr>)\<rparr>))"
    by simp
  moreover have "?ks2 (CoCtx c) = Some (\<lambda>w'. ?Y (w'\<lparr>sigmask := sigmask v\<rparr>))" "\<forall>t. t \<noteq> CoCtx c \<and> t \<noteq> CoRet c \<longrightarrow> ?ks2 t = ks t"
    using v'(3) by (simp_all add: save_context_def)
  ultimately show ?thesis using v'(1) by blast
qed

text \<open>A generator on the shared stack (3), whose saved part is in buffer 50.\<close>

definition generator :: dyco_coroutine where
  "generator = setb COROUTINE_FLAGS_ASYMMETRIC (co0\<lparr>co_ctx := CtxSaved, co_stack := 50, co_stack_size := 100\<rparr>)"

definition sched_gen :: dyco_schedule where
  "sched_gen = zero_schedule\<lparr>cid_co_map := htable_one, sc_stack := 3, sc_stack_size := 200\<rparr>"

definition world_gen :: world where
  "world_gen = (world0 [8 \<mapsto> generator] sched_gen)\<lparr>bytes := [3 \<mapsto> replicate 200 9, 50 \<mapsto> replicate 100 1]\<rparr>"

theorem asym_resume_yield_witness:
  "\<exists>w'. machine (\<lambda>_ _. ret ()) 2 [CoCtx 8 \<mapsto> seq dyco_asymcoroyield (ret 0)] (bind (dyco_asymcororesume (fd_key 6)) ret world_gen)
       = Finished 6 w' \<and> scheds w' 1 = Some sched_gen"
proof -
  let ?k = "fd_key 6"
  let ?v = "resumed 1 sched_gen 8 generator world_gen" and ?co = "setb COROUTINE_STATUS_RUNNING (generator\<lparr>sched_count := sched_count generator + 1\<rparr>)"
  have p: "asym_known world_gen 1 sched_gen ?k 8 generator" "\<not> testb COROUTINE_STATUS_EXITED generator" "\<not> testb COROUTINE_STATUS_NEW generator"
    "stack_there world_gen sched_gen generator" "co_ctx generator = CtxSaved"
    using htable_one_ok by (simp_all add: asym_known_def world_gen_def generator_def sched_gen_def key_ok_def testb_status_zero stack_there_def zero_schedule_def)
  have q: "sched_key ?v = 1" "scheds ?v 1 = Some (sched_gen\<lparr>curr_thread := 8\<rparr>)" "curr_thread (sched_gen\<lparr>curr_thread := 8\<rparr>) = 8"
    "cos ?v 8 = Some ?co" "co_sched ?co = 1" "\<not> testb COROUTINE_STATUS_EXITED ?co"
    by (simp_all add: world_gen_def generator_def resumed_def testb_status_zero)
  have "bytes ?v 3 = Some (replicate 100 9 @ replicate 100 1)" "bytes ?v 50 = Some (replicate 100 1)"
    by (simp_all add: resumed_def unpacked_def world_gen_def generator_def sched_gen_def testb_status_zero)
  then have r: "can_save ?v (sched_gen\<lparr>curr_thread := 8\<rparr>) ?co"
    by (simp add: can_save_def resumed_def world_gen_def generator_def sched_gen_def testb_status_zero saved_ok_def plenty_def)
  let ?body = "seq dyco_asymcoroyield (ret 0) :: int M"
  have body: "[CoCtx 8 \<mapsto> ?body] (CoCtx 8) = Some ?body"
    by simp
  obtain ks' v' where "machine (\<lambda>_ _. ret ()) (Suc (Suc 0)) [CoCtx 8 \<mapsto> ?body] (bind (dyco_asymcororesume ?k) ret world_gen) =
      machine (\<lambda>_ _. ret ()) 0 ks' (ret (sint ?k) (v'\<lparr>sigmask := sigmask world_gen,
        scheds := (scheds ?v)(1 \<mapsto> sched_gen\<lparr>curr_thread := 8, curr_thread := curr_thread sched_gen\<rparr>)\<rparr>))"
    using asym_resume_yield [where prog = "\<lambda>_ _. ret ()" and n = 0 and g = ret and h = "ret 0" and v = ?v
        and ks = "[CoCtx 8 \<mapsto> ?body]" and body = ?body, OF p body refl q r] by blast
  then show ?thesis
    by (simp add: numeral_2_eq_2 ret_def)
qed

text \<open>The first resumption starts the coroutine's function; a coroutine that has ended is not resumed any more.\<close>

lemma asym_resume_new:
  assumes "asym_known w s sc k c co" and "\<not> testb COROUTINE_STATUS_EXITED co" and "testb COROUTINE_STATUS_NEW co"
  shows "\<exists>w1 ks1. machine prog (Suc n) ks (bind (dyco_asymcororesume k) g w) = machine prog n ks1 (seq (execute_asym prog c) (fail BadContext) w1)
    \<and> scheds w1 = (scheds w)(s \<mapsto> sc\<lparr>curr_thread := c\<rparr>)"
proof -
  let ?co = "setb COROUTINE_STATUS_RUNNING ((clrb COROUTINE_STATUS_NEW (co\<lparr>co_ctx := CtxStartAsym\<rparr>))\<lparr>sched_count := sched_count co + 1\<rparr>)"
  let ?w1 = "w\<lparr>cos := (cos w)(c \<mapsto> ?co), scheds := (scheds w)(s \<mapsto> sc\<lparr>curr_thread := c\<rparr>)\<rparr>"
  have "cidmap_find s k w = Done c w"
    using cidmap_find_run [of w s sc k] assms(1) by (simp add: asym_known_def)
  with assms have "dyco_asymcororesume k w = Swap (CoRet c) (CoCtx c) ?w1 (resume_rest s (curr_thread sc) k c)"
    by (auto simp: asym_known_def dyco_asymcororesume_def Let_def whenM_def init_asymcoro_def resume_rest_def seq_deref
        bind_Done [where m = "cidmap_find s k"])
  from bind_Swap [where m = "dyco_asymcororesume k" and g = g, OF this] have
    "machine prog (Suc n) ks (bind (dyco_asymcororesume k) g w) =
     machine prog n (save_context (CoRet c) (bind (resume_rest s (curr_thread sc) k c) g) ?w1 ks) (seq (execute_asym prog c) (fail BadContext) ?w1)"
    by (simp add: entry_def)
  then show ?thesis by (intro exI conjI) (assumption, simp)
qed

lemma asym_resume_exited:
  assumes "asym_known w s sc k c co" and "testb COROUTINE_STATUS_EXITED co"
  shows "dyco_asymcororesume k w = Done 0 w"
proof -
  have "cidmap_find s k w = Done c w"
    using cidmap_find_run [of w s sc k] assms(1) by (simp add: asym_known_def)
  with assms show ?thesis
    by (simp add: asym_known_def dyco_asymcororesume_def Let_def bind_Done [where m = "cidmap_find s k"])
qed

end
