(* ===== verification/Stop_Correct.thy ===== *)
theory Stop_Correct
  imports Asym_Correct Round_Robin
begin

text \<open>
  Stopping the scheduler from inside: a coroutine that calls \<^verbatim>\<open>dyco_schedcall_stop\<close> ends the run of its scheduler, and is left
  ready behind its queue, so that the next run goes on with it.
\<close>

section \<open>Part of a round\<close>

text \<open>As long as the one that was last at the beginning has not had its turn and there are turns left, the phase goes on.\<close>

lemma machine_turns_part:
  assumes "turns prog s q ks w xs cs zs ks' w'" and "l \<notin> set cs" and "same_coroutines ks0 ks"
  shows "\<exists>ks1. same_coroutines ks1 ks' \<and> machine prog (2 * length cs + n) ks0 (bind (process_queue (Suc fuel) q (length cs + k) s l) g w)
    = machine prog n ks1 (bind (process_queue (Suc fuel) q k s l) g w')"
  using assms
proof (induction arbitrary: ks0 rule: turns.induct)
  case (turns_Cons ks w c xs ys ks1 w1 cs zs ks2 w2)
  from machine_turn [OF turns_Cons.hyps(1) turns_Cons.prems(2), of "2 * length cs + n" fuel "length cs + k" l g] turns_Cons.prems(1) obtain ks3 where
    k3: "same_coroutines ks3 ks1" "machine prog (2 * length (c # cs) + n) ks0 (bind (process_queue (Suc fuel) q (length (c # cs) + k) s l) g w) =
      machine prog (2 * length cs + n) ks3 (bind (process_queue (Suc fuel) q (length cs + k) s l) g w1)"
    by (auto simp del: process_queue.simps machine.simps)
  with turns_Cons.IH [OF _ k3(1)] turns_Cons.prems(1) show ?case by (simp del: process_queue.simps machine.simps)
qed (auto simp del: process_queue.simps)

section \<open>The call\<close>

definition home :: "dyco_coroutine \<Rightarrow> qid" where
  "home co = (if testb COROUTINE_FLAGS_URGENT co then QUrgent else QReady)"

text \<open>The coroutine, its scheduler and the world when the call saves the stack; the scheduler when it has served the call.\<close>

definition stopping :: "dyco_coroutine \<Rightarrow> dyco_coroutine" where
  "stopping co = setb COROUTINE_STATUS_READY (setb COROUTINE_STATUS_SCHEDCALL (clrb COROUTINE_STATUS_RUNNING co))"

definition sched_asked :: "addr \<Rightarrow> dyco_coroutine \<Rightarrow> dyco_schedule \<Rightarrow> dyco_schedule" where
  "sched_asked c co sc = sc\<lparr>sc_call := (sc_call sc)\<lparr>callnum := CALLNUM_SCHED_STOP\<rparr>, queues := TAILQ_INSERT_TAIL (home co) c (queues sc)\<rparr>"

definition asked :: "addr \<Rightarrow> dyco_schedule \<Rightarrow> addr \<Rightarrow> dyco_coroutine \<Rightarrow> world \<Rightarrow> world" where
  "asked s sc c co v = v\<lparr>cos := (cos v)(c \<mapsto> stopping co), scheds := (scheds v)(s \<mapsto> sched_asked c co sc)\<rparr>"

definition sched_stopped :: "addr \<Rightarrow> dyco_coroutine \<Rightarrow> dyco_schedule \<Rightarrow> dyco_schedule" where
  "sched_stopped c co sc = (sched_asked c co sc)\<lparr>sc_status := SCHEDULE_STATUS_STOPPED, curr_thread := NULL,
     sc_call := (sc_call sc)\<lparr>callnum := CALLNUM_SCHED_STOP, call_ret := 0\<rparr>\<rparr>"

text \<open>A coroutine \<open>c\<close> of the scheduler \<open>s\<close> that runs in \<open>v\<close>, is on no queue and can be suspended.\<close>

definition running :: "world \<Rightarrow> addr \<Rightarrow> dyco_schedule \<Rightarrow> addr \<Rightarrow> dyco_coroutine \<Rightarrow> (qid \<Rightarrow> addr list) \<Rightarrow> bool" where
  "running v s sc c co f \<longleftrightarrow> sched_key v = s \<and> s \<noteq> NULL \<and> scheds v s = Some sc \<and> curr_thread sc = c \<and> c \<noteq> NULL \<and> cos v c = Some co \<and> co_sched co = s
     \<and> can_save v sc co \<and> tq_both (queues sc) f \<and> (\<forall>q. c \<notin> set (f q))"

lemma stop_switch:
  assumes "running v s sc c co f"
  shows "\<exists>co1 v1. packed c (sched_asked c co sc) (stopping co) (asked s sc c co v) co1 v1 \<and> cos v1 = (cos v)(c \<mapsto> co1) \<and> sigmask v1 = sigmask v
    \<and> scheds v1 = (scheds v)(s \<mapsto> sched_asked c co sc) \<and> testb COROUTINE_STATUS_SCHEDCALL co1 \<and>
    seq dyco_schedcall_stop h v = Swap (CoCtx c) SchedCtx (v1\<lparr>cos := (cos v1)(c \<mapsto> co1\<lparr>co_ctx := CtxSaved\<rparr>)\<rparr>)
      (seq (co_set c (setb COROUTINE_STATUS_RUNNING)) (seq (co_set c (clrb COROUTINE_STATUS_SCHEDCALL)) h))"
proof -
  let ?v = "asked s sc c co v"
  have "can_save ?v (sched_asked c co sc) (stopping co)"
    using assms by (auto simp: running_def can_save_def asked_def sched_asked_def stopping_def saved_ok_def)
  moreover have "cos ?v c = Some (stopping co)" "scheds ?v (co_sched (stopping co)) = Some (sched_asked c co sc)"
    using assms by (simp_all add: running_def asked_def stopping_def)
  ultimately obtain co1 v1 where r: "savestk c ?v = Done () v1" "packed c (sched_asked c co sc) (stopping co) ?v co1 v1"
    "cos v1 = (cos ?v)(c \<mapsto> co1)" "scheds v1 = scheds ?v" "sigmask v1 = sigmask ?v" "co_sched co1 = co_sched (stopping co)"
    "testb COROUTINE_STATUS_SCHEDCALL co1 = testb COROUTINE_STATUS_SCHEDCALL (stopping co)"
    using savestk_packed [of ?v c "stopping co" "sched_asked c co sc"] by auto
  have cs: "cos v1 = (cos v)(c \<mapsto> co1)" "scheds v1 = (scheds v)(s \<mapsto> sched_asked c co sc)" "sigmask v1 = sigmask v" "co_sched co1 = s"
    "testb COROUTINE_STATUS_SCHEDCALL co1"
    using r(3-7) assms by (simp_all add: asked_def running_def stopping_def)
  have "seq dyco_schedcall_stop h v = seq (savestk c) (seq (swap_to_sched c)
      (seq (co_set c (setb COROUTINE_STATUS_RUNNING)) (seq (co_set c (clrb COROUTINE_STATUS_SCHEDCALL)) h))) ?v"
    using assms by (simp add: running_def dyco_schedcall_stop_def Let_def push_ready_def queue_push_def asked_def sched_asked_def stopping_def home_def
        split del: if_split)
  also have "\<dots> = Swap (CoCtx c) SchedCtx (v1\<lparr>cos := (cos v1)(c \<mapsto> co1\<lparr>co_ctx := CtxSaved\<rparr>)\<rparr>)
      (seq (co_set c (setb COROUTINE_STATUS_RUNNING)) (seq (co_set c (clrb COROUTINE_STATUS_SCHEDCALL)) h))"
    using cs by (simp add: seq_Done [where m = "savestk c", OF r(1)] swap_to_sched_def)
  finally show ?thesis using r(2) cs by blast
qed

lemma leave_stop:
  assumes "cos w c = Some co1" and "testb COROUTINE_STATUS_SCHEDCALL co1" and "scheds w s = Some (sched_asked c co sc)"
  shows "leave (Suc fuel) q k s l c w = Done (Some 1) (w\<lparr>scheds := (scheds w)(s \<mapsto> sched_stopped c co sc)\<rparr>)"
  using assms by (simp add: leave_def schedule_callexec_def schedule_stop_def sched_asked_def sched_stopped_def ret_def)

section \<open>The run ends\<close>

definition turns_allowed :: "qid \<Rightarrow> nat" where
  "turns_allowed q = (case q of QUrgent \<Rightarrow> DYCO_URGENT_MAXEXEC | QReady \<Rightarrow> DYCO_URGENT_MAXWAIT)"

text \<open>The coroutine \<open>c\<close>, the first one of queue \<open>q\<close>, gets its turn in \<open>w\<close>, comes to \<^verbatim>\<open>dyco_schedcall_stop\<close> in \<open>v\<close>, and would go on with \<open>h\<close>.\<close>

definition comes_to_stop ::
    "(nat \<Rightarrow> addr \<Rightarrow> unit M) \<Rightarrow> addr \<Rightarrow> qid \<Rightarrow> konts \<Rightarrow> world \<Rightarrow> addr \<Rightarrow> sigset \<Rightarrow> int M \<Rightarrow> world \<Rightarrow> bool" where
  "comes_to_stop prog s q ks w c m h v \<longleftrightarrow> (\<exists>sc f xs co w1. scheds w s = Some sc \<and> tq_both (queues sc) f \<and> f q = c # xs \<and> cos w c = Some co \<and> co_sched co = s
     \<and> enter s q c w = Done () w1 \<and> sigmask w1 = m \<and> goes_on prog ks w1 c = Some (seq dyco_schedcall_stop h v))"

definition after_stop :: "addr \<Rightarrow> dyco_schedule \<Rightarrow> addr \<Rightarrow> dyco_coroutine \<Rightarrow> world \<Rightarrow> sigset \<Rightarrow> world \<Rightarrow> bool" where
  "after_stop s sc c co v m w' \<longleftrightarrow> (\<exists>co1 v1. packed c (sched_asked c co sc) (stopping co) (asked s sc c co v) co1 v1 \<and>
     w' = v1\<lparr>sigmask := m, cos := (cos v)(c \<mapsto> co1\<lparr>co_ctx := CtxSaved\<rparr>), scheds := (scheds v)(s \<mapsto> sched_stopped c co sc)\<rparr>)"

lemma machine_stop:
  assumes "comes_to_stop prog s q ks w c m h v" and "running v s sc c co fv" and "same_coroutines ks0 ks"
  shows "\<exists>ks1 w'. after_stop s sc c co v m w' \<and> same_coroutines ks1 (ks(CoCtx c \<mapsto> (\<lambda>x. seq (co_set c (setb COROUTINE_STATUS_RUNNING))
      (seq (co_set c (clrb COROUTINE_STATUS_SCHEDCALL)) h) (x\<lparr>sigmask := sigmask v\<rparr>)))) \<and>
    machine prog (Suc (Suc n)) ks0 (bind (process_queue (Suc fuel) q (Suc k) s l) g w) = machine prog n ks1 (g (Some 1) w')"
proof -
  from assms(1) obtain scw f xs cow w1 where
    t: "scheds w s = Some scw" "tq_both (queues scw) f" "f q = c # xs" "cos w c = Some cow" "co_sched cow = s"
      "enter s q c w = Done () w1" "sigmask w1 = m" "goes_on prog ks w1 c = Some (seq dyco_schedcall_stop h v)"
    unfolding comes_to_stop_def by blast
  let ?H = "seq (co_set c (setb COROUTINE_STATUS_RUNNING)) (seq (co_set c (clrb COROUTINE_STATUS_SCHEDCALL)) h)"
  from stop_switch [OF assms(2)] obtain co1 v1 where
    y: "packed c (sched_asked c co sc) (stopping co) (asked s sc c co v) co1 v1" "cos v1 = (cos v)(c \<mapsto> co1)" "sigmask v1 = sigmask v"
      "scheds v1 = (scheds v)(s \<mapsto> sched_asked c co sc)" "testb COROUTINE_STATUS_SCHEDCALL co1"
      "seq dyco_schedcall_stop h v = Swap (CoCtx c) SchedCtx (v1\<lparr>cos := (cos v1)(c \<mapsto> co1\<lparr>co_ctx := CtxSaved\<rparr>)\<rparr>) ?H" by blast
  let ?v2 = "v1\<lparr>cos := (cos v1)(c \<mapsto> co1\<lparr>co_ctx := CtxSaved\<rparr>)\<rparr>"
  let ?K = "bind (leave (Suc fuel) q k s l c) g"
  let ?ks1 = "save_context SchedCtx ?K w1 ks0"
  let ?ks2 = "save_context (CoCtx c) ?H ?v2 ?ks1"
  let ?w' = "v1\<lparr>sigmask := m, cos := (cos v)(c \<mapsto> co1\<lparr>co_ctx := CtxSaved\<rparr>), scheds := (scheds v)(s \<mapsto> sched_stopped c co sc)\<rparr>"
  have q: "\<not> TAILQ_EMPTY q (queues scw)" "TAILQ_FIRST q (queues scw) = c"
    using tailq.isempty_law [OF t(2)] tailq.front_law [OF t(2)] t(3) by simp_all
  have "bind (process_queue (Suc fuel) q (Suc k) s l) g w = Swap SchedCtx (CoCtx c) w1 ?K"
    by (rule bind_Swap [where m = "process_queue (Suc fuel) q (Suc k) s l", OF process_queue_enter [OF t(1) q t(4-6)]])
  moreover have "goes_on prog ?ks1 w1 c = Some (Swap (CoCtx c) SchedCtx ?v2 ?H)"
    using t(8) assms(3) y(6) by (simp add: goes_on_def save_context_def same_coroutines_def split: option.splits)
  ultimately have "machine prog (Suc (Suc n)) ks0 (bind (process_queue (Suc fuel) q (Suc k) s l) g w) = machine prog (Suc n) ?ks1 (Swap (CoCtx c) SchedCtx ?v2 ?H)"
    by (auto simp: goes_on_def split: option.splits)
  also have "\<dots> = machine prog n ?ks2 (?K (?v2\<lparr>sigmask := m\<rparr>))"
    using t(7) by (simp add: entry_def save_context_def)
  also have "leave (Suc fuel) q k s l c (?v2\<lparr>sigmask := m\<rparr>) = Done (Some 1) ?w'"
    using leave_stop [of "?v2\<lparr>sigmask := m\<rparr>" c "co1\<lparr>co_ctx := CtxSaved\<rparr>" s co sc fuel q k l] y(2,4,5) by simp
  then have "?K (?v2\<lparr>sigmask := m\<rparr>) = g (Some 1) ?w'" by (simp add: bind_def)
  finally have "machine prog (Suc (Suc n)) ks0 (bind (process_queue (Suc fuel) q (Suc k) s l) g w) = machine prog n ?ks2 (g (Some 1) ?w')" .
  moreover have "after_stop s sc c co v m ?w'" unfolding after_stop_def using y(1) by blast
  moreover have "same_coroutines ?ks2 (ks(CoCtx c \<mapsto> (\<lambda>x. ?H (x\<lparr>sigmask := sigmask v\<rparr>))))"
    using assms(3) y(3) by (simp add: same_coroutines_def save_context_def)
  ultimately show ?thesis by blast
qed

definition later_phases :: "qid \<Rightarrow> nat \<Rightarrow> addr \<Rightarrow> int M" where
  "later_phases q = (case q of QUrgent \<Rightarrow> from_c | QReady \<Rightarrow> from_d)"

lemma loop_to_phase:
  fixes g :: "int \<Rightarrow> int M"
  assumes "scheds w s = Some sc" and "\<not> SCHEDULE_ISDONE sc" and "probe_expired (Suc (length (inorder (sleeping sc)))) s w = Done () w1"
    and "scheds w1 s = Some sc1" and "tq_both (queues sc1) f" and "q = QReady \<Longrightarrow> f QUrgent = []" and "f q \<noteq> []"
  shows "bind (schedule_loop (Suc (Suc fuel)) s) g w = bind (process_queue (Suc fuel) q (turns_allowed q) s (last (f q)))
    (\<lambda>r. bind (case r of Some x \<Rightarrow> ret x | None \<Rightarrow> later_phases q (Suc fuel) s) g) w1"
proof (cases q)
  case QUrgent
  then show ?thesis using loop_phases [OF assms(1-4), of "Suc fuel" g] tailq.rear_law [OF assms(5,7)]
    by (simp add: turns_allowed_def later_phases_def del: schedule_loop.simps process_queue.simps cong: option.case_cong)
next
  case QReady
  obtain k where k: "DYCO_URGENT_MAXEXEC = Suc k" by (simp add: DYCO_URGENT_MAXEXEC_def numeral_eq_Suc)
  have "process_queue (Suc fuel) QUrgent (Suc k) s x w1 = Done None w1" for x
    using tailq.isempty_law [OF assms(5), of QUrgent] assms(4,6) QReady by (simp add: ret_def)
  then have "bind (process_queue (Suc fuel) QUrgent (Suc k) s x) j w1 = j None w1" for x and j :: "int option \<Rightarrow> int M"
    by (simp add: bind_def del: process_queue.simps)
  then show ?thesis using loop_phases [OF assms(1-4), of "Suc fuel" g] tailq.rear_law [OF assms(5,7)] QReady assms(4) unfolding k
    by (simp add: turns_allowed_def later_phases_def from_c_def del: schedule_loop.simps process_queue.simps cong: option.case_cong)
qed

text \<open>
  C20: a coroutine can stop the run. In an iteration of the main loop in which phase A ends in \<open>w1\<close>, let \<open>q\<close> be the urgent queue, or the ready
  queue while no urgent coroutine is queued. Some coroutines \<open>cs\<close> of \<open>q\<close> take turns, fewer than are queued and than the phase allows, and the next one, \<open>c\<close>, calls
  \<^verbatim>\<open>dyco_schedcall_stop\<close> in a world \<open>v\<close> in which its stack can be saved. Then nobody else runs: \<^verbatim>\<open>dyco_schedule_run\<close> returns 1 at once.
  The scheduler is stopped and runs no coroutine; its queues are those of \<open>v\<close> with \<open>c\<close> behind the queue of its priority; the used part of the shared stack is in the
  buffer of \<open>c\<close>; and what is saved for \<open>c\<close>, for the next run, is to leave the call and go on with \<open>h\<close>.
\<close>

theorem stop_ends_run:
  assumes "scheds w s = Some sc" and "\<not> SCHEDULE_ISDONE sc" and "probe_expired (Suc (length (inorder (sleeping sc)))) s w = Done () w1"
    and "scheds w1 s = Some sc1" and "tq_both (queues sc1) f" and "q = QReady \<Longrightarrow> f QUrgent = []"
    and "turns prog s q ks w1 (f q) cs zs ks' w2" and "length cs < turns_allowed q" and "length cs < length (f q)"
    and "comes_to_stop prog s q ks' w2 c m h v" and "running v s scv c cov fv"
  shows "\<exists>ks1 w'. machine prog (2 * length cs + Suc (Suc n)) ks (bind (schedule_loop (Suc (Suc fuel)) s) g w) = machine prog n ks1 (g 1 w')
    \<and> after_stop s scv c cov v m w' \<and> tq_both (queues (sched_stopped c cov scv)) (fv(home cov := fv (home cov) @ [c]))
    \<and> same_coroutines ks1 (ks'(CoCtx c \<mapsto> (\<lambda>x. seq (co_set c (setb COROUTINE_STATUS_RUNNING))
        (seq (co_set c (clrb COROUTINE_STATUS_SCHEDCALL)) h) (x\<lparr>sigmask := sigmask v\<rparr>))))"
proof -
  let ?l = "last (f q)" and ?a = "turns_allowed q"
  let ?next = "\<lambda>r. bind (case r of Some x \<Rightarrow> ret x | None \<Rightarrow> later_phases q (Suc fuel) s) g"
  have "f q \<noteq> []" using assms(9) by auto
  note loop = loop_to_phase [OF assms(1-6) this, of fuel g]
  obtain k where k: "?a = length cs + Suc k" using assms(8) less_iff_Suc_add [of "length cs" ?a] by auto
  have d: "distinct (f q)" using assms(5) by (cases q) (simp_all add: tq_both_def qid_all tq_rep_def)
  have cs: "cs = take (length cs) (f q)" using turns_order [OF assms(7)] assms(9) by simp
  have "?l \<notin> set cs" using d assms(9) cs by (metis last_drop last_in_set drop_eq_Nil leD append_take_drop_id distinct_append disjoint_iff)
  from machine_turns_part [OF assms(7) this, of ks "Suc (Suc n)" fuel "Suc k" ?next] obtain ks2 where
    p: "same_coroutines ks2 ks'" "machine prog (2 * length cs + Suc (Suc n)) ks (bind (process_queue (Suc fuel) q ?a s ?l) ?next w1)
      = machine prog (Suc (Suc n)) ks2 (bind (process_queue (Suc fuel) q (Suc k) s ?l) ?next w2)"
    unfolding k by (auto simp: same_coroutines_def simp del: process_queue.simps machine.simps)
  have ret: "?next (Some 1) = g 1" by (simp add: bind_def ret_def fun_eq_iff)
  have q: "tq_both (queues (sched_stopped c cov scv)) (fv(home cov := fv (home cov) @ [c]))"
    using assms(11) tailq.push_law [of "queues scv" fv c "home cov"] by (simp add: running_def sched_stopped_def sched_asked_def)
  from machine_stop [OF assms(10,11) p(1), of n fuel k ?l ?next] obtain ks1 w' where
    r: "after_stop s scv c cov v m w'" "same_coroutines ks1 (ks'(CoCtx c \<mapsto> (\<lambda>x. seq (co_set c (setb COROUTINE_STATUS_RUNNING))
        (seq (co_set c (clrb COROUTINE_STATUS_SCHEDCALL)) h) (x\<lparr>sigmask := sigmask v\<rparr>))))"
      "machine prog (Suc (Suc n)) ks2 (bind (process_queue (Suc fuel) q (Suc k) s ?l) ?next w2) = machine prog n ks1 (?next (Some 1) w')" by blast
  show ?thesis
    by (intro exI [of _ ks1] exI [of _ w'] conjI r(1,2) q) (simp only: loop p(2) r(3) ret)
qed

text \<open>Two coroutines are ready: 7 gives up control, 8 stops the run.\<close>

definition stop_konts :: konts where
  "stop_konts = [CoCtx 7 \<mapsto> seq (swap_to_sched 7) (ret 0), CoCtx 8 \<mapsto> seq dyco_schedcall_stop (ret 0)]"

lemma stop_example:
  assumes "scheds w 1 = Some sc" and "tq_both (queues sc) ((\<lambda>_. [])(QReady := [8]))" and "sched_key w = 1" and "cos w 8 = Some idler"
    and "ks (CoCtx 8) = Some (seq dyco_schedcall_stop (ret 0))"
  shows "\<exists>v sc8 co8. comes_to_stop prog 1 QReady ks w 8 (sigmask w) (ret 0) v \<and> running v 1 sc8 8 co8 (\<lambda>_. []) \<and> home co8 = QReady"
proof -
  note i = idler_idle
  let ?co = "(clrb COROUTINE_STATUS_READY idler)\<lparr>sched_count := sched_count idler + 1\<rparr>"
  let ?sc = "sc\<lparr>queues := TAILQ_REMOVE QReady 8 (queues sc), curr_thread := 8\<rparr>"
  let ?v = "w\<lparr>scheds := (scheds w)(1 \<mapsto> ?sc), cos := (cos w)(8 \<mapsto> ?co)\<rparr>"
  have "enter 1 QReady 8 w = Done () ?v"
    using enter_run [OF assms(1,4)] i by (simp add: idle_def)
  moreover have "goes_on prog ks ?v 8 = Some (seq dyco_schedcall_stop (ret 0) ?v)"
    using i assms(5) by (simp add: goes_on_def entry_def idle_def)
  ultimately have "comes_to_stop prog 1 QReady ks w 8 (sigmask w) (ret 0) ?v"
    unfolding comes_to_stop_def using assms(1,2,4) i
    by (intro exI [of _ sc] exI [of _ "(\<lambda>_. [])(QReady := [8])"] exI [of _ "[]"] exI [of _ idler] exI [of _ ?v]) (simp add: idle_def)
  moreover have e: "((\<lambda>_. [])(QReady := [8]))(QReady := []) = (\<lambda>_. [] :: addr list)" by (simp add: fun_eq_iff)
  have "tq_both (queues ?sc) (\<lambda>_. [])"
    using tailq.pop_law [OF assms(2), of QReady 8 "[]"] unfolding e by simp
  then have "running ?v 1 ?sc 8 ?co (\<lambda>_. [])"
    using assms(3) i by (simp add: running_def idle_def can_save_def)
  moreover have "home ?co = QReady"
    by (simp add: home_def idler_def testb_status_zero)
  ultimately show ?thesis by blast
qed

theorem stop_ends_run_witness:
  "\<exists>w' sc'. machine (\<lambda>_ _. ret ()) 4 stop_konts (bind (schedule_loop 2 1) ret world_idle) = Finished 1 w' \<and> scheds w' 1 = Some sc'
     \<and> sc_status sc' = SCHEDULE_STATUS_STOPPED \<and> TAILQ_FIRST QReady (queues sc') = 8"
proof -
  let ?prog = "\<lambda>_ _. ret () :: unit M"
  let ?f = "(\<lambda>_. [])(QReady := [7, 8 :: addr])"
  let ?w = "world_idle\<lparr>tick := 1\<rparr>"
  note f = sched_idle_queues
  have s: "scheds world_idle 1 = Some sched_idle" "scheds ?w 1 = Some sched_idle" by (simp_all add: world_idle_def)
  have n: "\<not> SCHEDULE_ISDONE sched_idle" using tailq.isempty_law [OF f, of QReady] by (simp add: SCHEDULE_ISDONE_def)
  have e: "inorder (sleeping sched_idle) = []" by (simp add: sched_idle_def zero_schedule_def)
  then have "timers_ok world_idle 1 sched_idle" using s by (simp add: timers_ok_def)
  from probe_expired_stop [OF this] have p: "probe_expired (Suc (length (inorder (sleeping sched_idle)))) 1 world_idle = Done () ?w"
    using e by (simp add: world_idle_def del: probe_expired.simps)
  from idle_turn [OF s(2) f, of QReady 7 "[8]" idler stop_konts "ret 0" ?prog] idler_idle obtain ks1 w1 sc1 where
    t: "turn ?prog 1 QReady stop_konts ?w 7 [8] [] ks1 w1" "scheds w1 1 = Some sc1" "tq_both (queues sc1) (?f(QReady := [8]))"
      "sched_key w1 = 1" "cos w1 8 = Some idler" "ks1 (CoCtx 8) = Some (seq dyco_schedcall_stop (ret 0))"
    by (auto simp: world_idle_def stop_konts_def sched_idle_def)
  have t1: "turns ?prog 1 QReady stop_konts ?w (?f QReady) [7] [8] ks1 w1"
    using turns_Cons [OF t(1), of "[]" "[8]"] turns_Nil [of ?prog 1 QReady ks1 w1 "[8]"] by simp
  have "tq_both (queues sc1) ((\<lambda>_. [])(QReady := [8]))" using t(3) by simp
  from stop_example [OF t(2) this t(4,5), of ks1 ?prog] t(6) obtain v sc8 co8 where
    c: "comes_to_stop ?prog 1 QReady ks1 w1 8 (sigmask w1) (ret 0) v" "running v 1 sc8 8 co8 (\<lambda>_. [])" "home co8 = QReady" by blast
  obtain ks2 w' where r: "machine ?prog (2 * length [7 :: addr] + Suc (Suc 0)) stop_konts (bind (schedule_loop (Suc (Suc 0)) 1) ret world_idle) = machine ?prog 0 ks2 (ret 1 w')"
      "after_stop 1 sc8 8 co8 v (sigmask w1) w'" "tq_both (queues (sched_stopped 8 co8 sc8)) ((\<lambda>_. [])(home co8 := [8]))"
    using stop_ends_run [OF s(1) n p s(2) f _ t1 _ _ c(1,2), of 0 0 ret] by (auto simp: turns_allowed_def DYCO_URGENT_MAXWAIT_def simp del: machine.simps schedule_loop.simps)
  have "TAILQ_FIRST QReady (queues (sched_stopped 8 co8 sc8)) = 8"
    using tailq.front_law [OF r(3), of QReady] c(3) by simp
  moreover have "sc_status (sched_stopped 8 co8 sc8) = SCHEDULE_STATUS_STOPPED" by (simp add: sched_stopped_def)
  ultimately show ?thesis
    using r(1,2) by (auto simp: numeral_2_eq_2 eval_nat_numeral ret_def after_stop_def simp del: schedule_loop.simps)
qed

end
