(* ===== verification/Notify_Correct.thy ===== *)
theory Notify_Correct
  imports Dyco_Notify
begin

text \<open>
  Lists of event counters as the communication primitives keep them, and what the loops of
  \<^verbatim>\<open>Dyco_Notify\<close> do on them: they end, visit every node once, and taking a node out keeps the others.
\<close>

section \<open>Lists of waiters\<close>

fun chain :: "(addr \<Rightarrow> notifylist option) \<Rightarrow> addr \<Rightarrow> addr list \<Rightarrow> bool" where
  "chain L a [] = (a = NULL)"
| "chain L a (x # xs) = (a = x \<and> x \<noteq> NULL \<and> (case L x of None \<Rightarrow> False | Some nd \<Rightarrow> chain L (nl_next nd) xs))"

lemma chain_cong: "(\<And>x. x \<in> set xs \<Longrightarrow> L' x = L x) \<Longrightarrow> chain L' a xs = chain L a xs"
  by (induction xs arbitrary: a) (auto split: option.splits)

lemma chain_live: "chain L a xs \<Longrightarrow> x \<in> set xs \<Longrightarrow> \<exists>nd. L x = Some nd"
  by (induction xs arbitrary: a) (auto split: option.splits)

lemma chain_snoc:
  assumes "chain L a (xs @ [y])" "L y = Some nd" "L z = Some nz" "nl_next nz = NULL" "z \<noteq> NULL" "z \<notin> set (xs @ [y])" "distinct (xs @ [y])"
  shows "chain (L(y \<mapsto> nd\<lparr>nl_next := z\<rparr>)) a (xs @ [y, z])"
  using assms
proof (induction xs arbitrary: a)
  case (Cons x xs)
  then show ?case by (auto split: option.splits)
qed auto

text \<open>The descriptor a waiter was given.\<close>

definition waiter_fd :: "world \<Rightarrow> addr \<Rightarrow> fd" where
  "waiter_fd w x = (case lnodes w x of None \<Rightarrow> - 1 | Some nd \<Rightarrow> notifyfd nd)"

definition in_coroutine :: "world \<Rightarrow> bool" where
  "in_coroutine w = (sched_key w \<noteq> NULL \<and> (case scheds w (sched_key w) of None \<Rightarrow> False | Some sc \<Rightarrow> curr_thread sc \<noteq> NULL))"

lemma with_current_run: "in_coroutine w \<Longrightarrow> \<exists>c. with_current m k w = k c w"
  by (auto simp: in_coroutine_def with_current_def split: option.splits)

section \<open>Notifying every node\<close>

lemma chain_fd: "chain L a (x # xs) \<Longrightarrow> L = lnodes w \<Longrightarrow> \<exists>nd. L x = Some nd \<and> waiter_fd w x = notifyfd nd \<and> chain L (nl_next nd) xs"
  by (auto simp: waiter_fd_def split: option.splits)

lemma waiter_fd_cong: "lnodes w' = lnodes w \<Longrightarrow> waiter_fd w' = waiter_fd w"
  by (simp add: waiter_fd_def fun_eq_iff)

text \<open>
  If \<open>f\<close> raises a fresh counter to \<open>v\<close>, the loop does so with every counter of the list.
\<close>

definition raises :: "(fd \<Rightarrow> unit M) \<Rightarrow> u64 \<Rightarrow> bool" where
  "raises f v = (\<forall>n w. fds w n = Some (EventFd 0) \<longrightarrow> f n w = Done () (w\<lparr>fds := (fds w)(n \<mapsto> EventFd v)\<rparr>))"

definition raised :: "world \<Rightarrow> addr list \<Rightarrow> u64 \<Rightarrow> fd \<Rightarrow> fdesc option" where
  "raised w xs v = (\<lambda>n. if n \<in> waiter_fd w ` set xs then Some (EventFd v) else fds w n)"

lemma raised_Nil [simp]: "raised w [] v = fds w"
  by (simp add: raised_def)

lemma raises_eventfd_write: "uint v < 2 ^ 64 - 1 \<Longrightarrow> raises (\<lambda>n. seq (eventfd_write n v) (ret ())) v"
  by (simp add: raises_def eventfd_write_def)

lemma notify_all:
  assumes "raises f v" "chain (lnodes w) a xs" "length xs < fuel" "distinct (map (waiter_fd w) xs)"
    "\<forall>x \<in> set xs. fds w (waiter_fd w x) = Some (EventFd 0)"
  shows "each_node f fuel a w = Done () (w\<lparr>fds := raised w xs v\<rparr>)"
  using assms(2-5)
proof (induction xs arbitrary: a fuel w)
  case (Cons x xs)
  from Cons.prems(2) obtain k where k: "fuel = Suc k" "length xs < k" by (cases fuel) auto
  from chain_fd [OF Cons.prems(1) refl] obtain nd where
    nd: "lnodes w x = Some nd" "waiter_fd w x = notifyfd nd" "chain (lnodes w) (nl_next nd) xs" by blast
  have a: "a = x" "x \<noteq> NULL" using Cons.prems(1) by auto
  let ?w1 = "w\<lparr>fds := (fds w)(notifyfd nd \<mapsto> EventFd v)\<rparr>"
  have fd: "waiter_fd ?w1 = waiter_fd w" by (rule waiter_fd_cong) simp
  have "f (notifyfd nd) w = Done () ?w1" using assms(1) Cons.prems(4) nd(2) by (simp add: raises_def)
  then have "each_node f fuel a w = each_node f k (nl_next nd) ?w1"
    using k(1) a nd(1) by (simp add: seq_Done [where m = "f _"])
  also have "\<forall>y \<in> set xs. fds ?w1 (waiter_fd w y) = Some (EventFd 0)" using Cons.prems(3,4) nd(2) by (simp, metis imageI)
  then have "each_node f k (nl_next nd) ?w1 = Done () (?w1\<lparr>fds := raised ?w1 xs v\<rparr>)"
    using Cons.IH [of ?w1 "nl_next nd" k] nd(3) k(2) Cons.prems(3) by (simp only: fd) simp
  also have "raised ?w1 xs v = raised w (x # xs) v" using nd(2) by (simp add: raised_def fd fun_eq_iff)
  then have "?w1\<lparr>fds := raised ?w1 xs v\<rparr> = w\<lparr>fds := raised w (x # xs) v\<rparr>" by simp
  finally show ?case .
next
  case Nil
  then show ?case by (cases fuel) auto
qed

section \<open>Leaving a list\<close>

definition closed :: "fd \<Rightarrow> (fd \<Rightarrow> fdesc option) \<Rightarrow> fd \<Rightarrow> fdesc option" where
  "closed n t = (map_option (forget_fd n) \<circ> t)(n := None)"

lemma close_run: "fds w n \<noteq> None \<Longrightarrow> close n w = Done 0 (w\<lparr>fds := closed n (fds w)\<rparr>)"
  by (simp add: close_def closed_def)

lemma closed_simps [simp]: "closed n t n = None" "m \<noteq> n \<Longrightarrow> t m = Some (EventFd c) \<Longrightarrow> closed n t m = Some (EventFd c)"
  by (simp_all add: closed_def forget_fd_def)

text \<open>
  The loop takes node \<open>y\<close> out of the list that starts at \<open>pre\<close>; all other nodes keep their descriptors.
\<close>

lemma unsubscribe_run:
  assumes "chain (lnodes w) pre (pre # xs @ y # ys)" "distinct (pre # xs @ y # ys)" "length xs < fuel"
    "lnodes w pre = Some npre" "n = waiter_fd w y" "\<forall>x \<in> set xs. waiter_fd w x \<noteq> n" "fds w n \<noteq> None"
  shows "\<exists>L. unsubscribe fuel pre (nl_next npre) n w = Done () (w\<lparr>lnodes := L, fds := closed n (fds w)\<rparr>) \<and>
    chain L pre (pre # xs @ ys) \<and> L y = None \<and> (\<forall>z. z \<notin> set (pre # xs @ [y]) \<longrightarrow> L z = lnodes w z) \<and>
    (\<forall>z. z \<noteq> y \<longrightarrow> map_option notifyfd (L z) = map_option notifyfd (lnodes w z))"
  using assms
proof (induction xs arbitrary: pre npre fuel)
  case Nil
  from Nil.prems(3) obtain k where k: "fuel = Suc k" by (cases fuel) auto
  from Nil.prems(1,4) have ch: "chain (lnodes w) (nl_next npre) (y # ys)" by simp
  from chain_fd [OF ch refl] obtain nd where
    nd: "lnodes w y = Some nd" "waiter_fd w y = notifyfd nd" "chain (lnodes w) (nl_next nd) ys" by blast
  have y: "nl_next npre = y" "y \<noteq> NULL" "y \<noteq> pre" using ch Nil.prems(2) by auto
  define L where "L = ((lnodes w)(pre \<mapsto> npre\<lparr>nl_next := nl_next nd\<rparr>))(y := None)"
  have "chain L (nl_next nd) ys" using nd(3) Nil.prems(2) by (subst chain_cong [of ys _ "lnodes w"]) (auto simp: L_def)
  then have "chain L pre (pre # [] @ ys)" using y Nil.prems(1) by (simp add: L_def [THEN fun_cong])
  moreover have "unsubscribe fuel pre (nl_next npre) n w = Done () (w\<lparr>lnodes := L, fds := closed n (fds w)\<rparr>)"
    using k y nd Nil.prems(4,5,7) unfolding L_def
    by (simp add: seq_Done [where m = "close (notifyfd nd)", OF close_run] del: fun_upd_apply) (simp add: fun_upd_apply)
  ultimately show ?case using y(3) Nil.prems(4)
    by (intro exI [of _ L] conjI) (assumption | simp add: L_def)+
next
  case (Cons x xs)
  from Cons.prems(3) obtain k where k: "fuel = Suc k" "length xs < k" by (cases fuel) auto
  from Cons.prems(1,4) have ch: "chain (lnodes w) (nl_next npre) (x # xs @ y # ys)" by simp
  from chain_fd [OF ch refl] obtain nd where nd: "lnodes w x = Some nd" "waiter_fd w x = notifyfd nd" by blast
  have x: "nl_next npre = x" "x \<noteq> NULL" using ch by auto
  have "chain (lnodes w) x (x # xs @ y # ys)" "distinct (x # xs @ y # ys)" using ch x Cons.prems(2) by auto
  from Cons.IH [OF this k(2) nd(1) Cons.prems(5) _ Cons.prems(7)] Cons.prems(6) obtain L where
    L: "unsubscribe k x (nl_next nd) n w = Done () (w\<lparr>lnodes := L, fds := closed n (fds w)\<rparr>)" "chain L x (x # xs @ ys)" "L y = None"
      "\<forall>z. z \<notin> set (x # xs @ [y]) \<longrightarrow> L z = lnodes w z" "\<forall>z. z \<noteq> y \<longrightarrow> map_option notifyfd (L z) = map_option notifyfd (lnodes w z)" by auto
  have "L pre = Some npre" using L(4) Cons.prems(2,4) by auto
  then have "chain L pre (pre # (x # xs) @ ys)" using L(2) x Cons.prems(1) by simp
  moreover have "unsubscribe fuel pre (nl_next npre) n w = Done () (w\<lparr>lnodes := L, fds := closed n (fds w)\<rparr>)"
    using k(1) x nd Cons.prems(6) L(1) by auto
  ultimately show ?case using L(3-5) by (intro exI [of _ L]) auto
qed

end
