(* ===== verification/Pool_Correct.thy ===== *)
theory Pool_Correct
  imports Dyco_Coropool Coroutine_Correct Notify_Correct
begin

text \<open>
  Coroutine pools: the free list and the number in use always add up to the size of the pool, a
  returned coroutine is the next one handed out, and its return wakes the coroutine that has waited longest.
\<close>

section \<open>What a pool represents\<close>

text \<open>
  \<open>pool_ok cp n xs\<close>: the free list holds the coroutines \<open>xs\<close>, each once, and \<open>n\<close> more are in use.
\<close>

definition pool_ok :: "dyco_coropool \<Rightarrow> nat \<Rightarrow> addr list \<Rightarrow> bool" where
  "pool_ok cp n xs =
    (sl_rep (sle_next (freelist cp)) (slh_first (freelist cp)) xs \<and> activenum cp = int n \<and> totalsize cp = int n + int (length xs))"

lemma pool_ok_available: "pool_ok cp n xs \<Longrightarrow> dyco_coropool_available cp = int (length xs)"
  by (simp add: pool_ok_def dyco_coropool_available_def)

lemma pool_ok_take:
  assumes "pool_ok cp n (x # xs)"
  shows "pool_ok (cp\<lparr>freelist := SLIST_REMOVE_HEAD (freelist cp), activenum := activenum cp + 1\<rparr>) (Suc n) xs"
    and "SLIST_FIRST (freelist cp) = x" and "x \<noteq> NULL"
  using assms by (auto simp: pool_ok_def SLIST_REMOVE_HEAD_def SLIST_FIRST_def)

lemma pool_ok_give:
  assumes "pool_ok cp (Suc n) xs" "x \<noteq> NULL" "x \<notin> set xs"
  shows "pool_ok (cp\<lparr>freelist := SLIST_INSERT_HEAD x (freelist cp), activenum := activenum cp - 1\<rparr>) n (x # xs)"
  using assms SLIST_INSERT_HEAD_rep [of "freelist cp" xs x] by (simp add: pool_ok_def)

lemma pool_ok_sublist [simp]: "pool_ok (cp\<lparr>cp_sublist := y\<rparr>) n xs = pool_ok cp n xs"
  by (simp add: pool_ok_def)

section \<open>Waking a waiter\<close>

lemma cp_wake_none: "pools w p = Some cp \<Longrightarrow> cp_sublist cp = NULL \<Longrightarrow> cp_wake p w = Done () w"
  by (simp add: cp_wake_def whenM_def)

lemma cp_wake_run:
  assumes "pools w p = Some cp" "chain (lnodes w) (cp_sublist cp) (y # ys)" "fds w (waiter_fd w y) = Some (EventFd 0)"
  obtains nd :: notifylist where "cp_wake p w = Done () (w\<lparr>fds := (fds w)(waiter_fd w y \<mapsto> EventFd 1), pools := (pools w)(p \<mapsto> cp\<lparr>cp_sublist := nl_next nd\<rparr>)\<rparr>)"
    "chain (lnodes w) (nl_next nd) ys"
proof -
  from chain_fd [OF assms(2) refl] obtain nd where
    nd: "lnodes w y = Some nd" "waiter_fd w y = notifyfd nd" "chain (lnodes w) (nl_next nd) ys" by blast
  have "cp_sublist cp = y" "y \<noteq> NULL" using assms(2) by auto
  with nd assms(1,3) show thesis
    by (intro that [of nd]) (simp_all add: cp_wake_def cp_notify_def eventfd_write_def whenM_def)
qed

section \<open>Returning a coroutine\<close>

text \<open>The counters that are raised when a coroutine comes back: that of the first waiter, if there is one.\<close>

definition woken :: "world \<Rightarrow> addr list \<Rightarrow> fd \<Rightarrow> fdesc option" where
  "woken w ys = (case ys of [] \<Rightarrow> fds w | y # _ \<Rightarrow> (fds w)(waiter_fd w y \<mapsto> EventFd 1))"

lemma cp_return_run:
  assumes co: "cos w c = Some co" "c \<noteq> NULL" "co_cpool co = p" "p \<noteq> NULL" "co_sched co = s" "key_ok (cid co)"
    and plain: "\<not> testb COROUTINE_FLAGS_IOMULTIPLEXING co" "\<not> testb COROUTINE_FLAGS_WAITSIGNAL co"
    and sc: "scheds w s = Some sc" "ht_wf (cid_co_map sc)"
    and cp: "pools w p = Some cp" "pool_ok cp (Suc n) xs" "c \<notin> set xs"
    and ys: "chain (lnodes w) (cp_sublist cp) ys" "ys \<noteq> [] \<Longrightarrow> fds w (waiter_fd w (hd ys)) = Some (EventFd 0)"
  obtains ht cp' where "cp_return c w = Done () (w\<lparr>scheds := (scheds w)(s \<mapsto> sc\<lparr>coro_count := coro_count sc - 1, cid_co_map := ht\<rparr>),
      cos := (cos w)(c \<mapsto> clrb COROUTINE_FLAGS_URGENT co), pools := (pools w)(p \<mapsto> cp'), fds := woken w ys\<rparr>)"
    "ht_wf ht" "ht_abs ht = (ht_abs (cid_co_map sc))(cid co := None)" "pool_ok cp' n (c # xs)"
    "chain (lnodes w) (cp_sublist cp') (tl ys)"
proof -
  let ?sc = "sc\<lparr>coro_count := coro_count sc - 1\<rparr>"
  let ?w1 = "w\<lparr>scheds := (scheds w)(s \<mapsto> ?sc)\<rparr>"
  have "scheds ?w1 s = Some ?sc" "ht_wf (cid_co_map ?sc)" using sc by simp_all
  from cidmap_delete_run [OF this co(6)] obtain r ht where
    d: "cidmap_delete s (cid co) ?w1 = Done r (?w1\<lparr>scheds := (scheds ?w1)(s \<mapsto> ?sc\<lparr>cid_co_map := ht\<rparr>)\<rparr>)"
      "ht_wf ht" "ht_abs ht = (ht_abs (cid_co_map sc))(cid co := None)" by auto
  let ?cp = "cp\<lparr>freelist := SLIST_INSERT_HEAD c (freelist cp), activenum := activenum cp - 1\<rparr>"
  let ?w2 = "w\<lparr>scheds := (scheds w)(s \<mapsto> ?sc\<lparr>cid_co_map := ht\<rparr>), cos := (cos w)(c \<mapsto> clrb COROUTINE_FLAGS_URGENT co),
      pools := (pools w)(p \<mapsto> ?cp)\<rparr>"
  have run: "cp_return c w = cp_wake p ?w2"
    using co plain sc cp(1) by (simp add: cp_return_def Let_def seq_Done [where m = "cidmap_delete s (cid co)", OF d(1)])
  have ok: "pool_ok ?cp n (c # xs)" using pool_ok_give [OF cp(2) co(2) cp(3)] .
  have fd: "waiter_fd ?w2 = waiter_fd w" by (rule waiter_fd_cong) simp
  show thesis
  proof (cases ys)
    case Nil
    then have "cp_wake p ?w2 = Done () ?w2" using ys by (intro cp_wake_none [where cp = ?cp]) simp_all
    with run d(2,3) ok ys(1) Nil show thesis by (intro that [of ?cp ht]) (simp_all add: woken_def)
  next
    case (Cons y zs)
    define w2 where "w2 = ?w2"
    have "pools w2 p = Some ?cp" "chain (lnodes w2) (cp_sublist ?cp) (y # zs)" "fds w2 (waiter_fd w2 y) = Some (EventFd 0)"
      unfolding w2_def fd using ys [unfolded Cons] by (simp_all del: chain.simps)
    from cp_wake_run [OF this] obtain nd :: notifylist where
      "cp_wake p w2 = Done () (w2\<lparr>fds := (fds w2)(waiter_fd w2 y \<mapsto> EventFd 1), pools := (pools w2)(p \<mapsto> ?cp\<lparr>cp_sublist := nl_next nd\<rparr>)\<rparr>)"
      "chain (lnodes w2) (nl_next nd) zs" by blast
    with run d(2,3) ok Cons show thesis unfolding w2_def fd
      by (intro that [of "?cp\<lparr>cp_sublist := nl_next nd\<rparr>" ht]) (simp_all add: woken_def)
  qed
qed

section \<open>Taking a coroutine\<close>

lemma obtain_status_bits:
  "testb b (co'\<lparr>co_status := obtain_status co isasym\<rparr>) =
    (b \<in> {COROUTINE_STATUS_NEW, COROUTINE_STATUS_READY, COROUTINE_FLAGS_INCOROPOOL} \<or>
      b = COROUTINE_FLAGS_ASYMMETRIC \<and> isasym \<or>
      b \<in> {COROUTINE_FLAGS_OWNSTACK, COROUTINE_FLAGS_ALLOCSTACKMEM} \<and> testb b co)"
  by (cases b) (simp_all add: testb_def obtain_status_def Let_def TESTBIT_bit BIT_def SETBIT_def bit_simps)

text \<open>Where a coroutine taken from a pool is queued: an asymmetric one nowhere.\<close>

definition enqueued :: "bool \<Rightarrow> bool \<Rightarrow> addr \<Rightarrow> (qid \<Rightarrow> addr list) \<Rightarrow> qid \<Rightarrow> addr list" where
  "enqueued isasym isurgent c q =
    (if isasym then q else if isurgent then q(QUrgent := q QUrgent @ [c]) else q(QReady := q QReady @ [c]))"

text \<open>
  What \<open>cp_obtain\<close> makes of a coroutine: it has the given function, argument, scheduler and identifier,
  keeps its pool and its stack, and has only the flags of a new member.
\<close>

definition handed_out :: "nat \<Rightarrow> addr \<Rightarrow> addr \<Rightarrow> i32 \<Rightarrow> bool \<Rightarrow> bool \<Rightarrow> dyco_coroutine \<Rightarrow> dyco_coroutine \<Rightarrow> bool" where
  "handed_out f a s k isasym isurgent co co' =
    (co_func co' = f \<and> co_arg co' = a \<and> co_sched co' = s \<and> cid co' = k \<and> co_cpool co' = co_cpool co \<and>
     co_stack co' = co_stack co \<and> co_stack_size co' = co_stack_size co \<and>
     (\<forall>b. testb b co' = (b \<in> {COROUTINE_STATUS_NEW, COROUTINE_STATUS_READY, COROUTINE_FLAGS_INCOROPOOL} \<or>
      b = COROUTINE_FLAGS_ASYMMETRIC \<and> isasym \<or> b = COROUTINE_FLAGS_URGENT \<and> isurgent \<and> \<not> isasym \<or>
      b \<in> {COROUTINE_FLAGS_OWNSTACK, COROUTINE_FLAGS_ALLOCSTACKMEM} \<and> testb b co)))"

lemma cp_obtain_run:
  assumes f: "f \<noteq> 0" and s: "sched_key w = s" "scheds w s = Some sc" "ht_wf (cid_co_map sc)" and m: "plenty (heap w)"
    and k: "k = make_cid (sched_id sc) (next_gen (cid_gen sc))" "key_ok k"
    and cp: "pools w p = Some cp" "pool_ok cp n (c # xs)" and co: "cos w c = Some co"
    and q: "tq_both (queues sc) q" "\<And>i. c \<notin> set (q i)"
  obtains w' sc' cp' co' where "cp_obtain p f a t isasym isurgent w = Done (sint k) w'"
    "scheds w' = (scheds w)(s \<mapsto> sc')" "pools w' = (pools w)(p \<mapsto> cp')" "cos w' = (cos w)(c \<mapsto> co')"
    "fds w' = fds w" "lnodes w' = lnodes w"
    "pool_ok cp' (Suc n) xs" "cp_sublist cp' = cp_sublist cp"
    "handed_out f a s k isasym isurgent co co'"
    "ht_wf (cid_co_map sc')" "ht_abs (cid_co_map sc') = (ht_abs (cid_co_map sc))(k \<mapsto> c)"
    "tq_both (queues sc') (enqueued isasym isurgent c q)" "coro_count sc' = coro_count sc + 1"
    "fd_co_map sc' = fd_co_map sc" "sleeping sc' = sleeping sc"
proof -
  note take = pool_ok_take [OF cp(2)]
  let ?cp = "cp\<lparr>freelist := SLIST_REMOVE_HEAD (freelist cp), activenum := activenum cp + 1\<rparr>"
  let ?co = "co\<lparr>co_func := f, co_arg := a, co_status := obtain_status co isasym, sched_count := 0,
      sleep_usecs := 0, co_udata := NULL, co_epollfd := - 1, co_sigfd := - 1\<rparr>"
  let ?w1 = "w\<lparr>pools := (pools w)(p \<mapsto> ?cp), cos := (cos w)(c \<mapsto> ?co)\<rparr>"
  have p1: "scheds ?w1 s = Some sc" "cos ?w1 c = Some ?co" "plenty (heap ?w1)" using s m by simp_all
  from register_coro_run [OF p1(1) s(3) p1(2,3) k] obtain r ht h where
    reg: "register_coro s c ?w1 = Done r (?w1\<lparr>cos := (cos ?w1)(c \<mapsto> ?co\<lparr>co_sched := s, cid := k\<rparr>), heap := h,
         scheds := (scheds ?w1)(s \<mapsto> sc\<lparr>cid_gen := next_gen (cid_gen sc), cid_co_map := ht\<rparr>)\<rparr>)"
    "ht_wf ht" "ht_abs ht = (ht_abs (cid_co_map sc))(k \<mapsto> c)" by blast
  have wait: "cp_wait p t w = Done (1 + int (length xs)) w"
    using cp pool_ok_available [OF cp(2)] by (simp add: cp_wait_def)
  let ?co2 = "?co\<lparr>co_sched := s, cid := k\<rparr>"
  let ?co3 = "if isurgent \<and> \<not> isasym then setb COROUTINE_FLAGS_URGENT ?co2 else ?co2"
  let ?sc2 = "sc\<lparr>cid_gen := next_gen (cid_gen sc), cid_co_map := ht, coro_count := coro_count sc + 1\<rparr>"
  let ?sc3 = "if isasym then ?sc2 else reopen (?sc2\<lparr>queues := TAILQ_INSERT_TAIL (if isurgent then QUrgent else QReady) c (queues sc)\<rparr>)"
  let ?w' = "w\<lparr>pools := (pools w)(p \<mapsto> ?cp), cos := (cos w)(c \<mapsto> ?co3), heap := h, scheds := (scheds w)(s \<mapsto> ?sc3)\<rparr>"
  have run: "cp_obtain p f a t isasym isurgent w = Done (sint k) ?w'"
    unfolding cp_obtain_def using f s take(2,3) cp co reg(1)
    by (simp add: bind_Done [where m = "cp_wait p t", OF wait] seq_Done [where m = "register_coro s c", OF reg(1)] Let_def queue_push_def split del: if_split)
      (auto simp: queue_push_def)
  have qs: "tq_both (TAILQ_INSERT_TAIL i c (queues sc)) (q(i := q i @ [c]))" for i
    by (rule tailq.push_law [OF q(1)]) (use q(2) take(3) in simp_all)
  show thesis
    by (rule that [of ?w' ?sc3 ?cp ?co3]; (rule run)?)
      (use q(1) qs reg(2,3) take(1) in \<open>auto simp: reopen_def enqueued_def handed_out_def obtain_status_bits\<close>)
qed

section \<open>Filling a pool\<close>

text \<open>What every member of a pool looks like before its first use.\<close>

definition pool_member :: "addr \<Rightarrow> nat \<Rightarrow> bool \<Rightarrow> dyco_coroutine \<Rightarrow> bool" where
  "pool_member p stacksize isasym co =
    (co_cpool co = p \<and> (\<forall>b. testb b co = (b \<in> {COROUTINE_STATUS_NEW, COROUTINE_STATUS_READY, COROUTINE_FLAGS_INCOROPOOL} \<or>
      b = COROUTINE_FLAGS_ASYMMETRIC \<and> isasym \<or> b \<in> {COROUTINE_FLAGS_OWNSTACK, COROUTINE_FLAGS_ALLOCSTACKMEM} \<and> 0 < stacksize)))"

definition free_rep :: "world \<Rightarrow> addr \<Rightarrow> addr list \<Rightarrow> bool" where
  "free_rep w p xs = (case pools w p of None \<Rightarrow> False
     | Some cp \<Rightarrow> sl_rep (sle_next (freelist cp)) (slh_first (freelist cp)) xs \<and> (\<forall>x \<in> set xs. x \<le> nalloc (heap w)))"

lemma setstack_run:
  assumes "cos w c = Some co" "c \<noteq> NULL" "testb COROUTINE_STATUS_NEW co" "plenty (heap w)" "\<not> testb COROUTINE_FLAGS_OWNSTACK co" "\<not> testb COROUTINE_FLAGS_ALLOCSTACKMEM co"
  obtains r w' co' where "coro_setstack c NULL stacksize w = Done r w'" "cos w' = (cos w)(c \<mapsto> co')" "co_cpool co' = co_cpool co"
    "\<And>b. testb b co' = (testb b co \<or> b \<in> {COROUTINE_FLAGS_OWNSTACK, COROUTINE_FLAGS_ALLOCSTACKMEM} \<and> 0 < stacksize)"
    "pools w' = pools w" "scheds w' = scheds w" "sched_key w' = sched_key w \<and> key_made w' = key_made w" "plenty (heap w')" "nalloc (heap w) \<le> nalloc (heap w')"
proof (cases "stacksize = 0")
  case True
  let ?co = "clrb COROUTINE_FLAGS_OWNSTACK (co\<lparr>co_stack := NULL, co_stack_size := 0\<rparr>)"
  have "coro_setstack c NULL stacksize w = Done 0 (w\<lparr>cos := (cos w)(c \<mapsto> ?co)\<rparr>)"
    using assms True by (simp add: coro_setstack_def)
  then show thesis by (rule that [of _ _ ?co]) (use assms True in auto)
next
  case False
  let ?n = "stacksize + stacksize mod pagesize (environ w)"
  let ?p = "Suc (nalloc (heap w))"
  let ?w1 = "w\<lparr>heap := (heap w)\<lparr>nalloc := ?p\<rparr>, bytes := (bytes w)(?p \<mapsto> replicate ?n 0)\<rparr>"
  let ?co = "setb COROUTINE_FLAGS_ALLOCSTACKMEM (setb COROUTINE_FLAGS_OWNSTACK (co\<lparr>co_stack_size := ?n, co_stack := ?p\<rparr>))"
  have "coro_setstack c NULL stacksize w = Done 1 (?w1\<lparr>cos := (cos w)(c \<mapsto> ?co)\<rparr>)"
    using assms False by (simp add: coro_setstack_def Let_def bind_Done [where m = "alloc _ _", OF alloc_plenty])
  then show thesis by (rule that [of _ _ ?co]) (use assms False in auto)
qed

lemma member_stack:
  assumes "cos w c = Some co" "c \<noteq> NULL" "pool_member p 0 isasym (setb COROUTINE_FLAGS_INCOROPOOL (co\<lparr>co_cpool := p\<rparr>))" "plenty (heap w)"
    "\<not> testb COROUTINE_FLAGS_INCOROPOOL co"
  obtains w' co' where "seq (whenM (isasym \<or> stacksize > 0) (seq (coro_setstack c NULL stacksize) (ret ()))) m w = m w'" "cos w' = (cos w)(c \<mapsto> co')"
    "pool_member p stacksize isasym (setb COROUTINE_FLAGS_INCOROPOOL (co'\<lparr>co_cpool := p\<rparr>))"
    "pools w' = pools w" "scheds w' = scheds w" "sched_key w' = sched_key w \<and> key_made w' = key_made w" "plenty (heap w')" "nalloc (heap w) \<le> nalloc (heap w')"
proof (cases "isasym \<or> stacksize > 0")
  case True
  have bit: "testb b co = (b \<in> {COROUTINE_STATUS_NEW, COROUTINE_STATUS_READY} \<or> b = COROUTINE_FLAGS_ASYMMETRIC \<and> isasym)" for b
    using assms(3,5) by (auto simp: pool_member_def)
  from setstack_run [of w c co stacksize] assms(1,2,4) obtain r w' co' where
    s: "coro_setstack c NULL stacksize w = Done r w'" "cos w' = (cos w)(c \<mapsto> co')" "co_cpool co' = co_cpool co"
    "\<And>b. testb b co' = (testb b co \<or> b \<in> {COROUTINE_FLAGS_OWNSTACK, COROUTINE_FLAGS_ALLOCSTACKMEM} \<and> 0 < stacksize)"
    "pools w' = pools w" "scheds w' = scheds w" "sched_key w' = sched_key w \<and> key_made w' = key_made w" "plenty (heap w')" "nalloc (heap w) \<le> nalloc (heap w')"
    by (auto simp: bit)
  show thesis
    by (rule that [OF _ s(2) _ s(5-9)])
      (use True s(4) in \<open>auto simp: pool_member_def bit seq_Done [where m = "coro_setstack c NULL stacksize", OF s(1)]\<close>)
next
  case False
  then show thesis using assms by (intro that [of w co]) auto
qed

lemma cp_add_member_run:
  assumes w: "key_made w" "sched_key w \<noteq> NULL" "plenty (heap w)" and p: "free_rep w p xs"
  obtains w' c co where "cp_add_member p stacksize isasym w = Done () w'" "free_rep w' p (c # xs)" "nalloc (heap w) < c"
    "cos w' = (cos w)(c \<mapsto> co)" "pool_member p stacksize isasym co" "scheds w' = scheds w" "sched_key w' = sched_key w \<and> key_made w' = key_made w" "plenty (heap w')"
    "nalloc (heap w) \<le> nalloc (heap w')"
proof -
  let ?c = "Suc (nalloc (heap w))"
  let ?co = "zero_coroutine\<lparr>co_status := new_status, co_epollfd := - 1, co_sigfd := - 1\<rparr>"
  let ?co1 = "if isasym then setb COROUTINE_FLAGS_ASYMMETRIC ?co else ?co"
  define w1 where "w1 = w\<lparr>heap := (heap w)\<lparr>nalloc := ?c\<rparr>, cos := (cos w)(?c \<mapsto> ?co1)\<rparr>"
  from p obtain cp where cp: "pools w p = Some cp" "sl_rep (sle_next (freelist cp)) (slh_first (freelist cp)) xs"
    "\<forall>x \<in> set xs. x \<le> nalloc (heap w)" by (auto simp: free_rep_def split: option.splits)
  define rest where "rest = seq (cp_set p (\<lambda>cp. cp\<lparr>freelist := SLIST_INSERT_HEAD ?c (freelist cp)\<rparr>))
       (seq (co_set ?c (setb COROUTINE_FLAGS_INCOROPOOL)) (co_set ?c (co_cpool_update (\<lambda>_. p))))"
  have "cos w1 ?c = Some ?co1" "plenty (heap w1)" "pool_member p 0 isasym (setb COROUTINE_FLAGS_INCOROPOOL (?co1\<lparr>co_cpool := p\<rparr>))"
    "\<not> testb COROUTINE_FLAGS_INCOROPOOL ?co1" using w by (auto simp: w1_def pool_member_def)
  from member_stack [OF this(1) _ this(3,2,4), of stacksize rest] obtain w2 co2 where
    s: "seq (whenM (isasym \<or> stacksize > 0) (seq (coro_setstack ?c NULL stacksize) (ret ()))) rest w1 = rest w2" "cos w2 = (cos w1)(?c \<mapsto> co2)"
    "pool_member p stacksize isasym (setb COROUTINE_FLAGS_INCOROPOOL (co2\<lparr>co_cpool := p\<rparr>))"
    "pools w2 = pools w1" "scheds w2 = scheds w1" "sched_key w2 = sched_key w1 \<and> key_made w2 = key_made w1" "plenty (heap w2)" "nalloc (heap w1) \<le> nalloc (heap w2)" by auto
  let ?co3 = "(setb COROUTINE_FLAGS_INCOROPOOL co2)\<lparr>co_cpool := p\<rparr>"
  let ?cp = "cp\<lparr>freelist := SLIST_INSERT_HEAD ?c (freelist cp)\<rparr>"
  let ?w3 = "w2\<lparr>pools := (pools w2)(p \<mapsto> ?cp), cos := (cos w2)(?c \<mapsto> ?co3)\<rparr>"
  have "cp_add_member p stacksize isasym w = rest w2"
    using s(1) newcoro_run [OF w] unfolding cp_add_member_def
    by (cases "stacksize = 0"; cases isasym)
      (simp_all add: bind_Done [where m = newcoro, OF newcoro_run [OF w]] rest_def [symmetric] w1_def)
  moreover have "rest w2 = Done () ?w3" using s(2,4) cp(1) by (simp add: rest_def w1_def)
  moreover have "?c \<notin> set xs" using cp(3) by auto
  from SLIST_INSERT_HEAD_rep [OF cp(2) _ this]
  have "sl_rep (sle_next (freelist ?cp)) (slh_first (freelist ?cp)) (?c # xs)" by (simp del: sl_rep.simps)
  then have "free_rep ?w3 p (?c # xs)" using s(8) cp(3) by (auto simp: free_rep_def w1_def simp del: sl_rep.simps)
  moreover have "pool_member p stacksize isasym ?co3" using s(3) by (simp add: pool_member_def)
  ultimately show thesis by (intro that [of ?w3 ?c ?co3]) (use s in \<open>simp_all add: w1_def\<close>)
qed

lemma fill_pool:
  assumes "key_made w" "sched_key w \<noteq> NULL" "plenty (heap w)" "free_rep w p xs"
  shows "\<exists>w' ys. repeatM n (cp_add_member p stacksize isasym) w = Done () w' \<and> free_rep w' p (ys @ xs) \<and> length ys = n \<and>
    (\<forall>y \<in> set ys. nalloc (heap w) < y \<and> (\<exists>co. cos w' y = Some co \<and> pool_member p stacksize isasym co)) \<and>
    (\<forall>c. c \<notin> set ys \<longrightarrow> cos w' c = cos w c) \<and> scheds w' = scheds w"
  using assms
proof (induction n arbitrary: w xs)
  case 0
  then show ?case by (intro exI [of _ w] exI [of _ "[]"]) simp
next
  case (Suc n)
  from cp_add_member_run [OF Suc.prems, of stacksize isasym] obtain w1 c co where
    s: "cp_add_member p stacksize isasym w = Done () w1" "free_rep w1 p (c # xs)" "nalloc (heap w) < c"
    "cos w1 = (cos w)(c \<mapsto> co)" "pool_member p stacksize isasym co" "scheds w1 = scheds w" "sched_key w1 = sched_key w \<and> key_made w1 = key_made w" "plenty (heap w1)"
    "nalloc (heap w) \<le> nalloc (heap w1)" by blast
  have "key_made w1" "sched_key w1 \<noteq> NULL" using s(7) Suc.prems(1,2) by simp_all
  from Suc.IH [OF this s(8,2)] obtain w' ys where
    r: "repeatM n (cp_add_member p stacksize isasym) w1 = Done () w'" "free_rep w' p (ys @ c # xs)" "length ys = n"
    "\<forall>y \<in> set ys. nalloc (heap w1) < y \<and> (\<exists>co. cos w' y = Some co \<and> pool_member p stacksize isasym co)"
    "\<forall>c. c \<notin> set ys \<longrightarrow> cos w' c = cos w1 c" "scheds w' = scheds w1" by blast
  have "c \<le> nalloc (heap w1)" using s(2) by (auto simp: free_rep_def split: option.splits)
  then have "c \<notin> set ys" using r(4) by auto
  then have c: "cos w' c = Some co" using r(5) s(4) by simp
  show ?case
    by (intro exI [of _ w'] exI [of _ "ys @ [c]"])
      (use r s c in \<open>auto simp: seq_Done [where m = "cp_add_member p stacksize isasym", OF s(1)] intro: le_less_trans\<close>)
qed

section \<open>Shrinking a pool\<close>

lemma drop_member_run:
  assumes "pools w p = Some cp" "sl_rep (sle_next (freelist cp)) (slh_first (freelist cp)) (x # xs)"
    "cos w x = Some co" "key_ok (cid co)" "sched_key w = s" "s \<noteq> NULL" "scheds w s = Some sc" "ht_wf (cid_co_map sc)"
    "ht_abs (cid_co_map sc) (cid co) = None"
  shows "cp_drop_member p False w = Done () (w\<lparr>pools := (pools w)(p \<mapsto> cp\<lparr>freelist := SLIST_REMOVE_HEAD (freelist cp)\<rparr>)\<rparr>)"
proof -
  let ?w = "w\<lparr>pools := (pools w)(p \<mapsto> cp\<lparr>freelist := SLIST_REMOVE_HEAD (freelist cp)\<rparr>)\<rparr>"
  have "cidmap_find s (cid co) ?w = Done NULL ?w"
    using cidmap_find_run [of ?w s sc "cid co"] assms(4,7-9) by simp
  with assms(1-3,5,6) show ?thesis
    by (simp add: cp_drop_member_def SLIST_FIRST_def Let_def dyco_asymcoro_free_def bind_Done [where m = "cidmap_find s (cid co)"])
qed

text \<open>The coroutines of a free list are not registered: \<open>cp_return\<close> took their identifiers out of the map.\<close>

definition unregistered :: "world \<Rightarrow> dyco_schedule \<Rightarrow> addr \<Rightarrow> bool" where
  "unregistered w sc x = (case cos w x of None \<Rightarrow> False | Some co \<Rightarrow> key_ok (cid co) \<and> ht_abs (cid_co_map sc) (cid co) = None)"

lemma drop_members_run:
  assumes "pools w p = Some cp" "sl_rep (sle_next (freelist cp)) (slh_first (freelist cp)) xs" "k \<le> length xs"
    "\<forall>x \<in> set xs. unregistered w sc x" "sched_key w = s" "s \<noteq> NULL" "scheds w s = Some sc" "ht_wf (cid_co_map sc)"
  shows "\<exists>cp'. repeatM k (cp_drop_member p False) w = Done () (w\<lparr>pools := (pools w)(p \<mapsto> cp')\<rparr>) \<and>
    sl_rep (sle_next (freelist cp')) (slh_first (freelist cp')) (drop k xs) \<and>
    activenum cp' = activenum cp \<and> cp_sublist cp' = cp_sublist cp \<and> cp_stacksize cp' = cp_stacksize cp"
  using assms
proof (induction k arbitrary: w cp xs)
  case 0
  then show ?case by (intro exI [of _ cp]) (simp add: fun_upd_idem)
next
  case (Suc k)
  from Suc.prems(3) obtain x ys where xs: "xs = x # ys" by (cases xs) auto
  from Suc.prems(4) xs obtain co where co: "cos w x = Some co" "key_ok (cid co)" "ht_abs (cid_co_map sc) (cid co) = None"
    by (auto simp: unregistered_def split: option.splits)
  let ?cp = "cp\<lparr>freelist := SLIST_REMOVE_HEAD (freelist cp)\<rparr>"
  let ?w = "w\<lparr>pools := (pools w)(p \<mapsto> ?cp)\<rparr>"
  have d: "cp_drop_member p False w = Done () ?w"
    by (rule drop_member_run [OF Suc.prems(1) Suc.prems(2) [unfolded xs] co(1,2) Suc.prems(5-8) co(3)])
  have "sl_rep (sle_next (freelist ?cp)) (slh_first (freelist ?cp)) ys"
    using SLIST_REMOVE_HEAD_rep [OF Suc.prems(2) [unfolded xs]] by simp
  then have "\<exists>cp'. repeatM k (cp_drop_member p False) ?w = Done () (?w\<lparr>pools := (pools ?w)(p \<mapsto> cp')\<rparr>) \<and>
    sl_rep (sle_next (freelist cp')) (slh_first (freelist cp')) (drop k ys) \<and>
    activenum cp' = activenum ?cp \<and> cp_sublist cp' = cp_sublist ?cp \<and> cp_stacksize cp' = cp_stacksize ?cp"
    by (intro Suc.IH) (use Suc.prems xs in \<open>simp_all add: unregistered_def\<close>)
  then show ?case using xs by (simp add: seq_Done [where m = "cp_drop_member p False", OF d] del: fun_upd_apply)
qed

section \<open>Properties of pools\<close>

text \<open>
  Creation. With enough memory, \<^verbatim>\<open>cp_create\<close> of a positive size returns a new pool with that many free
  coroutines and none in use; every one of them is a new coroutine object that points back to the
  pool, is marked as a member, owns a stack exactly if a size was given, and is asymmetric exactly if the pool
  is. Coroutines that existed before and the scheduler are as they were: nothing is registered or queued yet.
\<close>

theorem pool_create_correct:
  assumes "0 < n" and "key_made w" and "sched_key w \<noteq> NULL" and "plenty (heap w)"
  shows "\<exists>w' cp xs. cp_create n stacksize isasym w = Done (Suc (nalloc (heap w))) w' \<and> pools w' (Suc (nalloc (heap w))) = Some cp \<and>
    pool_ok cp 0 xs \<and> int (length xs) = n \<and> cp_sublist cp = NULL \<and> cp_stacksize cp = stacksize \<and>
    (\<forall>x \<in> set xs. nalloc (heap w) < x \<and> (\<exists>co. cos w' x = Some co \<and> pool_member (Suc (nalloc (heap w))) stacksize isasym co)) \<and>
    (\<forall>c. c \<notin> set xs \<longrightarrow> cos w' c = cos w c) \<and> scheds w' = scheds w"
proof -
  let ?p = "Suc (nalloc (heap w))"
  let ?cp = "\<lparr>totalsize = 0, activenum = 0, cp_stacksize = 0, cp_sublist = NULL, freelist = \<lparr>slh_first = NULL, sle_next = \<lambda>_. NULL\<rparr>\<rparr>"
  define w1 where "w1 = w\<lparr>heap := (heap w)\<lparr>nalloc := ?p\<rparr>, pools := (pools w)(?p \<mapsto> ?cp)\<rparr>"
  have "key_made w1" "sched_key w1 \<noteq> NULL" "plenty (heap w1)" "free_rep w1 ?p []" using assms by (simp_all add: w1_def free_rep_def)
  from fill_pool [OF this, of "nat n" stacksize isasym] obtain w2 ys where
    r: "repeatM (nat n) (cp_add_member ?p stacksize isasym) w1 = Done () w2" "free_rep w2 ?p ys" "length ys = nat n"
    "\<forall>y \<in> set ys. nalloc (heap w1) < y \<and> (\<exists>co. cos w2 y = Some co \<and> pool_member ?p stacksize isasym co)"
    "\<forall>c. c \<notin> set ys \<longrightarrow> cos w2 c = cos w1 c" "scheds w2 = scheds w1" by auto
  from r(2) obtain cp where cp: "pools w2 ?p = Some cp" "sl_rep (sle_next (freelist cp)) (slh_first (freelist cp)) ys"
    by (auto simp: free_rep_def split: option.splits)
  let ?cp' = "cp\<lparr>totalsize := n, activenum := 0, cp_stacksize := stacksize, cp_sublist := NULL\<rparr>"
  let ?w' = "w2\<lparr>pools := (pools w2)(?p \<mapsto> ?cp')\<rparr>"
  have "cp_create n stacksize isasym w = Done ?p ?w'"
    using assms(1) cp(1) unfolding cp_create_def
    by (simp add: bind_Done [where m = "alloc _ _", OF alloc_plenty [OF assms(4)]] SLIST_INIT_def
        w1_def [symmetric] seq_Done [where m = "repeatM (nat n) _", OF r(1)])
  moreover have "pool_ok ?cp' 0 ys" using cp(2) r(3) assms(1) by (simp add: pool_ok_def)
  ultimately show ?thesis using r(3-6) assms(1)
    by (intro exI [of _ ?w'] exI [of _ ?cp'] exI [of _ ys]) (auto simp: w1_def)
qed

theorem pool_create_correct_witness:
  "\<exists>w' cp. cp_create 3 0 True (world0 Map.empty zero_schedule) = Done 101 w' \<and> pools w' 101 = Some cp \<and> dyco_coropool_available cp = 3"
proof -
  let ?w = "world0 Map.empty zero_schedule"
  have n: "Suc (nalloc (heap ?w)) = 101" by simp
  have "0 < (3::int)" "key_made ?w" "sched_key ?w \<noteq> NULL" "plenty (heap ?w)" by (simp_all add: plenty_def)
  from pool_create_correct [OF this, of 0 True, unfolded n] show ?thesis by (metis pool_ok_available)
qed

text \<open>
  C27: a returned coroutine and its successor. Let a coroutine \<open>c\<close> of a pool be in use, registered with a usable
  identifier and neither multiplexing nor waiting for a signal, and let \<open>ys\<close> be the waiters of the pool in
  the order in which they came. \<^verbatim>\<open>cp_return\<close> puts \<open>c\<close> at the head of the free list, takes its identifier out
  of the map, lowers both counts, raises the counter of the first waiter and leaves the others waiting.
  The next \<^verbatim>\<open>cp_obtain\<close>, with any time limit, returns at once: it hands out the same coroutine object under
  the scheduler's next identifier, with the new function and argument, its stack kept and all other flags
  reset, queued unless it is asymmetric. The result is that identifier as a signed number, negative exactly when bit 7 of the scheduler's number is set. The number in use and the length of the free list add up to the size
  throughout.
\<close>

theorem pool_return_obtain:
  assumes "cos w c = Some co" and "c \<noteq> NULL" and "co_cpool co = p" and "p \<noteq> NULL" and "co_sched co = s" and "key_ok (cid co)"
    and "\<not> testb COROUTINE_FLAGS_IOMULTIPLEXING co" and "\<not> testb COROUTINE_FLAGS_WAITSIGNAL co"
    and "scheds w s = Some sc" and "ht_wf (cid_co_map sc)" and "pools w p = Some cp" and "pool_ok cp (Suc n) xs" and "c \<notin> set xs"
    and "chain (lnodes w) (cp_sublist cp) ys" and "ys \<noteq> [] \<Longrightarrow> fds w (waiter_fd w (hd ys)) = Some (EventFd 0)"
    and "f \<noteq> 0" and "sched_key w = s" and "plenty (heap w)" and "k = make_cid (sched_id sc) (next_gen (cid_gen sc))" and "key_ok k"
    and "tq_both (queues sc) q" and "\<And>i. c \<notin> set (q i)"
  shows "\<exists>w1 sc1 cp1 w2 sc2 cp2 co2. cp_return c w = Done () w1 \<and> scheds w1 s = Some sc1 \<and> pools w1 p = Some cp1 \<and>
    pool_ok cp1 n (c # xs) \<and> chain (lnodes w1) (cp_sublist cp1) (tl ys) \<and> fds w1 = woken w ys \<and>
    ht_abs (cid_co_map sc1) = (ht_abs (cid_co_map sc))(cid co := None) \<and> coro_count sc1 = coro_count sc - 1 \<and>
    cp_obtain p f a t isasym isurgent w1 = Done (sint k) w2 \<and> (sint k < 0 \<longleftrightarrow> bit (sched_id sc) 7) \<and> scheds w2 s = Some sc2 \<and> pools w2 p = Some cp2 \<and>
    cos w2 = (cos w)(c \<mapsto> co2) \<and> pool_ok cp2 (Suc n) xs \<and> fds w2 = fds w1 \<and>
    handed_out f a s k isasym isurgent co co2 \<and>
    ht_abs (cid_co_map sc2) = (ht_abs (cid_co_map sc))(cid co := None, k \<mapsto> c) \<and>
    tq_both (queues sc2) (enqueued isasym isurgent c q) \<and> coro_count sc2 = coro_count sc"
proof -
  obtain ht cp1 where
    r: "cp_return c w = Done () (w\<lparr>scheds := (scheds w)(s \<mapsto> sc\<lparr>coro_count := coro_count sc - 1, cid_co_map := ht\<rparr>),
      cos := (cos w)(c \<mapsto> clrb COROUTINE_FLAGS_URGENT co), pools := (pools w)(p \<mapsto> cp1), fds := woken w ys\<rparr>)" (is "_ = Done () ?w1")
    "ht_wf ht" "ht_abs ht = (ht_abs (cid_co_map sc))(cid co := None)" "pool_ok cp1 n (c # xs)" "chain (lnodes w) (cp_sublist cp1) (tl ys)"
    by (rule cp_return_run [OF assms(1-15)]) (assumption, rule that, assumption+)
  let ?sc = "sc\<lparr>coro_count := coro_count sc - 1, cid_co_map := ht\<rparr>"
  let ?co = "clrb COROUTINE_FLAGS_URGENT co"
  define w1 where "w1 = ?w1"
  have p: "sched_key w1 = s" "scheds w1 s = Some ?sc" "ht_wf (cid_co_map ?sc)" "plenty (heap w1)"
    "k = make_cid (sched_id ?sc) (next_gen (cid_gen ?sc))" "pools w1 p = Some cp1" "cos w1 c = Some ?co" "tq_both (queues ?sc) q"
    using assms(17-21) r(2) by (simp_all add: w1_def)
  obtain w2 sc2 cp2 co2 where
    o: "cp_obtain p f a t isasym isurgent w1 = Done (sint k) w2"
    "scheds w2 = (scheds w1)(s \<mapsto> sc2)" "pools w2 = (pools w1)(p \<mapsto> cp2)" "cos w2 = (cos w1)(c \<mapsto> co2)" "fds w2 = fds w1"
    "pool_ok cp2 (Suc n) xs" "handed_out f a s k isasym isurgent ?co co2"
    "ht_abs (cid_co_map sc2) = (ht_abs (cid_co_map ?sc))(k \<mapsto> c)" "tq_both (queues sc2) (enqueued isasym isurgent c q)"
    "coro_count sc2 = coro_count ?sc + 1"
    by (rule cp_obtain_run [OF assms(16) p(1-5) assms(20) p(6) r(4) p(7,8) assms(22), of a t isasym isurgent]) (rule that, assumption+)
  have "cp_return c w = Done () w1" "chain (lnodes w1) (cp_sublist cp1) (tl ys)" "fds w1 = woken w ys" "cos w2 = (cos w)(c \<mapsto> co2)"
    using r o(4) by (simp_all add: w1_def)
  moreover have "handed_out f a s k isasym isurgent co co2" using o(7) by (auto simp: handed_out_def)
  moreover have "ht_abs (cid_co_map sc2) = (ht_abs (cid_co_map sc))(cid co := None, k \<mapsto> c)" "coro_count sc2 = coro_count sc"
    using o(8,10) r(3) by simp_all
  moreover have "sint k < 0 \<longleftrightarrow> bit (sched_id sc) 7" unfolding assms(19) by (rule make_cid_sign [OF next_gen_less])
  ultimately show ?thesis using r(3,4) o(1-3,5,6,9) p(2,6)
    by (intro exI [of _ w1] exI [of _ ?sc] exI [of _ cp1] exI [of _ w2] exI [of _ sc2] exI [of _ cp2] exI [of _ co2] conjI) simp_all
qed

definition co_pooled :: dyco_coroutine where
  "co_pooled = co0\<lparr>co_cpool := 20, cid := 5\<rparr>"

definition world_pool :: world where
  "world_pool = (world0 [7 \<mapsto> co_pooled, 8 \<mapsto> co_pooled\<lparr>cid := 4\<rparr>] (zero_schedule\<lparr>sched_id := 1, cid_co_map := htable2\<rparr>))\<lparr>
     pools := [20 \<mapsto> \<lparr>totalsize = 2, activenum = 1, cp_stacksize = 0, cp_sublist = 31, freelist = \<lparr>slh_first = 8, sle_next = \<lambda>_. NULL\<rparr>\<rparr>],
     lnodes := [31 \<mapsto> \<lparr>notifyfd = 6, nl_next = NULL\<rparr>]\<rparr>"

lemma world_pool_simps:
  "cos world_pool 7 = Some co_pooled" "cos world_pool 8 = Some (co_pooled\<lparr>cid := 4\<rparr>)"
  "scheds world_pool 1 = Some (zero_schedule\<lparr>sched_id := 1, cid_co_map := htable2\<rparr>)"
  "sched_key world_pool = 1" "plenty (heap world_pool)" "waiter_fd world_pool 31 = 6" "fds world_pool 6 = Some (EventFd 0)"
  "pools world_pool 20 = Some \<lparr>totalsize = 2, activenum = 1, cp_stacksize = 0, cp_sublist = 31, freelist = \<lparr>slh_first = 8, sle_next = \<lambda>_. NULL\<rparr>\<rparr>"
  "chain (lnodes world_pool) 31 [31]"
  by (simp_all add: world_pool_def plenty_def waiter_fd_def)

lemma co_pooled_bits [simp]: "\<not> testb b co_pooled"
  by (cases b) (simp_all add: co_pooled_def testb_def TESTBIT_def)

lemma co_pooled_fields [simp]: "co_cpool co_pooled = 20" "co_sched co_pooled = 1" "cid co_pooled = 5"
  by (simp_all add: co_pooled_def)

theorem pool_return_obtain_witness:
  "\<exists>w1 w2. cp_return 7 world_pool = Done () w1 \<and> fds w1 6 = Some (EventFd 1) \<and>
     cp_obtain 20 3 4 0 False True w1 = Done 0x1000001 w2 \<and> map_option cid (cos w2 7) = Some 0x1000001"
proof -
  let ?sc = "zero_schedule\<lparr>sched_id := 1, cid_co_map := htable2\<rparr>"
  let ?cp = "\<lparr>totalsize = 2, activenum = 1, cp_stacksize = 0, cp_sublist = 31, freelist = \<lparr>slh_first = 8, sle_next = \<lambda>_. NULL\<rparr>\<rparr>"
  have k: "0x1000001 = make_cid (sched_id ?sc) (next_gen (cid_gen ?sc))"
    by (simp add: make_cid_def zero_schedule_def push_bit_eq_mult)
  note W = world_pool_simps
  have q: "tq_both (queues ?sc) (\<lambda>_. [])" by (simp add: zero_schedule_def tq_both_def tq_rep_def)
  have p: "cos world_pool 7 = Some co_pooled" "7 \<noteq> NULL" "co_cpool co_pooled = 20" "20 \<noteq> NULL" "co_sched co_pooled = 1" "key_ok (cid co_pooled)"
    "\<not> testb COROUTINE_FLAGS_IOMULTIPLEXING co_pooled" "\<not> testb COROUTINE_FLAGS_WAITSIGNAL co_pooled"
    "scheds world_pool 1 = Some ?sc" "ht_wf (cid_co_map ?sc)" "pools world_pool 20 = Some ?cp" "pool_ok ?cp (Suc 0) [8]" "7 \<notin> set [8 :: addr]"
    "chain (lnodes world_pool) (cp_sublist ?cp) [31]" "fds world_pool (waiter_fd world_pool (hd [31])) = Some (EventFd 0)"
    "3 \<noteq> (0 :: nat)" "sched_key world_pool = 1" "plenty (heap world_pool)" "key_ok 0x1000001"
    using W by (simp_all only: dyco_coropool.simps list.sel) (simp_all add: key_ok_def pool_ok_def)
  from pool_return_obtain [OF p(1-18) k p(19) q, of 4 0 False True] show ?thesis
    by (auto simp: world_pool_simps woken_def handed_out_def simp del: fun_upd_apply chain.simps) (auto simp: fun_upd_apply)
qed

text \<open>
  Shrinking forgets the coroutines instead of freeing them. Let a symmetric pool shrink to a size that
  still covers the coroutines in use, its free coroutines having been in use before, so that their identifiers are
  no longer in the map. \<^verbatim>\<open>cp_resize\<close> drops as many of them from the free list as it should, and the counts add up
  again; but what it calls is \<^verbatim>\<open>dyco_asymcoro_free\<close> on identifiers that are not registered, so every coroutine
  object and every stack is still allocated, and the dropped ones are reachable from nowhere.
\<close>

theorem pool_shrink_leaks:
  assumes "pools w p = Some cp" and "p \<noteq> NULL" and "pool_ok cp n xs" and "int n \<le> newsize" and "newsize < totalsize cp"
    and "\<forall>x \<in> set xs. unregistered w sc x" and "sched_key w = s" and "s \<noteq> NULL" and "scheds w s = Some sc" and "ht_wf (cid_co_map sc)"
  shows "\<exists>w' cp'. dyco_coropool_resize p newsize w = Done p w' \<and> pools w' p = Some cp' \<and> totalsize cp' = newsize \<and>
    pool_ok cp' n (drop (length xs - nat (newsize - int n)) xs) \<and> cos w' = cos w \<and> bytes w' = bytes w \<and> scheds w' = scheds w"
proof -
  let ?k = "nat (totalsize cp - newsize)"
  have k: "?k \<le> length xs" "?k = length xs - nat (newsize - int n)" using assms(3-5) by (auto simp: pool_ok_def)
  have "sl_rep (sle_next (freelist cp)) (slh_first (freelist cp)) xs" "activenum cp \<le> newsize" using assms(3,4) by (simp_all add: pool_ok_def)
  from drop_members_run [OF assms(1) this(1) k(1) assms(6-10)] obtain cp' where
    r: "repeatM ?k (cp_drop_member p False) w = Done () (w\<lparr>pools := (pools w)(p \<mapsto> cp')\<rparr>)"
    "sl_rep (sle_next (freelist cp')) (slh_first (freelist cp')) (drop ?k xs)" "activenum cp' = activenum cp" by blast
  let ?cp = "cp'\<lparr>totalsize := newsize\<rparr>"
  have "dyco_coropool_resize p newsize w = Done p (w\<lparr>pools := (pools w)(p \<mapsto> ?cp)\<rparr>)"
    using assms(1,2,5) \<open>activenum cp \<le> newsize\<close>
    by (simp add: dyco_coropool_resize_def cp_resize_def seq_Done [where m = "repeatM ?k _", OF r(1)])
  moreover have "pool_ok ?cp n (drop ?k xs)" using r(2,3) assms(3-5) by (auto simp: pool_ok_def)
  ultimately show ?thesis unfolding k(2) by (intro exI [of _ "w\<lparr>pools := (pools w)(p \<mapsto> ?cp)\<rparr>"] exI [of _ ?cp]) simp
qed

theorem pool_shrink_leaks_witness:
  "\<exists>w' cp'. dyco_coropool_resize 20 1 world_pool = Done 20 w' \<and> pools w' 20 = Some cp' \<and> totalsize cp' = 1 \<and> cos w' = cos world_pool"
proof -
  let ?sc = "zero_schedule\<lparr>sched_id := 1, cid_co_map := htable2\<rparr>"
  let ?cp = "\<lparr>totalsize = 2, activenum = 1, cp_stacksize = 0, cp_sublist = 31, freelist = \<lparr>slh_first = 8, sle_next = \<lambda>_. NULL\<rparr>\<rparr>"
  note W = world_pool_simps
  have p: "20 \<noteq> NULL" "pool_ok ?cp 1 [8]" "int 1 \<le> 1" "1 < totalsize ?cp" "\<forall>x \<in> set [8]. unregistered world_pool ?sc x" "1 \<noteq> NULL" "ht_wf (cid_co_map ?sc)"
    by (simp_all add: pool_ok_def unregistered_def W(2) key_ok_def htable2_empty)
  from pool_shrink_leaks [OF W(8) p(1-5) W(4) p(6) W(3) p(7)] show ?thesis by blast
qed

end
