(* ===== verification/Dyco_Inv.thy ===== *)
theory Dyco_Inv
  imports Dyco_Run Dyco_Notify
begin

text \<open>
  Invariants under interleaving. A computation that switches context gives the other coroutines and
  the scheduler the chance to change the world; what can be relied on when it runs again is the
  invariant it left. \<open>outcome_ok I Q\<close> says that a computation restores the invariant \<open>I\<close> at
  every switch and, relying on nothing but \<open>I\<close> after each switch, ends with \<open>Q\<close>.

  The objects of the communication primitives (channels, semaphores, publish/subscribe channels, wait groups) and
  the bytes sent are touched by nobody else: \<open>detached\<close> computations keep every invariant about them. All functions of
  the scheduler, of the coroutines and of the pools are detached.
\<close>

named_theorems detached_intros \<open>computations that leave the objects of the communication primitives alone\<close>

section \<open>Invariants of computations\<close>

primrec outcome_ok :: "('s \<Rightarrow> bool) \<Rightarrow> ('a \<Rightarrow> 's \<Rightarrow> bool) \<Rightarrow> ('s, 'a) outcome \<Rightarrow> bool" where
  "outcome_ok I Q (Done a s) = Q a s"
| "outcome_ok I Q (Fault e) = True"
| "outcome_ok I Q (Swap f t s k) = (I s \<and> (\<forall>s'. I s' \<longrightarrow> outcome_ok I Q (k s')))"

definition stable :: "('s \<Rightarrow> bool) \<Rightarrow> ('s, 'a) comp \<Rightarrow> bool" where
  "stable I m = (\<forall>s. I s \<longrightarrow> outcome_ok I (\<lambda>_. I) (m s))"

lemma outcome_ok_mono: "outcome_ok I Q out \<Longrightarrow> (\<And>a s. Q a s \<Longrightarrow> Q' a s) \<Longrightarrow> outcome_ok I Q' out"
  by (induction out) auto

lemma outcome_ok_bind_out: "outcome_ok I (\<lambda>a s. outcome_ok I Q (k a s)) out \<Longrightarrow> outcome_ok I Q (bind_out out k)"
  by (induction out) auto

lemma outcome_ok_bind: "outcome_ok I (\<lambda>a s'. outcome_ok I Q (k a s')) (m s) \<Longrightarrow> outcome_ok I Q (bind m k s)"
  by (simp add: bind_def outcome_ok_bind_out)

lemma outcome_ok_seq: "outcome_ok I (\<lambda>_ s'. outcome_ok I Q (k s')) (m s) \<Longrightarrow> outcome_ok I Q (seq m k s)"
  by (simp add: seq_def outcome_ok_bind)

lemma stableD: "stable I m \<Longrightarrow> I s \<Longrightarrow> outcome_ok I (\<lambda>_. I) (m s)"
  by (simp add: stable_def)

lemma stable_bind: "stable I m \<Longrightarrow> (\<And>a. stable I (k a)) \<Longrightarrow> stable I (bind m k)"
  by (auto simp: stable_def intro!: outcome_ok_bind elim!: outcome_ok_mono)

lemma stable_then: "stable I m \<Longrightarrow> I s \<Longrightarrow> (\<And>a s'. I s' \<Longrightarrow> outcome_ok I Q (k a s')) \<Longrightarrow> outcome_ok I Q (bind m k s)"
  by (rule outcome_ok_bind, rule outcome_ok_mono [OF stableD]) auto

lemma stable_then_seq: "stable I m \<Longrightarrow> I s \<Longrightarrow> (\<And>s'. I s' \<Longrightarrow> outcome_ok I Q (k s')) \<Longrightarrow> outcome_ok I Q (seq m k s)"
  by (simp add: seq_def stable_then)

section \<open>The machine keeps invariants\<close>

text \<open>An invariant that does not look at the signal mask, which every switch changes.\<close>

definition mask_free :: "(world \<Rightarrow> bool) \<Rightarrow> bool" where
  "mask_free I = (\<forall>w m. I (w\<lparr>sigmask := m\<rparr>) = I w)"

lemma entry_ok:
  assumes "\<And>c. stable I (execute prog c)" "\<And>c. stable I (execute_asym prog c)" "entry prog w t = Some body" "I w'"
  shows "outcome_ok I (\<lambda>_. I) (body w')"
  using assms by (auto simp: entry_def split: slot.splits option.splits ctx_kind.splits intro!: stable_then_seq)

lemma machine_keeps:
  assumes "mask_free I" "\<And>c. stable I (execute prog c)" "\<And>c. stable I (execute_asym prog c)"
    "outcome_ok I (\<lambda>_. I) out" "\<And>t k w. ks t = Some k \<Longrightarrow> I w \<Longrightarrow> outcome_ok I (\<lambda>_. I) (k w)"
    "machine prog n ks out = Finished r w'"
  shows "I w'"
  using assms(4-6)
proof (induction n arbitrary: ks out)
  case 0
  then show ?case by (cases out) auto
next
  case (Suc n)
  show ?case
  proof (cases out)
    case (Swap f t w k)
    let ?ks = "save_context f k w ks"
    have w: "I w" and k: "\<And>s'. I s' \<Longrightarrow> outcome_ok I (\<lambda>_. I) (k s')" using Suc.prems(1) Swap by auto
    have ks: "outcome_ok I (\<lambda>_. I) (k' w'')" if "?ks t' = Some k'" "I w''" for t' k' w''
      using that k Suc.prems(2) assms(1) by (auto simp: save_context_def mask_free_def split: if_splits)
    show ?thesis
    proof (cases "entry prog w t")
      case None
      then obtain k' where k': "?ks t = Some k'" "machine prog n ?ks (k' w) = Finished r w'"
        using Suc.prems(3) Swap by (auto split: option.splits)
      show ?thesis by (rule Suc.IH [OF ks [OF k'(1) w] _ k'(2)]) (use ks in blast)
    next
      case (Some body)
      then have m: "machine prog n ?ks (body w) = Finished r w'" using Suc.prems(3) Swap by simp
      show ?thesis by (rule Suc.IH [OF entry_ok [OF assms(2,3) Some w] _ m]) (use ks in blast)
    qed
  qed (use Suc.prems in auto)
qed

section \<open>Detached computations\<close>

definition comm_view :: "world \<Rightarrow> (addr \<Rightarrow> dyco_channel option) \<times> (addr \<Rightarrow> dyco_semaphore option) \<times>
    (addr \<Rightarrow> dyco_pubsubchannel option) \<times> (addr \<Rightarrow> dyco_waitgroup option) \<times> (fd \<Rightarrow> byte list)" where
  "comm_view w = (chans w, sems w, psubs w, wgroups w, wire w)"

definition detached :: "'a M \<Rightarrow> bool" where
  "detached m = (\<forall>J. stable (\<lambda>w. J (comm_view w)) m)"

lemma detached_stable: "detached m \<Longrightarrow> stable (\<lambda>w. J (comm_view w)) m"
  by (simp add: detached_def)

lemma detached_ret [detached_intros]: "detached (ret a)" and detached_fail [detached_intros]: "detached (fail e)"
  and detached_fault [detached_intros]: "detached (\<lambda>_. Fault e)"
  and detached_asks [detached_intros]: "detached (asks f)" and detached_deref [detached_intros]: "detached (deref sel p)"
  by (auto simp: detached_def stable_def split: option.splits)

lemma detached_bind [detached_intros]: "detached m \<Longrightarrow> (\<And>a. detached (k a)) \<Longrightarrow> detached (bind m k)"
  by (simp add: detached_def stable_bind)

lemma detached_seq [detached_intros]: "detached m \<Longrightarrow> detached k \<Longrightarrow> detached (seq m k)"
  by (simp add: seq_def detached_bind)

lemma detached_if [detached_intros]: "(b \<Longrightarrow> detached m) \<Longrightarrow> (\<not> b \<Longrightarrow> detached k) \<Longrightarrow> detached (if b then m else k)"
  by simp

lemma detached_whenM [detached_intros]: "(b \<Longrightarrow> detached m) \<Longrightarrow> detached (whenM b m)"
  by (simp add: whenM_def detached_ret)

lemma detached_MUST [detached_intros]: "detached (DYCO_MUST b)" "detached (DYCO_MUSTNOT b)"
  by (auto simp: DYCO_MUST_def DYCO_MUSTNOT_def intro: detached_intros)

lemma detached_let [detached_intros]: "detached (f x) \<Longrightarrow> detached (let y = x in f y)"
  by simp

lemma detached_option [detached_intros]:
  "detached m \<Longrightarrow> (\<And>x. detached (k x)) \<Longrightarrow> detached (case y of None \<Rightarrow> m | Some x \<Rightarrow> k x)"
  by (simp split: option.split)

lemma detached_prod [detached_intros]: "(\<And>a b. detached (k a b)) \<Longrightarrow> detached (case y of (a, b) \<Rightarrow> k a b)"
  by (simp split: prod.split)

lemma detached_sum [detached_intros]:
  "(\<And>x. detached (f x)) \<Longrightarrow> (\<And>x. detached (g x)) \<Longrightarrow> detached (case y of Inl x \<Rightarrow> f x | Inr x \<Rightarrow> g x)"
  by (simp split: sum.split)

lemma detached_modify: "(\<And>w. comm_view (f w) = comm_view w) \<Longrightarrow> detached (modify f)"
  by (simp add: detached_def stable_def)

lemma detached_swapcontext [detached_intros]: "detached (swapcontext a b)"
  by (simp add: detached_def stable_def swapcontext_def)

lemma detached_consult [detached_intros]: "detached (consult f)"
  by (simp add: detached_def stable_def consult_def comm_view_def)

text \<open>Every update of a part of the world other than those in the view.\<close>

lemma detached_objects [detached_intros]:
  "detached (co_set p f)" "detached (assign scheds scheds_update p g)" "detached (assign bytes bytes_update p h)"
  "detached (assign pools pools_update p i)" "detached (assign lnodes lnodes_update p j)"
  "detached (dispose cos cos_update p)" "detached (dispose scheds scheds_update p)" "detached (dispose bytes bytes_update p)"
  "detached (dispose pools pools_update p)" "detached (dispose lnodes lnodes_update p)"
  "detached (alloc cos_update a)" "detached (alloc scheds_update b)" "detached (alloc bytes_update c)"
  "detached (alloc pools_update d)" "detached (alloc lnodes_update e)"
  by (auto simp: detached_def stable_def comm_view_def assign_def alloc_def split: option.splits prod.splits)

lemma detached_modifies [detached_intros]:
  "detached (modify (fds_update f))" "detached (modify (heap_update g))" "detached (modify (sigmask_update h))"
  "detached (set_sched i)" "detached sched_key_creator" "detached (modify (sched_id_gen_update j))" "detached (modify (waits_update k))"
  by (simp_all add: detached_modify comm_view_def set_sched_def sched_key_creator_def)

lemma detached_fdesc [detached_intros]:
  "(\<And>c. detached (e c)) \<Longrightarrow> (\<And>l. detached (p l)) \<Longrightarrow> detached s \<Longrightarrow> detached x \<Longrightarrow>
    detached (case d of EventFd c \<Rightarrow> e c | EpollFd l \<Rightarrow> p l | SignalFd \<Rightarrow> s | OtherFd \<Rightarrow> x)"
  by (simp split: fdesc.split)

section \<open>The library, the scheduler, the coroutines and the pools are detached\<close>

lemma detached_libc [detached_intros]:
  "detached get_sched" "detached usec_now" "detached (open_fd d)" "detached (close n)" "detached (eventfd_write n v)"
  "detached (eventfd_read n)" "detached (epoll_ctl_add ep n evs)" "detached (epoll_ctl_del ep n)"
  "detached (epoll_wait_f ep maxevents timeout)" "detached (poll1 n evs)" "detached (sigprocmask how sset)"
  unfolding get_sched_def usec_now_def open_fd_def close_def eventfd_write_def eventfd_read_def epoll_ctl_add_def epoll_ctl_del_def epoll_wait_f_def poll1_def sigprocmask_def
  by (intro detached_intros)+

lemma detached_open [detached_intros]:
  "detached (eventfd n)" "detached epoll_create"
  unfolding eventfd_def epoll_create_def
  by (intro detached_intros)+

lemma detached_sched1 [detached_intros]:
  "detached (sleep_tree s)" "detached (map_insert sel upd s k v)" "detached (map_delete sel upd s k)"
  "detached (map_find sel s k)" "detached (queue_push s q c)" "detached (push_ready s c)" "detached (init_map upd s)"
  "detached (clear_map sel upd s)"
  unfolding sleep_tree_def map_insert_def map_delete_def map_find_def queue_push_def push_ready_def init_map_def clear_map_def
  by (intro detached_intros)+

lemma detached_sched2 [detached_intros]:
  "detached (sleep_remove s c)" "detached (sleep_insert s c)" "detached (sleep_find s c)"
  unfolding sleep_remove_def sleep_insert_def sleep_find_def
  by (intro detached_intros)+


lemma detached_sleep_insert_loop [detached_intros]: "detached (sleep_insert_loop n s c)"
proof (induction n)
  case 0
  show ?case unfolding sleep_insert_loop.simps by (intro detached_intros)
next
  case (Suc m)
  show ?case unfolding sleep_insert_loop.simps by (intro detached_intros Suc)
qed

lemma detached_epoll_wait_retry [detached_intros]: "detached (epoll_wait_retry n e t)"
proof (induction n)
  case 0
  show ?case unfolding epoll_wait_retry.simps by (intro detached_intros)
next
  case (Suc m)
  show ?case unfolding epoll_wait_retry.simps by (intro detached_intros Suc)
qed

lemma detached_sched3 [detached_intros]:
  "detached (schedule_get_expired s)" "detached (schedule_min_timeout s)" "detached (sleep_set_timer s c msecs)"
  "detached (schedule_cancel_sleep c)" "detached (schedule_get_waitco s n)" "detached (schedule_cancel_wait c n)"
  "detached (schedule_sched_wait c n events)" "detached (epoll_wait_once ep)" "detached (schedule_stop s)"
  "detached (dyco_schedule_free s)" "detached (dyco_schedule_create stack_size loopwait)"
  unfolding schedule_get_expired_def schedule_min_timeout_def sleep_set_timer_def schedule_cancel_sleep_def
    schedule_get_waitco_def schedule_cancel_wait_def schedule_sched_wait_def epoll_wait_once_def schedule_stop_def
    dyco_schedule_free_def dyco_schedule_create_def
  by (intro detached_intros)+

lemma detached_sched4 [detached_intros]:
  "detached (schedule_sched_sleep c msecs)" "detached (schedule_sched_waitR c n)" "detached (schedule_sched_waitW c n)"
  "detached (schedule_sched_waitRW c n)" "detached (schedule_epoll_wait fuel s)"
  unfolding schedule_sched_sleep_def schedule_sched_waitR_def schedule_sched_waitW_def schedule_sched_waitRW_def
    schedule_epoll_wait_def
  by (intro detached_intros)+

lemma detached_coro1 [detached_intros]:
  "detached (realloc_stack c n)" "detached (loadstk c)" "detached (swap_to_sched c)" "detached (init_coro c)"
  "detached newcoro" "detached (freecoro c)" "detached (register_coro s c)" "detached current"
  "detached (lookup_cid k)" "detached (coro_setstack c stackptr stacksize)" "detached dyco_coroutine_coroID"
  unfolding realloc_stack_def loadstk_def swap_to_sched_def init_coro_def newcoro_def sched_key_once_def freecoro_def register_coro_def
    current_def lookup_cid_def coro_setstack_def dyco_coroutine_coroID_def
  by (intro detached_intros)+

lemma detached_coro2 [detached_intros]:
  "detached (savestk c)" "detached (checkstk c)" "detached (dyco_coroutine_create f a)"
  "detached (dyco_coroutine_create_urgent f a)" "detached dyco_coroutine_abort"
  "detached (dyco_coroutine_setStack k stackptr stacksize)"
  unfolding savestk_def checkstk_def dyco_coroutine_create_def dyco_coroutine_create_urgent_def dyco_coroutine_abort_def
    dyco_coroutine_setStack_def
  by (intro detached_intros)+

lemma detached_coro3 [detached_intros]:
  "detached (yield c)" "detached dyco_coroutine_checkStack" "detached (dyco_coroutine_setUdata k u)"
  "detached (dyco_coroutine_setUrgent k)" "detached (dyco_coroutine_unsetUrgent k)"
  unfolding yield_def dyco_coroutine_checkStack_def dyco_coroutine_setUdata_def dyco_coroutine_setUrgent_def
    dyco_coroutine_unsetUrgent_def
  by (intro detached_intros)+

lemma detached_coro4 [detached_intros]:
  "detached (waitev n events timeout)" "detached (dyco_coroutine_sleep msecs)"
  unfolding waitev_def dyco_coroutine_sleep_def
  by (intro detached_intros)+

lemma detached_coro5 [detached_intros]:
  "detached (dyco_coroutine_waitRead n timeout)" "detached (dyco_coroutine_waitWrite n timeout)"
  "detached (dyco_coroutine_waitRW n timeout)"
  unfolding dyco_coroutine_waitRead_def dyco_coroutine_waitWrite_def dyco_coroutine_waitRW_def
  by (intro detached_intros)+

lemma detached_asym [detached_intros]:
  "detached (init_asymcoro c)" "detached (dyco_asymcoro_create f a)"
  "detached (dyco_asymcoro_setStack k stackptr stacksize)" "detached dyco_asymcoroyield"
  "detached (dyco_asymcoro_free k)"
  unfolding init_asymcoro_def dyco_asymcoro_create_def dyco_asymcoro_setStack_def dyco_asymcoroyield_def
    dyco_asymcoro_free_def
  by (intro detached_intros)+

lemma detached_asym2 [detached_intros]:
  "detached (dyco_asymcororesume k)"
  unfolding dyco_asymcororesume_def
  by (intro detached_intros)+

lemma detached_chain_last [detached_intros]: "detached (chain_last n p)"
proof (induction n arbitrary: p)
  case 0
  show ?case unfolding chain_last.simps by (intro detached_intros)
next
  case (Suc m)
  show ?case unfolding chain_last.simps by (intro detached_intros Suc)
qed

lemma detached_chain_unlink [detached_intros]: "detached (chain_unlink n p q)"
proof (induction n arbitrary: p)
  case 0
  show ?case unfolding chain_unlink.simps by (intro detached_intros)
next
  case (Suc m)
  show ?case unfolding chain_unlink.simps by (intro detached_intros Suc)
qed

lemma detached_repeatM [detached_intros]:
  assumes "detached m"
  shows "detached (repeatM n m)"
proof (induction n)
  case 0
  show ?case unfolding repeatM.simps by (intro detached_intros assms)
next
  case (Suc m)
  show ?case unfolding repeatM.simps by (intro detached_intros assms Suc)
qed

lemma detached_pool1 [detached_intros]:
  "detached heap_size" "detached (get_coro_by_cid k)" "detached (cp_notify n)"
  "detached (cp_add_member p stacksize isasymmetric)"
  unfolding heap_size_def get_coro_by_cid_def cp_notify_def cp_add_member_def
  by (intro detached_intros)+

lemma detached_pool2 [detached_intros]:
  "detached (cp_enqueue p n)" "detached (cp_create tsize stacksize isasymmetric)" "detached (cp_wake p)"
  "detached (cp_drop_member p isasymmetric)"
  unfolding cp_enqueue_def cp_create_def cp_wake_def cp_drop_member_def
  by (intro detached_intros)+

lemma detached_pool3 [detached_intros]:
  "detached (cp_wait p timeout)" "detached (cp_resize p newsize isasymmetric)" "detached (cp_destroy p isasymmetric)"
  "detached (cp_return c)"
  unfolding cp_wait_def cp_resize_def cp_destroy_def cp_return_def
  by (intro detached_intros)+

lemma detached_pool4 [detached_intros]:
  "detached (cp_obtain p f a timeout isasymmetric isurgent)" "detached (dyco_coropool_return c)"
  "detached (dyco_asymcpool_return k)"
  unfolding cp_obtain_def dyco_coropool_return_def dyco_asymcpool_return_def
  by (intro detached_intros)+

lemma detached_park [detached_intros]:
  "detached list_fuel" "detached (park c n timeout)"
  unfolding list_fuel_def park_def
  by (intro detached_intros)+


text \<open>The table functions with callbacks, on the identifier map of a scheduler.\<close>

lemma detached_list [detached_intros]:
  "detached m \<Longrightarrow> (\<And>x xs. detached (k x xs)) \<Longrightarrow> detached (case l of [] \<Rightarrow> m | x # xs \<Rightarrow> k x xs)"
  by (simp split: list.split)

lemma detached_htab [detached_intros]:
  "detached m \<Longrightarrow> detached n \<Longrightarrow> (\<And>t. detached (k t)) \<Longrightarrow> detached (case x of TNull \<Rightarrow> m | TFreed \<Rightarrow> n | TBuckets t \<Rightarrow> k t)"
  by (simp split: htab.split)

lemma comm_view_cid_map_put [simp]: "comm_view (cid_map_put s ht w) = comm_view w"
  by (simp add: cid_map_put_def comm_view_def split: option.split)

lemma detached_cid_map_put [detached_intros]:
  "detached (modify (\<lambda>w. cid_map_put s (f w) w))" "detached (modify (cid_map_put s ht))"
  by (simp_all add: detached_modify)

lemma detached_clear_chain:
  assumes "(\<And>a. detached (cb a))"
  shows "detached (clear_chain_cb get (cid_map_put s) cb i n pre)"
proof (induction n arbitrary: pre)
  case 0
  show ?case unfolding clear_chain_cb.simps by (intro detached_intros assms)
next
  case (Suc m)
  show ?case unfolding clear_chain_cb.simps by (intro detached_intros assms Suc)
qed

lemma detached_clear_buckets:
  assumes "(\<And>a. detached (cb a))"
  shows "detached (clear_buckets_cb get (cid_map_put s) cb i n)"
proof (induction n arbitrary: i)
  case 0
  show ?case unfolding clear_buckets_cb.simps by (intro detached_intros assms)
next
  case (Suc m)
  show ?case unfolding clear_buckets_cb.simps by (intro detached_intros assms detached_clear_chain Suc)
qed

lemma detached_coro_abort [detached_intros]:
  "detached (coro_abort c)"
  unfolding coro_abort_def
  by (intro detached_intros)+

lemma detached_map_callbacks [detached_intros]:
  "detached (htable_clear_with_freecb (cid_map_of s) (cid_map_put s) coro_abort)"
  "detached (htable_delete_with_freecb (cid_map_of s) (cid_map_put s) coro_abort k)"
  unfolding htable_clear_with_freecb_def htable_delete_with_freecb_def
  by (intro detached_intros detached_clear_buckets)+

lemma detached_callnum [detached_intros]:
  "detached m \<Longrightarrow> detached n \<Longrightarrow> detached k \<Longrightarrow>
    detached (case c of CALLNUM_SIGPROCMASK \<Rightarrow> m | CALLNUM_SCHED_STOP \<Rightarrow> n | CALLNUM_SCHED_ABORT \<Rightarrow> k)"
  by (simp split: dyco_schedcall_num.split)

lemma detached_abort [detached_intros]:
  "detached (schedule_abort s)" "detached (dyco_schedcall_sigprocmask how sset)" "detached dyco_schedcall_stop"
  "detached dyco_schedcall_abort"
  unfolding schedule_abort_def dyco_schedcall_sigprocmask_def dyco_schedcall_stop_def dyco_schedcall_abort_def
  by (intro detached_intros)+

lemma detached_callexec [detached_intros]:
  "detached (schedule_callexec s)"
  unfolding schedule_callexec_def
  by (intro detached_intros)+

lemma detached_serve_calls [detached_intros]: "detached (serve_calls n s c)"
proof (induction n)
  case 0
  show ?case unfolding serve_calls.simps by (intro detached_intros)
next
  case (Suc m)
  show ?case unfolding serve_calls.simps by (intro detached_intros Suc)
qed

lemma detached_resume [detached_intros]:
  "detached (resume fuel c)"
  unfolding resume_def
  by (intro detached_intros)+

lemma detached_probe_expired [detached_intros]: "detached (probe_expired n s)"
proof (induction n)
  case 0
  show ?case unfolding probe_expired.simps by (intro detached_intros)
next
  case (Suc m)
  show ?case unfolding probe_expired.simps by (intro detached_intros Suc)
qed

lemma detached_process_queue [detached_intros]: "detached (process_queue fuel q k s l)"
proof (induction k)
  case 0
  show ?case unfolding process_queue.simps by (intro detached_intros)
next
  case (Suc m)
  show ?case unfolding process_queue.simps by (intro detached_intros Suc)
qed

lemma detached_process_events [detached_intros]: "detached (process_events l s)"
proof (induction l)
  case Nil
  show ?case unfolding process_events.simps by (intro detached_intros)
next
  case (Cons x xs)
  show ?case unfolding process_events.simps by (intro detached_intros Cons)
qed

lemma detached_schedule_loop [detached_intros]: "detached (schedule_loop n s)"
proof (induction n)
  case 0
  show ?case unfolding schedule_loop.simps by (intro detached_intros)
next
  case (Suc m)
  show ?case unfolding schedule_loop.simps by (intro detached_intros Suc)
qed

lemma detached_run [detached_intros]:
  "detached (dyco_schedule_run fuel)"
  unfolding dyco_schedule_run_def
  by (intro detached_intros)+

text \<open>The body of a coroutine keeps what the user's function keeps.\<close>

lemma stable_seq: "stable I m \<Longrightarrow> stable I k \<Longrightarrow> stable I (seq m k)"
  by (simp add: seq_def stable_bind)

lemma stable_execute:
  assumes "\<And>f a. stable (\<lambda>w. J (comm_view w)) (prog f a)"
  shows "stable (\<lambda>w. J (comm_view w)) (execute prog c)" "stable (\<lambda>w. J (comm_view w)) (execute_asym prog c)"
  unfolding execute_def execute_asym_def
  by (intro stable_seq stable_bind assms detached_stable detached_intros)+

lemma run_keeps:
  assumes "\<And>f a. stable (\<lambda>w. J (comm_view w)) (prog f a)" "J (comm_view w)"
    "machine prog n Map.empty (dyco_schedule_run fuel w) = Finished r w'"
  shows "J (comm_view w')"
proof (rule machine_keeps [where I = "\<lambda>w. J (comm_view w)", OF _ stable_execute [OF assms(1)] _ _ assms(3)])
  show "mask_free (\<lambda>w. J (comm_view w))" by (simp add: mask_free_def comm_view_def)
  show "outcome_ok (\<lambda>w. J (comm_view w)) (\<lambda>_ w. J (comm_view w)) (dyco_schedule_run fuel w)"
    using stableD [OF detached_stable [OF detached_run], of J] assms(2) by simp
qed simp

end
