(* ===== verification/Dyco_Semaphore.thy ===== *)
theory Dyco_Semaphore
  imports Dyco_Notify
begin

text \<open>
  Semaphores (\<^verbatim>\<open>src/dyco_semaphore.c\<close>): a value and a queue of waiters, each node with the event
  counter its coroutine waits for.
\<close>

abbreviation "sem_get \<equiv> deref sems"
abbreviation "sem_set \<equiv> assign sems sems_update"

definition DYCO_SEM_VALUE_MAX :: nat where "DYCO_SEM_VALUE_MAX = 0x7fffffff"

definition sem_notify :: "fd \<Rightarrow> u64 \<Rightarrow> unit M" where
  "sem_notify n v = bind (eventfd_write n v) (\<lambda>r. DYCO_MUST (r = 0))"

definition dyco_semaphore_create :: "nat \<Rightarrow> addr M" where
  "dyco_semaphore_create val =
    (if val > DYCO_SEM_VALUE_MAX then ret NULL
     else alloc sems_update \<lparr>semval = int val, wqueue = NULL, wtail = NULL\<rparr>)"

text \<open>The result is what is stored through the argument. The nodes of the waiters stay allocated.\<close>

definition dyco_semaphore_destroy :: "addr \<Rightarrow> addr M" where
  "dyco_semaphore_destroy p =
    (if p = NULL then ret p
     else
       bind (sem_get p) (\<lambda>sem.
       bind list_fuel (\<lambda>f.
       seq (each_node (\<lambda>n. sem_notify n 64) f (wqueue sem))
      (seq (dispose sems sems_update p)
           (ret NULL)))))"

text \<open>The end of the queue gets a new node.\<close>

definition sem_enqueue :: "addr \<Rightarrow> addr \<Rightarrow> unit M" where
  "sem_enqueue p wnode =
    bind (sem_get p) (\<lambda>sem.
      if wqueue sem = NULL then sem_set p (\<lambda>sem. sem\<lparr>wqueue := wnode, wtail := wnode\<rparr>)
      else seq (nd_set (wtail sem) (nl_next_update (\<lambda>_. wnode)))
               (sem_set p (\<lambda>sem. sem\<lparr>wtail := wnode\<rparr>)))"

text \<open>What the waiter does when it runs again: read the counter and close it. Its node is not touched.\<close>

definition sem_finish :: "fd \<Rightarrow> int M" where
  "sem_finish n =
    bind (eventfd_read n) (\<lambda>(r, count).
    seq (close n)
        (ret (if r = 0 \<and> count = 1 then 0 else - 1)))"

definition dyco_semaphore_wait :: "addr \<Rightarrow> int \<Rightarrow> int M" where
  "dyco_semaphore_wait p timeout =
    (if p = NULL then ret (- 1)
     else
       bind (sem_get p) (\<lambda>sem.
         if semval sem > 0 then seq (sem_set p (\<lambda>sem. sem\<lparr>semval := semval sem - 1\<rparr>)) (ret 0)
         else if timeout = 0
         then (if semval sem > 0 then seq (sem_set p (\<lambda>sem. sem\<lparr>semval := semval sem - 1\<rparr>)) (ret 0) else ret (- 1))
         else
           with_current (ret (- 1)) (\<lambda>c.
           bind (eventfd 0) (\<lambda>n.
           seq (DYCO_MUSTNOT (n = - 1))
          (bind (alloc lnodes_update \<lparr>notifyfd = n, nl_next = NULL\<rparr>) (\<lambda>wnode.
             if wnode = NULL then ret (- 1)
             else
               seq (sem_enqueue p wnode)
              (seq (park c n timeout)
                   (sem_finish n))))))))"

definition dyco_semaphore_signal :: "addr \<Rightarrow> int M" where
  "dyco_semaphore_signal p =
    (if p = NULL then ret (- 1)
     else
       bind (sem_get p) (\<lambda>sem.
         if semval sem = int DYCO_SEM_VALUE_MAX then ret (- 1)
         else if wqueue sem = NULL then seq (sem_set p (\<lambda>sem. sem\<lparr>semval := semval sem + 1\<rparr>)) (ret 0)
         else
           with_current (ret (- 1)) (\<lambda>c.
           let head = wqueue sem in
           seq (if wtail sem = wqueue sem
                then sem_set p (\<lambda>sem. sem\<lparr>wqueue := NULL, wtail := NULL\<rparr>)
                else bind (nd_get head) (\<lambda>x. sem_set p (\<lambda>sem. sem\<lparr>wqueue := nl_next x\<rparr>)))
          (bind (nd_get head) (\<lambda>x.
           seq (sem_notify (notifyfd x) 1)
          (seq (dispose lnodes lnodes_update head)
               (ret 0)))))))"

end
