(* ===== verification/Dyco_Channel.thy ===== *)
theory Dyco_Channel
  imports Dyco_Notify
begin

text \<open>
  Half-duplex channels (\<^verbatim>\<open>src/dyco_channel.c\<close>): one message buffer and a status that says whether it is
  full and who waits. A sender or receiver that has to wait does so on the event counter of its side.

  A caller's buffer is a list of bytes. \<open>dyco_channel_recv\<close> also returns what it writes to the caller's
  buffer, if anything.
\<close>

abbreviation "ch_get \<equiv> deref chans"
abbreviation "ch_set \<equiv> assign chans chans_update"

primrec hdc_no :: "half_duplex_channel_status \<Rightarrow> u64" where
  "hdc_no HDC_STATUS_NOP = 0"
| "hdc_no HDC_STATUS_EMPTY = 1"
| "hdc_no HDC_STATUS_FULL = 2"
| "hdc_no HDC_STATUS_WANTREAD = 3"
| "hdc_no HDC_STATUS_WANTWRITE = 4"
| "hdc_no HDC_STATUS_WANTCLOSE = 5"
| "hdc_no HDC_STATUS_CANCLOSE = 6"

definition hdc_notify :: "addr \<Rightarrow> fd \<Rightarrow> unit M" where
  "hdc_notify p n = bind (ch_get p) (\<lambda>ch. seq (eventfd_write n (hdc_no (ch_status ch))) (ret ()))"

text \<open>The result is the number of a status.\<close>

definition hdc_wait :: "addr \<Rightarrow> fd \<Rightarrow> int \<Rightarrow> u64 M" where
  "hdc_wait p n timeout =
    (let status = bind (ch_get p) (\<lambda>ch. ret (hdc_no (ch_status ch))) in
      if timeout = 0 then status
      else
        with_current status (\<lambda>c.
        bind (co_get c) (\<lambda>co.
        seq (DYCO_MUSTNOT (testb COROUTINE_FLAGS_ASYMMETRIC co))
       (seq (park c n timeout)
       (bind (eventfd_read n) (\<lambda>(r, count).
          ret (if r = 0 then count else hdc_no HDC_STATUS_NOP)))))))"

definition dyco_channel_create :: "nat \<Rightarrow> addr M" where
  "dyco_channel_create sz =
    bind (alloc chans_update \<lparr>ch_maxsize = 0, ch_msglen = 0, ch_msg = NULL, r_notifyfd = 0, w_notifyfd = 0,
           ch_status = HDC_STATUS_NOP\<rparr>) (\<lambda>p.
      if p = NULL then ret NULL
      else
        bind (eventfd 0) (\<lambda>r.
        seq (ch_set p (r_notifyfd_update (\<lambda>_. r)))
       (seq (DYCO_MUSTNOT (r = - 1))
       (bind (eventfd 0) (\<lambda>n.
        seq (ch_set p (w_notifyfd_update (\<lambda>_. n)))
       (seq (DYCO_MUSTNOT (n = - 1))
       (let maxsize = (if sz > 0 then sz else DYCO_DEFAULT_CHANNELSIZE) in
        seq (ch_set p (ch_maxsize_update (\<lambda>_. maxsize)))
       (bind (alloc bytes_update (replicate maxsize 0)) (\<lambda>m.
        seq (ch_set p (ch_msg_update (\<lambda>_. m)))
       (if m = NULL
        then seq (close r) (seq (close n) (seq (dispose chans chans_update p) (ret NULL)))
        else seq (ch_set p (\<lambda>ch. ch\<lparr>ch_msglen := 0, ch_status := HDC_STATUS_EMPTY\<rparr>)) (ret p)))))))))))"

text \<open>
  The condition \<^verbatim>\<open>channel->status = HDC_STATUS_WANTCLOSE\<close> is an assignment; its value is the number
  assigned. The result is what is stored through the argument.
\<close>

definition dyco_channel_destroy :: "addr \<Rightarrow> addr M" where
  "dyco_channel_destroy p =
    (if p = NULL then ret p
     else
       seq (ch_set p (ch_status_update (\<lambda>_. HDC_STATUS_WANTCLOSE)))
      (if hdc_no HDC_STATUS_WANTCLOSE \<noteq> 0 then ret p
       else
         bind (ch_get p) (\<lambda>ch.
         seq (if ch_status ch = HDC_STATUS_WANTREAD
              then seq (ch_set p (ch_status_update (\<lambda>_. HDC_STATUS_WANTCLOSE)))
                  (seq (hdc_notify p (r_notifyfd ch))
                  (seq (hdc_wait p (w_notifyfd ch) (- 1)) (ret ())))
              else if ch_status ch = HDC_STATUS_WANTWRITE
              then seq (ch_set p (ch_status_update (\<lambda>_. HDC_STATUS_WANTCLOSE)))
                  (seq (hdc_notify p (w_notifyfd ch))
                  (seq (hdc_wait p (r_notifyfd ch) (- 1)) (ret ())))
              else ret ())
        (bind (ch_get p) (\<lambda>ch.
         seq (close (r_notifyfd ch))
        (seq (close (w_notifyfd ch))
        (seq (dispose bytes bytes_update (ch_msg ch))
        (seq (dispose chans chans_update p)
             (ret NULL)))))))))"

text \<open>\<^verbatim>\<open>channel->msglen = size; memcpy(channel->msg, buf, size); channel->status = HDC_STATUS_FULL;\<close>\<close>

definition hdc_fill :: "addr \<Rightarrow> byte list \<Rightarrow> nat \<Rightarrow> unit M" where
  "hdc_fill p buf sz =
    seq (ch_set p (ch_msglen_update (\<lambda>_. sz)))
   (bind (ch_get p) (\<lambda>ch.
    bind (deref bytes (ch_msg ch)) (\<lambda>msg.
      if length buf < sz \<or> length msg < sz then fail BadAccess
      else
        seq (assign bytes bytes_update (ch_msg ch) (\<lambda>msg. take sz buf @ drop sz msg))
            (ch_set p (ch_status_update (\<lambda>_. HDC_STATUS_FULL))))))"

text \<open>\<^verbatim>\<open>ret = channel->msglen; memcpy(buf, channel->msg, ret); channel->status = HDC_STATUS_EMPTY;\<close>\<close>

definition hdc_drain :: "addr \<Rightarrow> nat \<Rightarrow> (int \<times> byte list option) M" where
  "hdc_drain p maxsize =
    bind (ch_get p) (\<lambda>ch.
    bind (deref bytes (ch_msg ch)) (\<lambda>msg.
      if length msg < ch_msglen ch \<or> maxsize < ch_msglen ch then fail BadAccess
      else
        seq (ch_set p (ch_status_update (\<lambda>_. HDC_STATUS_EMPTY)))
            (ret (int (ch_msglen ch), Some (take (ch_msglen ch) msg)))))"

text \<open>The inner \<^verbatim>\<open>switch\<close> of the sender after it has waited.\<close>

definition send_after_wait :: "addr \<Rightarrow> byte list \<Rightarrow> nat \<Rightarrow> int M" where
  "send_after_wait p buf sz =
    bind (ch_get p) (\<lambda>ch.
      case ch_status ch of
        HDC_STATUS_EMPTY \<Rightarrow> seq (hdc_fill p buf sz) (ret (int sz))
      | HDC_STATUS_FULL \<Rightarrow> ret (- 2)
      | HDC_STATUS_WANTREAD \<Rightarrow> seq (hdc_fill p buf sz) (seq (hdc_notify p (r_notifyfd ch)) (ret (int sz)))
      | HDC_STATUS_WANTWRITE \<Rightarrow> seq (ch_set p (ch_status_update (\<lambda>_. HDC_STATUS_FULL))) (ret 0)
      | HDC_STATUS_WANTCLOSE \<Rightarrow>
          seq (ch_set p (ch_status_update (\<lambda>_. HDC_STATUS_CANCLOSE))) (seq (hdc_notify p (r_notifyfd ch)) (ret (- 1)))
      | HDC_STATUS_NOP \<Rightarrow> ret (- 1)
      | HDC_STATUS_CANCLOSE \<Rightarrow> ret (- 1))"

definition dyco_channel_send :: "addr \<Rightarrow> byte list \<Rightarrow> nat \<Rightarrow> int \<Rightarrow> int M" where
  "dyco_channel_send p buf sz timeout =
    (if p = NULL then ret (- 2)
     else
       bind (ch_get p) (\<lambda>ch.
         if sz > ch_maxsize ch \<or> sz = 0 then ret (- 2)
         else
           (case ch_status ch of
              HDC_STATUS_EMPTY \<Rightarrow> seq (hdc_fill p buf sz) (ret (int sz))
            | HDC_STATUS_FULL \<Rightarrow>
                seq (ch_set p (ch_status_update (\<lambda>_. HDC_STATUS_WANTWRITE)))
               (seq (hdc_wait p (w_notifyfd ch) timeout)
                    (send_after_wait p buf sz))
            | HDC_STATUS_WANTREAD \<Rightarrow> seq (hdc_fill p buf sz) (seq (hdc_notify p (r_notifyfd ch)) (ret (int sz)))
            | HDC_STATUS_WANTWRITE \<Rightarrow> ret (- 2)
            | HDC_STATUS_WANTCLOSE \<Rightarrow> ret (- 1)
            | HDC_STATUS_NOP \<Rightarrow> ret (- 2)
            | HDC_STATUS_CANCLOSE \<Rightarrow> ret (- 2))))"

text \<open>The inner \<^verbatim>\<open>switch\<close> of the receiver after it has waited.\<close>

definition recv_after_wait :: "addr \<Rightarrow> nat \<Rightarrow> (int \<times> byte list option) M" where
  "recv_after_wait p maxsize =
    bind (ch_get p) (\<lambda>ch.
      case ch_status ch of
        HDC_STATUS_EMPTY \<Rightarrow> ret (- 2, None)
      | HDC_STATUS_FULL \<Rightarrow> hdc_drain p maxsize
      | HDC_STATUS_WANTREAD \<Rightarrow> seq (ch_set p (ch_status_update (\<lambda>_. HDC_STATUS_EMPTY))) (ret (0, None))
      | HDC_STATUS_WANTWRITE \<Rightarrow> bind (hdc_drain p maxsize) (\<lambda>r. seq (hdc_notify p (w_notifyfd ch)) (ret r))
      | HDC_STATUS_WANTCLOSE \<Rightarrow>
          seq (ch_set p (ch_status_update (\<lambda>_. HDC_STATUS_CANCLOSE))) (seq (hdc_notify p (w_notifyfd ch)) (ret (- 1, None)))
      | HDC_STATUS_NOP \<Rightarrow> ret (- 1, None)
      | HDC_STATUS_CANCLOSE \<Rightarrow> ret (- 1, None))"

definition dyco_channel_recv :: "addr \<Rightarrow> nat \<Rightarrow> int \<Rightarrow> (int \<times> byte list option) M" where
  "dyco_channel_recv p maxsize timeout =
    (if p = NULL then ret (- 2, None)
     else
       bind (ch_get p) (\<lambda>ch.
         if maxsize < ch_maxsize ch then ret (- 2, None)
         else
           (case ch_status ch of
              HDC_STATUS_EMPTY \<Rightarrow>
                seq (ch_set p (ch_status_update (\<lambda>_. HDC_STATUS_WANTREAD)))
               (seq (hdc_wait p (r_notifyfd ch) timeout)
                    (recv_after_wait p maxsize))
            | HDC_STATUS_FULL \<Rightarrow> hdc_drain p maxsize
            | HDC_STATUS_WANTREAD \<Rightarrow> ret (- 2, None)
            | HDC_STATUS_WANTWRITE \<Rightarrow> bind (hdc_drain p maxsize) (\<lambda>r. seq (hdc_notify p (w_notifyfd ch)) (ret r))
            | HDC_STATUS_WANTCLOSE \<Rightarrow> ret (- 1, None)
            | HDC_STATUS_NOP \<Rightarrow> ret (- 2, None)
            | HDC_STATUS_CANCLOSE \<Rightarrow> ret (- 2, None))))"

end
