(* ===== verification/Dyco_Pubsub.thy ===== *)
theory Dyco_Pubsub
  imports Dyco_Notify
begin

text \<open>
  Publish/subscribe channels (\<^verbatim>\<open>src/dyco_pubsub.c\<close>): subscribers queue up on a list of event counters; a
  publisher stores its message, notifies all of them and waits until the last one has acknowledged.

  The numbers of subscribers and of missing acknowledgements are \<^verbatim>\<open>size_t\<close> and wrap around. A status
  that travels through an event counter is a number (\<open>psc_no\<close>).
\<close>

abbreviation "ps_get \<equiv> deref psubs"
abbreviation "ps_set \<equiv> assign psubs psubs_update"

primrec psc_no :: "dyco_pubsub_channel_status \<Rightarrow> u64" where
  "psc_no PSC_STATUS_NOP = 0"
| "psc_no PSC_STATUS_EMPTY = 1"
| "psc_no PSC_STATUS_TRANS = 2"
| "psc_no PSC_STATUS_CLOSE = 3"

definition psc_subnotify :: "addr \<Rightarrow> unit M" where
  "psc_subnotify p =
    bind (ps_get p) (\<lambda>ps.
    bind list_fuel (\<lambda>f.
    seq (each_node (\<lambda>n. seq (eventfd_write n (psc_no (ps_status ps))) (ret ())) f (ps_sublist ps))
        (ps_set p (\<lambda>ps. ps\<lparr>ack_rem := sub_num ps\<rparr>))))"

definition psc_pubnotify :: "addr \<Rightarrow> unit M" where
  "psc_pubnotify p =
    bind (ps_get p) (\<lambda>ps. bind (eventfd_write (pub_notifyfd ps) (psc_no (ps_status ps))) (\<lambda>r. DYCO_MUST (r = 0)))"

text \<open>The subscriber takes its node off the list, wherever it is.\<close>

definition psc_leave :: "addr \<Rightarrow> fd \<Rightarrow> unit M" where
  "psc_leave p n =
    seq (ps_set p (\<lambda>ps. ps\<lparr>sub_num := sub_num ps - 1\<rparr>))
   (bind (ps_get p) (\<lambda>ps.
    let pre = ps_sublist ps in
    bind (nd_get pre) (\<lambda>x.
      if notifyfd x = n
      then seq (ps_set p (\<lambda>ps. ps\<lparr>ps_sublist := nl_next x\<rparr>))
          (seq (close (notifyfd x))
               (dispose lnodes lnodes_update pre))
      else bind list_fuel (\<lambda>f. unsubscribe f pre (nl_next x) n))))"

text \<open>The subscriber after the wait: read the counter, leave the list, acknowledge.\<close>

definition psc_acknowledge :: "addr \<Rightarrow> fd \<Rightarrow> u64 M" where
  "psc_acknowledge p n =
    bind (eventfd_read n) (\<lambda>(r, count).
    seq (psc_leave p n)
   (if r = 0
    then seq (ps_set p (\<lambda>ps. ps\<lparr>ack_rem := ack_rem ps - 1\<rparr>))
        (bind (ps_get p) (\<lambda>ps. ret (if ack_rem ps = 0 then psc_no PSC_STATUS_EMPTY else count)))
    else ret (psc_no PSC_STATUS_NOP)))"

definition psc_subwait :: "addr \<Rightarrow> int \<Rightarrow> u64 M" where
  "psc_subwait p timeout =
    (let status = bind (ps_get p) (\<lambda>ps. ret (psc_no (ps_status ps))) in
      if timeout = 0 then status
      else
        with_current status (\<lambda>c.
        bind (eventfd 0) (\<lambda>n.
        seq (DYCO_MUSTNOT (n = - 1))
       (bind (ps_get p) (\<lambda>ps.
        bind (alloc lnodes_update \<lparr>notifyfd = n, nl_next = ps_sublist ps\<rparr>) (\<lambda>subnode.
        seq (DYCO_MUSTNOT (subnode = NULL))
       (seq (ps_set p (\<lambda>ps. ps\<lparr>ps_sublist := subnode, sub_num := sub_num ps + 1\<rparr>))
       (seq (park c n timeout)
            (psc_acknowledge p n)))))))))"

definition psc_pubwait :: "addr \<Rightarrow> int \<Rightarrow> u64 M" where
  "psc_pubwait p timeout =
    (let status = bind (ps_get p) (\<lambda>ps. ret (psc_no (ps_status ps))) in
      if timeout = 0 then status
      else
        with_current status (\<lambda>c.
        bind (eventfd 0) (\<lambda>n.
        seq (ps_set p (\<lambda>ps. ps\<lparr>pub_notifyfd := n\<rparr>))
       (seq (DYCO_MUSTNOT (n = - 1))
       (seq (schedule_sched_waitR c n)
       (seq (schedule_sched_sleep c timeout)
       (seq (yield c)
       (seq (schedule_cancel_sleep c)
       (bind (ps_get p) (\<lambda>ps.
        seq (schedule_cancel_wait c (pub_notifyfd ps))
       (bind (eventfd_read (pub_notifyfd ps)) (\<lambda>(r, count).
        seq (close (pub_notifyfd ps))
            (ret (if r = 0 then count else psc_no PSC_STATUS_NOP))))))))))))))"

definition dyco_pubsub_create :: "nat \<Rightarrow> addr M" where
  "dyco_pubsub_create sz =
    bind (alloc psubs_update \<lparr>ps_maxsize = (if sz > 0 then sz else DYCO_DEFAULT_CHANNELSIZE), ps_msglen = 0, ps_msg = NULL,
           pub_notifyfd = - 1, sub_num = 0, ack_rem = 0, ps_sublist = NULL, ps_status = PSC_STATUS_EMPTY\<rparr>) (\<lambda>p.
      if p = NULL then ret NULL
      else
        bind (ps_get p) (\<lambda>ps.
        bind (alloc bytes_update (replicate (ps_maxsize ps) 0)) (\<lambda>m.
        seq (ps_set p (\<lambda>ps. ps\<lparr>ps_msg := m\<rparr>))
       (if m = NULL then seq (dispose psubs psubs_update p) (ret NULL) else ret p))))"

text \<open>The result is what is stored through the argument.\<close>

definition dyco_pubsub_destroy :: "addr \<Rightarrow> addr M" where
  "dyco_pubsub_destroy p =
    (if p = NULL then ret p
     else
       bind (ps_get p) (\<lambda>ps.
       seq (whenM (sub_num ps \<noteq> 0)
             (seq (ps_set p (\<lambda>ps. ps\<lparr>ps_status := PSC_STATUS_CLOSE\<rparr>))
             (seq (psc_subnotify p)
             (seq (psc_pubwait p (- 1)) (ret ())))))
      (bind (ps_get p) (\<lambda>ps.
       seq (dispose bytes bytes_update (ps_msg ps))
      (seq (dispose psubs psubs_update p)
           (ret NULL))))))"

definition dyco_pubsub_publish :: "addr \<Rightarrow> byte list \<Rightarrow> nat \<Rightarrow> int M" where
  "dyco_pubsub_publish p buf sz =
    (if p = NULL then ret (- 2)
     else
       bind (ps_get p) (\<lambda>ps.
         if ps_status ps \<noteq> PSC_STATUS_EMPTY \<or> sz > ps_maxsize ps \<or> sz = 0 then ret (- 2)
         else if sub_num ps = 0 then ret 0
         else
           seq (ps_set p (\<lambda>ps. ps\<lparr>ps_msglen := sz\<rparr>))
          (bind (deref bytes (ps_msg ps)) (\<lambda>msg.
             if length buf < sz \<or> length msg < sz then fail BadAccess
             else
               seq (assign bytes bytes_update (ps_msg ps) (\<lambda>msg. take sz buf @ drop sz msg))
              (seq (ps_set p (\<lambda>ps. ps\<lparr>ps_status := PSC_STATUS_TRANS\<rparr>))
              (seq (psc_subnotify p)
              (seq (psc_pubwait p (- 1))
              (seq (ps_set p (\<lambda>ps. ps\<lparr>ps_status := PSC_STATUS_EMPTY\<rparr>))
                   (ret (int sz))))))))))"

text \<open>\<^verbatim>\<open>ret = ps_chan->msglen; memcpy(buf, ps_chan->msg, ret);\<close>\<close>

definition psc_copy :: "addr \<Rightarrow> nat \<Rightarrow> (int \<times> byte list option) M" where
  "psc_copy p maxsize =
    bind (ps_get p) (\<lambda>ps.
    bind (deref bytes (ps_msg ps)) (\<lambda>msg.
      if length msg < ps_msglen ps \<or> maxsize < ps_msglen ps then fail BadAccess
      else ret (int (ps_msglen ps), Some (take (ps_msglen ps) msg))))"

text \<open>The inner \<^verbatim>\<open>switch\<close> of the subscriber.\<close>

definition psc_result :: "addr \<Rightarrow> nat \<Rightarrow> u64 \<Rightarrow> (int \<times> byte list option) M" where
  "psc_result p maxsize status =
    (if status = psc_no PSC_STATUS_EMPTY
     then bind (psc_copy p maxsize) (\<lambda>r. seq (psc_pubnotify p) (ret r))
     else if status = psc_no PSC_STATUS_TRANS then psc_copy p maxsize
     else if status = psc_no PSC_STATUS_CLOSE then ret (- 1, None)
     else ret (- 2, None))"

definition dyco_pubsub_subscribe :: "addr \<Rightarrow> nat \<Rightarrow> int \<Rightarrow> (int \<times> byte list option) M" where
  "dyco_pubsub_subscribe p maxsize timeout =
    (if p = NULL then ret (- 2, None)
     else
       bind (ps_get p) (\<lambda>ps.
         if maxsize < ps_maxsize ps then ret (- 2, None)
         else if ps_status ps = PSC_STATUS_EMPTY \<or> ps_status ps = PSC_STATUS_TRANS
         then bind (psc_subwait p timeout) (psc_result p maxsize)
         else ret (- 1, None)))"

end
