(* ===== verification/Dyco_Waitgroup.thy ===== *)
theory Dyco_Waitgroup
  imports Dyco_Notify
begin

text \<open>
  Wait groups (\<^verbatim>\<open>src/dyco_waitgroup.c\<close>): a set of coroutine identifiers, the number of members that have
  finished, and two kinds of subscriptions: for a given number of finished members (a table of lists) and for all.
  Both counters are 32-bit integers that wrap around (in C their overflow is undefined).
\<close>

abbreviation "wg_get \<equiv> deref wgroups"
abbreviation "wg_set \<equiv> assign wgroups wgroups_update"

text \<open>\<^verbatim>\<open>(eventfd_t)finished_num\<close>: the sign is extended.\<close>

definition wg_notify :: "fd \<Rightarrow> i32 \<Rightarrow> unit M" where
  "wg_notify n finished_num = bind (eventfd_write n (scast finished_num)) (\<lambda>r. DYCO_MUST (r = 0))"

fun sublist_free :: "nat \<Rightarrow> addr \<Rightarrow> unit M" where
  "sublist_free 0 p = fail NoFuel"
| "sublist_free (Suc k) p =
    (if p = NULL then ret ()
     else bind (nd_get p) (\<lambda>x.
       seq (close (notifyfd x))
      (seq (dispose lnodes lnodes_update p)
           (sublist_free k (nl_next x)))))"

definition wgsublist_free :: "addr \<Rightarrow> unit M" where
  "wgsublist_free head = bind list_fuel (\<lambda>f. sublist_free f head)"

text \<open>\<^verbatim>\<open>while ((suggest_size >> width) != 0) ++width;\<close>\<close>

function width_loop :: "nat \<Rightarrow> nat \<Rightarrow> nat" where
  "width_loop sz width = (if drop_bit width sz \<noteq> 0 then width_loop sz (Suc width) else width)"
  by auto

termination width_loop
proof (relation "measure (\<lambda>(sz, width). sz div 2 ^ width)")
  fix sz width :: nat assume "drop_bit width sz \<noteq> 0"
  then have "0 < sz div 2 ^ width" by (simp add: drop_bit_eq_div)
  then have "sz div 2 ^ width div 2 < sz div 2 ^ width" by simp
  then show "((sz, Suc width), (sz, width)) \<in> measure (\<lambda>(sz, width). sz div 2 ^ width)"
    by (simp add: div_mult2_eq mult.commute [of 2])
qed simp

definition wg_width :: "int \<Rightarrow> int" where
  "wg_width suggest_size =
    (if suggest_size \<le> 0 then DYCO_HTABLE_DEFAULTWITDH
     else if suggest_size > 65536 then DYCO_HTABLE_MAXWITDH
     else int (width_loop (nat suggest_size) 1))"

definition wg_htable_init ::
  "((dyco_htable \<Rightarrow> dyco_htable) \<Rightarrow> dyco_waitgroup \<Rightarrow> dyco_waitgroup) \<Rightarrow> addr \<Rightarrow> int \<Rightarrow> unit M" where
  "wg_htable_init upd p width =
    bind (asks heap) (\<lambda>h.
      case htable_init width h of (_, ht, h') \<Rightarrow>
        seq (modify (heap_update (\<lambda>_. h'))) (wg_set p (upd (\<lambda>_. ht))))"

definition wg_htable_insert ::
  "(dyco_waitgroup \<Rightarrow> dyco_htable) \<Rightarrow> ((dyco_htable \<Rightarrow> dyco_htable) \<Rightarrow> dyco_waitgroup \<Rightarrow> dyco_waitgroup) \<Rightarrow> addr \<Rightarrow> i32 \<Rightarrow> addr \<Rightarrow> int M" where
  "wg_htable_insert sel upd p k v =
    bind (wg_get p) (\<lambda>wg. bind (asks heap) (\<lambda>h.
      case htable_insert (sel wg) k v h of
        None \<Rightarrow> fail BadAccess
      | Some (r, ht, h') \<Rightarrow> seq (modify (heap_update (\<lambda>_. h'))) (seq (wg_set p (upd (\<lambda>_. ht))) (ret r))))"

definition wg_target_find :: "addr \<Rightarrow> i32 \<Rightarrow> addr M" where
  "wg_target_find p k =
    bind (wg_get p) (\<lambda>wg. case htable_find (target_sublist_map wg) k of None \<Rightarrow> fail BadAccess | Some v \<Rightarrow> ret v)"

definition wg_target_delete :: "addr \<Rightarrow> i32 \<Rightarrow> unit M" where
  "wg_target_delete p k =
    bind (wg_get p) (\<lambda>wg.
      case htable_delete (target_sublist_map wg) k of
        None \<Rightarrow> fail BadAccess
      | Some (_, _, ht) \<Rightarrow> wg_set p (\<lambda>wg. wg\<lparr>target_sublist_map := ht\<rparr>))"

definition dyco_waitgroup_create :: "int \<Rightarrow> addr M" where
  "dyco_waitgroup_create suggest_size =
    bind (alloc wgroups_update \<lparr>tot_size = 0, finished = 0, cid_set = zero_htable, target_sublist_map = zero_htable,
           final_sublist = NULL\<rparr>) (\<lambda>p.
      if p = NULL then ret NULL
      else
        seq (wg_htable_init cid_set_update p (wg_width suggest_size))
       (seq (wg_htable_init target_sublist_map_update p (wg_width suggest_size))
       (seq (wg_set p (\<lambda>wg. wg\<lparr>final_sublist := NULL\<rparr>))
            (ret p))))"

text \<open>The table of subscriptions as a place the callback-driven clearing works on.\<close>

definition target_map_of :: "addr \<Rightarrow> world \<Rightarrow> dyco_htable" where
  "target_map_of p w = (case wgroups w p of Some wg \<Rightarrow> target_sublist_map wg | None \<Rightarrow> zero_htable)"

definition target_map_put :: "addr \<Rightarrow> dyco_htable \<Rightarrow> world \<Rightarrow> world" where
  "target_map_put p ht w =
    (case wgroups w p of Some wg \<Rightarrow> w\<lparr>wgroups := (wgroups w)(p \<mapsto> wg\<lparr>target_sublist_map := ht\<rparr>)\<rparr> | None \<Rightarrow> w)"

definition dyco_waitgroup_destroy :: "addr \<Rightarrow> addr M" where
  "dyco_waitgroup_destroy p =
    (if p = NULL then ret p
     else
       bind (wg_get p) (\<lambda>wg.
       seq (wgsublist_free (final_sublist wg))
      (seq (htable_clear_with_freecb (target_map_of p) (target_map_put p) wgsublist_free)
      (bind (wg_get p) (\<lambda>wg.
         case htable_clear (cid_set wg) of
           None \<Rightarrow> fail BadAccess
         | Some ht \<Rightarrow>
             seq (wg_set p (\<lambda>wg. wg\<lparr>cid_set := ht\<rparr>))
            (seq (dispose wgroups wgroups_update p)
                 (ret NULL)))))))"

definition dyco_waitgroup_add :: "addr \<Rightarrow> i32 \<Rightarrow> int M" where
  "dyco_waitgroup_add p k =
    (if p = NULL then ret (- 1)
     else
       bind (wg_htable_insert cid_set cid_set_update p k NULL) (\<lambda>r.
         if r \<noteq> 1 then ret 0
         else seq (wg_set p (\<lambda>wg. wg\<lparr>tot_size := tot_size wg + 1\<rparr>)) (ret 1)))"

definition dyco_waitgroup_done :: "addr \<Rightarrow> int M" where
  "dyco_waitgroup_done p =
    (if p = NULL then ret (- 1)
     else
       with_current (ret (- 1)) (\<lambda>c.
       bind (wg_get p) (\<lambda>wg.
       bind (co_get c) (\<lambda>co.
         case htable_contains (cid_set wg) (cid co) of
           None \<Rightarrow> fail BadAccess
         | Some r \<Rightarrow>
             if r \<noteq> 1 then ret 0
             else
               seq (wg_set p (\<lambda>wg. wg\<lparr>finished := finished wg + 1\<rparr>))
              (bind (wg_get p) (\<lambda>wg.
               bind (wg_target_find p (finished wg)) (\<lambda>tslist.
               bind list_fuel (\<lambda>f.
               seq (each_node (\<lambda>n. wg_notify n (finished wg)) f tslist)
              (seq (whenM (finished wg = tot_size wg)
                     (each_node (\<lambda>n. wg_notify n (finished wg)) f (final_sublist wg)))
                   (ret 1))))))))))"

text \<open>The waiter takes its node off the list of subscriptions for all members.\<close>

definition wg_final_leave :: "addr \<Rightarrow> fd \<Rightarrow> unit M" where
  "wg_final_leave p n =
    bind (wg_get p) (\<lambda>wg.
    let pre = final_sublist wg in
    bind (nd_get pre) (\<lambda>x.
      if notifyfd x = n
      then seq (wg_set p (\<lambda>wg. wg\<lparr>final_sublist := nl_next x\<rparr>))
          (seq (close (notifyfd x))
               (dispose lnodes lnodes_update pre))
      else bind list_fuel (\<lambda>f. unsubscribe f pre (nl_next x) n)))"

text \<open>The same for the list of a target.\<close>

definition wg_target_leave :: "addr \<Rightarrow> i32 \<Rightarrow> fd \<Rightarrow> unit M" where
  "wg_target_leave p target n =
    bind (wg_target_find p target) (\<lambda>pre.
    bind (nd_get pre) (\<lambda>x.
      if notifyfd x = n
      then seq (if nl_next x \<noteq> NULL
                then seq (wg_htable_insert target_sublist_map target_sublist_map_update p target (nl_next x)) (ret ())
                else wg_target_delete p target)
          (seq (close (notifyfd x))
               (dispose lnodes lnodes_update pre))
      else bind list_fuel (\<lambda>f. unsubscribe f pre (nl_next x) n)))"

definition wg_wait_all :: "addr \<Rightarrow> addr \<Rightarrow> int \<Rightarrow> int M" where
  "wg_wait_all p c timeout =
    bind (wg_get p) (\<lambda>wg.
      if finished wg = tot_size wg then ret (sint (finished wg))
      else
        bind (eventfd 0) (\<lambda>n.
        seq (DYCO_MUSTNOT (n = - 1))
       (bind (alloc lnodes_update \<lparr>notifyfd = n, nl_next = NULL\<rparr>) (\<lambda>sub.
          if sub = NULL then seq (close n) (ret (- 1))
          else
            seq (if final_sublist wg = NULL then wg_set p (\<lambda>wg. wg\<lparr>final_sublist := sub\<rparr>)
                 else bind (nd_get (final_sublist wg)) (\<lambda>x.
                      seq (nd_set sub (nl_next_update (\<lambda>_. nl_next x)))
                          (nd_set (final_sublist wg) (nl_next_update (\<lambda>_. sub)))))
           (seq (park c n timeout)
           (bind (eventfd_read n) (\<lambda>(r, count).
            seq (wg_final_leave p n)
                (ret (if r = 0 then sint (ucast count :: i32) else - 1)))))))))"

definition wg_wait_target :: "addr \<Rightarrow> addr \<Rightarrow> int \<Rightarrow> int \<Rightarrow> int M" where
  "wg_wait_target p c target timeout =
    bind (wg_get p) (\<lambda>wg.
      if sint (finished wg) \<ge> target then ret target
      else
        bind (eventfd 0) (\<lambda>n.
        seq (DYCO_MUSTNOT (n = - 1))
       (bind (alloc lnodes_update \<lparr>notifyfd = n, nl_next = NULL\<rparr>) (\<lambda>sub.
          if sub = NULL then seq (close n) (ret (- 1))
          else
            bind (wg_target_find p (word_of_int target)) (\<lambda>sublist.
            seq (nd_set sub (nl_next_update (\<lambda>_. sublist)))
           (seq (wg_htable_insert target_sublist_map target_sublist_map_update p (word_of_int target) sub)
           (seq (park c n timeout)
           (bind (eventfd_read n) (\<lambda>(r, count).
            seq (wg_target_leave p (word_of_int target) n)
                (ret (if r = 0 then sint (ucast count :: i32) else - 1)))))))))))"

definition dyco_waitgroup_wait :: "addr \<Rightarrow> int \<Rightarrow> int \<Rightarrow> int M" where
  "dyco_waitgroup_wait p target timeout =
    (if p = NULL then ret (- 1)
     else if timeout = 0 then bind (wg_get p) (\<lambda>wg. ret (sint (finished wg)))
     else
       with_current (ret (- 1)) (\<lambda>c.
         if target \<le> 0 then wg_wait_all p c timeout else wg_wait_target p c target timeout))"

end
