(* ===== verification/Comm_Inv.thy ===== *)
theory Comm_Inv
  imports Dyco_Inv Dyco_Semaphore Dyco_Channel Dyco_Pubsub Dyco_Waitgroup
begin

text \<open>
  Invariants of semaphores, channels and publish/subscribe channels, kept by their operations, and by those of wait groups, however the
  coroutines are interleaved.
\<close>

named_theorems stable_intros \<open>rules that decompose the stability of a composed computation\<close>

section \<open>The invariant\<close>

text \<open>A semaphore with a positive value has no waiters; the value never leaves its range.\<close>

definition sem_ok :: "dyco_semaphore \<Rightarrow> bool" where
  "sem_ok sem = (0 \<le> semval sem \<and> semval sem \<le> int DYCO_SEM_VALUE_MAX \<and> (0 < semval sem \<longrightarrow> wqueue sem = NULL))"

text \<open>A channel that holds a message holds at least one byte.\<close>

definition holds_message :: "half_duplex_channel_status \<Rightarrow> bool" where
  "holds_message st = (st = HDC_STATUS_FULL \<or> st = HDC_STATUS_WANTWRITE)"

definition chan_ok :: "dyco_channel \<Rightarrow> bool" where
  "chan_ok cn = (holds_message (ch_status cn) \<longrightarrow> 0 < ch_msglen cn)"

text \<open>
  The message of a publish/subscribe channel fits into its buffer, and there is one while it is being published.
\<close>

definition ps_ok :: "dyco_pubsubchannel \<Rightarrow> bool" where
  "ps_ok ps = (ps_msglen ps \<le> ps_maxsize ps \<and> 0 < ps_maxsize ps \<and> (ps_status ps = PSC_STATUS_TRANS \<longrightarrow> 0 < ps_msglen ps))"

text \<open>All objects of a kind satisfy a property.\<close>

definition each :: "('o \<Rightarrow> bool) \<Rightarrow> (addr \<Rightarrow> 'o option) \<Rightarrow> bool" where
  "each P m = (\<forall>p x. m p = Some x \<longrightarrow> P x)"

lemma eachD: "each P m \<Longrightarrow> m p = Some x \<Longrightarrow> P x"
  by (simp add: each_def)

lemma each_upd [simp]: "each P m \<Longrightarrow> P x \<Longrightarrow> each P (m(p \<mapsto> x))" "each P m \<Longrightarrow> each P (m(p := None))" "each P Map.empty"
  by (auto simp: each_def)

lemma each_set: "each P m \<Longrightarrow> m p = Some x \<Longrightarrow> (P x \<Longrightarrow> P y) \<Longrightarrow> each P (m(p \<mapsto> y))"
  by (auto simp: each_def)

definition comm_ok :: "world \<Rightarrow> bool" where
  "comm_ok w = (each sem_ok (sems w) \<and> each chan_ok (chans w) \<and> each ps_ok (psubs w))"

text \<open>The invariant as a predicate on the view the detached computations keep.\<close>

definition comm_inv where
  "comm_inv = (\<lambda>(cs, ss, ps, _). each sem_ok ss \<and> each chan_ok cs \<and> each ps_ok ps)"

lemma comm_inv_view: "comm_inv (comm_view w) = comm_ok w"
  by (simp add: comm_inv_def comm_view_def comm_ok_def)

lemma stable_detached: "detached m \<Longrightarrow> stable comm_ok m"
  using detached_stable [of m comm_inv] by (simp add: comm_inv_view)

section \<open>Stability of the operations\<close>

lemmas [stable_intros] = stable_bind stable_seq

lemma stable_if [stable_intros]: "(b \<Longrightarrow> stable I m) \<Longrightarrow> (\<not> b \<Longrightarrow> stable I k) \<Longrightarrow> stable I (if b then m else k)"
  by simp

lemma stable_let [stable_intros]: "stable I (f x) \<Longrightarrow> stable I (let y = x in f y)"
  by simp

lemma stable_prod [stable_intros]: "(\<And>a b. stable I (k a b)) \<Longrightarrow> stable I (case y of (a, b) \<Rightarrow> k a b)"
  by (simp split: prod.split)

lemma stable_status [stable_intros]:
  "stable I a \<Longrightarrow> stable I b \<Longrightarrow> stable I c \<Longrightarrow> stable I d \<Longrightarrow> stable I e \<Longrightarrow> stable I f \<Longrightarrow> stable I g \<Longrightarrow>
    stable I (case st of HDC_STATUS_NOP \<Rightarrow> a | HDC_STATUS_EMPTY \<Rightarrow> b | HDC_STATUS_FULL \<Rightarrow> c | HDC_STATUS_WANTREAD \<Rightarrow> d
      | HDC_STATUS_WANTWRITE \<Rightarrow> e | HDC_STATUS_WANTCLOSE \<Rightarrow> f | HDC_STATUS_CANCLOSE \<Rightarrow> g)"
  by (simp split: half_duplex_channel_status.split)

lemma stable_current [stable_intros]: "stable comm_ok m \<Longrightarrow> (\<And>c. stable comm_ok (k c)) \<Longrightarrow> stable comm_ok (with_current m k)"
  unfolding with_current_def by (intro stable_intros stable_detached [OF detached_deref] stable_detached [OF detached_libc(1)])

lemma stable_ch_set: "(\<And>cn. chan_ok cn \<Longrightarrow> chan_ok (f cn)) \<Longrightarrow> stable comm_ok (ch_set p f)"
  by (auto simp: stable_def comm_ok_def split: option.splits intro: each_set)

lemma stable_fill:
  assumes "0 < sz"
  shows "stable comm_ok (hdc_fill p buf sz)"
  using assms by (auto simp: stable_def hdc_fill_def comm_ok_def chan_ok_def split: option.splits)

lemma stable_drain: "stable comm_ok (hdc_drain p maxsize)"
  by (auto simp: stable_def hdc_drain_def comm_ok_def chan_ok_def holds_message_def split: option.splits)

lemma detached_hdc [detached_intros]: "detached (hdc_notify p n)" "detached (hdc_wait p n t)"
  unfolding hdc_notify_def hdc_wait_def with_current_def by (intro detached_intros)+

text \<open>Reading an object: what follows may use what was read.\<close>

lemma stable_read:
  "(\<And>w v. I w \<Longrightarrow> sel w p = Some v \<Longrightarrow> outcome_ok I (\<lambda>_. I) (k v w)) \<Longrightarrow> stable I (bind (deref sel p) k)"
  by (auto simp: stable_def split: option.splits)

lemma chan_set_ok:
  assumes "comm_ok w" "chans w p = Some cn" "chan_ok cn \<Longrightarrow> chan_ok (f cn)" "stable comm_ok k"
  shows "outcome_ok comm_ok (\<lambda>_. comm_ok) (seq (ch_set p f) k w)"
proof -
  have "comm_ok (w\<lparr>chans := (chans w)(p \<mapsto> f cn)\<rparr>)" using assms by (auto simp: comm_ok_def intro: each_set)
  with assms(2,4) show ?thesis by (simp add: stableD)
qed

lemma chan_status_ok: "chan_ok cn \<Longrightarrow> holds_message (ch_status cn) \<or> \<not> holds_message st \<Longrightarrow> chan_ok (cn\<lparr>ch_status := st\<rparr>)"
  by (auto simp: chan_ok_def)

lemma stable_chan_notify: "stable comm_ok (seq (hdc_notify p n) (ret (r :: 'a)))"
  by (rule stable_detached, intro detached_intros)

lemma stable_chan_reply: "0 < sz \<Longrightarrow> stable comm_ok (seq (hdc_fill p buf sz) (ret (r :: 'a)))"
  "0 < sz \<Longrightarrow> stable comm_ok (seq (hdc_fill p buf sz) (seq (hdc_notify p n) (ret (r :: 'a))))"
  "stable comm_ok (bind (hdc_drain p maxsize) (\<lambda>r. seq (hdc_notify p n) (ret r)))"
  by (intro stable_seq stable_bind stable_fill stable_drain stable_chan_notify stable_detached [OF detached_ret] | assumption)+

lemmas chan_stability = chan_set_ok chan_status_ok stable_chan_notify stable_detached [OF detached_ret]
  stableD [OF stable_chan_reply(1)] stableD [OF stable_chan_reply(2)] stableD [OF stable_chan_reply(3)] stableD [OF stable_drain]

lemma stable_send_after_wait: "0 < sz \<Longrightarrow> stable comm_ok (send_after_wait p buf sz)"
  unfolding send_after_wait_def
  by (rule stable_read) (auto simp: holds_message_def simp del: seq_assign split: half_duplex_channel_status.split intro!: chan_stability)

lemma stable_recv_after_wait: "stable comm_ok (recv_after_wait p maxsize)"
  unfolding recv_after_wait_def
  by (rule stable_read) (auto simp: holds_message_def simp del: seq_assign split: half_duplex_channel_status.split intro!: chan_stability)

lemma stable_channel_send: "stable comm_ok (dyco_channel_send p buf sz timeout)"
proof -
  have wait: "stable comm_ok (seq (hdc_wait p n timeout) (send_after_wait p buf sz))" if "0 < sz" for n
    by (intro stable_seq stable_send_after_wait that stable_detached detached_intros)
  show ?thesis unfolding dyco_channel_send_def
    by (intro stable_if stable_detached [OF detached_ret] stable_read)
      (auto simp: holds_message_def simp del: seq_assign split: half_duplex_channel_status.split intro!: chan_stability wait)
qed

lemma stable_channel_recv: "stable comm_ok (dyco_channel_recv p maxsize timeout)"
proof -
  have wait: "stable comm_ok (seq (hdc_wait p n timeout) (recv_after_wait p maxsize))" for n
    by (intro stable_seq stable_recv_after_wait stable_detached detached_intros)
  show ?thesis unfolding dyco_channel_recv_def
    by (intro stable_if stable_detached [OF detached_ret] stable_read)
      (auto simp: holds_message_def simp del: seq_assign split: half_duplex_channel_status.split intro!: chan_stability wait)
qed

lemma stable_channel_destroy: "stable comm_ok (dyco_channel_destroy p)"
  unfolding dyco_channel_destroy_def
  by (intro stable_if stable_seq stable_detached [OF detached_ret] stable_ch_set)
    (auto simp: chan_ok_def holds_message_def)

lemma stable_alloc_chan: "chan_ok cn \<Longrightarrow> stable comm_ok (alloc chans_update cn)"
  by (auto simp: stable_def alloc_def comm_ok_def split: prod.splits)

lemma stable_free_chan: "stable comm_ok (dispose chans chans_update p)"
  by (auto simp: stable_def comm_ok_def)

lemma stable_channel_create: "stable comm_ok (dyco_channel_create sz)"
  unfolding dyco_channel_create_def
  by (intro stable_intros stable_alloc_chan stable_ch_set stable_free_chan)
    (auto simp: chan_ok_def holds_message_def simp del: ret_app intro!: stable_detached detached_intros)

lemma stable_sem_set: "(\<And>sem. sem_ok sem \<Longrightarrow> sem_ok (f sem)) \<Longrightarrow> stable comm_ok (sem_set p f)"
  by (auto simp: stable_def comm_ok_def split: option.splits intro: each_set)

lemma sem_set_ok:
  assumes "comm_ok w" "sems w p = Some sem" "sem_ok sem \<Longrightarrow> sem_ok (f sem)" "stable comm_ok k"
  shows "outcome_ok comm_ok (\<lambda>_. comm_ok) (seq (sem_set p f) k w)"
proof -
  have "comm_ok (w\<lparr>sems := (sems w)(p \<mapsto> f sem)\<rparr>)" using assms by (auto simp: comm_ok_def intro: each_set)
  with assms(2,4) show ?thesis by (simp add: stableD)
qed

lemma stable_sem_finish: "stable comm_ok (sem_finish n)"
  unfolding sem_finish_def by (rule stable_detached, intro detached_intros)

text \<open>A waiter is only ever queued on a semaphore whose value is 0.\<close>

lemma sem_enqueue_ok:
  assumes "comm_ok w" "sems w p = Some sem" "semval sem \<le> 0" "stable comm_ok k"
  shows "outcome_ok comm_ok (\<lambda>_. comm_ok) (seq (sem_enqueue p wnode) k w)"
proof -
  have set: "comm_ok (w\<lparr>lnodes := l, sems := (sems w)(p \<mapsto> sem\<lparr>wqueue := a, wtail := b\<rparr>)\<rparr>)"
    "comm_ok (w\<lparr>sems := (sems w)(p \<mapsto> sem\<lparr>wqueue := a, wtail := b\<rparr>)\<rparr>)"
    "comm_ok (w\<lparr>lnodes := l, sems := (sems w)(p \<mapsto> sem\<lparr>wtail := b\<rparr>)\<rparr>)" for l a b
    using assms(1-3) by (auto simp: comm_ok_def sem_ok_def intro: each_set)
  show ?thesis using assms(2,4) set
    by (auto simp: sem_enqueue_def split: option.splits intro!: stableD)
qed

lemma sem_park_ok:
  assumes "comm_ok w" "sems w p = Some sem" "semval sem \<le> 0"
  shows "outcome_ok comm_ok (\<lambda>_. comm_ok) (bind (eventfd 0) (\<lambda>n. seq (DYCO_MUSTNOT (n = - 1))
    (bind (alloc lnodes_update \<lparr>notifyfd = n, nl_next = NULL\<rparr>) (\<lambda>wnode.
       if wnode = NULL then ret (- 1 :: int)
       else seq (sem_enqueue p wnode) (seq (park c n timeout) (sem_finish n))))) w)"
proof -
  have tail: "stable comm_ok (seq (park c n timeout) (sem_finish n))" for n
    by (intro stable_seq stable_sem_finish stable_detached detached_intros)
  have enq: "outcome_ok comm_ok (\<lambda>_. comm_ok) (seq (sem_enqueue p wnode) (seq (park c n timeout) (sem_finish n)) w')"
    if "sems w' = sems w" "chans w' = chans w" "psubs w' = psubs w" for w' wnode n
    by (rule sem_enqueue_ok [OF _ _ assms(3) tail]) (use that assms(1,2) in \<open>simp_all add: comm_ok_def\<close>)
  show ?thesis using assms(1)
    by (auto simp: eventfd_def open_fd_def bind_def [of "alloc _ _"] alloc_def comm_ok_def split: prod.split intro!: enq)
qed

lemma stable_semaphore_wait: "stable comm_ok (dyco_semaphore_wait p timeout)"
proof -
  have dec: "outcome_ok comm_ok (\<lambda>_. comm_ok) (seq (sem_set p (\<lambda>sem. sem\<lparr>semval := semval sem - 1\<rparr>)) (ret (0 :: int)) w)"
    if "comm_ok w" "sems w p = Some sem" "semval sem > 0" for w sem
    by (rule sem_set_ok [OF that(1,2)]) (use that(3) in \<open>auto simp: sem_ok_def intro!: stable_detached [OF detached_ret]\<close>)
  show ?thesis unfolding dyco_semaphore_wait_def with_current_def
    by (intro stable_if stable_detached [OF detached_ret] stable_read)
      (auto simp del: seq_assign split: option.split intro!: dec sem_park_ok)
qed

lemma stable_semaphore_signal: "stable comm_ok (dyco_semaphore_signal p)"
proof -
  have inc: "outcome_ok comm_ok (\<lambda>_. comm_ok) (seq (sem_set p (\<lambda>sem. sem\<lparr>semval := semval sem + 1\<rparr>)) (ret (0 :: int)) w)"
    if "comm_ok w" "sems w p = Some sem" "semval sem \<noteq> int DYCO_SEM_VALUE_MAX" "wqueue sem = NULL" for w sem
    by (rule sem_set_ok [OF that(1,2)]) (use that(3,4) in \<open>auto simp: sem_ok_def intro!: stable_detached [OF detached_ret]\<close>)
  have tail: "stable comm_ok (bind (nd_get h) (\<lambda>x. seq (sem_notify (notifyfd x) 1) (seq (dispose lnodes lnodes_update h) (ret (0 :: int)))))" for h
    unfolding sem_notify_def by (rule stable_detached, intro detached_intros)
  have hand: "outcome_ok comm_ok (\<lambda>_. comm_ok) (seq (sem_set p f) k w)"
    if "comm_ok w" "sems w p = Some sem" "wqueue sem \<noteq> NULL" "semval (f sem) = semval sem" "stable comm_ok k"
    for w sem f and k :: "int M"
    by (rule sem_set_ok [OF that(1,2) _ that(5)]) (use that(3,4) in \<open>auto simp: sem_ok_def\<close>)
  show ?thesis unfolding dyco_semaphore_signal_def with_current_def
    by (intro stable_if stable_detached [OF detached_ret] stable_read)
      (auto simp: Let_def simp del: seq_assign split: option.split intro!: inc hand tail)
qed

lemma stable_semaphore_create: "stable comm_ok (dyco_semaphore_create v)"
  by (auto simp: dyco_semaphore_create_def stable_def alloc_def comm_ok_def sem_ok_def split: prod.splits)

lemma detached_each_node [detached_intros]:
  assumes "\<And>n. detached (f n)"
  shows "detached (each_node f n p)"
proof (induction n arbitrary: p)
  case 0
  show ?case unfolding each_node.simps by (intro detached_intros)
next
  case (Suc n)
  show ?case unfolding each_node.simps by (intro detached_intros assms Suc)
qed

lemma stable_semaphore_destroy: "stable comm_ok (dyco_semaphore_destroy p)"
proof -
  have free: "stable comm_ok (seq (dispose sems sems_update p) (ret (NULL :: addr)))"
    by (auto simp: stable_def comm_ok_def)
  have note_all: "stable comm_ok (each_node (\<lambda>n. sem_notify n 64) f q)" for f q
    unfolding sem_notify_def by (rule stable_detached, intro detached_intros)
  show ?thesis unfolding dyco_semaphore_destroy_def
    by (intro stable_if stable_bind stable_seq free note_all) (rule stable_detached, intro detached_intros)+
qed

section \<open>Publish/subscribe channels\<close>

text \<open>What the scheduler and the library offer, as stable computations.\<close>

lemmas stable_basics [stable_intros] = detached_ret [THEN stable_detached] detached_fail [THEN stable_detached] detached_asks [THEN stable_detached]
  detached_deref [THEN stable_detached] detached_consult [THEN stable_detached] detached_MUST [THEN stable_detached]
  detached_objects [THEN stable_detached] detached_modifies [THEN stable_detached] detached_libc [THEN stable_detached]
  detached_open [THEN stable_detached] detached_sched3 [THEN stable_detached] detached_sched4 [THEN stable_detached]
  detached_coro3 [THEN stable_detached] detached_coro4 [THEN stable_detached] detached_coro5 [THEN stable_detached]
  detached_park [THEN stable_detached] detached_abort [THEN stable_detached]

lemma detached_unsubscribe: "detached (unsubscribe k pre p n)"
proof (induction k arbitrary: pre p)
  case 0
  show ?case unfolding unsubscribe.simps by (intro detached_intros)
next
  case (Suc k)
  show ?case unfolding unsubscribe.simps by (intro detached_intros Suc)
qed

lemma stable_whenM [stable_intros]: "(b \<Longrightarrow> stable I m) \<Longrightarrow> stable I (whenM b m)"
  by (simp add: whenM_def stable_def)

lemma stable_ps_set: "(\<And>ps. ps_ok ps \<Longrightarrow> ps_ok (f ps)) \<Longrightarrow> stable comm_ok (ps_set p f)"
  by (auto simp: stable_def comm_ok_def split: option.splits intro: each_set)

lemma stable_psc_subnotify: "stable comm_ok (psc_subnotify p)"
  unfolding psc_subnotify_def
  by (intro stable_intros stable_detached [OF detached_each_node] stable_ps_set detached_intros) (simp add: ps_ok_def)

lemma stable_psc_pubnotify: "stable comm_ok (psc_pubnotify p)"
  unfolding psc_pubnotify_def by (intro stable_intros)

lemma stable_psc_acknowledge: "stable comm_ok (psc_acknowledge p n)"
  unfolding psc_acknowledge_def psc_leave_def
  by (intro stable_intros stable_detached [OF detached_unsubscribe] stable_ps_set) (simp_all add: ps_ok_def)

lemma stable_psc_subwait: "stable comm_ok (psc_subwait p timeout)"
  unfolding psc_subwait_def
  by (intro stable_intros stable_psc_acknowledge stable_ps_set) (simp_all add: ps_ok_def)

lemma stable_psc_pubwait: "stable comm_ok (psc_pubwait p timeout)"
  unfolding psc_pubwait_def
  by (intro stable_intros stable_ps_set) (simp_all add: ps_ok_def)

lemma stable_pubsub_publish: "stable comm_ok (dyco_pubsub_publish p buf sz)"
proof -
  have tail: "stable comm_ok (seq (psc_subnotify p) (seq (psc_pubwait p t) (seq (ps_set p (\<lambda>ps. ps\<lparr>ps_status := PSC_STATUS_EMPTY\<rparr>)) (ret (r :: int)))))" for t r
    by (intro stable_intros stable_psc_subnotify stable_psc_pubwait stable_ps_set) (simp add: ps_ok_def)
  have set: "comm_ok (w\<lparr>bytes := b, psubs := (psubs w)(p \<mapsto> ps\<lparr>ps_msglen := sz, ps_status := PSC_STATUS_TRANS\<rparr>)\<rparr>)"
    if "comm_ok w" "psubs w p = Some ps" "\<not> ps_maxsize ps < sz" "0 < sz" for w ps b
    using that by (auto simp: comm_ok_def ps_ok_def intro: each_set)
  show ?thesis unfolding dyco_pubsub_publish_def
    by (intro stable_if stable_basics stable_read) (auto split: option.split intro!: stableD [OF tail] set)
qed

lemma stable_pubsub_subscribe: "stable comm_ok (dyco_pubsub_subscribe p maxsize timeout)"
  unfolding dyco_pubsub_subscribe_def psc_result_def psc_copy_def
  by (intro stable_intros stable_psc_subwait stable_psc_pubnotify)

lemma stable_free_ps: "stable comm_ok (dispose psubs psubs_update p)"
  by (auto simp: stable_def comm_ok_def)

lemma stable_pubsub_destroy: "stable comm_ok (dyco_pubsub_destroy p)"
  unfolding dyco_pubsub_destroy_def
  by (intro stable_intros stable_psc_subnotify stable_psc_pubwait stable_ps_set stable_free_ps) (simp add: ps_ok_def)

lemma stable_alloc_ps: "ps_ok ps \<Longrightarrow> stable comm_ok (alloc psubs_update ps)"
  by (auto simp: stable_def alloc_def comm_ok_def split: prod.splits)

lemma stable_pubsub_create: "stable comm_ok (dyco_pubsub_create sz)"
  unfolding dyco_pubsub_create_def
  by (intro stable_intros stable_alloc_ps stable_ps_set stable_free_ps) (simp_all add: ps_ok_def DYCO_DEFAULT_CHANNELSIZE_def)

section \<open>Wait groups\<close>

lemma stable_wg_set: "stable comm_ok (wg_set p f)"
  by (auto simp: stable_def comm_ok_def split: option.splits)

lemma stable_option [stable_intros]:
  "stable I m \<Longrightarrow> (\<And>x. stable I (k x)) \<Longrightarrow> stable I (case y of None \<Rightarrow> m | Some x \<Rightarrow> k x)"
  by (simp split: option.split)

lemma stable_wg_tables:
  "stable comm_ok (wg_htable_init upd p width)" "stable comm_ok (wg_htable_insert sel upd p k v)"
  "stable comm_ok (wg_target_find p k)" "stable comm_ok (wg_target_delete p k)"
  unfolding wg_htable_init_def wg_htable_insert_def wg_target_find_def wg_target_delete_def
  by (intro stable_intros stable_wg_set)+

lemma stable_waitgroup_add: "stable comm_ok (dyco_waitgroup_add p k)"
  unfolding dyco_waitgroup_add_def by (intro stable_intros stable_wg_tables stable_wg_set)

lemma stable_waitgroup_done: "stable comm_ok (dyco_waitgroup_done p)"
  unfolding dyco_waitgroup_done_def wg_notify_def
  by (intro stable_intros stable_wg_tables stable_wg_set stable_detached [OF detached_each_node] detached_intros)

lemma stable_wg_leave: "stable comm_ok (wg_final_leave p n)" "stable comm_ok (wg_target_leave p k n)"
  unfolding wg_final_leave_def wg_target_leave_def
  by (intro stable_intros stable_wg_tables stable_wg_set stable_detached [OF detached_unsubscribe])+

lemma stable_waitgroup_wait: "stable comm_ok (dyco_waitgroup_wait p target timeout)"
  unfolding dyco_waitgroup_wait_def wg_wait_all_def wg_wait_target_def
  by (intro stable_intros stable_wg_tables stable_wg_set stable_wg_leave)

lemma stable_alloc_wg: "stable comm_ok (alloc wgroups_update wg)"
  by (auto simp: stable_def alloc_def comm_ok_def split: prod.splits)

lemma stable_free_wg: "stable comm_ok (dispose wgroups wgroups_update p)"
  by (auto simp: stable_def comm_ok_def)

lemma stable_waitgroup_create: "stable comm_ok (dyco_waitgroup_create n)"
  unfolding dyco_waitgroup_create_def by (intro stable_intros stable_wg_tables stable_alloc_wg stable_wg_set)

text \<open>The clearing of a table with a callback, in a place the invariant does not look at.\<close>

lemma stable_list [stable_intros]:
  "stable I m \<Longrightarrow> (\<And>x xs. stable I (k x xs)) \<Longrightarrow> stable I (case l of [] \<Rightarrow> m | x # xs \<Rightarrow> k x xs)"
  by (simp split: list.split)

lemma stable_htab [stable_intros]:
  "stable I m \<Longrightarrow> stable I n \<Longrightarrow> (\<And>t. stable I (k t)) \<Longrightarrow> stable I (case x of TNull \<Rightarrow> m | TFreed \<Rightarrow> n | TBuckets t \<Rightarrow> k t)"
  by (simp split: htab.split)

lemma stable_put: "(\<And>ht w. comm_ok (put ht w) = comm_ok w) \<Longrightarrow> stable comm_ok (modify (\<lambda>w. put (f w) w))"
  by (simp add: stable_def)

lemma stable_clear_chain:
  assumes "\<And>a. stable comm_ok (cb a)" "\<And>ht w. comm_ok (put ht w) = comm_ok w"
  shows "stable comm_ok (clear_chain_cb get put cb i n pre)"
proof (induction n arbitrary: pre)
  case 0
  show ?case unfolding clear_chain_cb.simps by (intro stable_intros)
next
  case (Suc m)
  show ?case unfolding clear_chain_cb.simps by (intro stable_intros stable_put assms Suc)
qed

lemma stable_clear_buckets:
  assumes "\<And>a. stable comm_ok (cb a)" "\<And>ht w. comm_ok (put ht w) = comm_ok w"
  shows "stable comm_ok (clear_buckets_cb get put cb i n)"
proof (induction n arbitrary: i)
  case 0
  show ?case unfolding clear_buckets_cb.simps by (intro stable_intros)
next
  case (Suc m)
  show ?case unfolding clear_buckets_cb.simps by (intro stable_intros stable_clear_chain assms Suc)
qed

lemma comm_ok_target_map_put: "comm_ok (target_map_put p ht w) = comm_ok w"
  by (simp add: target_map_put_def comm_ok_def split: option.split)

lemma detached_sublist_free: "detached (sublist_free k p)"
proof (induction k arbitrary: p)
  case 0
  show ?case unfolding sublist_free.simps by (intro detached_intros)
next
  case (Suc k)
  show ?case unfolding sublist_free.simps by (intro detached_intros Suc)
qed

lemma stable_wgsublist_free: "stable comm_ok (wgsublist_free p)"
  unfolding wgsublist_free_def by (intro stable_intros stable_detached [OF detached_sublist_free])

lemma stable_waitgroup_destroy: "stable comm_ok (dyco_waitgroup_destroy p)"
  unfolding dyco_waitgroup_destroy_def htable_clear_with_freecb_def
  by (intro stable_intros stable_wgsublist_free stable_clear_buckets stable_put comm_ok_target_map_put stable_wg_set stable_free_wg)

end
