(* ===== verification/Dyco_Socket.thy ===== *)
theory Dyco_Socket
  imports Dyco_Coroutine
begin

text \<open>
  Sockets (\<^verbatim>\<open>src/dyco_socket.c\<close>): the calls that switch instead of blocking, and the hooks of the same
  names, whose bodies are the same. The kernel decides the result and the error number of every call
  (\<open>sysres\<close>); a send that succeeds appends the bytes it accepts to the \<open>wire\<close> of the descriptor.

  The loops repeat while the kernel says \<open>EAGAIN\<close>, which may be for ever: they take \<open>fuel\<close>. Lengths are
  natural numbers; the code counts in an \<^verbatim>\<open>int\<close>, so the model stands for buffers below two gigabytes.
\<close>

definition TIMEOUT_DEFAULT :: int where "TIMEOUT_DEFAULT = 3000"
definition TIMEOUT_INFINIT :: int where "TIMEOUT_INFINIT = - 1"

definition EAGAIN :: int where "EAGAIN = 11"
definition ECONNRESET :: int where "ECONNRESET = 104"
definition EINPROGRESS :: int where "EINPROGRESS = 115"

section \<open>The system calls\<close>

text \<open>0 or -1, with the error number.\<close>

definition sys_status :: "(int \<times> int) M" where
  "sys_status = bind (consult sysres) (\<lambda>(r, e). ret (if r < 0 then - 1 else 0, e))"

definition fcntl_nonblock :: "fd \<Rightarrow> int M" where
  "fcntl_nonblock n = bind sys_status (\<lambda>(r, _). ret r)"

definition setsockopt_reuse :: "fd \<Rightarrow> int M" where
  "setsockopt_reuse n = bind sys_status (\<lambda>(r, _). ret r)"

text \<open>A new descriptor, or -1 with the error number.\<close>

definition accept_f :: "fd \<Rightarrow> (fd \<times> int) M" where
  "accept_f n =
    bind (consult sysres) (\<lambda>(r, e).
      if r < 0 then ret (- 1, e) else bind (open_fd OtherFd) (\<lambda>m. ret (m, e)))"

definition connect_f :: "fd \<Rightarrow> (int \<times> int) M" where
  "connect_f n = sys_status"

text \<open>The kernel accepts a prefix of the bytes offered.\<close>

definition send_f :: "fd \<Rightarrow> byte list \<Rightarrow> (int \<times> int) M" where
  "send_f n bs =
    bind (consult sysres) (\<lambda>(r, e).
      if r < 0 then ret (- 1, e)
      else
        let k = min (nat r) (length bs) in
        seq (modify (\<lambda>w. w\<lparr>wire := (wire w)(n := wire w n @ take k bs)\<rparr>))
            (ret (int k, e)))"

text \<open>At most the number of bytes asked for.\<close>

definition recv_f :: "fd \<Rightarrow> nat \<Rightarrow> (int \<times> byte list) M" where
  "recv_f n len =
    bind (consult sysres) (\<lambda>(r, _).
    bind (consult sysbytes) (\<lambda>bs.
      if r < 0 then ret (- 1, []) else ret (int (length (take len bs)), take len bs)))"

section \<open>Opening and closing\<close>

text \<open>When the descriptor cannot be made non-blocking the code closes \<^verbatim>\<open>ret\<close>, which is -1.\<close>

definition dyco_socket :: "fd M" where
  "dyco_socket =
    bind (open_fd OtherFd) (\<lambda>n.
      if n = - 1 then ret (- 1)
      else
        bind (fcntl_nonblock n) (\<lambda>r.
          if r = - 1 then seq (close r) (ret (- 1))
          else
            bind (setsockopt_reuse n) (\<lambda>r.
            seq (DYCO_MUST (r = 0)) (ret n))))"

fun accept_loop :: "nat \<Rightarrow> fd \<Rightarrow> fd M" where
  "accept_loop 0 n = fail NoFuel"
| "accept_loop (Suc fuel) n =
    seq (waitev n (EPOLLIN OR EPOLLERR OR EPOLLHUP) TIMEOUT_INFINIT)
   (bind (accept_f n) (\<lambda>(sockfd, e).
      if sockfd < 0 then (if e = EAGAIN then accept_loop fuel n else ret (- 1))
      else ret sockfd))"

definition dyco_accept :: "nat \<Rightarrow> fd \<Rightarrow> fd M" where
  "dyco_accept fuel n =
    bind (accept_loop fuel n) (\<lambda>sockfd.
      if sockfd = - 1 then ret (- 1)
      else
        bind (fcntl_nonblock sockfd) (\<lambda>r.
          if r = - 1 then seq (close sockfd) (ret (- 1))
          else
            bind (setsockopt_reuse n) (\<lambda>r.
            seq (DYCO_MUST (r = 0)) (ret sockfd))))"

fun connect_loop :: "nat \<Rightarrow> fd \<Rightarrow> int M" where
  "connect_loop 0 n = fail NoFuel"
| "connect_loop (Suc fuel) n =
    seq (waitev n (EPOLLOUT OR EPOLLERR OR EPOLLHUP) TIMEOUT_DEFAULT)
   (bind (connect_f n) (\<lambda>(r, e).
      if r = 0 then ret r
      else if r = - 1 \<and> (e = EAGAIN \<or> e = EINPROGRESS) then connect_loop fuel n
      else ret r))"

definition dyco_connect :: "nat \<Rightarrow> fd \<Rightarrow> int M" where
  "dyco_connect fuel n = connect_loop fuel n"

definition dyco_close :: "fd \<Rightarrow> int M" where
  "dyco_close n = close n"

section \<open>Receiving\<close>

definition dyco_recv :: "fd \<Rightarrow> nat \<Rightarrow> (int \<times> byte list) M" where
  "dyco_recv n len =
    seq (waitev n (EPOLLIN OR EPOLLERR OR EPOLLHUP) TIMEOUT_DEFAULT)
        (recv_f n len)"

definition dyco_recvfrom :: "fd \<Rightarrow> nat \<Rightarrow> (int \<times> byte list) M" where
  "dyco_recvfrom n len =
    seq (waitev n (EPOLLIN OR EPOLLERR OR EPOLLHUP) TIMEOUT_DEFAULT)
        (recv_f n len)"

section \<open>Sending\<close>

text \<open>
  The loop: offer what is left until everything has been accepted. The result is the number of
  bytes accepted and the last result of the kernel; \<open>Inl r\<close> when the function returns \<open>r\<close> at once.
\<close>

fun send_loop :: "nat \<Rightarrow> fd \<Rightarrow> byte list \<Rightarrow> nat \<Rightarrow> int \<Rightarrow> (int + nat \<times> int) M" where
  "send_loop 0 n buf sent r = (if sent < length buf then fail NoFuel else ret (Inr (sent, r)))"
| "send_loop (Suc fuel) n buf sent r =
    (if sent < length buf
     then
       seq (waitev n (EPOLLOUT OR EPOLLERR OR EPOLLHUP) TIMEOUT_INFINIT)
      (bind (send_f n (drop sent buf)) (\<lambda>(r', e).
         if r' \<le> 0
         then if e = EAGAIN then send_loop fuel n buf sent r'
              else if e = ECONNRESET then ret (Inl r')
              else ret (Inr (sent, r'))
         else send_loop fuel n buf (sent + nat r') r'))
     else ret (Inr (sent, r)))"

definition send_whole :: "nat \<Rightarrow> fd \<Rightarrow> byte list \<Rightarrow> int M" where
  "send_whole fuel n buf =
    bind (send_f n buf) (\<lambda>(r, _).
      if r = 0 then ret r
      else
        bind (send_loop fuel n buf (if r > 0 then nat r else 0) r) (\<lambda>x.
          case x of
            Inl r \<Rightarrow> ret r
          | Inr (sent, r) \<Rightarrow> if r \<le> 0 \<and> sent = 0 then ret r else ret (int sent)))"

definition dyco_send :: "nat \<Rightarrow> fd \<Rightarrow> byte list \<Rightarrow> int M" where
  "dyco_send fuel n buf = send_whole fuel n buf"

definition dyco_sendto :: "nat \<Rightarrow> fd \<Rightarrow> byte list \<Rightarrow> int M" where
  "dyco_sendto fuel n buf = send_whole fuel n buf"

section \<open>Hooks\<close>

text \<open>With \<^verbatim>\<open>COROUTINE_HOOK\<close> the functions of the C library are replaced by copies of the above.\<close>

definition socket_hook :: "fd M" where
  "socket_hook =
    bind (open_fd OtherFd) (\<lambda>n.
      if n = - 1 then ret (- 1)
      else
        bind (fcntl_nonblock n) (\<lambda>r.
          if r = - 1 then seq (close r) (ret (- 1))
          else
            bind (setsockopt_reuse n) (\<lambda>r.
            seq (DYCO_MUST (r = 0)) (ret n))))"

definition accept_hook :: "nat \<Rightarrow> fd \<Rightarrow> fd M" where
  "accept_hook fuel n =
    bind (accept_loop fuel n) (\<lambda>sockfd.
      if sockfd = - 1 then ret (- 1)
      else
        bind (fcntl_nonblock sockfd) (\<lambda>r.
          if r = - 1 then seq (close sockfd) (ret (- 1))
          else
            bind (setsockopt_reuse n) (\<lambda>r.
            seq (DYCO_MUST (r = 0)) (ret sockfd))))"

definition connect_hook :: "nat \<Rightarrow> fd \<Rightarrow> int M" where
  "connect_hook fuel n = connect_loop fuel n"

definition recv_hook :: "fd \<Rightarrow> nat \<Rightarrow> (int \<times> byte list) M" where
  "recv_hook n len =
    seq (waitev n (EPOLLIN OR EPOLLERR OR EPOLLHUP) TIMEOUT_DEFAULT)
        (recv_f n len)"

definition recvfrom_hook :: "fd \<Rightarrow> nat \<Rightarrow> (int \<times> byte list) M" where
  "recvfrom_hook n len =
    seq (waitev n (EPOLLIN OR EPOLLERR OR EPOLLHUP) TIMEOUT_DEFAULT)
        (recv_f n len)"

definition send_hook :: "nat \<Rightarrow> fd \<Rightarrow> byte list \<Rightarrow> int M" where
  "send_hook fuel n buf = send_whole fuel n buf"

definition sendto_hook :: "nat \<Rightarrow> fd \<Rightarrow> byte list \<Rightarrow> int M" where
  "sendto_hook fuel n buf = send_whole fuel n buf"

definition close_hook :: "fd \<Rightarrow> int M" where
  "close_hook n = close n"

end
