(* ===== verification/Dyco_Ssl.thy ===== *)
theory Dyco_Ssl
  imports Dyco_Coroutine
begin

text \<open>
  The SSL wrappers (\<^verbatim>\<open>src/dyco_ssl.c\<close>): wait for the descriptor, call the library, and repeat while it
  asks for more. The SSL library is not part of the program; what a call returns and what
  \<^verbatim>\<open>SSL_get_error\<close> says about it come from the environment (\<open>sysres\<close>), the bytes read from
  \<open>sysbytes\<close>. A connection is represented by its descriptor. The retry loops take \<open>fuel\<close>.
\<close>

definition SSL_TIMEOUT_DEFAULT :: int where "SSL_TIMEOUT_DEFAULT = 1000"

definition SSL_ERROR_NONE :: int where "SSL_ERROR_NONE = 0"
definition SSL_ERROR_WANT_READ :: int where "SSL_ERROR_WANT_READ = 2"
definition SSL_ERROR_WANT_WRITE :: int where "SSL_ERROR_WANT_WRITE = 3"

text \<open>A call of the library and the error code of its result.\<close>

definition ssl_call :: "(int \<times> int) M" where
  "ssl_call = consult sysres"

text \<open>\<^verbatim>\<open>SSL_read\<close>: the result, the error code, and what is written to the buffer (at most \<open>num\<close> bytes).\<close>

definition SSL_read :: "nat \<Rightarrow> (int \<times> int \<times> byte list) M" where
  "SSL_read num =
    bind ssl_call (\<lambda>(r, err). bind (consult sysbytes) (\<lambda>bs.
      let got = take num (take (nat r) bs) in ret (if r > 0 then int (length got) else r, err, got)))"

fun dyco_SSL_accept :: "nat \<Rightarrow> fd \<Rightarrow> int M" where
  "dyco_SSL_accept 0 n = fail NoFuel"
| "dyco_SSL_accept (Suc fuel) n =
    bind (dyco_coroutine_waitRW n SSL_TIMEOUT_DEFAULT) (\<lambda>x.
      if x \<le> 0 then ret (- 1)
      else
        bind ssl_call (\<lambda>(r, err).
          if r \<noteq> 1
          then (if err = SSL_ERROR_WANT_WRITE \<or> err = SSL_ERROR_WANT_READ then dyco_SSL_accept fuel n else ret r)
          else ret 1))"

fun dyco_SSL_connect :: "nat \<Rightarrow> fd \<Rightarrow> int M" where
  "dyco_SSL_connect 0 n = fail NoFuel"
| "dyco_SSL_connect (Suc fuel) n =
    bind (dyco_coroutine_waitRW n SSL_TIMEOUT_DEFAULT) (\<lambda>x.
      if x \<le> 0 then ret (- 1)
      else
        bind ssl_call (\<lambda>(r, err).
          if r = - 1
          then (if err = SSL_ERROR_WANT_WRITE \<or> err = SSL_ERROR_WANT_READ then dyco_SSL_connect fuel n else ret (- 1))
          else ret 1))"

fun dyco_SSL_read :: "nat \<Rightarrow> fd \<Rightarrow> nat \<Rightarrow> (int \<times> byte list) M" where
  "dyco_SSL_read 0 n num = fail NoFuel"
| "dyco_SSL_read (Suc fuel) n num =
    bind (dyco_coroutine_waitRead n (- 1)) (\<lambda>x.
      if x \<le> 0 then ret (- 1, [])
      else
        bind (SSL_read num) (\<lambda>(r, err, got).
          if err = SSL_ERROR_NONE then ret (int num, got)
          else if err = SSL_ERROR_WANT_READ then dyco_SSL_read fuel n num
          else ret (r, got)))"

fun dyco_SSL_write :: "nat \<Rightarrow> fd \<Rightarrow> nat \<Rightarrow> int M" where
  "dyco_SSL_write 0 n num = fail NoFuel"
| "dyco_SSL_write (Suc fuel) n num =
    bind (dyco_coroutine_waitWrite n SSL_TIMEOUT_DEFAULT) (\<lambda>x.
      if x \<le> 0 then ret (- 1)
      else
        bind ssl_call (\<lambda>(r, err).
          if err = SSL_ERROR_NONE then ret (int num)
          else if err = SSL_ERROR_WANT_WRITE then dyco_SSL_write fuel n num
          else ret r))"

end
