(* ===== verification/Dyco_Signal.thy ===== *)
theory Dyco_Signal
  imports Dyco_Run Dyco_Notify
begin

text \<open>
  Waiting for signals and for child processes (\<^verbatim>\<open>src/dyco_signal.c\<close>). The signals are blocked through a
  call to the scheduler and read from a signal descriptor. What \<^verbatim>\<open>waitpid\<close> and the read of a signal
  descriptor return is the environment's business.
\<close>

definition SIGCHLD_set :: sigset where "SIGCHLD_set = push_bit 16 1"

definition signalfd :: "sigset \<Rightarrow> fd M" where "signalfd sset = open_fd SignalFd"

definition waitpid :: "int M" where "waitpid = bind (consult sysres) (\<lambda>(r, _). ret r)"

definition read_siginfo :: "fd \<Rightarrow> int M" where
  "read_siginfo n = bind (consult sysres) (\<lambda>(r, _). bind (asks fds) (\<lambda>t. ret (if t n = None then - 1 else r)))"

definition dyco_signal_waitchild :: "int \<Rightarrow> int M" where
  "dyco_signal_waitchild timeout =
    bind waitpid (\<lambda>r.
      if timeout = 0 \<or> r > 0 then ret r
      else
        with_current (ret (- 1)) (\<lambda>c.
        bind (co_get c) (\<lambda>co.
        seq (DYCO_MUSTNOT (testb COROUTINE_FLAGS_ASYMMETRIC co))
       (bind (dyco_schedcall_sigprocmask SIG_BLOCK SIGCHLD_set) (\<lambda>(_, old).
        seq (co_set c (\<lambda>co. co\<lparr>old_sigmask := old\<rparr>))
       (bind (signalfd SIGCHLD_set) (\<lambda>sigfd.
        seq (DYCO_MUSTNOT (sigfd = - 1))
       (seq (park c sigfd timeout)
       (seq (close sigfd)
            waitpid)))))))))"

definition dyco_signal_init :: "sigset \<Rightarrow> int M" where
  "dyco_signal_init sset =
    with_current (ret (- 1)) (\<lambda>c.
    bind (co_get c) (\<lambda>co.
      if testb COROUTINE_FLAGS_WAITSIGNAL co then ret (- 1)
      else
        bind (dyco_schedcall_sigprocmask SIG_BLOCK sset) (\<lambda>(_, old).
        seq (co_set c (\<lambda>co. co\<lparr>old_sigmask := old\<rparr>))
       (bind (signalfd sset) (\<lambda>sigfd.
        seq (DYCO_MUSTNOT (sigfd = - 1))
       (seq (co_set c (\<lambda>co. co\<lparr>co_sigfd := sigfd\<rparr>))
       (seq (co_set c (setb COROUTINE_FLAGS_WAITSIGNAL))
            (ret 0))))))))"

definition dyco_signal_destroy :: "unit M" where
  "dyco_signal_destroy =
    with_current (ret ()) (\<lambda>c.
    bind (co_get c) (\<lambda>co.
      if \<not> testb COROUTINE_FLAGS_WAITSIGNAL co then ret ()
      else
        seq (co_set c (clrb COROUTINE_FLAGS_WAITSIGNAL))
       (seq (close (co_sigfd co))
       (seq (dyco_schedcall_sigprocmask SIG_SETMASK (old_sigmask co))
            (ret ())))))"

definition dyco_signal_wait :: "int \<Rightarrow> int M" where
  "dyco_signal_wait timeout =
    with_current (ret (- 1)) (\<lambda>c.
    bind (co_get c) (\<lambda>co.
      if \<not> testb COROUTINE_FLAGS_WAITSIGNAL co then ret (- 1)
      else
        bind (read_siginfo (co_sigfd co)) (\<lambda>r.
          if timeout = 0 \<or> r > 0 then ret r
          else
            seq (schedule_sched_waitR c (co_sigfd co))
           (seq (schedule_sched_sleep c timeout)
           (seq (yield c)
           (seq (schedule_cancel_sleep c)
           (bind (co_get c) (\<lambda>co.
            seq (schedule_cancel_wait c (co_sigfd co))
                (read_siginfo (co_sigfd co))))))))))"

end
