(* ===== verification/Comm_Run.thy ===== *)
theory Comm_Run
  imports Comm_Inv Run_Eval Dyco_Socket Dyco_Ssl Dyco_Epoll Dyco_Signal
begin

text \<open>
  Programs that use the library through its interface, and what whole runs of them keep: the invariants of the
  communication objects, for every program and every interleaving.
\<close>

section \<open>The other components leave the communication objects alone\<close>

lemma stable_wire: "stable comm_ok (modify (\<lambda>w. w\<lparr>wire := f w\<rparr>))"
  by (simp add: stable_def comm_ok_def)

lemma stable_sum [stable_intros]:
  "(\<And>x. stable I (f x)) \<Longrightarrow> (\<And>x. stable I (g x)) \<Longrightarrow> stable I (case y of Inl x \<Rightarrow> f x | Inr x \<Rightarrow> g x)"
  by (simp split: sum.split)

lemma stable_socket_calls:
  "stable comm_ok (fcntl_nonblock n)" "stable comm_ok (setsockopt_reuse n)" "stable comm_ok (accept_f n)"
  "stable comm_ok (connect_f n)" "stable comm_ok (send_f n bs)" "stable comm_ok (recv_f n len)"
  unfolding fcntl_nonblock_def setsockopt_reuse_def accept_f_def connect_f_def send_f_def recv_f_def sys_status_def
  by (intro stable_intros stable_wire)+

lemma stable_accept_loop: "stable comm_ok (accept_loop fuel n)"
proof (induction fuel)
  case 0
  show ?case unfolding accept_loop.simps by (intro stable_intros)
next
  case (Suc fuel)
  show ?case unfolding accept_loop.simps by (intro stable_intros stable_socket_calls Suc)
qed

lemma stable_connect_loop: "stable comm_ok (connect_loop fuel n)"
proof (induction fuel)
  case 0
  show ?case unfolding connect_loop.simps by (intro stable_intros)
next
  case (Suc fuel)
  show ?case unfolding connect_loop.simps by (intro stable_intros stable_socket_calls Suc)
qed

lemma stable_send_loop: "stable comm_ok (send_loop fuel n buf sent r)"
proof (induction fuel arbitrary: sent r)
  case 0
  show ?case unfolding send_loop.simps by (intro stable_intros)
next
  case (Suc fuel)
  show ?case unfolding send_loop.simps by (intro stable_intros stable_socket_calls Suc)
qed

lemma stable_sockets:
  "stable comm_ok dyco_socket" "stable comm_ok (dyco_accept fuel n)" "stable comm_ok (dyco_connect fuel n)"
  "stable comm_ok (dyco_recv n len)" "stable comm_ok (dyco_recvfrom n len)" "stable comm_ok (dyco_send fuel n buf)"
  "stable comm_ok (dyco_sendto fuel n buf)" "stable comm_ok (dyco_close n)"
  unfolding dyco_socket_def dyco_accept_def dyco_connect_def dyco_recv_def dyco_recvfrom_def dyco_send_def dyco_sendto_def
    send_whole_def dyco_close_def
  by (intro stable_intros stable_socket_calls stable_accept_loop stable_connect_loop stable_send_loop)+

lemma stable_ssl_calls: "stable comm_ok ssl_call" "stable comm_ok (SSL_read num)"
  unfolding SSL_read_def ssl_call_def by (intro stable_intros)+

lemma stable_ssl:
  "stable comm_ok (dyco_SSL_accept fuel n) \<and> stable comm_ok (dyco_SSL_connect fuel n) \<and>
   stable comm_ok (dyco_SSL_read fuel n num) \<and> stable comm_ok (dyco_SSL_write fuel n num)"
proof (induction fuel)
  case 0
  show ?case unfolding dyco_SSL_accept.simps dyco_SSL_connect.simps dyco_SSL_read.simps dyco_SSL_write.simps
    by (intro conjI stable_intros)
next
  case (Suc fuel)
  then show ?case unfolding dyco_SSL_accept.simps dyco_SSL_connect.simps dyco_SSL_read.simps dyco_SSL_write.simps
    by (intro conjI stable_intros stable_ssl_calls) blast+
qed

lemma stable_epoll:
  "stable comm_ok dyco_epoll_init" "stable comm_ok (dyco_epoll_wait maxevents timeout)" "stable comm_ok (dyco_epoll_add n ev)"
  "stable comm_ok (dyco_epoll_del n)" "stable comm_ok dyco_epoll_destroy" "stable comm_ok (epoll_wait_hook n maxevents timeout)"
  unfolding dyco_epoll_init_def dyco_epoll_wait_def dyco_epoll_add_def dyco_epoll_del_def dyco_epoll_destroy_def epoll_wait_hook_def
  by (intro stable_intros)+

lemma stable_poll_list: "stable comm_ok (poll_add n l) \<and> stable comm_ok (poll_del n l)"
proof (induction l)
  case Nil
  show ?case unfolding poll_add.simps poll_del.simps by (intro conjI stable_intros)
next
  case (Cons x l)
  then show ?case unfolding poll_add.simps poll_del.simps by (intro conjI stable_intros) blast+
qed

lemma stable_poll: "stable comm_ok (poll_hook pfds timeout)"
  unfolding poll_hook_def poll_f_def
  by (intro stable_intros conjunct1 [OF stable_poll_list] conjunct2 [OF stable_poll_list])

lemma stable_signals:
  "stable comm_ok (dyco_signal_waitchild timeout)" "stable comm_ok (dyco_signal_init sset)" "stable comm_ok dyco_signal_destroy"
  "stable comm_ok (dyco_signal_wait timeout)"
  unfolding dyco_signal_waitchild_def dyco_signal_init_def dyco_signal_destroy_def dyco_signal_wait_def waitpid_def signalfd_def
    read_siginfo_def
  by (intro stable_intros)+

section \<open>The interface\<close>

text \<open>
  The calls a coroutine may make, grouped as the source files are. Each returns a number (a pointer is its address) and, for a call that
  fills a buffer, the bytes.
\<close>

datatype sem_op = SemCreate nat | SemDestroy addr | SemWait addr int | SemSignal addr

datatype chan_op = ChanCreate nat | ChanDestroy addr | ChanSend addr "byte list" nat int | ChanRecv addr nat int

datatype ps_op = PsCreate nat | PsDestroy addr | PsPublish addr "byte list" nat | PsSubscribe addr nat int

datatype wg_op = WgCreate int | WgDestroy addr | WgAdd addr i32 | WgDone addr | WgWait addr int int

datatype co_op =
    CoCreate nat addr | CoCreateUrgent nat addr | CoSleep u32 | CoAbort | WaitRead fd int | WaitWrite fd int | WaitRW fd int
  | CoID | SetStack i32 addr nat | CheckStack | SetUdata i32 addr | SetUrgent i32 | UnsetUrgent i32

datatype asym_op = AsymCreate nat addr | AsymResume i32 | AsymYield | AsymFree i32 | AsymSetStack i32 addr nat

datatype pool_op =
    PoolCreate int nat | PoolResize addr int | PoolDestroy addr | PoolObtain addr nat addr int | PoolObtainUrgent addr nat addr int
  | AsymPoolCreate int nat | AsymPoolResize addr int | AsymPoolDestroy addr | AsymPoolObtain addr nat addr int | AsymPoolReturn i32

datatype sched_op = SchedStop | SchedAbort | SigMask int sigset

datatype io_op =
    EpollInit | EpollWait nat int | EpollAdd fd u32 | EpollDel fd | EpollDestroy | EpollWaitHook fd nat int | PollHook "(fd \<times> u32) list" int
  | SigWaitChild int | SigInit sigset | SigDestroy | SigWait int

datatype sock_op =
    Socket | Accept nat fd | Connect nat fd | Recv fd nat | RecvFrom fd nat | Send nat fd "byte list" | SendTo nat fd "byte list" | Close fd
  | SslAccept nat fd | SslConnect nat fd | SslRead nat fd nat | SslWrite nat fd nat

datatype call =
    Sem sem_op | Chan chan_op | PubSub ps_op | WaitGroup wg_op | Co co_op | Asym asym_op | Pool pool_op | Sched sched_op | IO io_op | Sock sock_op

type_synonym reply = "int \<times> byte list option"

definition answer :: "('a \<Rightarrow> int) \<Rightarrow> 'a M \<Rightarrow> reply M" where
  "answer f m = bind m (\<lambda>a. ret (f a, None))"

definition answer_bytes :: "(int \<times> byte list) M \<Rightarrow> reply M" where
  "answer_bytes m = bind m (\<lambda>(r, bs). ret (r, Some bs))"

fun sem_perform :: "sem_op \<Rightarrow> reply M" where
  "sem_perform (SemCreate v) = answer int (dyco_semaphore_create v)"
| "sem_perform (SemDestroy p) = answer int (dyco_semaphore_destroy p)"
| "sem_perform (SemWait p t) = answer id (dyco_semaphore_wait p t)"
| "sem_perform (SemSignal p) = answer id (dyco_semaphore_signal p)"

fun chan_perform :: "chan_op \<Rightarrow> reply M" where
  "chan_perform (ChanCreate n) = answer int (dyco_channel_create n)"
| "chan_perform (ChanDestroy p) = answer int (dyco_channel_destroy p)"
| "chan_perform (ChanSend p b n t) = answer id (dyco_channel_send p b n t)"
| "chan_perform (ChanRecv p n t) = dyco_channel_recv p n t"

fun ps_perform :: "ps_op \<Rightarrow> reply M" where
  "ps_perform (PsCreate n) = answer int (dyco_pubsub_create n)"
| "ps_perform (PsDestroy p) = answer int (dyco_pubsub_destroy p)"
| "ps_perform (PsPublish p b n) = answer id (dyco_pubsub_publish p b n)"
| "ps_perform (PsSubscribe p n t) = dyco_pubsub_subscribe p n t"

fun wg_perform :: "wg_op \<Rightarrow> reply M" where
  "wg_perform (WgCreate n) = answer int (dyco_waitgroup_create n)"
| "wg_perform (WgDestroy p) = answer int (dyco_waitgroup_destroy p)"
| "wg_perform (WgAdd p k) = answer id (dyco_waitgroup_add p k)"
| "wg_perform (WgDone p) = answer id (dyco_waitgroup_done p)"
| "wg_perform (WgWait p n t) = answer id (dyco_waitgroup_wait p n t)"

fun co_perform :: "co_op \<Rightarrow> reply M" where
  "co_perform (CoCreate f a) = answer id (dyco_coroutine_create f a)"
| "co_perform (CoCreateUrgent f a) = answer id (dyco_coroutine_create_urgent f a)"
| "co_perform (CoSleep n) = answer (\<lambda>_. 0) (dyco_coroutine_sleep n)"
| "co_perform CoAbort = answer (\<lambda>_. 0) dyco_coroutine_abort"
| "co_perform (WaitRead n t) = answer id (dyco_coroutine_waitRead n t)"
| "co_perform (WaitWrite n t) = answer id (dyco_coroutine_waitWrite n t)"
| "co_perform (WaitRW n t) = answer id (dyco_coroutine_waitRW n t)"
| "co_perform CoID = answer id dyco_coroutine_coroID"
| "co_perform (SetStack k p n) = answer id (dyco_coroutine_setStack k p n)"
| "co_perform CheckStack = answer id dyco_coroutine_checkStack"
| "co_perform (SetUdata k u) = answer id (dyco_coroutine_setUdata k u)"
| "co_perform (SetUrgent k) = answer id (dyco_coroutine_setUrgent k)"
| "co_perform (UnsetUrgent k) = answer id (dyco_coroutine_unsetUrgent k)"

fun asym_perform :: "asym_op \<Rightarrow> reply M" where
  "asym_perform (AsymCreate f a) = answer id (dyco_asymcoro_create f a)"
| "asym_perform (AsymResume k) = answer id (dyco_asymcororesume k)"
| "asym_perform AsymYield = answer (\<lambda>_. 0) dyco_asymcoroyield"
| "asym_perform (AsymFree k) = answer (\<lambda>_. 0) (dyco_asymcoro_free k)"
| "asym_perform (AsymSetStack k p n) = answer id (dyco_asymcoro_setStack k p n)"

fun pool_perform :: "pool_op \<Rightarrow> reply M" where
  "pool_perform (PoolCreate n sz) = answer int (dyco_coropool_create n sz)"
| "pool_perform (PoolResize p n) = answer int (dyco_coropool_resize p n)"
| "pool_perform (PoolDestroy p) = answer id (dyco_coropool_destroy p)"
| "pool_perform (PoolObtain p f a t) = answer id (dyco_coropool_obtain p f a t)"
| "pool_perform (PoolObtainUrgent p f a t) = answer id (dyco_coropool_obtain_urgent p f a t)"
| "pool_perform (AsymPoolCreate n sz) = answer int (dyco_asymcpool_create n sz)"
| "pool_perform (AsymPoolResize p n) = answer int (dyco_asymcpool_resize p n)"
| "pool_perform (AsymPoolDestroy p) = answer id (dyco_asymcpool_destroy p)"
| "pool_perform (AsymPoolObtain p f a t) = answer id (dyco_asymcpool_obtain p f a t)"
| "pool_perform (AsymPoolReturn k) = answer (\<lambda>_. 0) (dyco_asymcpool_return k)"

fun sched_perform :: "sched_op \<Rightarrow> reply M" where
  "sched_perform SchedStop = answer (\<lambda>_. 0) dyco_schedcall_stop"
| "sched_perform SchedAbort = answer (\<lambda>_. 0) dyco_schedcall_abort"
| "sched_perform (SigMask how sset) = answer fst (dyco_schedcall_sigprocmask how sset)"

definition ready_count :: "int + fd list \<Rightarrow> int" where
  "ready_count x = (case x of Inl e \<Rightarrow> - 1 | Inr l \<Rightarrow> int (length l))"

fun io_perform :: "io_op \<Rightarrow> reply M" where
  "io_perform EpollInit = answer id dyco_epoll_init"
| "io_perform (EpollWait n t) = answer ready_count (dyco_epoll_wait n t)"
| "io_perform (EpollAdd n ev) = answer id (dyco_epoll_add n ev)"
| "io_perform (EpollDel n) = answer id (dyco_epoll_del n)"
| "io_perform EpollDestroy = answer (\<lambda>_. 0) dyco_epoll_destroy"
| "io_perform (EpollWaitHook n k t) = answer ready_count (epoll_wait_hook n k t)"
| "io_perform (PollHook l t) = answer id (poll_hook l t)"
| "io_perform (SigWaitChild t) = answer id (dyco_signal_waitchild t)"
| "io_perform (SigInit sset) = answer id (dyco_signal_init sset)"
| "io_perform SigDestroy = answer (\<lambda>_. 0) dyco_signal_destroy"
| "io_perform (SigWait t) = answer id (dyco_signal_wait t)"

fun sock_perform :: "sock_op \<Rightarrow> reply M" where
  "sock_perform Socket = answer id dyco_socket"
| "sock_perform (Accept fuel n) = answer id (dyco_accept fuel n)"
| "sock_perform (Connect fuel n) = answer id (dyco_connect fuel n)"
| "sock_perform (Recv n len) = answer_bytes (dyco_recv n len)"
| "sock_perform (RecvFrom n len) = answer_bytes (dyco_recvfrom n len)"
| "sock_perform (Send fuel n buf) = answer id (dyco_send fuel n buf)"
| "sock_perform (SendTo fuel n buf) = answer id (dyco_sendto fuel n buf)"
| "sock_perform (Close n) = answer id (dyco_close n)"
| "sock_perform (SslAccept fuel n) = answer id (dyco_SSL_accept fuel n)"
| "sock_perform (SslConnect fuel n) = answer id (dyco_SSL_connect fuel n)"
| "sock_perform (SslRead fuel n num) = answer_bytes (dyco_SSL_read fuel n num)"
| "sock_perform (SslWrite fuel n num) = answer id (dyco_SSL_write fuel n num)"

fun perform :: "call \<Rightarrow> reply M" where
  "perform (Sem x) = sem_perform x"
| "perform (Chan x) = chan_perform x"
| "perform (PubSub x) = ps_perform x"
| "perform (WaitGroup x) = wg_perform x"
| "perform (Co x) = co_perform x"
| "perform (Asym x) = asym_perform x"
| "perform (Pool x) = pool_perform x"
| "perform (Sched x) = sched_perform x"
| "perform (IO x) = io_perform x"
| "perform (Sock x) = sock_perform x"

text \<open>A coroutine's function: it ends, or makes a call and goes on as the reply says.\<close>

datatype client = Stop | Call call "reply \<Rightarrow> client"

primrec run_client :: "client \<Rightarrow> unit M" where
  "run_client Stop = ret ()"
| "run_client (Call x k) = bind (perform x) (\<lambda>r. run_client (k r))"

lemma stable_answer: "stable comm_ok m \<Longrightarrow> stable comm_ok (answer f m)" "stable comm_ok m' \<Longrightarrow> stable comm_ok (answer_bytes m')"
  unfolding answer_def answer_bytes_def by (intro stable_intros; assumption)+

lemma stable_pools: "stable comm_ok (pool_perform x)"
  unfolding pool_perform.simps
  by (cases x) (simp_all add: stable_answer stable_detached detached_pool2 detached_pool3 detached_pool4 dyco_coropool_create_def
      dyco_coropool_resize_def dyco_coropool_destroy_def dyco_coropool_obtain_def dyco_coropool_obtain_urgent_def
      dyco_asymcpool_create_def dyco_asymcpool_resize_def dyco_asymcpool_destroy_def dyco_asymcpool_obtain_def)

lemma stable_perform: "stable comm_ok (perform x)"
proof (cases x)
  case (Sem y)
  then show ?thesis by (cases y) (simp_all add: stable_answer stable_semaphore_create stable_semaphore_destroy stable_semaphore_wait stable_semaphore_signal)
next
  case (Chan y)
  then show ?thesis by (cases y) (simp_all add: stable_answer stable_channel_create stable_channel_destroy stable_channel_send stable_channel_recv)
next
  case (PubSub y)
  then show ?thesis by (cases y) (simp_all add: stable_answer stable_pubsub_create stable_pubsub_destroy stable_pubsub_publish stable_pubsub_subscribe)
next
  case (WaitGroup y)
  then show ?thesis
    by (cases y) (simp_all add: stable_answer stable_waitgroup_create stable_waitgroup_destroy stable_waitgroup_add stable_waitgroup_done stable_waitgroup_wait)
next
  case (Co y)
  then show ?thesis
    by (cases y) (simp_all add: stable_answer stable_detached detached_coro1 detached_coro2 detached_coro3 detached_coro4 detached_coro5)
next
  case (Asym y)
  then show ?thesis by (cases y) (simp_all add: stable_answer stable_detached detached_asym detached_asym2)
next
  case (Sched y)
  then show ?thesis by (cases y) (simp_all add: stable_answer stable_detached detached_abort)
next
  case (IO y)
  then show ?thesis by (cases y) (simp_all add: stable_answer stable_epoll stable_poll stable_signals)
next
  case (Sock y)
  then show ?thesis by (cases y) (simp_all add: stable_answer stable_sockets stable_ssl)
qed (simp add: stable_pools)

lemma stable_client: "stable comm_ok (run_client x)"
proof (induction x)
  case Stop
  show ?case unfolding run_client.simps by (rule stable_detached [OF detached_ret])
next
  case (Call x k)
  show ?case unfolding run_client.simps by (intro stable_bind stable_perform Call.IH) simp
qed

text \<open>
  C1: the communication objects under every interleaving. Take any program whose coroutines are made of calls of
  the interface of the library, started in any state in which every semaphore has a value between 0 and its maximum
  and no waiters when the value is positive, every channel that holds a message holds a non-empty one, and every
  publish/subscribe channel's message fits its buffer and is non-empty while it is being published (\<open>comm_ok\<close>; wait groups
  take part in the run, but no claim is made of their counters, which can wrap around). Whatever the clock, the kernel and the allocator do, and however often the
  coroutines switch, the state in which the run ends is such a state again.
\<close>

theorem comm_invariant_run:
  assumes "comm_ok w" and "machine (\<lambda>f a. run_client (code f a)) n Map.empty (dyco_schedule_run fuel w) = Finished r w'"
  shows "comm_ok w'"
proof -
  have "stable (\<lambda>w. comm_inv (comm_view w)) (run_client (code f a))" for f a
    using stable_client by (simp add: comm_inv_view)
  from run_keeps [of comm_inv, OF this _ assms(2)] assms(1) show ?thesis by (simp add: comm_inv_view)
qed

text \<open>A coroutine that signals a semaphore, run to its end.\<close>

theorem comm_invariant_run_witness:
  "\<exists>w'. machine (\<lambda>f a. run_client (Call (Sem (SemSignal 20)) (\<lambda>_. Stop))) 4 Map.empty
      (dyco_schedule_run 3 (world1\<lparr>sems := [20 \<mapsto> \<lparr>semval = 0, wqueue = NULL, wtail = NULL\<rparr>]\<rparr>)) = Finished 0 w' \<and>
    comm_ok w' \<and> map_option semval (sems w' 20) = Some 1"
proof -
  let ?w = "world1\<lparr>sems := [20 \<mapsto> \<lparr>semval = 0, wqueue = NULL, wtail = NULL\<rparr>]\<rparr>"
  let ?code = "\<lambda>f a. Call (Sem (SemSignal 20)) (\<lambda>_. Stop)"
  let ?run = "machine (\<lambda>f a. run_client (?code f a)) (Suc (Suc (Suc (Suc 0)))) Map.empty (dyco_schedule_run (Suc (Suc (Suc 0))) ?w)"
  have "(case ?run of Finished r w' \<Rightarrow> r = 0 \<and> map_option semval (sems w' 20) = Some 1 | Crashed e \<Rightarrow> False)"
    by (simp add: run_eval sched1_def world1_def dyco_semaphore_signal_def DYCO_SEM_VALUE_MAX_def answer_def cong: run_later)
  then obtain w' where r: "?run = Finished 0 w'" "map_option semval (sems w' 20) = Some 1"
    by (cases ?run) (simp_all del: machine.simps run_client.simps)
  have "comm_ok ?w" by (simp add: comm_ok_def sem_ok_def each_def world1_def)
  from comm_invariant_run [OF this r(1)] r show ?thesis by (simp only: numeral_eq_Suc pred_numeral_simps arith_simps) blast
qed

end
