(* ===== verification/Channel_Correct.thy ===== *)
theory Channel_Correct
  imports Comm_Inv Run_Eval
begin

text \<open>
  What a channel promises: it is a one-place buffer. The interface is the locale \<open>one_place\<close>; the channel
  of the code implements it, whoever is waiting on it.
\<close>

section \<open>One-place buffers\<close>

text \<open>
  A buffer with room for one message of at most \<open>cap\<close> bytes. Sending into the empty buffer and receiving
  from the full one succeed at once; otherwise a call that does not wait changes nothing.
\<close>

locale one_place =
  fixes wf :: "'s \<Rightarrow> bool"
    and contents :: "'s \<Rightarrow> byte list option"
    and cap :: "'s \<Rightarrow> nat"
    and put :: "byte list \<Rightarrow> ('s, int) comp"
    and get :: "('s, int \<times> byte list option) comp"
  assumes put_empty: "wf s \<Longrightarrow> contents s = None \<Longrightarrow> m \<noteq> [] \<Longrightarrow> length m \<le> cap s \<Longrightarrow>
      \<exists>s'. put m s = Done (int (length m)) s' \<and> wf s' \<and> contents s' = Some m \<and> cap s' = cap s"
    and put_full: "wf s \<Longrightarrow> contents s = Some m' \<Longrightarrow>
      \<exists>r s'. put m s = Done r s' \<and> r \<le> 0 \<and> wf s' \<and> contents s' = Some m' \<and> cap s' = cap s"
    and get_full: "wf s \<Longrightarrow> contents s = Some m \<Longrightarrow>
      \<exists>s'. get s = Done (int (length m), Some m) s' \<and> wf s' \<and> contents s' = None \<and> cap s' = cap s"
    and get_empty: "wf s \<Longrightarrow> contents s = None \<Longrightarrow>
      \<exists>r s'. get s = Done (r, None) s' \<and> r \<le> 0 \<and> wf s' \<and> contents s' = None \<and> cap s' = cap s"

text \<open>A producer and a consumer taking turns.\<close>

primrec relay :: "(byte list \<Rightarrow> ('s, int) comp) \<Rightarrow> ('s, int \<times> byte list option) comp \<Rightarrow> byte list list \<Rightarrow> ('s, byte list list) comp" where
  "relay put get [] = ret []"
| "relay put get (m # ms) =
    seq (put m) (bind get (\<lambda>(_, r). bind (relay put get ms) (\<lambda>rs. ret (case r of None \<Rightarrow> rs | Some x \<Rightarrow> x # rs))))"

context one_place
begin

lemma put_get:
  assumes "wf s" "contents s = None" "m \<noteq> []" "length m \<le> cap s"
  shows "\<exists>s1 s2. put m s = Done (int (length m)) s1 \<and> get s1 = Done (int (length m), Some m) s2 \<and> wf s2 \<and>
    contents s2 = None \<and> cap s2 = cap s"
  using put_empty [OF assms] get_full by fastforce

lemma relay_all:
  "wf s \<Longrightarrow> contents s = None \<Longrightarrow> \<forall>m \<in> set ms. m \<noteq> [] \<and> length m \<le> cap s \<Longrightarrow>
    \<exists>s'. relay put get ms s = Done ms s' \<and> wf s' \<and> contents s' = None"
proof (induction ms arbitrary: s)
  case (Cons m ms)
  from Cons.prems put_get [of s m] obtain s1 s2 where r: "put m s = Done (int (length m)) s1" "get s1 = Done (int (length m), Some m) s2"
    "wf s2" "contents s2 = None" "cap s2 = cap s" by auto
  with Cons.prems Cons.IH [of s2] obtain s' where s': "relay put get ms s2 = Done ms s'" "wf s'" "contents s' = None" by auto
  have "relay put get (m # ms) s = Done (m # ms) s'"
    by (simp add: seq_Done [where m = "put m", OF r(1)] bind_Done [where m = get, OF r(2)] bind_Done [where m = "relay put get ms", OF s'(1)])
  with s' show ?case by blast
qed simp

end

section \<open>The channel as a one-place buffer\<close>

definition chan_wf :: "addr \<Rightarrow> world \<Rightarrow> bool" where
  "chan_wf p w = (p \<noteq> NULL \<and> (case chans w p of None \<Rightarrow> False | Some cn \<Rightarrow>
     (case bytes w (ch_msg cn) of None \<Rightarrow> False | Some msg \<Rightarrow>
        length msg = ch_maxsize cn \<and> ch_msglen cn \<le> ch_maxsize cn \<and>
        ch_status cn \<in> {HDC_STATUS_EMPTY, HDC_STATUS_FULL, HDC_STATUS_WANTREAD, HDC_STATUS_WANTWRITE})))"

definition chan_contents :: "addr \<Rightarrow> world \<Rightarrow> byte list option" where
  "chan_contents p w = (case chans w p of None \<Rightarrow> None | Some cn \<Rightarrow>
     if holds_message (ch_status cn) then map_option (take (ch_msglen cn)) (bytes w (ch_msg cn)) else None)"

definition chan_cap :: "addr \<Rightarrow> world \<Rightarrow> nat" where
  "chan_cap p w = (case chans w p of None \<Rightarrow> 0 | Some cn \<Rightarrow> ch_maxsize cn)"

lemma chan_wfE:
  assumes "chan_wf p w"
  obtains cn msg where "p \<noteq> NULL" "chans w p = Some cn" "bytes w (ch_msg cn) = Some msg" "length msg = ch_maxsize cn"
    "ch_msglen cn \<le> ch_maxsize cn" "ch_status cn \<in> {HDC_STATUS_EMPTY, HDC_STATUS_FULL, HDC_STATUS_WANTREAD, HDC_STATUS_WANTWRITE}"
  using assms by (auto simp: chan_wf_def split: option.splits)

lemma fds_same: "\<exists>d. w = w\<lparr>fds := d\<rparr>"
  by (rule exI [of _ "fds w"]) simp

lemma eventfd_write_run: "\<exists>r d. eventfd_write n v w = Done r (w\<lparr>fds := d\<rparr>)"
  by (auto simp: eventfd_write_def fds_same split: option.splits fdesc.splits)

lemma notify_run:
  assumes "chans w p = Some cn"
  obtains d where "hdc_notify p n w = Done () (w\<lparr>fds := d\<rparr>)"
proof -
  from eventfd_write_run [of n "hdc_no (ch_status cn)" w] obtain r d where "eventfd_write n (hdc_no (ch_status cn)) w = Done r (w\<lparr>fds := d\<rparr>)"
    by blast
  with assms that show thesis
    by (simp add: hdc_notify_def seq_Done [where m = "eventfd_write n (hdc_no (ch_status cn))"])
qed

lemma fill_run:
  assumes "chan_wf p w" "chans w p = Some cn" "bytes w (ch_msg cn) = Some msg" "length buf \<le> ch_maxsize cn"
  shows "hdc_fill p buf (length buf) w = Done () (w\<lparr>bytes := (bytes w)(ch_msg cn \<mapsto> buf @ drop (length buf) msg),
    chans := (chans w)(p \<mapsto> cn\<lparr>ch_msglen := length buf, ch_status := HDC_STATUS_FULL\<rparr>)\<rparr>)"
  using assms by (auto simp: hdc_fill_def chan_wf_def)

lemma drain_run:
  assumes "chan_wf p w" "chans w p = Some cn" "bytes w (ch_msg cn) = Some msg" "ch_maxsize cn \<le> maxsize"
  shows "hdc_drain p maxsize w = Done (int (ch_msglen cn), Some (take (ch_msglen cn) msg))
    (w\<lparr>chans := (chans w)(p \<mapsto> cn\<lparr>ch_status := HDC_STATUS_EMPTY\<rparr>)\<rparr>)"
  using assms by (auto simp: hdc_drain_def chan_wf_def)

text \<open>The state after a message has been stored and after one has been taken, up to the event counters.\<close>

lemma filled_state:
  assumes "chan_wf p w" "chans w p = Some cn" "bytes w (ch_msg cn) = Some msg" "buf \<noteq> []" "length buf \<le> ch_maxsize cn"
    and w': "w' = w\<lparr>bytes := (bytes w)(ch_msg cn \<mapsto> buf @ drop (length buf) msg),
    chans := (chans w)(p \<mapsto> cn\<lparr>ch_msglen := length buf, ch_status := HDC_STATUS_FULL\<rparr>), fds := d\<rparr>"
  shows "chan_wf p w' \<and> chan_contents p w' = Some buf \<and> chan_cap p w' = chan_cap p w"
  using assms by (auto simp: chan_wf_def chan_contents_def chan_cap_def holds_message_def)

lemma drained_state:
  assumes "chan_wf p w" "chans w p = Some cn"
    and w': "w' = w\<lparr>chans := (chans w)(p \<mapsto> cn\<lparr>ch_status := HDC_STATUS_EMPTY\<rparr>), fds := d\<rparr>"
  shows "chan_wf p w' \<and> chan_contents p w' = None \<and> chan_cap p w' = chan_cap p w"
  using assms by (auto simp: chan_wf_def chan_contents_def chan_cap_def holds_message_def split: option.splits)

lemma send_into_empty:
  assumes w: "chan_wf p w" "chan_contents p w = None" and m: "buf \<noteq> []" "length buf \<le> chan_cap p w"
  shows "\<exists>w'. dyco_channel_send p buf (length buf) t w = Done (int (length buf)) w' \<and> chan_wf p w' \<and>
    chan_contents p w' = Some buf \<and> chan_cap p w' = chan_cap p w"
proof -
  from w(1) obtain cn msg where c: "p \<noteq> NULL" "chans w p = Some cn" "bytes w (ch_msg cn) = Some msg" "length msg = ch_maxsize cn"
    "ch_msglen cn \<le> ch_maxsize cn" "ch_status cn \<in> {HDC_STATUS_EMPTY, HDC_STATUS_FULL, HDC_STATUS_WANTREAD, HDC_STATUS_WANTWRITE}"
    by (rule chan_wfE)
  have cap: "length buf \<le> ch_maxsize cn" using m(2) c(2) by (simp add: chan_cap_def)
  let ?w1 = "w\<lparr>bytes := (bytes w)(ch_msg cn \<mapsto> buf @ drop (length buf) msg),
    chans := (chans w)(p \<mapsto> cn\<lparr>ch_msglen := length buf, ch_status := HDC_STATUS_FULL\<rparr>)\<rparr>"
  note f = seq_Done [where m = "hdc_fill p buf (length buf)", OF fill_run [OF w(1) c(2,3) cap]]
  from notify_run [of ?w1 p _ "r_notifyfd cn"] obtain d where n: "hdc_notify p (r_notifyfd cn) ?w1 = Done () (?w1\<lparr>fds := d\<rparr>)" by auto
  have st: "ch_status cn = HDC_STATUS_EMPTY \<or> ch_status cn = HDC_STATUS_WANTREAD"
    using w(2) c by (auto simp: chan_contents_def holds_message_def)
  have "\<exists>e. dyco_channel_send p buf (length buf) t w = Done (int (length buf)) (?w1\<lparr>fds := e\<rparr>)"
  proof (cases "ch_status cn = HDC_STATUS_EMPTY")
    case True
    then show ?thesis using c(1,2) m(1) cap by (intro exI [of _ "fds w"]) (simp add: dyco_channel_send_def f del: fun_upd_apply)
  next
    case False
    with st c(1,2) m(1) cap show ?thesis
      by (intro exI [of _ d]) (simp add: dyco_channel_send_def f seq_Done [where m = "hdc_notify p (r_notifyfd cn)", OF n] del: fun_upd_apply)
  qed
  with filled_state [OF w(1) c(2,3) m(1) cap refl] show ?thesis by blast
qed

lemma recv_from_full:
  assumes w: "chan_wf p w" "chan_contents p w = Some buf" and m: "chan_cap p w \<le> maxsize"
  shows "\<exists>w'. dyco_channel_recv p maxsize t w = Done (int (length buf), Some buf) w' \<and> chan_wf p w' \<and>
    chan_contents p w' = None \<and> chan_cap p w' = chan_cap p w"
proof -
  from w(1) obtain cn msg where c: "p \<noteq> NULL" "chans w p = Some cn" "bytes w (ch_msg cn) = Some msg" "length msg = ch_maxsize cn"
    "ch_msglen cn \<le> ch_maxsize cn" "ch_status cn \<in> {HDC_STATUS_EMPTY, HDC_STATUS_FULL, HDC_STATUS_WANTREAD, HDC_STATUS_WANTWRITE}"
    by (rule chan_wfE)
  have cap: "ch_maxsize cn \<le> maxsize" using m c(2) by (simp add: chan_cap_def)
  have b: "holds_message (ch_status cn)" "buf = take (ch_msglen cn) msg" using w(2) c by (auto simp: chan_contents_def split: if_splits)
  let ?w1 = "w\<lparr>chans := (chans w)(p \<mapsto> cn\<lparr>ch_status := HDC_STATUS_EMPTY\<rparr>)\<rparr>"
  have dr: "hdc_drain p maxsize w = Done (int (length buf), Some buf) ?w1"
    using drain_run [OF w(1) c(2,3) cap] b(2) c(4,5) by simp
  from notify_run [of ?w1 p _ "w_notifyfd cn"] obtain d where n: "hdc_notify p (w_notifyfd cn) ?w1 = Done () (?w1\<lparr>fds := d\<rparr>)" by auto
  have "\<exists>e. dyco_channel_recv p maxsize t w = Done (int (length buf), Some buf) (?w1\<lparr>fds := e\<rparr>)"
  proof (cases "ch_status cn = HDC_STATUS_FULL")
    case True
    then show ?thesis using c(1,2) cap dr by (intro exI [of _ "fds w"]) (simp add: dyco_channel_recv_def del: fun_upd_apply)
  next
    case False
    with b(1) c(1,2) cap show ?thesis
      by (intro exI [of _ d]) (simp add: dyco_channel_recv_def holds_message_def bind_Done [where m = "hdc_drain p maxsize", OF dr]
          seq_Done [where m = "hdc_notify p (w_notifyfd cn)", OF n] del: fun_upd_apply)
  qed
  with drained_state [OF w(1) c(2) refl] show ?thesis by blast
qed

lemma send_into_full:
  assumes w: "chan_wf p w" "chan_contents p w = Some buf'"
  shows "\<exists>r w'. dyco_channel_send p buf (length buf) 0 w = Done r w' \<and> r \<le> 0 \<and> chan_wf p w' \<and>
    chan_contents p w' = Some buf' \<and> chan_cap p w' = chan_cap p w"
proof -
  from w(1) obtain cn msg where c: "p \<noteq> NULL" "chans w p = Some cn" "bytes w (ch_msg cn) = Some msg" by (rule chan_wfE)
  have "holds_message (ch_status cn)" using w(2) c by (auto simp: chan_contents_def split: if_splits)
  then have st: "ch_status cn = HDC_STATUS_FULL \<or> ch_status cn = HDC_STATUS_WANTWRITE" by (simp add: holds_message_def)
  have "cn\<lparr>ch_status := HDC_STATUS_FULL\<rparr> = cn" if "ch_status cn = HDC_STATUS_FULL" using that by (metis dyco_channel.surjective dyco_channel.update_convs(6))
  then have "\<exists>r. dyco_channel_send p buf (length buf) 0 w = Done r w \<and> r \<le> 0"
    using c(1,2) st by (auto simp: dyco_channel_send_def hdc_wait_def send_after_wait_def fun_upd_idem)
  with w show ?thesis by blast
qed

lemma recv_from_empty:
  assumes w: "chan_wf p w" "chan_contents p w = None"
  shows "\<exists>r w'. dyco_channel_recv p maxsize 0 w = Done (r, None) w' \<and> r \<le> 0 \<and> chan_wf p w' \<and>
    chan_contents p w' = None \<and> chan_cap p w' = chan_cap p w"
proof -
  from w(1) obtain cn msg where c: "p \<noteq> NULL" "chans w p = Some cn" "bytes w (ch_msg cn) = Some msg" "length msg = ch_maxsize cn"
    "ch_msglen cn \<le> ch_maxsize cn" "ch_status cn \<in> {HDC_STATUS_EMPTY, HDC_STATUS_FULL, HDC_STATUS_WANTREAD, HDC_STATUS_WANTWRITE}"
    by (rule chan_wfE)
  have st: "ch_status cn = HDC_STATUS_EMPTY \<or> ch_status cn = HDC_STATUS_WANTREAD"
    using w(2) c by (auto simp: chan_contents_def holds_message_def)
  have "cn\<lparr>ch_status := HDC_STATUS_EMPTY\<rparr> = cn" if "ch_status cn = HDC_STATUS_EMPTY" using that by (metis dyco_channel.surjective dyco_channel.update_convs(6))
  then have "\<exists>r. dyco_channel_recv p maxsize 0 w = Done (r, None) w \<and> r \<le> 0"
    using c(1,2) st by (auto simp: dyco_channel_recv_def hdc_wait_def recv_after_wait_def fun_upd_idem)
  with w show ?thesis by blast
qed

interpretation chan: one_place "\<lambda>w. chan_wf p w \<and> chan_cap p w \<le> maxsize" "chan_contents p" "chan_cap p"
  "\<lambda>m. dyco_channel_send p m (length m) 0" "dyco_channel_recv p maxsize 0" for p maxsize
proof unfold_locales
  fix w m m'
  show "\<exists>s'. dyco_channel_send p m (length m) 0 w = Done (int (length m)) s' \<and> (chan_wf p s' \<and> chan_cap p s' \<le> maxsize) \<and>
      chan_contents p s' = Some m \<and> chan_cap p s' = chan_cap p w"
    if "chan_wf p w \<and> chan_cap p w \<le> maxsize" "chan_contents p w = None" "m \<noteq> []" "length m \<le> chan_cap p w"
    using send_into_empty [of p w m 0] that by auto
  show "\<exists>r s'. dyco_channel_send p m (length m) 0 w = Done r s' \<and> r \<le> 0 \<and> (chan_wf p s' \<and> chan_cap p s' \<le> maxsize) \<and>
      chan_contents p s' = Some m' \<and> chan_cap p s' = chan_cap p w"
    if "chan_wf p w \<and> chan_cap p w \<le> maxsize" "chan_contents p w = Some m'"
    using send_into_full [of p w m' m] that by auto
  show "\<exists>s'. dyco_channel_recv p maxsize 0 w = Done (int (length m), Some m) s' \<and> (chan_wf p s' \<and> chan_cap p s' \<le> maxsize) \<and>
      chan_contents p s' = None \<and> chan_cap p s' = chan_cap p w"
    if "chan_wf p w \<and> chan_cap p w \<le> maxsize" "chan_contents p w = Some m"
    using recv_from_full [of p w m maxsize 0] that by auto
  show "\<exists>r s'. dyco_channel_recv p maxsize 0 w = Done (r, None) s' \<and> r \<le> 0 \<and> (chan_wf p s' \<and> chan_cap p s' \<le> maxsize) \<and>
      chan_contents p s' = None \<and> chan_cap p s' = chan_cap p w"
    if "chan_wf p w \<and> chan_cap p w \<le> maxsize" "chan_contents p w = None"
    using recv_from_empty [of p w maxsize] that by auto
qed

section \<open>Properties of channels\<close>

text \<open>
  C4: a channel delivers. Through an empty channel, whoever may be waiting on it, a producer and a
  consumer that take turns transfer every sequence of messages that fit unchanged and in order, and
  leave the channel empty.
\<close>

theorem channel_relay:
  assumes "chan_wf p w" and "chan_contents p w = None" and "chan_cap p w \<le> maxsize"
    and "\<forall>m \<in> set ms. m \<noteq> [] \<and> length m \<le> chan_cap p w"
  shows "\<exists>w'. relay (\<lambda>m. dyco_channel_send p m (length m) 0) (dyco_channel_recv p maxsize 0) ms w = Done ms w' \<and>
    chan_wf p w' \<and> chan_contents p w' = None"
  using chan.relay_all [of p w maxsize ms] assms by blast

definition chan1 :: dyco_channel where
  "chan1 = \<lparr>ch_maxsize = 4, ch_msglen = 0, ch_msg = 30, r_notifyfd = 6, w_notifyfd = 9, ch_status = HDC_STATUS_WANTREAD\<rparr>"

definition world_chan :: world where
  "world_chan = (world0 Map.empty zero_schedule)\<lparr>chans := [20 \<mapsto> chan1], bytes := [30 \<mapsto> [0, 0, 0, 0]]\<rparr>"

lemma world_chan_ok: "chan_wf 20 world_chan" "chan_contents 20 world_chan = None" "chan_cap 20 world_chan = 4"
  by (simp_all add: chan_wf_def chan_contents_def chan_cap_def world_chan_def chan1_def holds_message_def)

theorem channel_relay_witness:
  "\<exists>w'. relay (\<lambda>m. dyco_channel_send 20 m (length m) 0) (dyco_channel_recv 20 4 0) [[1, 2], [3, 4, 5, 6]] world_chan = Done [[1, 2], [3, 4, 5, 6]] w'"
  using channel_relay [OF world_chan_ok(1,2), of 4 "[[1, 2], [3, 4, 5, 6]]"] by (auto simp: world_chan_ok(3))

text \<open>
  Handing a message to a waiting receiver. When a receiver waits on its event counter, a send returns
  the length of the message at once and raises the counter by the number of the status FULL; what the
  receiver then finds when it runs again is exactly the message, and the channel is empty afterwards.
\<close>

theorem channel_handover:
  assumes "chan_wf p w" and "chans w p = Some cn" and "ch_status cn = HDC_STATUS_WANTREAD" and "fds w (r_notifyfd cn) = Some (EventFd 0)"
    and "buf \<noteq> []" and "length buf \<le> ch_maxsize cn" and "ch_maxsize cn \<le> maxsize"
  shows "\<exists>w1 w2. dyco_channel_send p buf (length buf) t w = Done (int (length buf)) w1 \<and> fds w1 (r_notifyfd cn) = Some (EventFd 2) \<and>
    recv_after_wait p maxsize w1 = Done (int (length buf), Some buf) w2 \<and> chan_wf p w2 \<and> chan_contents p w2 = None"
proof -
  from assms(1,2) obtain msg where c: "p \<noteq> NULL" "bytes w (ch_msg cn) = Some msg" "length msg = ch_maxsize cn"
    by (auto elim: chan_wfE)
  let ?w1 = "w\<lparr>bytes := (bytes w)(ch_msg cn \<mapsto> buf @ drop (length buf) msg),
    chans := (chans w)(p \<mapsto> cn\<lparr>ch_msglen := length buf, ch_status := HDC_STATUS_FULL\<rparr>)\<rparr>"
  let ?w2 = "?w1\<lparr>fds := (fds w)(r_notifyfd cn \<mapsto> EventFd 2)\<rparr>"
  have n: "hdc_notify p (r_notifyfd cn) ?w1 = Done () ?w2" using assms(4) by (simp add: hdc_notify_def eventfd_write_def)
  have s: "dyco_channel_send p buf (length buf) t w = Done (int (length buf)) ?w2"
    using assms(2,3,5,6) c(1)
    by (simp add: dyco_channel_send_def seq_Done [where m = "hdc_fill p buf (length buf)", OF fill_run [OF assms(1,2) c(2) assms(6)]]
        seq_Done [where m = "hdc_notify p (r_notifyfd cn)", OF n] del: fun_upd_apply)
  have f: "chan_wf p ?w2" "chan_contents p ?w2 = Some buf" "chan_cap p ?w2 = ch_maxsize cn"
    using filled_state [OF assms(1,2) c(2) assms(5,6) refl] assms(2) by (simp_all add: chan_cap_def)
  let ?cn = "cn\<lparr>ch_msglen := length buf, ch_status := HDC_STATUS_FULL\<rparr>"
  let ?w3 = "?w2\<lparr>chans := (chans ?w2)(p \<mapsto> ?cn\<lparr>ch_status := HDC_STATUS_EMPTY\<rparr>)\<rparr>"
  have p: "chans ?w2 p = Some ?cn" "bytes ?w2 (ch_msg ?cn) = Some (buf @ drop (length buf) msg)" "ch_maxsize ?cn \<le> maxsize"
    using assms(7) by simp_all
  have r: "recv_after_wait p maxsize ?w2 = Done (int (length buf), Some buf) ?w3"
    using drain_run [OF f(1) p] by (simp add: recv_after_wait_def)
  have "chan_wf p ?w3 \<and> chan_contents p ?w3 = None"
    using drained_state [OF f(1) p(1), of ?w3 "fds ?w2"] by simp
  with s r show ?thesis by (intro exI [of _ ?w2] exI [of _ ?w3]) simp
qed

theorem channel_handover_witness:
  "\<exists>w1 w2. dyco_channel_send 20 [1, 2, 3] 3 (- 1) world_chan = Done 3 w1 \<and> fds w1 6 = Some (EventFd 2) \<and>
    recv_after_wait 20 4 w1 = Done (3, Some [1, 2, 3]) w2"
proof -
  have "chans world_chan 20 = Some chan1" "fds world_chan (r_notifyfd chan1) = Some (EventFd 0)" by (simp_all add: world_chan_def chan1_def)
  from channel_handover [OF world_chan_ok(1) this(1) _ this(2), of "[1, 2, 3]" 4 "- 1"] show ?thesis unfolding numeral_3_eq_3 by (simp add: chan1_def) blast
qed

text \<open>
  A channel is never destroyed. For every live channel, \<^verbatim>\<open>dyco_channel_destroy\<close> marks it as closing
  and returns: nothing is freed or closed, nobody who waits is notified, and the caller keeps the pointer. (The
  condition that should ask whether the channel is closing assigns instead.)
\<close>

theorem channel_destroy_leaks:
  assumes "p \<noteq> NULL" and "chans w p = Some cn"
  shows "dyco_channel_destroy p w = Done p (w\<lparr>chans := (chans w)(p \<mapsto> cn\<lparr>ch_status := HDC_STATUS_WANTCLOSE\<rparr>)\<rparr>)"
  using assms by (simp add: dyco_channel_destroy_def)

theorem channel_destroy_leaks_witness:
  "\<exists>w'. dyco_channel_destroy 20 world_chan = Done 20 w' \<and> fds w' 6 = Some (EventFd 0) \<and> bytes w' 30 \<noteq> None"
  using channel_destroy_leaks [of 20 world_chan chan1] by (simp add: world_chan_def)

end
