(* ===== verification/Semaphore_Correct.thy ===== *)
theory Semaphore_Correct
  imports Comm_Inv Run_Eval Notify_Correct
begin

text \<open>
  What the operations of semaphores do: tokens are handed to the waiters first come, first served, a token nobody
  waits for is kept for the next wait, and a waiter that gives up leaves its node behind.
\<close>

section \<open>The queue of waiters\<close>

definition sem_rep :: "addr \<Rightarrow> world \<Rightarrow> addr list \<Rightarrow> bool" where
  "sem_rep p w xs = (case sems w p of None \<Rightarrow> False | Some sem \<Rightarrow>
     chain (lnodes w) (wqueue sem) xs \<and> distinct xs \<and> (xs \<noteq> [] \<longrightarrow> wtail sem = last xs))"

lemma sem_rep_fds [simp]: "sem_rep p (w\<lparr>fds := d\<rparr>) xs = sem_rep p w xs"
  by (simp add: sem_rep_def split: option.split)

lemma sem_enqueue_rep:
  assumes "sem_rep p w xs" "lnodes w z = Some nz" "nl_next nz = NULL" "z \<noteq> NULL" "z \<notin> set xs"
  obtains w' where "sem_enqueue p z w = Done () w'" "sem_rep p w' (xs @ [z])" "map_option semval (sems w' p) = map_option semval (sems w p)"
proof -
  from assms(1) obtain sem where s: "sems w p = Some sem" "chain (lnodes w) (wqueue sem) xs" "distinct xs" "xs \<noteq> [] \<longrightarrow> wtail sem = last xs"
    by (auto simp: sem_rep_def split: option.splits)
  show thesis
  proof (cases xs rule: rev_cases)
    case Nil
    then have "sem_enqueue p z w = Done () (w\<lparr>sems := (sems w)(p \<mapsto> sem\<lparr>wqueue := z, wtail := z\<rparr>)\<rparr>)"
      using s by (simp add: sem_enqueue_def)
    then show thesis by (rule that) (use Nil s assms in \<open>simp_all add: sem_rep_def\<close>)
  next
    case (snoc ys y)
    have q: "wqueue sem \<noteq> NULL" using s(2) snoc by (cases ys) auto
    from chain_live [OF s(2)] snoc obtain nd where nd: "lnodes w y = Some nd" by auto
    have "sem_enqueue p z w = Done () (w\<lparr>lnodes := (lnodes w)(y \<mapsto> nd\<lparr>nl_next := z\<rparr>), sems := (sems w)(p \<mapsto> sem\<lparr>wtail := z\<rparr>)\<rparr>)"
      using s q snoc nd by (simp add: sem_enqueue_def)
    then show thesis
      by (rule that) (use snoc s assms nd chain_snoc [of "lnodes w" "wqueue sem" ys y nd z nz] in \<open>simp_all add: sem_rep_def\<close>)
  qed
qed

text \<open>One signal to a semaphore with waiters.\<close>

lemma signal_waiter:
  assumes rep: "sem_rep p w (x # xs)" and p: "p \<noteq> NULL" "sems w p = Some sem" "semval sem \<noteq> int DYCO_SEM_VALUE_MAX" "in_coroutine w"
    and f: "fds w (waiter_fd w x) = Some (EventFd 0)"
  obtains w' where "dyco_semaphore_signal p w = Done 0 w'" "sem_rep p w' xs" "lnodes w' = (lnodes w)(x := None)"
    "map_option semval (sems w' p) = Some (semval sem)" "fds w' = (fds w)(waiter_fd w x \<mapsto> EventFd 1)" "in_coroutine w'"
proof -
  from rep p(2) obtain nd where nd: "lnodes w x = Some nd" "x \<noteq> NULL" "wqueue sem = x" "chain (lnodes w) (nl_next nd) xs"
    "distinct (x # xs)" "wtail sem = last (x # xs)" by (auto simp: sem_rep_def split: option.splits)
  have n: "waiter_fd w x = notifyfd nd" using nd by (simp add: waiter_fd_def)
  let ?sem = "if xs = [] then sem\<lparr>wqueue := NULL, wtail := NULL\<rparr> else sem\<lparr>wqueue := nl_next nd\<rparr>"
  let ?w' = "w\<lparr>sems := (sems w)(p \<mapsto> ?sem), fds := (fds w)(notifyfd nd \<mapsto> EventFd 1), lnodes := (lnodes w)(x := None)\<rparr>"
  have tail: "wtail sem = wqueue sem \<longleftrightarrow> xs = []" using nd(3,5,6) by (metis distinct.simps(2) last.simps last_in_set)
  from with_current_run [OF p(4)] have "dyco_semaphore_signal p w = Done 0 ?w'"
    using p nd f n tail
    by (cases "xs = []") (auto simp: dyco_semaphore_signal_def with_current_def in_coroutine_def sem_notify_def eventfd_write_def Let_def split: option.splits)
  moreover have "chain ((lnodes w)(x := None)) (nl_next nd) xs"
    using nd(4,5) by (subst chain_cong [of xs _ "lnodes w"]) auto
  then have "sem_rep p ?w' xs" using nd(4-6) by (auto simp: sem_rep_def)
  moreover have "in_coroutine ?w'" using p(4) by (simp add: in_coroutine_def)
  ultimately show thesis by (intro that [of ?w']) (use n in simp_all)
qed

lemma signals_run:
  assumes "sem_rep p w (xs @ ys)" "p \<noteq> NULL" "sems w p = Some sem" "semval sem \<noteq> int DYCO_SEM_VALUE_MAX" "in_coroutine w"
    "\<forall>x \<in> set xs. fds w (waiter_fd w x) = Some (EventFd 0)" "distinct (map (waiter_fd w) xs)"
  shows "\<exists>w'. repeatM (length xs) (seq (dyco_semaphore_signal p) (ret ())) w = Done () w' \<and> sem_rep p w' ys \<and>
    map_option semval (sems w' p) = Some (semval sem) \<and> lnodes w' = (\<lambda>y. if y \<in> set xs then None else lnodes w y) \<and>
    fds w' = (\<lambda>n. if n \<in> waiter_fd w ` set xs then Some (EventFd 1) else fds w n) \<and> in_coroutine w'"
  using assms
proof (induction xs arbitrary: w sem)
  case (Cons x xs)
  have "fds w (waiter_fd w x) = Some (EventFd 0)" using Cons.prems(6) by simp
  from signal_waiter [OF Cons.prems(1) [simplified] Cons.prems(2-5) this] obtain w1 where
    w1: "dyco_semaphore_signal p w = Done 0 w1" "sem_rep p w1 (xs @ ys)" "lnodes w1 = (lnodes w)(x := None)"
      "map_option semval (sems w1 p) = Some (semval sem)" "fds w1 = (fds w)(waiter_fd w x \<mapsto> EventFd 1)" "in_coroutine w1" by blast
  have d: "x \<notin> set xs" using Cons.prems(1) by (auto simp: sem_rep_def split: option.splits)
  have fd: "waiter_fd w1 y = waiter_fd w y" if "y \<in> set xs" for y using that d w1(3) by (auto simp: waiter_fd_def)
  from w1(4) obtain sem1 where s1: "sems w1 p = Some sem1" "semval sem1 = semval sem" by auto
  have p1: "semval sem1 \<noteq> int DYCO_SEM_VALUE_MAX" using s1 Cons.prems(4) by simp
  have p2: "\<forall>y \<in> set xs. fds w1 (waiter_fd w1 y) = Some (EventFd 0)" using Cons.prems(6,7) fd w1(5) by (simp, metis imageI)
  have p3: "distinct (map (waiter_fd w1) xs)" using Cons.prems(7) fd by (simp cong: map_cong)
  from Cons.IH [OF w1(2) Cons.prems(2) s1(1) p1 w1(6) p2 p3] obtain w' where
    r: "repeatM (length xs) (seq (dyco_semaphore_signal p) (ret ())) w1 = Done () w'" "sem_rep p w' ys"
      "map_option semval (sems w' p) = Some (semval sem1)" "lnodes w' = (\<lambda>y. if y \<in> set xs then None else lnodes w1 y)"
      "fds w' = (\<lambda>n. if n \<in> waiter_fd w1 ` set xs then Some (EventFd 1) else fds w1 n)" "in_coroutine w'" by blast
  have "repeatM (length (x # xs)) (seq (dyco_semaphore_signal p) (ret ())) w = Done () w'"
    using r(1) by (simp add: seq_Done [where m = "dyco_semaphore_signal p", OF w1(1)])
  moreover have "lnodes w' = (\<lambda>y. if y \<in> set (x # xs) then None else lnodes w y)" using r(4) w1(3) by auto
  moreover have "fds w' = (\<lambda>n. if n \<in> waiter_fd w ` set (x # xs) then Some (EventFd 1) else fds w n)"
  proof -
    have "waiter_fd w1 ` set xs = waiter_fd w ` set xs" by (rule image_cong) (simp_all add: fd)
    then show ?thesis by (simp add: r(5) w1(5) fun_eq_iff)
  qed
  moreover have "map_option semval (sems w' p) = Some (semval sem)" using r(3) s1(2) by simp
  ultimately show ?case using r(2,6) by (intro exI [of _ w'] conjI)
qed simp

section \<open>Properties of semaphores\<close>

text \<open>
  C5: first come, first served. If the waiters of a semaphore are \<open>xs @ ys\<close>, in the order in which they
  queued, each with a fresh counter of its own, then \<open>length xs\<close> signals succeed, raise the counters of
  exactly the waiters in \<open>xs\<close> by 1, free their nodes, leave \<open>ys\<close> in the queue and do not change the
  value.
\<close>

theorem semaphore_fifo:
  assumes "sem_rep p w (xs @ ys)" and "p \<noteq> NULL" and "sems w p = Some sem" and "semval sem \<noteq> int DYCO_SEM_VALUE_MAX" and "in_coroutine w"
    and "\<forall>x \<in> set xs. fds w (waiter_fd w x) = Some (EventFd 0)" and "distinct (map (waiter_fd w) xs)"
  shows "\<exists>w'. repeatM (length xs) (seq (dyco_semaphore_signal p) (ret ())) w = Done () w' \<and> sem_rep p w' ys \<and>
    map_option semval (sems w' p) = Some (semval sem) \<and> lnodes w' = (\<lambda>y. if y \<in> set xs then None else lnodes w y) \<and>
    fds w' = (\<lambda>n. if n \<in> waiter_fd w ` set xs then Some (EventFd 1) else fds w n)"
  using signals_run [OF assms] by blast

definition world_sem :: world where
  "world_sem = (world0 Map.empty (zero_schedule\<lparr>curr_thread := 7\<rparr>))\<lparr>sems := [20 \<mapsto> \<lparr>semval = 0, wqueue = 31, wtail = 32\<rparr>],
     lnodes := [31 \<mapsto> \<lparr>notifyfd = 11, nl_next = 32\<rparr>, 32 \<mapsto> \<lparr>notifyfd = 12, nl_next = NULL\<rparr>],
     fds := [11 \<mapsto> EventFd 0, 12 \<mapsto> EventFd 0]\<rparr>"

theorem semaphore_fifo_witness:
  "\<exists>w'. repeatM 1 (seq (dyco_semaphore_signal 20) (ret ())) world_sem = Done () w' \<and> sem_rep 20 w' [32] \<and>
    fds w' 11 = Some (EventFd 1) \<and> fds w' 12 = Some (EventFd 0)"
proof -
  let ?sem = "\<lparr>semval = 0, wqueue = 31, wtail = 32\<rparr>"
  have "sem_rep 20 world_sem ([31] @ [32])" "sems world_sem 20 = Some ?sem" "in_coroutine world_sem"
    "waiter_fd world_sem 31 = 11" "fds world_sem 11 = Some (EventFd 0)" "fds world_sem 12 = Some (EventFd 0)"
    by (simp_all add: sem_rep_def world_sem_def in_coroutine_def waiter_fd_def)
  with semaphore_fifo [of 20 world_sem "[31]" "[32]" ?sem] show ?thesis by (auto simp: DYCO_SEM_VALUE_MAX_def)
qed

text \<open>
  A token is kept. When nobody waits and the value is below its maximum, a signal and a wait, with any
  time limit, both return 0 without switching and restore the state.
\<close>

theorem semaphore_signal_wait:
  assumes "p \<noteq> NULL" and "sems w p = Some sem" and "wqueue sem = NULL" and "0 \<le> semval sem" and "semval sem < int DYCO_SEM_VALUE_MAX"
  shows "\<exists>w1. dyco_semaphore_signal p w = Done 0 w1 \<and> map_option semval (sems w1 p) = Some (semval sem + 1) \<and>
    dyco_semaphore_wait p t w1 = Done 0 w"
  using assms by (simp add: dyco_semaphore_signal_def dyco_semaphore_wait_def fun_upd_idem)

theorem semaphore_signal_wait_witness:
  "\<exists>w1. dyco_semaphore_signal 20 (world0 Map.empty zero_schedule\<lparr>sems := [20 \<mapsto> \<lparr>semval = 0, wqueue = NULL, wtail = NULL\<rparr>]\<rparr>) = Done 0 w1 \<and>
    dyco_semaphore_wait 20 (- 1) w1 = Done 0 (world0 Map.empty zero_schedule\<lparr>sems := [20 \<mapsto> \<lparr>semval = 0, wqueue = NULL, wtail = NULL\<rparr>]\<rparr>)"
  using semaphore_signal_wait [of 20 "world0 Map.empty zero_schedule\<lparr>sems := [20 \<mapsto> \<lparr>semval = 0, wqueue = NULL, wtail = NULL\<rparr>]\<rparr>"
      "\<lparr>semval = 0, wqueue = NULL, wtail = NULL\<rparr>" "- 1"]
  by (auto simp: DYCO_SEM_VALUE_MAX_def simp del: world0_simps)

lemma signal_closed:
  assumes "sem_rep p w (x # xs)" and "p \<noteq> NULL" and "sems w p = Some sem" and "semval sem \<noteq> int DYCO_SEM_VALUE_MAX" and "in_coroutine w"
    and "fds w (waiter_fd w x) = None"
  shows "dyco_semaphore_signal p w = Fault Exit"
proof -
  from assms(1,3) obtain nd where nd: "lnodes w x = Some nd" "x \<noteq> NULL" "wqueue sem = x" by (auto simp: sem_rep_def split: option.splits)
  then show ?thesis using assms(2-6)
    by (auto simp: dyco_semaphore_signal_def with_current_def in_coroutine_def sem_notify_def eventfd_write_def Let_def
        waiter_fd_def DYCO_MUST_def bind_def [of "asks _"] split: option.splits)
qed

text \<open>
  C32: a wait that times out poisons the semaphore. A waiter \<open>x\<close>, somewhere in the queue, runs again without a
  token: it closes its counter and returns -1, but its node is neither taken out of the queue nor freed. If nothing but signals follows (so that the number of its
  descriptor is not given to another one), the signals for the waiters \<open>xs\<close> before it succeed, and the one that reaches its node writes to the closed descriptor: the check of that
  write ends the process.
\<close>

theorem semaphore_timeout_exits:
  assumes "sem_rep p w (xs @ x # ys)" and "p \<noteq> NULL" and "sems w p = Some sem" and "semval sem \<noteq> int DYCO_SEM_VALUE_MAX" and "in_coroutine w"
    and "\<forall>y \<in> set (xs @ [x]). fds w (waiter_fd w y) = Some (EventFd 0)" and "distinct (map (waiter_fd w) (xs @ [x]))"
  shows "\<exists>w1 w2. sem_finish (waiter_fd w x) w = Done (- 1) w1 \<and> sem_rep p w1 (xs @ x # ys) \<and>
    repeatM (length xs) (seq (dyco_semaphore_signal p) (ret ())) w1 = Done () w2 \<and> dyco_semaphore_signal p w2 = Fault Exit"
proof -
  let ?n = "waiter_fd w x"
  define w1 where "w1 = w\<lparr>fds := (map_option (forget_fd ?n) \<circ> fds w)(?n := None)\<rparr>"
  have f: "sem_finish ?n w = Done (- 1) w1" using assms(6) by (simp add: sem_finish_def eventfd_read_def close_def w1_def)
  have wf: "waiter_fd w1 = waiter_fd w" unfolding w1_def by (rule waiter_fd_cong) simp
  have r: "sem_rep p w1 (xs @ x # ys)" "sems w1 p = Some sem" "in_coroutine w1" using assms(1,3,5) by (simp_all add: w1_def in_coroutine_def)
  have other: "waiter_fd w y \<noteq> ?n" if "y \<in> set xs" for y using assms(7) that by (auto simp: image_iff)
  then have d: "\<forall>y \<in> set xs. fds w1 (waiter_fd w1 y) = Some (EventFd 0)" "distinct (map (waiter_fd w1) xs)"
    using assms(6,7) unfolding wf by (simp_all add: w1_def forget_fd_def)
  from signals_run [OF r(1) assms(2) r(2) assms(4) r(3) d] obtain w2 where
    s: "repeatM (length xs) (seq (dyco_semaphore_signal p) (ret ())) w1 = Done () w2" "sem_rep p w2 (x # ys)" "map_option semval (sems w2 p) = Some (semval sem)"
      "lnodes w2 = (\<lambda>y. if y \<in> set xs then None else lnodes w1 y)" "fds w2 = (\<lambda>n. if n \<in> waiter_fd w1 ` set xs then Some (EventFd 1) else fds w1 n)"
      "in_coroutine w2" by blast
  from s(3) obtain sem2 where s2: "sems w2 p = Some sem2" "semval sem2 = semval sem" by auto
  have "x \<notin> set xs" using other by blast
  then have "waiter_fd w2 x = ?n" using s(4) wf by (simp add: waiter_fd_def w1_def)
  moreover have "fds w2 ?n = None" using s(5) wf assms(7) by (auto simp: w1_def)
  ultimately have "dyco_semaphore_signal p w2 = Fault Exit"
    using signal_closed [OF s(2) assms(2) s2(1) _ s(6)] s2(2) assms(4) by simp
  with f r(1) s(1) show ?thesis by blast
qed

theorem semaphore_timeout_exits_witness:
  "\<exists>w1 w2. sem_finish 12 world_sem = Done (- 1) w1 \<and> repeatM 1 (seq (dyco_semaphore_signal 20) (ret ())) w1 = Done () w2 \<and>
     dyco_semaphore_signal 20 w2 = Fault Exit"
proof -
  let ?sem = "\<lparr>semval = 0, wqueue = 31, wtail = 32\<rparr>"
  have "sem_rep 20 world_sem ([31] @ 32 # [])" "sems world_sem 20 = Some ?sem" "in_coroutine world_sem"
    "waiter_fd world_sem 31 = 11" "waiter_fd world_sem 32 = 12" "fds world_sem 11 = Some (EventFd 0)" "fds world_sem 12 = Some (EventFd 0)"
    by (simp_all add: sem_rep_def world_sem_def in_coroutine_def waiter_fd_def)
  with semaphore_timeout_exits [of 20 world_sem "[31]" 32 "[]" ?sem] show ?thesis by (auto simp: DYCO_SEM_VALUE_MAX_def)
qed

end
