(* ===== verification/Pubsub_Correct.thy ===== *)
theory Pubsub_Correct
  imports Notify_Correct Dyco_Pubsub Timer_Correct "HOL-Library.Multiset"
begin

text \<open>
  What a publish/subscribe channel promises: a message reaches every subscriber, in whatever order they run, and
  the last one tells the publisher; and the paths on which the code does otherwise.
\<close>

section \<open>The list of subscribers\<close>

definition ps_rep :: "addr \<Rightarrow> world \<Rightarrow> addr list \<Rightarrow> bool" where
  "ps_rep p w xs = (case psubs w p of None \<Rightarrow> False | Some ps \<Rightarrow>
     chain (lnodes w) (ps_sublist ps) xs \<and> distinct xs \<and> distinct (map (waiter_fd w) xs) \<and>
     sub_num ps = of_nat (length xs) \<and> length xs \<le> nalloc (heap w))"

lemma waiter_fd_map: "map_option notifyfd (lnodes w' x) = map_option notifyfd (lnodes w x) \<Longrightarrow> waiter_fd w' x = waiter_fd w x"
  by (auto simp: waiter_fd_def split: option.splits)

lemma ps_rep_chain:
  assumes "psubs w p = Some ps" "chain (lnodes w) (ps_sublist ps) xs" "distinct ys" "set xs \<subseteq> set ys" "distinct xs"
    "sub_num ps = of_nat (length xs)" "length xs \<le> nalloc (heap w)" "distinct (map (waiter_fd v) ys)"
    "\<forall>x \<in> set xs. waiter_fd w x = waiter_fd v x"
  shows "ps_rep p w xs"
proof -
  have "inj_on (waiter_fd v) (set xs)" using assms(4,8) by (metis distinct_map inj_on_subset)
  then have "inj_on (waiter_fd w) (set xs)" using assms(9) by (simp cong: inj_on_cong)
  then show ?thesis using assms by (simp add: ps_rep_def distinct_map)
qed

lemma psc_leave_run:
  assumes rep: "ps_rep p w xs" and y: "y \<in> set xs" and f: "fds w (waiter_fd w y) \<noteq> None" and ps: "psubs w p = Some ps"
  obtains w' l where "psc_leave p (waiter_fd w y) w = Done () w'" "ps_rep p w' (remove1 y xs)"
    "psubs w' p = Some (ps\<lparr>sub_num := sub_num ps - 1, ps_sublist := l\<rparr>)" "fds w' = closed (waiter_fd w y) (fds w)"
    "bytes w' = bytes w" "\<forall>x \<in> set (remove1 y xs). waiter_fd w' x = waiter_fd w x"
proof -
  let ?n = "waiter_fd w y"
  from rep ps have r: "chain (lnodes w) (ps_sublist ps) xs" "distinct xs" "distinct (map (waiter_fd w) xs)"
    "sub_num ps = of_nat (length xs)" "length xs \<le> nalloc (heap w)" by (auto simp: ps_rep_def)
  from f obtain e where e: "fds w ?n = Some e" by blast
  from y obtain zs ys where xs: "xs = zs @ y # ys" by (meson split_list)
  have len: "sub_num ps - 1 = of_nat (length (zs @ ys))" using r(4) xs by simp
  have rem: "remove1 y xs = zs @ ys" using r(2) xs by (simp add: remove1_append)
  show thesis
  proof (cases zs)
    case Nil
    from r(1) xs Nil obtain nd where nd: "lnodes w y = Some nd" "ps_sublist ps = y" "chain (lnodes w) (nl_next nd) ys"
      by (auto split: option.splits)
    have n: "?n = notifyfd nd" using nd(1) by (simp add: waiter_fd_def)
    let ?ps = "ps\<lparr>sub_num := sub_num ps - 1, ps_sublist := nl_next nd\<rparr>"
    let ?w = "w\<lparr>psubs := (psubs w)(p \<mapsto> ?ps), fds := closed ?n (fds w), lnodes := (lnodes w)(y := None)\<rparr>"
    have run: "psc_leave p ?n w = Done () ?w"
      using ps nd(1,2) n e by (simp add: psc_leave_def Let_def) (simp add: close_def closed_def)
    have c: "chain (lnodes ?w) (nl_next nd) ys" using nd(3) r(2) xs Nil by (subst chain_cong [of ys _ "lnodes w"]) auto
    have fd: "\<forall>x \<in> set ys. waiter_fd ?w x = waiter_fd w x" using r(2) xs Nil by (auto simp: waiter_fd_def)
    have "ps_rep p ?w ys" by (rule ps_rep_chain [where ps = ?ps and ys = xs and v = w]) (use c fd r xs Nil len in auto)
    then show thesis by (intro that [OF run]) (use rem Nil fd in simp_all)
  next
    case (Cons z zs')
    from r(1) xs Cons obtain nz where z: "lnodes w z = Some nz" "ps_sublist ps = z" by (auto split: option.splits)
    have nz: "notifyfd nz = waiter_fd w z" using z(1) by (simp add: waiter_fd_def)
    have ne: "\<forall>x \<in> set (z # zs'). waiter_fd w x \<noteq> ?n" 
      using r(3) y xs Cons by (simp add: distinct_map) (metis image_eqI)
    let ?ps = "ps\<lparr>sub_num := sub_num ps - 1\<rparr>"
    let ?w0 = "w\<lparr>psubs := (psubs w)(p \<mapsto> ?ps)\<rparr>"
    have wf0: "waiter_fd ?w0 = waiter_fd w" by (rule waiter_fd_cong) simp
    have "\<exists>L. unsubscribe (Suc (nalloc (heap w))) z (nl_next nz) ?n ?w0 = Done () (?w0\<lparr>lnodes := L, fds := closed ?n (fds ?w0)\<rparr>) \<and>
      chain L z (z # zs' @ ys) \<and> L y = None \<and> (\<forall>x. x \<notin> set (z # zs' @ [y]) \<longrightarrow> L x = lnodes ?w0 x) \<and>
      (\<forall>x. x \<noteq> y \<longrightarrow> map_option notifyfd (L x) = map_option notifyfd (lnodes ?w0 x))"
      by (rule unsubscribe_run) (use r xs Cons z ne f wf0 in \<open>auto split: option.splits\<close>)
    then obtain L where L: "unsubscribe (Suc (nalloc (heap w))) z (nl_next nz) ?n ?w0 = Done () (?w0\<lparr>lnodes := L, fds := closed ?n (fds w)\<rparr>)"
      "chain L z (z # zs' @ ys)" "\<forall>x. x \<noteq> y \<longrightarrow> map_option notifyfd (L x) = map_option notifyfd (lnodes w x)" by auto
    let ?w = "?w0\<lparr>lnodes := L, fds := closed ?n (fds w)\<rparr>"
    have run: "psc_leave p ?n w = Done () ?w"
      using ps z nz ne L(1) by (simp add: psc_leave_def Let_def list_fuel_def)
    have fd: "\<forall>x \<in> set (zs @ ys). waiter_fd ?w x = waiter_fd w x"
    proof
      fix x assume "x \<in> set (zs @ ys)"
      then have "x \<noteq> y" using r(2) xs by auto
      then show "waiter_fd ?w x = waiter_fd w x" using L(3) by (intro waiter_fd_map) simp
    qed
    have "ps_rep p ?w (zs @ ys)"
      by (rule ps_rep_chain [where ps = ?ps and ys = xs and v = w]) (use L(2) fd r xs Cons z(2) len in auto)
    then show thesis by (intro that [OF run, of z]) (use rem fd z(2) in simp_all)
  qed
qed

section \<open>A broadcast\<close>

text \<open>
  The subscribers have been notified of status \<open>st\<close> while the buffer held \<open>m\<close>: the counters of those that
  have not run yet hold the status, as many acknowledgements are missing, and the counter \<open>q\<close> of the
  notifier is raised exactly when all have run.
\<close>

definition broadcasting :: "dyco_pubsub_channel_status \<Rightarrow> addr \<Rightarrow> world \<Rightarrow> addr list \<Rightarrow> fd \<Rightarrow> byte list \<Rightarrow> bool" where
  "broadcasting st p w xs q m = (ps_rep p w xs \<and> length xs < 2 ^ 64 \<and> q \<notin> waiter_fd w ` set xs \<and>
     (\<forall>x \<in> set xs. fds w (waiter_fd w x) = Some (EventFd (psc_no st))) \<and>
     fds w q = Some (EventFd (if xs = [] then psc_no st else 0)) \<and>
     (case psubs w p of None \<Rightarrow> False | Some ps \<Rightarrow>
        ps_status ps = st \<and> pub_notifyfd ps = q \<and> ack_rem ps = of_nat (length xs) \<and> ps_msglen ps = length m \<and>
        (\<exists>rest. bytes w (ps_msg ps) = Some (m @ rest))))"

text \<open>What a subscriber gets that is not the last one.\<close>

definition answer_of :: "dyco_pubsub_channel_status \<Rightarrow> byte list \<Rightarrow> int \<times> byte list option" where
  "answer_of st m = (if st = PSC_STATUS_TRANS then (int (length m), Some m) else (- 1, None))"

lemma of_nat_word_0: "n < 2 ^ 64 \<Longrightarrow> (of_nat n :: u64) = 0 \<longleftrightarrow> n = 0"
  by (auto simp: word_of_nat_eq_0_iff dest: dvd_imp_le)

text \<open>One subscriber runs after the notification.\<close>

definition subscriber_runs :: "addr \<Rightarrow> nat \<Rightarrow> fd \<Rightarrow> (int \<times> byte list option) M" where
  "subscriber_runs p maxsize n = bind (psc_acknowledge p n) (psc_result p maxsize)"

lemma acknowledge_step:
  assumes b: "broadcasting st p w xs q m" and y: "y \<in> set xs" and mx: "length m \<le> maxsize"
    and st: "st = PSC_STATUS_TRANS \<or> st = PSC_STATUS_CLOSE"
  obtains w' where "subscriber_runs p maxsize (waiter_fd w y) w =
      Done (if remove1 y xs = [] then (int (length m), Some m) else answer_of st m) w'"
    "broadcasting st p w' (remove1 y xs) q m" "\<forall>x \<in> set (remove1 y xs). waiter_fd w' x = waiter_fd w x"
proof -
  let ?n = "waiter_fd w y"
  from b obtain ps rest where ps: "psubs w p = Some ps" "ps_status ps = st" "pub_notifyfd ps = q"
    "ack_rem ps = of_nat (length xs)" "ps_msglen ps = length m" "bytes w (ps_msg ps) = Some (m @ rest)"
    by (auto simp: broadcasting_def split: option.splits)
  from b have rep: "ps_rep p w xs" and len: "length xs < 2 ^ 64" and q: "q \<notin> waiter_fd w ` set xs"
    and cnt: "\<forall>x \<in> set xs. fds w (waiter_fd w x) = Some (EventFd (psc_no st))" and fq: "fds w q = Some (EventFd 0)"
    using y by (auto simp: broadcasting_def)
  let ?w1 = "w\<lparr>fds := (fds w)(?n \<mapsto> EventFd 0)\<rparr>"
  have wf1: "waiter_fd ?w1 = waiter_fd w" by (rule waiter_fd_cong) simp
  have read: "eventfd_read ?n w = Done (0, psc_no st) ?w1" using cnt y st by (auto simp: eventfd_read_def)
  have "ps_rep p ?w1 xs" using rep wf1 by (simp add: ps_rep_def split: option.splits)
  from psc_leave_run [OF this y, unfolded wf1, of ps] ps(1) obtain w2 l where
    w2: "psc_leave p ?n ?w1 = Done () w2" "ps_rep p w2 (remove1 y xs)" "psubs w2 p = Some (ps\<lparr>sub_num := sub_num ps - 1, ps_sublist := l\<rparr>)"
      "fds w2 = closed ?n (fds ?w1)" "bytes w2 = bytes w" "\<forall>x \<in> set (remove1 y xs). waiter_fd w2 x = waiter_fd w x" by auto
  let ?ps = "ps\<lparr>sub_num := sub_num ps - 1, ps_sublist := l, ack_rem := ack_rem ps - 1\<rparr>"
  let ?last = "remove1 y xs = []"
  let ?w3 = "w2\<lparr>psubs := (psubs w2)(p \<mapsto> ?ps)\<rparr>"
  let ?w' = "if ?last then ?w3\<lparr>fds := (fds w2)(q \<mapsto> EventFd (psc_no st))\<rparr> else ?w3"
  have qn: "q \<noteq> ?n" using q y by auto
  have fq2: "fds w2 q = Some (EventFd 0)" using w2(4) fq qn by simp
  have l1: "length (remove1 y xs) = length xs - 1" using y by (simp add: length_remove1)
  have pos: "0 < length xs" using y by auto
  have ack: "ack_rem ps - 1 = of_nat (length (remove1 y xs))" using ps(4) l1 pos by (cases "length xs") simp_all
  have last: "ack_rem ps - 1 = 0 \<longleftrightarrow> ?last" unfolding ack 
    using of_nat_word_0 [of "length (remove1 y xs)"] len l1 by (metis One_nat_def Suc_pred diff_le_self le_less_trans length_0_conv)
  have run: "subscriber_runs p maxsize ?n w = Done (if ?last then (int (length m), Some m) else answer_of st m) ?w'"
    using st w2(1,3,5) ps mx last fq2
    by (elim disjE; cases ?last)
      (simp_all add: subscriber_runs_def answer_of_def psc_acknowledge_def bind_Done [where m = "eventfd_read _", OF read] seq_Done [where m = "psc_leave _ _", OF w2(1)]
        psc_result_def psc_copy_def psc_pubnotify_def eventfd_write_def DYCO_MUST_def)
  define w' where "w' = ?w'"
  have w': "psubs w' p = Some ?ps" "lnodes w' = lnodes w2" "heap w' = heap w2" "bytes w' = bytes w2"
    "fds w' q = Some (EventFd (if ?last then psc_no st else 0))" "\<And>k. k \<noteq> q \<Longrightarrow> fds w' k = fds w2 k" by (simp_all add: w'_def fq2)
  have wf: "waiter_fd w' = waiter_fd w2" by (rule waiter_fd_cong) (rule w'(2))
  have sub: "set (remove1 y xs) \<subseteq> set xs - {y}" using rep ps(1) by (auto simp: ps_rep_def)
  have "ps_rep p w' (remove1 y xs)" using w2(2,3) wf w'(1-3) by (simp add: ps_rep_def)
  moreover have "\<forall>x \<in> set (remove1 y xs). fds w' (waiter_fd w' x) = Some (EventFd (psc_no st))"
  proof
    fix x assume x: "x \<in> set (remove1 y xs)"
    then have "waiter_fd w x \<noteq> ?n" using rep ps(1) y sub by (auto simp: ps_rep_def distinct_map inj_on_def)
    moreover have "waiter_fd w x \<noteq> q" "fds w (waiter_fd w x) = Some (EventFd (psc_no st))" using x sub q cnt by auto
    ultimately show "fds w' (waiter_fd w' x) = Some (EventFd (psc_no st))" using x w2(4,6) wf w'(6) by simp
  qed
  moreover have "q \<notin> waiter_fd w' ` set (remove1 y xs)" using q w2(6) wf sub by auto
  ultimately have "broadcasting st p w' (remove1 y xs) q m"
    using ps len l1 ack w2(5) w' by (simp add: broadcasting_def)
  then show thesis by (rule that [OF run [folded w'_def]]) (use w2(6) wf in simp)
qed

text \<open>The subscribers run one after the other, in the given order of their counters.\<close>

primrec deliver :: "addr \<Rightarrow> nat \<Rightarrow> fd list \<Rightarrow> (int \<times> byte list option) list M" where
  "deliver p maxsize [] = ret []"
| "deliver p maxsize (n # ns) =
    bind (subscriber_runs p maxsize n) (\<lambda>r. bind (deliver p maxsize ns) (\<lambda>rs. ret (r # rs)))"

lemma deliver_run:
  assumes "broadcasting st p w xs q m" "mset ys = mset xs" "length m \<le> maxsize" "st = PSC_STATUS_TRANS \<or> st = PSC_STATUS_CLOSE"
  shows "\<exists>w'. deliver p maxsize (map (waiter_fd w) ys) w =
      Done (if ys = [] then [] else replicate (length ys - 1) (answer_of st m) @ [(int (length m), Some m)]) w' \<and>
    broadcasting st p w' [] q m"
  using assms(1,2)
proof (induction ys arbitrary: w xs)
  case (Cons y ys)
  have y: "y \<in> set xs" and ys: "mset ys = mset (remove1 y xs)" 
    using Cons.prems(2) by (metis list.set_intros(1) mset_eq_setD, metis mset_remove1 mset.simps(2) add_mset_remove_trivial)
  from acknowledge_step [OF Cons.prems(1) y assms(3,4)] obtain w1 where
    w1: "subscriber_runs p maxsize (waiter_fd w y) w =
        Done (if remove1 y xs = [] then (int (length m), Some m) else answer_of st m) w1"
      "broadcasting st p w1 (remove1 y xs) q m" "\<forall>x \<in> set (remove1 y xs). waiter_fd w1 x = waiter_fd w x" by blast
  from Cons.IH [OF w1(2) ys] obtain w' where
    w': "deliver p maxsize (map (waiter_fd w1) ys) w1 =
        Done (if ys = [] then [] else replicate (length ys - 1) (answer_of st m) @ [(int (length m), Some m)]) w'"
      "broadcasting st p w' [] q m" by blast
  have "set ys = set (remove1 y xs)" using ys by (metis set_mset_mset)
  then have "map (waiter_fd w1) ys = map (waiter_fd w) ys" using w1(3) by simp
  note d = w'(1) [unfolded this]
  have "remove1 y xs = [] \<longleftrightarrow> ys = []" using ys by (metis mset_zero_iff mset_zero_iff_right)
  moreover have "replicate (length ys) (answer_of st m) = answer_of st m # replicate (length ys - 1) (answer_of st m)" if "ys \<noteq> []"
    using that by (cases ys) simp_all
  ultimately show ?case using w'(2) d by (intro exI [of _ w']) (simp add: bind_Done [where m = "subscriber_runs _ _ _", OF w1(1)] bind_Done [where m = "deliver _ _ _", OF d])
qed auto

lemma broadcast_started:
  assumes rep: "ps_rep p w xs" and ne: "xs \<noteq> []" and len: "length xs < 2 ^ 64"
    and cnt: "\<forall>x \<in> set xs. fds w (waiter_fd w x) = Some (EventFd 0)"
    and ps: "psubs w p = Some ps" "ps_status ps = st" "ps_msglen ps = length m" "bytes w (ps_msg ps) = Some (m @ rest)"
    and q: "newfd (environ w) (tick w) = q" "0 \<le> q" "fds w q = None"
  obtains w1 w2 where "psc_subnotify p w = Done () w1" "eventfd 0 w1 = Done q w2"
    "\<exists>w3. ps_set p (\<lambda>ps. ps\<lparr>pub_notifyfd := q\<rparr>) w2 = Done () w3 \<and> broadcasting st p w3 xs q m \<and> waiter_fd w3 = waiter_fd w"
proof -
  from rep ps(1) have r: "chain (lnodes w) (ps_sublist ps) xs" "distinct (map (waiter_fd w) xs)" "sub_num ps = of_nat (length xs)"
    "length xs \<le> nalloc (heap w)" by (auto simp: ps_rep_def)
  let ?t = "raised w xs (psc_no st)"
  let ?w1 = "w\<lparr>fds := ?t, psubs := (psubs w)(p \<mapsto> ps\<lparr>ack_rem := sub_num ps\<rparr>)\<rparr>"
  let ?w2 = "?w1\<lparr>tick := Suc (tick w), fds := ?t(q \<mapsto> EventFd 0)\<rparr>"
  let ?w3 = "?w2\<lparr>psubs := (psubs w)(p \<mapsto> ps\<lparr>ack_rem := sub_num ps, pub_notifyfd := q\<rparr>)\<rparr>"
  have v: "uint (psc_no st) < 2 ^ 64 - 1" by (cases st) simp_all
  have "each_node (\<lambda>n. seq (eventfd_write n (psc_no st)) (ret ())) (Suc (nalloc (heap w))) (ps_sublist ps) w = Done () (w\<lparr>fds := ?t\<rparr>)"
    by (rule notify_all [OF raises_eventfd_write [OF v] r(1) _ r(2) cnt]) (use r(4) in simp)
  then have 1: "psc_subnotify p w = Done () ?w1"
    using ps(1,2) by (simp add: psc_subnotify_def list_fuel_def seq_Done [where m = "each_node _ _ _"] del: each_node.simps ret_app)
  have q': "q \<notin> waiter_fd w ` set xs" using cnt q(3) by auto
  then have 2: "eventfd 0 ?w1 = Done q ?w2" using q by (simp add: eventfd_def open_fd_def raised_def)
  have wf: "waiter_fd ?w3 = waiter_fd w" by (rule waiter_fd_cong) simp
  have "ps_rep p ?w3 xs" using rep ps(1) wf by (simp add: ps_rep_def)
  then have "broadcasting st p ?w3 xs q m" using ps r(3) len ne q' wf by (auto simp: broadcasting_def raised_def)
  with wf have "ps_set p (\<lambda>ps. ps\<lparr>pub_notifyfd := q\<rparr>) ?w2 = Done () ?w3 \<and> broadcasting st p ?w3 xs q m \<and> waiter_fd ?w3 = waiter_fd w" by simp
  then show thesis by (intro that [OF 1 2] exI)
qed

lemma notify_and_deliver:
  assumes "ps_rep p w xs" "xs \<noteq> []" "length xs < 2 ^ 64" "\<forall>x \<in> set xs. fds w (waiter_fd w x) = Some (EventFd 0)"
    and "psubs w p = Some ps" "ps_msglen ps = length m" "bytes w (ps_msg ps) = Some (m @ rest)"
    and "newfd (environ w) (tick w) = q" "0 \<le> q" "fds w q = None" and "mset ys = mset xs" "length m \<le> maxsize"
    and "ps_status ps = st" "st = PSC_STATUS_TRANS \<or> st = PSC_STATUS_CLOSE"
  shows "\<exists>w'. seq (psc_subnotify p) (bind (eventfd 0) (\<lambda>q. seq (ps_set p (\<lambda>ps. ps\<lparr>pub_notifyfd := q\<rparr>))
      (deliver p maxsize (map (waiter_fd w) ys)))) w = Done (replicate (length xs - 1) (answer_of st m) @ [(int (length m), Some m)]) w' \<and>
    ps_rep p w' [] \<and> fds w' q = Some (EventFd (psc_no st))"
proof -
  from broadcast_started [OF assms(1-5,13,6-10)] obtain w1 w2 w3 where
    s: "psc_subnotify p w = Done () w1" "eventfd 0 w1 = Done q w2" "ps_set p (\<lambda>ps. ps\<lparr>pub_notifyfd := q\<rparr>) w2 = Done () w3"
      "broadcasting st p w3 xs q m" "waiter_fd w3 = waiter_fd w" by metis
  have l: "length ys = length xs" using assms(11) by (rule mset_eq_length)
  then have ne: "(if ys = [] then [] else replicate (length ys - 1) (answer_of st m) @ [(int (length m), Some m)]) =
      replicate (length xs - 1) (answer_of st m) @ [(int (length m), Some m)]" using assms(2) by auto
  from deliver_run [OF s(4) assms(11,12,14), unfolded ne] obtain w' where
    d: "deliver p maxsize (map (waiter_fd w) ys) w3 = Done (replicate (length xs - 1) (answer_of st m) @ [(int (length m), Some m)]) w'"
      "broadcasting st p w' [] q m" unfolding s(5) by blast
  then show ?thesis
    by (intro exI [of _ w'] conjI) (simp_all only: seq_Done [where m = "psc_subnotify p", OF s(1)]
        bind_Done [where m = "eventfd 0", OF s(2)] seq_Done [where m = "ps_set p _", OF s(3)], simp_all add: broadcasting_def)
qed

section \<open>Properties of publish/subscribe channels\<close>

text \<open>
  C6: a message reaches everybody. If the subscribers \<open>xs\<close> wait on fresh counters and the buffer holds the
  message \<open>m\<close>, then after \<^verbatim>\<open>psc_subnotify\<close> and the opening of the publisher's counter \<open>q\<close>, each of
  them, in whatever order \<open>ys\<close> they run, receives exactly \<open>m\<close>; at the end the list is empty and \<open>q\<close>
  has been raised.
\<close>

theorem pubsub_broadcast:
  assumes "ps_rep p w xs" and "xs \<noteq> []" and "length xs < 2 ^ 64" and "\<forall>x \<in> set xs. fds w (waiter_fd w x) = Some (EventFd 0)"
    and "psubs w p = Some ps" and "ps_status ps = PSC_STATUS_TRANS" and "ps_msglen ps = length m" and "bytes w (ps_msg ps) = Some (m @ rest)"
    and "newfd (environ w) (tick w) = q" and "0 \<le> q" and "fds w q = None"
    and "mset ys = mset xs" and "length m \<le> maxsize"
  shows "\<exists>w'. seq (psc_subnotify p) (bind (eventfd 0) (\<lambda>q. seq (ps_set p (\<lambda>ps. ps\<lparr>pub_notifyfd := q\<rparr>))
      (deliver p maxsize (map (waiter_fd w) ys)))) w = Done (replicate (length xs) (int (length m), Some m)) w' \<and>
    ps_rep p w' [] \<and> fds w' q = Some (EventFd (psc_no PSC_STATUS_TRANS))"
  using notify_and_deliver [OF assms(1-5,7-13), of PSC_STATUS_TRANS] assms(2,6)
  by (cases xs) (simp_all add: answer_of_def replicate_append_same del: replicate_Suc flip: replicate_Suc)

definition world_ps :: "dyco_pubsub_channel_status \<Rightarrow> world" where
  "world_ps st = (world0 Map.empty (zero_schedule\<lparr>curr_thread := 7\<rparr>))\<lparr>
     psubs := [20 \<mapsto> \<lparr>ps_maxsize = 4, ps_msglen = 2, ps_msg = 30, pub_notifyfd = - 1, sub_num = 2, ack_rem = 0, ps_sublist = 31, ps_status = st\<rparr>],
     bytes := [30 \<mapsto> [1, 2, 0, 0]], lnodes := [31 \<mapsto> \<lparr>notifyfd = 11, nl_next = 32\<rparr>, 32 \<mapsto> \<lparr>notifyfd = 12, nl_next = NULL\<rparr>],
     fds := [11 \<mapsto> EventFd 0, 12 \<mapsto> EventFd 0]\<rparr>"

lemma world_ps_ok: "ps_rep 20 (world_ps st) [31, 32]" "waiter_fd (world_ps st) 31 = 11" "waiter_fd (world_ps st) 32 = 12"
  by (simp_all add: ps_rep_def world_ps_def waiter_fd_def)

lemma world_ps_facts:
  "\<exists>ps. psubs (world_ps st) 20 = Some ps \<and> ps_status ps = st \<and> ps_msglen ps = length ([1, 2] :: byte list) \<and>
    bytes (world_ps st) (ps_msg ps) = Some ([1, 2] @ [0, 0])"
  "\<forall>x \<in> set [31, 32]. fds (world_ps st) (waiter_fd (world_ps st) x) = Some (EventFd 0)"
  "newfd (environ (world_ps st)) (tick (world_ps st)) = 10" "fds (world_ps st) 10 = None" "mset [32, 31] = mset [31, 32 :: addr]"
  by (simp_all add: world_ps_ok) (simp_all add: world_ps_def)

theorem pubsub_broadcast_witness:
  "\<exists>w'. seq (psc_subnotify 20) (bind (eventfd 0) (\<lambda>q. seq (ps_set 20 (\<lambda>ps. ps\<lparr>pub_notifyfd := q\<rparr>)) (deliver 20 4 [12, 11])))
      (world_ps PSC_STATUS_TRANS) = Done [(2, Some [1, 2]), (2, Some [1, 2])] w' \<and> ps_rep 20 w' [] \<and> fds w' 10 = Some (EventFd 2)"
proof -
  from world_ps_facts(1) obtain ps where "psubs (world_ps PSC_STATUS_TRANS) 20 = Some ps" "ps_status ps = PSC_STATUS_TRANS"
    "ps_msglen ps = length ([1, 2] :: byte list)" "bytes (world_ps PSC_STATUS_TRANS) (ps_msg ps) = Some ([1, 2] @ [0, 0])" by blast
  from pubsub_broadcast [OF world_ps_ok(1) _ _ world_ps_facts(2) this world_ps_facts(3) _ world_ps_facts(4,5), of 4] show ?thesis
    by (simp add: world_ps_ok del: deliver.simps)
qed

text \<open>
  C33: the last subscriber misses the end. When the channel is destroyed while subscribers wait, they are notified of
  \<^verbatim>\<open>PSC_STATUS_CLOSE\<close>; all but the last to run get -1, as documented, but the last one returns the length and
  the contents of the previous message as if it had just been published.
\<close>

theorem pubsub_close_stale:
  assumes "ps_rep p w xs" and "xs \<noteq> []" and "length xs < 2 ^ 64" and "\<forall>x \<in> set xs. fds w (waiter_fd w x) = Some (EventFd 0)"
    and "psubs w p = Some ps" and "ps_status ps = PSC_STATUS_CLOSE" and "ps_msglen ps = length m" and "bytes w (ps_msg ps) = Some (m @ rest)"
    and "newfd (environ w) (tick w) = q" and "0 \<le> q" and "fds w q = None"
    and "mset ys = mset xs" and "length m \<le> maxsize"
  shows "\<exists>w'. seq (psc_subnotify p) (bind (eventfd 0) (\<lambda>q. seq (ps_set p (\<lambda>ps. ps\<lparr>pub_notifyfd := q\<rparr>))
      (deliver p maxsize (map (waiter_fd w) ys)))) w =
    Done (replicate (length xs - 1) (- 1, None) @ [(int (length m), Some m)]) w'"
  using notify_and_deliver [OF assms(1-5,7-13), of PSC_STATUS_CLOSE] assms(6) by (auto simp: answer_of_def)

theorem pubsub_close_stale_witness:
  "\<exists>w'. seq (psc_subnotify 20) (bind (eventfd 0) (\<lambda>q. seq (ps_set 20 (\<lambda>ps. ps\<lparr>pub_notifyfd := q\<rparr>)) (deliver 20 4 [12, 11])))
      (world_ps PSC_STATUS_CLOSE) = Done [(- 1, None), (2, Some [1, 2])] w'"
proof -
  from world_ps_facts(1) obtain ps where "psubs (world_ps PSC_STATUS_CLOSE) 20 = Some ps" "ps_status ps = PSC_STATUS_CLOSE"
    "ps_msglen ps = length ([1, 2] :: byte list)" "bytes (world_ps PSC_STATUS_CLOSE) (ps_msg ps) = Some ([1, 2] @ [0, 0])" by blast
  from pubsub_close_stale [OF world_ps_ok(1) _ _ world_ps_facts(2) this world_ps_facts(3) _ world_ps_facts(4,5), of 4] show ?thesis
    by (simp add: world_ps_ok del: deliver.simps)
qed

text \<open>
  Polling ends the process. A subscriber that does not want to wait, on a channel without a publisher, finds the
  status \<^verbatim>\<open>PSC_STATUS_EMPTY\<close>, takes it for its own last acknowledgement, and notifies the publisher
  on a descriptor that is not open: -1 for a new channel, closed after a publication. The failed write
  is fatal.
\<close>

theorem pubsub_poll_exits:
  assumes "p \<noteq> NULL" and "psubs w p = Some ps" and "ps_status ps = PSC_STATUS_EMPTY" and "fds w (pub_notifyfd ps) = None"
    and "bytes w (ps_msg ps) = Some msg" and "ps_msglen ps \<le> length msg" and "length msg = ps_maxsize ps" and "ps_maxsize ps \<le> maxsize"
  shows "dyco_pubsub_subscribe p maxsize 0 w = Fault Exit"
  using assms
  by (simp add: dyco_pubsub_subscribe_def psc_subwait_def psc_result_def psc_copy_def psc_pubnotify_def eventfd_write_def DYCO_MUST_def)

theorem pubsub_poll_exits_witness:
  "\<exists>p w1. dyco_pubsub_create 4 (world0 Map.empty zero_schedule) = Done p w1 \<and> dyco_pubsub_subscribe p 4 0 w1 = Fault Exit"
proof -
  let ?w = "world0 Map.empty zero_schedule"
  have "\<exists>p w1 ps. dyco_pubsub_create 4 ?w = Done p w1 \<and> p \<noteq> NULL \<and> psubs w1 p = Some ps \<and> ps_status ps = PSC_STATUS_EMPTY \<and>
    fds w1 (pub_notifyfd ps) = None \<and> bytes w1 (ps_msg ps) = Some [0, 0, 0, 0] \<and> ps_msglen ps = 0 \<and> ps_maxsize ps = 4"
    by (simp add: dyco_pubsub_create_def bind_def [of "alloc _ _"] alloc_def malloc_def numeral_eq_Suc)
  then show ?thesis using pubsub_poll_exits by fastforce
qed

end
