(* ===== verification/Waitgroup_Correct.thy ===== *)
theory Waitgroup_Correct
  imports Notify_Correct Dyco_Waitgroup Htable_Map Wait_Correct
begin

text \<open>
  What wait groups promise: the tables are sized for the suggestion, members are counted once, and a member that
  is done wakes exactly those who wait for the number reached.
\<close>

section \<open>The width of the tables\<close>

declare width_loop.simps [simp del]

lemma width_loop_bounds:
  "width \<le> width_loop sz width \<and> sz < 2 ^ width_loop sz width \<and> (width < width_loop sz width \<longrightarrow> 2 ^ (width_loop sz width - 1) \<le> sz)"
proof (induction sz width rule: width_loop.induct)
  case (1 sz width)
  show ?case
  proof (cases "drop_bit width sz \<noteq> 0")
    case True
    then have "2 ^ width \<le> sz" by (simp add: drop_bit_eq_div div_greater_zero_iff)
    moreover note 1 [OF True]
    moreover have "width_loop sz width = width_loop sz (Suc width)" using True by (simp add: width_loop.simps [of sz width])
    ultimately show ?thesis by (cases "Suc width < width_loop sz (Suc width)") auto
  next
    case False
    then have "width_loop sz width = width" by (simp add: width_loop.simps [of sz width])
    with False show ?thesis by (simp add: drop_bit_eq_div div_eq_0_iff)
  qed
qed

text \<open>
  The tables are large enough. For a suggested size between 1 and 65536 the loop that computes the width ends with
  the least width, from 1 on, whose power of two is greater than the suggestion; every other suggestion gives the
  default or the maximal width. The width is always admissible.
\<close>

theorem wg_width_correct:
  "1 \<le> wg_width n \<and> wg_width n \<le> DYCO_HTABLE_MAXWITDH \<and>
   (if n \<le> 0 then wg_width n = DYCO_HTABLE_DEFAULTWITDH
    else if n > 65536 then wg_width n = DYCO_HTABLE_MAXWITDH
    else n < 2 ^ nat (wg_width n) \<and> (wg_width n = 1 \<or> 2 ^ nat (wg_width n - 1) \<le> n))"
proof (cases "0 < n \<and> n \<le> 65536")
  case True
  define v where "v = width_loop (nat n) 1"
  from width_loop_bounds [of 1 "nat n"] have v: "1 \<le> v" "nat n < 2 ^ v" "1 < v \<Longrightarrow> 2 ^ (v - 1) \<le> nat n" by (auto simp: v_def)
  have n: "n < 2 ^ v" using v(2) True by (metis of_nat_less_iff of_nat_numeral of_nat_power int_nat_eq order_less_imp_le)
  have l: "2 ^ (v - 1) \<le> n" if "1 < v" using v(3) [OF that] True by (metis le_nat_iff numeral_power_le_of_nat_cancel_iff order_less_imp_le of_nat_numeral of_nat_power)
  have "v \<le> 17"
  proof (rule ccontr)
    assume "\<not> v \<le> 17"
    then have "(2 :: int) ^ 17 \<le> 2 ^ (v - 1)" by (intro power_increasing) auto
    with l \<open>\<not> v \<le> 17\<close> True show False by simp
  qed
  moreover have "wg_width n = int v" using True by (simp add: wg_width_def v_def)
  moreover have "nat (int v - 1) = v - 1" by simp
  ultimately show ?thesis using True v(1) n l by (cases "v = 1") (auto simp: DYCO_HTABLE_MAXWITDH_def)
qed (auto simp: wg_width_def DYCO_HTABLE_MAXWITDH_def DYCO_HTABLE_DEFAULTWITDH_def)

section \<open>Members\<close>

text \<open>The members of a group are the identifiers in its table; the total counts them, in 32 bits.\<close>

definition members :: "addr \<Rightarrow> world \<Rightarrow> i32 set" where
  "members p w = (case wgroups w p of None \<Rightarrow> {} | Some wg \<Rightarrow> dom (ht_abs (cid_set wg)))"

definition wg_counted :: "addr \<Rightarrow> world \<Rightarrow> bool" where
  "wg_counted p w = (case wgroups w p of None \<Rightarrow> False | Some wg \<Rightarrow> ht_wf (cid_set wg) \<and> tot_size wg = of_nat (card (members p w)))"

text \<open>
  Members are counted once. Adding an admissible identifier to a group whose total is the number of its members
  makes it a member and keeps the total right; the result tells whether it is new. The table must not have reached its
  maximal width: there \<^verbatim>\<open>htable_insert\<close> may return -1 for an identifier it has inserted.
\<close>

theorem waitgroup_add_correct:
  assumes "wg_counted p w" and "p \<noteq> NULL" and "key_ok k" and "plenty (heap w)" and "wgroups w p = Some wg" and "hwidth (cid_set wg) < DYCO_HTABLE_MAXWITDH"
  shows "\<exists>w'. dyco_waitgroup_add p k w = Done (if k \<in> members p w then 0 else 1) w' \<and> wg_counted p w' \<and>
    members p w' = insert k (members p w) \<and> map_option finished (wgroups w' p) = Some (finished wg) \<and> plenty (heap w')"
proof -
  from assms(1,5) have wf: "ht_wf (cid_set wg)" and tot: "tot_size wg = of_nat (card (dom (ht_abs (cid_set wg))))"
    by (simp_all add: wg_counted_def members_def)
  show ?thesis
  proof (cases "ht_abs (cid_set wg) k")
    case None
    from htable_insert_absent [OF wf assms(3) None assms(4), of NULL] assms(6) obtain ht' m' where
      i: "htable_insert (cid_set wg) k NULL (heap w) = Some (1, ht', m')" "ht_wf ht'" "ht_abs ht' = (ht_abs (cid_set wg))(k \<mapsto> NULL)" "plenty m'" by auto
    then show ?thesis using assms(2,5) None tot wf card_dom_new [of "ht_abs (cid_set wg)" k NULL]
      by (auto simp: dyco_waitgroup_add_def wg_htable_insert_def members_def wg_counted_def domIff)
  next
    case (Some d)
    from htable_insert_present [OF wf assms(3), of NULL "heap w"] Some obtain ht' where
      i: "htable_insert (cid_set wg) k NULL (heap w) = Some (0, ht', heap w)" "ht_wf ht'" "ht_abs ht' = (ht_abs (cid_set wg))(k \<mapsto> NULL)" by auto
    then show ?thesis using assms(2,4,5) Some tot wf
      by (auto simp: dyco_waitgroup_add_def wg_htable_insert_def members_def wg_counted_def insert_absorb domIff)
  qed
qed

section \<open>Being done\<close>

lemma raises_wg_notify:
  assumes "0 \<le> sint v" "x = of_int (sint v)"
  shows "raises (\<lambda>n. wg_notify n v) x"
proof -
  have "sint v < 2 ^ 31" using sint_lt [of v] by simp
  then have "uint x = sint v" using assms take_bit_int_eq_self [of "sint v" 64] by (simp only: uint_word_of_int_eq) simp
  moreover have "scast v = x" by (simp add: assms(2))
  ultimately show ?thesis
    using \<open>sint v < 2 ^ 31\<close> by (simp add: raises_def wg_notify_def eventfd_write_def DYCO_MUST_def)
qed

lemma sint_succ:
  assumes "0 \<le> sint (v :: i32)" "sint v + 1 < 2 ^ 31"
  shows "sint (v + 1) = sint v + 1"
  using assms by (simp add: sint_word_ariths(1) signed_take_bit_int_eq_self)

lemma key_ok_pos: "0 < sint (v :: i32) \<Longrightarrow> key_ok v"
  by (auto simp: key_ok_def)

lemma raised_cong: "waiter_fd w' = waiter_fd w \<Longrightarrow> fds w' = fds w \<Longrightarrow> raised w' xs v = raised w xs v"
  by (simp add: raised_def fun_eq_iff)

lemma raised_twice:
  assumes "waiter_fd w' = waiter_fd w" "fds w' = raised w xs v"
  shows "raised w' ys v = raised w (xs @ ys) v"
  using assms by (simp add: raised_def fun_eq_iff image_Un)

text \<open>
  C10: a member that is done wakes the right waiters. When coroutine \<open>c\<close>, a member, calls
  \<^verbatim>\<open>dyco_waitgroup_done\<close>, the number of finished members grows by 1 and the new number is written to
  the counters of all who wait for exactly that number (list \<open>xs\<close>), and, if it is the total, of all who wait for everybody
  (list \<open>ys\<close>); no other descriptor changes.
\<close>

theorem waitgroup_done_correct:
  assumes "p \<noteq> NULL" and "wgroups w p = Some wg" and "ht_wf (cid_set wg)" and "ht_wf (target_sublist_map wg)"
    and "sched_key w = s" and "s \<noteq> NULL" and "scheds w s = Some sc" and "curr_thread sc = c" and "c \<noteq> NULL" and "cos w c = Some co"
    and "key_ok (cid co)" and "cid co \<in> members p w" and "0 \<le> sint (finished wg)" and "sint (finished wg) + 1 < 2 ^ 31"
    and "chain (lnodes w) (case ht_abs (target_sublist_map wg) (finished wg + 1) of None \<Rightarrow> NULL | Some a \<Rightarrow> a) xs"
    and "chain (lnodes w) (final_sublist wg) ys" and "length xs \<le> nalloc (heap w)" and "length ys \<le> nalloc (heap w)"
    and "distinct (map (waiter_fd w) (xs @ ys))" and "\<forall>x \<in> set (xs @ ys). fds w (waiter_fd w x) = Some (EventFd 0)"
  shows "dyco_waitgroup_done p w = Done 1 (w\<lparr>wgroups := (wgroups w)(p \<mapsto> wg\<lparr>finished := finished wg + 1\<rparr>),
    fds := raised w (if finished wg + 1 = tot_size wg then xs @ ys else xs) (of_int (sint (finished wg) + 1))\<rparr>)"
proof -
  define g where "g = finished wg + 1"
  define v where "v = (of_int (sint (finished wg) + 1) :: u64)"
  let ?wg = "wg\<lparr>finished := g\<rparr>"
  let ?w1 = "w\<lparr>wgroups := (wgroups w)(p \<mapsto> ?wg)\<rparr>"
  let ?w2 = "?w1\<lparr>fds := raised w xs v\<rparr>"
  let ?t = "case ht_abs (target_sublist_map wg) g of None \<Rightarrow> NULL | Some a \<Rightarrow> a"
  have g: "sint g = sint (finished wg) + 1" unfolding g_def by (rule sint_succ [OF assms(13,14)])
  have "0 \<le> sint g" "v = of_int (sint g)" using assms(13) g by (linarith, simp only: v_def)
  then have r: "raises (\<lambda>n. wg_notify n g) v" by (rule raises_wg_notify)
  have k: "key_ok g" by (rule key_ok_pos) (use g assms(13) in simp)
  have wf: "waiter_fd ?w1 = waiter_fd w" "waiter_fd ?w2 = waiter_fd w" by (rule waiter_fd_cong, simp)+
  have 1: "each_node (\<lambda>n. wg_notify n g) (Suc (nalloc (heap w))) ?t ?w1 = Done () ?w2"
    using notify_all [OF r, of ?w1 ?t xs "Suc (nalloc (heap w))"] assms(15) [folded g_def] assms(17,19,20) wf(1) raised_cong [OF wf(1), of xs v] by simp
  have "\<forall>x \<in> set ys. fds ?w2 (waiter_fd ?w2 x) = Some (EventFd 0)" using assms(19,20) wf(2) by (auto simp: raised_def)
  then have 2: "each_node (\<lambda>n. wg_notify n g) (Suc (nalloc (heap w))) (final_sublist wg) ?w2 = Done () (?w1\<lparr>fds := raised w (xs @ ys) v\<rparr>)"
    using notify_all [OF r, of ?w2 "final_sublist wg" ys "Suc (nalloc (heap w))"] assms(16,18,19) wf(2) raised_twice [of ?w2 w xs v ys]
    by simp
  have c: "htable_contains (cid_set wg) (cid co) = Some 1" using assms(2,3,11,12) by (simp add: htable_contains_abs members_def)
  have f: "htable_find (target_sublist_map wg) g = Some ?t" by (rule htable_find_abs [OF assms(4) k])
  have final: "seq (whenM b (each_node (\<lambda>n. wg_notify n g) (Suc (nalloc (heap w))) (final_sublist wg))) (ret 1) ?w2 =
      Done 1 (?w1\<lparr>fds := raised w (if b then xs @ ys else xs) v\<rparr>)" for b
    by (cases b) (simp_all add: whenM_def seq_Done [where m = "each_node _ _ _", OF 2] del: each_node.simps)
  have "dyco_waitgroup_done p w = seq (each_node (\<lambda>n. wg_notify n g) (Suc (nalloc (heap w))) ?t)
      (seq (whenM (g = tot_size wg) (each_node (\<lambda>n. wg_notify n g) (Suc (nalloc (heap w))) (final_sublist wg))) (ret 1)) ?w1"
    using assms(1,2,5-10) c f
    by (simp add: dyco_waitgroup_done_def with_current_def wg_target_find_def list_fuel_def g_def [symmetric] del: each_node.simps)
  also have "\<dots> = Done 1 (?w1\<lparr>fds := raised w (if g = tot_size wg then xs @ ys else xs) v\<rparr>)"
    unfolding seq_Done [where m = "each_node _ _ _", OF 1] by (rule final)
  finally show ?thesis unfolding g_def v_def .
qed

definition htable5 :: dyco_htable where
  "htable5 = \<lparr>hwidth = 1, hmask = 1, hcount = 1, htable = TBuckets [hempty, hempty\<lparr>bid := 5\<rparr>]\<rparr>"

lemma htable5_ok: "ht_wf htable5" "ht_abs htable5 = [5 \<mapsto> NULL]"
proof -
  let ?m = "\<lparr>nalloc = 100, oom = \<lambda>_. False\<rparr>"
  have "htable_insert htable2 5 NULL ?m = Some (1, htable5, ?m)"
    by (simp add: htable_insert_def htable2_def htable5_def hb_at_def hidx_def hb_put_def htable_grow_def DYCO_HTABLE_MAXALPHA_def)
  with htable2_empty show "ht_wf htable5" "ht_abs htable5 = [5 \<mapsto> NULL]"
    using htable_insert_absent [of htable2 5 ?m NULL] by (auto simp: key_ok_def plenty_def)
qed

definition world_wg :: world where
  "world_wg = (world0 [7 \<mapsto> co0\<lparr>cid := 5\<rparr>] (zero_schedule\<lparr>curr_thread := 7\<rparr>))\<lparr>
     wgroups := [20 \<mapsto> \<lparr>tot_size = 1, finished = 0, cid_set = htable5, target_sublist_map = htable2, final_sublist = 31\<rparr>],
     lnodes := [31 \<mapsto> \<lparr>notifyfd = 11, nl_next = NULL\<rparr>], fds := [11 \<mapsto> EventFd 0]\<rparr>"

definition wg1 :: dyco_waitgroup where
  "wg1 = \<lparr>tot_size = 1, finished = 0, cid_set = htable5, target_sublist_map = htable2, final_sublist = 31\<rparr>"

lemma world_wg_facts:
  "wgroups world_wg 20 = Some wg1" "plenty (heap world_wg)" "members 20 world_wg = {5}" "wg_counted 20 world_wg"
  "sched_key world_wg = 1" "scheds world_wg 1 = Some (zero_schedule\<lparr>curr_thread := 7\<rparr>)" "cos world_wg 7 = Some (co0\<lparr>cid := 5\<rparr>)"
  "chain (lnodes world_wg) 31 [31]" "waiter_fd world_wg 31 = 11" "fds world_wg 11 = Some (EventFd 0)" "1 \<le> nalloc (heap world_wg)"
  by (simp_all add: world_wg_def wg1_def plenty_def members_def wg_counted_def htable5_ok waiter_fd_def)

theorem waitgroup_add_correct_witness:
  "\<exists>w'. dyco_waitgroup_add 20 6 world_wg = Done 1 w' \<and> members 20 w' = {6, 5} \<and> wg_counted 20 w'"
proof -
  have "key_ok 6" "hwidth (cid_set wg1) < DYCO_HTABLE_MAXWITDH" by (simp_all add: key_ok_def wg1_def htable5_def DYCO_HTABLE_MAXWITDH_def)
  from waitgroup_add_correct [OF world_wg_facts(4) _ this(1) world_wg_facts(2,1) this(2)] show ?thesis by (auto simp: world_wg_facts(3))
qed

theorem waitgroup_done_correct_witness:
  "\<exists>w'. dyco_waitgroup_done 20 world_wg = Done 1 w' \<and> fds w' 11 = Some (EventFd 1)"
proof -
  have "ht_wf (cid_set wg1)" "ht_wf (target_sublist_map wg1)" "key_ok (cid (co0\<lparr>cid := 5\<rparr>))" by (simp_all add: wg1_def htable5_ok key_ok_def)
  note pre = this world_wg_facts
  have "dyco_waitgroup_done 20 world_wg = Done 1 (world_wg\<lparr>wgroups := (wgroups world_wg)(20 \<mapsto> wg1\<lparr>finished := finished wg1 + 1\<rparr>),
      fds := raised world_wg (if finished wg1 + 1 = tot_size wg1 then [] @ [31] else []) (of_int (sint (finished wg1) + 1))\<rparr>)"
    by (rule waitgroup_done_correct [OF _ pre(4) pre(1,2) pre(8) _ pre(9) _ _ pre(10) pre(3)])
      (use pre in \<open>simp_all add: wg1_def htable2_empty\<close>)
  then show ?thesis by (simp add: wg1_def raised_def world_wg_facts)
qed

end
