(* ===== verification/Socket_Correct.thy ===== *)
theory Socket_Correct
  imports Dyco_Inv Dyco_Socket Dyco_Ssl Timer_Correct
begin

text \<open>
  What the socket functions promise: bytes reach the kernel in order, without gaps and without
  repetition, however the kernel cuts them up and however often the coroutine switches; and what they do on
  the error paths.
\<close>

section \<open>Relying on the other coroutines\<close>

text \<open>
  \<open>rely_ok R Q\<close>: provided the other contexts change the world only as \<open>R\<close> allows while the computation is
  switched out, it ends with \<open>Q\<close>.
\<close>

primrec rely_ok :: "('s \<Rightarrow> 's \<Rightarrow> bool) \<Rightarrow> ('a \<Rightarrow> 's \<Rightarrow> bool) \<Rightarrow> ('s, 'a) outcome \<Rightarrow> bool" where
  "rely_ok R Q (Done a s) = Q a s"
| "rely_ok R Q (Fault e) = True"
| "rely_ok R Q (Swap f t s k) = (\<forall>s'. R s s' \<longrightarrow> rely_ok R Q (k s'))"

lemma rely_ok_mono: "rely_ok R Q out \<Longrightarrow> (\<And>a s. Q a s \<Longrightarrow> Q' a s) \<Longrightarrow> rely_ok R Q' out"
  by (induction out) auto

lemma rely_ok_bind_out: "rely_ok R (\<lambda>a s. rely_ok R Q (k a s)) out \<Longrightarrow> rely_ok R Q (bind_out out k)"
  by (induction out) auto

lemma rely_ok_bind: "rely_ok R (\<lambda>a s'. rely_ok R Q (k a s')) (m s) \<Longrightarrow> rely_ok R Q (bind m k s)"
  by (simp add: bind_def rely_ok_bind_out)

lemma rely_ok_seq: "rely_ok R (\<lambda>_ s'. rely_ok R Q (k s')) (m s) \<Longrightarrow> rely_ok R Q (seq m k s)"
  by (simp add: seq_def rely_ok_bind)

text \<open>Nobody else sends on the descriptor.\<close>

definition quiet :: "fd \<Rightarrow> world \<Rightarrow> world \<Rightarrow> bool" where
  "quiet n w w' = (wire w' n = wire w n)"

lemma rely_of_outcome:
  assumes "outcome_ok (\<lambda>w. wire w n = W) (\<lambda>_ w. wire w n = W) out"
  shows "rely_ok (quiet n) (\<lambda>_ w. wire w n = W) out"
  using assms by (induction out) (auto simp: quiet_def)

lemma waitev_quiet: "rely_ok (quiet n) (\<lambda>_ w'. wire w' n = wire w n) (waitev m ev t w)"
proof (rule rely_of_outcome)
  have "stable (\<lambda>v. wire v n = wire w n) (waitev m ev t)"
    using detached_stable [OF detached_coro4(1), of "\<lambda>(_, _, _, _, x). x n = wire w n"] by (simp add: comm_view_def)
  then show "outcome_ok (\<lambda>v. wire v n = wire w n) (\<lambda>_ v. wire v n = wire w n) (waitev m ev t w)" by (rule stableD) simp
qed

lemma send_f_run:
  "rely_ok R (\<lambda>(r, e) w'. (r > 0 \<longrightarrow> wire w' n = wire w n @ take (nat r) bs \<and> nat r \<le> length bs) \<and> (r \<le> 0 \<longrightarrow> wire w' n = wire w n))
    (send_f n bs w)"
  by (auto simp: send_f_def Let_def split: prod.splits)

section \<open>Sending\<close>

text \<open>What the sender has achieved: the first \<open>k\<close> bytes of the buffer have been accepted.\<close>

definition accepted :: "fd \<Rightarrow> world \<Rightarrow> byte list \<Rightarrow> nat \<Rightarrow> world \<Rightarrow> bool" where
  "accepted n w0 buf k w = (k \<le> length buf \<and> wire w n = wire w0 n @ take k buf)"

lemma accepted_more:
  assumes "accepted n w0 buf k w" "wire w' n = wire w n @ take j (drop k buf)" "j \<le> length (drop k buf)"
  shows "accepted n w0 buf (k + j) w'"
  using assms by (auto simp: accepted_def take_add)

definition loop_result :: "fd \<Rightarrow> world \<Rightarrow> byte list \<Rightarrow> nat \<Rightarrow> int + nat \<times> int \<Rightarrow> world \<Rightarrow> bool" where
  "loop_result n w0 buf sent0 x w =
    (case x of
       Inl r \<Rightarrow> r \<le> 0 \<and> (\<exists>k. accepted n w0 buf k w)
     | Inr (sent, r) \<Rightarrow> accepted n w0 buf sent w \<and> sent0 \<le> sent \<and> (r > 0 \<longrightarrow> sent = length buf))"

lemma loop_result_simps [simp]:
  "loop_result n w0 buf sent0 (Inl r) w = (r \<le> 0 \<and> (\<exists>k. accepted n w0 buf k w))"
  "loop_result n w0 buf sent0 (Inr (sent, r)) w = (accepted n w0 buf sent w \<and> sent0 \<le> sent \<and> (r > 0 \<longrightarrow> sent = length buf))"
  by (simp_all add: loop_result_def)

lemma send_loop_ok:
  assumes "accepted n w0 buf sent w" "sent0 \<le> sent"
  shows "rely_ok (quiet n) (loop_result n w0 buf sent0) (send_loop fuel n buf sent r w)"
  using assms
proof (induction fuel arbitrary: sent r w)
  case 0
  then show ?case by (auto simp: accepted_def)
next
  case (Suc fuel)
  show ?case
  proof (cases "sent < length buf")
    case True
    have step: "rely_ok (quiet n) (loop_result n w0 buf sent0)
        ((if fst x \<le> 0 then if snd x = EAGAIN then send_loop fuel n buf sent (fst x)
             else if snd x = ECONNRESET then ret (Inl (fst x)) else ret (Inr (sent, fst x))
          else send_loop fuel n buf (sent + nat (fst x)) (fst x)) v)"
      if x: "(fst x > 0 \<longrightarrow> wire v n = wire w1 n @ take (nat (fst x)) (drop sent buf) \<and> nat (fst x) \<le> length (drop sent buf)) \<and>
        (fst x \<le> 0 \<longrightarrow> wire v n = wire w1 n)" and w1: "accepted n w0 buf sent w1" for x :: "int \<times> int" and v w1
    proof (cases "fst x \<le> 0")
      case True
      then have a: "accepted n w0 buf sent v" using x w1 by (simp add: accepted_def)
      with Suc.IH [OF a Suc.prems(2)] True Suc.prems(2) show ?thesis by auto
    next
      case False
      then have a: "accepted n w0 buf (sent + nat (fst x)) v" using x accepted_more [OF w1] by simp
      with Suc.IH [OF a] False Suc.prems(2) show ?thesis by simp
    qed
    have "rely_ok (quiet n) (\<lambda>_ w1. accepted n w0 buf sent w1) (waitev n (EPOLLOUT OR EPOLLERR OR EPOLLHUP) TIMEOUT_INFINIT w)"
      by (rule rely_ok_mono [OF waitev_quiet]) (use Suc.prems(1) in \<open>simp add: accepted_def\<close>)
    with True show ?thesis
      apply (simp add: case_prod_unfold del: seq_if bind_if)
      apply (rule rely_ok_seq, erule rely_ok_mono)
      apply (rule rely_ok_bind, rule rely_ok_mono [OF send_f_run])
      apply (rule step)
       apply (auto simp: case_prod_unfold)
      done
  next
    case False
    with Suc.prems show ?thesis by (auto simp: accepted_def)
  qed
qed

text \<open>
  A positive result is the length of the prefix of the buffer that was accepted; otherwise some prefix was.
\<close>

definition sent_prefix :: "fd \<Rightarrow> world \<Rightarrow> byte list \<Rightarrow> int \<Rightarrow> world \<Rightarrow> bool" where
  "sent_prefix n w buf r w' =
    (if 0 < r then nat r \<le> length buf \<and> wire w' n = wire w n @ take (nat r) buf
     else \<exists>k \<le> length buf. wire w' n = wire w n @ take k buf)"

lemma send_result_ok:
  assumes "loop_result n w buf 0 x v"
  shows "rely_ok R (sent_prefix n w buf) ((case x of Inl r \<Rightarrow> ret r
      | Inr (sent, r) \<Rightarrow> if r \<le> 0 \<and> sent = 0 then ret r else ret (int sent)) v)"
  using assms by (cases x) (auto simp: sent_prefix_def accepted_def split: prod.splits if_splits)

lemma send_whole_ok: "rely_ok (quiet n) (sent_prefix n w buf) (send_whole fuel n buf w)"
proof -
  have first: "rely_ok (quiet n) (sent_prefix n w buf) ((if fst x = 0 then ret (fst x)
      else bind (send_loop fuel n buf (if fst x > 0 then nat (fst x) else 0) (fst x)) (\<lambda>x. case x of Inl r \<Rightarrow> ret r
        | Inr (sent, r) \<Rightarrow> if r \<le> 0 \<and> sent = 0 then ret r else ret (int sent))) v)"
    if x: "(fst x > 0 \<longrightarrow> wire v n = wire w n @ take (nat (fst x)) buf \<and> nat (fst x) \<le> length buf) \<and> (fst x \<le> 0 \<longrightarrow> wire v n = wire w n)"
    for x :: "int \<times> int" and v
  proof (cases "fst x = 0")
    case False
    have "accepted n w buf (if fst x > 0 then nat (fst x) else 0) v" using x by (auto simp: accepted_def)
    note loop = send_loop_ok [OF this le0, of fuel "fst x"]
    show ?thesis unfolding if_not_P [OF False]
      by (rule rely_ok_bind, rule rely_ok_mono [OF loop], rule send_result_ok)
  qed (use x in \<open>auto simp: sent_prefix_def\<close>)
  show ?thesis unfolding send_whole_def case_prod_unfold
    by (rule rely_ok_bind, rule rely_ok_mono [OF send_f_run], rule first [unfolded case_prod_unfold]) (simp add: case_prod_unfold)
qed

text \<open>
  C11: a send delivers a prefix. While nobody else sends on the descriptor, and whatever the kernel accepts at
  each attempt, a send that returns \<open>r > 0\<close> has handed the kernel exactly the first \<open>r\<close> bytes of
  the buffer, in order and once; any other result means that it was handed some prefix of the buffer.
\<close>

theorem send_delivers_prefix: "rely_ok (quiet n) (sent_prefix n w buf) (dyco_send fuel n buf w)"
  unfolding dyco_send_def by (rule send_whole_ok)

text \<open>
  A descriptor is lost. If a new socket cannot be made non-blocking, \<^verbatim>\<open>dyco_socket\<close> returns -1 but the
  descriptor it has opened stays open: the code closes the result of \<^verbatim>\<open>fcntl\<close> instead.
\<close>

theorem socket_leaks:
  assumes "newfd (environ w) (tick w) = n" and "0 \<le> n" and "fds w n = None" and "fds w (- 1) = None"
    and "fst (sysres (environ w) (Suc (tick w))) < 0"
  shows "\<exists>w'. dyco_socket w = Done (- 1) w' \<and> fds w' n = Some OtherFd"
  using assms by (auto simp: dyco_socket_def open_fd_def fcntl_nonblock_def sys_status_def close_def split: prod.splits)

theorem socket_leaks_witness:
  "\<exists>w'. dyco_socket ((world0 Map.empty zero_schedule)\<lparr>environ := env0\<lparr>sysres := \<lambda>_. (- 1, 22)\<rparr>\<rparr>) = Done (- 1) w' \<and> fds w' 10 = Some OtherFd"
  using socket_leaks [of "(world0 Map.empty zero_schedule)\<lparr>environ := env0\<lparr>sysres := \<lambda>_. (- 1, 22)\<rparr>\<rparr>" 10] by simp

section \<open>SSL\<close>

text \<open>
  The length of an SSL read is wrong. When the descriptor is readable and the library reads fewer bytes than
  the caller asked for, without an error, \<^verbatim>\<open>dyco_SSL_read\<close> returns the number asked for, not the number read.
\<close>

theorem ssl_read_reports_num:
  assumes "dyco_coroutine_waitRead n (- 1) w = Done x w1" and "x > 0" and "sysres (environ w1) (tick w1) = (r, SSL_ERROR_NONE)" and "0 < r"
    and "sysbytes (environ w1) (Suc (tick w1)) = bs" and "length bs < num"
  shows "\<exists>w2 got. dyco_SSL_read (Suc fuel) n num w = Done (int num, got) w2 \<and> length got < num"
proof -
  have "\<exists>w2. dyco_SSL_read (Suc fuel) n num w = Done (int num, take num (take (nat r) bs)) w2"
    using assms by (simp add: bind_Done [where m = "dyco_coroutine_waitRead n (- 1)"] SSL_read_def ssl_call_def Let_def)
  moreover have "length (take num (take (nat r) bs)) < num" using assms(6) by simp
  ultimately show ?thesis by blast
qed

theorem ssl_read_reports_num_witness:
  "\<exists>w2 got. dyco_SSL_read (Suc 0) 6 4 ((world0 Map.empty zero_schedule)\<lparr>fds := [6 \<mapsto> EventFd 1],
      environ := env0\<lparr>sysres := \<lambda>_. (2, SSL_ERROR_NONE), sysbytes := \<lambda>_. [1, 2]\<rparr>\<rparr>) = Done (4, got) w2 \<and> length got < 4"
proof -
  let ?w = "(world0 Map.empty zero_schedule)\<lparr>fds := [6 \<mapsto> EventFd 1], environ := env0\<lparr>sysres := \<lambda>_. (2, SSL_ERROR_NONE), sysbytes := \<lambda>_. [1, 2]\<rparr>\<rparr>"
  have "dyco_coroutine_waitRead 6 (- 1) ?w = Done 1 (?w\<lparr>tick := Suc (tick ?w)\<rparr>)"
    by (simp add: dyco_coroutine_waitRead_def waitev_def poll1_def EPOLLIN_def EPOLLERR_def EPOLLHUP_def)
  from ssl_read_reports_num [OF this, of 2 "[1, 2]" 4 0] show ?thesis by simp
qed

end
