(* ===== verification/Spec2Isabelle.thy ===== *)
theory Spec2Isabelle
  imports Sys_Circleq Sys_Splay Uctx_Entry Sleep_Program Stop_Correct Event_Correct Pool_Correct Comm_Run Channel_Correct Semaphore_Correct Pubsub_Correct Waitgroup_Correct Socket_Correct
begin

text \<open>
  Verification library of dyco-coroutine, a stackful coroutine library in C with schedulers, asymmetric
  coroutines, pools, channels, publish/subscribe channels, wait groups, semaphores, signals, sockets and
  SSL. Paths are relative to \<^verbatim>\<open>src/\<close>, the root of the repository.

  \<^bold>\<open>The program.\<close> A thread has at most one scheduler (\<^verbatim>\<open>src/dyco_schedule.c\<close>). It keeps its coroutines in
  two ready queues (tail queues of \<^verbatim>\<open>include/dyco/sys_queue.h\<close>), a tree of sleepers ordered by wake-up time
  (red-black tree of \<^verbatim>\<open>include/dyco/sys_tree.h\<close>), a map from descriptors to the coroutines that wait for
  them and a map from identifiers to coroutines (hash tables of \<^verbatim>\<open>include/dyco/dyco_htable.h\<close>). Its main loop queues
  the sleepers that are due (phase A), resumes urgent and ordinary coroutines (B, C) and queues those whose
  descriptor is ready (D). A coroutine (\<^verbatim>\<open>src/dyco_coroutine.c\<close>) runs on the scheduler's stack, which is copied out
  and in at every switch, or on its own; it gives up control by switching to the scheduler's context
  after it has registered what will make it runnable again. Everything else is built on that: whoever
  has to wait opens an event counter, registers it with the scheduler, switches, and is woken by whoever writes to
  the counter. Requests only the scheduler's context can fulfil (signal mask, stop, abort) are left in the scheduler's call
  record and carried out when the coroutine has switched (\<^verbatim>\<open>src/dyco_schedcall.c\<close>).

  \<^bold>\<open>The model.\<close> Every function is written in a resumption monad (theory \<open>Dyco_Prelude\<close>): applied to the world it
  returns (\<open>Done\<close>), stops the process or reaches undefined behaviour (\<open>Fault\<close>, with the reason), or
  calls \<^verbatim>\<open>swapcontext\<close> (\<open>Swap\<close>, with the continuation). The world (\<open>Dyco_Types\<close>) has one partial map per kind of
  object, so a use after free and a double free are faults, the descriptor table with event counters and interest lists,
  the thread's scheduler, the signal mask, and a record of what leaves the process: the bytes sent on each descriptor, the lines
  printed, the time limits given to \<^verbatim>\<open>epoll_wait\<close>. What the kernel or a
  library decides is a parameter: the functions of the record \<open>env\<close>, read one after the other; the
  theorems hold for every \<open>env\<close>, except that those about programs that sleep assume a clock that moves on and a kernel that does not interrupt every wait (below). Allocation may fail at any call. Assertions are compiled out, as in the release build; the
  checks \<^verbatim>\<open>DYCO_MUST\<close> and \<^verbatim>\<open>DYCO_MUSTNOT\<close> end the process (fault \<open>Exit\<close>).
  Words keep their widths: times and counters are 64-bit, identifiers, flags and the counters of wait groups 32-bit words, whose additions wrap
  around (where C leaves the overflow of an \<^verbatim>\<open>int\<close> undefined).

  \<^bold>\<open>Theories, in the order of their dependencies.\<close>
  \<^item> \<open>Dyco_Prelude\<close>: machine types, allocation, bit macros, the monad and its laws.
  \<^item> \<open>Dyco_Htable\<close> (all of \<^verbatim>\<open>dyco_htable.h\<close>) and \<open>Htable_Map\<close>: the table refines a finite map for all identifiers but 0
    and -1 and its load is bounded (-1 marks empty buckets, and inserting it hides other entries); the contract is the locale \<open>id_map\<close>, interpreted as \<open>htab\<close>. After two
    resizings an identifier 0 appears that nobody inserted.
  \<^item> \<open>Sys_Queue\<close>: the tail queue and list macros on the pointers; locale \<open>ready_queues\<close>, interpreted as
    \<open>tailq\<close>; first in, first out.
  \<^item> \<open>Sys_Lists\<close>, \<open>Sys_Stailq\<close>, \<open>Sys_Circleq\<close>: all other macros of \<^verbatim>\<open>sys_queue.h\<close>. The contract of an edit at an
    element and of the two loops is the locale \<open>linked\<close>, that of the lists with backward links \<open>two_way\<close>; interpreted as
    \<open>tailq_edit\<close>, \<open>list_edit\<close>, \<open>stailq_edit\<close>, \<open>simpleq_edit\<close>, \<open>slist_edit\<close> and \<open>circleq_edit\<close>: six
    representations of the same sequence.
  \<^item> \<open>Sys_Tree\<close> and \<open>Tree_Correct\<close>: insertion, removal, search, minimum and maximum with their rebalancing;
    order and balance are kept, no NULL pointer is followed, the depth is logarithmic; locale \<open>sleep_queue\<close>,
    interpreted as \<open>sleepers\<close>.
  \<^item> \<open>Tree_Walk\<close>: successor, predecessor and the loops over a red-black tree, which visit all elements in order.
    \<open>Sys_Splay\<close>: the splay tree of the same header refines a sorted list.
  \<^item> \<open>Dyco_Types\<close>, \<open>Dyco_Libc\<close>: the structures of \<^verbatim>\<open>dyco_coroutine.h\<close>, the world, and the system calls.
  \<^item> \<open>Dyco_Schedule\<close> with \<open>Timer_Correct\<close> and \<open>Wait_Correct\<close>: the scheduler's containers. Setting a timer
    and taking the earliest expired one do what they should to the set of sleepers; registering and
    cancelling a wait are inverse; a timer can be taken from another coroutine with the same key.
  \<^item> \<open>Dyco_Coroutine\<close> with \<open>Coroutine_Correct\<close>: creation, release, stacks, yield, waiting and sleeping. The
    saved stack survives; a new coroutine is registered and queued; identifiers repeat after 2^24 creations, not before, and those of
    schedulers whose numbers agree in the low byte coincide; they are negative numbers when bit 7 of that byte is set.
    \<open>Sched_Create\<close>: a new scheduler is empty; the thread-specific key under which it is found is made by the first coroutine, so a scheduler created
    before that is lost.
  \<^item> \<open>Dyco_Asymcoro\<close>, \<open>Dyco_Coropool\<close> with \<open>Pool_Correct\<close>: asymmetric coroutines and pools. Free and used coroutines
    add up to the size of a pool; a returned one wakes the first waiter and is the next one handed out.
  \<^item> \<open>Dyco_Run\<close> with \<open>Run_Correct\<close> and \<open>Event_Correct\<close>: scheduler calls, abort, resume, the main loop, and
    \<open>machine\<close>, which runs all contexts of a thread by keeping the continuation of every saved context. Phases A and D queue exactly whom they should, in order; and the faults of
    the release paths. \<open>Round_Robin\<close>: the phases that resume coroutines are fair; the scheduler and the coroutines of a queue take turns, and
    of those that were queued at the beginning as many run as the phase allows, in order. \<open>Stop_Correct\<close>: a coroutine that stops the scheduler ends the run, and
    is left ready for the next one. The scheduler never waits past its earliest sleeper. \<open>Asym_Correct\<close>: resuming and yielding of asymmetric coroutines are inverse, on
    stacks of their own and, when the thread resumes them, on the shared stack.
  \<^item> \<open>Dyco_Notify\<close> with \<open>Notify_Correct\<close>: what the communication primitives share, and its lists of event
    counters.
  \<^item> \<open>Dyco_Inv\<close>: invariants under interleaving. A computation that restores an invariant at each of its switches,
    relying on nothing else after them, keeps it however the coroutines are interleaved; all functions of the scheduler,
    the coroutines and the pools leave the objects of the communication primitives alone (\<open>detached\<close>).
  \<^item> \<open>Dyco_Semaphore\<close>, \<open>Dyco_Channel\<close> with \<open>Semaphore_Correct\<close>, \<open>Channel_Correct\<close>: semaphores are fair;
    a channel is a one-place buffer (locale \<open>one_place\<close>, interpreted as \<open>chan\<close>).
  \<^item> \<open>Dyco_Pubsub\<close> with \<open>Pubsub_Correct\<close>; \<open>Dyco_Waitgroup\<close> with \<open>Waitgroup_Correct\<close>: a broadcast reaches every subscriber in any
    order; members are counted once and the right waiters are woken.
  \<^item> \<open>Dyco_Socket\<close>, \<open>Dyco_Ssl\<close> with \<open>Socket_Correct\<close>: a send hands the kernel a prefix of the buffer, once and in order, whatever
    is accepted at each attempt; \<open>Dyco_Epoll\<close> and \<open>Dyco_Signal\<close>: the hooks of \<^verbatim>\<open>epoll_wait\<close> and \<^verbatim>\<open>poll\<close>, signals
    and child processes.
  \<^item> \<open>Comm_Inv\<close>, \<open>Comm_Run\<close>: the invariant of the communication objects, and programs as trees of calls of the whole
    interface. For every such program, whole runs of the scheduler keep the invariant.
  \<^item> \<open>Uctx_Asm\<close>, \<open>Uctx_Context\<close>, \<open>Uctx_Correct\<close>, \<open>Uctx_Entry\<close>: what \<open>Swap\<close> stands for on the machines for which the library brings its own
    contexts: byte-addressed memory, the assembler routines as lists of instructions, \<^verbatim>\<open>makecontext\<close> and \<^verbatim>\<open>swapcontext\<close>. The contract of a
    pair of routines is the locale \<open>context_save\<close>, extended to \<open>context_switch\<close>, under which a call of \<^verbatim>\<open>swapcontext\<close> returns exactly once;
    interpreted as \<open>amd64\<close>, \<open>i386\<close>, \<open>power\<close>, \<open>arm\<close> and, for the weaker one only, \<open>mips\<close>. New contexts enter their function on an aligned
    stack pointer inside of the stack; the offsets of the routines are those of the structures.
  \<^item> \<open>Sleep_Turn\<close>, \<open>Sleep_Run\<close>, \<open>Sleep_Program\<close>: total correctness of whole programs whose coroutines print and sleep, from the creation of the first
    coroutine to the return of \<^verbatim>\<open>dyco_schedule_run\<close>. The invariant \<open>sleepy\<close> ties the queues, the tree of sleepers, the identifier map, the count,
    the stacks, the saved contexts and the wake-up times together; every turn and every phase keeps it and uses up a turn or waits for the next
    wake-up; at the end everybody has come to the end of its function and is released, and every line has been printed exactly once. \<^verbatim>\<open>example/sleep.c\<close> is
    an instance.
  \<^item> \<open>Run_Eval\<close>: rules with which the simplifier executes whole runs, for the witnesses.

  \<^bold>\<open>Errors.\<close> Many theorems state what goes wrong, because the model shows it: a coroutine queued twice never leaves the
  queue; a released coroutine is deleted from its map twice; a semaphore wait that times out, a poll of an idle
  publish/subscribe channel and the end of a coroutine with an epoll instance end the process; a channel is never
  destroyed, and the coroutines of a shrinking pool are not freed; a scheduler created before the first coroutine is lost; the first switch faults
  on amd64 and on MIPS a switch ends only if a register nobody saves happens not to be 0, where the library's own contexts are used; the last subscriber of a closed channel receives an old message.

  \<^bold>\<open>Loops.\<close> Loops over a container take the size of the container as fuel and are shown to end (the insertion
  loop of a timer, the expiry loop, searches in chains). Loops over lists of event counters take the number of
  allocations made so far, which bounds the length of any acyclic list. The loops of the macros \<^verbatim>\<open>FOREACH\<close> and the walks
  up a tree are partial functions into \<open>option\<close>, shown to return on well-formed structures. The width loop of a wait group is a terminating
  function. Loops that need not end (the main loop, waiting for the kernel, retries of socket calls, the machine)
  take an explicit fuel, and running out of it is the fault \<open>NoFuel\<close>; the safety theorems about them hold for every
  amount, and the theorems that evaluate a run give an amount that is enough. For the programs that
  print and sleep some amount is enough, and so is every larger one: each iteration takes a turn or brings the clock nearer to a wake-up. They assume (\<open>kind\<close>) a number \<open>K\<close>, as large as
  one likes, such that the clock never goes back and moves on by a microsecond at least once in \<open>K\<close> questions to the environment, and that one of \<open>K\<close> calls of
  \<^verbatim>\<open>epoll_wait\<close> in a row is not interrupted by a signal; further that allocations succeed and that the running stack fits on the shared one.

  \<^bold>\<open>Not modelled.\<close> The table of hooked functions (\<^verbatim>\<open>src/dyco_hook.c\<close>: pointers from \<^verbatim>\<open>dlsym\<close>, without any logic); the
  failure of \<^verbatim>\<open>pthread_key_create\<close>; on the machines with contexts of their own, what the compiler makes of \<^verbatim>\<open>swapcontext\<close> (a
  parameter) and floating-point registers, which the routines do not save; the option \<^verbatim>\<open>DYCO_RANDOM_WAITFD\<close>, which is off; addresses, flags and contents that the socket
  functions only pass on; the example programs except \<^verbatim>\<open>sleep.c\<close>, and the switch benchmark. How much
  time passes in a call is up to \<open>env\<close>: an \<^verbatim>\<open>epoll_wait\<close> may return before its time limit, which is recorded, not enforced. Addresses are never reused, so the model
  reports every use of freed memory; it does not say what an unlucky reuse would lead to. Stack sizes and
  buffer lengths are natural numbers where the code uses \<^verbatim>\<open>int\<close>: the model stands for sizes below two gigabytes. The count of a hash table, the
  value of a semaphore and the numbers of a pool are integers that do not overflow: the value of a semaphore stays in its range, and the numbers of a
  pool are bounded by the size it was asked to have.

  \<^bold>\<open>Choices.\<close> Where the model says less or more than the code does on a real machine:
  \<^item> \<^verbatim>\<open>EPOLL_CTL_ADD\<close> of an open descriptor that is not registered yet succeeds; the errors \<^verbatim>\<open>EPERM\<close>, \<^verbatim>\<open>ENOMEM\<close> and \<^verbatim>\<open>ENOSPC\<close> are left out.
  \<^item> \<^verbatim>\<open>pthread_setspecific\<close> on a key that was never made fails without effect, as in glibc; POSIX leaves it undefined.
  \<^item> When a resizing of a hash table fails half-way, the nodes that were moved to the abandoned table are marked dead, so a later access to them is a fault; a shift
    by a negative width, which C leaves undefined, gives 0.
  \<^item> Trees are algebraic: a parent pointer is the path by which a node was reached, and its updates are implicit. A tree that contains a freed coroutine is a fault at
    every access (\<open>tree_live\<close>), also if the code would not have come to that node.
  \<^item> The stack that \<^verbatim>\<open>savestk\<close> and \<^verbatim>\<open>loadstk\<close> copy is a buffer of bytes whose end is the end of the stack; what a coroutine goes on with is the saved
    continuation, which does not depend on these bytes. That they are where they belong is the subject of theorems of their own.
\<close>

end
